(* ===== verification/Prelude.thy ===== *)
theory Prelude
  imports Main "HOL-Library.Word"
begin

text \<open>
  What every theory of the development shares: machine integers, the exceptions the C++ code
  throws, results (\<open>res\<close>) and stateful computations that may throw (\<open>act\<close>), and the generic
  lemmas about them.  A C++ exception does not undo the writes made before the throw, so \<open>act\<close>
  keeps the state on both branches.
\<close>

section \<open>Machine integers and pointers\<close>

type_synonym u8 = "8 word"
type_synonym u16 = "16 word"
type_synonym u32 = "32 word"
type_synonym u64 = "64 word"

text \<open>\<open>size_t\<close>, \<open>idx_t\<close>, \<open>uint64_t\<close> and \<open>uintptr_t\<close> are 64 bits on every platform the build
  supports; \<open>nullptr\<close> is the address zero.\<close>

type_synonym ptr = u64

abbreviation nullptr :: ptr where "nullptr \<equiv> 0"

section \<open>Exceptions and results\<close>

text \<open>\<open>Hangs\<close> is no exception of the code: it stands for a kernel launch that never ends.\<close>

datatype exn =
    InvalidInputException string
  | NotImplementedException string
  | InternalException string
  | BinderException string
  | BadAlloc
  | InvalidArgument
  | UndefinedBehaviour string
  | Hangs

type_synonym 'a res = "exn + 'a"

definition res_bind :: "'a res \<Rightarrow> ('a \<Rightarrow> 'b res) \<Rightarrow> 'b res" where
  "res_bind m k = (case m of Inl e \<Rightarrow> Inl e | Inr x \<Rightarrow> k x)"

fun res_mapM :: "('a \<Rightarrow> 'b res) \<Rightarrow> 'a list \<Rightarrow> 'b list res" where
  "res_mapM f [] = Inr []"
| "res_mapM f (x # xs) = res_bind (f x) (\<lambda>y. res_bind (res_mapM f xs) (\<lambda>ys. Inr (y # ys)))"

text \<open>A vector access \<open>v[i]\<close>: out of range it is undefined behaviour, which the model makes visible.\<close>

definition vec_at :: "'a list \<Rightarrow> nat \<Rightarrow> 'a res" where
  "vec_at xs i = (if i < length xs then Inr (xs ! i) else Inl (UndefinedBehaviour ''vector index''))"

lemma res_bind_simps [simp]:
  "res_bind (Inl e) k = Inl e"
  "res_bind (Inr x) k = k x"
  by (simp_all add: res_bind_def)

lemma res_bind_Inr_iff: "res_bind m k = Inr y \<longleftrightarrow> (\<exists>x. m = Inr x \<and> k x = Inr y)"
  by (cases m) auto

lemma res_bind_Inl_iff: "res_bind m k = Inl e \<longleftrightarrow> m = Inl e \<or> (\<exists>x. m = Inr x \<and> k x = Inl e)"
  by (cases m) auto

lemma res_bind_cong [fundef_cong]:
  "m = m' \<Longrightarrow> (\<And>x. m' = Inr x \<Longrightarrow> k x = k' x) \<Longrightarrow> res_bind m k = res_bind m' k'"
  by (cases m') auto

lemma res_mapM_length: "res_mapM f xs = Inr ys \<Longrightarrow> length ys = length xs"
  by (induction xs arbitrary: ys) (auto simp: res_bind_Inr_iff)

lemma res_mapM_nth:
  "res_mapM f xs = Inr ys \<Longrightarrow> i < length xs \<Longrightarrow> f (xs ! i) = Inr (ys ! i)"
  by (induction xs arbitrary: ys i) (auto simp: res_bind_Inr_iff nth_Cons' gr0_conv_Suc)

lemma res_mapM_Inr_map: "(\<And>x. x \<in> set xs \<Longrightarrow> f x = Inr (g x)) \<Longrightarrow> res_mapM f xs = Inr (map g xs)"
  by (induction xs) auto

lemma vec_at_Inr_iff [simp]: "vec_at xs i = Inr x \<longleftrightarrow> i < length xs \<and> x = xs ! i"
  by (auto simp: vec_at_def)

lemma vec_at_in [simp]: "i < length xs \<Longrightarrow> vec_at xs i = Inr (xs ! i)"
  by (simp add: vec_at_def)

section \<open>Stateful computations that may throw\<close>

type_synonym ('s, 'a) act = "'s \<Rightarrow> 'a res \<times> 's"

definition act_return :: "'a \<Rightarrow> ('s, 'a) act" where
  "act_return x s = (Inr x, s)"

definition act_throw :: "exn \<Rightarrow> ('s, 'a) act" where
  "act_throw e s = (Inl e, s)"

definition act_bind :: "('s, 'a) act \<Rightarrow> ('a \<Rightarrow> ('s, 'b) act) \<Rightarrow> ('s, 'b) act" where
  "act_bind m k s = (case m s of (Inl e, s') \<Rightarrow> (Inl e, s') | (Inr x, s') \<Rightarrow> k x s')"

definition act_modify :: "('s \<Rightarrow> 's) \<Rightarrow> ('s, unit) act" where
  "act_modify f s = (Inr (), f s)"

text \<open>\<open>act_reads f k\<close> reads \<open>f\<close> of the current state and continues with it.\<close>

definition act_reads :: "('s \<Rightarrow> 'b) \<Rightarrow> ('b \<Rightarrow> ('s, 'a) act) \<Rightarrow> ('s, 'a) act" where
  "act_reads f k s = k (f s) s"

definition act_lift :: "'a res \<Rightarrow> ('s, 'a) act" where
  "act_lift r s = (r, s)"

fun act_mapM :: "('a \<Rightarrow> ('s, 'b) act) \<Rightarrow> 'a list \<Rightarrow> ('s, 'b list) act" where
  "act_mapM f [] = act_return []"
| "act_mapM f (x # xs) = act_bind (f x) (\<lambda>y. act_bind (act_mapM f xs) (\<lambda>ys. act_return (y # ys)))"

named_theorems act_simps "one step of a stateful computation"

lemma act_basic [act_simps]:
  "act_return x s = (Inr x, s)"
  "act_throw e s = (Inl e, s)"
  "act_modify f s = (Inr (), f s)"
  "act_lift r s = (r, s)"
  "act_reads g h s = h (g s) s"
  by (simp_all add: act_return_def act_throw_def act_modify_def act_lift_def act_reads_def)

lemma act_bind_eq [act_simps]:
  "m s = (Inr x, s') \<Longrightarrow> act_bind m k s = k x s'"
  "m s = (Inl e, s') \<Longrightarrow> act_bind m k s = (Inl e, s')"
  by (simp_all add: act_bind_def)

lemma act_bind_assoc: "act_bind (act_bind m k) h = act_bind m (\<lambda>x. act_bind (k x) h)"
  by (auto simp: act_bind_def fun_eq_iff split: prod.splits sum.splits)

lemma act_bind_return_left: "act_bind (act_return x) k = k x"
  by (simp add: act_bind_def act_return_def fun_eq_iff)

lemma act_bind_lift: "act_bind (act_lift (Inr x)) k = k x"
  by (simp add: act_bind_def act_lift_def fun_eq_iff)

lemma act_bind_InrE:
  assumes "act_bind m k s = (Inr y, t)"
  obtains x s' where "m s = (Inr x, s')" and "k x s' = (Inr y, t)"
  using assms by (auto simp: act_bind_def split: prod.splits sum.splits)

lemma act_bind_cases:
  assumes "act_bind m k s = (r, t)"
  obtains (thrown) e where "m s = (Inl e, t)" and "r = Inl e"
        | (continued) x s' where "m s = (Inr x, s')" and "k x s' = (r, t)"
  using assms by (auto simp: act_bind_def split: prod.splits sum.splits)

subsection \<open>Invariants of stateful computations\<close>

text \<open>\<open>keeps P m\<close>: from a state that satisfies \<open>P\<close>, \<open>m\<close> ends in one, whether it returns or throws.\<close>

definition keeps :: "('s \<Rightarrow> bool) \<Rightarrow> ('s, 'a) act \<Rightarrow> bool" where
  "keeps P m \<longleftrightarrow> (\<forall>s. P s \<longrightarrow> P (snd (m s)))"

lemma keepsI: "(\<And>s. P s \<Longrightarrow> P (snd (m s))) \<Longrightarrow> keeps P m"
  by (simp add: keeps_def)

lemma keepsD: "keeps P m \<Longrightarrow> P s \<Longrightarrow> m s = (r, t) \<Longrightarrow> P t"
  by (metis keeps_def snd_conv)

lemma keeps_return [intro, simp]: "keeps P (act_return x)"
  by (simp add: keeps_def act_simps)

lemma keeps_throw [intro, simp]: "keeps P (act_throw e)"
  by (simp add: keeps_def act_simps)

lemma keeps_lift [intro, simp]: "keeps P (act_lift r)"
  by (simp add: keeps_def act_simps)

lemma keeps_reads [intro]: "(\<And>x. keeps P (k x)) \<Longrightarrow> keeps P (act_reads f k)"
  by (simp add: keeps_def act_simps)

lemma keeps_modify [intro]: "(\<And>s. P s \<Longrightarrow> P (f s)) \<Longrightarrow> keeps P (act_modify f)"
  by (simp add: keeps_def act_simps)

lemma keeps_bind [intro]: "keeps P m \<Longrightarrow> (\<And>x. keeps P (k x)) \<Longrightarrow> keeps P (act_bind m k)"
  by (fastforce simp: keeps_def act_bind_def split: prod.splits sum.splits)

lemma keeps_mapM [intro]: "(\<And>x. x \<in> set xs \<Longrightarrow> keeps P (f x)) \<Longrightarrow> keeps P (act_mapM f xs)"
  by (induction xs) auto

section \<open>Words\<close>

lemma unat_add_no_wrap:
  fixes a b :: u64
  assumes "unat a + unat b < 2 ^ 64"
  shows "unat (a + b) = unat a + unat b"
  using assms by (simp add: unat_word_ariths)

lemma unat_mult_no_wrap:
  fixes a b :: u64
  assumes "unat a * unat b < 2 ^ 64"
  shows "unat (a * b) = unat a * unat b"
  using assms by (simp add: unat_word_ariths)

lemma unat_sub_no_wrap:
  fixes a b :: u64
  assumes "unat b \<le> unat a"
  shows "unat (a - b) = unat a - unat b"
  using assms by (simp add: unat_sub word_le_nat_alt)

lemma unat_bound_u64 [simp]: "unat (x :: u64) < 18446744073709551616"
  using unsigned_less [of x] by simp

section \<open>Lists\<close>

lemma all_less_two: "(\<forall>i < Suc (Suc 0). P i) \<longleftrightarrow> P 0 \<and> P (Suc 0)"
  by (auto simp: less_Suc_eq)

lemma nth_append_singleton: "(xs @ [x]) ! length xs = x"
  by simp

end
