(* ===== verification/Column_Types.thy ===== *)
theory Column_Types
  imports Prelude
begin

text \<open>
  The three type universes a column passes through: DuckDB's \<open>LogicalType\<close>, Sirius' own
  \<open>GPUColumnType\<close> (\<open>src/src/include/gpu_columns.hpp\<close>) and cuDF's \<open>data_type\<close>, with the
  conversions between them and the byte sizes each derives.  DuckDB and cuDF are libraries the
  repository only calls: what Sirius reads of DuckDB (the decimal width limits, the vector size
  and the physical type of a logical type) is the record \<open>duckdb_env\<close>, an argument of every
  definition that uses it.
\<close>

section \<open>The type universes\<close>

datatype GPUColumnTypeId =
    C_INVALID | C_INT16 | C_INT32 | C_INT64 | C_FLOAT32 | C_FLOAT64 | C_BOOLEAN | C_DATE
  | C_TIMESTAMP_SEC | C_TIMESTAMP_MS | C_TIMESTAMP_US | C_TIMESTAMP_NS | C_VARCHAR | C_INT128
  | C_DECIMAL

record GPUDecimalTypeInfo =
  dec_width :: u8
  dec_scale :: u8

record GPUColumnType =
  ct_id :: GPUColumnTypeId
  ct_decimal_info :: "GPUDecimalTypeInfo option"

text \<open>\<open>GPUColumnType(id)\<close> and \<open>SetDecimalTypeInfo\<close>: the latter replaces the shared pointer, so two
  column types never share one information record that is later written.\<close>

definition ColumnType :: "GPUColumnTypeId \<Rightarrow> GPUColumnType" where
  "ColumnType i = \<lparr>ct_id = i, ct_decimal_info = None\<rparr>"

definition SetDecimalTypeInfo :: "u8 \<Rightarrow> u8 \<Rightarrow> GPUColumnType \<Rightarrow> GPUColumnType" where
  "SetDecimalTypeInfo w sc t = t\<lparr>ct_decimal_info := Some \<lparr>dec_width = w, dec_scale = sc\<rparr>\<rparr>"

text \<open>DuckDB's logical types, as far as the code reads them: the id and, for a decimal, width and scale.
  A \<open>LogicalType\<close> also carries an alias and a string a collation; no modelled code reads them and the
  conversions drop them, so equality of two values here is equality up to alias and collation.\<close>

datatype LogicalType =
    L_SMALLINT | L_INTEGER | L_BIGINT | L_HUGEINT | L_FLOAT | L_DOUBLE | L_BOOLEAN | L_DATE
  | L_TIMESTAMP_SEC | L_TIMESTAMP_MS | L_TIMESTAMP | L_TIMESTAMP_NS | L_VARCHAR
  | L_DECIMAL u8 u8
  | L_OTHER nat

datatype PhysicalType = P_INT16 | P_INT32 | P_INT64 | P_INT128 | P_OTHER nat

record duckdb_env =
  MAX_WIDTH_INT16 :: u8
  MAX_WIDTH_INT32 :: u8
  MAX_WIDTH_INT64 :: u8
  MAX_WIDTH_INT128 :: u8
  STANDARD_VECTOR_SIZE :: u64
  InternalType :: "LogicalType \<Rightarrow> PhysicalType"

text \<open>cuDF's \<open>type_id\<close> (the enumerators the code names) and \<open>data_type\<close>, an id with a fixed-point
  scale that is zero unless the id is a decimal; \<open>==\<close> compares both.\<close>

datatype cudf_type_id =
    CUDF_INT16 | CUDF_INT32 | CUDF_INT64 | CUDF_FLOAT32 | CUDF_FLOAT64 | CUDF_BOOL8
  | CUDF_TIMESTAMP_DAYS | CUDF_TIMESTAMP_SECONDS | CUDF_TIMESTAMP_MILLISECONDS
  | CUDF_TIMESTAMP_MICROSECONDS | CUDF_TIMESTAMP_NANOSECONDS | CUDF_STRING
  | CUDF_DECIMAL32 | CUDF_DECIMAL64 | CUDF_DECIMAL128 | CUDF_OTHER nat

record cudf_data_type =
  cudf_id :: cudf_type_id
  cudf_scale :: int

definition cudf_data :: "cudf_type_id \<Rightarrow> cudf_data_type" where
  "cudf_data i = \<lparr>cudf_id = i, cudf_scale = 0\<rparr>"

definition cudf_decimal :: "cudf_type_id \<Rightarrow> int \<Rightarrow> cudf_data_type" where
  "cudf_decimal i sc = \<lparr>cudf_id = i, cudf_scale = sc\<rparr>"

section \<open>DuckDB type to column type and back\<close>

fun convertLogicalTypeToColumnType :: "LogicalType \<Rightarrow> GPUColumnType res" where
  "convertLogicalTypeToColumnType L_SMALLINT = Inr (ColumnType C_INT16)"
| "convertLogicalTypeToColumnType L_INTEGER = Inr (ColumnType C_INT32)"
| "convertLogicalTypeToColumnType L_BIGINT = Inr (ColumnType C_INT64)"
| "convertLogicalTypeToColumnType L_HUGEINT = Inr (ColumnType C_INT128)"
| "convertLogicalTypeToColumnType L_FLOAT = Inr (ColumnType C_FLOAT32)"
| "convertLogicalTypeToColumnType L_DOUBLE = Inr (ColumnType C_FLOAT64)"
| "convertLogicalTypeToColumnType L_BOOLEAN = Inr (ColumnType C_BOOLEAN)"
| "convertLogicalTypeToColumnType L_DATE = Inr (ColumnType C_DATE)"
| "convertLogicalTypeToColumnType L_TIMESTAMP_SEC = Inr (ColumnType C_TIMESTAMP_SEC)"
| "convertLogicalTypeToColumnType L_TIMESTAMP_MS = Inr (ColumnType C_TIMESTAMP_MS)"
| "convertLogicalTypeToColumnType L_TIMESTAMP = Inr (ColumnType C_TIMESTAMP_US)"
| "convertLogicalTypeToColumnType L_TIMESTAMP_NS = Inr (ColumnType C_TIMESTAMP_NS)"
| "convertLogicalTypeToColumnType L_VARCHAR = Inr (ColumnType C_VARCHAR)"
| "convertLogicalTypeToColumnType (L_DECIMAL w sc) =
     Inr (SetDecimalTypeInfo w sc (ColumnType C_DECIMAL))"
| "convertLogicalTypeToColumnType (L_OTHER n) = Inl (InvalidInputException
     ''Unsupported duckdb column type in `convertLogicalTypeToColumnType`'')"

definition ColumnTypeToLogicalType :: "GPUColumnType \<Rightarrow> LogicalType res" where
  "ColumnTypeToLogicalType t = (case ct_id t of
     C_INT16 \<Rightarrow> Inr L_SMALLINT
   | C_INT32 \<Rightarrow> Inr L_INTEGER
   | C_INT64 \<Rightarrow> Inr L_BIGINT
   | C_FLOAT32 \<Rightarrow> Inr L_FLOAT
   | C_FLOAT64 \<Rightarrow> Inr L_DOUBLE
   | C_BOOLEAN \<Rightarrow> Inr L_BOOLEAN
   | C_DATE \<Rightarrow> Inr L_DATE
   | C_TIMESTAMP_SEC \<Rightarrow> Inr L_TIMESTAMP_SEC
   | C_TIMESTAMP_MS \<Rightarrow> Inr L_TIMESTAMP_MS
   | C_TIMESTAMP_US \<Rightarrow> Inr L_TIMESTAMP
   | C_TIMESTAMP_NS \<Rightarrow> Inr L_TIMESTAMP_NS
   | C_VARCHAR \<Rightarrow> Inr L_VARCHAR
   | C_INT128 \<Rightarrow> Inr L_HUGEINT
   | C_DECIMAL \<Rightarrow>
       (case ct_decimal_info t of
          None \<Rightarrow> Inl (InternalException
            ''`decimal_type_info` not set for DECIMAL type in `ColumnTypeToLogicalType`'')
        | Some info \<Rightarrow> Inr (L_DECIMAL (dec_width info) (dec_scale info)))
   | C_INVALID \<Rightarrow> Inl (NotImplementedException
       ''Unsupported sirius column type in `ColumnTypeToLogicalType`''))"

section \<open>Sizes\<close>

definition GetDecimalTypeSize :: "duckdb_env \<Rightarrow> GPUDecimalTypeInfo \<Rightarrow> u64 res" where
  "GetDecimalTypeSize D info =
     (if dec_width info \<le> MAX_WIDTH_INT16 D then Inr 2
      else if dec_width info \<le> MAX_WIDTH_INT32 D then Inr 4
      else if dec_width info \<le> MAX_WIDTH_INT64 D then Inr 8
      else if dec_width info \<le> MAX_WIDTH_INT128 D then Inr 16
      else Inl (InternalException
        ''Decimal has a width which is bigger than the maximum supported width''))"

definition getColumnTypeSize :: "duckdb_env \<Rightarrow> GPUColumnType \<Rightarrow> u64 res" where
  "getColumnTypeSize D t = (case ct_id t of
     C_INT16 \<Rightarrow> Inr 2
   | C_INT32 \<Rightarrow> Inr 4
   | C_DATE \<Rightarrow> Inr 4
   | C_INT64 \<Rightarrow> Inr 8
   | C_TIMESTAMP_SEC \<Rightarrow> Inr 8
   | C_TIMESTAMP_MS \<Rightarrow> Inr 8
   | C_TIMESTAMP_US \<Rightarrow> Inr 8
   | C_TIMESTAMP_NS \<Rightarrow> Inr 8
   | C_INT128 \<Rightarrow> Inr 16
   | C_FLOAT32 \<Rightarrow> Inr 4
   | C_FLOAT64 \<Rightarrow> Inr 8
   | C_BOOLEAN \<Rightarrow> Inr 1
   | C_VARCHAR \<Rightarrow> Inr 128
   | C_DECIMAL \<Rightarrow>
       (case ct_decimal_info t of
          None \<Rightarrow> Inl (InternalException
            ''`decimal_type_info` not set for DECIMAL type in `getColumnTypeSize`'')
        | Some info \<Rightarrow> GetDecimalTypeSize D info)
   | C_INVALID \<Rightarrow> Inl (InternalException
       ''Unsupported sirius column type in `getColumnTypeSize()`''))"

text \<open>The size switch at the head of \<open>rawDataToVector\<close> in the result collector.\<close>

definition rawDataSizeofType :: "duckdb_env \<Rightarrow> GPUColumnType \<Rightarrow> u64 res" where
  "rawDataSizeofType D t = (case ct_id t of
     C_INT16 \<Rightarrow> Inr 2
   | C_INT32 \<Rightarrow> Inr 4
   | C_DATE \<Rightarrow> Inr 4
   | C_INT64 \<Rightarrow> Inr 8
   | C_TIMESTAMP_SEC \<Rightarrow> Inr 8
   | C_TIMESTAMP_MS \<Rightarrow> Inr 8
   | C_TIMESTAMP_US \<Rightarrow> Inr 8
   | C_TIMESTAMP_NS \<Rightarrow> Inr 8
   | C_FLOAT32 \<Rightarrow> Inr 4
   | C_FLOAT64 \<Rightarrow> Inr 8
   | C_BOOLEAN \<Rightarrow> Inr 1
   | C_INT128 \<Rightarrow> Inr (2 * 8)
   | C_DECIMAL \<Rightarrow>
       (case ct_decimal_info t of
          None \<Rightarrow> Inl (InternalException
            ''`decimal_type_info` not set for DECIMAL type in `rawDataToVector`'')
        | Some info \<Rightarrow> GetDecimalTypeSize D info)
   | C_VARCHAR \<Rightarrow> Inl (NotImplementedException
       ''Unsupported sirius column type in `rawDataToVector`'')
   | C_INVALID \<Rightarrow> Inl (NotImplementedException
       ''Unsupported sirius column type in `rawDataToVector`''))"

section \<open>Column type to cuDF type and back\<close>

text \<open>The type chosen by \<open>GPUColumn::convertToCudfColumn\<close>.  \<open>-dec_scale\<close> is computed in \<open>int\<close>.\<close>

definition cudf_type_of_column :: "duckdb_env \<Rightarrow> GPUColumnType \<Rightarrow> cudf_data_type res" where
  "cudf_type_of_column D t = (case ct_id t of
     C_INT64 \<Rightarrow> Inr (cudf_data CUDF_INT64)
   | C_INT32 \<Rightarrow> Inr (cudf_data CUDF_INT32)
   | C_INT16 \<Rightarrow> Inr (cudf_data CUDF_INT16)
   | C_FLOAT32 \<Rightarrow> Inr (cudf_data CUDF_FLOAT32)
   | C_FLOAT64 \<Rightarrow> Inr (cudf_data CUDF_FLOAT64)
   | C_BOOLEAN \<Rightarrow> Inr (cudf_data CUDF_BOOL8)
   | C_DATE \<Rightarrow> Inr (cudf_data CUDF_TIMESTAMP_DAYS)
   | C_TIMESTAMP_SEC \<Rightarrow> Inr (cudf_data CUDF_TIMESTAMP_SECONDS)
   | C_TIMESTAMP_MS \<Rightarrow> Inr (cudf_data CUDF_TIMESTAMP_MILLISECONDS)
   | C_TIMESTAMP_US \<Rightarrow> Inr (cudf_data CUDF_TIMESTAMP_MICROSECONDS)
   | C_TIMESTAMP_NS \<Rightarrow> Inr (cudf_data CUDF_TIMESTAMP_NANOSECONDS)
   | C_VARCHAR \<Rightarrow> Inr (cudf_data CUDF_STRING)
   | C_DECIMAL \<Rightarrow>
       res_bind (getColumnTypeSize D t) (\<lambda>sz.
         case ct_decimal_info t of
           None \<Rightarrow> Inl (UndefinedBehaviour ''null decimal_type_info'')
         | Some info \<Rightarrow>
             (if sz = 4 then Inr (cudf_decimal CUDF_DECIMAL32 (- uint (dec_scale info)))
              else if sz = 8 then Inr (cudf_decimal CUDF_DECIMAL64 (- uint (dec_scale info)))
              else if sz = 16 then Inr (cudf_decimal CUDF_DECIMAL128 (- uint (dec_scale info)))
              else Inl (InternalException
                ''Unsupported sirius DECIMAL column type size in `convertToCudfColumn()`'')))
   | C_INT128 \<Rightarrow> Inl (InternalException ''Unsupported sirius column type in `convertToCudfColumn()`'')
   | C_INVALID \<Rightarrow> Inl (InternalException ''Unsupported sirius column type in `convertToCudfColumn()`''))"

text \<open>The type \<open>GPUColumn::setFromCudfColumn\<close> stores, in the order of its \<open>if\<close> chain.\<close>

definition column_type_of_cudf :: "duckdb_env \<Rightarrow> cudf_data_type \<Rightarrow> GPUColumnType res" where
  "column_type_of_cudf D ct =
     (if ct = cudf_data CUDF_STRING then Inr (ColumnType C_VARCHAR)
      else if ct = cudf_data CUDF_INT64 then Inr (ColumnType C_INT64)
      else if ct = cudf_data CUDF_INT32 then Inr (ColumnType C_INT32)
      else if ct = cudf_data CUDF_INT16 then Inr (ColumnType C_INT16)
      else if ct = cudf_data CUDF_FLOAT32 then Inr (ColumnType C_FLOAT32)
      else if ct = cudf_data CUDF_FLOAT64 then Inr (ColumnType C_FLOAT64)
      else if ct = cudf_data CUDF_BOOL8 then Inr (ColumnType C_BOOLEAN)
      else if ct = cudf_data CUDF_TIMESTAMP_DAYS then Inr (ColumnType C_DATE)
      else if ct = cudf_data CUDF_TIMESTAMP_SECONDS then Inr (ColumnType C_TIMESTAMP_SEC)
      else if ct = cudf_data CUDF_TIMESTAMP_MILLISECONDS then Inr (ColumnType C_TIMESTAMP_MS)
      else if ct = cudf_data CUDF_TIMESTAMP_MICROSECONDS then Inr (ColumnType C_TIMESTAMP_US)
      else if ct = cudf_data CUDF_TIMESTAMP_NANOSECONDS then Inr (ColumnType C_TIMESTAMP_NS)
      else if cudf_id ct = CUDF_DECIMAL32 then
        Inr (SetDecimalTypeInfo (MAX_WIDTH_INT32 D) (word_of_int (- cudf_scale ct)) (ColumnType C_DECIMAL))
      else if cudf_id ct = CUDF_DECIMAL64 then
        Inr (SetDecimalTypeInfo (MAX_WIDTH_INT64 D) (word_of_int (- cudf_scale ct)) (ColumnType C_DECIMAL))
      else if cudf_id ct = CUDF_DECIMAL128 then
        Inr (SetDecimalTypeInfo (MAX_WIDTH_INT128 D) (word_of_int (- cudf_scale ct)) (ColumnType C_DECIMAL))
      else Inl (NotImplementedException ''Unsupported cudf data type in `setFromCudfColumn`''))"

section \<open>DuckDB type to cuDF type in the expression executor\<close>

definition GetCudfType :: "duckdb_env \<Rightarrow> LogicalType \<Rightarrow> cudf_data_type res" where
  "GetCudfType D l = (case l of
     L_SMALLINT \<Rightarrow> Inr (cudf_data CUDF_INT16)
   | L_INTEGER \<Rightarrow> Inr (cudf_data CUDF_INT32)
   | L_BIGINT \<Rightarrow> Inr (cudf_data CUDF_INT64)
   | L_HUGEINT \<Rightarrow> Inr (cudf_data CUDF_INT64)
   | L_FLOAT \<Rightarrow> Inr (cudf_data CUDF_FLOAT32)
   | L_DOUBLE \<Rightarrow> Inr (cudf_data CUDF_FLOAT64)
   | L_BOOLEAN \<Rightarrow> Inr (cudf_data CUDF_BOOL8)
   | L_DATE \<Rightarrow> Inr (cudf_data CUDF_TIMESTAMP_DAYS)
   | L_TIMESTAMP_SEC \<Rightarrow> Inr (cudf_data CUDF_TIMESTAMP_SECONDS)
   | L_TIMESTAMP_MS \<Rightarrow> Inr (cudf_data CUDF_TIMESTAMP_MILLISECONDS)
   | L_TIMESTAMP \<Rightarrow> Inr (cudf_data CUDF_TIMESTAMP_MICROSECONDS)
   | L_TIMESTAMP_NS \<Rightarrow> Inr (cudf_data CUDF_TIMESTAMP_NANOSECONDS)
   | L_VARCHAR \<Rightarrow> Inr (cudf_data CUDF_STRING)
   | L_DECIMAL w sc \<Rightarrow> (case InternalType D l of
       P_INT32 \<Rightarrow> Inr (cudf_decimal CUDF_DECIMAL32 (- uint sc))
     | P_INT64 \<Rightarrow> Inr (cudf_decimal CUDF_DECIMAL64 (- uint sc))
     | P_INT128 \<Rightarrow> Inr (cudf_decimal CUDF_DECIMAL128 (- uint sc))
     | _ \<Rightarrow> Inl (InvalidInputException ''GetCudfType: Unsupported duckdb decimal physical type''))
   | L_OTHER n \<Rightarrow> Inl (InvalidInputException ''GetCudfType: Unsupported duckdb type''))"

definition IsCudfTypeDecimal :: "cudf_data_type \<Rightarrow> bool" where
  "IsCudfTypeDecimal t \<longleftrightarrow>
     cudf_id t = CUDF_DECIMAL32 \<or> cudf_id t = CUDF_DECIMAL64 \<or> cudf_id t = CUDF_DECIMAL128"

definition GetCudfDecimalTypeSize :: "cudf_data_type \<Rightarrow> int res" where
  "GetCudfDecimalTypeSize t =
     (if cudf_id t = CUDF_DECIMAL32 then Inr 4
      else if cudf_id t = CUDF_DECIMAL64 then Inr 8
      else if cudf_id t = CUDF_DECIMAL128 then Inr 16
      else Inl (InternalException ''Non decimal cudf type called in `GetCudfDecimalTypeSize`''))"

section \<open>Facts the library documents\<close>

text \<open>\<open>duckdb_env_ok\<close> is DuckDB's documented behaviour: the width limits increase, and the physical
  type of a decimal is the narrowest that its width fits.  \<open>duckdb_documented\<close> is the instance
  with the documented numbers; only witnesses use it.\<close>

definition duckdb_env_ok :: "duckdb_env \<Rightarrow> bool" where
  "duckdb_env_ok D \<longleftrightarrow>
     MAX_WIDTH_INT16 D < MAX_WIDTH_INT32 D \<and> MAX_WIDTH_INT32 D < MAX_WIDTH_INT64 D \<and>
     MAX_WIDTH_INT64 D < MAX_WIDTH_INT128 D \<and>
     (\<forall>w sc. w \<le> MAX_WIDTH_INT128 D \<longrightarrow> InternalType D (L_DECIMAL w sc) =
        (if w \<le> MAX_WIDTH_INT16 D then P_INT16
         else if w \<le> MAX_WIDTH_INT32 D then P_INT32
         else if w \<le> MAX_WIDTH_INT64 D then P_INT64 else P_INT128))"

definition duckdb_documented :: duckdb_env where
  "duckdb_documented = \<lparr>MAX_WIDTH_INT16 = 4, MAX_WIDTH_INT32 = 9, MAX_WIDTH_INT64 = 18,
     MAX_WIDTH_INT128 = 38, STANDARD_VECTOR_SIZE = 2048,
     InternalType = (\<lambda>l. case l of
        L_DECIMAL w sc \<Rightarrow> (if w \<le> 4 then P_INT16 else if w \<le> 9 then P_INT32
                           else if w \<le> 18 then P_INT64 else P_INT128)
      | L_SMALLINT \<Rightarrow> P_INT16 | L_INTEGER \<Rightarrow> P_INT32 | L_DATE \<Rightarrow> P_INT32
      | L_HUGEINT \<Rightarrow> P_INT128 | L_BIGINT \<Rightarrow> P_INT64 | _ \<Rightarrow> P_OTHER 0)\<rparr>"

lemma duckdb_documented_ok: "duckdb_env_ok duckdb_documented"
  by (simp add: duckdb_env_ok_def duckdb_documented_def)

named_theorems type_defs "the conversions and sizes of the type universes"

lemmas [type_defs] = ColumnType_def SetDecimalTypeInfo_def ColumnTypeToLogicalType_def
  GetDecimalTypeSize_def getColumnTypeSize_def rawDataSizeofType_def cudf_type_of_column_def
  column_type_of_cudf_def GetCudfType_def cudf_data_def cudf_decimal_def

section \<open>Codecs between type universes\<close>

text \<open>A conversion \<open>enc\<close> with a way back \<open>dec\<close> that recovers the value up to a normal form
  \<open>norm\<close>: what the round trip may change.\<close>

locale type_codec =
  fixes enc :: "'a \<Rightarrow> 'b res"
    and dec :: "'b \<Rightarrow> 'a res"
    and norm :: "'a \<Rightarrow> 'a"
  assumes dec_enc: "enc a = Inr b \<Longrightarrow> dec b = Inr (norm a)"
begin

lemma same_code_same_norm: "enc a = Inr b \<Longrightarrow> enc a' = Inr b \<Longrightarrow> norm a = norm a'"
  by (metis dec_enc sum.inject(2))

lemma codes_dec_total: "enc a = Inr b \<Longrightarrow> \<exists>a'. dec b = Inr a'"
  using dec_enc by blast

end

locale faithful_codec = type_codec enc dec "\<lambda>a. a"
  for enc :: "'a \<Rightarrow> 'b res" and dec :: "'b \<Rightarrow> 'a res"
begin

lemma enc_injective: "enc a = Inr b \<Longrightarrow> enc a' = Inr b \<Longrightarrow> a = a'"
  by (rule same_code_same_norm)

end

lemma logical_dec_enc:
  "convertLogicalTypeToColumnType l = Inr t \<Longrightarrow> ColumnTypeToLogicalType t = Inr l"
  by (cases l) (auto simp: type_defs)

interpretation logical_codec: faithful_codec convertLogicalTypeToColumnType ColumnTypeToLogicalType
  by unfold_locales (rule logical_dec_enc)

text \<open>The cuDF round trip keeps the storage class and the scale of a decimal and widens its
  declared width to the largest the storage class holds.\<close>

definition widen_decimal :: "duckdb_env \<Rightarrow> GPUColumnType \<Rightarrow> GPUColumnType" where
  "widen_decimal D t = (case ct_id t of
     C_DECIMAL \<Rightarrow> (case ct_decimal_info t of
        None \<Rightarrow> ColumnType C_DECIMAL
      | Some info \<Rightarrow> SetDecimalTypeInfo
          (if dec_width info \<le> MAX_WIDTH_INT32 D then MAX_WIDTH_INT32 D
           else if dec_width info \<le> MAX_WIDTH_INT64 D then MAX_WIDTH_INT64 D
           else MAX_WIDTH_INT128 D)
          (dec_scale info) (ColumnType C_DECIMAL))
   | i \<Rightarrow> ColumnType i)"

lemma decimal_size_cases:
  assumes "GetDecimalTypeSize D info = Inr sz"
  obtains (w16) "dec_width info \<le> MAX_WIDTH_INT16 D" and "sz = 2"
    | (w32) "\<not> dec_width info \<le> MAX_WIDTH_INT16 D" and "dec_width info \<le> MAX_WIDTH_INT32 D"
        and "sz = 4"
    | (w64) "\<not> dec_width info \<le> MAX_WIDTH_INT16 D" and "\<not> dec_width info \<le> MAX_WIDTH_INT32 D"
        and "dec_width info \<le> MAX_WIDTH_INT64 D" and "sz = 8"
    | (w128) "\<not> dec_width info \<le> MAX_WIDTH_INT16 D" and "\<not> dec_width info \<le> MAX_WIDTH_INT32 D"
        and "\<not> dec_width info \<le> MAX_WIDTH_INT64 D" and "dec_width info \<le> MAX_WIDTH_INT128 D"
        and "sz = 16"
  using assms by (auto simp: GetDecimalTypeSize_def split: if_splits)

lemma cudf_type_of_decimal:
  assumes "cudf_type_of_column D t = Inr ct" and "ct_id t = C_DECIMAL"
  obtains info sz c where "ct_decimal_info t = Some info" and "GetDecimalTypeSize D info = Inr sz"
    and "ct = cudf_decimal c (- uint (dec_scale info))"
    and "sz = 4 \<and> c = CUDF_DECIMAL32 \<or> sz = 8 \<and> c = CUDF_DECIMAL64 \<or> sz = 16 \<and> c = CUDF_DECIMAL128"
  using assms by (auto simp: cudf_type_of_column_def getColumnTypeSize_def res_bind_Inr_iff
      split: option.splits if_splits)

lemma cudf_dec_enc_decimal:
  assumes "cudf_type_of_column D t = Inr ct" and "ct_id t = C_DECIMAL"
  shows "column_type_of_cudf D ct = Inr (widen_decimal D t)"
  using assms
proof (cases rule: cudf_type_of_decimal)
  case (1 info sz c)
  from 1(2) show ?thesis
  proof (cases rule: decimal_size_cases)
    case w16
    with 1(4) show ?thesis by simp
  qed (use 1 assms(2) in \<open>simp_all add: column_type_of_cudf_def cudf_data_def cudf_decimal_def
         widen_decimal_def\<close>)
qed

lemma cudf_dec_enc:
  assumes "cudf_type_of_column D t = Inr ct"
  shows "column_type_of_cudf D ct = Inr (widen_decimal D t)"
proof (cases "ct_id t = C_DECIMAL")
  case True
  with assms show ?thesis by (rule cudf_dec_enc_decimal)
next
  case False
  then obtain c where "ct = cudf_data c"
    using assms by (cases "ct_id t") (simp_all add: cudf_type_of_column_def, blast+)
  with False assms show ?thesis
    by (cases "ct_id t") (simp_all add: cudf_type_of_column_def column_type_of_cudf_def
          cudf_data_def widen_decimal_def)
qed

interpretation cudf_codec: type_codec "cudf_type_of_column D" "column_type_of_cudf D" "widen_decimal D"
  for D
  by unfold_locales (rule cudf_dec_enc)

section \<open>Properties\<close>

lemma widen_decimal_size:
  assumes D: "duckdb_env_ok D" and ct: "cudf_type_of_column D t = Inr ct"
  shows "getColumnTypeSize D (widen_decimal D t) = getColumnTypeSize D t"
proof (cases "ct_id t = C_DECIMAL")
  case True
  with ct show ?thesis
  proof (cases rule: cudf_type_of_decimal)
    case (1 info sz c)
    note info = this
    from 1(2) show ?thesis
    proof (cases rule: decimal_size_cases)
      case w16
      with info(4) show ?thesis by simp
    qed (use D info True in \<open>auto simp: widen_decimal_def getColumnTypeSize_def GetDecimalTypeSize_def
           SetDecimalTypeInfo_def ColumnType_def duckdb_env_ok_def\<close>)
  qed
next
  case False
  with ct show ?thesis
    by (cases "ct_id t") (simp_all add: cudf_type_of_column_def widen_decimal_def
         getColumnTypeSize_def ColumnType_def)
qed

text \<open>The round trip from a DuckDB type to a column type and back keeps the type id and a decimal's width
  and scale (alias and collation, which are not part of the model's type, are lost), so no two ids share
  a column type.\<close>

theorem logical_type_roundtrip:
  assumes "convertLogicalTypeToColumnType l = Inr t"
  shows "ColumnTypeToLogicalType t = Inr l \<and> (\<forall>l'. convertLogicalTypeToColumnType l' = Inr t \<longrightarrow> l' = l)"
  using assms logical_codec.dec_enc logical_codec.enc_injective by blast

text \<open>C36: a column type that \<open>convertToCudfColumn\<close> accepts and \<open>setFromCudfColumn\<close> reads back comes back with the same kind of type, the same decimal scale
  and the same bytes per value; only the declared width of a decimal may grow, and it never
  shrinks.\<close>

theorem cudf_type_roundtrip:
  assumes D: "duckdb_env_ok D" and ct: "cudf_type_of_column D t = Inr ct"
  shows "\<exists>t'. column_type_of_cudf D ct = Inr t' \<and> ct_id t' = ct_id t \<and>
    getColumnTypeSize D t' = getColumnTypeSize D t \<and>
    (\<forall>info. ct_id t = C_DECIMAL \<and> ct_decimal_info t = Some info \<longrightarrow>
      (\<exists>info'. ct_decimal_info t' = Some info' \<and> dec_scale info' = dec_scale info \<and>
               dec_width info \<le> dec_width info'))"
proof (intro exI conjI)
  show "column_type_of_cudf D ct = Inr (widen_decimal D t)"
    by (rule cudf_codec.dec_enc [OF ct])
  show "ct_id (widen_decimal D t) = ct_id t"
    by (auto simp: widen_decimal_def type_defs split: GPUColumnTypeId.splits option.splits)
  show "getColumnTypeSize D (widen_decimal D t) = getColumnTypeSize D t"
    by (rule widen_decimal_size [OF D ct])
  show "\<forall>info. ct_id t = C_DECIMAL \<and> ct_decimal_info t = Some info \<longrightarrow>
      (\<exists>info'. ct_decimal_info (widen_decimal D t) = Some info' \<and> dec_scale info' = dec_scale info \<and>
               dec_width info \<le> dec_width info')"
  proof (intro allI impI)
    fix info assume dec: "ct_id t = C_DECIMAL \<and> ct_decimal_info t = Some info"
    then have "\<exists>sz. GetDecimalTypeSize D info = Inr sz"
      using ct by (auto simp: cudf_type_of_column_def getColumnTypeSize_def res_bind_Inr_iff)
    then have "dec_width info \<le> MAX_WIDTH_INT128 D"
      using D by (auto simp: GetDecimalTypeSize_def duckdb_env_ok_def split: if_splits)
    then show "\<exists>info'. ct_decimal_info (widen_decimal D t) = Some info' \<and>
        dec_scale info' = dec_scale info \<and> dec_width info \<le> dec_width info'"
      using dec by (simp add: widen_decimal_def type_defs)
  qed
qed

theorem cudf_type_roundtrip_witness:
  "\<exists>t'. column_type_of_cudf duckdb_documented (cudf_decimal CUDF_DECIMAL64 (- 2)) = Inr t' \<and> ct_id t' = C_DECIMAL"
  using cudf_type_roundtrip [OF duckdb_documented_ok,
      of "SetDecimalTypeInfo 12 2 (ColumnType C_DECIMAL)" "cudf_decimal CUDF_DECIMAL64 (- 2)"]
  by (simp add: type_defs duckdb_documented_def)

text \<open>The expression executor and the columns agree on cuDF types.  Whenever the column of a DuckDB
  type can be viewed by cuDF, the executor computes the same cuDF type for it; the only column
  type the executor accepts and the columns refuse is \<open>HUGEINT\<close>, which it computes in 64 bits.\<close>

theorem executor_column_types_agree:
  assumes "duckdb_env_ok D" and "convertLogicalTypeToColumnType l = Inr t"
    and "\<forall>w sc. l = L_DECIMAL w sc \<longrightarrow> w \<le> MAX_WIDTH_INT128 D"
  shows "(\<forall>ct. cudf_type_of_column D t = Inr ct \<longrightarrow> GetCudfType D l = Inr ct) \<and>
    (\<forall>ct. GetCudfType D l = Inr ct \<longrightarrow>
       cudf_type_of_column D t = Inr ct \<or> l = L_HUGEINT \<and> ct = cudf_data CUDF_INT64)"
  using assms
  by (cases l) (auto simp: cudf_type_of_column_def ColumnType_def SetDecimalTypeInfo_def
      getColumnTypeSize_def GetDecimalTypeSize_def GetCudfType_def duckdb_env_ok_def)

theorem executor_column_types_agree_witness:
  "GetCudfType duckdb_documented (L_DECIMAL 12 2) = Inr (cudf_decimal CUDF_DECIMAL64 (- 2))"
  using executor_column_types_agree [OF duckdb_documented_ok, of "L_DECIMAL 12 2"
      "SetDecimalTypeInfo 12 2 (ColumnType C_DECIMAL)"]
  by (simp add: type_defs duckdb_documented_def)

text \<open>The stride with which the result collector walks the raw bytes of a column is the size the
  columns were allocated with, for every type the collector accepts.\<close>

theorem raw_data_stride:
  "rawDataSizeofType D t = Inr n \<Longrightarrow> getColumnTypeSize D t = Inr n"
  by (auto simp: rawDataSizeofType_def getColumnTypeSize_def split: GPUColumnTypeId.splits option.splits)

theorem raw_data_stride_witness: "getColumnTypeSize duckdb_documented (ColumnType C_INT128) = Inr 16"
  by (rule raw_data_stride) (simp add: type_defs)

end
