(* ===== verification/Columns.thy ===== *)
theory Columns
  imports Column_Types
begin

text \<open>
  Columns and intermediate relations (\<open>src/src/include/gpu_columns.hpp\<close>,
  \<open>src/src/gpu_columns.cpp\<close>): the data wrapper, its two constructors, the column built on it,
  and the relation that the operators of a pipeline hand to one another.  A member that a
  constructor leaves uninitialised is \<open>None\<close> here (\<open>row_id_count\<close>); a \<open>shared_ptr\<close> that may be
  null is an option.
\<close>

section \<open>Validity mask sizes\<close>

definition getMaskBytesSize :: "u64 \<Rightarrow> u64" where
  "getMaskBytesSize column_length =
     (let necessary_bytes = (column_length + 7) div 8;
          padded_bytes = 64 * ((necessary_bytes + 63) div 64)
      in padded_bytes)"

section \<open>Data wrappers\<close>

record DataWrapper =
  dw_type :: GPUColumnType
  dw_data :: ptr
  dw_size :: u64
  dw_offset :: ptr
  dw_num_bytes :: u64
  dw_is_string_data :: bool
  dw_validity_mask :: ptr
  dw_mask_bytes :: u64

text \<open>The constructor without an offset array.\<close>

definition DataWrapper_plain ::
  "duckdb_env \<Rightarrow> GPUColumnType \<Rightarrow> ptr \<Rightarrow> u64 \<Rightarrow> ptr \<Rightarrow> DataWrapper res" where
  "DataWrapper_plain D t data sz vmask =
     res_bind (getColumnTypeSize D t) (\<lambda>type_size.
       Inr \<lparr>dw_type = t, dw_data = data, dw_size = sz, dw_offset = nullptr,
            dw_num_bytes = sz * type_size, dw_is_string_data = False,
            dw_validity_mask = vmask, dw_mask_bytes = getMaskBytesSize sz\<rparr>)"

text \<open>The constructor with an offset array and an explicit byte count.\<close>

definition DataWrapper_string ::
  "GPUColumnType \<Rightarrow> ptr \<Rightarrow> ptr \<Rightarrow> u64 \<Rightarrow> u64 \<Rightarrow> bool \<Rightarrow> ptr \<Rightarrow> DataWrapper" where
  "DataWrapper_string t data offset sz num_bytes is_string vmask =
     \<lparr>dw_type = t, dw_data = data, dw_size = sz, dw_offset = offset,
      dw_num_bytes = num_bytes, dw_is_string_data = is_string,
      dw_validity_mask = vmask, dw_mask_bytes = getMaskBytesSize sz\<rparr>"

section \<open>Columns\<close>

record GPUColumn =
  data_wrapper :: DataWrapper
  row_ids :: ptr
  row_id_count :: "u64 option"
  column_length :: u64
  is_unique :: bool

definition GPUColumn_plain ::
  "duckdb_env \<Rightarrow> u64 \<Rightarrow> GPUColumnType \<Rightarrow> ptr \<Rightarrow> ptr \<Rightarrow> GPUColumn res" where
  "GPUColumn_plain D len t data vmask =
     res_bind (DataWrapper_plain D t data len vmask) (\<lambda>dw.
     res_bind (getColumnTypeSize D (dw_type dw)) (\<lambda>type_size.
       Inr \<lparr>data_wrapper = dw\<lparr>dw_offset := nullptr, dw_num_bytes := len * type_size\<rparr>,
            row_ids = nullptr, row_id_count = None, column_length = len, is_unique = False\<rparr>))"

definition GPUColumn_string ::
  "duckdb_env \<Rightarrow> u64 \<Rightarrow> GPUColumnType \<Rightarrow> ptr \<Rightarrow> ptr \<Rightarrow> u64 \<Rightarrow> bool \<Rightarrow> ptr \<Rightarrow> GPUColumn res" where
  "GPUColumn_string D len t data offset num_bytes is_string vmask =
     (let dw = DataWrapper_string t data offset len num_bytes is_string vmask in
      if is_string then
        Inr \<lparr>data_wrapper = dw\<lparr>dw_num_bytes := num_bytes\<rparr>, row_ids = nullptr,
             row_id_count = None, column_length = len, is_unique = False\<rparr>
      else res_bind (getColumnTypeSize D (dw_type dw)) (\<lambda>type_size.
        Inr \<lparr>data_wrapper = dw\<lparr>dw_num_bytes := len * type_size\<rparr>, row_ids = nullptr,
             row_id_count = None, column_length = len, is_unique = False\<rparr>))"

text \<open>\<open>GPUColumn(GPUColumn &other)\<close> copies every member.\<close>

definition GPUColumn_copy :: "GPUColumn \<Rightarrow> GPUColumn" where
  "GPUColumn_copy other =
     \<lparr>data_wrapper = data_wrapper other, row_ids = row_ids other,
      row_id_count = row_id_count other, column_length = column_length other,
      is_unique = is_unique other\<rparr>"

text \<open>\<open>GetData\<close>: the typed getters all cast the same pointer, and the types the switch does not
  name yield \<open>nullptr\<close>.\<close>

definition GetData :: "GPUColumn \<Rightarrow> ptr" where
  "GetData c = (case ct_id (dw_type (data_wrapper c)) of
     C_INT32 \<Rightarrow> dw_data (data_wrapper c)
   | C_INT64 \<Rightarrow> dw_data (data_wrapper c)
   | C_FLOAT32 \<Rightarrow> dw_data (data_wrapper c)
   | C_FLOAT64 \<Rightarrow> dw_data (data_wrapper c)
   | C_BOOLEAN \<Rightarrow> dw_data (data_wrapper c)
   | C_VARCHAR \<Rightarrow> dw_data (data_wrapper c)
   | _ \<Rightarrow> nullptr)"

section \<open>Intermediate relations\<close>

record GPUIntermediateRelation =
  rel_names :: string
  column_names :: "string list"
  columns :: "GPUColumn option list"
  column_count :: nat

definition GPUIntermediateRelation_new :: "nat \<Rightarrow> GPUIntermediateRelation" where
  "GPUIntermediateRelation_new n =
     \<lparr>rel_names = [], column_names = replicate n [], columns = replicate n None, column_count = n\<rparr>"

definition checkLateMaterialization :: "GPUIntermediateRelation \<Rightarrow> nat \<Rightarrow> bool res" where
  "checkLateMaterialization r idx =
     res_bind (vec_at (columns r) idx) (\<lambda>c.
       case c of None \<Rightarrow> Inr False | Some col \<Rightarrow> Inr (row_ids col \<noteq> nullptr))"

text \<open>Dereferencing \<open>columns[i]->...\<close>.\<close>

definition column_at :: "GPUIntermediateRelation \<Rightarrow> nat \<Rightarrow> GPUColumn res" where
  "column_at r i = res_bind (vec_at (columns r) i) (\<lambda>c.
     case c of None \<Rightarrow> Inl (UndefinedBehaviour ''null column'') | Some col \<Rightarrow> Inr col)"

definition set_column :: "nat \<Rightarrow> GPUColumn \<Rightarrow> GPUIntermediateRelation \<Rightarrow> GPUIntermediateRelation res" where
  "set_column i c r =
     (if i < length (columns r) then Inr (r\<lparr>columns := (columns r)[i := Some c]\<rparr>)
      else Inl (UndefinedBehaviour ''vector index''))"

section \<open>Facts\<close>

text \<open>How many rows a column stands for: the row-id list of a column that is not materialized
  yet, its own length otherwise (\<open>actual_column_len\<close> in the result collector).\<close>

definition column_rows :: "GPUColumn \<Rightarrow> u64 option" where
  "column_rows c = (if row_ids c \<noteq> nullptr then row_id_count c else Some (column_length c))"

named_theorems column_defs "the constructors of wrappers and columns"

lemmas [column_defs] = DataWrapper_plain_def DataWrapper_string_def GPUColumn_plain_def
  GPUColumn_string_def

lemma GPUColumn_plain_Inr:
  "GPUColumn_plain D len t data vmask = Inr c \<longleftrightarrow>
     (\<exists>sz. getColumnTypeSize D t = Inr sz \<and>
       c = \<lparr>data_wrapper = \<lparr>dw_type = t, dw_data = data, dw_size = len, dw_offset = nullptr,
              dw_num_bytes = len * sz, dw_is_string_data = False, dw_validity_mask = vmask,
              dw_mask_bytes = getMaskBytesSize len\<rparr>,
            row_ids = nullptr, row_id_count = None, column_length = len, is_unique = False\<rparr>)"
  by (auto simp: column_defs res_bind_Inr_iff)

lemma GPUColumn_string_Inr:
  "GPUColumn_string D len t data offset nb is_string vmask = Inr c \<longleftrightarrow>
     (\<exists>nb'. (if is_string then nb' = nb else \<exists>sz. getColumnTypeSize D t = Inr sz \<and> nb' = len * sz) \<and>
       c = \<lparr>data_wrapper = \<lparr>dw_type = t, dw_data = data, dw_size = len, dw_offset = offset,
              dw_num_bytes = nb', dw_is_string_data = is_string, dw_validity_mask = vmask,
              dw_mask_bytes = getMaskBytesSize len\<rparr>,
            row_ids = nullptr, row_id_count = None, column_length = len, is_unique = False\<rparr>)"
  by (auto simp: column_defs Let_def res_bind_Inr_iff)

lemma column_at_Inr_iff:
  "column_at r i = Inr c \<longleftrightarrow> i < length (columns r) \<and> columns r ! i = Some c"
  by (auto simp: column_at_def res_bind_Inr_iff split: option.splits)

lemma set_column_Inr_iff:
  "set_column i c r = Inr r' \<longleftrightarrow>
     i < length (columns r) \<and> r' = r\<lparr>columns := (columns r)[i := Some c]\<rparr>"
  by (auto simp: set_column_def)

subsection \<open>The mask is large enough, padded to 64 bytes, and no larger than needed\<close>

lemma getMaskBytesSize_nat:
  assumes "unat n \<le> 2 ^ 64 - 1024"
  shows "unat (getMaskBytesSize n) = 64 * (((unat n + 7) div 8 + 63) div 64)"
proof -
  have a: "unat (n + 7) = unat n + 7"
    using assms by (simp add: unat_add_no_wrap)
  have b: "unat ((n + 7) div 8) = (unat n + 7) div 8"
    by (simp add: unat_div a)
  have c: "unat ((n + 7) div 8 + 63) = (unat n + 7) div 8 + 63"
    using assms by (simp add: unat_add_no_wrap b)
  have d: "unat (((n + 7) div 8 + 63) div 64) = ((unat n + 7) div 8 + 63) div 64"
    by (simp add: unat_div c)
  have "64 * (((unat n + 7) div 8 + 63) div 64) < 2 ^ 64"
    using assms by simp
  then show ?thesis
    by (simp add: getMaskBytesSize_def Let_def unat_mult_no_wrap d)
qed

end
