(* ===== verification/Arena.thy ===== *)
theory Arena
  imports Prelude
begin

text \<open>
  The interface of a region that is handed out from one end: a cursor that every granted request
  advances by its size.  The buffer manager has three such regions (the caching region on the
  GPU, its pinned overflow on the host and the host processing region); the first two take back
  the advance of a refused request, the third does not.
\<close>

text \<open>A run of requests in which the caller goes on after a refusal.\<close>

fun reserve_all :: "(u64 \<Rightarrow> 's \<Rightarrow> u64 option \<times> 's) \<Rightarrow> u64 list \<Rightarrow> 's \<Rightarrow> u64 option list \<times> 's" where
  "reserve_all reserve [] s = ([], s)"
| "reserve_all reserve (n # ns) s =
     (case reserve n s of (r, s1) \<Rightarrow> (case reserve_all reserve ns s1 of (rs, s2) \<Rightarrow> (r # rs, s2)))"

text \<open>The cursor has not passed the capacity, and the capacity is a size that real memory has.\<close>

definition cursor_ok :: "('s \<Rightarrow> u64) \<Rightarrow> ('s \<Rightarrow> u64) \<Rightarrow> 's \<Rightarrow> bool" where
  "cursor_ok cursor capacity s \<longleftrightarrow>
     unat (cursor s) \<le> unat (capacity s) \<and> unat (capacity s) < 2 ^ 63"

locale arena =
  fixes reserve :: "u64 \<Rightarrow> 's \<Rightarrow> u64 option \<times> 's"
    and cursor :: "'s \<Rightarrow> u64"
    and capacity :: "'s \<Rightarrow> u64"
  assumes granted_start: "reserve n s = (Some st, s') \<Longrightarrow> st = cursor s"
    and granted_cursor: "reserve n s = (Some st, s') \<Longrightarrow> cursor s' = cursor s + n"
    and granted_within: "reserve n s = (Some st, s') \<Longrightarrow> cursor s + n \<le> capacity s"
    and capacity_fixed: "reserve n s = (r, s') \<Longrightarrow> capacity s' = capacity s"
begin

text \<open>Sizes below \<open>2^63\<close> cannot wrap the cursor around.\<close>

lemma granted_nat:
  assumes "reserve n s = (Some st, s')" and "unat n < 2 ^ 63" and "unat (cursor s) < 2 ^ 63"
  shows "unat (cursor s') = unat st + unat n" and "unat (cursor s') \<le> unat (capacity s')"
proof -
  have "unat (cursor s + n) = unat (cursor s) + unat n"
    using assms(2,3) by (simp add: unat_add_no_wrap)
  then show "unat (cursor s') = unat st + unat n"
    using granted_start [OF assms(1)] granted_cursor [OF assms(1)] by simp
  show "unat (cursor s') \<le> unat (capacity s')"
    using granted_within [OF assms(1)] granted_cursor [OF assms(1)] capacity_fixed [OF assms(1)]
    by (simp add: word_le_nat_alt)
qed

text \<open>One request: a granted one moves the cursor over its block.\<close>

lemma granted_keeps_cursor_ok:
  assumes "reserve n s = (Some st, s')" and "unat n < 2 ^ 63" and "cursor_ok cursor capacity s"
  shows "cursor_ok cursor capacity s'" and "st = cursor s"
    and "unat (cursor s') = unat (cursor s) + unat n"
proof -
  have c: "unat (cursor s) < 2 ^ 63" using assms(3) by (simp add: cursor_ok_def)
  show "cursor_ok cursor capacity s'"
    using granted_nat(2) [OF assms(1,2) c] capacity_fixed [OF assms(1)] assms(3)
    by (simp add: cursor_ok_def)
  show "st = cursor s" by (rule granted_start [OF assms(1)])
  then show "unat (cursor s') = unat (cursor s) + unat n"
    using granted_nat(1) [OF assms(1,2) c] by simp
qed

text \<open>A run of requests, none of which is refused unless refusals leave the cursor alone, hands out
  its blocks from left to right.\<close>

lemma reserve_all_bounds:
  assumes "reserve_all reserve ns s = (rs, s')" and "\<forall>n \<in> set ns. unat n < 2 ^ 63"
    and "cursor_ok cursor capacity s"
    and "None \<notin> set rs \<or> (\<forall>n s s'. reserve n s = (None, s') \<longrightarrow> cursor s' = cursor s)"
  shows "cursor_ok cursor capacity s' \<and> unat (cursor s) \<le> unat (cursor s') \<and> length rs = length ns \<and>
     (\<forall>i st. i < length ns \<longrightarrow> rs ! i = Some st \<longrightarrow>
        unat (cursor s) \<le> unat st \<and> unat st + unat (ns ! i) \<le> unat (cursor s'))"
  using assms
proof (induction ns arbitrary: s rs)
  case Nil
  then show ?case by simp
next
  case (Cons n ns)
  from Cons.prems(1) obtain r s1 rs' where
    r: "reserve n s = (r, s1)" and rest: "reserve_all reserve ns s1 = (rs', s')" and rs: "rs = r # rs'"
    by (auto split: prod.splits)
  have n: "unat n < 2 ^ 63" and ns: "\<forall>n \<in> set ns. unat n < 2 ^ 63"
    using Cons.prems(2) by simp_all
  have s1: "cursor_ok cursor capacity s1 \<and> unat (cursor s) \<le> unat (cursor s1)"
  proof (cases r)
    case None
    with Cons.prems(4) r rs have "cursor s1 = cursor s" by auto
    with Cons.prems(3) capacity_fixed [OF r] show ?thesis by (simp add: cursor_ok_def)
  next
    case (Some st)
    with granted_keeps_cursor_ok [of n s st s1] r n Cons.prems(3) show ?thesis by simp
  qed
  have IH: "cursor_ok cursor capacity s' \<and> unat (cursor s1) \<le> unat (cursor s') \<and> length rs' = length ns \<and>
     (\<forall>i st. i < length ns \<longrightarrow> rs' ! i = Some st \<longrightarrow>
        unat (cursor s1) \<le> unat st \<and> unat st + unat (ns ! i) \<le> unat (cursor s'))"
    using Cons.IH [OF rest ns] s1 Cons.prems(4) rs by auto
  have head: "unat (cursor s) \<le> unat st \<and> unat st + unat n \<le> unat (cursor s')" if "r = Some st" for st
    using granted_keeps_cursor_ok [of n s st s1] r that n Cons.prems(3) IH by simp
  have tail: "unat (cursor s) \<le> unat st \<and> unat st + unat (ns ! i) \<le> unat (cursor s')"
    if "i < length ns" and "rs' ! i = Some st" for i st
    using IH s1 that by (meson le_trans)
  have block: "unat (cursor s) \<le> unat st \<and> unat st + unat ((n # ns) ! i) \<le> unat (cursor s')"
    if "i < length (n # ns)" and "rs ! i = Some st" for i st
    using head tail that rs by (cases i) simp_all
  show ?case
  proof (intro conjI allI impI)
    show "unat (cursor s) \<le> unat (cursor s')" using IH s1 by linarith
  qed (use IH block rs in \<open>simp_all\<close>)
qed

lemma reserve_all_disjoint:
  assumes "reserve_all reserve ns s = (rs, s')" and "\<forall>n \<in> set ns. unat n < 2 ^ 63"
    and "cursor_ok cursor capacity s"
    and "None \<notin> set rs \<or> (\<forall>n s s'. reserve n s = (None, s') \<longrightarrow> cursor s' = cursor s)"
    and "i < j" and "j < length ns" and "rs ! i = Some a" and "rs ! j = Some b"
  shows "unat a + unat (ns ! i) \<le> unat b"
  using assms
proof (induction ns arbitrary: s rs i j)
  case Nil
  then show ?case by simp
next
  case (Cons n ns)
  from Cons.prems(1) obtain r s1 rs' where
    r: "reserve n s = (r, s1)" and rest: "reserve_all reserve ns s1 = (rs', s')" and rs: "rs = r # rs'"
    by (auto split: prod.splits)
  have n: "unat n < 2 ^ 63" and ns: "\<forall>n \<in> set ns. unat n < 2 ^ 63"
    using Cons.prems(2) by simp_all
  have s1: "cursor_ok cursor capacity s1"
  proof (cases r)
    case None
    with Cons.prems(4) r rs have "cursor s1 = cursor s" by auto
    with Cons.prems(3) capacity_fixed [OF r] show ?thesis by (simp add: cursor_ok_def)
  next
    case (Some st)
    with granted_keeps_cursor_ok [of n s st s1] r n Cons.prems(3) show ?thesis by simp
  qed
  have ref: "None \<notin> set rs' \<or> (\<forall>n s s'. reserve n s = (None, s') \<longrightarrow> cursor s' = cursor s)"
    using Cons.prems(4) rs by auto
  show ?case
  proof (cases i)
    case 0
    have "unat a + unat n = unat (cursor s1)"
      using granted_keeps_cursor_ok [of n s a s1] r n Cons.prems(3,7) rs 0 by simp
    moreover have "unat (cursor s1) \<le> unat b"
      using reserve_all_bounds [OF rest ns s1 ref] Cons.prems(5,6,8) rs 0
      by (cases j) auto
    ultimately show ?thesis using 0 by simp
  next
    case (Suc i')
    then obtain j' where j: "j = Suc j'" using Cons.prems(5) by (cases j) auto
    show ?thesis
      using Cons.IH [OF rest ns s1 ref, of i' j'] Cons.prems(5-8) rs Suc j by simp
  qed
qed

end

locale rollback_arena = arena reserve cursor capacity
  for reserve :: "u64 \<Rightarrow> 's \<Rightarrow> u64 option \<times> 's"
    and cursor :: "'s \<Rightarrow> u64"
    and capacity :: "'s \<Rightarrow> u64" +
  assumes refused_cursor: "reserve n s = (None, s') \<Longrightarrow> cursor s' = cursor s"
begin

lemma reserve_keeps_cursor_ok:
  assumes "reserve n s = (r, s')" and "unat n < 2 ^ 63" and "cursor_ok cursor capacity s"
  shows "cursor_ok cursor capacity s'" and "unat (cursor s) \<le> unat (cursor s')"
proof -
  have "cursor_ok cursor capacity s' \<and> unat (cursor s) \<le> unat (cursor s')"
  proof (cases r)
    case None
    with refused_cursor assms(1) have "cursor s' = cursor s" by simp
    with capacity_fixed [OF assms(1)] assms(3) show ?thesis by (simp add: cursor_ok_def)
  next
    case (Some st)
    with granted_keeps_cursor_ok [of n s st s'] assms show ?thesis by simp
  qed
  then show "cursor_ok cursor capacity s'" and "unat (cursor s) \<le> unat (cursor s')" by simp_all
qed

end

end
