(* ===== verification/Buffer_Manager.thy ===== *)
theory Buffer_Manager
  imports Columns Arena "HOL-Library.AList"
begin

text \<open>
  The GPU buffer manager (\<open>src/src/gpu_buffer_manager.cpp\<close>): the caching region on the GPU with its
  pinned overflow region on the host, the host processing region, the table of blocks taken from
  the RMM pool, the pinned (locked) blocks, and the tables cached by name.  \<open>NUM_GPUS\<close> is the
  constant 1 and every caller passes \<open>gpu = 0\<close>, so the arrays indexed by \<open>gpu\<close> are their one
  element here.  The RMM pool is a library: \<open>rmm live n\<close>, an argument of the definitions, is the block it
  hands out (or \<open>None\<close>, a thrown \<open>bad_alloc\<close>) when \<open>live\<close> are the blocks in use; the field
  \<open>rmm_live\<close> records those blocks with their sizes, and a deallocation of anything else is
  undefined behaviour.  A \<open>std::map\<close> that the code iterates over is an association list.
\<close>

section \<open>State\<close>

type_synonym blocks = "(ptr \<times> u64) list"

record buffer_manager =
  gpuCache :: ptr
  cpuCache :: ptr
  gpuProcessing :: "ptr option"
  cpuProcessing :: ptr
  gpuProcessingPointer :: u64
  gpuCachingPointer :: u64
  cpuCachingPointer :: u64
  cpuProcessingPointer :: u64
  cache_size_per_gpu :: u64
  processing_size_per_gpu :: u64
  processing_size_per_cpu :: u64
  available_gpu_cache_size :: u64
  allocation_table :: blocks
  locked_allocation_table :: blocks
  rmm_stored_buffers :: blocks
  rmm_live :: blocks
  tables :: "(string \<times> GPUIntermediateRelation) list"

type_synonym rmm_pool = "blocks \<Rightarrow> u64 \<Rightarrow> ptr option"

section \<open>The pool resource\<close>

definition mr_allocate :: "rmm_pool \<Rightarrow> u64 \<Rightarrow> (buffer_manager, ptr) act" where
  "mr_allocate rmm n s = (case rmm (rmm_live s) n of
     None \<Rightarrow> (Inl BadAlloc, s)
   | Some p \<Rightarrow> (Inr p, s\<lparr>rmm_live := AList.update p n (rmm_live s)\<rparr>))"

definition mr_deallocate :: "ptr \<Rightarrow> u64 \<Rightarrow> (buffer_manager, unit) act" where
  "mr_deallocate p n s =
     (if map_of (rmm_live s) p = Some n then (Inr (), s\<lparr>rmm_live := AList.delete p (rmm_live s)\<rparr>)
      else (Inl (UndefinedBehaviour ''deallocate of a block that is not live''), s))"

section \<open>Construction and destruction\<close>

text \<open>\<open>free_gpu_mem_size\<close> is \<open>getFreeGPUMemorySize(gpu) * 0.99\<close>, \<open>host\<close>, \<open>dev\<close> and \<open>pinned\<close> are
  what the CUDA allocations return.  \<open>gpuProcessing[gpu]\<close> is allocated as an array but its
  element is never written.\<close>

definition GPUBufferManager_new ::
  "u64 \<Rightarrow> u64 \<Rightarrow> u64 \<Rightarrow> u64 \<Rightarrow> ptr \<Rightarrow> ptr \<Rightarrow> ptr \<Rightarrow> buffer_manager" where
  "GPUBufferManager_new cache_size processing_gpu processing_cpu free_gpu_mem_size host dev pinned =
     (let base = \<lparr>gpuCache = dev, cpuCache = nullptr, gpuProcessing = None, cpuProcessing = host,
        gpuProcessingPointer = 0, gpuCachingPointer = 0, cpuCachingPointer = 0,
        cpuProcessingPointer = 0, cache_size_per_gpu = cache_size,
        processing_size_per_gpu = processing_gpu, processing_size_per_cpu = processing_cpu,
        available_gpu_cache_size = 0, allocation_table = [], locked_allocation_table = [],
        rmm_stored_buffers = [], rmm_live = [], tables = []\<rparr>
      in if free_gpu_mem_size \<ge> cache_size then
           base\<lparr>cpuCache := nullptr, available_gpu_cache_size := cache_size\<rparr>
         else
           base\<lparr>cpuCache := pinned, available_gpu_cache_size := free_gpu_mem_size\<rparr>)"

definition GPUBufferManager_destroy :: "(buffer_manager, unit) act" where
  "GPUBufferManager_destroy s = (case gpuProcessing s of
     None \<Rightarrow> (Inl (UndefinedBehaviour ''gpuProcessing is never initialised''), s)
   | Some p \<Rightarrow> mr_deallocate p (processing_size_per_gpu s) s)"

section \<open>Allocation\<close>

text \<open>The size a request is rounded to.  The \<open>int\<close> alignment 256 is converted to \<open>size_t\<close>.\<close>

definition aligned_alloc :: "u64 \<Rightarrow> u64 \<Rightarrow> u64" where
  "aligned_alloc n sizeofT =
     (let alloc = n * sizeofT; alignment = 256
      in alloc + (alignment - alloc mod alignment))"

text \<open>The caching branch of \<open>customCudaMalloc\<close>: the GPU region first, the pinned host region when
  it is full.  A reservation advances the region's pointer and, when the request does not fit,
  takes the advance back.\<close>

definition gpuCacheReserve :: "u64 \<Rightarrow> buffer_manager \<Rightarrow> u64 option \<times> buffer_manager" where
  "gpuCacheReserve alloc s =
     (let start = gpuCachingPointer s;
          s1 = s\<lparr>gpuCachingPointer := start + alloc\<rparr>
      in if start + alloc \<le> available_gpu_cache_size s then (Some start, s1)
         else (None, s1\<lparr>gpuCachingPointer := gpuCachingPointer s1 - alloc\<rparr>))"

definition cpuCacheReserve :: "u64 \<Rightarrow> buffer_manager \<Rightarrow> u64 option \<times> buffer_manager" where
  "cpuCacheReserve alloc s =
     (let start = cpuCachingPointer s;
          s1 = s\<lparr>cpuCachingPointer := start + alloc\<rparr>
      in if start + alloc > cache_size_per_gpu s - available_gpu_cache_size s
         then (None, s1\<lparr>cpuCachingPointer := cpuCachingPointer s1 - alloc\<rparr>)
         else (Some start, s1))"

definition check_alignment :: "ptr \<Rightarrow> (buffer_manager, ptr) act" where
  "check_alignment p = (if p mod 8 \<noteq> 0
     then act_throw (InvalidInputException ''Memory is not properly aligned'') else act_return p)"

definition cacheMalloc :: "u64 \<Rightarrow> (buffer_manager, ptr) act" where
  "cacheMalloc alloc s = (case gpuCacheReserve alloc s of
     (Some start, s1) \<Rightarrow> check_alignment (gpuCache s1 + start) s1
   | (None, s1) \<Rightarrow> (case cpuCacheReserve alloc s1 of
       (Some start, s2) \<Rightarrow> check_alignment (cpuCache s2 + start) s2
     | (None, s2) \<Rightarrow> (Inl (InvalidInputException ''Out of caching memory''), s2)))"

text \<open>The processing branch: a block of the pool, recorded in the allocation table.\<close>

definition poolMalloc :: "rmm_pool \<Rightarrow> u64 \<Rightarrow> (buffer_manager, ptr) act" where
  "poolMalloc rmm alloc = act_bind (mr_allocate rmm alloc) (\<lambda>p s.
     if p = nullptr then (Inl (InvalidInputException ''Pointer is nullptr''), s)
     else if map_of (allocation_table s) p \<noteq> None then
       (Inl (InvalidInputException ''Pointer already exists in allocation table''), s)
     else (Inr p, s\<lparr>allocation_table := AList.update p alloc (allocation_table s)\<rparr>))"

definition customCudaMalloc ::
  "rmm_pool \<Rightarrow> u64 \<Rightarrow> u64 \<Rightarrow> bool \<Rightarrow> (buffer_manager, ptr) act" where
  "customCudaMalloc rmm sizeofT n caching =
     (let alloc = aligned_alloc n sizeofT
      in if caching then cacheMalloc alloc else poolMalloc rmm alloc)"

text \<open>\<open>customCudaHostAlloc\<close>: the pointer advances even when the request fails.  The \<open>assert\<close>
  repeats the test that follows it and is compiled out of release builds.\<close>

definition hostReserve :: "u64 \<Rightarrow> buffer_manager \<Rightarrow> u64 option \<times> buffer_manager" where
  "hostReserve alloc s =
     (let start = cpuProcessingPointer s;
          s1 = s\<lparr>cpuProcessingPointer := start + alloc\<rparr>
      in if start + alloc \<ge> processing_size_per_cpu s then (None, s1) else (Some start, s1))"

definition customCudaHostAlloc :: "u64 \<Rightarrow> u64 \<Rightarrow> (buffer_manager, ptr) act" where
  "customCudaHostAlloc sizeofT n s = (case hostReserve (n * sizeofT) s of
     (None, s1) \<Rightarrow> (Inl (InvalidInputException ''Out of CPU memory''), s1)
   | (Some start, s1) \<Rightarrow> (Inr (cpuProcessing s1 + start), s1))"

definition lockAllocation :: "ptr \<Rightarrow> (buffer_manager, unit) act" where
  "lockAllocation p s = (case map_of (allocation_table s) p of
     None \<Rightarrow> (Inr (), s)
   | Some n \<Rightarrow> (Inr (), s\<lparr>locked_allocation_table := AList.update p n (locked_allocation_table s),
                        allocation_table := AList.delete p (allocation_table s)\<rparr>))"

definition customCudaFree :: "ptr \<Rightarrow> (buffer_manager, unit) act" where
  "customCudaFree p s =
     (if p = nullptr then (Inr (), s)
      else if p \<ge> gpuCache s \<and> p < gpuCache s + available_gpu_cache_size s then (Inr (), s)
      else if cpuCache s \<noteq> nullptr \<and> p \<ge> cpuCache s \<and>
          p < cpuCache s + cache_size_per_gpu s - available_gpu_cache_size s then (Inr (), s)
      else case map_of (allocation_table s) p of
        Some n \<Rightarrow> act_bind (mr_deallocate p n)
          (\<lambda>_. act_modify (\<lambda>t. t\<lparr>allocation_table := AList.delete p (allocation_table t)\<rparr>)) s
      | None \<Rightarrow> (case map_of (locked_allocation_table s) p of
          Some n \<Rightarrow> (Inr (), s)
        | None \<Rightarrow> (if p \<in> fst ` set (rmm_stored_buffers s) then (Inr (), s)
                  else (Inl (InvalidInputException ''Pointer not found in allocation table''), s))))"

section \<open>Reset\<close>

definition release_block :: "ptr \<times> u64 \<Rightarrow> (buffer_manager, unit) act" where
  "release_block b = (if fst b \<noteq> nullptr then mr_deallocate (fst b) (snd b) else act_return ())"

definition reset_row_ids :: "GPUIntermediateRelation \<Rightarrow> GPUIntermediateRelation" where
  "reset_row_ids r = r\<lparr>columns := map (map_option
     (\<lambda>c. c\<lparr>row_ids := nullptr, row_id_count := Some 0\<rparr>)) (columns r)\<rparr>"

text \<open>Clearing \<open>rmm_stored_buffers\<close> runs the destructor of every device buffer, which returns its
  block to the pool.  The two \<open>empty()\<close> tests after \<open>clear()\<close> never fire.\<close>

definition ResetBuffer :: "(buffer_manager, unit) act" where
  "ResetBuffer =
     act_bind (act_modify (\<lambda>s. s\<lparr>gpuProcessingPointer := 0\<rparr>)) (\<lambda>_.
     act_bind (act_reads allocation_table (act_mapM release_block)) (\<lambda>_.
     act_bind (act_modify (\<lambda>s. s\<lparr>allocation_table := []\<rparr>)) (\<lambda>_.
     act_bind (act_reads locked_allocation_table (act_mapM release_block)) (\<lambda>_.
     act_bind (act_modify (\<lambda>s. s\<lparr>locked_allocation_table := []\<rparr>)) (\<lambda>_.
     act_bind (act_reads rmm_stored_buffers (act_mapM release_block)) (\<lambda>_.
     act_modify (\<lambda>s. s\<lparr>rmm_stored_buffers := [], cpuProcessingPointer := 0,
       tables := map (\<lambda>(n, r). (n, reset_row_ids r)) (tables s)\<rparr>)))))))"

definition ResetCache :: "(buffer_manager, unit) act" where
  "ResetCache = act_modify (\<lambda>s. s\<lparr>gpuCachingPointer := 0, cpuCachingPointer := 0,
     tables := map (\<lambda>(n, r). (n, r\<lparr>columns := map (\<lambda>_. None) (columns r),
       column_names := replicate (column_count r) []\<rparr>)) (tables s)\<rparr>)"

section \<open>Tables cached by name\<close>

text \<open>\<open>::toupper\<close> in the C locale.\<close>

definition char_toupper :: "char \<Rightarrow> char" where
  "char_toupper c = (let n = (of_char c :: nat) in if 97 \<le> n \<and> n \<le> 122 then char_of (n - 32) else c)"

definition string_toupper :: "string \<Rightarrow> string" where
  "string_toupper s = map char_toupper s"

text \<open>What the code reads of a DuckDB catalog entry.\<close>

datatype table_constraint = UniqueConstraint "nat option" | OtherConstraint

record table_entry =
  te_column_names :: "string list"
  te_types :: "LogicalType list"
  te_column_index :: "string \<Rightarrow> nat"
  te_column_type :: "string \<Rightarrow> LogicalType"
  te_constraints :: "table_constraint list"

fun unique_columns_of :: "table_constraint list \<Rightarrow> nat list" where
  "unique_columns_of [] = []"
| "unique_columns_of (UniqueConstraint (Some i) # cs) = i # unique_columns_of cs"
| "unique_columns_of (c # cs) = unique_columns_of cs"

definition createTable :: "string \<Rightarrow> nat \<Rightarrow> (buffer_manager, unit) act" where
  "createTable up_table_name count = act_modify (\<lambda>s.
     if map_of (tables s) up_table_name = None
     then s\<lparr>tables := AList.update up_table_name
            ((GPUIntermediateRelation_new count)\<lparr>rel_names := up_table_name\<rparr>) (tables s)\<rparr>
     else s)"

definition createColumn ::
  "duckdb_env \<Rightarrow> string \<Rightarrow> string \<Rightarrow> GPUColumnType \<Rightarrow> nat \<Rightarrow> nat list \<Rightarrow> (buffer_manager, unit) act"
where
  "createColumn D up_table_name up_column_name column_type column_id unique_columns s =
     (case map_of (tables s) up_table_name of
        None \<Rightarrow> (Inl (UndefinedBehaviour ''null table''), s)
      | Some table \<Rightarrow>
          if column_id < length (column_names table) \<and> column_id < length (columns table) then
            let named = table\<lparr>column_names := (column_names table)[column_id := up_column_name]\<rparr>;
                s1 = s\<lparr>tables := AList.update up_table_name named (tables s)\<rparr>
            in (case GPUColumn_plain D 0 column_type nullptr nullptr of
                  Inl e \<Rightarrow> (Inl e, s1)
                | Inr c \<Rightarrow> (Inr (), s\<lparr>tables := AList.update up_table_name
                    (named\<lparr>columns := (columns named)[column_id :=
                       Some (c\<lparr>is_unique := column_id \<in> set unique_columns\<rparr>)]\<rparr>) (tables s)\<rparr>))
          else (Inl (UndefinedBehaviour ''vector index''), s))"

definition checkIfColumnCached :: "string \<Rightarrow> string \<Rightarrow> buffer_manager \<Rightarrow> bool" where
  "checkIfColumnCached table_name column_name s =
     (case map_of (tables s) (string_toupper table_name) of
        None \<Rightarrow> False
      | Some table \<Rightarrow> string_toupper column_name \<in> set (column_names table))"

definition createTableAndColumnInGPU ::
  "duckdb_env \<Rightarrow> (string \<Rightarrow> table_entry res) \<Rightarrow> string \<Rightarrow> string \<Rightarrow> (buffer_manager, unit) act" where
  "createTableAndColumnInGPU D catalog table_name column_name =
     act_bind (act_lift (catalog table_name)) (\<lambda>table.
       let unique_columns = unique_columns_of (te_constraints table);
           up_column_name = string_toupper column_name
       in if column_name \<in> set (te_column_names table) then
            let column_id = te_column_index table column_name;
                up_table_name = string_toupper table_name
            in act_bind (createTable up_table_name (length (te_types table))) (\<lambda>_.
               act_bind (act_lift (convertLogicalTypeToColumnType (te_column_type table column_name)))
                 (\<lambda>column_type.
               createColumn D up_table_name up_column_name column_type column_id unique_columns))
          else act_throw (InvalidInputException ''Column does not exists''))"

section \<open>The three regions as arenas\<close>

named_theorems reserve_defs "the reservations of the three regions"

lemmas [reserve_defs] = gpuCacheReserve_def cpuCacheReserve_def hostReserve_def

lemma gpuCacheReserve_frame:
  assumes "gpuCacheReserve n s = (r, s')"
  shows "s' = s\<lparr>gpuCachingPointer := gpuCachingPointer s'\<rparr>"
  using assms by (auto simp: reserve_defs Let_def split: if_splits)

lemma cpuCacheReserve_frame:
  assumes "cpuCacheReserve n s = (r, s')"
  shows "s' = s\<lparr>cpuCachingPointer := cpuCachingPointer s'\<rparr>"
  using assms by (auto simp: reserve_defs Let_def split: if_splits)

definition cpu_cache_size :: "buffer_manager \<Rightarrow> u64" where
  "cpu_cache_size s = cache_size_per_gpu s - available_gpu_cache_size s"

interpretation gpu_arena: rollback_arena gpuCacheReserve gpuCachingPointer available_gpu_cache_size
  by unfold_locales (auto simp: reserve_defs Let_def split: if_splits)

interpretation cpu_arena: rollback_arena cpuCacheReserve cpuCachingPointer cpu_cache_size
  by unfold_locales (auto simp: reserve_defs Let_def cpu_cache_size_def not_less split: if_splits)

interpretation host_arena: arena hostReserve cpuProcessingPointer processing_size_per_cpu
  by unfold_locales (auto simp: reserve_defs Let_def not_le split: if_splits)

section \<open>Cached blocks\<close>

text \<open>The layout of the two caching regions: neither wraps around the address space, they do not
  overlap, and no pointer has passed its region.\<close>

definition cache_wf :: "buffer_manager \<Rightarrow> bool" where
  "cache_wf s \<longleftrightarrow>
     cursor_ok gpuCachingPointer available_gpu_cache_size s \<and>
     cursor_ok cpuCachingPointer cpu_cache_size s \<and>
     unat (gpuCache s) + unat (available_gpu_cache_size s) < 2 ^ 64 \<and>
     unat (cpuCache s) + unat (cpu_cache_size s) < 2 ^ 64 \<and>
     (unat (gpuCache s) + unat (available_gpu_cache_size s) \<le> unat (cpuCache s) \<or>
      unat (cpuCache s) + unat (cpu_cache_size s) \<le> unat (gpuCache s))"

text \<open>\<open>cached_between s t p n\<close>: the block of \<open>n\<close> bytes at \<open>p\<close> lies in one of the two regions, in
  the part that the cursors passed between \<open>s\<close> and \<open>t\<close>.\<close>

definition gpu_between :: "buffer_manager \<Rightarrow> buffer_manager \<Rightarrow> ptr \<Rightarrow> u64 \<Rightarrow> bool" where
  "gpu_between s t p n \<longleftrightarrow>
     unat (gpuCache s) + unat (gpuCachingPointer s) \<le> unat p \<and>
     unat p + unat n \<le> unat (gpuCache s) + unat (gpuCachingPointer t)"

definition cpu_between :: "buffer_manager \<Rightarrow> buffer_manager \<Rightarrow> ptr \<Rightarrow> u64 \<Rightarrow> bool" where
  "cpu_between s t p n \<longleftrightarrow>
     unat (cpuCache s) + unat (cpuCachingPointer s) \<le> unat p \<and>
     unat p + unat n \<le> unat (cpuCache s) + unat (cpuCachingPointer t)"

definition same_cache_layout :: "buffer_manager \<Rightarrow> buffer_manager \<Rightarrow> bool" where
  "same_cache_layout s t \<longleftrightarrow>
     gpuCache t = gpuCache s \<and> cpuCache t = cpuCache s \<and>
     available_gpu_cache_size t = available_gpu_cache_size s \<and>
     cache_size_per_gpu t = cache_size_per_gpu s \<and>
     unat (gpuCachingPointer s) \<le> unat (gpuCachingPointer t) \<and>
     unat (cpuCachingPointer s) \<le> unat (cpuCachingPointer t)"

lemma check_alignment_state [simp]: "snd (check_alignment p s) = s"
  by (simp add: check_alignment_def act_simps)

lemma check_alignment_cases:
  "check_alignment p s = (r, t) \<Longrightarrow> t = s \<and> (r = Inr p \<or> (\<exists>e. r = Inl e))"
  by (auto simp: check_alignment_def act_simps split: if_splits)

lemma gpu_reserve_block:
  assumes r: "gpuCacheReserve n s = (Some st, t)" and n: "unat n < 2 ^ 63" and wf: "cache_wf s"
  shows "cache_wf t" and "same_cache_layout s t" and "gpu_between s t (gpuCache t + st) n"
proof -
  have ok: "cursor_ok gpuCachingPointer available_gpu_cache_size s"
    using wf by (simp add: cache_wf_def)
  note g = gpu_arena.granted_keeps_cursor_ok [OF r n ok]
  have t: "t = s\<lparr>gpuCachingPointer := gpuCachingPointer t\<rparr>"
    by (rule gpuCacheReserve_frame [OF r])
  have fields: "gpuCache t = gpuCache s" "cpuCache t = cpuCache s"
    "available_gpu_cache_size t = available_gpu_cache_size s"
    "cache_size_per_gpu t = cache_size_per_gpu s" "cpuCachingPointer t = cpuCachingPointer s"
    "cpu_cache_size t = cpu_cache_size s"
    by (subst t, simp add: cpu_cache_size_def)+
  show "cache_wf t"
    using wf g(1) by (simp add: cache_wf_def cursor_ok_def fields)
  show "same_cache_layout s t"
    using g(3) by (simp add: same_cache_layout_def fields)
  have "unat (gpuCache s + st) = unat (gpuCache s) + unat st"
    using wf g(1-3) by (intro unat_add_no_wrap) (simp add: cache_wf_def cursor_ok_def fields)
  then show "gpu_between s t (gpuCache t + st) n"
    using g(2,3) by (simp add: gpu_between_def fields)
qed

lemma gpu_reserve_refused: "gpuCacheReserve n s = (None, t) \<Longrightarrow> t = s"
  by (auto simp: reserve_defs Let_def split: if_splits)

lemma cpu_reserve_refused: "cpuCacheReserve n s = (None, t) \<Longrightarrow> t = s"
  by (auto simp: reserve_defs Let_def split: if_splits)

lemma cpu_reserve_block:
  assumes r: "cpuCacheReserve n s = (Some st, t)" and n: "unat n < 2 ^ 63" and wf: "cache_wf s"
  shows "cache_wf t" and "same_cache_layout s t" and "cpu_between s t (cpuCache t + st) n"
proof -
  have ok: "cursor_ok cpuCachingPointer cpu_cache_size s"
    using wf by (simp add: cache_wf_def)
  note g = cpu_arena.granted_keeps_cursor_ok [OF r n ok]
  have t: "t = s\<lparr>cpuCachingPointer := cpuCachingPointer t\<rparr>"
    by (rule cpuCacheReserve_frame [OF r])
  have fields: "gpuCache t = gpuCache s" "cpuCache t = cpuCache s"
    "available_gpu_cache_size t = available_gpu_cache_size s"
    "cache_size_per_gpu t = cache_size_per_gpu s" "gpuCachingPointer t = gpuCachingPointer s"
    "cpu_cache_size t = cpu_cache_size s"
    by (subst t, simp add: cpu_cache_size_def)+
  show "cache_wf t"
    using wf g(1) by (simp add: cache_wf_def cursor_ok_def fields)
  show "same_cache_layout s t"
    using g(3) by (simp add: same_cache_layout_def fields)
  have "unat (cpuCache s + st) = unat (cpuCache s) + unat st"
    using wf g(1-3) by (intro unat_add_no_wrap) (simp add: cache_wf_def cursor_ok_def fields)
  then show "cpu_between s t (cpuCache t + st) n"
    using g(2,3) by (simp add: cpu_between_def fields)
qed

lemma cacheMalloc_step:
  assumes m: "cacheMalloc n s = (r, t)" and n: "unat n < 2 ^ 63" and wf: "cache_wf s"
  shows "cache_wf t \<and> same_cache_layout s t \<and>
     (\<forall>p. r = Inr p \<longrightarrow> gpu_between s t p n \<or> cpu_between s t p n)"
proof (cases "gpuCacheReserve n s")
  case (Pair g s1)
  show ?thesis
  proof (cases g)
    case (Some st)
    with m Pair have "check_alignment (gpuCache s1 + st) s1 = (r, t)" by (simp add: cacheMalloc_def)
    then have "t = s1 \<and> (\<forall>p. r = Inr p \<longrightarrow> p = gpuCache s1 + st)"
      by (auto dest: check_alignment_cases)
    with gpu_reserve_block [of n s st s1] Pair Some n wf show ?thesis by auto
  next
    case None
    with Pair have s1: "s1 = s" by (simp add: gpu_reserve_refused)
    show ?thesis
    proof (cases "cpuCacheReserve n s")
      case c: (Pair c s2)
      show ?thesis
      proof (cases c)
        case None
        with c have "s2 = s" by (simp add: cpu_reserve_refused)
        with m Pair \<open>g = None\<close> s1 c None wf show ?thesis
          by (auto simp: cacheMalloc_def same_cache_layout_def)
      next
        case (Some st)
        with m Pair \<open>g = None\<close> s1 c have "check_alignment (cpuCache s2 + st) s2 = (r, t)"
          by (simp add: cacheMalloc_def)
        then have "t = s2 \<and> (\<forall>p. r = Inr p \<longrightarrow> p = cpuCache s2 + st)"
          by (auto dest: check_alignment_cases)
        with cpu_reserve_block [of n s st s2] c Some n wf show ?thesis by auto
      qed
    qed
  qed
qed

text \<open>A sequence of caching requests \<open>(sizeof(T), count)\<close>, the caller going on after a throw.\<close>

fun cached_mallocs :: "rmm_pool \<Rightarrow> (u64 \<times> u64) list \<Rightarrow> buffer_manager \<Rightarrow> ptr res list \<times> buffer_manager"
where
  "cached_mallocs rmm [] s = ([], s)"
| "cached_mallocs rmm ((sz, n) # reqs) s =
     (case customCudaMalloc rmm sz n True s of (r, s1) \<Rightarrow>
       (case cached_mallocs rmm reqs s1 of (rs, s2) \<Rightarrow> (r # rs, s2)))"

definition request_size :: "u64 \<times> u64 \<Rightarrow> u64" where
  "request_size q = aligned_alloc (snd q) (fst q)"

lemma same_cache_layout_trans:
  "same_cache_layout s t \<Longrightarrow> same_cache_layout t u \<Longrightarrow> same_cache_layout s u"
  by (auto simp: same_cache_layout_def)

lemma between_widen:
  assumes "same_cache_layout s t" and "same_cache_layout t u"
  shows "gpu_between t u p n \<Longrightarrow> gpu_between s u p n" and "gpu_between s t p n \<Longrightarrow> gpu_between s u p n"
    and "cpu_between t u p n \<Longrightarrow> cpu_between s u p n" and "cpu_between s t p n \<Longrightarrow> cpu_between s u p n"
  using assms by (auto simp: same_cache_layout_def gpu_between_def cpu_between_def)

lemma cached_mallocs_blocks:
  assumes "cached_mallocs rmm reqs s = (rs, t)" and "\<forall>q \<in> set reqs. unat (request_size q) < 2 ^ 63"
    and "cache_wf s"
  shows "cache_wf t \<and> same_cache_layout s t \<and> length rs = length reqs \<and>
     (\<forall>i p. i < length reqs \<longrightarrow> rs ! i = Inr p \<longrightarrow>
        gpu_between s t p (request_size (reqs ! i)) \<or> cpu_between s t p (request_size (reqs ! i)))"
  using assms
proof (induction reqs arbitrary: s rs)
  case Nil
  then show ?case by (simp add: same_cache_layout_def)
next
  case (Cons q reqs)
  obtain sz n where q: "q = (sz, n)" by (cases q)
  from Cons.prems(1) obtain r s1 rs' where
    r: "cacheMalloc (request_size q) s = (r, s1)" and rest: "cached_mallocs rmm reqs s1 = (rs', t)"
    and rs: "rs = r # rs'"
    by (auto simp: q customCudaMalloc_def Let_def request_size_def split: prod.splits)
  have n: "unat (request_size q) < 2 ^ 63" and ns: "\<forall>q \<in> set reqs. unat (request_size q) < 2 ^ 63"
    using Cons.prems(2) by simp_all
  note step = cacheMalloc_step [OF r n Cons.prems(3)]
  note IH = Cons.IH [OF rest ns] step
  have "gpu_between s t p (request_size ((q # reqs) ! i)) \<or> cpu_between s t p (request_size ((q # reqs) ! i))"
    if "i < length (q # reqs)" and "rs ! i = Inr p" for i p
    using that IH rs between_widen [of s s1 t] by (cases i) (simp, blast, simp, blast)
  with IH rs show ?case by (auto intro: same_cache_layout_trans)
qed

lemma gpu_cpu_blocks_disjoint:
  assumes "cache_wf t" and "same_cache_layout s t" and "gpu_between s t p n" and "cpu_between s t q m"
  shows "unat p + unat n \<le> unat q \<or> unat q + unat m \<le> unat p"
  using assms by (auto simp: cache_wf_def cursor_ok_def same_cache_layout_def gpu_between_def
      cpu_between_def cpu_cache_size_def)

lemma cached_mallocs_disjoint:
  assumes "cached_mallocs rmm reqs s = (rs, t)" and "\<forall>q \<in> set reqs. unat (request_size q) < 2 ^ 63"
    and "cache_wf s" and "i < j" and "j < length reqs" and "rs ! i = Inr p" and "rs ! j = Inr q"
  shows "unat p + unat (request_size (reqs ! i)) \<le> unat q \<or>
         unat q + unat (request_size (reqs ! j)) \<le> unat p"
  using assms
proof (induction reqs arbitrary: s rs i j)
  case Nil
  then show ?case by simp
next
  case (Cons req reqs)
  obtain sz n where req: "req = (sz, n)" by (cases req)
  from Cons.prems(1) obtain r s1 rs' where
    r: "cacheMalloc (request_size req) s = (r, s1)" and rest: "cached_mallocs rmm reqs s1 = (rs', t)"
    and rs: "rs = r # rs'"
    by (auto simp: req customCudaMalloc_def Let_def request_size_def split: prod.splits)
  have n: "unat (request_size req) < 2 ^ 63" and ns: "\<forall>q \<in> set reqs. unat (request_size q) < 2 ^ 63"
    using Cons.prems(2) by simp_all
  note step = cacheMalloc_step [OF r n Cons.prems(3)]
  note blocks = cached_mallocs_blocks [OF rest ns conjunct1 [OF step]]
  obtain j' where j: "j = Suc j'" using Cons.prems(4) by (cases j) auto
  show ?case
  proof (cases i)
    case (Suc i')
    then show ?thesis
      using Cons.IH [OF rest ns conjunct1 [OF step], of i' j'] Cons.prems(4-7) rs j by simp
  next
    case 0
    have p: "gpu_between s s1 p (request_size req) \<or> cpu_between s s1 p (request_size req)"
      using step Cons.prems(6) rs 0 by simp
    have q: "gpu_between s1 t q (request_size (reqs ! j')) \<or> cpu_between s1 t q (request_size (reqs ! j'))"
      using blocks Cons.prems(5,7) rs j by simp
    have lay: "same_cache_layout s s1" "same_cache_layout s1 t" "cache_wf t"
      using step blocks by simp_all
    from p q consider
        "gpu_between s s1 p (request_size req)" "gpu_between s1 t q (request_size (reqs ! j'))"
      | "cpu_between s s1 p (request_size req)" "cpu_between s1 t q (request_size (reqs ! j'))"
      | "gpu_between s t p (request_size req)" "cpu_between s t q (request_size (reqs ! j'))"
      | "cpu_between s t p (request_size req)" "gpu_between s t q (request_size (reqs ! j'))"
      using between_widen [OF lay(1,2)] by blast
    then show ?thesis
    proof cases
      case 1
      with lay show ?thesis by (auto simp: gpu_between_def same_cache_layout_def 0 j)
    next
      case 2
      with lay show ?thesis by (auto simp: cpu_between_def same_cache_layout_def 0 j)
    next
      case 3
      with gpu_cpu_blocks_disjoint [OF lay(3) same_cache_layout_trans [OF lay(1,2)]] show ?thesis
        by (simp add: 0 j)
    next
      case 4
      with gpu_cpu_blocks_disjoint [OF lay(3) same_cache_layout_trans [OF lay(1,2)]] show ?thesis
        by (simp add: 0 j) (metis 4)
    qed
  qed
qed

section \<open>Properties\<close>

text \<open>C8: rounding of a GPU request.  Unless the byte count wraps, the allocated size is a multiple of
  256, is strictly larger than the request and exceeds it by at most 256 bytes; a request that is
  already a multiple of 256 is given a full extra 256 bytes.\<close>

theorem aligned_alloc_bounds:
  assumes "unat n * unat sz + 256 < 2 ^ 64"
  shows "unat (aligned_alloc n sz) mod 256 = 0 \<and> unat n * unat sz < unat (aligned_alloc n sz) \<and>
    unat (aligned_alloc n sz) \<le> unat n * unat sz + 256 \<and>
    (unat n * unat sz mod 256 = 0 \<longrightarrow> unat (aligned_alloc n sz) = unat n * unat sz + 256)"
proof -
  let ?a = "unat n * unat sz"
  have a: "unat (n * sz) = ?a"
    using assms by (simp add: unat_mult_no_wrap)
  have m: "unat ((n * sz) mod 256) = ?a mod 256"
    by (simp add: unat_mod a)
  have d: "unat (256 - (n * sz) mod 256) = 256 - ?a mod 256"
    by (subst unat_sub_no_wrap) (simp_all add: m)
  have e: "unat (aligned_alloc n sz) = ?a + (256 - ?a mod 256)"
    unfolding aligned_alloc_def Let_def using assms
    by (subst unat_add_no_wrap) (simp_all add: a d)
  obtain k r where k: "?a = 256 * k + r" "r < 256"
    by (metis div_mult_mod_eq mod_less_divisor mult.commute zero_less_numeral)
  then have "?a mod 256 = r" by simp
  with k have "?a + (256 - ?a mod 256) = 256 * (k + 1)" by simp
  then have "(?a + (256 - ?a mod 256)) mod 256 = 0" by (simp only: mod_mult_self1_is_0)
  moreover have "?a mod 256 < 256" by simp
  ultimately show ?thesis unfolding e by linarith
qed

theorem aligned_alloc_bounds_witness:
  "unat (aligned_alloc 100 8) mod 256 = 0 \<and> unat (aligned_alloc 32 8) = 512"
  using aligned_alloc_bounds [of 100 8] aligned_alloc_bounds [of 32 8] by simp

text \<open>C2: blocks of the caching regions never overlap.  In any run of caching requests of one thread,
  from a manager whose regions are laid out apart, two granted requests have disjoint address
  ranges, whether each came from the GPU region or from its overflow on the host, and refused
  requests in between do not disturb this.\<close>

theorem cached_blocks_disjoint:
  assumes "cached_mallocs rmm reqs s = (rs, t)" and "\<forall>q \<in> set reqs. unat (request_size q) < 2 ^ 63"
    and "cache_wf s" and "i < j" and "j < length reqs" and "rs ! i = Inr p" and "rs ! j = Inr q"
  shows "unat p + unat (request_size (reqs ! i)) \<le> unat q \<or>
         unat q + unat (request_size (reqs ! j)) \<le> unat p"
  by (rule cached_mallocs_disjoint [OF assms])

definition overflow_manager :: buffer_manager where
  "overflow_manager = GPUBufferManager_new 2048 65536 4096 1024 0x10000 0x20000 0x30000"

theorem cached_blocks_disjoint_witness:
  "let reqs = [(8, 100), (8, 60), (8, 10)]; rs = fst (cached_mallocs (\<lambda>_ _. None) reqs overflow_manager)
   in rs ! 0 = Inr 0x20000 \<and> rs ! 1 = Inr 0x30000 \<and>
      (unat (0x20000 :: ptr) + unat (request_size (reqs ! 0)) \<le> unat (0x30000 :: ptr) \<or>
       unat (0x30000 :: ptr) + unat (request_size (reqs ! 1)) \<le> unat (0x20000 :: ptr))"
proof -
  let ?reqs = "[(8, 100), (8, 60), (8, 10)] :: (u64 \<times> u64) list"
  have wf: "cache_wf overflow_manager"
    by (simp add: cache_wf_def cursor_ok_def cpu_cache_size_def overflow_manager_def GPUBufferManager_new_def)
  have rs: "fst (cached_mallocs (\<lambda>_ _. None) ?reqs overflow_manager) ! 0 = Inr 0x20000"
    "fst (cached_mallocs (\<lambda>_ _. None) ?reqs overflow_manager) ! 1 = Inr 0x30000"
    by code_simp+
  have sz: "\<forall>q \<in> set ?reqs. unat (request_size q) < 2 ^ 63"
    by (simp add: request_size_def aligned_alloc_def)
  have idx: "1 < length ?reqs" by simp
  have "unat (0x20000 :: ptr) + unat (request_size (?reqs ! 0)) \<le> unat (0x30000 :: ptr) \<or>
       unat (0x30000 :: ptr) + unat (request_size (?reqs ! 1)) \<le> unat (0x20000 :: ptr)"
    using cached_blocks_disjoint [OF surjective_pairing [of "cached_mallocs (\<lambda>_ _. None) ?reqs overflow_manager"]
        sz wf zero_less_one idx rs]
    by assumption
  with rs show ?thesis unfolding Let_def by (intro conjI)
qed

lemma map_of_update [simp]: "map_of (AList.update k v al) = (map_of al)(k \<mapsto> v)"
  by (simp add: update_conv')

text \<open>What caching a column promises.  When \<open>createTableAndColumnInGPU\<close> returns, the column is
  reported as cached under any capitalisation of both names.\<close>

theorem createTableAndColumn_cached:
  assumes "createTableAndColumnInGPU D catalog table_name column_name s = (Inr (), t)"
    and "string_toupper tn = string_toupper table_name"
    and "string_toupper cn = string_toupper column_name"
  shows "checkIfColumnCached tn cn t"
proof -
  from assms(1) obtain te :: table_entry and ct u where
    "createColumn D (string_toupper table_name) (string_toupper column_name) ct
       (te_column_index te column_name) (unique_columns_of (te_constraints te)) u = (Inr (), t)"
    by (auto simp: createTableAndColumnInGPU_def Let_def act_basic elim!: act_bind_InrE split: if_splits)
  then show ?thesis
    using assms(2,3)
    by (auto simp: createColumn_def Let_def checkIfColumnCached_def set_update_memI
        split: option.splits if_splits sum.splits)
qed

text \<open>A cache reset forgets every named column, and frees the whole of both caching regions for
  the next requests.\<close>

theorem ResetCache_forgets:
  assumes "column_name \<noteq> []"
  shows "ResetCache s = (Inr (), snd (ResetCache s)) \<and>
    \<not> checkIfColumnCached table_name column_name (snd (ResetCache s)) \<and>
    gpuCachingPointer (snd (ResetCache s)) = 0 \<and> cpuCachingPointer (snd (ResetCache s)) = 0"
proof -
  have m: "map_of (map (\<lambda>(n, r). (n, f r)) al) k = map_option f (map_of al k)"
    for f :: "GPUIntermediateRelation \<Rightarrow> GPUIntermediateRelation" and al and k :: string
    by (induction al) auto
  show ?thesis
    using assms by (auto simp: ResetCache_def act_basic checkIfColumnCached_def m string_toupper_def
        split: option.split)
qed

definition sample_entry :: table_entry where
  "sample_entry = \<lparr>te_column_names = [''k'', ''v''], te_types = [L_INTEGER, L_BIGINT],
     te_column_index = (\<lambda>c. if c = ''k'' then 0 else 1),
     te_column_type = (\<lambda>c. if c = ''k'' then L_INTEGER else L_BIGINT),
     te_constraints = [UniqueConstraint (Some 0)]\<rparr>"

definition sample_cached :: buffer_manager where
  "sample_cached = snd (createTableAndColumnInGPU duckdb_documented (\<lambda>_. Inr sample_entry) ''t'' ''v''
     overflow_manager)"

theorem createTableAndColumn_cached_witness: "checkIfColumnCached ''T'' ''V'' sample_cached"
proof (rule createTableAndColumn_cached)
  show "createTableAndColumnInGPU duckdb_documented (\<lambda>_. Inr sample_entry) ''t'' ''v'' overflow_manager =
      (Inr (), sample_cached)"
  proof (rule prod_eqI)
    show "fst (createTableAndColumnInGPU duckdb_documented (\<lambda>_. Inr sample_entry) ''t'' ''v''
        overflow_manager) = fst (Inr (), sample_cached)"
      by code_simp
  qed (simp add: sample_cached_def)
qed code_simp+

theorem ResetCache_forgets_witness: "\<not> checkIfColumnCached ''T'' ''V'' (snd (ResetCache sample_cached))"
  using ResetCache_forgets [of "''V''" sample_cached "''T''"] by simp

end
