(* ===== verification/Buffer_Pool.thy ===== *)
theory Buffer_Pool
  imports Buffer_Manager
begin

text \<open>
  The blocks the buffer manager takes from the pool and gives back: the invariant that the blocks
  in its three tables are distinct, not null and live in the pool, that every operation keeps it,
  what freeing a pointer does on every branch, and that a reset gives back every block once.
\<close>

section \<open>Blocks of the pool\<close>

text \<open>The documented behaviour of the pool: a block it hands out is not null and not in use.\<close>

definition rmm_fresh :: "rmm_pool \<Rightarrow> bool" where
  "rmm_fresh rmm \<longleftrightarrow> (\<forall>live n p. rmm live n = Some p \<longrightarrow> p \<noteq> nullptr \<and> p \<notin> fst ` set live)"

text \<open>The blocks the manager is responsible for, and the invariant that ties them to the pool.\<close>

definition owned :: "buffer_manager \<Rightarrow> blocks" where
  "owned s = allocation_table s @ locked_allocation_table s @ rmm_stored_buffers s"

definition pool_wf :: "buffer_manager \<Rightarrow> bool" where
  "pool_wf s \<longleftrightarrow> distinct (map fst (owned s)) \<and> distinct (map fst (rmm_live s)) \<and>
     nullptr \<notin> fst ` set (owned s) \<and> set (owned s) \<subseteq> set (rmm_live s)"

lemma AList_update_fresh: "k \<notin> fst ` set al \<Longrightarrow> AList.update k v al = al @ [(k, v)]"
  by (induction al) auto

lemma AList_delete_filter: "AList.delete k al = filter (\<lambda>b. fst b \<noteq> k) al"
  by (auto simp: AList.delete_eq intro: filter_cong)

lemma mr_deallocate_live:
  assumes "(p, n) \<in> set (rmm_live s)" and "distinct (map fst (rmm_live s))"
  shows "mr_deallocate p n s = (Inr (), s\<lparr>rmm_live := filter (\<lambda>b. fst b \<noteq> p) (rmm_live s)\<rparr>)"
  using assms by (simp add: mr_deallocate_def AList_delete_filter)

lemma pool_wf_frame:
  "allocation_table t = allocation_table s \<Longrightarrow> locked_allocation_table t = locked_allocation_table s \<Longrightarrow>
   rmm_stored_buffers t = rmm_stored_buffers s \<Longrightarrow> rmm_live t = rmm_live s \<Longrightarrow> pool_wf t = pool_wf s"
  by (simp add: pool_wf_def owned_def)

lemma keeps_pool_frame:
  assumes "\<And>s. allocation_table (f s) = allocation_table s \<and>
    locked_allocation_table (f s) = locked_allocation_table s \<and>
    rmm_stored_buffers (f s) = rmm_stored_buffers s \<and> rmm_live (f s) = rmm_live s"
  shows "pool_wf (f s) = pool_wf s"
  using assms by (intro pool_wf_frame) simp_all

lemma poolMalloc_cases:
  assumes fresh: "rmm_fresh rmm" and wf: "pool_wf s" and m: "poolMalloc rmm n s = (r, t)"
  obtains (refused) "rmm (rmm_live s) n = None" and "r = Inl BadAlloc" and "t = s"
    | (granted) p where "rmm (rmm_live s) n = Some p" and "r = Inr p" and "p \<noteq> nullptr"
        and "p \<notin> fst ` set (rmm_live s)"
        and "t = s\<lparr>rmm_live := rmm_live s @ [(p, n)], allocation_table := allocation_table s @ [(p, n)]\<rparr>"
proof (cases "rmm (rmm_live s) n")
  case None
  with m have "r = Inl BadAlloc" and "t = s"
    by (auto simp: poolMalloc_def mr_allocate_def act_bind_def)
  with None show ?thesis by (rule refused)
next
  case (Some p)
  with fresh have p: "p \<noteq> nullptr" "p \<notin> fst ` set (rmm_live s)"
    by (auto simp: rmm_fresh_def)
  with wf have q: "p \<notin> fst ` set (allocation_table s)"
    by (auto simp: pool_wf_def owned_def)
  with m Some p have "r = Inr p" and
    "t = s\<lparr>rmm_live := rmm_live s @ [(p, n)], allocation_table := allocation_table s @ [(p, n)]\<rparr>"
    by (auto simp: poolMalloc_def mr_allocate_def act_bind_def AList_update_fresh map_of_eq_None_iff)
  with Some p show ?thesis by (intro granted)
qed

lemma keeps_poolMalloc: "rmm_fresh rmm \<Longrightarrow> keeps pool_wf (poolMalloc rmm n)"
proof (rule keepsI)
  fix s assume fresh: "rmm_fresh rmm" and wf: "pool_wf s"
  obtain r t where m: "poolMalloc rmm n s = (r, t)" by (cases "poolMalloc rmm n s")
  from fresh wf m show "pool_wf (snd (poolMalloc rmm n s))"
  proof (cases rule: poolMalloc_cases)
    case refused
    with wf m show ?thesis by simp
  next
    case (granted p)
    with wf have "p \<notin> fst ` set (owned s)" by (auto simp: pool_wf_def)
    with wf granted m show ?thesis by (auto simp: pool_wf_def owned_def)
  qed
qed

lemma gpuCacheReserve_pool: "gpuCacheReserve n s = (r, t) \<Longrightarrow> pool_wf t = pool_wf s"
  by (rule pool_wf_frame) (auto simp: reserve_defs Let_def split: if_splits)

lemma cpuCacheReserve_pool: "cpuCacheReserve n s = (r, t) \<Longrightarrow> pool_wf t = pool_wf s"
  by (rule pool_wf_frame) (auto simp: reserve_defs Let_def split: if_splits)

lemma keeps_cacheMalloc: "keeps pool_wf (cacheMalloc n)"
proof (rule keepsI)
  fix s assume wf: "pool_wf s"
  obtain g s1 where g: "gpuCacheReserve n s = (g, s1)" by (cases "gpuCacheReserve n s")
  obtain c s2 where c: "cpuCacheReserve n s1 = (c, s2)" by (cases "cpuCacheReserve n s1")
  show "pool_wf (snd (cacheMalloc n s))"
    using wf gpuCacheReserve_pool [OF g] cpuCacheReserve_pool [OF c] g c
    by (simp add: cacheMalloc_def split: option.split)
qed

lemma keeps_customCudaMalloc: "rmm_fresh rmm \<Longrightarrow> keeps pool_wf (customCudaMalloc rmm sz n caching)"
  using keeps_poolMalloc keeps_cacheMalloc by (simp add: customCudaMalloc_def Let_def)

lemma keeps_customCudaHostAlloc: "keeps pool_wf (customCudaHostAlloc sz n)"
proof (rule keepsI)
  fix s assume "pool_wf s"
  then show "pool_wf (snd (customCudaHostAlloc sz n s))"
    by (subst pool_wf_frame [of _ s]) (simp_all add: customCudaHostAlloc_def hostReserve_def Let_def)
qed

lemma keeps_lockAllocation: "keeps pool_wf (lockAllocation p)"
proof (rule keepsI)
  fix s assume wf: "pool_wf s"
  show "pool_wf (snd (lockAllocation p s))"
  proof (cases "map_of (allocation_table s) p")
    case None
    with wf show ?thesis by (simp add: lockAllocation_def)
  next
    case (Some n)
    then have mem: "(p, n) \<in> set (allocation_table s)" by (rule map_of_SomeD)
    then have key: "p \<in> fst ` set (allocation_table s)" by force
    with wf have p: "p \<notin> fst ` set (locked_allocation_table s)" "p \<notin> fst ` set (rmm_stored_buffers s)"
      by (auto simp: pool_wf_def owned_def)
    let ?t = "s\<lparr>locked_allocation_table := locked_allocation_table s @ [(p, n)],
                allocation_table := filter (\<lambda>b. fst b \<noteq> p) (allocation_table s)\<rparr>"
    have t: "snd (lockAllocation p s) = ?t"
      using Some p(1) by (simp add: lockAllocation_def AList_update_fresh AList_delete_filter)
    have keys: "fst ` set (filter (\<lambda>b. fst b \<noteq> p) (allocation_table s)) \<subseteq> fst ` set (allocation_table s)"
      by auto
    have "set (owned ?t) \<subseteq> set (owned s)"
      using mem by (auto simp: owned_def)
    moreover have "distinct (map fst (owned ?t))"
      using wf p keys by (auto simp: pool_wf_def owned_def distinct_map_filter)
    ultimately show ?thesis
      using wf unfolding t by (auto simp: pool_wf_def)
  qed
qed

subsection \<open>Freeing\<close>

lemma pool_wfD:
  assumes "pool_wf s"
  shows "distinct (map fst (allocation_table s))" "distinct (map fst (locked_allocation_table s))"
    and "distinct (map fst (rmm_stored_buffers s))" "distinct (map fst (rmm_live s))"
    and "fst ` set (allocation_table s) \<inter> fst ` set (locked_allocation_table s) = {}"
    and "fst ` set (allocation_table s) \<inter> fst ` set (rmm_stored_buffers s) = {}"
    and "fst ` set (locked_allocation_table s) \<inter> fst ` set (rmm_stored_buffers s) = {}"
    and "nullptr \<notin> fst ` set (allocation_table s)" "nullptr \<notin> fst ` set (locked_allocation_table s)"
    and "nullptr \<notin> fst ` set (rmm_stored_buffers s)"
    and "set (allocation_table s) \<subseteq> set (rmm_live s)" "set (locked_allocation_table s) \<subseteq> set (rmm_live s)"
    and "set (rmm_stored_buffers s) \<subseteq> set (rmm_live s)"
  using assms by (simp_all add: pool_wf_def owned_def image_Un Int_Un_distrib)

text \<open>Whether \<open>p\<close> lies in one of the caching regions, as \<open>customCudaFree\<close> tests it.\<close>

definition in_cache_region :: "buffer_manager \<Rightarrow> ptr \<Rightarrow> bool" where
  "in_cache_region s p \<longleftrightarrow>
     p \<ge> gpuCache s \<and> p < gpuCache s + available_gpu_cache_size s \<or>
     cpuCache s \<noteq> nullptr \<and> p \<ge> cpuCache s \<and>
       p < cpuCache s + cache_size_per_gpu s - available_gpu_cache_size s"

definition free_tables :: "ptr \<Rightarrow> (buffer_manager, unit) act" where
  "free_tables p s = (case map_of (allocation_table s) p of
        Some n \<Rightarrow> act_bind (mr_deallocate p n)
          (\<lambda>_. act_modify (\<lambda>t. t\<lparr>allocation_table := AList.delete p (allocation_table t)\<rparr>)) s
      | None \<Rightarrow> (case map_of (locked_allocation_table s) p of
          Some n \<Rightarrow> (Inr (), s)
        | None \<Rightarrow> (if p \<in> fst ` set (rmm_stored_buffers s) then (Inr (), s)
                  else (Inl (InvalidInputException ''Pointer not found in allocation table''), s))))"

lemma customCudaFree_split:
  "customCudaFree p s = (if p = nullptr \<or> in_cache_region s p then (Inr (), s) else free_tables p s)"
  unfolding customCudaFree_def in_cache_region_def free_tables_def
  by (cases "p = nullptr"; cases "p \<ge> gpuCache s \<and> p < gpuCache s + available_gpu_cache_size s";
      cases "cpuCache s \<noteq> nullptr \<and> p \<ge> cpuCache s \<and>
          p < cpuCache s + cache_size_per_gpu s - available_gpu_cache_size s")
    (simp_all only: if_True if_False simp_thms)

lemma free_tables_unlocked:
  assumes wf: "pool_wf s" and mem: "(p, n) \<in> set (allocation_table s)"
  shows "free_tables p s = (Inr (), s\<lparr>rmm_live := filter (\<lambda>b. fst b \<noteq> p) (rmm_live s),
           allocation_table := filter (\<lambda>b. fst b \<noteq> p) (allocation_table s)\<rparr>)"
proof -
  have m: "map_of (allocation_table s) p = Some n"
    using pool_wfD(1) [OF wf] mem by simp
  have d: "mr_deallocate p n s = (Inr (), s\<lparr>rmm_live := filter (\<lambda>b. fst b \<noteq> p) (rmm_live s)\<rparr>)"
    using pool_wfD(4,11) [OF wf] mem by (intro mr_deallocate_live) blast+
  show ?thesis
    by (simp add: free_tables_def m act_bind_def d act_basic AList_delete_filter)
qed

lemma free_tables_kept:
  assumes "p \<notin> fst ` set (allocation_table s)"
    and "p \<in> fst ` set (locked_allocation_table s) \<or> p \<in> fst ` set (rmm_stored_buffers s)"
  shows "free_tables p s = (Inr (), s)"
proof -
  have "map_of (allocation_table s) p = None" using assms(1) by (simp add: map_of_eq_None_iff)
  moreover have "map_of (locked_allocation_table s) p = None \<Longrightarrow> p \<in> fst ` set (rmm_stored_buffers s)"
    using assms(2) by (simp add: map_of_eq_None_iff)
  ultimately show ?thesis
    by (cases "map_of (locked_allocation_table s) p") (simp_all add: free_tables_def)
qed

lemma free_tables_unknown:
  assumes "p \<notin> fst ` set (owned s)"
  shows "free_tables p s =
    (Inl (InvalidInputException ''Pointer not found in allocation table''), s)"
proof -
  have "p \<notin> fst ` set (allocation_table s)" "p \<notin> fst ` set (locked_allocation_table s)"
    "p \<notin> fst ` set (rmm_stored_buffers s)"
    using assms by (simp_all add: owned_def image_Un)
  then show ?thesis
    by (simp add: free_tables_def map_of_eq_None_iff [THEN iffD2])
qed

lemma pool_wf_drop:
  assumes wf: "pool_wf s" and key: "p \<in> fst ` set (allocation_table s)"
  shows "pool_wf (s\<lparr>rmm_live := filter (\<lambda>b. fst b \<noteq> p) (rmm_live s),
           allocation_table := filter (\<lambda>b. fst b \<noteq> p) (allocation_table s)\<rparr>)" (is "pool_wf ?t")
proof -
  have "p \<notin> fst ` set (locked_allocation_table s @ rmm_stored_buffers s)"
    using pool_wfD(5,6) [OF wf] key by (simp add: image_Un disjoint_iff)
  then have "filter (\<lambda>b. fst b \<noteq> p) (locked_allocation_table s @ rmm_stored_buffers s) =
      locked_allocation_table s @ rmm_stored_buffers s"
    by (intro filter_True) force
  then have o: "owned ?t = filter (\<lambda>b. fst b \<noteq> p) (owned s)" by (simp add: owned_def)
  show ?thesis
    using wf unfolding pool_wf_def o by (auto simp: distinct_map_filter)
qed

lemma keeps_customCudaFree: "keeps pool_wf (customCudaFree p)"
proof (rule keepsI)
  fix s assume wf: "pool_wf s"
  show "pool_wf (snd (customCudaFree p s))"
  proof (cases "p = nullptr \<or> in_cache_region s p")
    case True
    then show ?thesis using wf by (simp only: customCudaFree_split if_True snd_conv)
  next
    case False
    have "pool_wf (snd (free_tables p s))"
    proof (cases "p \<in> fst ` set (allocation_table s)")
      case True
      then obtain n where "(p, n) \<in> set (allocation_table s)" by force
      with pool_wf_drop [OF wf True] free_tables_unlocked [OF wf] show ?thesis by simp
    next
      case False
      then have "free_tables p s = (fst (free_tables p s), s)"
      proof (cases "p \<in> fst ` set (owned s)")
        case True
        with False have "p \<in> fst ` set (locked_allocation_table s) \<or> p \<in> fst ` set (rmm_stored_buffers s)"
          by (simp add: owned_def image_Un)
        then show ?thesis by (subst (1 2) free_tables_kept [OF False]) simp_all
      next
        case False
        then show ?thesis by (subst (1 2) free_tables_unknown) simp_all
      qed
      with wf show ?thesis by (metis snd_conv)
    qed
    with False show ?thesis by (simp only: customCudaFree_split if_False)
  qed
qed

subsection \<open>Reset\<close>

lemma release_blocks:
  assumes "distinct (map fst bs)" and "nullptr \<notin> fst ` set bs" and "set bs \<subseteq> set (rmm_live s)"
    and "distinct (map fst (rmm_live s))"
  shows "\<exists>us. act_mapM release_block bs s =
    (Inr us, s\<lparr>rmm_live := filter (\<lambda>b. fst b \<notin> fst ` set bs) (rmm_live s)\<rparr>)"
  using assms
proof (induction bs arbitrary: s)
  case Nil
  then show ?case by (simp add: act_simps)
next
  case (Cons b bs)
  obtain p n where b: "b = (p, n)" by (cases b)
  let ?s1 = "s\<lparr>rmm_live := filter (\<lambda>b. fst b \<noteq> p) (rmm_live s)\<rparr>"
  have "mr_deallocate p n s = (Inr (), ?s1)"
    using Cons.prems b by (intro mr_deallocate_live) auto
  then have r: "release_block b s = (Inr (), ?s1)"
    using Cons.prems(2) b by (auto simp: release_block_def)
  have "set bs \<subseteq> set (rmm_live ?s1)"
    using Cons.prems(1,3) b by force
  moreover have "distinct (map fst (rmm_live ?s1))"
    using Cons.prems(4) by (simp add: distinct_map_filter)
  ultimately obtain us where "act_mapM release_block bs ?s1 =
      (Inr us, ?s1\<lparr>rmm_live := filter (\<lambda>b. fst b \<notin> fst ` set bs) (rmm_live ?s1)\<rparr>)"
    using Cons.IH [of ?s1] Cons.prems(1,2) by auto
  with r show ?case
    by (auto simp: act_simps b act_bind_def intro: filter_cong)
qed

text \<open>What \<open>ResetBuffer\<close> leaves: the pool without the manager's blocks, empty tables, the host region
  rewound and every cached column's row ids cleared; the caching regions are untouched.\<close>

definition reset_state :: "buffer_manager \<Rightarrow> buffer_manager" where
  "reset_state s = s\<lparr>gpuProcessingPointer := 0,
     rmm_live := filter (\<lambda>b. fst b \<notin> fst ` set (owned s)) (rmm_live s),
     allocation_table := [], locked_allocation_table := [], rmm_stored_buffers := [],
     cpuProcessingPointer := 0, tables := map (\<lambda>(n, r). (n, reset_row_ids r)) (tables s)\<rparr>"

lemma release_table:
  assumes "distinct (map fst bs)" and "nullptr \<notin> fst ` set bs" and "set bs \<subseteq> set (rmm_live s)"
    and "distinct (map fst (rmm_live s))"
  shows "act_bind (act_mapM release_block bs) (\<lambda>_. k) s =
    k (s\<lparr>rmm_live := filter (\<lambda>b. fst b \<notin> fst ` set bs) (rmm_live s)\<rparr>)"
  using release_blocks [OF assms] by (auto simp only: act_bind_def split: prod.split sum.split)

lemma filter_keys_disjoint:
  "set bs \<subseteq> set live \<Longrightarrow> fst ` set cs \<inter> fst ` set bs = {} \<Longrightarrow>
   set bs \<subseteq> set (filter (\<lambda>b. fst b \<notin> fst ` set cs) live)"
  by force

lemma filter_keys_append:
  "filter (\<lambda>b. fst b \<notin> fst ` set cs) (filter (\<lambda>b. fst b \<notin> fst ` set bs) live) =
   filter (\<lambda>b. fst b \<notin> fst ` set (bs @ cs)) live"
  by (auto intro: filter_cong)

lemma ResetBuffer_eq:
  assumes wf: "pool_wf s"
  shows "ResetBuffer s = (Inr (), reset_state s)"
proof -
  note d = pool_wfD [OF wf]
  let ?a = "allocation_table s" and ?l = "locked_allocation_table s" and ?r = "rmm_stored_buffers s"
  have keys: "fst ` set (?a @ ?l) \<inter> fst ` set ?r = {}"
    using d(6,7) by (simp add: image_Un Int_Un_distrib2)
  have m: "act_bind (act_modify f) (\<lambda>_. k) u = k (f u)" for f u and k :: "(buffer_manager, unit) act"
    by (simp add: act_bind_def act_basic)
  have r: "act_bind (act_reads f g) k u = act_bind (g (f u)) k u"
    for f :: "buffer_manager \<Rightarrow> blocks" and g :: "blocks \<Rightarrow> (buffer_manager, unit list) act" and u
      and k :: "unit list \<Rightarrow> (buffer_manager, unit) act"
    by (simp add: act_bind_def act_reads_def)
  show ?thesis
    using filter_keys_disjoint [OF d(12,5)] filter_keys_disjoint [OF d(13) keys]
    by (simp add: ResetBuffer_def m r release_table d distinct_map_filter reset_state_def owned_def
        act_basic image_Un conj_assoc)
qed

lemma pool_wf_reset: "pool_wf s \<Longrightarrow> pool_wf (reset_state s)"
  by (simp add: pool_wf_def owned_def reset_state_def distinct_map_filter)

section \<open>Device buffers of cuDF\<close>

text \<open>
  A column that comes back from cuDF is owned by a \<open>rmm::device_buffer\<close>, which took its block from
  the same pool; the manager keeps it in \<open>rmm_stored_buffers\<close>.  A buffer of zero bytes holds no
  block and its \<open>data()\<close> is null, so the list here holds the buffers of one byte or more.
\<close>

definition adoptBuffer :: "rmm_pool \<Rightarrow> u64 \<Rightarrow> (buffer_manager, ptr) act" where
  "adoptBuffer rmm n =
     (if n = 0 then act_return nullptr
      else act_bind (mr_allocate rmm n) (\<lambda>p s.
        (Inr p, s\<lparr>rmm_stored_buffers := rmm_stored_buffers s @ [(p, n)]\<rparr>)))"

lemma keeps_adoptBuffer: "rmm_fresh rmm \<Longrightarrow> keeps pool_wf (adoptBuffer rmm n)"
proof (rule keepsI)
  fix s assume fresh: "rmm_fresh rmm" and wf: "pool_wf s"
  show "pool_wf (snd (adoptBuffer rmm n s))"
  proof (cases "n = 0 \<or> rmm (rmm_live s) n = None")
    case True
    with wf show ?thesis by (auto simp: adoptBuffer_def act_basic act_bind_def mr_allocate_def)
  next
    case False
    then obtain p where n: "n \<noteq> 0" and p: "rmm (rmm_live s) n = Some p" by auto
    with fresh have f: "p \<noteq> nullptr" "p \<notin> fst ` set (rmm_live s)" by (auto simp: rmm_fresh_def)
    with wf have "p \<notin> fst ` set (owned s)" by (auto simp: pool_wf_def)
    with wf n p f show ?thesis
      by (simp add: adoptBuffer_def act_bind_def mr_allocate_def AList_update_fresh pool_wf_def owned_def)
        blast
  qed
qed

section \<open>Sequences of calls\<close>

text \<open>Every public operation that touches the manager's state, as a call; a caller may go on after
  an exception.\<close>

datatype bm_call =
    Cuda_Malloc u64 u64 bool
  | Cuda_Host_Alloc u64 u64
  | Lock_Allocation ptr
  | Cuda_Free ptr
  | Adopt_Buffer u64
  | Reset_Buffer
  | Reset_Cache
  | Cache_Column string string

definition act_void :: "('s, 'a) act \<Rightarrow> ('s, unit) act" where
  "act_void m = act_bind m (\<lambda>_. act_return ())"

fun bm_run ::
  "duckdb_env \<Rightarrow> (string \<Rightarrow> table_entry res) \<Rightarrow> rmm_pool \<Rightarrow> bm_call \<Rightarrow> (buffer_manager, unit) act" where
  "bm_run D catalog rmm (Cuda_Malloc sz n caching) = act_void (customCudaMalloc rmm sz n caching)"
| "bm_run D catalog rmm (Cuda_Host_Alloc sz n) = act_void (customCudaHostAlloc sz n)"
| "bm_run D catalog rmm (Lock_Allocation p) = lockAllocation p"
| "bm_run D catalog rmm (Cuda_Free p) = customCudaFree p"
| "bm_run D catalog rmm (Adopt_Buffer n) = act_void (adoptBuffer rmm n)"
| "bm_run D catalog rmm Reset_Buffer = ResetBuffer"
| "bm_run D catalog rmm Reset_Cache = ResetCache"
| "bm_run D catalog rmm (Cache_Column t c) = createTableAndColumnInGPU D catalog t c"

definition bm_after ::
  "duckdb_env \<Rightarrow> (string \<Rightarrow> table_entry res) \<Rightarrow> rmm_pool \<Rightarrow> bm_call list \<Rightarrow> buffer_manager \<Rightarrow> buffer_manager"
where
  "bm_after D catalog rmm calls s = fold (\<lambda>c t. snd (bm_run D catalog rmm c t)) calls s"

lemma keeps_void [intro]: "keeps P m \<Longrightarrow> keeps P (act_void m)"
  by (auto simp: act_void_def)

lemma pool_wf_tables [simp]: "pool_wf (s\<lparr>tables := x\<rparr>) = pool_wf s"
  by (simp add: pool_wf_def owned_def)

lemma createTable_pool: "keeps pool_wf (createTable u n)"
  unfolding createTable_def by (rule keeps_modify) simp

lemma createColumn_pool: "keeps pool_wf (createColumn D t c ty i us)"
  by (rule keepsI) (simp add: createColumn_def Let_def split: option.split sum.split)

lemma keeps_Reset: "keeps pool_wf ResetBuffer"
  by (rule keepsI) (simp add: ResetBuffer_eq pool_wf_reset)

lemma keeps_ResetCache: "keeps pool_wf ResetCache"
  unfolding ResetCache_def by (rule keeps_modify) (simp add: pool_wf_def owned_def)

lemma keeps_createTableAndColumn: "keeps pool_wf (createTableAndColumnInGPU D catalog t c)"
  unfolding createTableAndColumnInGPU_def Let_def
proof (rule keeps_bind, rule keeps_lift)
  fix e
  show "keeps pool_wf (if c \<in> set (te_column_names e)
     then act_bind (createTable (string_toupper t) (length (te_types e))) (\<lambda>_.
       act_bind (act_lift (convertLogicalTypeToColumnType (te_column_type e c))) (\<lambda>ty.
         createColumn D (string_toupper t) (string_toupper c) ty (te_column_index e c)
           (unique_columns_of (te_constraints e))))
     else act_throw (InvalidInputException ''Column does not exists''))"
    by (cases "c \<in> set (te_column_names e)")
      (simp_all only: if_True if_False keeps_throw keeps_bind createTable_pool keeps_lift createColumn_pool)
qed

lemma keeps_bm_run:
  assumes "rmm_fresh rmm"
  shows "keeps pool_wf (bm_run D catalog rmm c)"
  using assms by (cases c)
    (auto intro: keeps_customCudaMalloc keeps_customCudaHostAlloc keeps_lockAllocation
      keeps_customCudaFree keeps_adoptBuffer keeps_Reset keeps_ResetCache keeps_createTableAndColumn)

lemma pool_wf_after:
  assumes fresh: "rmm_fresh rmm" and wf: "pool_wf s"
  shows "pool_wf (bm_after D catalog rmm calls s)"
  using wf
proof (induction calls arbitrary: s)
  case (Cons c calls)
  have "pool_wf (snd (bm_run D catalog rmm c s))"
    using keeps_bm_run [OF fresh] Cons.prems by (simp add: keeps_def)
  then show ?case using Cons.IH by (simp add: bm_after_def)
qed (simp add: bm_after_def)

lemma pool_wf_new: "pool_wf (GPUBufferManager_new a b c d e f g)"
  by (simp add: GPUBufferManager_new_def Let_def pool_wf_def owned_def)

section \<open>Properties\<close>

text \<open>A pool that hands out increasing addresses, an instance of the documented behaviour.\<close>

definition bump_pool :: rmm_pool where
  "bump_pool live n = (let m = fold max (map fst live) 0 in if m + 256 > m \<and> m + 256 < 0x10000 then Some (m + 256) else None)"

lemma fold_max_ge: "(a :: u64) \<le> fold max xs a \<and> (\<forall>x \<in> set xs. x \<le> fold max xs a)"
proof (induction xs arbitrary: a)
  case (Cons y xs)
  have "max y a \<le> fold max xs (max y a)" and "\<forall>x \<in> set xs. x \<le> fold max xs (max y a)"
    using Cons.IH [of "max y a"] by blast+
  then show ?case by simp
qed simp

lemma bump_pool_fresh: "rmm_fresh bump_pool"
  unfolding rmm_fresh_def
proof (intro allI impI)
  fix live :: blocks and n :: u64 and p :: ptr
  let ?m = "fold max (map fst live) 0"
  assume "bump_pool live n = Some p"
  then have p: "p > ?m" by (auto simp: bump_pool_def Let_def split: if_splits)
  moreover have "q \<le> ?m" if "q \<in> fst ` set live" for q
    using that fold_max_ge [of 0 "map fst live"] by auto
  ultimately show "p \<noteq> nullptr \<and> p \<notin> fst ` set live"
    by (metis leD word_zero_le)
qed

lemma bump_pool_below: "bump_pool live n = Some p \<Longrightarrow> p < 0x10000"
  by (auto simp: bump_pool_def Let_def split: if_splits)

definition small_manager :: buffer_manager where
  "small_manager = GPUBufferManager_new 4096 65536 4096 1000000 0x10000 0x20000 0x30000"

text \<open>C1: pool bookkeeping is an invariant.  From a fresh manager, after any sequence of public
  operations (allocations, host allocations, locks, frees of arbitrary pointers, adopted cuDF
  buffers, resets, cached columns), returning or throwing, the blocks in the allocation table, the
  locked table and the stored buffers are pairwise distinct, not null, and each is live in the pool
  with exactly the size the manager recorded.\<close>

theorem pool_invariant_reachable:
  assumes "rmm_fresh rmm"
  shows "let s = bm_after D catalog rmm calls (GPUBufferManager_new cache pg pc free host dev pinned)
    in distinct (map fst (owned s)) \<and> nullptr \<notin> fst ` set (owned s) \<and> set (owned s) \<subseteq> set (rmm_live s)"
  using pool_wf_after [OF assms pool_wf_new] by (simp add: Let_def pool_wf_def)

theorem pool_invariant_reachable_witness:
  "let s = bm_after duckdb_documented (\<lambda>_. Inl InvalidArgument) bump_pool
      [Cuda_Malloc 8 100 False, Adopt_Buffer 512, Lock_Allocation 256, Cuda_Malloc 4 7 False, Cuda_Free 768]
      (GPUBufferManager_new 4096 65536 4096 1000000 0x10000 0x20000 0x30000)
    in distinct (map fst (owned s)) \<and> nullptr \<notin> fst ` set (owned s) \<and> set (owned s) \<subseteq> set (rmm_live s)"
  by (rule pool_invariant_reachable [OF bump_pool_fresh])

text \<open>C7: a reset after any sequence of operations neither throws nor double-frees; afterwards no
  block of the manager is live in the pool, every live block that was not the manager's still is,
  the three tables are empty, and the host region starts at zero again while the caching regions
  keep their contents.\<close>

theorem reset_releases_everything:
  assumes "rmm_fresh rmm" and "s = bm_after D catalog rmm calls (GPUBufferManager_new cache pg pc free host dev pinned)"
  shows "\<exists>t. ResetBuffer s = (Inr (), t) \<and> owned t = [] \<and> cpuProcessingPointer t = 0 \<and>
    (\<forall>b \<in> set (rmm_live t). b \<in> set (rmm_live s) \<and> fst b \<notin> fst ` set (owned s)) \<and>
    (\<forall>b \<in> set (rmm_live s). fst b \<notin> fst ` set (owned s) \<longrightarrow> b \<in> set (rmm_live t)) \<and>
    gpuCachingPointer t = gpuCachingPointer s \<and> cpuCachingPointer t = cpuCachingPointer s"
proof -
  have "pool_wf s" using assms pool_wf_after pool_wf_new by simp
  from ResetBuffer_eq [OF this] show ?thesis by (simp add: reset_state_def owned_def)
qed

theorem reset_releases_everything_witness:
  "\<exists>t. ResetBuffer (bm_after duckdb_documented (\<lambda>_. Inl InvalidArgument) bump_pool
      [Cuda_Malloc 8 100 False, Lock_Allocation 256, Cuda_Malloc 4 7 True] small_manager) = (Inr (), t) \<and>
    owned t = [] \<and> gpuCachingPointer t = 256"
proof -
  have "gpuCachingPointer (bm_after duckdb_documented (\<lambda>_. Inl InvalidArgument) bump_pool
      [Cuda_Malloc 8 100 False, Lock_Allocation 256, Cuda_Malloc 4 7 True] small_manager) = 256"
    by code_simp
  then show ?thesis
    using reset_releases_everything [OF bump_pool_fresh
        refl [of "bm_after duckdb_documented (\<lambda>_. Inl InvalidArgument) bump_pool
          [Cuda_Malloc 8 100 False, Lock_Allocation 256, Cuda_Malloc 4 7 True]
          (GPUBufferManager_new 4096 65536 4096 1000000 0x10000 0x20000 0x30000)"],
        folded small_manager_def] by auto
qed

text \<open>Freeing, on every branch.  The null pointer, a pointer into a caching region, a locked block
  and a block of a stored cuDF buffer are left alone; an unlocked block of the allocation table
  goes back to the pool and leaves the table, and nothing else changes; any other pointer raises
  and changes nothing.\<close>

theorem customCudaFree_branches:
  assumes "pool_wf s"
  shows "customCudaFree p s =
    (if p = nullptr \<or> in_cache_region s p \<or> p \<in> fst ` set (locked_allocation_table s) \<or>
        p \<in> fst ` set (rmm_stored_buffers s) then (Inr (), s)
     else if p \<in> fst ` set (allocation_table s) then
       (Inr (), s\<lparr>rmm_live := filter (\<lambda>b. fst b \<noteq> p) (rmm_live s),
                 allocation_table := filter (\<lambda>b. fst b \<noteq> p) (allocation_table s)\<rparr>)
     else (Inl (InvalidInputException ''Pointer not found in allocation table''), s))"
proof (cases "p = nullptr \<or> in_cache_region s p")
  case out: False
  show ?thesis
  proof (cases "p \<in> fst ` set (allocation_table s)")
    case True
    then obtain n where n: "(p, n) \<in> set (allocation_table s)" by force
    have "p \<notin> fst ` set (locked_allocation_table s)" "p \<notin> fst ` set (rmm_stored_buffers s)"
      using pool_wfD(5,6) [OF assms] True by (simp_all only: disjoint_iff) blast+
    then show ?thesis
      using out True by (simp only: customCudaFree_split free_tables_unlocked [OF assms n] if_True if_False simp_thms)
  next
    case False
    show ?thesis
    proof (cases "p \<in> fst ` set (locked_allocation_table s) \<or> p \<in> fst ` set (rmm_stored_buffers s)")
      case True
      then show ?thesis
        using out by (simp only: customCudaFree_split free_tables_kept [OF False True] if_True if_False simp_thms)
    next
      case stored: False
      with False have "p \<notin> fst ` set (owned s)" by (simp add: owned_def image_Un)
      then show ?thesis
        using out False stored
        by (simp only: customCudaFree_split free_tables_unknown if_True if_False simp_thms de_Morgan_disj)
    qed
  qed
qed (simp only: customCudaFree_split if_True simp_thms, auto)

theorem customCudaFree_branches_witness:
  "let s = snd (lockAllocation 512 (snd (customCudaMalloc bump_pool 8 10 False
             (snd (customCudaMalloc bump_pool 8 100 False small_manager)))))
   in customCudaFree 512 s = (Inr (), s) \<and> customCudaFree 0x20010 s = (Inr (), s) \<and>
      allocation_table (snd (customCudaFree 256 s)) = [] \<and> fst (customCudaFree 257 s) \<noteq> Inr ()"
proof -
  let ?s = "snd (lockAllocation 512 (snd (customCudaMalloc bump_pool 8 10 False
             (snd (customCudaMalloc bump_pool 8 100 False small_manager)))))"
  have wf: "pool_wf ?s"
    by code_simp
  have t: "allocation_table ?s = [(256, 1024)]" "locked_allocation_table ?s = [(512, 256)]"
    "rmm_stored_buffers ?s = []" "in_cache_region ?s 512 = False" "in_cache_region ?s 0x20010 = True"
    "in_cache_region ?s 256 = False" "in_cache_region ?s 257 = False"
    by code_simp+
  show ?thesis
    unfolding Let_def by (simp add: customCudaFree_branches [OF wf] t)
qed

text \<open>A refused host request is not taken back.  Once \<open>customCudaHostAlloc\<close> has refused a request,
  however large, every later request is refused too, however small, until a reset; the
  hypothesis excludes only requests that wrap the 64-bit cursor around.\<close>

theorem host_refusal_sticks:
  assumes "customCudaHostAlloc sz n s = (Inl e, t)"
    and "unat (cpuProcessingPointer t) + unat (n' * sz') < 2 ^ 64"
  shows "fst (customCudaHostAlloc sz' n' t) = Inl (InvalidInputException ''Out of CPU memory'')"
proof -
  have t: "cpuProcessingPointer t = cpuProcessingPointer s + n * sz"
    "processing_size_per_cpu t = processing_size_per_cpu s"
    "processing_size_per_cpu s \<le> cpuProcessingPointer s + n * sz"
    using assms(1) by (auto simp: customCudaHostAlloc_def hostReserve_def Let_def split: if_splits)
  have "cpuProcessingPointer t \<le> cpuProcessingPointer t + n' * sz'"
    using unat_add_no_wrap [OF assms(2)] by (simp add: word_le_nat_alt)
  with t have "processing_size_per_cpu t \<le> cpuProcessingPointer t + n' * sz'" by simp
  then show ?thesis by (simp add: customCudaHostAlloc_def hostReserve_def Let_def)
qed

theorem host_refusal_sticks_witness:
  "fst (customCudaHostAlloc 8 100 small_manager) = Inr 0x10000 \<and>
   fst (customCudaHostAlloc 8 100 (snd (customCudaHostAlloc 8 1000 small_manager))) =
     Inl (InvalidInputException ''Out of CPU memory'')"
proof
  have "customCudaHostAlloc 8 1000 small_manager =
      (Inl (InvalidInputException ''Out of CPU memory''), small_manager\<lparr>cpuProcessingPointer := 8000\<rparr>)"
    by (simp add: customCudaHostAlloc_def hostReserve_def Let_def small_manager_def GPUBufferManager_new_def)
  from host_refusal_sticks [OF this, of 100 8]
  show "fst (customCudaHostAlloc 8 100 (snd (customCudaHostAlloc 8 1000 small_manager))) =
     Inl (InvalidInputException ''Out of CPU memory'')"
    by (simp add: \<open>customCudaHostAlloc 8 1000 small_manager = _\<close>)
  show "fst (customCudaHostAlloc 8 100 small_manager) = Inr 0x10000"
    by (simp add: customCudaHostAlloc_def hostReserve_def Let_def small_manager_def GPUBufferManager_new_def)
qed

end
