(* ===== verification/Cache_Race.thy ===== *)
theory Cache_Race
  imports Buffer_Manager
begin

text \<open>
  The caching branch of \<open>customCudaMalloc\<close> run by several threads.  The cursors are advanced and
  taken back with relaxed atomic operations, so the steps of two calls interleave between one
  atomic operation and the next: an atomic add with the comparison of the thread's own \<open>start\<close>
  that follows it, or an atomic subtract.  \<open>shared\<close> is the one buffer manager, \<open>threads\<close> where
  each thread is, \<open>granted\<close> the blocks that calls have returned so far, newest first.
\<close>

section \<open>Threads\<close>

datatype thread_state =
    Idle
  | Gpu_Refused u64
  | Gpu_Undone u64
  | Cpu_Refused u64

record race =
  shared :: buffer_manager
  threads :: "thread_state list"
  granted :: "(ptr \<times> u64) list"

definition grant :: "ptr \<Rightarrow> u64 \<Rightarrow> race \<Rightarrow> race" where
  "grant p n r = (if p mod 8 \<noteq> 0 then r else r\<lparr>granted := (p, n) # granted r\<rparr>)"

text \<open>The next atomic step of thread \<open>t\<close>; an idle thread starts a call for \<open>n\<close> bytes (after the
  rounding).\<close>

definition race_move :: "nat \<Rightarrow> u64 \<Rightarrow> race \<Rightarrow> race" where
  "race_move t n r = (let s = shared r; goto = (\<lambda>q. r\<lparr>threads := (threads r)[t := q]\<rparr>) in
     case threads r ! t of
       Idle \<Rightarrow>
         (let start = gpuCachingPointer s; s1 = s\<lparr>gpuCachingPointer := start + n\<rparr>
          in if start + n \<le> available_gpu_cache_size s
             then grant (gpuCache s + start) n (r\<lparr>shared := s1\<rparr>)
             else (goto (Gpu_Refused n))\<lparr>shared := s1\<rparr>)
     | Gpu_Refused m \<Rightarrow>
         (goto (Gpu_Undone m))\<lparr>shared := s\<lparr>gpuCachingPointer := gpuCachingPointer s - m\<rparr>\<rparr>
     | Gpu_Undone m \<Rightarrow>
         (let start = cpuCachingPointer s; s1 = s\<lparr>cpuCachingPointer := start + m\<rparr>
          in if start + m > cache_size_per_gpu s - available_gpu_cache_size s
             then (goto (Cpu_Refused m))\<lparr>shared := s1\<rparr>
             else grant (cpuCache s + start) m ((goto Idle)\<lparr>shared := s1\<rparr>))
     | Cpu_Refused m \<Rightarrow>
         (goto Idle)\<lparr>shared := s\<lparr>cpuCachingPointer := cpuCachingPointer s - m\<rparr>\<rparr>)"

definition race_run :: "(nat \<times> u64) list \<Rightarrow> race \<Rightarrow> race" where
  "race_run sched r = fold (\<lambda>(t, n). race_move t n) sched r"

definition race_start :: "nat \<Rightarrow> buffer_manager \<Rightarrow> race" where
  "race_start k s = \<lparr>shared = s, threads = replicate k Idle, granted = []\<rparr>"

section \<open>One thread alone\<close>

text \<open>How many steps a call takes, and the call run without interruption.\<close>

definition call_steps :: "u64 \<Rightarrow> buffer_manager \<Rightarrow> nat" where
  "call_steps n s = (if fst (gpuCacheReserve n s) \<noteq> None then 1
                     else if fst (cpuCacheReserve n s) \<noteq> None then 3 else 4)"

definition race_alone :: "nat \<Rightarrow> u64 \<Rightarrow> race \<Rightarrow> race" where
  "race_alone t n r = (race_move t n ^^ call_steps n (shared r)) r"

lemma grant_fields [simp]:
  "shared (grant p n r) = shared r" "threads (grant p n r) = threads r"
  by (simp_all add: grant_def)

text \<open>A check of the step relation: a thread that runs its steps without interruption does what the
  sequential allocation does.\<close>

lemma race_alone_cacheMalloc:
  assumes t: "t < length (threads r)" and idle: "threads r ! t = Idle"
  shows "shared (race_alone t n r) = snd (cacheMalloc n (shared r)) \<and>
     threads (race_alone t n r) = threads r \<and>
     granted (race_alone t n r) = (case fst (cacheMalloc n (shared r)) of
        Inr p \<Rightarrow> (p, n) # granted r | Inl e \<Rightarrow> granted r)"
proof -
  let ?s = "shared r"
  have upd: "(threads r)[t := Idle] = threads r" using idle by (metis list_update_id)
  show ?thesis
  proof (cases "gpuCachingPointer ?s + n \<le> available_gpu_cache_size ?s")
    case True
    then show ?thesis
      using idle by (auto simp add: race_alone_def call_steps_def reserve_defs Let_def race_move_def cacheMalloc_def
          check_alignment_def act_basic grant_def)
  next
    case g: False
    show ?thesis
    proof (cases "cpuCachingPointer ?s + n > cache_size_per_gpu ?s - available_gpu_cache_size ?s")
      case True
      with g t idle upd show ?thesis
        by (simp add: race_alone_def call_steps_def reserve_defs Let_def race_move_def cacheMalloc_def numeral_eq_Suc)
    next
      case False
      with g t idle upd show ?thesis
        by (simp add: race_alone_def call_steps_def reserve_defs Let_def race_move_def cacheMalloc_def
            check_alignment_def act_basic grant_def numeral_eq_Suc)
    qed
  qed
qed

section \<open>Properties\<close>

text \<open>Blocks that partition a prefix of the GPU region, from the right.\<close>

fun stacked :: "nat \<Rightarrow> (ptr \<times> u64) list \<Rightarrow> nat \<Rightarrow> bool" where
  "stacked lo [] hi \<longleftrightarrow> lo \<le> hi"
| "stacked lo ((p, n) # bs) hi \<longleftrightarrow> unat p + unat n \<le> hi \<and> stacked lo bs (unat p)"

lemma stacked_mono: "stacked lo bs hi \<Longrightarrow> hi \<le> hi' \<Longrightarrow> stacked lo bs hi'"
  by (cases "(lo, bs, hi)" rule: stacked.cases) auto

lemma stacked_bound: "stacked lo bs hi \<Longrightarrow> (q, m) \<in> set bs \<Longrightarrow> unat q + unat m \<le> hi"
  by (induction lo bs hi rule: stacked.induct) (auto dest: order_trans)

lemma stacked_disjoint:
  "stacked lo bs hi \<Longrightarrow> i < j \<Longrightarrow> j < length bs \<Longrightarrow>
     unat (fst (bs ! j)) + unat (snd (bs ! j)) \<le> unat (fst (bs ! i))"
proof (induction lo bs hi arbitrary: i j rule: stacked.induct)
  case (2 lo p n bs hi)
  then obtain j' where j: "j = Suc j'" by (cases j) auto
  show ?case
  proof (cases i)
    case 0
    have "bs ! j' \<in> set bs" using 2 j by simp
    with 2(2) 0 j stacked_bound [of lo bs "unat p" "fst (bs ! j')" "snd (bs ! j')"] show ?thesis by simp
  qed (use 2 j in simp)
qed simp

definition all_idle :: "race \<Rightarrow> nat \<Rightarrow> bool" where
  "all_idle r lo \<longleftrightarrow> (\<forall>q \<in> set (threads r). q = Idle) \<and>
     unat (gpuCache (shared r)) + unat (available_gpu_cache_size (shared r)) < 2 ^ 64 \<and>
     stacked lo (granted r) (unat (gpuCache (shared r)) + unat (gpuCachingPointer (shared r)))"

lemma race_move_fits:
  assumes inv: "all_idle r lo" and t: "t < length (threads r)"
    and fits: "unat (gpuCachingPointer (shared r)) + unat n \<le> unat (available_gpu_cache_size (shared r))"
  shows "all_idle (race_move t n r) lo"
    and "unat (gpuCachingPointer (shared (race_move t n r))) = unat (gpuCachingPointer (shared r)) + unat n"
    and "available_gpu_cache_size (shared (race_move t n r)) = available_gpu_cache_size (shared r)"
    and "length (threads (race_move t n r)) = length (threads r)"
proof -
  let ?s = "shared r"
  have bound: "unat (available_gpu_cache_size ?s) < 2 ^ 64" by simp
  have sum: "unat (gpuCachingPointer ?s + n) = unat (gpuCachingPointer ?s) + unat n"
    using fits bound by (intro unat_add_no_wrap) linarith
  then have le: "gpuCachingPointer ?s + n \<le> available_gpu_cache_size ?s"
    using fits by (simp add: word_le_nat_alt)
  have idle: "threads r ! t = Idle" using inv t by (simp add: all_idle_def)
  have move: "race_move t n r = grant (gpuCache ?s + gpuCachingPointer ?s) n
      (r\<lparr>shared := ?s\<lparr>gpuCachingPointer := gpuCachingPointer ?s + n\<rparr>\<rparr>)"
    using idle le by (simp add: race_move_def Let_def)
  have addr: "unat (gpuCache ?s + gpuCachingPointer ?s) = unat (gpuCache ?s) + unat (gpuCachingPointer ?s)"
    using inv fits by (intro unat_add_no_wrap) (simp add: all_idle_def)
  show "all_idle (race_move t n r) lo"
    using inv stacked_mono [of lo "granted r" "unat (gpuCache ?s) + unat (gpuCachingPointer ?s)"
        "unat (gpuCache ?s) + unat (gpuCachingPointer ?s) + unat n"]
    unfolding move by (simp add: all_idle_def grant_def sum addr add.assoc)
  show "unat (gpuCachingPointer (shared (race_move t n r))) = unat (gpuCachingPointer ?s) + unat n"
    "available_gpu_cache_size (shared (race_move t n r)) = available_gpu_cache_size ?s"
    "length (threads (race_move t n r)) = length (threads r)"
    unfolding move by (simp_all add: sum)
qed

lemma race_run_fits:
  assumes "all_idle r lo" and "\<forall>(t, n) \<in> set sched. t < length (threads r)"
    and "unat (gpuCachingPointer (shared r)) + (\<Sum>(t, n) \<leftarrow> sched. unat n)
           \<le> unat (available_gpu_cache_size (shared r))"
  shows "all_idle (race_run sched r) lo"
  using assms
proof (induction sched arbitrary: r)
  case (Cons c sched)
  obtain t n where c: "c = (t, n)" by (cases c)
  have fits: "unat (gpuCachingPointer (shared r)) + unat n \<le> unat (available_gpu_cache_size (shared r))"
    using Cons.prems(3) c by simp
  note move = race_move_fits [OF Cons.prems(1) _ fits, of t]
  show ?case
    using Cons.IH [of "race_move t n r"] Cons.prems(2,3) move c by (simp add: race_run_def)
qed (simp add: race_run_def)

text \<open>C10: concurrent caching is safe while nothing is refused.  Whatever the interleaving of any number
  of threads, if their requests together fit the GPU region then the blocks they were granted are
  pairwise disjoint.\<close>

theorem race_disjoint_when_fits:
  assumes "unat (gpuCache s) + unat (available_gpu_cache_size s) < 2 ^ 64"
    and "\<forall>(t, n) \<in> set sched. t < k"
    and "unat (gpuCachingPointer s) + (\<Sum>(t, n) \<leftarrow> sched. unat n) \<le> unat (available_gpu_cache_size s)"
    and "bs = granted (race_run sched (race_start k s))" and "i < j" and "j < length bs"
  shows "unat (fst (bs ! j)) + unat (snd (bs ! j)) \<le> unat (fst (bs ! i))"
proof -
  have "all_idle (race_run sched (race_start k s)) 0"
    using assms(1-3) by (intro race_run_fits) (simp_all add: race_start_def all_idle_def)
  then have "stacked 0 bs (unat (gpuCache (shared (race_run sched (race_start k s)))) +
      unat (gpuCachingPointer (shared (race_run sched (race_start k s)))))"
    using assms(4) by (simp add: all_idle_def)
  from stacked_disjoint [OF this assms(5,6)] show ?thesis .
qed

theorem race_disjoint_when_fits_witness:
  "let bs = granted (race_run [(1, 256), (0, 512)] (race_start 2 overflow_manager))
   in bs = [(0x20100, 512), (0x20000, 256)] \<and>
      unat (fst (bs ! 1)) + unat (snd (bs ! 1)) \<le> unat (fst (bs ! 0))"
proof -
  let ?bs = "granted (race_run [(1, 256), (0, 512)] (race_start 2 overflow_manager))"
  have bs: "?bs = [(0x20100, 512), (0x20000, 256)]" by code_simp
  have "unat (fst (?bs ! 1)) + unat (snd (?bs ! 1)) \<le> unat (fst (?bs ! 0))"
    by (rule race_disjoint_when_fits [where s = overflow_manager and k = 2 and
          sched = "[(1, 256), (0, 512)]", OF _ _ _ refl])
      (simp_all add: bs [simplified], simp_all add: overflow_manager_def GPUBufferManager_new_def)
  with bs show ?thesis by (simp add: Let_def)
qed

text \<open>C9: concurrent caching is not safe when a request is refused.  Taking back the advance of a
  refused request is a separate atomic step, and in between another thread may be refused at a
  cursor that is only temporarily high; its own take-back then moves the cursor below a block
  granted in the meantime.  Two threads and one GPU region of 1024 bytes suffice for one block to
  be granted twice (in the run shown, to two calls of the thread that is not taking back).\<close>

theorem race_grants_block_twice:
  "\<exists>sched. let bs = granted (race_run sched (race_start 2
       (GPUBufferManager_new 1024 65536 4096 1000000 0x10000 0x20000 0x30000)))
     in length bs = 2 \<and> bs ! 0 = bs ! 1 \<and> snd (bs ! 0) = 256"
proof (intro exI)
  let ?sched = "[(0, 1280), (1, 256), (0, 0), (0, 0), (0, 0), (0, 256), (1, 0), (0, 256)]"
  have "granted (race_run ?sched (race_start 2
       (GPUBufferManager_new 1024 65536 4096 1000000 0x10000 0x20000 0x30000)))
      = [(0x20100, 256), (0x20100, 256)]"
    by code_simp
  then show "let bs = granted (race_run ?sched (race_start 2
       (GPUBufferManager_new 1024 65536 4096 1000000 0x10000 0x20000 0x30000)))
     in length bs = 2 \<and> bs ! 0 = bs ! 1 \<and> snd (bs ! 0) = 256"
    by simp
qed

end
