(* ===== verification/Device_Memory.thy ===== *)
theory Device_Memory
  imports Buffer_Pool
begin

text \<open>
  Device memory as the operators see it: the buffer manager together with the arrays that its
  blocks hold.  An array is known by the pointer to its start.  Reading a pointer that holds no
  array of the type read, an array that has been freed, or an index past its end is undefined
  behaviour.  \<open>Vals w xs\<close> is an array of \<open>w\<close>-byte values.
\<close>

datatype 'v darray =
    Uninit
  | RowIds "u64 list"
  | Vals u64 "'v list"
  | Bytes "u8 list"
  | Offsets "u64 list"
  | Bits "bool list"

record 'v device =
  mgr :: buffer_manager
  cells :: "ptr \<Rightarrow> 'v darray option"

section \<open>Allocation and freeing\<close>

definition dev_malloc :: "rmm_pool \<Rightarrow> u64 \<Rightarrow> u64 \<Rightarrow> ('v device, ptr) act" where
  "dev_malloc rmm sizeofT n d = (case customCudaMalloc rmm sizeofT n False (mgr d) of
     (Inr p, s) \<Rightarrow> (Inr p, d\<lparr>mgr := s, cells := (cells d)(p \<mapsto> Uninit)\<rparr>)
   | (Inl e, s) \<Rightarrow> (Inl e, d\<lparr>mgr := s\<rparr>))"

definition dev_write :: "ptr \<Rightarrow> 'v darray \<Rightarrow> ('v device, unit) act" where
  "dev_write p a = act_modify (\<lambda>d. d\<lparr>cells := (cells d)(p \<mapsto> a)\<rparr>)"

text \<open>The array is gone exactly when the manager gave its block back to the pool.\<close>

definition dev_free :: "ptr \<Rightarrow> ('v device, unit) act" where
  "dev_free p d = (case customCudaFree p (mgr d) of (r, s) \<Rightarrow>
     (r, d\<lparr>mgr := s,
           cells := (if p \<in> fst ` set (allocation_table (mgr d)) \<and> p \<notin> fst ` set (allocation_table s)
                     then (cells d)(p := None) else cells d)\<rparr>))"

definition dev_host_alloc :: "u64 \<Rightarrow> u64 \<Rightarrow> ('v device, ptr) act" where
  "dev_host_alloc sizeofT n d = (case customCudaHostAlloc sizeofT n (mgr d) of
     (r, s) \<Rightarrow> (r, d\<lparr>mgr := s\<rparr>))"

section \<open>Reading arrays\<close>

definition dev_rows :: "ptr \<Rightarrow> ('v device, u64 list) act" where
  "dev_rows p d = (case cells d p of Some (RowIds xs) \<Rightarrow> (Inr xs, d)
     | _ \<Rightarrow> (Inl (UndefinedBehaviour ''not a row id array''), d))"

definition dev_vals :: "u64 \<Rightarrow> ptr \<Rightarrow> ('v device, 'v list) act" where
  "dev_vals w p d = (case cells d p of
       Some (Vals w' xs) \<Rightarrow> if w' = w then (Inr xs, d)
         else (Inl (UndefinedBehaviour ''array read at another element size''), d)
     | _ \<Rightarrow> (Inl (UndefinedBehaviour ''not a value array''), d))"

definition dev_bits :: "ptr \<Rightarrow> ('v device, bool list) act" where
  "dev_bits p d = (case cells d p of Some (Bits xs) \<Rightarrow> (Inr xs, d)
     | _ \<Rightarrow> (Inl (UndefinedBehaviour ''not a validity mask''), d))"

definition dev_bytes :: "ptr \<Rightarrow> ('v device, u8 list) act" where
  "dev_bytes p d = (case cells d p of Some (Bytes xs) \<Rightarrow> (Inr xs, d)
     | _ \<Rightarrow> (Inl (UndefinedBehaviour ''not a byte array''), d))"

definition dev_offsets :: "ptr \<Rightarrow> ('v device, u64 list) act" where
  "dev_offsets p d = (case cells d p of Some (Offsets xs) \<Rightarrow> (Inr xs, d)
     | _ \<Rightarrow> (Inl (UndefinedBehaviour ''not an offset array''), d))"

text \<open>The first \<open>n\<close> elements of an array, and a gather through row ids.\<close>

definition first_n :: "u64 \<Rightarrow> 'a list \<Rightarrow> 'a list res" where
  "first_n n xs = (if unat n \<le> length xs then Inr (take (unat n) xs)
     else Inl (UndefinedBehaviour ''array too short''))"

definition gather :: "'a list \<Rightarrow> u64 list \<Rightarrow> 'a list res" where
  "gather xs ids = res_mapM (\<lambda>i. vec_at xs (unat i)) ids"

lemma gather_Inr: "(\<forall>i \<in> set ids. unat i < length xs) \<Longrightarrow> gather xs ids = Inr (map (\<lambda>i. xs ! unat i) ids)"
  unfolding gather_def by (intro res_mapM_Inr_map) simp

lemma first_n_Inr [simp]: "unat n \<le> length xs \<Longrightarrow> first_n n xs = Inr (take (unat n) xs)"
  by (simp add: first_n_def)

text \<open>The rows of its data that a column stands for.\<close>

definition column_row_list :: "'v device \<Rightarrow> GPUColumn \<Rightarrow> nat list option" where
  "column_row_list d c =
     (if row_ids c = nullptr then Some [0..<unat (column_length c)]
      else case (cells d (row_ids c), row_id_count c) of
        (Some (RowIds xs), Some n) \<Rightarrow>
          if unat n \<le> length xs then Some (map unat (take (unat n) xs)) else None
      | _ \<Rightarrow> None)"

section \<open>Well-formed device memory\<close>

text \<open>The pool is another allocation than the caching regions.\<close>

definition rmm_outside :: "rmm_pool \<Rightarrow> buffer_manager \<Rightarrow> bool" where
  "rmm_outside rmm s \<longleftrightarrow> (\<forall>live n p. rmm live n = Some p \<longrightarrow> \<not> in_cache_region s p)"

definition dev_wf :: "rmm_pool \<Rightarrow> 'v device \<Rightarrow> bool" where
  "dev_wf rmm d \<longleftrightarrow> rmm_fresh rmm \<and> rmm_outside rmm (mgr d) \<and> pool_wf (mgr d) \<and>
     dom (cells d) \<subseteq> fst ` set (owned (mgr d)) \<union> {p. p \<noteq> nullptr \<and> in_cache_region (mgr d) p}"

lemma in_cache_region_frame:
  "gpuCache t = gpuCache s \<Longrightarrow> cpuCache t = cpuCache s \<Longrightarrow>
   available_gpu_cache_size t = available_gpu_cache_size s \<Longrightarrow>
   cache_size_per_gpu t = cache_size_per_gpu s \<Longrightarrow> in_cache_region t p = in_cache_region s p"
  by (simp add: in_cache_region_def)

text \<open>One allocation: refused for want of memory, or a fresh array and nothing else changed.\<close>

lemma dev_malloc_cases:
  assumes wf: "dev_wf rmm d" and m: "dev_malloc rmm w n d = (r, d')"
  obtains (refused) "r = Inl BadAlloc" and "d' = d"
    | (granted) p where "r = Inr p" and "p \<noteq> nullptr" and "p \<notin> dom (cells d)"
        and "cells d' = (cells d)(p \<mapsto> Uninit)" and "dev_wf rmm d'"
        and "p \<in> fst ` set (allocation_table (mgr d'))"
proof -
  have fresh: "rmm_fresh rmm" and pw: "pool_wf (mgr d)" using wf by (simp_all add: dev_wf_def)
  obtain r0 s where c: "poolMalloc rmm (aligned_alloc n w) (mgr d) = (r0, s)"
    by (cases "poolMalloc rmm (aligned_alloc n w) (mgr d)")
  from fresh pw c show thesis
  proof (cases rule: poolMalloc_cases)
    case refused
    with m c have "r = Inl BadAlloc" "d' = d"
      by (simp_all add: dev_malloc_def customCudaMalloc_def Let_def)
    then show thesis by (rule that(1))
  next
    case (granted p)
    have d': "r = Inr p" "d' = d\<lparr>mgr := s, cells := (cells d)(p \<mapsto> Uninit)\<rparr>"
      using m c granted(2) by (simp_all add: dev_malloc_def customCudaMalloc_def Let_def)
    have out: "\<not> in_cache_region (mgr d) p"
      using wf granted(1) by (auto simp: dev_wf_def rmm_outside_def)
    have own: "set (owned (mgr d)) \<subseteq> set (rmm_live (mgr d))" using pw by (simp add: pool_wf_def)
    have new: "p \<notin> dom (cells d)"
      using wf out granted(4) own unfolding dev_wf_def by blast
    have "pool_wf s" using keepsD [OF keeps_poolMalloc [OF fresh] pw c] .
    moreover have "in_cache_region s = in_cache_region (mgr d)"
      using granted(5) by (intro ext in_cache_region_frame) simp_all
    moreover have "owned s = allocation_table (mgr d) @ (p, aligned_alloc n w) #
        locked_allocation_table (mgr d) @ rmm_stored_buffers (mgr d)"
      using granted(5) by (simp add: owned_def)
    then have "fst ` set (owned s) = insert p (fst ` set (owned (mgr d)))"
      by (simp add: owned_def image_Un)
    ultimately have "dev_wf rmm d'"
      using wf d' by (auto simp: dev_wf_def rmm_outside_def)
    moreover have "p \<in> fst ` set (allocation_table (mgr d'))"
      using d' granted(5) by simp
    ultimately show thesis using d' granted(3) new by (intro that(2)) simp_all
  qed
qed

lemma dev_wf_write: "dev_wf rmm d \<Longrightarrow> p \<in> dom (cells d) \<Longrightarrow> dev_wf rmm (d\<lparr>cells := (cells d)(p \<mapsto> a)\<rparr>)"
  by (auto simp: dev_wf_def)

lemma subset_minus_trans: "A \<subseteq> B \<union> C \<Longrightarrow> B - D \<subseteq> E \<Longrightarrow> A - D \<subseteq> E \<union> C"
  by auto

text \<open>Freeing the start of an array never throws; it removes that array or nothing.\<close>

lemma dev_free_array:
  assumes wf: "dev_wf rmm d" and p: "p \<in> dom (cells d)" and f: "dev_free p d = (r, d')"
  shows "r = Inr () \<and> dev_wf rmm d' \<and> (cells d' = cells d \<or> cells d' = (cells d)(p := None))"
proof -
  let ?s = "mgr d"
  have pw: "pool_wf ?s" using wf by (simp add: dev_wf_def)
  note br = customCudaFree_branches [OF pw, of p]
  show ?thesis
  proof (cases "p = nullptr \<or> in_cache_region ?s p \<or> p \<in> fst ` set (locked_allocation_table ?s) \<or>
        p \<in> fst ` set (rmm_stored_buffers ?s)")
    case True
    then have "customCudaFree p ?s = (Inr (), ?s)" by (simp only: br if_True)
    then have "r = Inr ()" "d' = d" using f by (simp_all add: dev_free_def)
    with wf show ?thesis by simp
  next
    case out: False
    then have "p \<in> fst ` set (allocation_table ?s)"
      using wf p by (auto simp: dev_wf_def owned_def)
    then have c: "customCudaFree p ?s = (Inr (), ?s\<lparr>rmm_live := filter (\<lambda>b. fst b \<noteq> p) (rmm_live ?s),
                 allocation_table := filter (\<lambda>b. fst b \<noteq> p) (allocation_table ?s)\<rparr>)"
      using out by (simp only: br if_True if_False)
    define t where "t = ?s\<lparr>rmm_live := filter (\<lambda>b. fst b \<noteq> p) (rmm_live ?s),
                 allocation_table := filter (\<lambda>b. fst b \<noteq> p) (allocation_table ?s)\<rparr>"
    note c = c [folded t_def]
    have "p \<notin> fst ` set (allocation_table t)" by (auto simp: t_def)
    then have d': "r = Inr ()" "d' = d\<lparr>mgr := t, cells := (cells d)(p := None)\<rparr>"
      using f c \<open>p \<in> fst ` set (allocation_table ?s)\<close> by (simp_all add: dev_free_def)
    have pt: "pool_wf t" using keepsD [OF keeps_customCudaFree pw c] .
    have reg: "in_cache_region t = in_cache_region ?s"
      by (intro ext in_cache_region_frame) (simp_all add: t_def)
    have own: "fst ` set (owned ?s) - {p} \<subseteq> fst ` set (owned t)"
      by (auto simp: owned_def image_iff t_def)
    have dom: "dom (cells d) \<subseteq> fst ` set (owned ?s) \<union> {p. p \<noteq> nullptr \<and> in_cache_region ?s p}"
      and rest: "rmm_fresh rmm" "rmm_outside rmm ?s"
      using wf by (simp_all add: dev_wf_def)
    have "dom (cells d') = dom (cells d) - {p}" using d' by auto
    then have "dom (cells d') \<subseteq> fst ` set (owned t) \<union> {p. p \<noteq> nullptr \<and> in_cache_region ?s p}"
      using subset_minus_trans [OF dom own] by simp
    with rest pt have "dev_wf rmm d'"
      by (simp add: dev_wf_def d'(2) rmm_outside_def reg)
    with d' show ?thesis by simp
  qed
qed

section \<open>Computations that allocate temporary arrays\<close>

text \<open>\<open>ends P m Q\<close>: from a state with \<open>P\<close> the computation returns with \<open>Q\<close> or runs out of memory.\<close>

definition out_of_memory :: "exn \<Rightarrow> bool" where
  "out_of_memory e \<longleftrightarrow> e = BadAlloc \<or> e = InvalidInputException ''Out of CPU memory''"

definition ends :: "('s \<Rightarrow> bool) \<Rightarrow> ('s, 'a) act \<Rightarrow> ('a \<Rightarrow> 's \<Rightarrow> bool) \<Rightarrow> bool" where
  "ends P m Q \<longleftrightarrow> (\<forall>s r s'. P s \<longrightarrow> m s = (r, s') \<longrightarrow> (case r of Inl e \<Rightarrow> out_of_memory e | Inr x \<Rightarrow> Q x s'))"

lemma ends_bind: "ends P m Q \<Longrightarrow> (\<And>x. ends (Q x) (k x) R) \<Longrightarrow> ends P (act_bind m k) R"
  unfolding ends_def by (fastforce elim!: act_bind_cases split: sum.splits)

lemma ends_return: "(\<And>s. P s \<Longrightarrow> Q x s) \<Longrightarrow> ends P (act_return x) Q"
  by (simp add: ends_def act_basic)

lemma ends_lift: "r = Inr x \<Longrightarrow> (\<And>s. P s \<Longrightarrow> Q x s) \<Longrightarrow> ends P (act_lift r) Q"
  by (simp add: ends_def act_basic)

lemma ends_strengthen: "ends P m Q \<Longrightarrow> (\<And>s. P' s \<Longrightarrow> P s) \<Longrightarrow> ends P' m Q"
  by (fastforce simp: ends_def)

lemma endsD: "ends P m Q \<Longrightarrow> P s \<Longrightarrow> m s = (r, s') \<Longrightarrow> (\<exists>e. r = Inl e \<and> out_of_memory e) \<or> (\<exists>x. r = Inr x \<and> Q x s')"
  by (cases r) (fastforce simp: ends_def)+

text \<open>Memory operations leave the cached tables alone.\<close>

lemma dev_malloc_tables: "dev_malloc rmm w n s = (r, s') \<Longrightarrow> tables (mgr s') = tables (mgr s)"
  by (auto simp: dev_malloc_def customCudaMalloc_def poolMalloc_def mr_allocate_def act_bind_def act_basic Let_def
      split: prod.splits sum.splits option.splits if_splits)

lemma dev_free_tables: "dev_free p s = (r, s') \<Longrightarrow> tables (mgr s') = tables (mgr s)"
  by (auto simp: dev_free_def customCudaFree_def mr_deallocate_def act_bind_def act_basic Let_def
      split: prod.splits sum.splits option.splits if_splits)

text \<open>The arrays and tables of \<open>d\<close> are untouched, the temporary arrays \<open>ps\<close> are apart from its arrays.\<close>

definition holding :: "rmm_pool \<Rightarrow> 'v device \<Rightarrow> ptr list \<Rightarrow> 'v device \<Rightarrow> bool" where
  "holding rmm d ps s \<longleftrightarrow> dev_wf rmm s \<and> cells d \<subseteq>\<^sub>m cells s \<and> distinct ps \<and> set ps \<inter> dom (cells d) = {} \<and>
     set ps \<subseteq> dom (cells s) \<and> nullptr \<notin> set ps \<and> tables (mgr s) = tables (mgr d)"

lemma holding_start: "dev_wf rmm d \<Longrightarrow> holding rmm d [] d"
  by (simp add: holding_def)

lemma ends_malloc: "ends (holding rmm d ps) (dev_malloc rmm w n) (\<lambda>p. holding rmm d (p # ps))"
  unfolding ends_def
proof (intro allI impI)
  fix s r s' assume h: "holding rmm d ps s" and m: "dev_malloc rmm w n s = (r, s')"
  have wf: "dev_wf rmm s" using h by (simp add: holding_def)
  from wf m show "case r of Inl e \<Rightarrow> out_of_memory e | Inr p \<Rightarrow> holding rmm d (p # ps) s'"
  proof (cases rule: dev_malloc_cases)
    case refused
    then show ?thesis by (simp add: out_of_memory_def)
  next
    case (granted p)
    have dom: "dom (cells d) \<subseteq> dom (cells s)" "cells d \<subseteq>\<^sub>m cells s" using h by (auto simp: holding_def map_le_def dom_def)
    have "cells d \<subseteq>\<^sub>m cells s'" using dom granted(3) unfolding granted(4) by (auto simp: map_le_def)
    moreover have "p \<notin> dom (cells d)" "p \<notin> set ps" using dom(1) granted(3) h by (auto simp: holding_def)
    ultimately show ?thesis using h granted dev_malloc_tables [OF m] by (auto simp: holding_def)
  qed
qed

lemma ends_host_alloc: "ends (holding rmm d ps) (dev_host_alloc w n) (\<lambda>_. holding rmm d ps)"
  unfolding ends_def
proof (intro allI impI)
  fix s r s' assume h: "holding rmm d ps s" and m: "dev_host_alloc w n s = (r, s')"
  obtain r0 t where t: "customCudaHostAlloc w n (mgr s) = (r0, t)" by (cases "customCudaHostAlloc w n (mgr s)")
  have s': "r = r0" "s' = s\<lparr>mgr := t\<rparr>" using m t by (simp_all add: dev_host_alloc_def)
  have frame: "t = (mgr s)\<lparr>cpuProcessingPointer := cpuProcessingPointer (mgr s) + n * w\<rparr>" and
    e: "\<And>e. r0 = Inl e \<Longrightarrow> out_of_memory e"
    using t by (auto simp: customCudaHostAlloc_def hostReserve_def Let_def out_of_memory_def split: if_splits)
  have "dev_wf rmm (s\<lparr>mgr := t\<rparr>)"
    using h unfolding frame holding_def dev_wf_def rmm_outside_def pool_wf_def owned_def in_cache_region_def by simp
  then show "case r of Inl e \<Rightarrow> out_of_memory e | Inr x \<Rightarrow> holding rmm d ps s'"
    using h e s' by (auto simp: holding_def frame split: sum.splits)
qed

lemma ends_host_alloc_keeps:
  "ends (\<lambda>s. holding rmm d ps s \<and> cells s q = a) (dev_host_alloc w n) (\<lambda>_ s. holding rmm d ps s \<and> cells s q = a)"
  using ends_host_alloc [of rmm d ps w n]
  by (fastforce simp: ends_def dev_host_alloc_def split: sum.splits prod.splits)

lemma ends_write:
  "q \<in> set ps \<Longrightarrow> ends (holding rmm d ps) (dev_write q a) (\<lambda>_ s. holding rmm d ps s \<and> cells s q = Some a)"
  unfolding ends_def dev_write_def
  by (auto simp: act_basic holding_def map_le_def intro!: dev_wf_write)

lemma ends_free:
  assumes "p \<in> set ps" and "p \<noteq> q"
  shows "ends (\<lambda>s. holding rmm d ps s \<and> cells s q = a) (dev_free p) (\<lambda>_ s. holding rmm d (remove1 p ps) s \<and> cells s q = a)"
  unfolding ends_def
proof (intro allI impI)
  fix s r s' assume h: "holding rmm d ps s \<and> cells s q = a" and f: "dev_free p s = (r, s')"
  have "p \<in> dom (cells s)" "dev_wf rmm s" using h assms by (auto simp: holding_def)
  from dev_free_array [OF this(2,1) f] have r: "r = Inr ()" "dev_wf rmm s'" "cells s' = cells s \<or> cells s' = (cells s)(p := None)"
    by auto
  have "p \<notin> dom (cells d)" using h assms by (auto simp: holding_def)
  then have "cells d \<subseteq>\<^sub>m cells s'" using h r(3) by (auto simp: holding_def map_le_def)
  moreover have dist: "distinct ps" using h by (simp add: holding_def)
  then have "set (remove1 p ps) \<subseteq> dom (cells s')"
    using h r(3) unfolding set_remove1_eq [OF dist] by (auto simp: holding_def split: if_splits)
  moreover from dist have "distinct (remove1 p ps)" "set (remove1 p ps) \<subseteq> set ps" by (auto simp: set_remove1_subset)
  ultimately show "case r of Inl e \<Rightarrow> out_of_memory e | Inr x \<Rightarrow> holding rmm d (remove1 p ps) s' \<and> cells s' q = a"
    using h r assms(2) dev_free_tables [OF f] by (auto simp: holding_def)
qed

section \<open>Which blocks are live\<close>

text \<open>The pointers that \<open>customCudaFree\<close> leaves alone: of the caching region, locked, or of buffers taken
  over from cuDF.\<close>

definition retained :: "buffer_manager \<Rightarrow> ptr \<Rightarrow> bool" where
  "retained s p \<longleftrightarrow> p = nullptr \<or> in_cache_region s p \<or> p \<in> fst ` set (locked_allocation_table s) \<or>
     p \<in> fst ` set (rmm_stored_buffers s)"

definition kept_fields :: "buffer_manager \<Rightarrow> ptr \<times> ptr \<times> u64 \<times> u64 \<times> blocks \<times> blocks" where
  "kept_fields s = (gpuCache s, cpuCache s, available_gpu_cache_size s, cache_size_per_gpu s,
     locked_allocation_table s, rmm_stored_buffers s)"

lemma kept_fields_retained: "kept_fields s' = kept_fields s \<Longrightarrow> retained s' = retained s"
  by (simp add: kept_fields_def retained_def in_cache_region_def fun_eq_iff)

lemma dev_malloc_retained: "dev_malloc rmm w n d = (r, d') \<Longrightarrow> retained (mgr d') = retained (mgr d)"
  by (rule kept_fields_retained)
     (auto simp: dev_malloc_def customCudaMalloc_def poolMalloc_def mr_allocate_def act_bind_def act_basic Let_def
      kept_fields_def split: prod.splits sum.splits option.splits if_splits)

definition live_blocks :: "'v device \<Rightarrow> ptr set" where
  "live_blocks d = fst ` set (allocation_table (mgr d))"

lemma live_blocks_cells [simp]: "live_blocks (d\<lparr>cells := f\<rparr>) = live_blocks d"
  by (simp add: live_blocks_def)

lemma dev_malloc_live:
  assumes wf: "dev_wf rmm d" and m: "dev_malloc rmm w n d = (Inr p, d')"
  shows "live_blocks d' = insert p (live_blocks d)"
proof -
  have fresh: "rmm_fresh rmm" and pw: "pool_wf (mgr d)" using wf by (simp_all add: dev_wf_def)
  obtain r s where c: "poolMalloc rmm (aligned_alloc n w) (mgr d) = (r, s)" by fastforce
  from fresh pw c show ?thesis
  proof (cases rule: poolMalloc_cases)
    case refused
    with m c show ?thesis by (simp add: dev_malloc_def customCudaMalloc_def Let_def)
  next
    case (granted q)
    with m c have "q = p" "mgr d' = s" by (auto simp: dev_malloc_def customCudaMalloc_def Let_def)
    with granted(5) show ?thesis by (simp add: live_blocks_def)
  qed
qed

lemma dev_free_live:
  assumes wf: "dev_wf rmm d" and p: "p \<in> dom (cells d)" and f: "dev_free p d = (r, d')"
  shows "live_blocks d' = live_blocks d - (if retained (mgr d) p then {} else {p}) \<and> retained (mgr d') = retained (mgr d)"
proof -
  let ?s = "mgr d"
  have pw: "pool_wf ?s" using wf by (simp add: dev_wf_def)
  note br = customCudaFree_branches [OF pw, of p]
  show ?thesis
  proof (cases "retained ?s p")
    case True
    then have "customCudaFree p ?s = (Inr (), ?s)" unfolding retained_def by (simp only: br if_True)
    with f True show ?thesis by (simp add: dev_free_def)
  next
    case False
    then have "p \<in> fst ` set (allocation_table ?s)" using wf p by (auto simp: dev_wf_def owned_def retained_def)
    then have "customCudaFree p ?s = (Inr (), ?s\<lparr>rmm_live := filter (\<lambda>b. fst b \<noteq> p) (rmm_live ?s),
                 allocation_table := filter (\<lambda>b. fst b \<noteq> p) (allocation_table ?s)\<rparr>)"
      using False unfolding retained_def by (simp only: br if_True if_False)
    then have t: "mgr d' = ?s\<lparr>rmm_live := filter (\<lambda>b. fst b \<noteq> p) (rmm_live ?s),
                 allocation_table := filter (\<lambda>b. fst b \<noteq> p) (allocation_table ?s)\<rparr>"
      using arg_cong [OF f, of "\<lambda>x. mgr (snd x)"] by (simp add: dev_free_def)
    have "fst ` set (filter (\<lambda>b. fst b \<noteq> p) (allocation_table ?s)) = fst ` set (allocation_table ?s) - {p}" by auto
    then have live: "live_blocks d' = live_blocks d - {p}" by (simp add: live_blocks_def t)
    have "kept_fields (mgr d') = kept_fields ?s" by (simp add: kept_fields_def t)
    from live kept_fields_retained [OF this] False show ?thesis by simp
  qed
qed

end
