(* ===== verification/Materialize_Rows.thy ===== *)
theory Materialize_Rows
  imports Device_Memory
begin

text \<open>
  Composing row ids (\<open>HandleMaterializeRowIDs\<close> and its left- and right-hand-side variants for
  joins in \<open>src/src/operator/gpu_materialize.cpp\<close>, over \<open>materializeWithoutNull\<close> of
  \<open>src/src/cuda/operator/materialize.cu\<close>).  A column is not gathered when an operator selects rows
  of it: it keeps its data and carries a row-id array.  A second selection composes the arrays.
  Columns that share a row-id array share the composed one, and the old array is freed, so each
  old array may be composed once only: the two vectors \<open>prev_row_ids\<close> and \<open>new_row_ids\<close>, kept here
  as one association list.
\<close>

section \<open>The code\<close>

definition materializeWithoutNull ::
  "rmm_pool \<Rightarrow> ptr \<Rightarrow> ptr \<Rightarrow> u64 \<Rightarrow> ('v device, ptr option) act" where
  "materializeWithoutNull rmm a ids result_len =
     (if result_len = 0 then act_return None
      else act_bind (dev_malloc rmm 8 result_len) (\<lambda>result.
           act_bind (dev_rows a) (\<lambda>xs.
           act_bind (dev_rows ids) (\<lambda>zs.
           act_bind (act_lift (res_bind (first_n result_len zs) (gather xs))) (\<lambda>ys.
           act_bind (dev_write result (RowIds ys)) (\<lambda>_.
           act_bind (dev_free a) (\<lambda>_. act_return (Some result))))))))"

type_synonym row_id_memo = "(ptr \<times> ptr) list"

definition relocate_row_ids ::
  "rmm_pool \<Rightarrow> u64 \<Rightarrow> ptr \<Rightarrow> row_id_memo \<Rightarrow> GPUColumn \<Rightarrow> ('v device, ptr \<times> row_id_memo) act" where
  "relocate_row_ids rmm count ids memo c =
     (if row_ids c = nullptr then act_return (ids, memo)
      else case map_of memo (row_ids c) of
        Some new_ids \<Rightarrow> act_return (new_ids, memo)
      | None \<Rightarrow> act_bind (materializeWithoutNull rmm (row_ids c) ids count) (\<lambda>r.
          case r of
            None \<Rightarrow> act_throw (UndefinedBehaviour ''result left unset'')
          | Some new_ids \<Rightarrow> act_return (new_ids, memo @ [(row_ids c, new_ids)])))"

definition relocate_column ::
  "duckdb_env \<Rightarrow> rmm_pool \<Rightarrow> u64 \<Rightarrow> ptr \<Rightarrow> bool \<Rightarrow> row_id_memo \<Rightarrow> GPUColumn \<Rightarrow>
   ('v device, GPUColumn \<times> row_id_memo) act" where
  "relocate_column D rmm count ids maintain_unique memo c =
     (let w = data_wrapper c; unique = (maintain_unique \<and> is_unique c) in
      if count = 0 then
        act_bind (act_lift (GPUColumn_string D 0 (dw_type w) nullptr nullptr 0 (dw_is_string_data w) nullptr))
          (\<lambda>out. act_return (out\<lparr>row_id_count := Some 0, is_unique := unique\<rparr>, memo))
      else
        act_bind (act_lift (GPUColumn_string D (column_length c) (dw_type w) (dw_data w) (dw_offset w)
            (dw_num_bytes w) (dw_is_string_data w) (dw_validity_mask w))) (\<lambda>out.
        act_bind
          (if ids \<noteq> nullptr
           then act_bind (relocate_row_ids rmm count ids memo c)
                  (\<lambda>(q, memo'). act_return (out\<lparr>row_ids := q\<rparr>, memo'))
           else act_return (out, memo)) (\<lambda>(out', memo').
        act_return (out'\<lparr>row_id_count := Some count, is_unique := unique\<rparr>, memo'))))"

fun relocate_loop ::
  "duckdb_env \<Rightarrow> rmm_pool \<Rightarrow> GPUIntermediateRelation \<Rightarrow> u64 \<Rightarrow> ptr \<Rightarrow> bool \<Rightarrow> row_id_memo \<Rightarrow> nat \<Rightarrow> nat list \<Rightarrow>
   GPUIntermediateRelation \<Rightarrow> ('v device, GPUIntermediateRelation) act" where
  "relocate_loop D rmm rin count ids mu memo i [] rout = act_return rout"
| "relocate_loop D rmm rin count ids mu memo i (col # cols) rout =
     act_bind (act_lift (column_at rin col)) (\<lambda>c.
     act_bind (relocate_column D rmm count ids mu memo c) (\<lambda>(out, memo').
     act_bind (act_lift (set_column i out rout)) (\<lambda>rout'.
     relocate_loop D rmm rin count ids mu memo' (Suc i) cols rout')))"

definition HandleMaterializeRowIDs ::
  "duckdb_env \<Rightarrow> rmm_pool \<Rightarrow> GPUIntermediateRelation \<Rightarrow> GPUIntermediateRelation \<Rightarrow> u64 \<Rightarrow> ptr \<Rightarrow> bool \<Rightarrow>
   ('v device, GPUIntermediateRelation) act" where
  "HandleMaterializeRowIDs D rmm input_relation output_relation count ids maintain_unique =
     relocate_loop D rmm input_relation count ids maintain_unique [] 0
       [0..<length (columns input_relation)] output_relation"

definition HandleMaterializeRowIDsRHS ::
  "duckdb_env \<Rightarrow> rmm_pool \<Rightarrow> GPUIntermediateRelation \<Rightarrow> GPUIntermediateRelation \<Rightarrow> nat list \<Rightarrow> nat \<Rightarrow> u64 \<Rightarrow> ptr \<Rightarrow>
   bool \<Rightarrow> ('v device, GPUIntermediateRelation) act" where
  "HandleMaterializeRowIDsRHS D rmm hash_table_result output_relation rhs_output_columns offset count ids
      maintain_unique =
     relocate_loop D rmm hash_table_result count ids maintain_unique [] offset rhs_output_columns
       output_relation"

definition HandleMaterializeRowIDsLHS ::
  "duckdb_env \<Rightarrow> rmm_pool \<Rightarrow> GPUIntermediateRelation \<Rightarrow> GPUIntermediateRelation \<Rightarrow> nat list \<Rightarrow> u64 \<Rightarrow> ptr \<Rightarrow>
   bool \<Rightarrow> ('v device, GPUIntermediateRelation) act" where
  "HandleMaterializeRowIDsLHS D rmm input_relation output_relation lhs_output_columns count ids
      maintain_unique =
     relocate_loop D rmm input_relation count ids maintain_unique [] 0 lhs_output_columns output_relation"

section \<open>Composing one array\<close>

lemma materializeWithoutNull_cases:
  assumes wf: "dev_wf rmm d" and a: "cells d a = Some (RowIds xs)" and b: "cells d ids = Some (RowIds zs)"
    and n: "n \<noteq> 0" "unat n \<le> length zs" and range: "\<forall>i \<in> set (take (unat n) zs). unat i < length xs"
    and m: "materializeWithoutNull rmm a ids n d = (r, d')"
  obtains (refused) "r = Inl BadAlloc" and "d' = d"
    | (composed) q where "r = Inr (Some q)" and "q \<noteq> nullptr" and "q \<notin> dom (cells d)" and "dev_wf rmm d'"
        and "cells d' q = Some (RowIds (map (\<lambda>i. xs ! unat i) (take (unat n) zs)))"
        and "\<forall>p. p \<noteq> q \<and> p \<noteq> a \<longrightarrow> cells d' p = cells d p"
        and "live_blocks d' = insert q (live_blocks d - (if retained (mgr d) a then {} else {a}))"
        and "retained (mgr d') = retained (mgr d)"
proof -
  let ?ys = "map (\<lambda>i. xs ! unat i) (take (unat n) zs)"
  obtain r1 d1 where al: "dev_malloc rmm 8 n d = (r1, d1)" by (cases "dev_malloc rmm 8 n d")
  from wf al show thesis
  proof (cases rule: dev_malloc_cases)
    case refused
    with m al n show thesis by (intro that(1)) (simp_all add: materializeWithoutNull_def act_bind_def)
  next
    case (granted q)
    let ?d2 = "d1\<lparr>cells := (cells d1)(q \<mapsto> RowIds ?ys)\<rparr>"
    have qa: "q \<noteq> a" "q \<noteq> ids" using granted(3) a b by auto
    have wf2: "dev_wf rmm ?d2" using granted(4,5) by (intro dev_wf_write) simp_all
    obtain r3 d3 where fr: "dev_free a ?d2 = (r3, d3)" by (cases "dev_free a ?d2")
    have "a \<in> dom (cells ?d2)" using a qa granted(4) by auto
    note f = dev_free_array [OF wf2 this fr]
    have reads: "dev_rows a d1 = (Inr xs, d1)" "dev_rows ids d1 = (Inr zs, d1)"
      using a b qa granted(4) by (simp_all add: dev_rows_def)
    have "materializeWithoutNull rmm a ids n d = (Inr (Some q), d3)"
      using n al granted(1) reads fr f gather_Inr [OF range]
      by (simp add: materializeWithoutNull_def act_bind_def act_basic dev_write_def)
    with m have rd: "r = Inr (Some q)" "d' = d3" by simp_all
    have "cells d3 q = Some (RowIds ?ys)" "\<forall>p. p \<noteq> q \<and> p \<noteq> a \<longrightarrow> cells d3 p = cells d p"
      using f qa granted(4) by auto
    moreover have "live_blocks d3 = insert q (live_blocks d - (if retained (mgr d) a then {} else {a}))"
      "retained (mgr d3) = retained (mgr d)"
      using dev_free_live [OF wf2 \<open>a \<in> dom (cells ?d2)\<close> fr] dev_malloc_live [OF wf al [unfolded granted(1)]]
        dev_malloc_retained [OF al] qa(1) by auto
    ultimately show thesis using rd granted(2,3) f by (intro that(2)) simp_all
  qed
qed

section \<open>The loop\<close>

text \<open>A column from which the rows \<open>sel\<close>, read from the array \<open>ids\<close>, can be selected.\<close>

definition selectable :: "'v device \<Rightarrow> ptr \<Rightarrow> u64 list \<Rightarrow> GPUColumn \<Rightarrow> bool" where
  "selectable d ids sel c \<longleftrightarrow> row_ids c \<noteq> ids \<and>
     (\<exists>rows. column_row_list d c = Some rows \<and> (\<forall>i \<in> set sel. unat i < length rows))"

text \<open>The output column: the same data, the selected rows.\<close>

definition same_data :: "GPUColumn \<Rightarrow> GPUColumn \<Rightarrow> bool" where
  "same_data c out \<longleftrightarrow> column_length out = column_length c \<and>
     dw_type (data_wrapper out) = dw_type (data_wrapper c) \<and>
     dw_data (data_wrapper out) = dw_data (data_wrapper c) \<and>
     dw_offset (data_wrapper out) = dw_offset (data_wrapper c) \<and>
     dw_is_string_data (data_wrapper out) = dw_is_string_data (data_wrapper c) \<and>
     dw_validity_mask (data_wrapper out) = dw_validity_mask (data_wrapper c)"

definition placed :: "u64 \<Rightarrow> ptr \<Rightarrow> bool \<Rightarrow> row_id_memo \<Rightarrow> GPUColumn \<Rightarrow> GPUColumn \<Rightarrow> bool" where
  "placed count ids mu memo c out \<longleftrightarrow> same_data c out \<and> row_id_count out = Some count \<and>
     is_unique out = (mu \<and> is_unique c) \<and>
     (if row_ids c = nullptr then row_ids out = ids else (row_ids c, row_ids out) \<in> set memo)"

text \<open>What holds between two columns: arrays not composed yet are as they were at the start, composed
  ones are recorded with their composition, which later allocations and frees leave alone.\<close>

definition memo_ok ::
  "rmm_pool \<Rightarrow> 'v device \<Rightarrow> ptr \<Rightarrow> u64 list \<Rightarrow> row_id_memo \<Rightarrow> 'v device \<Rightarrow> bool" where
  "memo_ok rmm d0 ids sel memo d \<longleftrightarrow> dev_wf rmm d \<and> ids \<notin> fst ` set memo \<and>
     (\<forall>p \<in> dom (cells d0). p \<notin> fst ` set memo \<longrightarrow> cells d p = cells d0 p) \<and>
     (\<forall>(p, q) \<in> set memo. q \<noteq> nullptr \<and> (q \<in> dom (cells d0) \<longrightarrow> q \<in> fst ` set memo) \<and>
        (\<exists>xs. cells d0 p = Some (RowIds xs) \<and> cells d q = Some (RowIds (map (\<lambda>i. xs ! unat i) sel)))) \<and>
     distinct (map fst memo) \<and> distinct (map snd memo) \<and> retained (mgr d) = retained (mgr d0) \<and>
     live_blocks d = (live_blocks d0 - {p \<in> fst ` set memo. \<not> retained (mgr d0) p}) \<union> snd ` set memo"

lemma memo_ok_entry:
  assumes "memo_ok rmm d0 ids sel memo d" and "(p, q) \<in> set memo"
  shows "q \<noteq> nullptr \<and> (q \<in> dom (cells d0) \<longrightarrow> q \<in> fst ` set memo) \<and>
    (\<exists>xs. cells d0 p = Some (RowIds xs) \<and> cells d q = Some (RowIds (map (\<lambda>i. xs ! unat i) sel)))"
proof -
  have "\<forall>(p, q) \<in> set memo. q \<noteq> nullptr \<and> (q \<in> dom (cells d0) \<longrightarrow> q \<in> fst ` set memo) \<and>
      (\<exists>xs. cells d0 p = Some (RowIds xs) \<and> cells d q = Some (RowIds (map (\<lambda>i. xs ! unat i) sel)))"
    using assms(1) unfolding memo_ok_def by (elim conjE)
  from bspec [OF this assms(2)] show ?thesis by simp
qed

lemma memo_live:
  assumes "L = (L0 - {p \<in> A. \<not> R p}) \<union> B" and "L' = insert q (L - (if R a then {} else {a}))" and "a \<notin> B"
  shows "L' = (L0 - {p \<in> insert a A. \<not> R p}) \<union> insert q B"
  using assms by auto

lemma relocate_row_ids_step:
  assumes inv: "memo_ok rmm d0 ids sel memo d" and ids: "cells d0 ids = Some (RowIds zs)"
    and count: "count \<noteq> 0" "unat count \<le> length zs" "sel = take (unat count) zs"
    and c: "selectable d0 ids sel c" and m: "relocate_row_ids rmm count ids memo c d = (r, d')"
  shows "r = Inl BadAlloc \<or> (\<exists>q memo'. r = Inr (q, memo') \<and> set memo \<subseteq> set memo' \<and>
           memo_ok rmm d0 ids sel memo' d' \<and>
           (if row_ids c = nullptr then q = ids else (row_ids c, q) \<in> set memo') \<and>
           fst ` set memo' \<subseteq> insert (row_ids c) (fst ` set memo))"
proof (cases "row_ids c = nullptr \<or> map_of memo (row_ids c) \<noteq> None")
  case True
  show ?thesis
  proof (cases "row_ids c = nullptr")
    case True
    with m inv show ?thesis by (auto simp: relocate_row_ids_def act_basic)
  next
    case nn: False
    with True obtain q where q: "map_of memo (row_ids c) = Some q" by auto
    then have "(row_ids c, q) \<in> set memo" by (rule map_of_SomeD)
    with m nn q inv show ?thesis by (auto simp: relocate_row_ids_def act_basic)
  qed
next
  case False
  then have nn: "row_ids c \<noteq> nullptr" and fresh: "row_ids c \<notin> fst ` set memo"
    by (auto simp: map_of_eq_None_iff)
  from c nn obtain xs and n :: u64 where xs: "cells d0 (row_ids c) = Some (RowIds xs)"
    and n: "unat n \<le> length xs" "\<forall>i \<in> set sel. unat i < unat n" and neq: "row_ids c \<noteq> ids"
    by (auto simp: selectable_def column_row_list_def split: option.splits darray.splits if_splits)
  have xs': "cells d (row_ids c) = Some (RowIds xs)" and ids': "cells d ids = Some (RowIds zs)"
    using inv xs ids fresh by (auto simp: memo_ok_def)
  have wf: "dev_wf rmm d" using inv by (simp add: memo_ok_def)
  have range: "\<forall>i \<in> set (take (unat count) zs). unat i < length xs"
    using n count(3) by fastforce
  obtain r1 d1 where mat: "materializeWithoutNull rmm (row_ids c) ids count d = (r1, d1)"
    by (cases "materializeWithoutNull rmm (row_ids c) ids count d")
  from wf xs' ids' count(1,2) range mat show ?thesis
  proof (cases rule: materializeWithoutNull_cases)
    case refused
    with m mat nn False show ?thesis by (simp add: relocate_row_ids_def act_bind_def)
  next
    case (composed q)
    let ?memo = "memo @ [(row_ids c, q)]"
    have rd: "r = Inr (q, ?memo)" "d' = d1"
      using m mat composed(1) nn False by (simp_all add: relocate_row_ids_def act_bind_def act_basic)
    have q0: "q \<in> dom (cells d0) \<longrightarrow> q \<in> fst ` set memo"
      using inv composed(3) by (auto simp: memo_ok_def domIff)
    note entry = memo_ok_entry [OF inv]
    have live: "live_blocks d = (live_blocks d0 - {p \<in> fst ` set memo. \<not> retained (mgr d0) p}) \<union> snd ` set memo"
      and ret: "retained (mgr d) = retained (mgr d0)" and dist: "distinct (map fst memo)" "distinct (map snd memo)"
      using inv by (simp_all add: memo_ok_def)
    have old: "cells d1 q' = cells d q'" if "(p', q') \<in> set memo" for p' q'
    proof -
      from entry [OF that] have q': "cells d q' \<noteq> None" "q' \<in> dom (cells d0) \<longrightarrow> q' \<in> fst ` set memo"
        by auto
      then have "q' \<noteq> q" "q' \<noteq> row_ids c" using composed(3) xs fresh by auto
      with composed(6) show ?thesis by simp
    qed
    have keep: "cells d1 p = cells d0 p"
      if "p \<in> dom (cells d0)" and "p \<notin> fst ` set memo" and "p \<noteq> row_ids c" for p
    proof -
      have "cells d p = cells d0 p" using inv that(1,2) by (simp add: memo_ok_def)
      moreover from this have "p \<noteq> q" using that(1) composed(3) by auto
      ultimately show ?thesis using composed(6) that(3) by simp
    qed
    have "memo_ok rmm d0 ids sel ?memo d1"
      unfolding memo_ok_def
    proof (intro conjI)
      show "dev_wf rmm d1" by (rule composed(4))
      show "ids \<notin> fst ` set ?memo" using inv neq by (auto simp: memo_ok_def)
      show "\<forall>p \<in> dom (cells d0). p \<notin> fst ` set ?memo \<longrightarrow> cells d1 p = cells d0 p"
        using keep by simp
      show "\<forall>(p, q) \<in> set ?memo. q \<noteq> nullptr \<and> (q \<in> dom (cells d0) \<longrightarrow> q \<in> fst ` set ?memo) \<and>
        (\<exists>xs. cells d0 p = Some (RowIds xs) \<and> cells d1 q = Some (RowIds (map (\<lambda>i. xs ! unat i) sel)))"
      proof (intro ballI, clarify)
        fix p' q' assume "(p', q') \<in> set ?memo"
        then consider "(p', q') \<in> set memo" | "p' = row_ids c" "q' = q" by auto
        then show "q' \<noteq> nullptr \<and> (q' \<in> dom (cells d0) \<longrightarrow> q' \<in> fst ` set ?memo) \<and>
          (\<exists>xs. cells d0 p' = Some (RowIds xs) \<and> cells d1 q' = Some (RowIds (map (\<lambda>i. xs ! unat i) sel)))"
        proof cases
          case 1
          with entry [OF 1] old [OF 1] show ?thesis by auto
        next
          case 2
          with composed(2,5) q0 xs count(3) show ?thesis by auto
        qed
      qed
      show "distinct (map fst ?memo)" using dist(1) fresh by simp
      have "q \<notin> snd ` set memo" using composed(3) entry by fastforce
      then show "distinct (map snd ?memo)" using dist(2) by simp
      show "retained (mgr d1) = retained (mgr d0)" using ret composed(8) by simp
      have "row_ids c \<notin> snd ` set memo" using entry xs fresh by fastforce
      then show "live_blocks d1 = (live_blocks d0 - {p \<in> fst ` set ?memo. \<not> retained (mgr d0) p}) \<union> snd ` set ?memo"
        using memo_live [OF live composed(7) [unfolded ret]] by simp
    qed
    with rd nn show ?thesis by auto
  qed
qed


lemma relocate_column_step:
  assumes inv: "memo_ok rmm d0 ids sel memo d" and ids: "cells d0 ids = Some (RowIds zs)" "ids \<noteq> nullptr"
    and count: "count \<noteq> 0" "unat count \<le> length zs" "sel = take (unat count) zs"
    and c: "selectable d0 ids sel c" and m: "relocate_column D rmm count ids mu memo c d = (r, d')"
  shows "r = Inl BadAlloc \<or> (\<exists>msg. r = Inl (InternalException msg)) \<or>
     (\<exists>out memo'. r = Inr (out, memo') \<and> set memo \<subseteq> set memo' \<and> memo_ok rmm d0 ids sel memo' d' \<and>
        placed count ids mu memo' c out \<and> fst ` set memo' \<subseteq> insert (row_ids c) (fst ` set memo))"
proof -
  let ?w = "data_wrapper c"
  let ?o = "GPUColumn_string D (column_length c) (dw_type ?w) (dw_data ?w) (dw_offset ?w)
            (dw_num_bytes ?w) (dw_is_string_data ?w) (dw_validity_mask ?w)"
  show ?thesis
  proof (cases ?o)
    case (Inl e)
    with m count(1) have "r = Inl e" by (simp add: relocate_column_def act_bind_def act_basic)
    moreover from Inl have "\<exists>msg. e = InternalException msg"
      by (auto simp: GPUColumn_string_def Let_def res_bind_Inl_iff getColumnTypeSize_def
          GetDecimalTypeSize_def split: if_splits GPUColumnTypeId.splits option.splits)
    ultimately show ?thesis by blast
  next
    case (Inr o1)
    obtain r1 d1 where rel: "relocate_row_ids rmm count ids memo c d = (r1, d1)"
      by (cases "relocate_row_ids rmm count ids memo c d")
    note step = relocate_row_ids_step [OF inv ids(1) count c rel]
    show ?thesis
    proof (cases r1)
      case (Inl e)
      with step have "e = BadAlloc" by auto
      with m Inl Inr rel count(1) ids(2) show ?thesis
        by (simp add: relocate_column_def Let_def act_bind_def act_basic)
    next
      case ok: (Inr qm)
      obtain q memo' where qm: "qm = (q, memo')" by (cases qm)
      let ?out = "o1\<lparr>row_ids := q, row_id_count := Some count, is_unique := (mu \<and> is_unique c)\<rparr>"
      have "r = Inr (?out, memo')" "d' = d1"
        using m Inr rel ok qm count(1) ids(2)
        by (simp_all add: relocate_column_def Let_def act_bind_def act_basic)
      moreover have "placed count ids mu memo' c ?out"
        using step ok qm Inr by (auto simp: placed_def same_data_def GPUColumn_string_Inr)
      ultimately show ?thesis using step ok qm by auto
    qed
  qed
qed

lemma placed_mono: "placed count ids mu memo c out \<Longrightarrow> set memo \<subseteq> set memo' \<Longrightarrow> placed count ids mu memo' c out"
  by (auto simp: placed_def split: if_splits)

definition row_id_arrays :: "GPUIntermediateRelation \<Rightarrow> nat list \<Rightarrow> ptr set" where
  "row_id_arrays rin cols = {p. \<exists>col \<in> set cols. \<exists>c. column_at rin col = Inr c \<and> p = row_ids c}"

text \<open>What the loop does to the output relation: slots \<open>i\<close>, \<open>i + 1\<close>, \<dots> hold the selected columns.\<close>

definition slots_placed ::
  "u64 \<Rightarrow> ptr \<Rightarrow> bool \<Rightarrow> row_id_memo \<Rightarrow> GPUIntermediateRelation \<Rightarrow> nat \<Rightarrow> nat list \<Rightarrow> GPUIntermediateRelation \<Rightarrow> bool"
where
  "slots_placed count ids mu memo rin i cols rout \<longleftrightarrow>
     (\<forall>k < length cols. \<exists>c out. column_at rin (cols ! k) = Inr c \<and> columns rout ! (i + k) = Some out \<and>
        placed count ids mu memo c out)"

lemma subset_collect: "A \<subseteq> B \<union> C \<Longrightarrow> B \<subseteq> insert x D \<Longrightarrow> x \<in> E \<Longrightarrow> C \<subseteq> E \<Longrightarrow> A \<subseteq> D \<union> E"
  by blast

lemma relocate_loop_result:
  assumes "memo_ok rmm d0 ids sel memo d" and ids: "cells d0 ids = Some (RowIds zs)" "ids \<noteq> nullptr"
    and count: "count \<noteq> 0" "unat count \<le> length zs" "sel = take (unat count) zs"
    and "\<forall>col \<in> set cols. \<exists>c. column_at rin col = Inr c \<and> selectable d0 ids sel c"
    and "i + length cols \<le> length (columns rout)"
    and "relocate_loop D rmm rin count ids mu memo i cols rout d = (r, d')"
  shows "r = Inl BadAlloc \<or> (\<exists>msg. r = Inl (InternalException msg)) \<or>
     (\<exists>rout' memo'. r = Inr rout' \<and> set memo \<subseteq> set memo' \<and> memo_ok rmm d0 ids sel memo' d' \<and>
        slots_placed count ids mu memo' rin i cols rout' \<and> length (columns rout') = length (columns rout) \<and>
        (\<forall>j < length (columns rout). j < i \<or> i + length cols \<le> j \<longrightarrow> columns rout' ! j = columns rout ! j) \<and>
        fst ` set memo' \<subseteq> fst ` set memo \<union> row_id_arrays rin cols)"
  using assms(1,7-)
proof (induction cols arbitrary: memo i rout d)
  case Nil
  then have "r = Inr rout" "d' = d" by (simp_all add: act_basic)
  with Nil.prems(1) show ?case by (intro disjI2 exI [of _ rout] exI [of _ memo]) (simp add: slots_placed_def)
next
  case (Cons col cols)
  obtain c where c: "column_at rin col = Inr c" and sel: "selectable d0 ids sel c"
    using Cons.prems(2) by auto
  obtain r1 d1 where rc: "relocate_column D rmm count ids mu memo c d = (r1, d1)"
    by (cases "relocate_column D rmm count ids mu memo c d")
  note step = relocate_column_step [OF Cons.prems(1) ids count sel rc]
  show ?case
  proof (cases r1)
    case (Inl e)
    with Cons.prems(4) c rc have "r = Inl e" by (simp add: act_bind_def act_basic)
    with Inl step show ?thesis by simp
  next
    case (Inr om)
    then obtain out memo1 where om: "r1 = Inr (out, memo1)" by (cases om) auto
    from step have memo1: "set memo \<subseteq> set memo1" "memo_ok rmm d0 ids sel memo1 d1"
      "placed count ids mu memo1 c out" "fst ` set memo1 \<subseteq> insert (row_ids c) (fst ` set memo)" unfolding om by simp_all
    let ?rout = "rout\<lparr>columns := (columns rout)[i := Some out]\<rparr>"
    have i: "i < length (columns rout)" using Cons.prems(3) by simp
    have rest: "relocate_loop D rmm rin count ids mu memo1 (Suc i) cols ?rout d1 = (r, d')"
      using Cons.prems(4) c rc om i by (simp add: act_bind_def act_basic set_column_def)
    have "\<forall>col \<in> set cols. \<exists>c. column_at rin col = Inr c \<and> selectable d0 ids sel c"
      "Suc i + length cols \<le> length (columns ?rout)"
      using Cons.prems(2,3) by simp_all
    from Cons.IH [OF memo1(2) this rest]
    show ?thesis
    proof (elim disjE exE conjE)
      fix rout' memo'
      assume r: "r = Inr rout'" and sub: "set memo1 \<subseteq> set memo'" and ok: "memo_ok rmm d0 ids sel memo' d'"
        and sp: "slots_placed count ids mu memo' rin (Suc i) cols rout'"
        and len: "length (columns rout') = length (columns ?rout)"
        and fr: "\<forall>j < length (columns ?rout). j < Suc i \<or> Suc i + length cols \<le> j \<longrightarrow>
            columns rout' ! j = columns ?rout ! j"
        and dom: "fst ` set memo' \<subseteq> fst ` set memo1 \<union> row_id_arrays rin cols"
      have "fst ` set memo' \<subseteq> fst ` set memo \<union> row_id_arrays rin (col # cols)"
      proof -
        have "row_ids c \<in> row_id_arrays rin (col # cols)" using c by (auto simp: row_id_arrays_def)
        moreover have "row_id_arrays rin cols \<subseteq> row_id_arrays rin (col # cols)" by (auto simp: row_id_arrays_def)
        ultimately show ?thesis by (rule subset_collect [OF dom memo1(4)])
      qed
      moreover have "columns rout' ! i = Some out" using fr i by simp
      then have "slots_placed count ids mu memo' rin i (col # cols) rout'"
        using sp c placed_mono [OF memo1(3) sub] unfolding slots_placed_def
        by (auto simp: nth_Cons' less_Suc_eq_0_disj)
      moreover have "\<forall>j < length (columns rout). j < i \<or> i + length (col # cols) \<le> j \<longrightarrow>
            columns rout' ! j = columns rout ! j"
        using fr by auto
      moreover have "set memo \<subseteq> set memo'" using sub memo1(1) by blast
      moreover have "length (columns rout') = length (columns rout)" using len by simp
      ultimately show ?thesis using r ok by (intro disjI2 exI [of _ rout'] exI [of _ memo'] conjI)
    qed simp_all
  qed
qed


lemma placed_row_list:
  assumes out: "placed count ids mu memo c out" and inv: "memo_ok rmm d0 ids sel memo d'"
    and ids: "cells d0 ids = Some (RowIds zs)" "ids \<noteq> nullptr"
    and count: "unat count \<le> length zs" "sel = take (unat count) zs"
    and c: "selectable d0 ids sel c"
  shows "\<exists>rows. column_row_list d0 c = Some rows \<and>
    column_row_list d' out = Some (map (\<lambda>k. rows ! unat k) sel)"
proof -
  from c obtain rows where rows: "column_row_list d0 c = Some rows"
    and range: "\<forall>i \<in> set sel. unat i < length rows" by (auto simp: selectable_def)
  have len: "length sel = unat count" using count by simp
  show ?thesis
  proof (cases "row_ids c = nullptr")
    case True
    have "cells d' ids = Some (RowIds zs)" using inv ids by (auto simp: memo_ok_def)
    moreover have "row_ids out = ids" "row_id_count out = Some count" using out True by (simp_all add: placed_def)
    moreover have "rows = [0..<unat (column_length c)]" using rows True by (simp add: column_row_list_def)
    ultimately show ?thesis
      using rows range ids count by (auto simp: column_row_list_def intro!: map_cong)
  next
    case False
    then have "(row_ids c, row_ids out) \<in> set memo" and n: "row_id_count out = Some count"
      using out by (simp_all add: placed_def)
    with inv obtain xs where xs: "cells d0 (row_ids c) = Some (RowIds xs)" and q: "row_ids out \<noteq> nullptr"
      "cells d' (row_ids out) = Some (RowIds (map (\<lambda>i. xs ! unat i) sel))"
      unfolding memo_ok_def by fast
    from rows xs False obtain m :: u64 where m: "unat m \<le> length xs" "rows = map unat (take (unat m) xs)"
      by (auto simp: column_row_list_def split: option.splits if_splits)
    have "map unat (map (\<lambda>i. xs ! unat i) sel) = map (\<lambda>k. rows ! unat k) sel"
      using range m by (auto intro!: map_cong)
    with q n len rows show ?thesis by (simp add: column_row_list_def)
  qed
qed

lemma memo_ok_start: "dev_wf rmm d \<Longrightarrow> memo_ok rmm d ids sel [] d"
  by (simp add: memo_ok_def)

lemma slots_row_lists:
  assumes "slots_placed count ids mu memo rin i cols rout'" and "memo_ok rmm d0 ids sel memo d'"
    and "cells d0 ids = Some (RowIds zs)" "ids \<noteq> nullptr"
    and "unat count \<le> length zs" "sel = take (unat count) zs"
    and "\<forall>col \<in> set cols. \<exists>c. column_at rin col = Inr c \<and> selectable d0 ids sel c" and k: "k < length cols"
  shows "\<exists>c out rows. column_at rin (cols ! k) = Inr c \<and> columns rout' ! (i + k) = Some out \<and>
    same_data c out \<and> column_row_list d0 c = Some rows \<and>
    column_row_list d' out = Some (map (\<lambda>j. rows ! unat j) sel)"
proof -
  obtain c out where c: "column_at rin (cols ! k) = Inr c" "columns rout' ! (i + k) = Some out"
    and p: "placed count ids mu memo c out"
    using assms(1) k unfolding slots_placed_def by blast
  from assms(7) k have "\<exists>c. column_at rin (cols ! k) = Inr c \<and> selectable d0 ids sel c"
    using nth_mem by blast
  with c(1) have "selectable d0 ids sel c" by simp
  from placed_row_list [OF p assms(2-6) this] c p show ?thesis by (auto simp: placed_def)
qed

section \<open>Properties\<close>

text \<open>The row-id arrays that the columns of a relation share.\<close>

definition shared_arrays :: "GPUIntermediateRelation \<Rightarrow> ptr set" where
  "shared_arrays rel = {row_ids c |c. Some c \<in> set (columns rel) \<and> row_ids c \<noteq> nullptr}"

lemma memo_new_arrays:
  assumes "distinct (map fst memo)" and "distinct (map snd memo)"
  shows "inj_on (\<lambda>p. the (map_of memo p)) (fst ` set memo)" and "(\<lambda>p. the (map_of memo p)) ` fst ` set memo = snd ` set memo"
proof -
  have "the (map_of memo (fst x)) = snd x" if "x \<in> set memo" for x
    using assms(1) that by (cases x) simp
  then show "(\<lambda>p. the (map_of memo p)) ` fst ` set memo = snd ` set memo" by (force simp: image_iff)
  have "inj_on snd (set memo)" using assms(2) by (simp add: distinct_map)
  with \<open>\<And>x. x \<in> set memo \<Longrightarrow> the (map_of memo (fst x)) = snd x\<close>
  show "inj_on (\<lambda>p. the (map_of memo p)) (fst ` set memo)" by (auto simp: inj_on_def)
qed

lemma memo_arrays:
  assumes ok: "memo_ok rmm d ids sel memo d'" and wf: "dev_wf rmm d"
    and sp: "slots_placed count ids mu memo rin 0 [0..<length (columns rin)] rout'"
    and dom: "fst ` set memo \<subseteq> row_id_arrays rin [0..<length (columns rin)]"
  shows "fst ` set memo = shared_arrays rin"
proof
  have null: "cells d nullptr = None" using wf by (auto simp: dev_wf_def pool_wf_def)
  note entry = memo_ok_entry [OF ok]
  show "fst ` set memo \<subseteq> shared_arrays rin"
  proof
    fix p assume p: "p \<in> fst ` set memo"
    with dom obtain i c where "i < length (columns rin)" "column_at rin i = Inr c" "p = row_ids c"
      by (auto simp: row_id_arrays_def)
    moreover from p null have "p \<noteq> nullptr" using entry by fastforce
    ultimately show "p \<in> shared_arrays rin" by (auto simp: shared_arrays_def column_at_Inr_iff in_set_conv_nth)
  qed
  show "shared_arrays rin \<subseteq> fst ` set memo"
  proof
    fix p assume "p \<in> shared_arrays rin"
    then obtain i c where i: "i < length (columns rin)" "columns rin ! i = Some c" and p: "p = row_ids c" "p \<noteq> nullptr"
      by (auto simp: shared_arrays_def in_set_conv_nth)
    have "column_at rin ([0..<length (columns rin)] ! i) = Inr c" using i by (simp add: column_at_Inr_iff)
    with sp i obtain out where "placed count ids mu memo c out" unfolding slots_placed_def by fastforce
    with p show "p \<in> fst ` set memo" by (force simp: placed_def)
  qed
qed

text \<open>C3: selecting rows of a relation composes with the selections already made.  For every column,
  whether its rows were selected before or not and whichever other columns share its row-id array,
  the output column has the same data and stands for the selected rows of the rows the input
  column stood for.  Each shared array is composed once, into an array \<open>new\<close> of its own that all its
  columns share, and the blocks given back to the pool are exactly the shared arrays that the buffer
  manager does not retain; no other block appears or disappears.  Nothing is read after it was freed,
  and the only other outcomes are that the pool is out of memory or that a column type has no size.\<close>

theorem HandleMaterializeRowIDs_composes:
  assumes "dev_wf rmm d" and "cells d ids = Some (RowIds zs)" "ids \<noteq> nullptr"
    and "count \<noteq> 0" "unat count \<le> length zs" "sel = take (unat count) zs"
    and "\<forall>i < length (columns rin). \<exists>c. columns rin ! i = Some c \<and> selectable d ids sel c"
    and "length (columns rout) = length (columns rin)"
    and "HandleMaterializeRowIDs D rmm rin rout count ids mu d = (r, d')"
  shows "r = Inl BadAlloc \<or> (\<exists>msg. r = Inl (InternalException msg)) \<or>
    (\<exists>rout' new. r = Inr rout' \<and> (\<forall>i < length (columns rin). \<exists>c out rows.
       columns rin ! i = Some c \<and> columns rout' ! i = Some out \<and> same_data c out \<and>
       column_row_list d c = Some rows \<and> column_row_list d' out = Some (map (\<lambda>k. rows ! unat k) sel) \<and>
       row_ids out = (if row_ids c = nullptr then ids else new (row_ids c))) \<and>
     inj_on new (shared_arrays rin) \<and>
     live_blocks d' = (live_blocks d - {p \<in> shared_arrays rin. \<not> retained (mgr d) p}) \<union> new ` shared_arrays rin)"
proof -
  let ?cols = "[0..<length (columns rin)]"
  have cols: "\<forall>col \<in> set ?cols. \<exists>c. column_at rin col = Inr c \<and> selectable d ids sel c"
    using assms(7) by (auto simp: column_at_Inr_iff)
  have fit: "0 + length ?cols \<le> length (columns rout)" using assms(8) by simp
  note res = relocate_loop_result [OF memo_ok_start [OF assms(1)] assms(2-6) cols fit
      assms(9) [unfolded HandleMaterializeRowIDs_def]]
  from res show ?thesis
  proof (elim disjE exE conjE)
    fix rout' memo'
    assume r: "r = Inr rout'" and ok: "memo_ok rmm d ids sel memo' d'"
      and sp: "slots_placed count ids mu memo' rin 0 ?cols rout'"
      and dom: "fst ` set memo' \<subseteq> fst ` set [] \<union> row_id_arrays rin ?cols"
    let ?new = "\<lambda>p. the (map_of memo' p)"
    have dist: "distinct (map fst memo')" "distinct (map snd memo')"
      and live: "live_blocks d' = (live_blocks d - {p \<in> fst ` set memo'. \<not> retained (mgr d) p}) \<union> snd ` set memo'"
      using ok by (simp_all add: memo_ok_def)
    have arrays: "fst ` set memo' = shared_arrays rin" using memo_arrays [OF ok assms(1) sp] dom by simp
    have new: "?new p = q" if "(p, q) \<in> set memo'" for p q using dist(1) that by simp
    have rows: "\<forall>i < length (columns rin). \<exists>c out rows.
       columns rin ! i = Some c \<and> columns rout' ! i = Some out \<and> same_data c out \<and>
       column_row_list d c = Some rows \<and> column_row_list d' out = Some (map (\<lambda>k. rows ! unat k) sel)"
      using slots_row_lists [OF sp ok assms(2,3,5,6) cols] by (fastforce simp: column_at_Inr_iff)
    have ids: "row_ids out = (if row_ids c = nullptr then ids else ?new (row_ids c))"
      if i: "i < length (columns rin)" "columns rin ! i = Some c" "columns rout' ! i = Some out" for i c out
    proof -
      have "column_at rin (?cols ! i) = Inr c" using i by (simp add: column_at_Inr_iff)
      with sp i have "placed count ids mu memo' c out" unfolding slots_placed_def by fastforce
      with new show ?thesis by (auto simp: placed_def)
    qed
    have all: "\<forall>i < length (columns rin). \<exists>c out rows.
       columns rin ! i = Some c \<and> columns rout' ! i = Some out \<and> same_data c out \<and>
       column_row_list d c = Some rows \<and> column_row_list d' out = Some (map (\<lambda>k. rows ! unat k) sel) \<and>
       row_ids out = (if row_ids c = nullptr then ids else ?new (row_ids c))"
      using rows ids by blast
    from memo_new_arrays [OF dist] have "inj_on ?new (shared_arrays rin)" "?new ` shared_arrays rin = snd ` set memo'"
      by (simp_all only: arrays)
    with r all live show ?thesis unfolding arrays by (intro disjI2 exI [of _ rout'] exI [of _ ?new] conjI) simp_all
  qed auto
qed

text \<open>The right-hand side of a join.  The build-side columns chosen by \<open>rhs_output_columns\<close> land, in
  order, in the slots from \<open>offset\<close> on, each standing for the matched rows of its build-side rows,
  and no other slot of the output relation is touched.\<close>

theorem HandleMaterializeRowIDsRHS_composes:
  assumes "dev_wf rmm d" and "cells d ids = Some (RowIds zs)" "ids \<noteq> nullptr"
    and "count \<noteq> 0" "unat count \<le> length zs" "sel = take (unat count) zs"
    and "\<forall>col \<in> set rhs. \<exists>c. column_at rin col = Inr c \<and> selectable d ids sel c"
    and "offset + length rhs \<le> length (columns rout)"
    and "HandleMaterializeRowIDsRHS D rmm rin rout rhs offset count ids mu d = (Inr rout', d')"
  shows "(\<forall>k < length rhs. \<exists>c out rows. column_at rin (rhs ! k) = Inr c \<and>
      columns rout' ! (offset + k) = Some out \<and> same_data c out \<and> column_row_list d c = Some rows \<and>
      column_row_list d' out = Some (map (\<lambda>j. rows ! unat j) sel)) \<and>
    (\<forall>j < length (columns rout). j < offset \<or> offset + length rhs \<le> j \<longrightarrow> columns rout' ! j = columns rout ! j)"
proof -
  note res = relocate_loop_result [OF memo_ok_start [OF assms(1)] assms(2-8)
      assms(9) [unfolded HandleMaterializeRowIDsRHS_def]]
  from res obtain memo' where ok: "memo_ok rmm d ids sel memo' d'"
    and sp: "slots_placed count ids mu memo' rin offset rhs rout'"
    and fr: "\<forall>j < length (columns rout). j < offset \<or> offset + length rhs \<le> j \<longrightarrow> columns rout' ! j = columns rout ! j"
    by auto
  show ?thesis using slots_row_lists [OF sp ok assms(2,3,5,6,7)] fr by blast
qed

text \<open>Sample data: a relation of two columns of five and three rows, the first of which has rows
  \<open>[1, 3, 4]\<close> selected already.\<close>

definition sample_device :: "nat device" where
  "sample_device = \<lparr>mgr = snd (customCudaMalloc bump_pool 8 2 False
       (snd (customCudaMalloc bump_pool 8 3 False small_manager))),
     cells = [256 \<mapsto> RowIds [1, 3, 4], 512 \<mapsto> RowIds [2, 0]]\<rparr>"

definition sample_columns :: GPUIntermediateRelation where
  "sample_columns = (GPUIntermediateRelation_new 2)\<lparr>columns := map (\<lambda>(n, p, k). Some
     \<lparr>data_wrapper = \<lparr>dw_type = ColumnType C_INT32, dw_data = 0x20000, dw_size = n, dw_offset = nullptr,
        dw_num_bytes = 4 * n, dw_is_string_data = False, dw_validity_mask = nullptr, dw_mask_bytes = 64\<rparr>,
      row_ids = p, row_id_count = k, column_length = n, is_unique = True\<rparr>)
     [(5, 256, Some 3), (3, nullptr, None)]\<rparr>"

lemma sample_device_wf: "dev_wf bump_pool sample_device"
proof -
  have pool: "pool_wf (mgr sample_device)"
    unfolding sample_device_def device.simps
    by (rule keepsD [OF keeps_customCudaMalloc [OF bump_pool_fresh], OF _ surjective_pairing])
      (rule keepsD [OF keeps_customCudaMalloc [OF bump_pool_fresh], OF _ surjective_pairing],
       simp add: small_manager_def pool_wf_new)
  have "fst ` set (owned (mgr sample_device)) = {256, 512}"
    by code_simp
  then have "dom (cells sample_device) \<subseteq> fst ` set (owned (mgr sample_device))"
    by (auto simp: sample_device_def)
  moreover have "rmm_outside bump_pool (mgr sample_device)"
  proof -
    have "gpuCache (mgr sample_device) = 0x20000" "cpuCache (mgr sample_device) = nullptr"
      by code_simp+
    moreover have "\<not> 0x20000 \<le> p" if "bump_pool live n = Some p" for live n p
      using less_trans [OF bump_pool_below [OF that], of "0x20000"] by (simp add: not_le)
    ultimately show ?thesis by (auto simp: rmm_outside_def in_cache_region_def)
  qed
  ultimately show ?thesis using bump_pool_fresh pool by (auto simp: dev_wf_def)
qed


lemma sample_selectable:
  "\<forall>i < length (columns sample_columns). \<exists>c. columns sample_columns ! i = Some c \<and>
     selectable sample_device 512 [2, 0] c"
  by (simp add: sample_columns_def selectable_def column_row_list_def sample_device_def all_less_two)

lemma sample_rows: "cells sample_device 512 = Some (RowIds [2, 0])"
  by (simp add: sample_device_def)

lemma sample_take: "[2, 0] = take (unat (2 :: u64)) [2, 0 :: u64]"
  by simp

lemma sample_nonzero: "(512 :: u64) \<noteq> 0" "(2 :: u64) \<noteq> 0" "unat (2 :: u64) \<le> length [2, 0 :: u64]"
  by simp_all

lemma sample_slots: "length (columns (GPUIntermediateRelation_new 2)) = length (columns sample_columns)"
  by (simp add: GPUIntermediateRelation_new_def sample_columns_def)

theorem HandleMaterializeRowIDs_composes_witness:
  "\<exists>rout' d' out. HandleMaterializeRowIDs duckdb_documented bump_pool sample_columns
     (GPUIntermediateRelation_new 2) 2 512 True sample_device = (Inr rout', d') \<and>
     columns rout' ! 0 = Some out \<and> column_row_list d' out = Some [4, 1] \<and> live_blocks d' = {512, row_ids out}"
proof -
  let ?m = "HandleMaterializeRowIDs duckdb_documented bump_pool sample_columns
     (GPUIntermediateRelation_new 2) 2 512 True sample_device"
  obtain r d' where m: "?m = (r, d')" by (cases ?m)
  have "case fst ?m of Inr _ \<Rightarrow> True | Inl _ \<Rightarrow> False" by code_simp
  then obtain rout' where r: "r = Inr rout'" using m by (cases r) simp_all
  have len: "0 < length (columns sample_columns)" by (simp add: sample_columns_def)
  have live: "live_blocks sample_device = {256, 512}" "\<not> retained (mgr sample_device) 256" by code_simp+
  have shared: "shared_arrays sample_columns = {256}" by (auto simp: shared_arrays_def sample_columns_def conj_disj_distribL conj_disj_distribR ex_disj_distrib)
  from HandleMaterializeRowIDs_composes [OF sample_device_wf sample_rows sample_nonzero sample_take
      sample_selectable sample_slots m]
  obtain new where all: "\<forall>i < length (columns sample_columns). \<exists>c out rows.
       columns sample_columns ! i = Some c \<and> columns rout' ! i = Some out \<and> same_data c out \<and>
       column_row_list sample_device c = Some rows \<and>
       column_row_list d' out = Some (map (\<lambda>k. rows ! unat k) [2, 0 :: u64]) \<and>
       row_ids out = (if row_ids c = nullptr then 512 else new (row_ids c))"
    and "live_blocks d' = (live_blocks sample_device - {p \<in> shared_arrays sample_columns. \<not> retained (mgr sample_device) p}) \<union>
       new ` shared_arrays sample_columns"
    unfolding r by (elim disjE exE conjE; simp only: sum.distinct sum.inject)
  then have freed: "live_blocks d' = {512, new 256}" unfolding live shared using live(2) by auto
  from all [rule_format, OF len] obtain c out rows where c: "columns sample_columns ! 0 = Some c"
    and out: "columns rout' ! 0 = Some out" and rows: "column_row_list sample_device c = Some rows"
    and res: "column_row_list d' out = Some (map (\<lambda>k. rows ! unat k) [2, 0 :: u64])"
    and new: "row_ids out = (if row_ids c = nullptr then 512 else new (row_ids c))"
    by blast
  from c have "row_ids c = 256" by (auto simp: sample_columns_def)
  moreover from c rows have "rows = [1, 3, 4]"
    by (auto simp: sample_columns_def column_row_list_def sample_device_def)
  ultimately show ?thesis using m r out res new freed by auto
qed

theorem HandleMaterializeRowIDsRHS_composes_witness:
  "\<exists>rout' d' out. HandleMaterializeRowIDsRHS duckdb_documented bump_pool sample_columns
     (GPUIntermediateRelation_new 2) [0] 1 2 512 True sample_device = (Inr rout', d') \<and>
     columns rout' ! 1 = Some out \<and> column_row_list d' out = Some [4, 1] \<and> columns rout' ! 0 = None"
proof -
  let ?m = "HandleMaterializeRowIDsRHS duckdb_documented bump_pool sample_columns
     (GPUIntermediateRelation_new 2) [0] 1 2 512 True sample_device"
  obtain r d' where m: "?m = (r, d')" by (cases ?m)
  have "case fst ?m of Inr _ \<Rightarrow> True | Inl _ \<Rightarrow> False" by code_simp
  then obtain rout' where r: "r = Inr rout'" using m by (cases r) simp_all
  have sel: "\<forall>col \<in> set [0]. \<exists>c. column_at sample_columns col = Inr c \<and> selectable sample_device 512 [2, 0] c"
    using sample_selectable by (auto simp: column_at_Inr_iff sample_columns_def)
  have fit: "1 + length [0] \<le> length (columns (GPUIntermediateRelation_new 2))"
    by (simp add: GPUIntermediateRelation_new_def)
  note res = HandleMaterializeRowIDsRHS_composes [OF sample_device_wf sample_rows sample_nonzero sample_take
      sel fit m [unfolded r]]
  have "0 < length [0 :: nat]" by simp
  from res [THEN conjunct1, rule_format, OF this] obtain c out rows
    where c: "column_at sample_columns ([0] ! 0) = Inr c"
    and out: "columns rout' ! (1 + 0) = Some out" and rows: "column_row_list sample_device c = Some rows"
    and sel_rows: "column_row_list d' out = Some (map (\<lambda>k. rows ! unat k) [2, 0 :: u64])"
    by blast
  have "0 < length (columns (GPUIntermediateRelation_new 2))" by (simp add: GPUIntermediateRelation_new_def)
  from res [THEN conjunct2, rule_format, OF this] have "columns rout' ! 0 = None"
    by (simp add: GPUIntermediateRelation_new_def)
  moreover from c rows have "rows = [1, 3, 4]"
    by (auto simp: sample_columns_def column_row_list_def sample_device_def column_at_Inr_iff)
  ultimately show ?thesis using m r out sel_rows by auto
qed

end
