(* ===== verification/Materialize_Values.thy ===== *)
theory Materialize_Values
  imports Device_Memory
begin

text \<open>
  Gathering the values of a column that carries row ids (\<open>HandleMaterializeExpression\<close> and the
  functions it dispatches to in \<open>src/src/operator/gpu_materialize.cpp\<close>, over the kernels of
  \<open>src/src/cuda/operator/materialize.cu\<close>).  A template parameter is its \<open>sizeof\<close>.  A validity mask
  is the list of its first bits; the padding after the last row is not modelled.  The size of the
  scan's temporary storage, which the CUB library chooses, is the parameter \<open>cub\<close>.
\<close>

section \<open>Fixed-width columns\<close>

definition gather_mask :: "rmm_pool \<Rightarrow> u64 \<Rightarrow> ptr \<Rightarrow> ('v device, ptr) act" where
  "gather_mask rmm result_len vmask =
     (if vmask \<noteq> nullptr then dev_malloc rmm 4 (getMaskBytesSize result_len div 4) else act_return nullptr)"

definition write_mask :: "u64 list \<Rightarrow> ptr \<Rightarrow> ptr \<Rightarrow> ('v device, unit) act" where
  "write_mask zs vmask out_mask =
     (if vmask \<noteq> nullptr then
        act_bind (dev_bits vmask) (\<lambda>bs. act_bind (act_lift (gather bs zs)) (\<lambda>cs.
          dev_write out_mask (Bits cs)))
      else act_return ())"

definition free_mask :: "ptr \<Rightarrow> ('v device, unit) act" where
  "free_mask vmask = (if vmask \<noteq> nullptr then dev_free vmask else act_return ())"

definition materializeExpression ::
  "rmm_pool \<Rightarrow> u64 \<Rightarrow> ptr \<Rightarrow> ptr \<Rightarrow> u64 \<Rightarrow> ptr \<Rightarrow> ('v device, (ptr \<times> ptr) option) act" where
  "materializeExpression rmm w a ids result_len vmask =
     (if result_len = 0 then act_return None
      else act_bind (dev_malloc rmm w result_len) (\<lambda>result.
           act_bind (gather_mask rmm result_len vmask) (\<lambda>out_mask.
           act_bind (dev_vals w a) (\<lambda>xs.
           act_bind (dev_rows ids) (\<lambda>zs0.
           act_bind (act_lift (first_n result_len zs0)) (\<lambda>zs.
           act_bind (act_lift (gather xs zs)) (\<lambda>ys.
           act_bind (dev_write result (Vals w ys)) (\<lambda>_.
           act_bind (write_mask zs vmask out_mask) (\<lambda>_.
           act_bind (dev_free a) (\<lambda>_.
           act_bind (free_mask vmask) (\<lambda>_.
           act_return (Some (result, out_mask)))))))))))))"

text \<open>The test with which both functions recognise an empty column; \<open>None\<close> when it reads an
  uninitialised \<open>row_id_count\<close>.\<close>

definition empty_column :: "GPUColumn \<Rightarrow> bool res" where
  "empty_column c =
     (if dw_data (data_wrapper c) = nullptr \<or> column_length c = 0 then Inr True
      else if row_ids c = nullptr then Inr False
      else case row_id_count c of Some n \<Rightarrow> Inr (n = 0)
           | None \<Rightarrow> Inl (UndefinedBehaviour ''row_id_count is uninitialised''))"

definition ResolveTypeMaterializeExpression ::
  "duckdb_env \<Rightarrow> rmm_pool \<Rightarrow> u64 \<Rightarrow> GPUColumn \<Rightarrow> ('v device, GPUColumn) act" where
  "ResolveTypeMaterializeExpression D rmm w c =
     act_bind (act_lift (empty_column c)) (\<lambda>e.
       let dw = data_wrapper c in
       if e then act_lift (GPUColumn_plain D 0 (dw_type dw) nullptr nullptr)
       else act_bind
         (if row_ids c \<noteq> nullptr then
            (case row_id_count c of
               None \<Rightarrow> act_throw (UndefinedBehaviour ''row_id_count is uninitialised'')
             | Some n \<Rightarrow> act_bind (materializeExpression rmm w (dw_data dw) (row_ids c) n (dw_validity_mask dw))
                 (\<lambda>r. case r of None \<Rightarrow> act_throw (UndefinedBehaviour ''result left unset'')
                      | Some (a, out_mask) \<Rightarrow> act_return (n, a, out_mask)))
          else act_return (column_length c, dw_data dw, dw_validity_mask dw))
         (\<lambda>(n, a, out_mask). act_bind (act_lift (GPUColumn_plain D n (dw_type dw) a out_mask)) (\<lambda>result.
            act_return (result\<lparr>is_unique := is_unique c\<rparr>))))"

section \<open>Strings\<close>

text \<open>The lengths of the selected strings, their exclusive prefix sums (one more entry than there are
  strings) and the copies of the bytes.\<close>

definition string_length_at :: "u64 list \<Rightarrow> u64 \<Rightarrow> u64 res" where
  "string_length_at os i = res_bind (vec_at os (unat (i + 1))) (\<lambda>hi. res_bind (vec_at os (unat i)) (\<lambda>lo. Inr (hi - lo)))"

fun exclusive_sum :: "u64 \<Rightarrow> u64 list \<Rightarrow> u64 list" where
  "exclusive_sum acc [] = []"
| "exclusive_sum acc (x # xs) = acc # exclusive_sum (acc + x) xs"

definition copy_bytes :: "u8 list \<Rightarrow> u64 list \<Rightarrow> u64 \<times> u64 \<Rightarrow> u8 list \<Rightarrow> u8 list res" where
  "copy_bytes data os job result = (case job of (i, dst) \<Rightarrow>
     res_bind (vec_at os (unat i)) (\<lambda>lo. res_bind (string_length_at os i) (\<lambda>len.
       let lo = unat lo; len = unat len; dst = unat dst in
       if lo + len \<le> length data \<and> dst + len \<le> length result
       then Inr (take dst result @ take len (drop lo data) @ drop (dst + len) result)
       else Inl (UndefinedBehaviour ''memcpy out of bounds''))))"

fun copy_all :: "u8 list \<Rightarrow> u64 list \<Rightarrow> (u64 \<times> u64) list \<Rightarrow> u8 list \<Rightarrow> u8 list res" where
  "copy_all data os [] result = Inr result"
| "copy_all data os (job # jobs) result = res_bind (copy_bytes data os job result) (copy_all data os jobs)"

definition materializeString ::
  "rmm_pool \<Rightarrow> (u64 \<Rightarrow> u64) \<Rightarrow> ptr \<Rightarrow> ptr \<Rightarrow> ptr \<Rightarrow> u64 \<Rightarrow> ptr \<Rightarrow> ('v device, (ptr \<times> ptr \<times> u64 \<times> ptr) option) act"
where
  "materializeString rmm cub data offset ids result_len vmask =
     (if result_len = 0 then act_return None
      else act_bind (dev_malloc rmm 8 (result_len + 1)) (\<lambda>temp_len.
           act_bind (dev_malloc rmm 8 (result_len + 1)) (\<lambda>result_offset.
           act_bind (gather_mask rmm result_len vmask) (\<lambda>out_mask.
           act_bind (dev_offsets offset) (\<lambda>os.
           act_bind (dev_rows ids) (\<lambda>zs0.
           act_bind (act_lift (first_n result_len zs0)) (\<lambda>zs.
           act_bind (act_lift (res_mapM (string_length_at os) zs)) (\<lambda>lens.
           act_bind (dev_write temp_len (Offsets (lens @ [0]))) (\<lambda>_.
           act_bind (write_mask zs vmask out_mask) (\<lambda>_.
           act_bind (dev_malloc rmm 1 (cub (result_len + 1))) (\<lambda>temp_storage.
           let sums = exclusive_sum 0 (lens @ [0]); result_bytes = sums ! unat result_len in
           act_bind (dev_write result_offset (Offsets sums)) (\<lambda>_.
           act_bind (dev_host_alloc 8 1) (\<lambda>_.
           act_bind (dev_malloc rmm 1 result_bytes) (\<lambda>result.
           act_bind (dev_bytes data) (\<lambda>bs.
           act_bind (act_lift (copy_all bs os (zip zs sums) (replicate (unat result_bytes) 0))) (\<lambda>cs.
           act_bind (dev_write result (Bytes cs)) (\<lambda>_.
           act_bind (dev_free temp_len) (\<lambda>_.
           act_bind (dev_free temp_storage) (\<lambda>_.
           act_bind (dev_free data) (\<lambda>_.
           act_bind (dev_free offset) (\<lambda>_.
           act_bind (free_mask vmask) (\<lambda>_.
           act_return (Some (result, result_offset, result_bytes, out_mask))))))))))))))))))))))))"

definition ResolveTypeMaterializeString ::
  "duckdb_env \<Rightarrow> rmm_pool \<Rightarrow> (u64 \<Rightarrow> u64) \<Rightarrow> GPUColumn \<Rightarrow> ('v device, GPUColumn) act" where
  "ResolveTypeMaterializeString D rmm cub c =
     act_bind (act_lift (empty_column c)) (\<lambda>e.
       let dw = data_wrapper c in
       if e then act_lift (GPUColumn_string D 0 (dw_type dw) nullptr nullptr 0 (dw_is_string_data dw) nullptr)
       else act_bind
         (if row_ids c \<noteq> nullptr then
            (case row_id_count c of
               None \<Rightarrow> act_throw (UndefinedBehaviour ''row_id_count is uninitialised'')
             | Some n \<Rightarrow> act_bind
                 (materializeString rmm cub (dw_data dw) (dw_offset dw) (row_ids c) n (dw_validity_mask dw))
                 (\<lambda>r. case r of None \<Rightarrow> act_throw (UndefinedBehaviour ''result left unset'')
                      | Some (a, off, nb, out_mask) \<Rightarrow> act_return (n, a, off, nb, out_mask)))
          else act_bind (dev_host_alloc 8 1) (\<lambda>_.
                 act_return (column_length c, dw_data dw, dw_offset dw, dw_num_bytes dw, dw_validity_mask dw)))
         (\<lambda>(n, a, off, nb, out_mask).
            act_bind (act_lift (GPUColumn_string D n (dw_type dw) a off nb (dw_is_string_data dw) out_mask))
              (\<lambda>result. act_return (result\<lparr>is_unique := is_unique c\<rparr>))))"

section \<open>The dispatch\<close>

definition HandleMaterializeExpression ::
  "duckdb_env \<Rightarrow> rmm_pool \<Rightarrow> (u64 \<Rightarrow> u64) \<Rightarrow> GPUColumn \<Rightarrow> ('v device, GPUColumn) act" where
  "HandleMaterializeExpression D rmm cub c = (case ct_id (dw_type (data_wrapper c)) of
     C_INT16 \<Rightarrow> ResolveTypeMaterializeExpression D rmm 2 c
   | C_INT32 \<Rightarrow> ResolveTypeMaterializeExpression D rmm 4 c
   | C_DATE \<Rightarrow> ResolveTypeMaterializeExpression D rmm 4 c
   | C_INT64 \<Rightarrow> ResolveTypeMaterializeExpression D rmm 8 c
   | C_TIMESTAMP_SEC \<Rightarrow> ResolveTypeMaterializeExpression D rmm 8 c
   | C_TIMESTAMP_MS \<Rightarrow> ResolveTypeMaterializeExpression D rmm 8 c
   | C_TIMESTAMP_US \<Rightarrow> ResolveTypeMaterializeExpression D rmm 8 c
   | C_TIMESTAMP_NS \<Rightarrow> ResolveTypeMaterializeExpression D rmm 8 c
   | C_FLOAT32 \<Rightarrow> ResolveTypeMaterializeExpression D rmm 4 c
   | C_FLOAT64 \<Rightarrow> ResolveTypeMaterializeExpression D rmm 8 c
   | C_BOOLEAN \<Rightarrow> ResolveTypeMaterializeExpression D rmm 1 c
   | C_VARCHAR \<Rightarrow> ResolveTypeMaterializeString D rmm cub c
   | C_DECIMAL \<Rightarrow> act_bind (act_lift (getColumnTypeSize D (dw_type (data_wrapper c)))) (\<lambda>sz.
       if sz = 4 then ResolveTypeMaterializeExpression D rmm 4 c
       else if sz = 8 then ResolveTypeMaterializeExpression D rmm 8 c
       else if sz = 16 then ResolveTypeMaterializeExpression D rmm 16 c
       else act_throw (NotImplementedException
         ''Unsupported sirius DECIMAL column type size in `HandleMaterializeExpression`''))
   | C_INT128 \<Rightarrow> act_throw (NotImplementedException
       ''Unsupported sirius column type in `HandleMaterializeExpression`'')
   | C_INVALID \<Rightarrow> act_throw (NotImplementedException
       ''Unsupported sirius column type in `HandleMaterializeExpression`''))"

section \<open>Contents of a column\<close>

text \<open>The values and the validity of the rows a column stands for.\<close>

definition pick :: "'a list \<Rightarrow> nat list \<Rightarrow> 'a list option" where
  "pick xs rows = (if \<forall>i \<in> set rows. i < length xs then Some (map (\<lambda>i. xs ! i) rows) else None)"

definition values_of :: "duckdb_env \<Rightarrow> 'v device \<Rightarrow> GPUColumn \<Rightarrow> 'v list option" where
  "values_of D d c = (case column_row_list d c of None \<Rightarrow> None
     | Some [] \<Rightarrow> Some []
     | Some rows \<Rightarrow> (case cells d (dw_data (data_wrapper c)) of
         Some (Vals w xs) \<Rightarrow> if getColumnTypeSize D (dw_type (data_wrapper c)) = Inr w then pick xs rows else None
       | _ \<Rightarrow> None))"

definition validity_of :: "'v device \<Rightarrow> GPUColumn \<Rightarrow> bool list option" where
  "validity_of d c = (case column_row_list d c of None \<Rightarrow> None
     | Some rows \<Rightarrow>
         if rows = [] \<or> dw_validity_mask (data_wrapper c) = nullptr then Some (map (\<lambda>_. True) rows)
         else (case cells d (dw_validity_mask (data_wrapper c)) of
           Some (Bits bs) \<Rightarrow> pick bs rows | _ \<Rightarrow> None))"


lemma dev_wf_nullptr: "dev_wf rmm d \<Longrightarrow> cells d nullptr = None"
proof -
  assume wf: "dev_wf rmm d"
  then have "nullptr \<notin> fst ` set (owned (mgr d))" by (simp add: dev_wf_def pool_wf_def)
  with wf have "nullptr \<notin> dom (cells d)" by (auto simp: dev_wf_def)
  then show ?thesis by (simp add: domIff)
qed

lemma gather_mask_cases:
  assumes wf: "dev_wf rmm d" and m: "gather_mask rmm n vmask d = (r, d')"
  obtains (refused) "r = Inl BadAlloc"
    | (none) "vmask = nullptr" and "r = Inr nullptr" and "d' = d"
    | (granted) q where "vmask \<noteq> nullptr" and "r = Inr q" and "q \<noteq> nullptr" and "q \<notin> dom (cells d)"
        and "cells d' = (cells d)(q \<mapsto> Uninit)" and "dev_wf rmm d'"
proof (cases "vmask = nullptr")
  case True
  with m have "r = Inr nullptr" "d' = d" by (simp_all add: gather_mask_def act_basic)
  with True show thesis by (rule none)
next
  case False
  with m have "dev_malloc rmm 4 (getMaskBytesSize n div 4) d = (r, d')" by (simp add: gather_mask_def)
  with wf show thesis
  proof (cases rule: dev_malloc_cases)
    case refused
    from refused(1) show thesis by (rule that(1))
  next
    case (granted q)
    with False show thesis by (intro that(3)) simp_all
  qed
qed

lemma write_mask_value:
  assumes "vmask = nullptr \<or> (\<exists>bs. cells d vmask = Some (Bits bs) \<and> (\<forall>i \<in> set zs. unat i < length bs))"
  shows "write_mask zs vmask q d =
    (Inr (), if vmask = nullptr then d else d\<lparr>cells := (cells d)(q \<mapsto>
       (case cells d vmask of Some (Bits bs) \<Rightarrow> Bits (map (\<lambda>i. bs ! unat i) zs) | _ \<Rightarrow> Uninit))\<rparr>)"
  using assms by (auto simp: write_mask_def act_basic act_bind_def dev_bits_def gather_Inr dev_write_def)

lemma free_mask_ok:
  assumes "dev_wf rmm d" and "vmask = nullptr \<or> vmask \<in> dom (cells d)" and "free_mask vmask d = (r, d')"
  shows "r = Inr () \<and> dev_wf rmm d' \<and> (cells d' = cells d \<or> cells d' = (cells d)(vmask := None))"
  using assms dev_free_array [OF assms(1), of vmask] by (auto simp: free_mask_def act_basic split: if_splits)


lemma materializeExpression_cases:
  assumes wf: "dev_wf rmm d" and a: "cells d a = Some (Vals w xs)" and b: "cells d ids = Some (RowIds zs0)"
    and n: "n \<noteq> 0" "unat n \<le> length zs0" "zs = take (unat n) zs0" and range: "\<forall>i \<in> set zs. unat i < length xs"
    and vm: "vmask = nullptr \<or> (\<exists>bs. cells d vmask = Some (Bits bs) \<and> (\<forall>i \<in> set zs. unat i < length bs))"
    and m: "materializeExpression rmm w a ids n vmask d = (r, d')"
  obtains (refused) "r = Inl BadAlloc"
    | (gathered) q om where "r = Inr (Some (q, om))" and "dev_wf rmm d'"
        and "cells d' q = Some (Vals w (map (\<lambda>i. xs ! unat i) zs))"
        and "vmask = nullptr \<and> om = nullptr \<or>
          (\<exists>bs. cells d vmask = Some (Bits bs) \<and> om \<noteq> nullptr \<and> cells d' om = Some (Bits (map (\<lambda>i. bs ! unat i) zs)))"
proof -
  let ?ys = "map (\<lambda>i. xs ! unat i) zs"
  obtain r1 d1 where al: "dev_malloc rmm w n d = (r1, d1)" by (cases "dev_malloc rmm w n d")
  from wf al show thesis
  proof (cases rule: dev_malloc_cases)
    case refused
    with m al n show thesis by (intro that(1)) (simp add: materializeExpression_def act_bind_def)
  next
    case q: (granted q)
    obtain r2 d2 where gm: "gather_mask rmm n vmask d1 = (r2, d2)" by (cases "gather_mask rmm n vmask d1")
    show thesis
    proof (cases "\<exists>om. r2 = Inr om")
      case False
      with q(5) gm have "r2 = Inl BadAlloc" by (cases rule: gather_mask_cases) auto
      with m al q(1) gm n show thesis by (intro that(1)) (simp add: materializeExpression_def act_bind_def)
    next
      case True
      then obtain om where om: "r2 = Inr om" by blast
      have d2: "dev_wf rmm d2 \<and> om \<noteq> q \<and> (vmask = nullptr \<and> om = nullptr \<and> cells d2 = cells d1 \<or>
          vmask \<noteq> nullptr \<and> om \<noteq> nullptr \<and> om \<notin> dom (cells d1) \<and> cells d2 = (cells d1)(om \<mapsto> Uninit))"
        using q(5) gm
      proof (cases rule: gather_mask_cases)
        case none
        with om q(2,5) show ?thesis by simp
      next
        case (granted om')
        moreover from this have "om' \<noteq> q" using q(4) by auto
        ultimately show ?thesis using om by simp
      qed (use om in simp)
      have ptrs: "q \<noteq> a" "q \<noteq> ids" "vmask \<noteq> nullptr \<Longrightarrow> q \<noteq> vmask" "om \<noteq> a" "om \<noteq> ids"
        "vmask \<noteq> nullptr \<Longrightarrow> om \<noteq> vmask" "vmask \<noteq> nullptr \<Longrightarrow> vmask \<noteq> a"
        using q(3,4) a b vm d2 dev_wf_nullptr [OF wf] by auto
      have c2: "cells d2 a = Some (Vals w xs)" "cells d2 ids = Some (RowIds zs0)"
        "vmask \<noteq> nullptr \<Longrightarrow> cells d2 vmask = cells d vmask"
        using a b ptrs d2 q(4) by auto
      have reads: "dev_vals w a d2 = (Inr xs, d2)" "dev_rows ids d2 = (Inr zs0, d2)"
        using c2 by (simp_all add: dev_vals_def dev_rows_def)
      let ?d3 = "d2\<lparr>cells := (cells d2)(q \<mapsto> Vals w ?ys)\<rparr>"
      have "vmask = nullptr \<or> (\<exists>bs. cells ?d3 vmask = Some (Bits bs) \<and> (\<forall>i \<in> set zs. unat i < length bs))"
        using vm c2(3) ptrs(3) by auto
      note wm = write_mask_value [OF this, of om]
      let ?d4 = "snd (write_mask zs vmask om ?d3)"
      have wf3: "dev_wf rmm ?d3" using d2 q(4) by (intro dev_wf_write) auto
      have wf4: "dev_wf rmm ?d4"
        using wf3 d2 by (auto simp: wm dest: dev_wf_write [where p = om])
      obtain r5 d5 where f5: "dev_free a ?d4 = (r5, d5)" by (cases "dev_free a ?d4")
      have "a \<in> dom (cells ?d4)" using c2(1) ptrs(1,4) by (auto simp: wm)
      note fa = dev_free_array [OF wf4 this f5]
      obtain r6 d6 where f6: "free_mask vmask d5 = (r6, d6)" by (cases "free_mask vmask d5")
      have "vmask = nullptr \<or> vmask \<in> dom (cells d5)"
        using fa vm c2(3) ptrs(3,6,7) by (auto simp: wm)
      note fm = free_mask_ok [OF conjunct1 [OF conjunct2 [OF fa]] this f6]
      have run: "materializeExpression rmm w a ids n vmask d = (Inr (Some (q, om)), d6)"
        using n al q(1) gm om reads gather_Inr [OF range] wm f5 fa f6 fm
        by (simp add: materializeExpression_def act_bind_def act_basic dev_write_def)
      have "cells d6 q = Some (Vals w ?ys)"
        using fa fm ptrs(1,3) d2 by (auto simp: wm split: if_splits)
      moreover have "vmask = nullptr \<and> om = nullptr \<or> (\<exists>bs. cells d vmask = Some (Bits bs) \<and> om \<noteq> nullptr \<and>
          cells d6 om = Some (Bits (map (\<lambda>i. bs ! unat i) zs)))"
        using fa fm ptrs c2(3) d2 vm by (auto simp: wm split: if_splits)
      moreover have "r = Inr (Some (q, om))" "d' = d6" using m run by simp_all
      ultimately show thesis using fm by (intro that(2)) simp_all
    qed
  qed
qed


text \<open>A column whose values can be read: its rows lie in its arrays, and a column without rows of its
  own has none selected.\<close>

definition readable :: "duckdb_env \<Rightarrow> 'v device \<Rightarrow> GPUColumn \<Rightarrow> 'v list \<Rightarrow> bool list \<Rightarrow> bool" where
  "readable D d c vs bs \<longleftrightarrow> values_of D d c = Some vs \<and> validity_of d c = Some bs \<and>
     (column_length c = 0 \<longrightarrow> vs = [])"

lemma values_of_length: "values_of D d c = Some vs \<Longrightarrow> column_row_list d c = Some rows \<Longrightarrow> length vs = length rows"
  by (auto simp: values_of_def pick_def split: list.splits option.splits darray.splits if_splits)

text \<open>The materialised form: no row ids, the given values and validity.\<close>

definition materialised ::
  "duckdb_env \<Rightarrow> 'v device \<Rightarrow> GPUColumnType \<Rightarrow> 'v list \<Rightarrow> bool list \<Rightarrow> GPUColumn \<Rightarrow> bool" where
  "materialised D d t vs bs out \<longleftrightarrow> row_ids out = nullptr \<and> dw_type (data_wrapper out) = t \<and>
     unat (column_length out) = length vs \<and> values_of D d out = Some vs \<and> validity_of d out = Some bs"

lemma map_unat_take: "map (\<lambda>i. xs ! i) (map unat zs) = map (\<lambda>i. xs ! unat i) zs"
  by simp

lemma map_nth_upt: "length ys = n \<Longrightarrow> map ((!) ys) [0..<n] = ys"
  using map_nth by blast

lemma pick_all: "length ys = n \<Longrightarrow> pick ys [0..<n] = Some ys"
  by (simp add: pick_def map_nth_upt)

lemma values_of_rows:
  assumes "column_row_list d c = Some rows" and "rows \<noteq> []" and "cells d (dw_data (data_wrapper c)) = Some (Vals w xs)"
    and "getColumnTypeSize D (dw_type (data_wrapper c)) = Inr w"
  shows "values_of D d c = pick xs rows"
  using assms by (cases rows) (simp_all add: values_of_def)

lemma ResolveTypeMaterializeExpression_result:
  assumes wf: "dev_wf rmm d" and w: "getColumnTypeSize D (dw_type (data_wrapper c)) = Inr w"
    and c: "readable D d c vs bs" and m: "ResolveTypeMaterializeExpression D rmm w c d = (r, d')"
  shows "r = Inl BadAlloc \<or> (\<exists>out. r = Inr out \<and> materialised D d' (dw_type (data_wrapper c)) vs bs out)"
proof -
  let ?dw = "data_wrapper c"
  obtain rows where rows: "column_row_list d c = Some rows" and len: "length vs = length rows"
    using c values_of_length by (fastforce simp: readable_def values_of_def split: option.splits)
  have mk: "GPUColumn_plain D n (dw_type ?dw) a om = Inr \<lparr>data_wrapper = \<lparr>dw_type = dw_type ?dw,
       dw_data = a, dw_size = n, dw_offset = nullptr, dw_num_bytes = n * w, dw_is_string_data = False,
       dw_validity_mask = om, dw_mask_bytes = getMaskBytesSize n\<rparr>, row_ids = nullptr, row_id_count = None,
       column_length = n, is_unique = False\<rparr>" for n a om
    using w by (simp add: GPUColumn_plain_Inr)
  show ?thesis
  proof (cases "rows = []")
    case True
    then have "empty_column c = Inr True"
      using rows by (auto simp: empty_column_def column_row_list_def unat_eq_0 split: option.splits darray.splits if_splits)
    moreover have "bs = []" using c rows True by (simp add: readable_def validity_of_def)
    moreover let ?out = "\<lparr>data_wrapper = \<lparr>dw_type = dw_type ?dw, dw_data = nullptr, dw_size = 0,
       dw_offset = nullptr, dw_num_bytes = 0 * w, dw_is_string_data = False, dw_validity_mask = nullptr,
       dw_mask_bytes = getMaskBytesSize 0\<rparr>, row_ids = nullptr, row_id_count = None,
       column_length = 0, is_unique = False\<rparr>"
    have "r = Inr ?out" "d' = d"
      using m \<open>empty_column c = Inr True\<close>
      by (simp_all add: ResolveTypeMaterializeExpression_def act_bind_def act_basic mk)
    ultimately show ?thesis
      using len True by (simp add: materialised_def column_row_list_def values_of_def validity_of_def)
  next
    case ne: False
    then obtain r0 rs where rows_ne: "rows = r0 # rs" by (cases rows) auto
    then obtain xs where xs: "cells d (dw_data ?dw) = Some (Vals w xs)" and vs: "pick xs rows = Some vs"
      using c rows w by (auto simp: readable_def values_of_def split: option.splits darray.splits if_splits)
    have data: "dw_data ?dw \<noteq> nullptr" using xs dev_wf_nullptr [OF wf] by auto
    have cl: "column_length c \<noteq> 0" using c ne len by (auto simp: readable_def)
    show ?thesis
    proof (cases "row_ids c = nullptr")
      case True
      then have e: "empty_column c = Inr False" using data cl by (simp add: empty_column_def)
      let ?out = "\<lparr>data_wrapper = \<lparr>dw_type = dw_type ?dw,
       dw_data = dw_data ?dw, dw_size = column_length c, dw_offset = nullptr, dw_num_bytes = column_length c * w,
       dw_is_string_data = False, dw_validity_mask = dw_validity_mask ?dw,
       dw_mask_bytes = getMaskBytesSize (column_length c)\<rparr>, row_ids = nullptr, row_id_count = None,
       column_length = column_length c, is_unique = is_unique c\<rparr>"
      have "r = Inr ?out" "d' = d"
        using m e True mk [of "column_length c" "dw_data ?dw" "dw_validity_mask ?dw"]
        by (simp_all add: ResolveTypeMaterializeExpression_def act_bind_def act_basic Let_def)
      moreover have "materialised D d (dw_type ?dw) vs bs ?out"
      proof -
        have rl: "column_row_list d ?out = Some rows" and n: "length rows = unat (column_length c)"
          using True rows by (auto simp: column_row_list_def)
        have "values_of D d ?out = values_of D d c" "validity_of d ?out = validity_of d c"
          using rl rows rows_ne xs by (simp_all add: values_of_def validity_of_def)
        with c len n show ?thesis by (simp add: materialised_def readable_def)
      qed
      ultimately show ?thesis by blast
    next
      case late: False
      with rows obtain zs0 and n :: u64 where zs0: "cells d (row_ids c) = Some (RowIds zs0)"
        and n: "row_id_count c = Some n" "unat n \<le> length zs0" and rz: "rows = map unat (take (unat n) zs0)"
        by (auto simp: column_row_list_def split: option.splits darray.splits if_splits)
      let ?zs = "take (unat n) zs0"
      have n0: "n \<noteq> 0" using ne rz by auto
      have e: "empty_column c = Inr False" using late data cl n n0 by (simp add: empty_column_def)
      have range: "\<forall>i \<in> set ?zs. unat i < length xs" using vs rz by (auto simp: pick_def split: if_splits)
      have vm: "dw_validity_mask ?dw = nullptr \<or> (\<exists>ms. cells d (dw_validity_mask ?dw) = Some (Bits ms) \<and>
          (\<forall>i \<in> set ?zs. unat i < length ms))"
        using c rows ne rz by (auto simp: readable_def validity_of_def pick_def
            split: option.splits darray.splits if_splits)
      obtain r1 d1 where mat: "materializeExpression rmm w (dw_data ?dw) (row_ids c) n (dw_validity_mask ?dw) d = (r1, d1)"
        by (cases "materializeExpression rmm w (dw_data ?dw) (row_ids c) n (dw_validity_mask ?dw) d")
      from wf xs zs0 n0 n(2) refl range vm mat show ?thesis
      proof (cases rule: materializeExpression_cases)
        case refused
        with m mat e late n show ?thesis
          by (simp add: ResolveTypeMaterializeExpression_def act_bind_def act_basic Let_def)
      next
        case (gathered q om)
        let ?out = "\<lparr>data_wrapper = \<lparr>dw_type = dw_type ?dw, dw_data = q, dw_size = n, dw_offset = nullptr,
         dw_num_bytes = n * w, dw_is_string_data = False, dw_validity_mask = om,
         dw_mask_bytes = getMaskBytesSize n\<rparr>, row_ids = nullptr, row_id_count = None,
         column_length = n, is_unique = is_unique c\<rparr>"
        have out: "r = Inr ?out" "d' = d1"
          using m mat gathered(1) e late n mk [of n q om]
          by (simp_all add: ResolveTypeMaterializeExpression_def act_bind_def act_basic Let_def)
        have lz: "length ?zs = unat n" using n by simp
        have vs': "vs = map (\<lambda>i. xs ! unat i) ?zs" using vs rz by (auto simp: pick_def split: if_splits)
        have rl: "column_row_list d1 ?out = Some [0..<unat n]" "[0..<unat n] \<noteq> []"
          using n0 by (simp_all add: column_row_list_def unat_gt_0)
        have "values_of D d1 ?out = Some vs"
          using values_of_rows [OF rl, of w vs D] gathered(3) w vs' lz pick_all [of vs "unat n"] by simp
        moreover have "validity_of d1 ?out = Some bs"
          using gathered(4)
        proof (elim disjE exE conjE)
          assume z: "dw_validity_mask ?dw = nullptr" "om = nullptr"
          then have "bs = map (\<lambda>_. True) rows" using c rows by (simp add: readable_def validity_of_def)
          then have "bs = map (\<lambda>_. True) [0..<unat n]" using rz lz by (simp add: map_replicate_const)
          with z rl show ?thesis by (simp add: validity_of_def)
        next
          fix ms assume ms: "cells d (dw_validity_mask ?dw) = Some (Bits ms)" "om \<noteq> nullptr"
            "cells d1 om = Some (Bits (map (\<lambda>i. ms ! unat i) ?zs))"
          then have "dw_validity_mask ?dw \<noteq> nullptr" using dev_wf_nullptr [OF wf] by auto
          then have "bs = map (\<lambda>i. ms ! unat i) ?zs"
            using c rows ne ms(1) rz by (auto simp: readable_def validity_of_def pick_def split: if_splits)
          with ms(2,3) rl lz map_nth_upt [of bs "unat n"] show ?thesis
            by (auto simp: validity_of_def pick_def)
        qed
        ultimately show ?thesis using out vs' lz by (auto simp: materialised_def)
      qed
    qed
  qed
qed


section \<open>The dispatch gathers with the right element size\<close>

lemma HandleMaterializeExpression_result:
  assumes "dev_wf rmm d" and "readable D d c vs bs" and "t = dw_type (data_wrapper c)" "ct_id t \<noteq> C_VARCHAR"
    and "HandleMaterializeExpression D rmm cub c d = (r, d')"
  shows "r = Inl BadAlloc \<or> (\<exists>out. r = Inr out \<and> materialised D d' t vs bs out) \<or>
     (\<exists>msg. r = Inl (NotImplementedException msg) \<and> (ct_id t = C_INT128 \<or> ct_id t = C_INVALID \<or>
        ct_id t = C_DECIMAL \<and> getColumnTypeSize D t = Inr 2)) \<or>
     (\<exists>e. r = Inl e \<and> getColumnTypeSize D t = Inl e)"
proof -
  note res = ResolveTypeMaterializeExpression_result [OF assms(1) _ assms(2)]
  show ?thesis
  proof (cases "ct_id t = C_DECIMAL")
    case False
    then show ?thesis
      using assms(3,4) assms(5) res [of _ r d']
      by (cases "ct_id t") (auto simp add: HandleMaterializeExpression_def act_basic getColumnTypeSize_def)
  next
    case True
    show ?thesis
    proof (cases "getColumnTypeSize D t")
      case (Inl e)
      with assms(3,5) True show ?thesis
        by (simp add: HandleMaterializeExpression_def act_bind_def act_basic)
    next
      case (Inr sz)
      with True have "sz = 2 \<or> sz = 4 \<or> sz = 8 \<or> sz = 16"
        by (auto simp: getColumnTypeSize_def GetDecimalTypeSize_def split: option.splits if_splits)
      with Inr assms(3,5) True res [of _ r d'] show ?thesis
        by (auto simp: HandleMaterializeExpression_def act_bind_def act_basic)
    qed
  qed
qed

section \<open>Properties\<close>

text \<open>C4: gathering a fixed-width column preserves its contents.  For every column type but \<open>VARCHAR\<close>,
  whether or not rows were selected, the result has no row ids, the same type, as many rows as
  were selected, and the same values and the same NULLs; in particular the element size the
  dispatch chooses is the size the type was stored with.  The only other outcomes are lack of
  memory, and the types the dispatch refuses: \<open>INT128\<close>, decimals of two bytes and invalid types.\<close>

theorem HandleMaterializeExpression_contents:
  assumes "dev_wf rmm d" and "readable D d c vs bs" and "t = dw_type (data_wrapper c)" "ct_id t \<noteq> C_VARCHAR"
    and "HandleMaterializeExpression D rmm cub c d = (r, d')"
  shows "r = Inl BadAlloc \<or> (\<exists>out. r = Inr out \<and> materialised D d' t vs bs out) \<or>
     (\<exists>msg. r = Inl (NotImplementedException msg) \<and> (ct_id t = C_INT128 \<or> ct_id t = C_INVALID \<or>
        ct_id t = C_DECIMAL \<and> getColumnTypeSize D t = Inr 2)) \<or>
     (\<exists>e. r = Inl e \<and> getColumnTypeSize D t = Inl e)"
  using assms by (rule HandleMaterializeExpression_result)

text \<open>Sample data: an \<open>INT32\<close> column of four values with a mask, rows \<open>[2, 0]\<close> selected.\<close>

definition value_device :: "nat device" where
  "value_device = \<lparr>mgr = snd (customCudaMalloc bump_pool 8 2 False small_manager),
     cells = [256 \<mapsto> RowIds [2, 0], 0x20000 \<mapsto> Vals 4 [10, 20, 30, 40], 0x20100 \<mapsto> Bits [True, True, False, True]]\<rparr>"

definition value_column :: GPUColumn where
  "value_column = \<lparr>data_wrapper = \<lparr>dw_type = ColumnType C_INT32, dw_data = 0x20000, dw_size = 4,
     dw_offset = nullptr, dw_num_bytes = 16, dw_is_string_data = False, dw_validity_mask = 0x20100,
     dw_mask_bytes = 64\<rparr>, row_ids = 256, row_id_count = Some 2, column_length = 4, is_unique = True\<rparr>"

lemma dev_wf_sample:
  assumes "pool_wf s" and "gpuCache s = 0x20000" and "cpuCache s = nullptr"
    and "dom cs \<subseteq> fst ` set (owned s) \<union> {p. p \<noteq> nullptr \<and> in_cache_region s p}"
  shows "dev_wf bump_pool \<lparr>mgr = s, cells = cs\<rparr>"
proof -
  have "\<not> 0x20000 \<le> p" if "bump_pool live n = Some p" for live n p
    using less_trans [OF bump_pool_below [OF that], of "0x20000"] by (simp add: not_le)
  then have "rmm_outside bump_pool s"
    using assms(2,3) by (auto simp: rmm_outside_def in_cache_region_def)
  with assms(1,4) bump_pool_fresh show ?thesis by (simp add: dev_wf_def)
qed

lemma value_device_wf: "dev_wf bump_pool value_device"
  unfolding value_device_def
proof (rule dev_wf_sample)
  let ?s = "snd (customCudaMalloc bump_pool 8 2 False small_manager)"
  show "pool_wf ?s" "gpuCache ?s = 0x20000" "cpuCache ?s = nullptr"
    by code_simp+
  have "fst ` set (owned ?s) = {256}" "in_cache_region ?s 0x20000" "in_cache_region ?s 0x20100"
    by code_simp+
  then show "dom [256 \<mapsto> RowIds [2, 0], 0x20000 \<mapsto> Vals 4 [10, 20, 30, 40],
      0x20100 \<mapsto> Bits [True, True, False, True]] \<subseteq>
    fst ` set (owned ?s) \<union> {p. p \<noteq> nullptr \<and> in_cache_region ?s p}"
    by auto
qed

theorem HandleMaterializeExpression_contents_witness:
  "\<exists>out d'. HandleMaterializeExpression duckdb_documented bump_pool (\<lambda>n. n) value_column value_device = (Inr out, d') \<and>
     materialised duckdb_documented d' (ColumnType C_INT32) [30, 10] [False, True] out"
proof -
  let ?m = "HandleMaterializeExpression duckdb_documented bump_pool (\<lambda>n. n) value_column value_device"
  have rd: "readable duckdb_documented value_device value_column [30, 10] [False, True]"
    by code_simp
  obtain r d' where m: "?m = (r, d')" by (cases ?m)
  have "case fst ?m of Inr _ \<Rightarrow> True | Inl _ \<Rightarrow> False" by code_simp
  with m obtain out where r: "r = Inr out" by (cases r) simp_all
  have t: "ColumnType C_INT32 = dw_type (data_wrapper value_column)" "ct_id (ColumnType C_INT32) \<noteq> C_VARCHAR"
    by (simp_all add: value_column_def ColumnType_def)
  from HandleMaterializeExpression_contents [OF value_device_wf rd t m [unfolded r]] m r
  show ?thesis by auto
qed

end
