(* ===== verification/Pipelines.thy ===== *)
theory Pipelines
  imports Prelude "HOL-Library.Multiset"
begin

text \<open>
  Pipelines and meta pipelines (\<open>src/src/gpu_pipeline.cpp\<close>, \<open>src/src/gpu_meta_pipeline.cpp\<close>) and the
  \<open>BuildPipelines\<close> methods that cut a physical plan into them (\<open>src/src/gpu_physical_operator.cpp\<close>
  and the operators that override it).  Pipelines and meta pipelines are shared objects, here
  entries of two lists of the build state, named by their index.  A physical operator is referred
  to by \<open>Ref\<close>: its identity, its type and what the code reads of it through a reference.  The
  operator and sink states that \<open>BuildPipelines\<close> resets are never read and left out.
\<close>

section \<open>Operators\<close>

datatype op_type =
    RESULT_COLLECTOR | HASH_JOIN | NESTED_LOOP_JOIN | LEFT_DELIM_JOIN | RIGHT_DELIM_JOIN | CTE
  | DELIM_SCAN | CTE_SCAN | RECURSIVE_CTE_SCAN | COLUMN_DATA_SCAN | TABLE_SCAN
  | POSITIONAL_JOIN | CROSS_PRODUCT | OTHER_TYPE string

datatype JoinType =
    J_INVALID | J_LEFT | J_RIGHT | J_INNER | J_OUTER | J_SEMI | J_ANTI | J_MARK | J_SINGLE
  | J_RIGHT_SEMI | J_RIGHT_ANTI

text \<open>\<open>op_distinct\<close> is the distinct aggregate of a delim join.\<close>

datatype phys_ref =
  Ref (op_id: nat) (op_type: op_type) (op_join_type: JoinType) (op_distinct: "phys_ref option")

text \<open>A plan, by the way \<open>BuildPipelines\<close> treats its root.  The method of the base class tells apart
  a sink (\<open>Breaker\<close>), an operator without children (\<open>Leaf\<close>), with one child (\<open>Streaming\<close>) and with
  several (\<open>Wide\<close>); the other constructors are the operators that override it.\<close>

datatype phys_op =
    Leaf phys_ref
  | Streaming phys_ref phys_op
  | Breaker phys_ref phys_op
  | Wide phys_ref
  | Join phys_ref phys_op phys_op
  | LeftDelimJoin phys_ref phys_op phys_op "nat list"
  | RightDelimJoin phys_ref phys_op phys_ref phys_op "nat list"
  | CommonTable phys_ref phys_op phys_op "nat list"
  | ColumnDataScan phys_ref
  | ResultCollector phys_ref phys_op

section \<open>State\<close>

record gpu_pipeline =
  p_source :: "phys_ref option"
  p_operators :: "phys_ref list"
  p_sink :: "phys_ref option"
  p_dependencies :: "nat list"
  p_parents :: "nat list"
  p_base_batch_index :: u64
  p_ready :: bool

record gpu_meta_pipeline =
  m_sink :: "phys_ref option"
  m_pipelines :: "nat list"
  m_children :: "nat list"
  m_dependencies :: "(nat \<times> nat list) list"
  m_recursive_cte :: bool
  m_next_batch_index :: u64
  m_finish_pipelines :: "nat set"
  m_finish_map :: "nat \<rightharpoonup> nat"

record build_state =
  bs_pipelines :: "gpu_pipeline list"
  bs_metas :: "gpu_meta_pipeline list"
  delim_join_dependencies :: "(nat \<times> nat) list"
  cte_dependencies :: "(nat \<times> nat) list"

abbreviation the_pipeline :: "build_state \<Rightarrow> nat \<Rightarrow> gpu_pipeline" where
  "the_pipeline s i \<equiv> bs_pipelines s ! i"

abbreviation the_meta :: "build_state \<Rightarrow> nat \<Rightarrow> gpu_meta_pipeline" where
  "the_meta s i \<equiv> bs_metas s ! i"

definition on_pipeline :: "nat \<Rightarrow> (gpu_pipeline \<Rightarrow> gpu_pipeline) \<Rightarrow> build_state \<Rightarrow> build_state" where
  "on_pipeline i f s = s\<lparr>bs_pipelines := (bs_pipelines s)[i := f (the_pipeline s i)]\<rparr>"

definition on_meta :: "nat \<Rightarrow> (gpu_meta_pipeline \<Rightarrow> gpu_meta_pipeline) \<Rightarrow> build_state \<Rightarrow> build_state" where
  "on_meta i f s = s\<lparr>bs_metas := (bs_metas s)[i := f (the_meta s i)]\<rparr>"

section \<open>One pipeline\<close>

definition BATCH_INCREMENT :: u64 where
  "BATCH_INCREMENT = 10000000000000"

definition GPUPipeline_new :: gpu_pipeline where
  "GPUPipeline_new = \<lparr>p_source = None, p_operators = [], p_sink = None, p_dependencies = [],
     p_parents = [], p_base_batch_index = 0, p_ready = False\<rparr>"

definition SetPipelineSource :: "nat \<Rightarrow> phys_ref \<Rightarrow> build_state \<Rightarrow> build_state" where
  "SetPipelineSource i r = on_pipeline i (\<lambda>p. p\<lparr>p_source := Some r\<rparr>)"

definition SetPipelineSink :: "nat \<Rightarrow> phys_ref option \<Rightarrow> u64 \<Rightarrow> build_state \<Rightarrow> build_state" where
  "SetPipelineSink i r sink_pipeline_count = on_pipeline i (\<lambda>p. p\<lparr>p_sink := r,
     p_base_batch_index := BATCH_INCREMENT * sink_pipeline_count\<rparr>)"

definition AddPipelineOperator :: "nat \<Rightarrow> phys_ref \<Rightarrow> build_state \<Rightarrow> build_state" where
  "AddPipelineOperator i r = on_pipeline i (\<lambda>p. p\<lparr>p_operators := p_operators p @ [r]\<rparr>)"

definition SetPipelineOperators :: "nat \<Rightarrow> phys_ref list \<Rightarrow> build_state \<Rightarrow> build_state" where
  "SetPipelineOperators i rs = on_pipeline i (\<lambda>p. p\<lparr>p_operators := rs\<rparr>)"

definition AddDependency :: "nat \<Rightarrow> nat \<Rightarrow> build_state \<Rightarrow> build_state" where
  "AddDependency i dep s =
     on_pipeline dep (\<lambda>p. p\<lparr>p_parents := p_parents p @ [i]\<rparr>)
       (on_pipeline i (\<lambda>p. p\<lparr>p_dependencies := p_dependencies p @ [dep]\<rparr>) s)"

definition Pipeline_Ready :: "gpu_pipeline \<Rightarrow> gpu_pipeline" where
  "Pipeline_Ready p = (if p_ready p then p else p\<lparr>p_ready := True, p_operators := rev (p_operators p)\<rparr>)"

definition GetOperators :: "gpu_pipeline \<Rightarrow> phys_ref list res" where
  "GetOperators p = (case p_source p of
     None \<Rightarrow> Inl (UndefinedBehaviour ''null source'')
   | Some src \<Rightarrow> Inr (src # p_operators p @ (case p_sink p of None \<Rightarrow> [] | Some snk \<Rightarrow> [snk])))"

subsection \<open>Batch indexes\<close>

text \<open>\<open>batch_indexes\<close> is a multiset, its first element the minimum.  Both operations hold the lock.\<close>

definition RegisterNewBatchIndex :: "u64 \<Rightarrow> u64 multiset \<Rightarrow> u64 \<times> u64 multiset" where
  "RegisterNewBatchIndex base_batch_index b =
     (let minimum = (if b = {#} then base_batch_index else Min_mset b)
      in (minimum, add_mset minimum b))"

definition UpdateBatchIndex :: "u64 \<Rightarrow> u64 \<Rightarrow> u64 multiset \<Rightarrow> u64 res \<times> u64 multiset" where
  "UpdateBatchIndex old_index new_index b =
     (if b = {#} then (Inl (UndefinedBehaviour ''begin of an empty multiset''), b)
      else if new_index < Min_mset b then
        (Inl (InternalException ''Processing batch index below the previous minimum''), b)
      else if old_index \<notin># b then
        (Inl (InternalException ''Batch index was not found in set of active batch indexes''), b)
      else let b' = add_mset new_index (b - {#old_index#}) in (Inr (Min_mset b'), b'))"

subsection \<open>Order dependence\<close>

datatype OrderPreservationType = NO_ORDER | INSERTION_ORDER | FIXED_ORDER

fun operators_order :: "OrderPreservationType list \<Rightarrow> bool option" where
  "operators_order [] = None"
| "operators_order (ord # ords) =
     (if ord = NO_ORDER then Some False else if ord = FIXED_ORDER then Some True else operators_order ords)"

definition IsOrderDependent ::
  "bool \<Rightarrow> OrderPreservationType option \<Rightarrow> OrderPreservationType list \<Rightarrow> bool option \<Rightarrow> bool" where
  "IsOrderDependent preserve_insertion_order source_order op_orders sink_dependent =
     (if source_order = Some FIXED_ORDER then True
      else if source_order = Some NO_ORDER then False
      else case operators_order op_orders of
        Some r \<Rightarrow> r
      | None \<Rightarrow> (if \<not> preserve_insertion_order then False else sink_dependent = Some True))"

section \<open>Meta pipelines\<close>

definition GetBasePipeline :: "build_state \<Rightarrow> nat \<Rightarrow> nat" where
  "GetBasePipeline s m = m_pipelines (the_meta s m) ! 0"

definition CreatePipeline :: "nat \<Rightarrow> build_state \<Rightarrow> nat \<times> build_state" where
  "CreatePipeline m s =
     (let i = length (bs_pipelines s);
          mp = the_meta s m;
          s1 = s\<lparr>bs_pipelines := bs_pipelines s @ [GPUPipeline_new]\<rparr>;
          s2 = on_meta m (\<lambda>q. q\<lparr>m_pipelines := m_pipelines q @ [i],
                 m_next_batch_index := m_next_batch_index q + 1\<rparr>) s1
      in (i, SetPipelineSink i (m_sink mp) (m_next_batch_index mp) s2))"

definition GPUMetaPipeline_new :: "phys_ref option \<Rightarrow> build_state \<Rightarrow> nat \<times> build_state" where
  "GPUMetaPipeline_new sink s =
     (let k = length (bs_metas s);
          mp = \<lparr>m_sink = sink, m_pipelines = [], m_children = [], m_dependencies = [],
                m_recursive_cte = False, m_next_batch_index = 0,
                m_finish_pipelines = {}, m_finish_map = Map.empty\<rparr>
      in (k, snd (CreatePipeline k (s\<lparr>bs_metas := bs_metas s @ [mp]\<rparr>))))"

definition CreateChildMetaPipeline :: "nat \<Rightarrow> nat \<Rightarrow> phys_ref \<Rightarrow> build_state \<Rightarrow> nat \<times> build_state" where
  "CreateChildMetaPipeline m current op s =
     (case GPUMetaPipeline_new (Some op) s of (k, s1) \<Rightarrow>
        let s2 = on_meta m (\<lambda>q. q\<lparr>m_children := m_children q @ [k]\<rparr>) s1;
            s3 = AddDependency current (GetBasePipeline s2 k) s2
        in (k, on_meta k (\<lambda>q. q\<lparr>m_recursive_cte := m_recursive_cte (the_meta s3 m)\<rparr>) s3))"

definition created_since :: "nat \<Rightarrow> nat \<Rightarrow> bool \<Rightarrow> nat list \<Rightarrow> nat list" where
  "created_since dependant start including ps =
     (let from = dropWhile (\<lambda>p. p \<noteq> start) ps
      in filter (\<lambda>p. p \<noteq> dependant) (if including then from else tl from))"

definition GetDependencies :: "build_state \<Rightarrow> nat \<Rightarrow> nat \<Rightarrow> nat list option" where
  "GetDependencies s m dependant = map_of (m_dependencies (the_meta s m)) dependant"

definition SetRecursiveCTE :: "nat \<Rightarrow> build_state \<Rightarrow> build_state" where
  "SetRecursiveCTE m = on_meta m (\<lambda>q. q\<lparr>m_recursive_cte := True\<rparr>)"

definition AssignNextBatchIndex :: "nat \<Rightarrow> nat \<Rightarrow> build_state \<Rightarrow> build_state" where
  "AssignNextBatchIndex m i s =
     on_meta m (\<lambda>q. q\<lparr>m_next_batch_index := m_next_batch_index q + 1\<rparr>)
       (on_pipeline i (\<lambda>p. p\<lparr>p_base_batch_index := m_next_batch_index (the_meta s m) * BATCH_INCREMENT\<rparr>) s)"

definition AddFinishEvent :: "nat \<Rightarrow> nat \<Rightarrow> build_state \<Rightarrow> build_state" where
  "AddFinishEvent m i = on_meta m (\<lambda>q. q\<lparr>m_finish_pipelines := insert i (m_finish_pipelines q),
     m_finish_map := fold (\<lambda>p g. if g p = None then g(p \<mapsto> i) else g)
       (tl (dropWhile (\<lambda>p. p \<noteq> i) (m_pipelines q))) (m_finish_map q)\<rparr>)"

definition HasFinishEvent :: "build_state \<Rightarrow> nat \<Rightarrow> nat \<Rightarrow> bool" where
  "HasFinishEvent s m i \<longleftrightarrow> i \<in> m_finish_pipelines (the_meta s m)"

definition GetFinishGroup :: "build_state \<Rightarrow> nat \<Rightarrow> nat \<Rightarrow> nat option" where
  "GetFinishGroup s m i = m_finish_map (the_meta s m) i"

definition prepend_dependencies :: "nat \<Rightarrow> nat list \<Rightarrow> (nat \<times> nat list) list \<Rightarrow> (nat \<times> nat list) list" where
  "prepend_dependencies p ds al =
     (case map_of al p of None \<Rightarrow> al @ [(p, ds)]
      | Some old \<Rightarrow> map (\<lambda>(q, xs). if q = p then (q, ds @ xs) else (q, xs)) al)"

definition AddDependenciesFrom :: "nat \<Rightarrow> nat \<Rightarrow> nat \<Rightarrow> bool \<Rightarrow> build_state \<Rightarrow> build_state" where
  "AddDependenciesFrom m dependant start including = on_meta m (\<lambda>q. q\<lparr>m_dependencies :=
     prepend_dependencies dependant (created_since dependant start including (m_pipelines q))
       (m_dependencies q)\<rparr>)"

definition executor_CreateChildPipeline :: "gpu_pipeline \<Rightarrow> phys_ref \<Rightarrow> gpu_pipeline" where
  "executor_CreateChildPipeline current op = GPUPipeline_new\<lparr>p_sink := p_sink current,
     p_source := Some op, p_operators := takeWhile (\<lambda>r. op_id r \<noteq> op_id op) (p_operators current)\<rparr>"

definition CreateChildPipeline :: "nat \<Rightarrow> nat \<Rightarrow> phys_ref \<Rightarrow> nat \<Rightarrow> build_state \<Rightarrow> build_state" where
  "CreateChildPipeline m current op last_pipeline s =
     (let cur = the_pipeline s current;
          i = length (bs_pipelines s);
          child = (executor_CreateChildPipeline cur op)\<lparr>p_base_batch_index := p_base_batch_index cur\<rparr>;
          s1 = s\<lparr>bs_pipelines := bs_pipelines s @ [child]\<rparr>;
          s2 = on_meta m (\<lambda>q. q\<lparr>m_pipelines := m_pipelines q @ [i],
                 m_dependencies := prepend_dependencies i [current] (m_dependencies q)\<rparr>) s1
      in AddDependenciesFrom m i last_pipeline False s2)"

definition CreateUnionPipeline :: "nat \<Rightarrow> nat \<Rightarrow> bool \<Rightarrow> build_state \<Rightarrow> nat \<times> build_state" where
  "CreateUnionPipeline m current order_matters s =
     (case CreatePipeline m s of (i, s1) \<Rightarrow>
        let cur = the_pipeline s1 current;
            s2 = SetPipelineOperators i (p_operators cur) s1;
            s3 = SetPipelineSink i (m_sink (the_meta s2 m)) 0 s2;
            s4 = on_pipeline i (\<lambda>p. p\<lparr>p_dependencies := p_dependencies cur\<rparr>) s3;
            s5 = (case map_of (m_dependencies (the_meta s4 m)) current of None \<Rightarrow> s4
                  | Some ds \<Rightarrow> on_meta m (\<lambda>q. q\<lparr>m_dependencies := prepend_dependencies i ds
                      (m_dependencies q)\<rparr>) s4);
            s6 = (if order_matters then on_meta m (\<lambda>q. q\<lparr>m_dependencies :=
                    (case map_of (m_dependencies q) i of None \<Rightarrow> m_dependencies q @ [(i, [current])]
                     | Some old \<Rightarrow> map (\<lambda>(p, xs). if p = i then (p, xs @ [current]) else (p, xs))
                         (m_dependencies q))\<rparr>) s5 else s5)
        in (i, s6))"

text \<open>\<open>GetMetaPipelines(result, true, false)\<close>: a meta pipeline and its descendants, parents first.  The
  number of meta pipelines bounds the depth.\<close>

fun meta_preorder :: "nat \<Rightarrow> gpu_meta_pipeline list \<Rightarrow> nat \<Rightarrow> nat list" where
  "meta_preorder 0 ms k = []"
| "meta_preorder (Suc fuel) ms k = k # concat (map (meta_preorder fuel ms) (m_children (ms ! k)))"

definition GetMetaPipelines :: "build_state \<Rightarrow> nat \<Rightarrow> bool \<Rightarrow> bool \<Rightarrow> nat list" where
  "GetMetaPipelines s m recursive skip =
     (if skip then [] else [m]) @
     (if recursive then concat (map (meta_preorder (length (bs_metas s)) (bs_metas s)) (m_children (the_meta s m)))
      else [])"

definition GetPipelines :: "build_state \<Rightarrow> nat \<Rightarrow> bool \<Rightarrow> nat list" where
  "GetPipelines s m recursive =
     concat (map (\<lambda>k. m_pipelines (the_meta s k)) (GetMetaPipelines s m recursive False))"

definition Meta_Ready :: "nat \<Rightarrow> build_state \<Rightarrow> build_state" where
  "Meta_Ready m s = fold (\<lambda>i. on_pipeline i Pipeline_Ready) (GetPipelines s m True) s"

section \<open>Building\<close>

text \<open>\<open>PropagatesBuildSide\<close> of DuckDB, and \<open>IsSource\<close> of the two joins.\<close>

definition PropagatesBuildSide :: "JoinType \<Rightarrow> bool" where
  "PropagatesBuildSide j \<longleftrightarrow> j = J_OUTER \<or> j = J_RIGHT \<or> j = J_RIGHT_ANTI \<or> j = J_RIGHT_SEMI"

definition join_IsSource :: "phys_ref \<Rightarrow> bool" where
  "join_IsSource r = (if op_type r = NESTED_LOOP_JOIN then PropagatesBuildSide (op_join_type r) else True)"

text \<open>\<open>BuildJoinPipelines\<close> is a static method of both join classes; \<open>cls\<close> is the \<open>TYPE\<close> of the class whose
  method runs.  A join builds with the method of its own class, and a right delim join always with that
  of \<open>GPUPhysicalHashJoin\<close>.\<close>

definition join_class :: "phys_ref \<Rightarrow> op_type" where
  "join_class r = (if op_type r = NESTED_LOOP_JOIN then NESTED_LOOP_JOIN else HASH_JOIN)"

text \<open>The end of \<open>BuildJoinPipelines\<close>, after both sides are built: the cast to the class is checked.\<close>

definition join_finish :: "op_type \<Rightarrow> phys_ref \<Rightarrow> nat \<Rightarrow> nat \<Rightarrow> nat \<Rightarrow> (build_state, unit) act" where
  "join_finish cls r current m last_pipeline =
     (if op_type r = POSITIONAL_JOIN then act_throw (NotImplementedException ''POSITIONAL_JOIN is not implemented yet'')
      else if op_type r = CROSS_PRODUCT then act_throw (NotImplementedException ''CROSS_PRODUCT is not implemented yet'')
      else if op_type r \<noteq> cls then
        act_throw (InternalException ''Failed to cast physical operator to type - physical operator type mismatch'')
      else if join_IsSource r then act_modify (CreateChildPipeline m current r last_pipeline)
      else act_return ())"

definition act_create_child :: "nat \<Rightarrow> nat \<Rightarrow> phys_ref \<Rightarrow> (build_state, nat) act" where
  "act_create_child m current r s = (case CreateChildMetaPipeline m current r s of (k, t) \<Rightarrow> (Inr k, t))"

definition insert_missing :: "nat \<Rightarrow> nat \<Rightarrow> (nat \<times> nat) list \<Rightarrow> (nat \<times> nat) list" where
  "insert_missing k v al = (if map_of al k = None then al @ [(k, v)] else al)"

definition register_delim_scans :: "nat list \<Rightarrow> nat \<Rightarrow> build_state \<Rightarrow> build_state" where
  "register_delim_scans scans k s = s\<lparr>delim_join_dependencies :=
     fold (\<lambda>scan. insert_missing scan (GetBasePipeline s k)) scans (delim_join_dependencies s)\<rparr>"

definition register_cte_scans :: "nat list \<Rightarrow> nat \<Rightarrow> build_state \<Rightarrow> build_state" where
  "register_cte_scans scans k s = s\<lparr>cte_dependencies :=
     fold (\<lambda>scan. insert_missing scan (GetBasePipeline s k)) scans (cte_dependencies s)\<rparr>"

definition build_column_data_scan :: "phys_ref \<Rightarrow> nat \<Rightarrow> (build_state, unit) act" where
  "build_column_data_scan r current s =
     (if op_type r = DELIM_SCAN then
        (case map_of (delim_join_dependencies s) (op_id r) of
           None \<Rightarrow> (Inl (UndefinedBehaviour ''no delim join of this scan''), s)
         | Some dep \<Rightarrow> (case p_sink (the_pipeline s dep) of
             Some sink \<Rightarrow> (case op_distinct sink of
               Some d \<Rightarrow> (Inr (), SetPipelineSource current d (AddDependency current dep s))
             | None \<Rightarrow> (Inl (UndefinedBehaviour ''sink is not a delim join''), AddDependency current dep s))
           | None \<Rightarrow> (Inl (UndefinedBehaviour ''null sink''), s)))
      else if op_type r = CTE_SCAN then
        (case map_of (cte_dependencies s) (op_id r) of
           None \<Rightarrow> (Inl (UndefinedBehaviour ''no CTE of this scan''), s)
         | Some dep \<Rightarrow> (Inr (), SetPipelineSource current r (AddDependency current dep s)))
      else if op_type r = RECURSIVE_CTE_SCAN then
        (Inl (NotImplementedException ''Recursive CTE scan not implemented for GPU''), s)
      else (Inr (), SetPipelineSource current r s))"

text \<open>\<open>Meta_Build\<close> is \<open>GPUMetaPipeline::Build\<close> for the new child \<open>k\<close>: its operator builds from the last
  pipeline of \<open>k\<close>.  The methods take what they call on the child operators as arguments.\<close>

definition Meta_Build :: "(nat \<Rightarrow> nat \<Rightarrow> (build_state, unit) act) \<Rightarrow> nat \<Rightarrow> (build_state, unit) act" where
  "Meta_Build op k = act_reads (\<lambda>s. last (m_pipelines (the_meta s k))) (\<lambda>b. op b k)"

definition BuildJoinPipelines ::
  "op_type \<Rightarrow> phys_ref \<Rightarrow> nat \<Rightarrow> nat \<Rightarrow> (nat \<Rightarrow> nat \<Rightarrow> (build_state, unit) act) option \<Rightarrow> (build_state, unit) act \<Rightarrow>
   (build_state, unit) act" where
  "BuildJoinPipelines cls r current m build_rhs probe =
     act_bind (act_modify (AddPipelineOperator current r)) (\<lambda>_.
     act_reads (\<lambda>s. last (m_pipelines (the_meta s m))) (\<lambda>last_pipeline.
     act_bind (case build_rhs of None \<Rightarrow> act_return ()
               | Some op \<Rightarrow> act_bind (act_create_child m current r) (Meta_Build op)) (\<lambda>_.
     act_bind probe (\<lambda>_. join_finish cls r current m last_pipeline))))"

definition BuildDelimJoin ::
  "phys_ref \<Rightarrow> nat \<Rightarrow> nat \<Rightarrow> nat list \<Rightarrow> (nat \<Rightarrow> nat \<Rightarrow> (build_state, unit) act) \<Rightarrow> (build_state, unit) act \<Rightarrow>
   (build_state, unit) act" where
  "BuildDelimJoin r current m scans child join =
     act_bind (act_create_child m current r) (\<lambda>k.
     act_bind (Meta_Build child k) (\<lambda>_.
     act_bind (act_modify (register_delim_scans scans k)) (\<lambda>_. join)))"

definition CTE_BuildPipelines ::
  "phys_ref \<Rightarrow> nat \<Rightarrow> nat \<Rightarrow> nat list \<Rightarrow> (nat \<Rightarrow> nat \<Rightarrow> (build_state, unit) act) \<Rightarrow> (build_state, unit) act \<Rightarrow>
   (build_state, unit) act" where
  "CTE_BuildPipelines r current m scans def query =
     act_bind (act_create_child m current r) (\<lambda>k.
     act_bind (Meta_Build def k) (\<lambda>_.
     act_bind (act_modify (register_cte_scans scans k)) (\<lambda>_. query)))"

definition ResultCollector_BuildPipelines ::
  "phys_ref \<Rightarrow> nat \<Rightarrow> nat \<Rightarrow> (nat \<Rightarrow> nat \<Rightarrow> (build_state, unit) act) \<Rightarrow> (build_state, unit) act" where
  "ResultCollector_BuildPipelines r current m plan =
     act_bind (act_modify (SetPipelineSource current r)) (\<lambda>_.
     act_bind (act_create_child m current r) (Meta_Build plan))"

fun BuildPipelines :: "phys_op \<Rightarrow> nat \<Rightarrow> nat \<Rightarrow> (build_state, unit) act" where
  "BuildPipelines (Leaf r) current m = act_modify (SetPipelineSource current r)"
| "BuildPipelines (Streaming r child) current m =
     act_bind (act_modify (AddPipelineOperator current r)) (\<lambda>_. BuildPipelines child current m)"
| "BuildPipelines (Breaker r child) current m =
     act_bind (act_modify (SetPipelineSource current r)) (\<lambda>_.
     act_bind (act_create_child m current r) (Meta_Build (\<lambda>b k. BuildPipelines child b k)))"
| "BuildPipelines (Wide r) current m = act_throw (InternalException ''Operator not supported in BuildPipelines'')"
| "BuildPipelines (Join r probe build) current m =
     BuildJoinPipelines (join_class r) r current m (Some (\<lambda>b k. BuildPipelines build b k)) (BuildPipelines probe current m)"
| "BuildPipelines (LeftDelimJoin r child join scans) current m =
     BuildDelimJoin r current m scans (\<lambda>b k. BuildPipelines child b k) (BuildPipelines join current m)"
| "BuildPipelines (RightDelimJoin r child jr probe scans) current m =
     BuildDelimJoin r current m scans (\<lambda>b k. BuildPipelines child b k)
       (BuildJoinPipelines HASH_JOIN jr current m None (BuildPipelines probe current m))"
| "BuildPipelines (CommonTable r def query scans) current m =
     CTE_BuildPipelines r current m scans (\<lambda>b k. BuildPipelines def b k) (BuildPipelines query current m)"
| "BuildPipelines (ColumnDataScan r) current m = build_column_data_scan r current"
| "BuildPipelines (ResultCollector r plan) current m =
     ResultCollector_BuildPipelines r current m (\<lambda>b k. BuildPipelines plan b k)"

lemmas build_methods = Meta_Build_def BuildJoinPipelines_def BuildDelimJoin_def CTE_BuildPipelines_def
  ResultCollector_BuildPipelines_def

definition build_root :: "phys_op \<Rightarrow> unit res \<times> build_state" where
  "build_root plan =
     (let s0 = \<lparr>bs_pipelines = [], bs_metas = [], delim_join_dependencies = [], cte_dependencies = []\<rparr>;
          (k, s1) = GPUMetaPipeline_new None s0
      in BuildPipelines plan (last (m_pipelines (the_meta s1 k))) k s1)"

section \<open>Batch indexes of running pipeline executors\<close>

text \<open>The calls that several executors of one pipeline make, in the order the lock lets them through.\<close>

inductive batch_run :: "u64 \<Rightarrow> u64 multiset \<Rightarrow> u64 list \<Rightarrow> u64 multiset \<Rightarrow> bool" for base :: u64 where
  none: "batch_run base b [] b"
| register: "RegisterNewBatchIndex base b = (m, b') \<Longrightarrow> batch_run base b' ms b'' \<Longrightarrow> batch_run base b (m # ms) b''"
| update: "UpdateBatchIndex old new b = (Inr m, b') \<Longrightarrow> batch_run base b' ms b'' \<Longrightarrow> batch_run base b (m # ms) b''"

inductive_cases batch_run_NilE [elim!]: "batch_run base b [] b'"

lemma Min_mset_in: "(b :: 'a :: linorder multiset) \<noteq> {#} \<Longrightarrow> Min_mset b \<in># b"
  using Min_in [of "set_mset b"] by simp

lemma Min_mset_le: "x \<in># (b :: 'a :: linorder multiset) \<Longrightarrow> Min_mset b \<le> x"
  by simp

lemma RegisterNewBatchIndex_min:
  assumes "RegisterNewBatchIndex base b = (m, b')"
  shows "b' \<noteq> {#}" and "m = Min_mset b'" and "b \<noteq> {#} \<Longrightarrow> m = Min_mset b"
  using assms Min_mset_in [of b] by (auto simp: RegisterNewBatchIndex_def Let_def min_def split: if_splits)

lemma UpdateBatchIndex_min:
  assumes "UpdateBatchIndex old new b = (Inr m, b')"
  shows "b \<noteq> {#}" and "b' \<noteq> {#}" and "m = Min_mset b'" and "Min_mset b \<le> m"
proof -
  have *: "b \<noteq> {#}" "\<not> new < Min_mset b" "b' = add_mset new (b - {#old#})" "m = Min_mset b'"
    using assms by (auto simp: UpdateBatchIndex_def Let_def split: if_splits)
  have "m \<in># b'" using *(3,4) Min_mset_in [of b'] by simp
  then have "m = new \<or> m \<in># b" using *(3) by (auto dest: in_diffD)
  then show "Min_mset b \<le> m" using *(2) by (auto simp: not_less)
  show "b \<noteq> {#}" "b' \<noteq> {#}" "m = Min_mset b'" using * by simp_all
qed

text \<open>C19: the minimum batch index a pipeline reports never decreases, whatever order its executors
  register and update in; once an executor is registered, the active set is never empty again and
  the last report is its minimum.\<close>

theorem batch_minimum_never_decreases:
  assumes "batch_run base b ms b'"
  shows "sorted ms \<and> (b \<noteq> {#} \<longrightarrow> (\<forall>m \<in> set ms. Min_mset b \<le> m)) \<and>
    (ms \<noteq> [] \<longrightarrow> b' \<noteq> {#} \<and> last ms = Min_mset b')"
  using assms
proof (induction rule: batch_run.induct)
  case (register b m b' ms b'')
  note r = RegisterNewBatchIndex_min [OF register.hyps(1)]
  show ?case using register.IH register.hyps(2) r by (cases "ms = []") auto
next
  case (update old new b m b' ms b'')
  note u = UpdateBatchIndex_min [OF update.hyps(1)]
  show ?case using update.IH update.hyps(2) u(1-3) order_trans [OF u(4)] by (cases "ms = []") auto
qed simp

theorem batch_minimum_never_decreases_witness: "sorted [7 :: u64, 7, 7, 9]"
proof -
  have "batch_run 7 {#} [7, 7, 7, 9] {#9, 12#}"
    by (rule batch_run.register [of _ _ 7 "{#7#}"], simp add: RegisterNewBatchIndex_def,
        rule batch_run.register [of _ _ 7 "{#7, 7#}"], simp add: RegisterNewBatchIndex_def,
        rule batch_run.update [of 7 12 _ 7 "{#7, 12#}"], simp add: UpdateBatchIndex_def,
        rule batch_run.update [of 7 9 _ 9 "{#9, 12#}"], simp add: UpdateBatchIndex_def,
        rule batch_run.none)
  from batch_minimum_never_decreases [OF this] show ?thesis by blast
qed

end
