(* ===== verification/Pipeline_Order.thy ===== *)
theory Pipeline_Order
  imports Pipelines
begin

text \<open>
  What building a plan leaves: the meta pipelines in the order in which the tree walk meets them,
  every pipeline with its source, and an order \<open>L\<close> of the base pipelines in which each comes after
  all it depends on, the order in which their construction finished.  Dependencies do not follow
  the creation order: a meta pipeline depends on its children, created later, and a scan of a
  common table or of a delim join on a pipeline created earlier.
\<close>

section \<open>Well-formed plans\<close>

text \<open>Only the joins have type \<open>HASH_JOIN\<close>; in particular no leaf, no sink and no distinct aggregate.\<close>

definition not_hash_join :: "phys_ref \<Rightarrow> bool" where
  "not_hash_join r \<longleftrightarrow> op_type r \<noteq> HASH_JOIN"

definition distinct_ok :: "phys_ref \<Rightarrow> bool" where
  "distinct_ok r \<longleftrightarrow> (\<forall>d. op_distinct r = Some d \<longrightarrow> not_hash_join d)"

fun plan_ok :: "phys_op \<Rightarrow> bool" where
  "plan_ok (Leaf r) = not_hash_join r"
| "plan_ok (Streaming r c) = plan_ok c"
| "plan_ok (Breaker r c) = (not_hash_join r \<and> plan_ok c)"
| "plan_ok (Wide r) = True"
| "plan_ok (Join r p b) = (plan_ok p \<and> plan_ok b)"
| "plan_ok (LeftDelimJoin r c j ss) = (distinct_ok r \<and> plan_ok c \<and> plan_ok j)"
| "plan_ok (RightDelimJoin r c jr p ss) = (distinct_ok r \<and> plan_ok c \<and> plan_ok p)"
| "plan_ok (CommonTable r d q ss) = (plan_ok d \<and> plan_ok q)"
| "plan_ok (ColumnDataScan r) = not_hash_join r"
| "plan_ok (ResultCollector r p) = (not_hash_join r \<and> plan_ok p)"

section \<open>How a build step changes the state\<close>

text \<open>A pipeline without its list of parents, which later dependants may still extend.\<close>

definition core :: "gpu_pipeline \<Rightarrow> gpu_pipeline" where
  "core p = p\<lparr>p_parents := []\<rparr>"

definition source_ok :: "build_state \<Rightarrow> nat \<Rightarrow> bool" where
  "source_ok s p \<longleftrightarrow> (\<exists>r. p_source (the_pipeline s p) = Some r \<and> not_hash_join r)"

definition base_of :: "build_state \<Rightarrow> nat \<Rightarrow> nat" where
  "base_of s k = hd (m_pipelines (the_meta s k))"

text \<open>The meta pipelines \<open>n0 \<le> k < n1\<close> are complete: their pipelines are new, have sources, are
  shared with no other meta pipeline, and the base pipeline does not start at a hash join.\<close>

definition metas_complete :: "nat \<Rightarrow> nat \<Rightarrow> nat \<Rightarrow> build_state \<Rightarrow> bool" where
  "metas_complete n0 n1 l0 s \<longleftrightarrow> (\<forall>k \<in> {n0..<n1}.
     m_pipelines (the_meta s k) \<noteq> [] \<and> distinct (m_pipelines (the_meta s k)) \<and> source_ok s (base_of s k) \<and>
     (\<forall>p \<in> set (m_pipelines (the_meta s k)). l0 \<le> p \<and> p < length (bs_pipelines s) \<and>
        p_source (the_pipeline s p) \<noteq> None) \<and>
     (\<forall>j \<in> {n0..<n1}. j \<noteq> k \<longrightarrow> set (m_pipelines (the_meta s j)) \<inter> set (m_pipelines (the_meta s k)) = {}))"

definition topological :: "nat set \<Rightarrow> nat list \<Rightarrow> build_state \<Rightarrow> bool" where
  "topological C L s \<longleftrightarrow>
     (\<forall>i < length L. set (p_dependencies (the_pipeline s (L ! i))) \<subseteq> C \<union> set (take i L))"

definition scans_closed :: "nat set \<Rightarrow> build_state \<Rightarrow> bool" where
  "scans_closed C s \<longleftrightarrow> (\<forall>(a, p) \<in> set (delim_join_dependencies s) \<union> set (cte_dependencies s). p \<in> C) \<and>
     (\<forall>(a, p) \<in> set (delim_join_dependencies s). p < length (bs_pipelines s) \<and>
        (\<forall>r. p_sink (the_pipeline s p) = Some r \<longrightarrow> distinct_ok r))"

text \<open>\<open>grows m cur C s t L ps cs ds\<close>: from \<open>s\<close> to \<open>t\<close>, the meta pipeline \<open>m\<close> gained the pipelines \<open>ps\<close>
  and the children \<open>cs\<close>, its pipeline \<open>cur\<close> the dependencies \<open>ds\<close>, and \<open>L\<close> orders the base pipelines
  of the new meta pipelines, given that those in \<open>C\<close> are done.\<close>

definition grows ::
  "nat \<Rightarrow> nat \<Rightarrow> nat set \<Rightarrow> build_state \<Rightarrow> build_state \<Rightarrow> nat list \<Rightarrow> nat list \<Rightarrow> nat list \<Rightarrow> nat list \<Rightarrow> bool" where
  "grows m cur C s t L ps cs ds \<longleftrightarrow>
     (let n0 = length (bs_metas s); n1 = length (bs_metas t);
          l0 = length (bs_pipelines s); l1 = length (bs_pipelines t)
      in n0 \<le> n1 \<and> l0 \<le> l1 \<and>
       (\<forall>k < n0. k \<noteq> m \<longrightarrow> the_meta t k = the_meta s k) \<and>
       m_pipelines (the_meta t m) = m_pipelines (the_meta s m) @ ps \<and>
       m_children (the_meta t m) = m_children (the_meta s m) @ cs \<and>
       (\<forall>f \<ge> n1 - n0. concat (map (meta_preorder f (bs_metas t)) cs) = [n0..<n1]) \<and>
       (\<forall>p < l0. p \<noteq> cur \<longrightarrow> core (the_pipeline t p) = core (the_pipeline s p)) \<and>
       p_sink (the_pipeline t cur) = p_sink (the_pipeline s cur) \<and>
       p_dependencies (the_pipeline t cur) = p_dependencies (the_pipeline s cur) @ ds \<and>
       set ds \<subseteq> C \<union> set L \<and>
       (source_ok t cur \<or> p_source (the_pipeline t cur) = p_source (the_pipeline s cur)) \<and>
       distinct ps \<and> (\<forall>p \<in> set ps. l0 \<le> p \<and> p < l1 \<and> p_source (the_pipeline t p) \<noteq> None) \<and>
       metas_complete n0 n1 l0 t \<and>
       (\<forall>k \<in> {n0..<n1}. set ps \<inter> set (m_pipelines (the_meta t k)) = {}) \<and>
       distinct L \<and> length L = n1 - n0 \<and> set L = base_of t ` {n0..<n1} \<and> topological C L t \<and>
       scans_closed (C \<union> set L) t)"

lemma meta_preorder_cong:
  "\<forall>j \<in> set (meta_preorder f ms k). ms' ! j = ms ! j \<Longrightarrow> meta_preorder f ms' k = meta_preorder f ms k"
proof (induction f arbitrary: k)
  case (Suc f)
  have "ms' ! k = ms ! k" using Suc.prems by simp
  moreover have "meta_preorder f ms' x = meta_preorder f ms x" if "x \<in> set (m_children (ms ! k))" for x
    using Suc.prems that by (intro Suc.IH) auto
  ultimately show ?case by (simp cong: map_cong)
qed simp

lemma preorders_cong:
  assumes "concat (map (meta_preorder f ms) cs) = xs" and "\<forall>j \<in> set xs. ms' ! j = ms ! j"
  shows "concat (map (meta_preorder f ms') cs) = xs"
proof -
  have "meta_preorder f ms' c = meta_preorder f ms c" if "c \<in> set cs" for c
    using assms that by (intro meta_preorder_cong) auto
  with assms(1) show ?thesis by (simp cong: map_cong)
qed

lemma core_fields:
  assumes "core p = core q"
  shows "p_source p = p_source q" "p_sink p = p_sink q" "p_dependencies p = p_dependencies q"
    "p_operators p = p_operators q"
proof -
  have "p_source (core p) = p_source (core q)" "p_sink (core p) = p_sink (core q)"
    "p_dependencies (core p) = p_dependencies (core q)" "p_operators (core p) = p_operators (core q)"
    using assms by simp_all
  then show "p_source p = p_source q" "p_sink p = p_sink q" "p_dependencies p = p_dependencies q"
    "p_operators p = p_operators q" by (simp_all add: core_def)
qed

lemma metas_complete_mono:
  assumes c: "metas_complete n0 n1 l0 s" and l: "length (bs_pipelines s) \<le> length (bs_pipelines t)"
    and k: "\<And>k. n0 \<le> k \<Longrightarrow> k < n1 \<Longrightarrow> the_meta t k = the_meta s k"
    and p: "\<And>p. l0 \<le> p \<Longrightarrow> p < length (bs_pipelines s) \<Longrightarrow> core (the_pipeline t p) = core (the_pipeline s p)"
  shows "metas_complete n0 n1 l0 t"
proof -
  have b: "base_of t k = base_of s k" if "k \<in> {n0..<n1}" for k
    using k that by (simp add: base_of_def)
  have src: "p_source (the_pipeline t p) = p_source (the_pipeline s p)"
    if "l0 \<le> p" "p < length (bs_pipelines s)" for p
    using core_fields(1) [OF p [OF that]] .
  have base_in: "l0 \<le> base_of s k \<and> base_of s k < length (bs_pipelines s)" if "k \<in> {n0..<n1}" for k
    using c that unfolding metas_complete_def base_of_def by (metis hd_in_set)
  have so: "source_ok t (base_of t k)" if "k \<in> {n0..<n1}" for k
    using c that b [OF that] src base_in [OF that] unfolding metas_complete_def source_ok_def by metis
  show ?thesis
    unfolding metas_complete_def
  proof (intro ballI conjI impI)
    fix k assume kk: "k \<in> {n0..<n1}"
    then have eq: "the_meta t k = the_meta s k" using k by simp
    note ck = bspec [OF c [unfolded metas_complete_def] kk]
    show "m_pipelines (the_meta t k) \<noteq> []" "distinct (m_pipelines (the_meta t k))"
      using ck eq by simp_all
    show "source_ok t (base_of t k)" by (rule so [OF kk])
    fix p assume "p \<in> set (m_pipelines (the_meta t k))"
    then have "l0 \<le> p \<and> p < length (bs_pipelines s) \<and> p_source (the_pipeline s p) \<noteq> None"
      using ck eq by simp
    then show "l0 \<le> p" "p < length (bs_pipelines t)" "p_source (the_pipeline t p) \<noteq> None"
      using src l by auto
  next
    fix k j assume "k \<in> {n0..<n1}" "j \<in> {n0..<n1}" "j \<noteq> k"
    then show "set (m_pipelines (the_meta t j)) \<inter> set (m_pipelines (the_meta t k)) = {}"
      using c k unfolding metas_complete_def by simp
  qed
qed

lemma metas_complete_append:
  assumes "metas_complete n0 n1 l0 t" and "metas_complete n1 n2 l1 t" and "l0 \<le> l1"
    and "\<And>k p. n0 \<le> k \<Longrightarrow> k < n1 \<Longrightarrow> p \<in> set (m_pipelines (the_meta t k)) \<Longrightarrow> p < l1"
  shows "metas_complete n0 n2 l0 t"
  unfolding metas_complete_def
proof (intro ballI conjI impI)
  fix k assume "k \<in> {n0..<n2}"
  then consider "k \<in> {n0..<n1}" | "k \<in> {n1..<n2}" by fastforce
  note cases = this
  show "m_pipelines (the_meta t k) \<noteq> []" "distinct (m_pipelines (the_meta t k))" "source_ok t (base_of t k)"
    using cases assms(1,2) unfolding metas_complete_def by (cases; blast)+
  fix p assume "p \<in> set (m_pipelines (the_meta t k))"
  with cases show "l0 \<le> p" "p < length (bs_pipelines t)" "p_source (the_pipeline t p) \<noteq> None"
    using assms(1-3) unfolding metas_complete_def by (cases; fastforce)+
next
  fix k j assume kj: "k \<in> {n0..<n2}" "j \<in> {n0..<n2}" "j \<noteq> k"
  have lo: "p < l1" if "i \<in> {n0..<n1}" "p \<in> set (m_pipelines (the_meta t i))" for i p
    using assms(4) that by auto
  have hi: "l1 \<le> p" if "i \<in> {n1..<n2}" "p \<in> set (m_pipelines (the_meta t i))" for i p
    using assms(2) that unfolding metas_complete_def by blast
  from kj consider "k \<in> {n0..<n1}" "j \<in> {n0..<n1}" | "k \<in> {n1..<n2}" "j \<in> {n1..<n2}"
    | "k \<in> {n0..<n1}" "j \<in> {n1..<n2}" | "k \<in> {n1..<n2}" "j \<in> {n0..<n1}" by fastforce
  then show "set (m_pipelines (the_meta t j)) \<inter> set (m_pipelines (the_meta t k)) = {}"
  proof cases
    case 1
    with assms(1) kj(3) show ?thesis unfolding metas_complete_def by blast
  next
    case 2
    with assms(2) kj(3) show ?thesis unfolding metas_complete_def by blast
  next
    case 3
    with lo hi show ?thesis by (metis disjoint_iff leD)
  next
    case 4
    with lo hi show ?thesis by (metis disjoint_iff leD)
  qed
qed


lemma topological_append:
  assumes "topological C L1 s" and "topological (C \<union> set L1) L2 t"
    and "\<And>p. p \<in> set L1 \<Longrightarrow> p_dependencies (the_pipeline t p) = p_dependencies (the_pipeline s p)"
  shows "topological C (L1 @ L2) t"
  unfolding topological_def
proof (intro allI impI)
  fix i assume i: "i < length (L1 @ L2)"
  show "set (p_dependencies (the_pipeline t ((L1 @ L2) ! i))) \<subseteq> C \<union> set (take i (L1 @ L2))"
  proof (cases "i < length L1")
    case True
    then have "set (p_dependencies (the_pipeline s (L1 ! i))) \<subseteq> C \<union> set (take i L1)"
      using assms(1) by (simp add: topological_def)
    with True assms(3) [of "L1 ! i"] show ?thesis by (simp add: nth_append)
  next
    case False
    then have j: "i - length L1 < length L2" using i by simp
    then have "set (p_dependencies (the_pipeline t (L2 ! (i - length L1)))) \<subseteq>
        (C \<union> set L1) \<union> set (take (i - length L1) L2)"
      using assms(2) by (simp add: topological_def)
    with False show ?thesis by (auto simp: nth_append)
  qed
qed

lemma topological_mono: "topological C L s \<Longrightarrow> C \<subseteq> C' \<Longrightarrow> topological C' L s"
  unfolding topological_def by blast

lemma base_range:
  assumes "metas_complete n0 n1 l0 t" and "k \<in> {n0..<n1}"
  shows "l0 \<le> base_of t k" and "base_of t k < length (bs_pipelines t)"
  using assms unfolding metas_complete_def base_of_def by (metis hd_in_set)+

text \<open>Two consecutive steps.\<close>

lemma grows_trans:
  assumes 1: "grows m cur C s t L ps cs ds" and 2: "grows m cur (C \<union> set L) t u L' ps' cs' ds'"
    and m: "m < length (bs_metas s)" and cur: "cur < length (bs_pipelines s)"
  shows "grows m cur C s u (L @ L') (ps @ ps') (cs @ cs') (ds @ ds')"
proof -
  let ?n0 = "length (bs_metas s)" and ?n1 = "length (bs_metas t)" and ?n2 = "length (bs_metas u)"
  let ?l0 = "length (bs_pipelines s)" and ?l1 = "length (bs_pipelines t)" and ?l2 = "length (bs_pipelines u)"
  note a = 1 [unfolded grows_def Let_def] and b = 2 [unfolded grows_def Let_def]
  have n: "?n0 \<le> ?n1" "?n1 \<le> ?n2" and l: "?l0 \<le> ?l1" "?l1 \<le> ?l2" using a b by simp_all
  have mk: "the_meta u k = the_meta t k" if "k \<in> {?n0..<?n1}" for k
    using b that m by simp
  have mc: "metas_complete ?n0 ?n1 ?l0 t" using a by simp
  have mc': "metas_complete ?n1 ?n2 ?l1 u" using b by simp
  have pk: "core (the_pipeline u p) = core (the_pipeline t p)" if "?l0 \<le> p" "p < ?l1" for p
    using b that cur by simp
  have mcu: "metas_complete ?n0 ?n1 ?l0 u"
    using mc l(2) mk pk by (rule metas_complete_mono) simp_all
  have bases: "base_of u k = base_of t k" if "k \<in> {?n0..<?n1}" for k
    using mk that by (simp add: base_of_def)
  have lo: "p < ?l1" if "k \<in> {?n0..<?n1}" "p \<in> set (m_pipelines (the_meta u k))" for k p
    using mc mk that unfolding metas_complete_def by auto
  have hi: "?l1 \<le> p" if "k \<in> {?n1..<?n2}" "p \<in> set (m_pipelines (the_meta u k))" for k p
    using mc' that unfolding metas_complete_def by blast
  have complete: "metas_complete ?n0 ?n2 ?l0 u"
    using mcu mc' l(1) lo by (rule metas_complete_append) auto
  have ps: "\<forall>p \<in> set ps. ?l0 \<le> p \<and> p < ?l1 \<and> p_source (the_pipeline u p) \<noteq> None"
    using a core_fields(1) [OF pk] by auto
  have ps': "\<forall>p \<in> set ps'. ?l1 \<le> p \<and> p < ?l2 \<and> p_source (the_pipeline u p) \<noteq> None"
    using b by simp
  have setL: "set L = base_of t ` {?n0..<?n1}" "set L' = base_of u ` {?n1..<?n2}" using a b by simp_all
  have split: "{?n0..<?n2} = {?n0..<?n1} \<union> {?n1..<?n2}" using n by auto
  have topo: "topological C (L @ L') u"
  proof (rule topological_append)
    show "topological C L t" "topological (C \<union> set L) L' u" using a b by simp_all
    fix p assume "p \<in> set L"
    then obtain k where "k \<in> {?n0..<?n1}" "p = base_of t k" using setL by auto
    with base_range [OF mc] have "?l0 \<le> p" "p < ?l1" by simp_all
    from core_fields(3) [OF pk [OF this]]
    show "p_dependencies (the_pipeline u p) = p_dependencies (the_pipeline t p)" .
  qed
  have LL: "set L \<subseteq> {?l0..<?l1}" "set L' \<subseteq> {?l1..<?l2}"
    using base_range [OF mc] base_range [OF mc'] setL by auto
  show ?thesis
    unfolding grows_def Let_def
  proof (intro conjI)
    show "?n0 \<le> ?n2" "?l0 \<le> ?l2" using n l by simp_all
    show "\<forall>k < ?n0. k \<noteq> m \<longrightarrow> the_meta u k = the_meta s k" using a b n by simp
    show "m_pipelines (the_meta u m) = m_pipelines (the_meta s m) @ ps @ ps'"
      "m_children (the_meta u m) = m_children (the_meta s m) @ cs @ cs'" using a b by simp_all
    show "\<forall>f \<ge> ?n2 - ?n0. concat (map (meta_preorder f (bs_metas u)) (cs @ cs')) = [?n0..<?n2]"
    proof (intro allI impI)
      fix f assume f: "?n2 - ?n0 \<le> f"
      have "concat (map (meta_preorder f (bs_metas t)) cs) = [?n0..<?n1]" using a f n by simp
      then have "concat (map (meta_preorder f (bs_metas u)) cs) = [?n0..<?n1]"
        by (rule preorders_cong) (simp add: mk)
      moreover have "concat (map (meta_preorder f (bs_metas u)) cs') = [?n1..<?n2]" using b f n by simp
      ultimately show "concat (map (meta_preorder f (bs_metas u)) (cs @ cs')) = [?n0..<?n2]"
        using n upt_add_eq_append [of ?n0 ?n1 "?n2 - ?n1"] by simp
    qed
    show "\<forall>p < ?l0. p \<noteq> cur \<longrightarrow> core (the_pipeline u p) = core (the_pipeline s p)" using a b l by simp
    show "p_sink (the_pipeline u cur) = p_sink (the_pipeline s cur)"
      "p_dependencies (the_pipeline u cur) = p_dependencies (the_pipeline s cur) @ ds @ ds'" using a b by simp_all
    have "set ds \<subseteq> C \<union> set L" using a by (elim conjE) assumption
    moreover have "set ds' \<subseteq> C \<union> set L \<union> set L'" using b by (elim conjE) assumption
    ultimately show "set (ds @ ds') \<subseteq> C \<union> set (L @ L')" by auto
    show "source_ok u cur \<or> p_source (the_pipeline u cur) = p_source (the_pipeline s cur)"
    proof -
      have "source_ok t cur \<or> p_source (the_pipeline t cur) = p_source (the_pipeline s cur)"
        using a by (elim conjE) assumption
      moreover have "source_ok u cur \<or> p_source (the_pipeline u cur) = p_source (the_pipeline t cur)"
        using b by (elim conjE) assumption
      ultimately show ?thesis by (metis source_ok_def)
    qed
    have "distinct ps" "distinct ps'" using a b by simp_all
    moreover have "set ps \<inter> set ps' = {}" using ps ps' by (metis disjoint_iff leD)
    ultimately show "distinct (ps @ ps')" by simp
    show "\<forall>p \<in> set (ps @ ps'). ?l0 \<le> p \<and> p < ?l2 \<and> p_source (the_pipeline u p) \<noteq> None"
      using ps ps' l by auto
    show "metas_complete ?n0 ?n2 ?l0 u" by (rule complete)
    show "\<forall>k \<in> {?n0..<?n2}. set (ps @ ps') \<inter> set (m_pipelines (the_meta u k)) = {}"
    proof
      fix k assume "k \<in> {?n0..<?n2}"
      then consider "k \<in> {?n0..<?n1}" | "k \<in> {?n1..<?n2}" using split by blast
      then show "set (ps @ ps') \<inter> set (m_pipelines (the_meta u k)) = {}"
      proof cases
        case 1
        then have "set ps \<inter> set (m_pipelines (the_meta u k)) = {}" using a mk by simp
        moreover have "set ps' \<inter> set (m_pipelines (the_meta u k)) = {}"
          using ps' lo [OF 1] by (metis disjoint_iff leD)
        ultimately show ?thesis by auto
      next
        case 2
        then have "set ps' \<inter> set (m_pipelines (the_meta u k)) = {}" using b by simp
        moreover have "set ps \<inter> set (m_pipelines (the_meta u k)) = {}"
          using ps hi [OF 2] by (metis disjoint_iff leD)
        ultimately show ?thesis by auto
      qed
    qed
    have "distinct L" "distinct L'" using a b by simp_all
    moreover have "set L \<inter> set L' = {}" using LL ivl_disj_int_two(3) [of ?l0 ?l1 ?l2] by blast
    ultimately show "distinct (L @ L')" by simp
    show "length (L @ L') = ?n2 - ?n0" using a b n by simp
    have "base_of t ` {?n0..<?n1} = base_of u ` {?n0..<?n1}" using bases by (intro image_cong) simp_all
    then show "set (L @ L') = base_of u ` {?n0..<?n2}" using setL split by (simp add: image_Un)
    show "topological C (L @ L') u" by (rule topo)
    have "scans_closed (C \<union> set L \<union> set L') u" using b by (elim conjE) assumption
    then show "scans_closed (C \<union> set (L @ L')) u" by (simp add: Un_assoc)
  qed
qed


lemma growsD:
  assumes "grows m cur C s t L ps cs ds"
  shows "length (bs_metas s) \<le> length (bs_metas t)" and "length (bs_pipelines s) \<le> length (bs_pipelines t)"
    and "\<forall>k < length (bs_metas s). k \<noteq> m \<longrightarrow> the_meta t k = the_meta s k"
    and "m_pipelines (the_meta t m) = m_pipelines (the_meta s m) @ ps"
    and "m_children (the_meta t m) = m_children (the_meta s m) @ cs"
    and "\<forall>f \<ge> length (bs_metas t) - length (bs_metas s).
      concat (map (meta_preorder f (bs_metas t)) cs) = [length (bs_metas s)..<length (bs_metas t)]"
    and "\<forall>p < length (bs_pipelines s). p \<noteq> cur \<longrightarrow> core (the_pipeline t p) = core (the_pipeline s p)"
    and "p_sink (the_pipeline t cur) = p_sink (the_pipeline s cur)"
    and "p_dependencies (the_pipeline t cur) = p_dependencies (the_pipeline s cur) @ ds"
    and "set ds \<subseteq> C \<union> set L"
    and "distinct ps" and "\<forall>p \<in> set ps. length (bs_pipelines s) \<le> p \<and> p < length (bs_pipelines t) \<and>
      p_source (the_pipeline t p) \<noteq> None"
    and "metas_complete (length (bs_metas s)) (length (bs_metas t)) (length (bs_pipelines s)) t"
    and "\<forall>k \<in> {length (bs_metas s)..<length (bs_metas t)}. set ps \<inter> set (m_pipelines (the_meta t k)) = {}"
    and "distinct L" and "length L = length (bs_metas t) - length (bs_metas s)"
    and "set L = base_of t ` {length (bs_metas s)..<length (bs_metas t)}" and "topological C L t"
    and "scans_closed (C \<union> set L) t"
  using assms unfolding grows_def Let_def by - (elim conjE, assumption)+

lemma growsI:
  assumes "length (bs_metas s) \<le> length (bs_metas t)" and "length (bs_pipelines s) \<le> length (bs_pipelines t)"
    and "\<forall>k < length (bs_metas s). k \<noteq> m \<longrightarrow> the_meta t k = the_meta s k"
    and "m_pipelines (the_meta t m) = m_pipelines (the_meta s m) @ ps"
    and "m_children (the_meta t m) = m_children (the_meta s m) @ cs"
    and "\<forall>f \<ge> length (bs_metas t) - length (bs_metas s).
      concat (map (meta_preorder f (bs_metas t)) cs) = [length (bs_metas s)..<length (bs_metas t)]"
    and "\<forall>p < length (bs_pipelines s). p \<noteq> cur \<longrightarrow> core (the_pipeline t p) = core (the_pipeline s p)"
    and "p_sink (the_pipeline t cur) = p_sink (the_pipeline s cur)"
    and "p_dependencies (the_pipeline t cur) = p_dependencies (the_pipeline s cur) @ ds"
    and "set ds \<subseteq> C \<union> set L"
    and "source_ok t cur \<or> p_source (the_pipeline t cur) = p_source (the_pipeline s cur)"
    and "distinct ps" and "\<forall>p \<in> set ps. length (bs_pipelines s) \<le> p \<and> p < length (bs_pipelines t) \<and>
      p_source (the_pipeline t p) \<noteq> None"
    and "metas_complete (length (bs_metas s)) (length (bs_metas t)) (length (bs_pipelines s)) t"
    and "\<forall>k \<in> {length (bs_metas s)..<length (bs_metas t)}. set ps \<inter> set (m_pipelines (the_meta t k)) = {}"
    and "distinct L" and "length L = length (bs_metas t) - length (bs_metas s)"
    and "set L = base_of t ` {length (bs_metas s)..<length (bs_metas t)}" and "topological C L t"
    and "scans_closed (C \<union> set L) t"
  shows "grows m cur C s t L ps cs ds"
  using assms unfolding grows_def Let_def by (intro conjI)

lemma grows_keeps_source:
  assumes "grows m cur C s t L ps cs ds" and "source_ok s cur"
  shows "source_ok t cur"
proof -
  have "source_ok t cur \<or> p_source (the_pipeline t cur) = p_source (the_pipeline s cur)"
    using assms(1) unfolding grows_def Let_def by - (elim conjE, assumption)
  with assms(2) show ?thesis unfolding source_ok_def by auto
qed

section \<open>The steps\<close>

text \<open>Changes of the current pipeline that leave its sink alone, with the dependencies they add.\<close>

lemma grows_current:
  assumes cur: "cur < length (bs_pipelines s)" and "bs_metas t = bs_metas s"
    and "length (bs_pipelines t) = length (bs_pipelines s)"
    and "\<forall>p < length (bs_pipelines s). p \<noteq> cur \<longrightarrow> core (the_pipeline t p) = core (the_pipeline s p)"
    and "p_sink (the_pipeline t cur) = p_sink (the_pipeline s cur)"
    and "p_dependencies (the_pipeline t cur) = p_dependencies (the_pipeline s cur) @ ds" and "set ds \<subseteq> C"
    and "source_ok t cur \<or> p_source (the_pipeline t cur) = p_source (the_pipeline s cur)"
    and "scans_closed C t"
  shows "grows m cur C s t [] [] [] ds"
  using assms by (intro growsI) (simp_all add: metas_complete_def topological_def)

lemma scans_closed_frame:
  assumes "scans_closed C s" and "delim_join_dependencies t = delim_join_dependencies s"
    and "cte_dependencies t = cte_dependencies s" and "length (bs_pipelines s) \<le> length (bs_pipelines t)"
    and "\<And>p. p < length (bs_pipelines s) \<Longrightarrow> p_sink (the_pipeline t p) = p_sink (the_pipeline s p)"
  shows "scans_closed C t"
  using assms unfolding scans_closed_def by fastforce

lemma on_pipeline_simps [simp]:
  "bs_metas (on_pipeline i f s) = bs_metas s" "length (bs_pipelines (on_pipeline i f s)) = length (bs_pipelines s)"
  "delim_join_dependencies (on_pipeline i f s) = delim_join_dependencies s"
  "cte_dependencies (on_pipeline i f s) = cte_dependencies s"
  "i < length (bs_pipelines s) \<Longrightarrow> the_pipeline (on_pipeline i f s) i = f (the_pipeline s i)"
  "p \<noteq> i \<Longrightarrow> the_pipeline (on_pipeline i f s) p = the_pipeline s p"
  by (simp_all add: on_pipeline_def)

lemma grows_operator:
  assumes "cur < length (bs_pipelines s)" and "scans_closed C s"
  shows "grows m cur C s (AddPipelineOperator cur r s) [] [] [] []"
  using assms(1)
proof (rule grows_current)
  show "scans_closed C (AddPipelineOperator cur r s)"
    using assms(2) by (rule scans_closed_frame)
      (simp_all add: AddPipelineOperator_def on_pipeline_def nth_list_update assms(1))
qed (use assms in \<open>simp_all add: AddPipelineOperator_def source_ok_def\<close>)

lemma grows_source:
  assumes "cur < length (bs_pipelines s)" and "scans_closed C s" and "not_hash_join r"
  shows "grows m cur C s (SetPipelineSource cur r s) [] [] [] []" and "source_ok (SetPipelineSource cur r s) cur"
proof -
  show src: "source_ok (SetPipelineSource cur r s) cur"
    using assms by (simp add: source_ok_def SetPipelineSource_def)
  show "grows m cur C s (SetPipelineSource cur r s) [] [] [] []"
    using assms(1)
  proof (rule grows_current)
    show "scans_closed C (SetPipelineSource cur r s)"
      using assms(2) by (rule scans_closed_frame)
        (simp_all add: SetPipelineSource_def on_pipeline_def nth_list_update assms(1))
  qed (use assms src in \<open>simp_all add: SetPipelineSource_def\<close>)
qed

lemma AddDependency_simps:
  assumes "i < length (bs_pipelines s)" and "dep < length (bs_pipelines s)"
  shows "bs_metas (AddDependency i dep s) = bs_metas s"
    and "length (bs_pipelines (AddDependency i dep s)) = length (bs_pipelines s)"
    and "delim_join_dependencies (AddDependency i dep s) = delim_join_dependencies s"
    and "cte_dependencies (AddDependency i dep s) = cte_dependencies s"
    and "p < length (bs_pipelines s) \<Longrightarrow> p \<noteq> i \<Longrightarrow> core (the_pipeline (AddDependency i dep s) p) = core (the_pipeline s p)"
    and "core (the_pipeline (AddDependency i dep s) i) =
      core ((the_pipeline s i)\<lparr>p_dependencies := p_dependencies (the_pipeline s i) @ [dep]\<rparr>)"
  using assms by (simp_all add: AddDependency_def on_pipeline_def core_def nth_list_update)

lemma grows_dependency:
  assumes cur: "cur < length (bs_pipelines s)" and dep: "dep < length (bs_pipelines s)" "dep \<in> C"
    and sc: "scans_closed C s"
  shows "grows m cur C s (AddDependency cur dep s) [] [] [] [dep]"
proof (rule grows_current [OF cur])
  note ad = AddDependency_simps [OF cur dep(1)]
  note cur_core = core_fields [OF ad(6)]
  show "bs_metas (AddDependency cur dep s) = bs_metas s"
    "length (bs_pipelines (AddDependency cur dep s)) = length (bs_pipelines s)"
    by (rule ad(1), rule ad(2))
  show "\<forall>p < length (bs_pipelines s). p \<noteq> cur \<longrightarrow> core (the_pipeline (AddDependency cur dep s) p) = core (the_pipeline s p)"
    using ad(5) by simp
  show "p_sink (the_pipeline (AddDependency cur dep s) cur) = p_sink (the_pipeline s cur)"
    "p_dependencies (the_pipeline (AddDependency cur dep s) cur) = p_dependencies (the_pipeline s cur) @ [dep]"
    "source_ok (AddDependency cur dep s) cur \<or>
      p_source (the_pipeline (AddDependency cur dep s) cur) = p_source (the_pipeline s cur)"
    using cur_core by simp_all
  show "set [dep] \<subseteq> C" using dep by simp
  have "p_sink (the_pipeline (AddDependency cur dep s) p) = p_sink (the_pipeline s p)"
    if "p < length (bs_pipelines s)" for p
    using cur_core(2) core_fields(2) [OF ad(5) [OF that]] by (cases "p = cur") simp_all
  then show "scans_closed C (AddDependency cur dep s)"
    using sc ad by (intro scans_closed_frame [OF sc]) simp_all
qed


text \<open>A new meta pipeline \<open>k\<close> with its base pipeline, on which \<open>cur\<close> depends.\<close>

lemma CreateChildMetaPipeline_result:
  assumes m: "m < length (bs_metas s)" and cur: "cur < length (bs_pipelines s)"
    and c: "CreateChildMetaPipeline m cur r s = (k, t)"
  shows "k = length (bs_metas s)" and "length (bs_metas t) = Suc (length (bs_metas s))"
    and "length (bs_pipelines t) = Suc (length (bs_pipelines s))"
    and "\<forall>j < length (bs_metas s). j \<noteq> m \<longrightarrow> the_meta t j = the_meta s j"
    and "m_pipelines (the_meta t m) = m_pipelines (the_meta s m)"
    and "m_children (the_meta t m) = m_children (the_meta s m) @ [k]"
    and "m_pipelines (the_meta t k) = [length (bs_pipelines s)]" and "m_children (the_meta t k) = []"
    and "\<forall>p < length (bs_pipelines s). p \<noteq> cur \<longrightarrow> core (the_pipeline t p) = core (the_pipeline s p)"
    and "p_sink (the_pipeline t cur) = p_sink (the_pipeline s cur)"
    and "p_source (the_pipeline t cur) = p_source (the_pipeline s cur)"
    and "p_dependencies (the_pipeline t cur) = p_dependencies (the_pipeline s cur) @ [length (bs_pipelines s)]"
    and "p_sink (the_pipeline t (length (bs_pipelines s))) = Some r"
    and "p_dependencies (the_pipeline t (length (bs_pipelines s))) = []"
    and "delim_join_dependencies t = delim_join_dependencies s" and "cte_dependencies t = cte_dependencies s"
  using c m cur
  by (auto simp: CreateChildMetaPipeline_def GPUMetaPipeline_new_def CreatePipeline_def AddDependency_def
      GetBasePipeline_def SetPipelineSink_def on_meta_def on_pipeline_def Let_def nth_append
      list_update_append nth_list_update core_def GPUPipeline_new_def)

lemma grows_child:
  assumes m: "m < length (bs_metas s)" and cur: "cur < length (bs_pipelines s)"
    and c: "CreateChildMetaPipeline m cur r s = (k, s1)"
    and g: "grows k (length (bs_pipelines s)) C s1 t L ps cs ds" and src: "source_ok t (length (bs_pipelines s))"
  shows "grows m cur C s t (L @ [length (bs_pipelines s)]) [] [k] [length (bs_pipelines s)]"
proof -
  let ?b = "length (bs_pipelines s)" and ?n0 = "length (bs_metas s)" and ?n1 = "length (bs_metas t)"
  note cr = CreateChildMetaPipeline_result [OF m cur c]
  note gr = growsD [OF g]
  have k: "k = ?n0" by (rule cr(1))
  have len: "Suc ?n0 \<le> ?n1" "Suc ?b \<le> length (bs_pipelines t)" using gr(1,2) cr(2,3) by simp_all
  have mt: "the_meta t j = the_meta s1 j" if "j < ?n0" for j using gr(3) that cr(2) k by simp
  have pt: "core (the_pipeline t p) = core (the_pipeline s1 p)" if "p < ?b" for p
    using gr(7) that cr(3) by simp
  have kp: "m_pipelines (the_meta t k) = ?b # ps" using gr(4) cr(7) by simp
  have base_k: "base_of t k = ?b" using kp by (simp add: base_of_def)
  have psr: "\<forall>p \<in> set ps. Suc ?b \<le> p \<and> p < length (bs_pipelines t) \<and> p_source (the_pipeline t p) \<noteq> None"
    using gr(12) cr(3) by simp
  have rng: "{?n0..<?n1} = insert k {Suc ?n0..<?n1}" using len k by auto
  have mc: "metas_complete (Suc ?n0) ?n1 (Suc ?b) t" using gr(13) cr(2,3) by simp
  have disj: "\<forall>j \<in> {Suc ?n0..<?n1}. set ps \<inter> set (m_pipelines (the_meta t j)) = {}" using gr(14) cr(2) by simp
  have mck: "metas_complete ?n0 (Suc ?n0) ?b t"
    using kp src base_k psr gr(11) len k by (fastforce simp: metas_complete_def source_ok_def)
  have high: "Suc ?b \<le> p" if "j \<in> {Suc ?n0..<?n1}" "p \<in> set (m_pipelines (the_meta t j))" for j p
    using mc that unfolding metas_complete_def by blast
  have complete: "metas_complete ?n0 ?n1 ?b t"
    unfolding metas_complete_def
  proof (intro ballI conjI impI)
    fix j assume j: "j \<in> {?n0..<?n1}"
    consider "j = k" | "j \<in> {Suc ?n0..<?n1}" using j rng by blast
    note cases = this
    show "m_pipelines (the_meta t j) \<noteq> []" "distinct (m_pipelines (the_meta t j))" "source_ok t (base_of t j)"
      using cases mc mck k unfolding metas_complete_def by (cases; simp)+
    fix p assume "p \<in> set (m_pipelines (the_meta t j))"
    with cases show "?b \<le> p" "p < length (bs_pipelines t)" "p_source (the_pipeline t p) \<noteq> None"
      using mc mck k unfolding metas_complete_def by (cases; fastforce)+
  next
    fix i j assume ij: "i \<in> {?n0..<?n1}" "j \<in> {?n0..<?n1}" "j \<noteq> i"
    have kd: "set (m_pipelines (the_meta t k)) \<inter> set (m_pipelines (the_meta t i)) = {}"
      if "i \<in> {Suc ?n0..<?n1}" for i
      using disj that high [OF that] kp by fastforce
    have "i = k \<or> i \<in> {Suc ?n0..<?n1}" "j = k \<or> j \<in> {Suc ?n0..<?n1}"
      using ij(1,2) unfolding rng by blast+
    with ij(3) consider "i = k" "j \<in> {Suc ?n0..<?n1}" | "j = k" "i \<in> {Suc ?n0..<?n1}"
      | "i \<in> {Suc ?n0..<?n1}" "j \<in> {Suc ?n0..<?n1}" by blast
    then show "set (m_pipelines (the_meta t j)) \<inter> set (m_pipelines (the_meta t i)) = {}"
    proof cases
      case 3
      with mc ij(3) show ?thesis unfolding metas_complete_def by blast
    qed (use kd in blast)+
  qed
  have Lr: "set L \<subseteq> {Suc ?b..<length (bs_pipelines t)}"
    using gr(17) base_range [OF mc] cr(2) by auto
  have depb: "p_dependencies (the_pipeline t ?b) = ds" using gr(9) cr(14) by simp
  show ?thesis
  proof (rule growsI)
    show "?n0 \<le> ?n1" "?b \<le> length (bs_pipelines t)" using len by simp_all
    show "\<forall>j < ?n0. j \<noteq> m \<longrightarrow> the_meta t j = the_meta s j" using mt cr(4) by simp
    show "m_pipelines (the_meta t m) = m_pipelines (the_meta s m) @ []" using mt [OF m] cr(5) by simp
    show "m_children (the_meta t m) = m_children (the_meta s m) @ [k]" using mt [OF m] cr(6) by simp
    show "\<forall>f \<ge> ?n1 - ?n0. concat (map (meta_preorder f (bs_metas t)) [k]) = [?n0..<?n1]"
    proof (intro allI impI)
      fix f assume f: "?n1 - ?n0 \<le> f"
      with len obtain f' where f': "f = Suc f'" "?n1 - Suc ?n0 \<le> f'" by (cases f) auto
      have "m_children (the_meta t k) = cs" using gr(5) cr(8) by simp
      with gr(6) f' cr(2) have "concat (map (meta_preorder f' (bs_metas t)) (m_children (the_meta t k))) = [Suc ?n0..<?n1]"
        by simp
      then show "concat (map (meta_preorder f (bs_metas t)) [k]) = [?n0..<?n1]"
        using f' k len upt_conv_Cons [of ?n0 ?n1] by simp
    qed
    show "\<forall>p < ?b. p \<noteq> cur \<longrightarrow> core (the_pipeline t p) = core (the_pipeline s p)" using pt cr(9) by simp
    show "p_sink (the_pipeline t cur) = p_sink (the_pipeline s cur)"
      "p_dependencies (the_pipeline t cur) = p_dependencies (the_pipeline s cur) @ [?b]"
      "source_ok t cur \<or> p_source (the_pipeline t cur) = p_source (the_pipeline s cur)"
      using core_fields [OF pt [OF cur]] cr(10-12) by simp_all
    show "set [?b] \<subseteq> C \<union> set (L @ [?b])" by simp
    show "metas_complete ?n0 ?n1 ?b t" by (rule complete)
    show "distinct (L @ [?b])" using gr(15) Lr by auto
    show "length (L @ [?b]) = ?n1 - ?n0" using gr(16) cr(2) len by simp
    show "set (L @ [?b]) = base_of t ` {?n0..<?n1}" using gr(17) cr(2) rng base_k by simp
    show "topological C (L @ [?b]) t"
    proof (rule topological_append [OF gr(18)])
      show "topological (C \<union> set L) [?b] t" using gr(10) depb by (simp add: topological_def)
    qed simp
    show "scans_closed (C \<union> set (L @ [?b])) t"
      using gr(19) unfolding scans_closed_def by fastforce
  qed simp_all
qed


text \<open>A child pipeline of a join.\<close>

lemma CreateChildPipeline_result:
  assumes m: "m < length (bs_metas s)" and cur: "cur < length (bs_pipelines s)"
  shows "length (bs_metas (CreateChildPipeline m cur r lp s)) = length (bs_metas s)"
    and "bs_pipelines (CreateChildPipeline m cur r lp s) = bs_pipelines s @
      [(executor_CreateChildPipeline (the_pipeline s cur) r)\<lparr>p_base_batch_index := p_base_batch_index (the_pipeline s cur)\<rparr>]"
    and "\<forall>j. j \<noteq> m \<longrightarrow> the_meta (CreateChildPipeline m cur r lp s) j = the_meta s j"
    and "m_pipelines (the_meta (CreateChildPipeline m cur r lp s) m) = m_pipelines (the_meta s m) @ [length (bs_pipelines s)]"
    and "m_children (the_meta (CreateChildPipeline m cur r lp s) m) = m_children (the_meta s m)"
    and "delim_join_dependencies (CreateChildPipeline m cur r lp s) = delim_join_dependencies s"
    and "cte_dependencies (CreateChildPipeline m cur r lp s) = cte_dependencies s"
  using m by (simp_all add: CreateChildPipeline_def AddDependenciesFrom_def on_meta_def Let_def)

lemma grows_child_pipeline:
  assumes m: "m < length (bs_metas s)" and cur: "cur < length (bs_pipelines s)" and sc: "scans_closed C s"
  shows "grows m cur C s (CreateChildPipeline m cur r lp s) [] [length (bs_pipelines s)] [] []"
proof (rule growsI)
  let ?t = "CreateChildPipeline m cur r lp s"
  note cc = CreateChildPipeline_result [OF m cur, of r lp]
  have old: "the_pipeline ?t p = the_pipeline s p" if "p < length (bs_pipelines s)" for p
    using that by (simp add: cc(2) nth_append)
  have new: "p_source (the_pipeline ?t (length (bs_pipelines s))) = Some r"
    by (simp add: cc(2) executor_CreateChildPipeline_def)
  have len: "length (bs_pipelines ?t) = Suc (length (bs_pipelines s))" by (simp add: cc(2))
  show "\<forall>p \<in> set [length (bs_pipelines s)]. length (bs_pipelines s) \<le> p \<and> p < length (bs_pipelines ?t) \<and>
      p_source (the_pipeline ?t p) \<noteq> None"
    using new len by simp
  show "scans_closed (C \<union> set []) ?t"
    using scans_closed_frame [OF sc cc(6,7)] old len by simp
  show "\<forall>k < length (bs_metas s). k \<noteq> m \<longrightarrow> the_meta ?t k = the_meta s k" using cc(3) by simp
  show "m_pipelines (the_meta ?t m) = m_pipelines (the_meta s m) @ [length (bs_pipelines s)]" by (rule cc(4))
  show "m_children (the_meta ?t m) = m_children (the_meta s m) @ []" by (simp add: cc(5))
  show "\<forall>p < length (bs_pipelines s). p \<noteq> cur \<longrightarrow> core (the_pipeline ?t p) = core (the_pipeline s p)"
    using old by simp
qed (simp_all add: CreateChildPipeline_result(1,2) [OF m cur] nth_append cur metas_complete_def topological_def)

lemma grows_join_finish:
  assumes "m < length (bs_metas s)" and "cur < length (bs_pipelines s)" and "scans_closed C s"
    and "join_finish cls r cur m lp s = (Inr (), t)" and "source_ok s cur"
  shows "\<exists>ps. grows m cur C s t [] ps [] [] \<and> source_ok t cur"
proof (cases "join_IsSource r")
  case True
  then have t: "t = CreateChildPipeline m cur r lp s"
    using assms(4) by (simp add: join_finish_def act_basic split: if_splits)
  have "source_ok t cur"
    using assms(2,5) by (simp add: source_ok_def t CreateChildPipeline_result(2) [OF assms(1,2)] nth_append)
  with grows_child_pipeline [OF assms(1-3)] t show ?thesis by blast
next
  case False
  then have "t = s" using assms(4) by (simp add: join_finish_def act_basic split: if_splits)
  with assms show ?thesis
    by (intro exI [of _ "[]"] conjI grows_current) simp_all
qed

lemma set_insert_missing: "set (fold (\<lambda>scan. insert_missing scan b) scans al) \<subseteq> set al \<union> UNIV \<times> {b}"
proof (induction scans arbitrary: al)
  case (Cons a scans)
  have "set (insert_missing a b al) \<subseteq> set al \<union> UNIV \<times> {b}" by (auto simp: insert_missing_def)
  with Cons.IH [of "insert_missing a b al"] show ?case by simp blast
qed simp

lemma grows_register:
  assumes b: "GetBasePipeline s k \<in> C" "GetBasePipeline s k < length (bs_pipelines s)"
    and sink: "p_sink (the_pipeline s (GetBasePipeline s k)) = Some r" and ok: "distinct_ok r"
    and sc: "scans_closed C s" and cur: "cur < length (bs_pipelines s)"
  shows "grows m cur C s (register_delim_scans scans k s) [] [] [] []"
proof -
  have "scans_closed C (register_delim_scans scans k s)"
    using sc b sink ok set_insert_missing [of "GetBasePipeline s k" scans "delim_join_dependencies s"]
    unfolding scans_closed_def register_delim_scans_def by fastforce
  then show ?thesis by (intro grows_current) (use cur in \<open>simp_all add: register_delim_scans_def\<close>)
qed

lemma grows_register_cte:
  assumes b: "GetBasePipeline s k \<in> C" and sc: "scans_closed C s" and cur: "cur < length (bs_pipelines s)"
  shows "grows m cur C s (register_cte_scans scans k s) [] [] [] []"
proof -
  have "scans_closed C (register_cte_scans scans k s)"
    using sc b set_insert_missing [of "GetBasePipeline s k" scans "cte_dependencies s"]
    unfolding scans_closed_def register_cte_scans_def by fastforce
  then show ?thesis by (intro grows_current) (use cur in \<open>simp_all add: register_cte_scans_def\<close>)
qed

lemma grows_column_data_scan:
  assumes cur: "cur < length (bs_pipelines s)" and sc: "scans_closed C s" and r: "not_hash_join r"
    and C: "\<forall>p \<in> C. p < length (bs_pipelines s)" and m: "m < length (bs_metas s)"
    and b: "build_column_data_scan r cur s = (Inr (), t)"
  shows "\<exists>ds. grows m cur C s t [] [] [] ds \<and> source_ok t cur"
proof -
  have dep: "\<exists>ds. grows m cur C s (SetPipelineSource cur q (AddDependency cur d s)) [] [] [] ds \<and>
      source_ok (SetPipelineSource cur q (AddDependency cur d s)) cur"
    if "d \<in> C" "not_hash_join q" for d q
  proof -
    have d: "d < length (bs_pipelines s)" using C that(1) by blast
    note 1 = grows_dependency [OF cur d that(1) sc]
    note cur' = AddDependency_simps(2) [OF cur d]
    note 2 = grows_source [OF cur [folded cur'] growsD(19) [OF 1] that(2)]
    from grows_trans [OF 1 2(1) m cur] 2(2) show ?thesis by fastforce
  qed
  show ?thesis
  proof (cases "op_type r = DELIM_SCAN")
    case True
    with b obtain d snk q where d: "map_of (delim_join_dependencies s) (op_id r) = Some d"
      and snk: "p_sink (the_pipeline s d) = Some snk" "op_distinct snk = Some q"
      and t: "t = SetPipelineSource cur q (AddDependency cur d s)"
      by (auto simp: build_column_data_scan_def split: option.splits)
    have "(op_id r, d) \<in> set (delim_join_dependencies s)" using d by (rule map_of_SomeD)
    with sc snk have "d \<in> C" "not_hash_join q" unfolding scans_closed_def distinct_ok_def by fastforce+
    from dep [OF this] t show ?thesis by blast
  next
    case nd: False
    show ?thesis
    proof (cases "op_type r = CTE_SCAN")
      case True
      with b nd obtain d where d: "map_of (cte_dependencies s) (op_id r) = Some d"
        and t: "t = SetPipelineSource cur r (AddDependency cur d s)"
        by (auto simp: build_column_data_scan_def split: option.splits)
      have "(op_id r, d) \<in> set (cte_dependencies s)" using d by (rule map_of_SomeD)
      with sc have "d \<in> C" unfolding scans_closed_def by fastforce
      from dep [OF this r] t show ?thesis by blast
    next
      case False
      with b nd have "t = SetPipelineSource cur r s"
        by (auto simp: build_column_data_scan_def split: if_splits)
      with grows_source [OF cur sc r] show ?thesis by blast
    qed
  qed
qed


section \<open>Building a plan\<close>

text \<open>What the induction needs of the state before a build and what it yields.\<close>

definition builds_ok :: "nat \<Rightarrow> nat \<Rightarrow> nat set \<Rightarrow> build_state \<Rightarrow> bool" where
  "builds_ok m cur C s \<longleftrightarrow> m < length (bs_metas s) \<and> cur < length (bs_pipelines s) \<and>
     scans_closed C s \<and> (\<forall>p \<in> C. p < length (bs_pipelines s))"

definition built :: "nat \<Rightarrow> nat \<Rightarrow> nat set \<Rightarrow> build_state \<Rightarrow> build_state \<Rightarrow> bool" where
  "built m cur C s t \<longleftrightarrow> (\<exists>L ps cs ds. grows m cur C s t L ps cs ds) \<and> source_ok t cur"

lemma grows_keeps_ok:
  assumes "builds_ok m cur C s" and "grows m cur C s t L ps cs ds"
  shows "builds_ok m cur (C \<union> set L) t"
proof -
  note g = growsD [OF assms(2)]
  have "\<forall>p \<in> set L. p < length (bs_pipelines t)" using g(17) base_range [OF g(13)] by auto
  then show ?thesis using assms(1) g(1,2,19) by (auto simp: builds_ok_def)
qed

lemma builds_ok_grow_step:
  assumes "builds_ok m cur C s" and "grows m cur C s t L ps cs ds" and "built m cur (C \<union> set L) t u"
  shows "built m cur C s u"
proof -
  from assms(3) obtain L' ps' cs' ds' where "grows m cur (C \<union> set L) t u L' ps' cs' ds'" "source_ok u cur"
    by (auto simp: built_def)
  with grows_trans [OF assms(2)] assms(1) show ?thesis
    unfolding built_def builds_ok_def by blast
qed

text \<open>Building a subplan in a child meta pipeline.\<close>

lemma built_child:
  assumes ok: "builds_ok m cur C s" and c: "CreateChildMetaPipeline m cur r s = (k, s1)"
    and b: "BuildPipelines p (last (m_pipelines (the_meta s1 k))) k s1 = (Inr (), t)"
    and IH: "\<And>cur m C s t. builds_ok m cur C s \<Longrightarrow> BuildPipelines p cur m s = (Inr (), t) \<Longrightarrow> built m cur C s t"
  shows "\<exists>L. grows m cur C s t (L @ [length (bs_pipelines s)]) [] [k] [length (bs_pipelines s)] \<and>
     GetBasePipeline t k = length (bs_pipelines s) \<and>
     p_sink (the_pipeline t (length (bs_pipelines s))) = Some r \<and> length (bs_pipelines s) < length (bs_pipelines t)"
proof -
  let ?b = "length (bs_pipelines s)"
  have m: "m < length (bs_metas s)" and cur: "cur < ?b" and sc: "scans_closed C s"
    and C: "\<forall>p \<in> C. p < ?b" using ok by (simp_all add: builds_ok_def)
  note cr = CreateChildMetaPipeline_result [OF m cur c]
  have sink: "p_sink (the_pipeline s1 p) = p_sink (the_pipeline s p)" if "p < ?b" for p
    using that
  proof (cases "p = cur")
    case False
    with cr(9) that have "core (the_pipeline s1 p) = core (the_pipeline s p)" by blast
    then show ?thesis by (rule core_fields(2))
  qed (simp add: cr(10))
  have "scans_closed C s1" by (rule scans_closed_frame [OF sc cr(15,16)]) (use cr(3) sink in simp_all)
  then have "builds_ok k ?b C s1"
    unfolding builds_ok_def using cr(1-3) C by (intro conjI) (auto intro: less_SucI)
  with IH b cr(7) have "built k ?b C s1 t" by simp
  then obtain L ps cs ds where g: "grows k ?b C s1 t L ps cs ds" and src: "source_ok t ?b"
    by (auto simp: built_def)
  note gr = growsD [OF g]
  have "GetBasePipeline t k = ?b" using gr(4) cr(7) by (simp add: GetBasePipeline_def)
  moreover have "p_sink (the_pipeline t ?b) = Some r" using gr(8) cr(13) by simp
  moreover have "?b < length (bs_pipelines t)" using gr(2) cr(3) by simp
  ultimately show ?thesis using grows_child [OF m cur c g src] by blast
qed

lemma BuildPipelines_built:
  "plan_ok p \<Longrightarrow> builds_ok m cur C s \<Longrightarrow> BuildPipelines p cur m s = (Inr (), t) \<Longrightarrow> built m cur C s t"
proof (induction p arbitrary: m cur C s t)
  case (Leaf r)
  then have "t = SetPipelineSource cur r s" by (simp add: act_basic)
  with Leaf grows_source [where cur = cur and s = s and C = C and r = r] show ?case
    unfolding built_def builds_ok_def plan_ok.simps by blast
next
  case (Streaming r p)
  let ?s1 = "AddPipelineOperator cur r s"
  have g: "grows m cur C s ?s1 [] [] [] []"
    using Streaming.prems(2) by (intro grows_operator) (simp_all add: builds_ok_def)
  have "built m cur (C \<union> set []) ?s1 t"
    using Streaming.prems grows_keeps_ok [OF Streaming.prems(2) g]
    by (intro Streaming.IH) (simp_all add: act_bind_def act_basic)
  with builds_ok_grow_step [OF Streaming.prems(2) g] show ?case by blast
next
  case (Wide r)
  then show ?case by (simp add: act_basic)
next
  case (Breaker r p)
  let ?s1 = "SetPipelineSource cur r s"
  obtain k s2 where c: "CreateChildMetaPipeline m cur r ?s1 = (k, s2)" by fastforce
  have g: "grows m cur C s ?s1 [] [] [] []" "source_ok ?s1 cur"
    using Breaker.prems(1,2) grows_source [where cur = cur and s = s and C = C] by (simp_all add: builds_ok_def)
  note ok1 = grows_keeps_ok [OF Breaker.prems(2) g(1)]
  have b: "BuildPipelines p (last (m_pipelines (the_meta s2 k))) k s2 = (Inr (), t)"
    using Breaker.prems(3) c by (simp add: build_methods act_bind_def act_basic act_create_child_def)
  from built_child [OF ok1 c b Breaker.IH] Breaker.prems(1)
  obtain L where L: "grows m cur (C \<union> set []) ?s1 t (L @ [length (bs_pipelines ?s1)]) [] [k] [length (bs_pipelines ?s1)]"
    by auto
  have "source_ok t cur" by (rule grows_keeps_source [OF L g(2)])
  with L have "built m cur (C \<union> set []) ?s1 t" by (auto simp: built_def)
  with builds_ok_grow_step [OF Breaker.prems(2) g(1)] show ?case by blast
next
  case (ResultCollector r p)
  let ?s1 = "SetPipelineSource cur r s"
  obtain k s2 where c: "CreateChildMetaPipeline m cur r ?s1 = (k, s2)" by fastforce
  have g: "grows m cur C s ?s1 [] [] [] []" "source_ok ?s1 cur"
    using ResultCollector.prems(1,2) grows_source [where cur = cur and s = s and C = C] by (simp_all add: builds_ok_def)
  note ok1 = grows_keeps_ok [OF ResultCollector.prems(2) g(1)]
  have b: "BuildPipelines p (last (m_pipelines (the_meta s2 k))) k s2 = (Inr (), t)"
    using ResultCollector.prems(3) c by (simp add: build_methods act_bind_def act_basic act_create_child_def)
  from built_child [OF ok1 c b ResultCollector.IH] ResultCollector.prems(1)
  obtain L where L: "grows m cur (C \<union> set []) ?s1 t (L @ [length (bs_pipelines ?s1)]) [] [k] [length (bs_pipelines ?s1)]"
    by auto
  have "source_ok t cur" by (rule grows_keeps_source [OF L g(2)])
  with L have "built m cur (C \<union> set []) ?s1 t" by (auto simp: built_def)
  with builds_ok_grow_step [OF ResultCollector.prems(2) g(1)] show ?case by blast
next
  case (ColumnDataScan r)
  then show ?case using grows_column_data_scan [where cur = cur and s = s and C = C and r = r and m = m and t = t]
    unfolding built_def builds_ok_def plan_ok.simps BuildPipelines.simps by blast
next
  case (Join r probe build)
  let ?s1 = "AddPipelineOperator cur r s"
  let ?lp = "last (m_pipelines (the_meta ?s1 m))"
  have g1: "grows m cur C s ?s1 [] [] [] []"
    using Join.prems(2) by (intro grows_operator) (simp_all add: builds_ok_def)
  note ok1 = grows_keeps_ok [OF Join.prems(2) g1]
  obtain k s2 where c: "CreateChildMetaPipeline m cur r ?s1 = (k, s2)" by fastforce
  from Join.prems(3) c obtain s3 s4 where
    b: "BuildPipelines build (last (m_pipelines (the_meta s2 k))) k s2 = (Inr (), s3)"
    and pr: "BuildPipelines probe cur m s3 = (Inr (), s4)" and fin: "join_finish (join_class r) r cur m ?lp s4 = (Inr (), t)"
    by (auto simp: build_methods act_basic act_create_child_def act_bind_eq elim!: act_bind_InrE)
  obtain L where g2: "grows m cur (C \<union> set []) ?s1 s3 L [] [k] [length (bs_pipelines ?s1)]"
    using built_child [OF ok1 c b Join.IH(2)] Join.prems(1) by auto
  note ok3 = grows_keeps_ok [OF ok1 g2]
  have "built m cur (C \<union> set [] \<union> set L) s3 s4" using Join.IH(1) ok3 pr Join.prems(1) by simp
  then obtain L3 ps3 cs3 ds3 where g3: "grows m cur (C \<union> set [] \<union> set L) s3 s4 L3 ps3 cs3 ds3"
    and src: "source_ok s4 cur" by (auto simp: built_def)
  note ok4 = grows_keeps_ok [OF ok3 g3]
  obtain ps4 where "grows m cur (C \<union> set [] \<union> set L \<union> set L3) s4 t [] ps4 [] []" "source_ok t cur"
    using grows_join_finish [OF _ _ _ fin src] ok4 unfolding builds_ok_def by blast
  then have "built m cur (C \<union> set [] \<union> set L \<union> set L3) s4 t" by (auto simp: built_def)
  from builds_ok_grow_step [OF Join.prems(2) g1 builds_ok_grow_step [OF ok1 g2 builds_ok_grow_step [OF ok3 g3 this]]]
  show ?case .
next
  case (LeftDelimJoin r child join scans)
  obtain k s1 where c: "CreateChildMetaPipeline m cur r s = (k, s1)" by fastforce
  from LeftDelimJoin.prems(3) c obtain s2 where
    b: "BuildPipelines child (last (m_pipelines (the_meta s1 k))) k s1 = (Inr (), s2)"
    and j: "BuildPipelines join cur m (register_delim_scans scans k s2) = (Inr (), t)"
    by (auto simp: build_methods act_basic act_create_child_def act_bind_eq elim!: act_bind_InrE)
  let ?b = "length (bs_pipelines s)"
  obtain L where g1: "grows m cur C s s2 (L @ [?b]) [] [k] [?b]" and base: "GetBasePipeline s2 k = ?b"
    "p_sink (the_pipeline s2 ?b) = Some r" "?b < length (bs_pipelines s2)"
    using built_child [OF LeftDelimJoin.prems(2) c b LeftDelimJoin.IH(1)] LeftDelimJoin.prems(1) by auto
  note ok2 = grows_keeps_ok [OF LeftDelimJoin.prems(2) g1]
  have g2: "grows m cur (C \<union> set (L @ [?b])) s2 (register_delim_scans scans k s2) [] [] [] []"
    using base ok2 LeftDelimJoin.prems(1) unfolding builds_ok_def plan_ok.simps
    by (intro grows_register [where r = r]) auto
  note ok3 = grows_keeps_ok [OF ok2 g2]
  have "built m cur (C \<union> set (L @ [?b]) \<union> set []) (register_delim_scans scans k s2) t"
    using LeftDelimJoin.IH(2) ok3 j LeftDelimJoin.prems(1) by simp
  from builds_ok_grow_step [OF LeftDelimJoin.prems(2) g1 builds_ok_grow_step [OF ok2 g2 this]] show ?case .
next
  case (CommonTable r def query scans)
  obtain k s1 where c: "CreateChildMetaPipeline m cur r s = (k, s1)" by fastforce
  from CommonTable.prems(3) c obtain s2 where
    b: "BuildPipelines def (last (m_pipelines (the_meta s1 k))) k s1 = (Inr (), s2)"
    and j: "BuildPipelines query cur m (register_cte_scans scans k s2) = (Inr (), t)"
    by (auto simp: build_methods act_basic act_create_child_def act_bind_eq elim!: act_bind_InrE)
  let ?b = "length (bs_pipelines s)"
  obtain L where g1: "grows m cur C s s2 (L @ [?b]) [] [k] [?b]" and base: "GetBasePipeline s2 k = ?b"
    "p_sink (the_pipeline s2 ?b) = Some r" "?b < length (bs_pipelines s2)"
    using built_child [OF CommonTable.prems(2) c b CommonTable.IH(1)] CommonTable.prems(1) by auto
  note ok2 = grows_keeps_ok [OF CommonTable.prems(2) g1]
  have g2: "grows m cur (C \<union> set (L @ [?b])) s2 (register_cte_scans scans k s2) [] [] [] []"
    using base ok2 by (intro grows_register_cte) (simp_all add: builds_ok_def)
  note ok3 = grows_keeps_ok [OF ok2 g2]
  have "built m cur (C \<union> set (L @ [?b]) \<union> set []) (register_cte_scans scans k s2) t"
    using CommonTable.IH(2) ok3 j CommonTable.prems(1) by simp
  from builds_ok_grow_step [OF CommonTable.prems(2) g1 builds_ok_grow_step [OF ok2 g2 this]] show ?case .
next
  case (RightDelimJoin r child jr probe scans)
  obtain k s1 where c: "CreateChildMetaPipeline m cur r s = (k, s1)" by fastforce
  from RightDelimJoin.prems(3) c obtain s2 s5 where
    b: "BuildPipelines child (last (m_pipelines (the_meta s1 k))) k s1 = (Inr (), s2)"
    and pr: "BuildPipelines probe cur m (AddPipelineOperator cur jr (register_delim_scans scans k s2)) = (Inr (), s5)"
    and fin: "join_finish HASH_JOIN jr cur m (last (m_pipelines (the_meta (AddPipelineOperator cur jr (register_delim_scans scans k s2)) m))) s5 = (Inr (), t)"
    by (auto simp: build_methods act_basic act_create_child_def act_bind_eq elim!: act_bind_InrE)
  let ?b = "length (bs_pipelines s)" and ?s3 = "register_delim_scans scans k s2"
  let ?s4 = "AddPipelineOperator cur jr ?s3"
  obtain L where g1: "grows m cur C s s2 (L @ [?b]) [] [k] [?b]" and base: "GetBasePipeline s2 k = ?b"
    "p_sink (the_pipeline s2 ?b) = Some r" "?b < length (bs_pipelines s2)"
    using built_child [OF RightDelimJoin.prems(2) c b RightDelimJoin.IH(1)] RightDelimJoin.prems(1) by auto
  note ok2 = grows_keeps_ok [OF RightDelimJoin.prems(2) g1]
  have g2: "grows m cur (C \<union> set (L @ [?b])) s2 ?s3 [] [] [] []"
    using base ok2 RightDelimJoin.prems(1) unfolding builds_ok_def plan_ok.simps
    by (intro grows_register [where r = r]) auto
  note ok3 = grows_keeps_ok [OF ok2 g2]
  have g3: "grows m cur (C \<union> set (L @ [?b]) \<union> set []) ?s3 ?s4 [] [] [] []"
    using ok3 by (intro grows_operator) (simp_all add: builds_ok_def)
  note ok4 = grows_keeps_ok [OF ok3 g3]
  have "built m cur (C \<union> set (L @ [?b]) \<union> set [] \<union> set []) ?s4 s5"
    using RightDelimJoin.IH(2) ok4 pr RightDelimJoin.prems(1) by simp
  then obtain L4 ps4 cs4 ds4 where g4: "grows m cur (C \<union> set (L @ [?b]) \<union> set [] \<union> set []) ?s4 s5 L4 ps4 cs4 ds4"
    and src: "source_ok s5 cur" by (auto simp: built_def)
  note ok5 = grows_keeps_ok [OF ok4 g4]
  obtain ps5 where "grows m cur (C \<union> set (L @ [?b]) \<union> set [] \<union> set [] \<union> set L4) s5 t [] ps5 [] []" "source_ok t cur"
    using grows_join_finish [OF _ _ _ fin src] ok5 unfolding builds_ok_def by blast
  then have "built m cur (C \<union> set (L @ [?b]) \<union> set [] \<union> set [] \<union> set L4) s5 t" by (auto simp: built_def)
  from builds_ok_grow_step [OF RightDelimJoin.prems(2) g1 builds_ok_grow_step [OF ok2 g2
      builds_ok_grow_step [OF ok3 g3 builds_ok_grow_step [OF ok4 g4 this]]]]
  show ?case .
qed


section \<open>The whole plan\<close>

lemma build_root_facts:
  assumes plan: "plan_ok plan" and b: "build_root plan = (Inr (), s)"
  obtains L where "GetMetaPipelines s 0 True True = [1..<length (bs_metas s)]"
    and "metas_complete 1 (length (bs_metas s)) 1 s"
    and "source_ok s (base_of s 0)" and "base_of s 0 = 0"
    and "distinct L" and "set L = base_of s ` {1..<length (bs_metas s)}" and "topological {} L s"
proof -
  let ?s0 = "\<lparr>bs_pipelines = [], bs_metas = [], delim_join_dependencies = [], cte_dependencies = []\<rparr>"
  define s1 where "s1 = snd (GPUMetaPipeline_new None ?s0)"
  have n: "GPUMetaPipeline_new None ?s0 = (0, s1)"
    by (simp add: s1_def GPUMetaPipeline_new_def Let_def)
  have s1: "length (bs_metas s1) = 1" "length (bs_pipelines s1) = 1" "delim_join_dependencies s1 = []"
    "cte_dependencies s1 = []" "m_pipelines (the_meta s1 0) = [0]" "m_children (the_meta s1 0) = []"
    by (simp_all add: s1_def GPUMetaPipeline_new_def CreatePipeline_def SetPipelineSink_def on_pipeline_def
        on_meta_def Let_def)
  have "BuildPipelines plan 0 0 s1 = (Inr (), s)" using b n s1(5) by (simp add: build_root_def)
  moreover have "builds_ok 0 0 {} s1" by (simp add: builds_ok_def s1 scans_closed_def)
  ultimately have "built 0 0 {} s1 s" using BuildPipelines_built [OF plan] by blast
  then obtain L ps cs ds where g: "grows 0 0 {} s1 s L ps cs ds" and src: "source_ok s 0"
    by (auto simp: built_def)
  note gr = growsD [OF g]
  have "m_children (the_meta s 0) = cs" using gr(5) s1(6) by simp
  then have pre: "GetMetaPipelines s 0 True True = [1..<length (bs_metas s)]"
    using gr(6) s1(1) by (simp add: GetMetaPipelines_def)
  have base: "base_of s 0 = 0" using gr(4) s1(5) by (simp add: base_of_def)
  show ?thesis
    by (rule that [of L]) (use pre base src gr(13,15,17,18) s1(1,2) in simp_all)
qed

section \<open>Plans that cannot be built\<close>

text \<open>Plans without scans that refer to a delim join or a common table.\<close>

fun no_linked_scans :: "phys_op \<Rightarrow> bool" where
  "no_linked_scans (Leaf r) = True"
| "no_linked_scans (Streaming r c) = no_linked_scans c"
| "no_linked_scans (Breaker r c) = no_linked_scans c"
| "no_linked_scans (Wide r) = True"
| "no_linked_scans (Join r p b) = (no_linked_scans p \<and> no_linked_scans b)"
| "no_linked_scans (LeftDelimJoin r c j ss) = (no_linked_scans c \<and> no_linked_scans j)"
| "no_linked_scans (RightDelimJoin r c jr p ss) = (no_linked_scans c \<and> no_linked_scans p)"
| "no_linked_scans (CommonTable r d q ss) = (no_linked_scans d \<and> no_linked_scans q)"
| "no_linked_scans (ColumnDataScan r) = (op_type r \<noteq> DELIM_SCAN \<and> op_type r \<noteq> CTE_SCAN)"
| "no_linked_scans (ResultCollector r p) = no_linked_scans p"

text \<open>The joins that can be built; as the join of a right delim join only the hash join can.\<close>

definition join_supported :: "phys_ref \<Rightarrow> bool" where
  "join_supported r \<longleftrightarrow> op_type r = HASH_JOIN \<or> op_type r = NESTED_LOOP_JOIN"

fun plan_supported :: "phys_op \<Rightarrow> bool" where
  "plan_supported (Leaf r) = True"
| "plan_supported (Streaming r c) = plan_supported c"
| "plan_supported (Breaker r c) = plan_supported c"
| "plan_supported (Wide r) = False"
| "plan_supported (Join r p b) = (join_supported r \<and> plan_supported p \<and> plan_supported b)"
| "plan_supported (LeftDelimJoin r c j ss) = (plan_supported c \<and> plan_supported j)"
| "plan_supported (RightDelimJoin r c jr p ss) = (op_type jr = HASH_JOIN \<and> plan_supported c \<and> plan_supported p)"
| "plan_supported (CommonTable r d q ss) = (plan_supported d \<and> plan_supported q)"
| "plan_supported (ColumnDataScan r) = (op_type r \<noteq> RECURSIVE_CTE_SCAN)"
| "plan_supported (ResultCollector r p) = plan_supported p"

text \<open>Whether a computation succeeds, whatever its state.\<close>

definition succeeds_iff :: "('s, 'a) act \<Rightarrow> bool \<Rightarrow> bool" where
  "succeeds_iff f P \<longleftrightarrow> (\<forall>s. (\<exists>x t. f s = (Inr x, t)) \<longleftrightarrow> P)"

lemma succeeds_bind:
  assumes "succeeds_iff f P" and "\<And>x. succeeds_iff (k x) Q"
  shows "succeeds_iff (act_bind f k) (P \<and> Q)"
  unfolding succeeds_iff_def
proof
  fix s
  show "(\<exists>y u. act_bind f k s = (Inr y, u)) \<longleftrightarrow> P \<and> Q"
  proof (cases "\<exists>x t. f s = (Inr x, t)")
    case True
    then obtain x t where "f s = (Inr x, t)" by blast
    with assms show ?thesis by (auto simp: succeeds_iff_def act_bind_def)
  next
    case False
    then have "\<not> (\<exists>y u. act_bind f k s = (Inr y, u))" by (auto simp: act_bind_def split: prod.splits sum.splits)
    moreover have "\<not> P" using assms(1) False by (auto simp: succeeds_iff_def)
    ultimately show ?thesis by blast
  qed
qed

lemma succeeds_modify: "succeeds_iff (act_modify f) True"
  by (simp add: succeeds_iff_def act_basic)

lemma succeeds_create: "succeeds_iff (act_create_child m cur r) True"
  by (simp add: succeeds_iff_def act_create_child_def split: prod.split)

lemma succeeds_reads: "(\<And>x. succeeds_iff (k x) Q) \<Longrightarrow> succeeds_iff (act_reads g k) Q"
  by (simp add: succeeds_iff_def act_basic)

lemma succeeds_throw: "succeeds_iff (act_throw e) False"
  by (simp add: succeeds_iff_def act_basic)

lemma succeeds_finish:
  assumes "cls = HASH_JOIN \<or> cls = NESTED_LOOP_JOIN"
  shows "succeeds_iff (join_finish cls r cur m lp) (op_type r = cls)"
  using assms by (auto simp: succeeds_iff_def join_finish_def act_basic)

lemma join_class_cases: "join_class r = HASH_JOIN \<or> join_class r = NESTED_LOOP_JOIN"
  by (simp add: join_class_def)

lemma join_class_supported: "op_type r = join_class r \<longleftrightarrow> join_supported r"
  by (auto simp: join_class_def join_supported_def)

lemma succeeds_return: "succeeds_iff (act_return x) True"
  by (simp add: succeeds_iff_def act_basic)

lemmas succeeds_rules = succeeds_return succeeds_bind succeeds_modify succeeds_create succeeds_reads succeeds_throw
  succeeds_finish [OF join_class_cases] succeeds_finish [of HASH_JOIN, simplified]

lemma succeeds_eq: "succeeds_iff f P \<Longrightarrow> P = Q \<Longrightarrow> succeeds_iff f Q"
  by simp

lemma BuildPipelines_supported:
  "no_linked_scans p \<Longrightarrow> succeeds_iff (BuildPipelines p cur m) (plan_supported p)"
proof (induction p arbitrary: cur m)
  case (ColumnDataScan r)
  then show ?case by (simp add: succeeds_iff_def build_column_data_scan_def)
next
  case (Streaming r c)
  show ?case
    unfolding BuildPipelines.simps
    by (rule succeeds_eq [OF succeeds_bind [OF succeeds_modify Streaming.IH]]) (use Streaming.prems in auto)
next
  case (Breaker r c)
  have p: "no_linked_scans c" using Breaker.prems by simp_all
  show ?case
    unfolding BuildPipelines.simps build_methods option.case
    by (rule succeeds_eq, (rule succeeds_rules Breaker.IH [OF p])+) auto
next
  case (Join r p b)
  have p: "no_linked_scans p" "no_linked_scans b" using Join.prems by simp_all
  show ?case
    unfolding BuildPipelines.simps build_methods option.case
    by (rule succeeds_eq, (rule succeeds_rules Join.IH(1) [OF p(1)] Join.IH(2) [OF p(2)])+) (auto simp: join_class_supported)
next
  case (LeftDelimJoin r c j ss)
  have p: "no_linked_scans c" "no_linked_scans j" using LeftDelimJoin.prems by simp_all
  show ?case
    unfolding BuildPipelines.simps build_methods option.case
    by (rule succeeds_eq, (rule succeeds_rules LeftDelimJoin.IH(1) [OF p(1)] LeftDelimJoin.IH(2) [OF p(2)])+) auto
next
  case (RightDelimJoin r c jr p ss)
  have p: "no_linked_scans c" "no_linked_scans p" using RightDelimJoin.prems by simp_all
  show ?case
    unfolding BuildPipelines.simps build_methods option.case
    by (rule succeeds_eq, (rule succeeds_rules RightDelimJoin.IH(1) [OF p(1)] RightDelimJoin.IH(2) [OF p(2)])+) auto
next
  case (CommonTable r d q ss)
  have p: "no_linked_scans d" "no_linked_scans q" using CommonTable.prems by simp_all
  show ?case
    unfolding BuildPipelines.simps build_methods option.case
    by (rule succeeds_eq, (rule succeeds_rules CommonTable.IH(1) [OF p(1)] CommonTable.IH(2) [OF p(2)])+) auto
next
  case (ResultCollector r p)
  have p: "no_linked_scans p" using ResultCollector.prems by simp_all
  show ?case
    unfolding BuildPipelines.simps build_methods option.case
    by (rule succeeds_eq, (rule succeeds_rules ResultCollector.IH [OF p])+) auto
qed (simp_all add: succeeds_modify succeeds_throw)

lemma build_root_supported:
  "no_linked_scans plan \<Longrightarrow> fst (build_root plan) = Inr () \<longleftrightarrow> plan_supported plan"
  using BuildPipelines_supported [of plan] unfolding succeeds_iff_def build_root_def
  by (auto split: prod.split simp: prod_eq_iff)

text \<open>C20: a plan without scans of delim joins or common tables is cut into pipelines without an error
  exactly when it has no operator of several children that is not a join, every join in it is a hash or
  nested-loop join, the join of every right delim join is a hash join, and no scan is that of a recursive
  table.  (A right delim join around a nested-loop join fails the checked cast to
  \<open>GPUPhysicalHashJoin\<close>.)\<close>

theorem build_root_fails_only_on_unsupported:
  assumes "no_linked_scans plan"
  shows "fst (build_root plan) = Inr () \<longleftrightarrow> plan_supported plan"
  by (rule build_root_supported [OF assms])

definition delim_plan :: "op_type \<Rightarrow> phys_op" where
  "delim_plan ty = RightDelimJoin (Ref 0 RIGHT_DELIM_JOIN J_INVALID None) (Leaf (Ref 1 TABLE_SCAN J_INVALID None))
     (Ref 2 ty J_SEMI None) (Leaf (Ref 3 TABLE_SCAN J_INVALID None)) []"

theorem build_root_fails_only_on_unsupported_witness:
  "fst (build_root (delim_plan HASH_JOIN)) = Inr () \<and> fst (build_root (delim_plan NESTED_LOOP_JOIN)) \<noteq> Inr ()"
proof
  show "fst (build_root (delim_plan HASH_JOIN)) = Inr ()"
    by (subst build_root_fails_only_on_unsupported) (simp_all add: delim_plan_def)
  show "fst (build_root (delim_plan NESTED_LOOP_JOIN)) \<noteq> Inr ()"
    by (subst build_root_fails_only_on_unsupported) (simp_all add: delim_plan_def)
qed

end
