(* ===== verification/Executor.thy ===== *)
theory Executor
  imports Pipeline_Order
begin

text \<open>
  The executor of a query (\<open>src/src/gpu_executor.cpp\<close>): \<open>Initialize\<close> builds the pipelines of the plan
  and puts them in an order, a round-robin search over the meta pipelines that takes one when all
  its base pipeline depends on is scheduled; \<open>Execute\<close> runs the scheduled pipelines one after the
  other.  The search is a loop without a bound of its own, here with fuel; \<open>InitializeInternal_schedules\<close>
  shows that \<open>n * n\<close> rounds are enough for \<open>n\<close> meta pipelines.  The executor of a query is new, so
  \<open>scheduled\<close>, which \<open>Reset\<close> leaves alone, starts empty.
\<close>

section \<open>Scheduling\<close>

record executor =
  ex_build :: build_state
  gpu_physical_plan :: "op_type option"
  root_pipelines :: "nat list"
  root_pipeline_idx :: nat
  completed_pipelines :: nat
  total_pipelines :: nat
  all_pipelines :: "nat list"
  scheduled :: "nat list"

definition empty_build :: build_state where
  "empty_build = \<lparr>bs_pipelines = [], bs_metas = [], delim_join_dependencies = [], cte_dependencies = []\<rparr>"

definition GPUExecutor_new :: executor where
  "GPUExecutor_new = \<lparr>ex_build = empty_build, gpu_physical_plan = None, root_pipelines = [],
     root_pipeline_idx = 0, completed_pipelines = 0, total_pipelines = 0, all_pipelines = [], scheduled = []\<rparr>"

definition Executor_Reset :: "executor \<Rightarrow> executor" where
  "Executor_Reset e = e\<lparr>gpu_physical_plan := None, root_pipelines := [], root_pipeline_idx := 0,
     completed_pipelines := 0, total_pipelines := 0, all_pipelines := []\<rparr>"

definition CancelTasks :: "executor \<Rightarrow> executor" where
  "CancelTasks e = e\<lparr>all_pipelines := [], root_pipelines := []\<rparr>"

text \<open>The pipelines of a taken meta pipeline: one that starts at a hash join only for a right join.\<close>

definition right_hash_join :: "phys_ref \<Rightarrow> bool" where
  "right_hash_join r \<longleftrightarrow> op_join_type r = J_RIGHT \<or> op_join_type r = J_RIGHT_SEMI \<or> op_join_type r = J_RIGHT_ANTI"

definition takes_pipeline :: "build_state \<Rightarrow> nat \<Rightarrow> bool res" where
  "takes_pipeline s p = (case p_source (the_pipeline s p) of
     None \<Rightarrow> Inl (UndefinedBehaviour ''null source'')
   | Some r \<Rightarrow> Inr (op_type r \<noteq> HASH_JOIN \<or> right_hash_join r))"

fun take_pipelines :: "build_state \<Rightarrow> nat list \<Rightarrow> nat list \<Rightarrow> nat list res" where
  "take_pipelines s [] sched = Inr sched"
| "take_pipelines s (p # ps) sched =
     res_bind (takes_pipeline s p) (\<lambda>b. take_pipelines s ps (if b then sched @ [p] else sched))"

definition should_schedule :: "build_state \<Rightarrow> nat \<Rightarrow> nat list \<Rightarrow> bool" where
  "should_schedule s k sched =
     (let children = GetMetaPipelines s k False True; base = GetBasePipeline s k
      in base \<notin> set sched \<and> (\<forall>c \<in> set children. GetBasePipeline s c \<in> set sched) \<and>
         (\<forall>d \<in> set (p_dependencies (the_pipeline s base)). d \<in> set sched))"

text \<open>The while loop over \<open>schedule_count\<close>, \<open>meta\<close> and \<open>scheduled\<close>; \<open>None\<close> when the fuel is spent.\<close>

fun schedule_loop :: "nat \<Rightarrow> build_state \<Rightarrow> nat list \<Rightarrow> nat \<Rightarrow> nat \<Rightarrow> nat list \<Rightarrow> nat list res option" where
  "schedule_loop fuel s to_schedule schedule_count meta sched =
     (if length to_schedule \<le> schedule_count then Some (Inr sched)
      else case fuel of
        0 \<Rightarrow> None
      | Suc fuel' \<Rightarrow>
          let k = to_schedule ! (length to_schedule - 1 - meta);
              meta' = (meta + 1) mod length to_schedule
          in if should_schedule s k sched then
               (case take_pipelines s (GetPipelines s k False) sched of
                  Inl e \<Rightarrow> Some (Inl e)
                | Inr sched' \<Rightarrow> schedule_loop fuel' s to_schedule (schedule_count + 1) meta' sched')
             else schedule_loop fuel' s to_schedule schedule_count meta' sched)"

declare schedule_loop.simps [simp del]

fun root_type :: "phys_op \<Rightarrow> op_type" where
  "root_type (Leaf r) = op_type r"
| "root_type (Streaming r c) = op_type r"
| "root_type (Breaker r c) = op_type r"
| "root_type (Wide r) = op_type r"
| "root_type (Join r p b) = op_type r"
| "root_type (LeftDelimJoin r c j ss) = op_type r"
| "root_type (RightDelimJoin r c jr p ss) = op_type r"
| "root_type (CommonTable r d q ss) = op_type r"
| "root_type (ColumnDataScan r) = op_type r"
| "root_type (ResultCollector r p) = op_type r"

definition InitializeInternal :: "nat \<Rightarrow> phys_op \<Rightarrow> executor \<Rightarrow> (unit res \<times> executor) option" where
  "InitializeInternal fuel plan e =
     (let e0 = e\<lparr>gpu_physical_plan := Some (root_type plan)\<rparr>
      in case build_root plan of
        (Inl ex, s) \<Rightarrow> Some (Inl ex, e0\<lparr>ex_build := s\<rparr>)
      | (Inr _, s) \<Rightarrow>
          let s' = Meta_Ready 0 s;
              to_schedule = GetMetaPipelines s' 0 True True;
              e1 = e0\<lparr>ex_build := s', root_pipelines := root_pipelines e0 @ GetPipelines s' 0 False,
                      root_pipeline_idx := 0, total_pipelines := length to_schedule\<rparr>
          in case schedule_loop fuel s' to_schedule 0 0 (scheduled e1) of
               None \<Rightarrow> None
             | Some (Inl ex) \<Rightarrow> Some (Inl ex, e1)
             | Some (Inr sched) \<Rightarrow> Some (Inr (), e1\<lparr>scheduled := sched,
                 all_pipelines := all_pipelines e1 @ GetPipelines s' 0 True\<rparr>))"

definition Executor_Initialize :: "nat \<Rightarrow> phys_op \<Rightarrow> executor \<Rightarrow> (unit res \<times> executor) option" where
  "Executor_Initialize fuel plan e = InitializeInternal fuel plan (Executor_Reset e)"

definition HasResultCollector :: "executor \<Rightarrow> bool" where
  "HasResultCollector e \<longleftrightarrow> gpu_physical_plan e = Some RESULT_COLLECTOR"

section \<open>The search ends\<close>

text \<open>\<open>block\<close> is what a taken meta pipeline adds.\<close>

definition block :: "build_state \<Rightarrow> nat \<Rightarrow> nat list" where
  "block s k = filter (\<lambda>p. takes_pipeline s p = Inr True) (m_pipelines (the_meta s k))"

lemma takes_pipeline_source:
  "p_source (the_pipeline s p) \<noteq> None \<Longrightarrow> \<exists>b. takes_pipeline s p = Inr b"
  by (auto simp: takes_pipeline_def)

lemma take_pipelines_filter:
  "\<forall>p \<in> set ps. p_source (the_pipeline s p) \<noteq> None \<Longrightarrow>
   take_pipelines s ps sched = Inr (sched @ filter (\<lambda>p. takes_pipeline s p = Inr True) ps)"
proof (induction ps arbitrary: sched)
  case (Cons p ps)
  obtain b where "takes_pipeline s p = Inr b" using takes_pipeline_source Cons.prems by fastforce
  with Cons show ?case by (cases b) simp_all
qed simp

lemma GetPipelines_alone: "GetPipelines s k False = m_pipelines (the_meta s k)"
  by (simp add: GetPipelines_def GetMetaPipelines_def)

lemma should_schedule_iff:
  "should_schedule s k sched \<longleftrightarrow> GetBasePipeline s k \<notin> set sched \<and>
     set (p_dependencies (the_pipeline s (GetBasePipeline s k))) \<subseteq> set sched"
  by (auto simp: should_schedule_def GetMetaPipelines_def Let_def)

text \<open>What the search starts from: the base pipelines of the meta pipelines can be ordered by their
  dependencies, and each meta pipeline is complete.\<close>

definition can_schedule :: "build_state \<Rightarrow> nat list \<Rightarrow> bool" where
  "can_schedule s ks \<longleftrightarrow>
     (\<exists>L. distinct L \<and> set L = base_of s ` set ks \<and> topological {} L s) \<and> distinct ks \<and>
     (\<forall>k \<in> set ks. m_pipelines (the_meta s k) \<noteq> [] \<and> distinct (m_pipelines (the_meta s k)) \<and>
        source_ok s (base_of s k) \<and>
        (\<forall>p \<in> set (m_pipelines (the_meta s k)). p_source (the_pipeline s p) \<noteq> None) \<and>
        (\<forall>j \<in> set ks. j \<noteq> k \<longrightarrow> set (m_pipelines (the_meta s j)) \<inter> set (m_pipelines (the_meta s k)) = {}))"

text \<open>The state of the search: \<open>done\<close> lists the meta pipelines taken, in their order.\<close>

definition searching :: "build_state \<Rightarrow> nat list \<Rightarrow> nat list \<Rightarrow> nat list \<Rightarrow> bool" where
  "searching s ks dn sched \<longleftrightarrow> distinct dn \<and> set dn \<subseteq> set ks \<and> sched = concat (map (block s) dn) \<and>
     (\<forall>i < length dn. set (p_dependencies (the_pipeline s (base_of s (dn ! i)))) \<subseteq>
        set (concat (map (block s) (take i dn))))"

lemma can_scheduleD:
  assumes "can_schedule s ks" and "k \<in> set ks"
  shows "m_pipelines (the_meta s k) \<noteq> []" and "distinct (m_pipelines (the_meta s k))"
    and "source_ok s (base_of s k)"
    and "\<forall>p \<in> set (m_pipelines (the_meta s k)). p_source (the_pipeline s p) \<noteq> None"
    and "j \<in> set ks \<Longrightarrow> j \<noteq> k \<Longrightarrow> set (m_pipelines (the_meta s j)) \<inter> set (m_pipelines (the_meta s k)) = {}"
  using assms unfolding can_schedule_def by blast+

lemma block_sub: "set (block s k) \<subseteq> set (m_pipelines (the_meta s k))"
  by (auto simp: block_def)

lemma base_in_block:
  assumes "can_schedule s ks" and "k \<in> set ks"
  shows "base_of s k \<in> set (block s k)"
proof -
  note c = can_scheduleD [OF assms]
  have "base_of s k \<in> set (m_pipelines (the_meta s k))" using c(1) by (simp add: base_of_def)
  moreover obtain r where "p_source (the_pipeline s (base_of s k)) = Some r" "not_hash_join r"
    using c(3) by (auto simp: source_ok_def)
  ultimately show ?thesis by (simp add: block_def takes_pipeline_def not_hash_join_def)
qed

lemma base_iff: "can_schedule s ks \<Longrightarrow> k \<in> set ks \<Longrightarrow> GetBasePipeline s k = base_of s k"
  using can_scheduleD(1) by (simp add: GetBasePipeline_def base_of_def hd_conv_nth)

lemma base_scheduled_iff:
  assumes can: "can_schedule s ks" and dn: "searching s ks dn sched" and k: "k \<in> set ks"
  shows "base_of s k \<in> set sched \<longleftrightarrow> k \<in> set dn"
proof
  assume "base_of s k \<in> set sched"
  then obtain j where j: "j \<in> set dn" "base_of s k \<in> set (block s j)"
    using dn by (auto simp: searching_def)
  have "base_of s k \<in> set (m_pipelines (the_meta s j)) \<inter> set (m_pipelines (the_meta s k))"
    using j(2) base_in_block [OF can k] block_sub by blast
  moreover have "j \<in> set ks" using j(1) dn by (auto simp: searching_def)
  ultimately have "j = k" using can_scheduleD(5) [OF can k] by blast
  with j(1) show "k \<in> set dn" by simp
next
  assume "k \<in> set dn"
  then show "base_of s k \<in> set sched"
    using dn base_in_block [OF can k] by (auto simp: searching_def)
qed

lemma first_missing:
  assumes "\<exists>x \<in> set L. x \<notin> S"
  obtains i where "i < length L" "L ! i \<notin> S" "set (take i L) \<subseteq> S"
proof -
  obtain ys x zs where L: "L = ys @ x # zs" "x \<notin> S" "\<forall>y \<in> set ys. y \<in> S"
    using split_list_first_prop [OF assms] by blast
  show ?thesis by (rule that [of "length ys"]) (use L in auto)
qed

lemma some_meta_ready:
  assumes can: "can_schedule s ks" and dn: "searching s ks dn sched" and less: "length dn < length ks"
  obtains k where "k \<in> set ks" and "should_schedule s k sched"
proof -
  obtain L where L: "set L = base_of s ` set ks" "topological {} L s"
    using can by (auto simp: can_schedule_def)
  have "distinct ks" "distinct dn" using can dn by (simp_all add: can_schedule_def searching_def)
  then have "card (set dn) < card (set ks)" using less by (simp add: distinct_card)
  then have "\<not> set ks \<subseteq> set dn" using card_mono [of "set dn" "set ks"] by force
  then obtain k0 where k0: "k0 \<in> set ks" "k0 \<notin> set dn" by blast
  then have "\<exists>x \<in> set L. x \<notin> set sched" using base_scheduled_iff [OF can dn] L(1) by blast
  then obtain i where i: "i < length L" "L ! i \<notin> set sched" "set (take i L) \<subseteq> set sched"
    by (rule first_missing)
  have "L ! i \<in> base_of s ` set ks" using i(1) L(1) nth_mem by fastforce
  then obtain k where k: "k \<in> set ks" "L ! i = base_of s k" by blast
  have "set (p_dependencies (the_pipeline s (base_of s k))) \<subseteq> set sched"
    using L(2) i(1,3) k(2) unfolding topological_def by fastforce
  with i(2) k show ?thesis
    by (intro that [of k]) (simp_all add: should_schedule_iff base_iff [OF can])
qed

lemma searching_step:
  assumes can: "can_schedule s ks" and dn: "searching s ks dn sched" and k: "k \<in> set ks"
    and sh: "should_schedule s k sched"
  shows "take_pipelines s (GetPipelines s k False) sched = Inr (sched @ block s k)"
    and "searching s ks (dn @ [k]) (sched @ block s k)"
proof -
  show "take_pipelines s (GetPipelines s k False) sched = Inr (sched @ block s k)"
    unfolding GetPipelines_alone block_def
    by (rule take_pipelines_filter) (rule can_scheduleD(4) [OF can k])
  have "k \<notin> set dn"
    using sh base_scheduled_iff [OF can dn k] by (simp add: should_schedule_iff base_iff [OF can k])
  moreover have "set (p_dependencies (the_pipeline s (base_of s k))) \<subseteq> set (concat (map (block s) dn))"
    using sh dn by (simp add: should_schedule_iff base_iff [OF can k] searching_def)
  ultimately show "searching s ks (dn @ [k]) (sched @ block s k)"
    using dn k by (simp add: searching_def nth_append less_Suc_eq all_conj_distrib)
qed

text \<open>Rounds from position \<open>meta\<close> until position \<open>j\<close> is looked at.\<close>

definition rounds_to :: "nat \<Rightarrow> nat \<Rightarrow> nat \<Rightarrow> nat" where
  "rounds_to n meta j = (if meta \<le> j then j - meta else j + n - meta)"

lemma rounds_to_less: "meta < n \<Longrightarrow> j < n \<Longrightarrow> rounds_to n meta j < n"
  by (auto simp: rounds_to_def)

lemma rounds_to_step:
  assumes "meta < n" and "j < n" and "meta \<noteq> j"
  shows "rounds_to n meta j = Suc (rounds_to n ((meta + 1) mod n) j)"
proof (cases "meta + 1 = n")
  case False
  with assms(1) have "(meta + 1) mod n = meta + 1" by simp
  with assms show ?thesis by (auto simp: rounds_to_def)
qed (use assms in \<open>auto simp: rounds_to_def\<close>)

lemma some_position_ready:
  assumes can: "can_schedule s ks" and dn: "searching s ks dn sched" and less: "length dn < length ks"
  obtains j where "j < length ks" and "should_schedule s (ks ! (length ks - 1 - j)) sched"
proof -
  obtain k where k: "k \<in> set ks" "should_schedule s k sched" by (rule some_meta_ready [OF assms])
  then obtain i where i: "i < length ks" "ks ! i = k" by (auto simp: in_set_conv_nth)
  then show ?thesis using k(2) by (intro that [of "length ks - 1 - i"]) simp_all
qed

lemma schedule_loop_ends:
  assumes can: "can_schedule s ks"
  shows "searching s ks dn sched \<Longrightarrow> length dn < length ks \<Longrightarrow> meta < length ks \<Longrightarrow> j < length ks \<Longrightarrow>
     should_schedule s (ks ! (length ks - 1 - j)) sched \<Longrightarrow>
     rounds_to (length ks) meta j + 1 + (length ks - length dn - 1) * length ks \<le> fuel \<Longrightarrow>
     \<exists>dn' sched'. schedule_loop fuel s ks (length dn) meta sched = Some (Inr sched') \<and>
       searching s ks dn' sched' \<and> length dn' = length ks"
proof (induction fuel arbitrary: dn sched meta j)
  case 0
  then show ?case by simp
next
  case (Suc fuel)
  let ?n = "length ks" let ?k = "ks ! (?n - 1 - meta)" let ?m = "(meta + 1) mod ?n"
  have m: "?m < ?n" using Suc.prems(2) by (intro mod_less_divisor) linarith
  have kin: "?k \<in> set ks" using Suc.prems(3) by simp
  show ?case
  proof (cases "should_schedule s ?k sched")
    case True
    note st = searching_step [OF can Suc.prems(1) kin True]
    have loop: "schedule_loop (Suc fuel) s ks (length dn) meta sched =
        schedule_loop fuel s ks (length (dn @ [?k])) ?m (sched @ block s ?k)"
      using Suc.prems(2) True st(1) by (subst schedule_loop.simps) (simp add: Let_def)
    show ?thesis
    proof (cases "length dn + 1 = ?n")
      case True
      have "schedule_loop fuel s ks (length (dn @ [?k])) ?m (sched @ block s ?k) = Some (Inr (sched @ block s ?k))"
        using True by (subst schedule_loop.simps) simp
      with loop st(2) True show ?thesis by (metis Suc_eq_plus1 length_append_singleton)
    next
      case False
      then have less: "length (dn @ [?k]) < ?n" using Suc.prems(2) by simp
      obtain j' where j': "j' < ?n" "should_schedule s (ks ! (?n - 1 - j')) (sched @ block s ?k)"
        by (rule some_position_ready [OF can st(2) less])
      obtain r where r: "?n - length dn - 1 = Suc r" using less by (cases "?n - length dn - 1") auto
      then have "?n - length (dn @ [?k]) - 1 = r" by simp
      moreover have "rounds_to ?n ?m j' < ?n" by (rule rounds_to_less [OF m j'(1)])
      ultimately have "rounds_to ?n ?m j' + 1 + (?n - length (dn @ [?k]) - 1) * ?n \<le> fuel"
        using Suc.prems(6) r by simp
      from Suc.IH [OF st(2) less m j' this] loop show ?thesis by simp
    qed
  next
    case False
    then have "meta \<noteq> j" using Suc.prems(5) by auto
    note rt = rounds_to_step [OF Suc.prems(3,4) this]
    have loop: "schedule_loop (Suc fuel) s ks (length dn) meta sched = schedule_loop fuel s ks (length dn) ?m sched"
      using Suc.prems(2) False by (subst schedule_loop.simps) (simp add: Let_def)
    have "rounds_to ?n ?m j + 1 + (?n - length dn - 1) * ?n \<le> fuel" using Suc.prems(6) rt by simp
    from Suc.IH [OF Suc.prems(1,2) m Suc.prems(4,5) this] loop show ?thesis by simp
  qed
qed

lemma schedule_loop_enough:
  assumes can: "can_schedule s ks" and fuel: "length ks * length ks \<le> fuel"
  shows "\<exists>dn sched. schedule_loop fuel s ks 0 0 [] = Some (Inr sched) \<and> searching s ks dn sched \<and> set dn = set ks"
proof -
  have start: "searching s ks [] []" by (simp add: searching_def)
  have ends: "\<exists>dn sched. schedule_loop fuel s ks 0 0 [] = Some (Inr sched) \<and> searching s ks dn sched \<and>
      length dn = length ks"
  proof (cases "ks = []")
    case True
    with start show ?thesis by (subst schedule_loop.simps) simp
  next
    case False
    then obtain j where j: "j < length ks" "should_schedule s (ks ! (length ks - 1 - j)) []"
      using some_position_ready [OF can start] by auto
    obtain r where r: "length ks = Suc r" using False by (cases ks) auto
    have "rounds_to (length ks) 0 j + 1 + (length ks - length [] - 1) * length ks \<le> fuel"
      using rounds_to_less [of 0 "length ks" j] j(1) fuel r by simp
    with schedule_loop_ends [OF can start _ _ j] False show ?thesis by simp
  qed
  then obtain dn sched where d: "schedule_loop fuel s ks 0 0 [] = Some (Inr sched)" "searching s ks dn sched"
    "length dn = length ks" by blast
  have "distinct ks" "distinct dn" "set dn \<subseteq> set ks" using can d(2) by (simp_all add: can_schedule_def searching_def)
  then have "set dn = set ks" using d(3) by (intro card_subset_eq) (simp_all add: distinct_card)
  with d show ?thesis by blast
qed

section \<open>Initialising the executor\<close>

lemma Pipeline_Ready_frame:
  "p_source (Pipeline_Ready p) = p_source p" "p_dependencies (Pipeline_Ready p) = p_dependencies p"
  "p_sink (Pipeline_Ready p) = p_sink p"
  by (simp_all add: Pipeline_Ready_def)

lemma update_nth_same: "f (g (xs ! a)) = f (xs ! a) \<Longrightarrow> f (xs[a := g (xs ! a)] ! p) = f (xs ! p)"
  by (metis list_update_beyond not_le nth_list_update)

lemma Meta_Ready_frame:
  "bs_metas (Meta_Ready m s) = bs_metas s \<and> length (bs_pipelines (Meta_Ready m s)) = length (bs_pipelines s) \<and>
   (\<forall>p < length (bs_pipelines s). p_source (the_pipeline (Meta_Ready m s) p) = p_source (the_pipeline s p) \<and>
      p_dependencies (the_pipeline (Meta_Ready m s) p) = p_dependencies (the_pipeline s p) \<and>
      p_sink (the_pipeline (Meta_Ready m s) p) = p_sink (the_pipeline s p))"
proof -
  have "bs_metas (fold (\<lambda>i. on_pipeline i Pipeline_Ready) is s) = bs_metas s \<and>
     length (bs_pipelines (fold (\<lambda>i. on_pipeline i Pipeline_Ready) is s)) = length (bs_pipelines s) \<and>
     (\<forall>p < length (bs_pipelines s).
        p_source (the_pipeline (fold (\<lambda>i. on_pipeline i Pipeline_Ready) is s) p) = p_source (the_pipeline s p) \<and>
        p_dependencies (the_pipeline (fold (\<lambda>i. on_pipeline i Pipeline_Ready) is s) p) = p_dependencies (the_pipeline s p) \<and>
        p_sink (the_pipeline (fold (\<lambda>i. on_pipeline i Pipeline_Ready) is s) p) = p_sink (the_pipeline s p))"
    for "is"
    by (induction "is" arbitrary: s) (simp_all add: on_pipeline_def Pipeline_Ready_frame update_nth_same)
  then show ?thesis by (simp add: Meta_Ready_def)
qed

text \<open>Base pipelines that exist, with sources that are no hash joins, in an order of their dependencies.\<close>

lemma can_schedule_ready:
  assumes mc: "metas_complete 1 (length (bs_metas s)) 1 s"
    and L: "distinct L" "set L = base_of s ` {1..<length (bs_metas s)}" "topological {} L s"
  shows "can_schedule (Meta_Ready 0 s) [1..<length (bs_metas s)]"
proof -
  let ?t = "Meta_Ready 0 s"
  note fr = Meta_Ready_frame [of 0 s]
  have mt: "the_meta ?t k = the_meta s k" for k using fr by simp
  have base: "base_of ?t k = base_of s k" for k by (simp add: base_of_def mt)
  have range: "p < length (bs_pipelines s)" if "k \<in> {1..<length (bs_metas s)}" "p \<in> set (m_pipelines (the_meta s k))" for k p
    using mc that unfolding metas_complete_def by blast
  have base_range: "base_of s k < length (bs_pipelines s)" if "k \<in> {1..<length (bs_metas s)}" for k
  proof -
    have "m_pipelines (the_meta s k) \<noteq> []" using mc that unfolding metas_complete_def by blast
    then show ?thesis using range [OF that] by (simp add: base_of_def)
  qed
  have "\<forall>p \<in> set L. p < length (bs_pipelines s)" using base_range L(2) by auto
  then have "topological {} L ?t" using L(3) fr by (simp add: topological_def)
  then have order: "\<exists>L. distinct L \<and> set L = base_of ?t ` set [1..<length (bs_metas s)] \<and> topological {} L ?t"
    using L(1,2) base by (intro exI [of _ L]) simp
  have src: "source_ok ?t (base_of s k)" if "k \<in> {1..<length (bs_metas s)}" for k
  proof -
    have "source_ok s (base_of s k)" using mc that unfolding metas_complete_def by blast
    then show ?thesis using base_range [OF that] fr by (simp add: source_ok_def)
  qed
  have psrc: "p_source (the_pipeline ?t p) \<noteq> None"
    if "k \<in> {1..<length (bs_metas s)}" "p \<in> set (m_pipelines (the_meta s k))" for k p
  proof -
    have "p_source (the_pipeline s p) \<noteq> None" using mc that unfolding metas_complete_def by blast
    then show ?thesis using range [OF that] fr by simp
  qed
  show ?thesis
    unfolding can_schedule_def mt base set_upt
    using order [unfolded base set_upt] src psrc mc by (auto simp: metas_complete_def)
qed

lemma block_head:
  assumes "can_schedule s ks" and "k \<in> set ks"
  shows "hd (block s k) = GetBasePipeline s k" and "block s k \<noteq> []"
proof -
  note c = can_scheduleD [OF assms]
  obtain b bs where m: "m_pipelines (the_meta s k) = b # bs" using c(1) by (cases "m_pipelines (the_meta s k)") auto
  have "takes_pipeline s b = Inr True"
    using base_in_block [OF assms] m unfolding block_def base_of_def set_filter by simp
  then show "hd (block s k) = GetBasePipeline s k" "block s k \<noteq> []"
    using m by (simp_all add: block_def GetBasePipeline_def)
qed

lemma searching_distinct:
  assumes "can_schedule s ks" and "searching s ks dn sched"
  shows "distinct sched"
proof -
  have "distinct (concat (map (block s) xs))" if "distinct xs" "set xs \<subseteq> set ks" for xs
    using that
  proof (induction xs)
    case (Cons k xs)
    have "set (block s k) \<inter> set (block s j) = {}" if "j \<in> set xs" for j
    proof -
      have "j \<noteq> k" using that Cons.prems(1) by auto
      then have "set (m_pipelines (the_meta s j)) \<inter> set (m_pipelines (the_meta s k)) = {}"
        by (intro can_scheduleD(5) [OF assms(1)]) (use that Cons.prems(2) in auto)
      then show ?thesis using block_sub by blast
    qed
    moreover have "distinct (block s k)"
      using can_scheduleD(2) [OF assms(1)] Cons.prems(2) by (simp add: block_def)
    ultimately show ?case using Cons by auto
  qed simp
  with assms(2) show ?thesis by (simp add: searching_def)
qed

lemma searching_split:
  assumes "searching s ks dn sched" and "k \<in> set dn"
  shows "\<exists>xs ys. sched = xs @ block s k @ ys \<and> set (p_dependencies (the_pipeline s (base_of s k))) \<subseteq> set xs"
proof -
  from assms(2) obtain i where i: "i < length dn" "dn ! i = k" by (auto simp: in_set_conv_nth)
  have "dn = take i dn @ k # drop (Suc i) dn" using id_take_nth_drop [OF i(1)] i(2) by simp
  then have "sched = concat (map (block s) (take i dn)) @ block s k @ concat (map (block s) (drop (Suc i) dn))"
    using assms(1) unfolding searching_def by (metis concat.simps(2) concat_append list.simps(9) map_append)
  moreover have "set (p_dependencies (the_pipeline s (base_of s k))) \<subseteq> set (concat (map (block s) (take i dn)))"
    using assms(1) i unfolding searching_def by blast
  ultimately show ?thesis by blast
qed

lemma InitializeInternal_eq:
  assumes "build_root plan = (Inr (), s)"
    and "schedule_loop fuel (Meta_Ready 0 s) (GetMetaPipelines (Meta_Ready 0 s) 0 True True) 0 0 (scheduled e) = Some (Inr sched)"
  shows "\<exists>e'. InitializeInternal fuel plan e = Some (Inr (), e') \<and> ex_build e' = Meta_Ready 0 s \<and> scheduled e' = sched \<and>
    total_pipelines e' = length (GetMetaPipelines (Meta_Ready 0 s) 0 True True) \<and>
    all_pipelines e' = all_pipelines e @ GetPipelines (Meta_Ready 0 s) 0 True \<and>
    root_pipelines e' = root_pipelines e @ GetPipelines (Meta_Ready 0 s) 0 False"
  using assms by (simp add: InitializeInternal_def Let_def)

text \<open>C5: initialising a new executor on a well-formed plan whose pipelines can be built succeeds
  within \<open>n * n\<close> rounds of the scheduling loop, where \<open>n\<close> counts the meta pipelines, and leaves an
  order without duplicates: for every meta pipeline but the root, exactly its pipelines that do not
  start at a hash join or start at a right one, together and with the base pipeline first, after
  every pipeline the base pipeline depends on.\<close>

theorem Initialize_schedules:
  assumes "plan_ok plan" and "build_root plan = (Inr (), s)"
    and "length (bs_metas s) * length (bs_metas s) \<le> fuel"
  shows "\<exists>e. Executor_Initialize fuel plan GPUExecutor_new = Some (Inr (), e) \<and> ex_build e = Meta_Ready 0 s \<and>
    total_pipelines e = length (bs_metas s) - 1 \<and> distinct (scheduled e) \<and>
    set (scheduled e) = {p. \<exists>k \<in> {1..<length (bs_metas s)}. p \<in> set (m_pipelines (the_meta s k)) \<and>
      takes_pipeline (ex_build e) p = Inr True} \<and>
    (\<forall>k \<in> {1..<length (bs_metas s)}. \<exists>xs ps ys. scheduled e = xs @ ps @ ys \<and>
      ps = filter (\<lambda>p. takes_pipeline (ex_build e) p = Inr True) (m_pipelines (the_meta s k)) \<and>
      ps \<noteq> [] \<and> hd ps = GetBasePipeline s k \<and>
      set (p_dependencies (the_pipeline (ex_build e) (GetBasePipeline s k))) \<subseteq> set xs)"
proof -
  let ?t = "Meta_Ready 0 s" and ?n = "length (bs_metas s)"
  obtain L where pre: "GetMetaPipelines s 0 True True = [1..<?n]" and mc: "metas_complete 1 ?n 1 s"
    and L: "distinct L" "set L = base_of s ` {1..<?n}" "topological {} L s"
    using build_root_facts [OF assms(1,2)] by metis
  have can: "can_schedule ?t [1..<?n]" by (rule can_schedule_ready [OF mc L])
  have mt: "bs_metas ?t = bs_metas s" using Meta_Ready_frame [of 0 s] by blast
  have pre': "GetMetaPipelines ?t 0 True True = [1..<?n]" using pre by (simp add: GetMetaPipelines_def mt)
  have "length [1..<?n] * length [1..<?n] \<le> fuel"
    using assms(3) mult_le_mono [of "?n - 1" ?n "?n - 1" ?n] by simp
  then obtain dn sched where d: "schedule_loop fuel ?t [1..<?n] 0 0 [] = Some (Inr sched)"
    "searching ?t [1..<?n] dn sched" "set dn = {1..<?n}"
    using schedule_loop_enough [OF can, of fuel] unfolding set_upt by blast
  have "scheduled (Executor_Reset GPUExecutor_new) = []" by (simp add: Executor_Reset_def GPUExecutor_new_def)
  then obtain e where e: "Executor_Initialize fuel plan GPUExecutor_new = Some (Inr (), e)" "ex_build e = ?t"
    "scheduled e = sched" "total_pipelines e = ?n - 1"
    using InitializeInternal_eq [OF assms(2), of fuel "Executor_Reset GPUExecutor_new" sched] d(1) pre'
    by (auto simp: Executor_Initialize_def)
  have "set sched = (\<Union>k \<in> {1..<?n}. set (block ?t k))" using d(2,3) by (simp add: searching_def)
  then have set: "set sched = {p. \<exists>k \<in> {1..<?n}. p \<in> set (m_pipelines (the_meta s k)) \<and> takes_pipeline ?t p = Inr True}"
    by (auto simp: block_def mt)
  have part: "\<exists>xs ps ys. sched = xs @ ps @ ys \<and> ps = block ?t k \<and> ps \<noteq> [] \<and> hd ps = GetBasePipeline s k \<and>
      set (p_dependencies (the_pipeline ?t (GetBasePipeline s k))) \<subseteq> set xs" if "k \<in> {1..<?n}" for k
  proof -
    have k: "k \<in> set dn" "k \<in> set [1..<?n]" using that d(3) by simp_all
    have "GetBasePipeline ?t k = GetBasePipeline s k" by (simp add: GetBasePipeline_def mt)
    then show ?thesis
      using searching_split [OF d(2) k(1)] block_head [OF can k(2)] base_iff [OF can k(2)] by auto
  qed
  show ?thesis
    using e searching_distinct [OF can d(2)] set part unfolding block_def mt
    by (intro exI [of _ e]) simp
qed

definition scan_ref :: "nat \<Rightarrow> phys_ref" where
  "scan_ref i = Ref i TABLE_SCAN J_INVALID None"

text \<open>A group-by over a join of two scans, the build side filtered.\<close>

definition sample_plan :: "JoinType \<Rightarrow> phys_op" where
  "sample_plan jt = ResultCollector (Ref 0 RESULT_COLLECTOR J_INVALID None)
     (Breaker (Ref 1 (OTHER_TYPE ''HASH_GROUP_BY'') J_INVALID None)
       (Join (Ref 2 HASH_JOIN jt None) (Leaf (scan_ref 3)) (Streaming (Ref 4 (OTHER_TYPE ''FILTER'') J_INVALID None) (Leaf (scan_ref 5)))))"

lemma sample_plan_fine: "plan_ok (sample_plan jt)" "no_linked_scans (sample_plan jt)" "plan_supported (sample_plan jt)"
  by (simp_all add: sample_plan_def scan_ref_def not_hash_join_def join_supported_def)

theorem Initialize_schedules_witness:
  "\<exists>fuel e. Executor_Initialize fuel (sample_plan J_RIGHT) GPUExecutor_new = Some (Inr (), e) \<and> distinct (scheduled e)"
proof -
  obtain s where s: "build_root (sample_plan J_RIGHT) = (Inr (), s)"
    using build_root_supported [OF sample_plan_fine(2)] sample_plan_fine(3) by (metis prod.collapse)
  from Initialize_schedules [OF sample_plan_fine(1) s order_refl] show ?thesis by blast
qed

section \<open>Running the pipelines\<close>

text \<open>The virtual methods of the operators, on a world \<open>'w\<close> of everything the operators and the
  buffer manager keep and relations \<open>'r\<close>, which the methods fill in place: \<open>op_Execute r input output\<close>
  returns both as it leaves them.\<close>

record ('w, 'r) operator_methods =
  new_relation :: "nat \<Rightarrow> 'r"
  types_size :: "phys_ref \<Rightarrow> nat"
  GetDataDuckDB :: "phys_ref \<Rightarrow> ('w, unit) act"
  op_GetData :: "phys_ref \<Rightarrow> 'r \<Rightarrow> ('w, 'r) act"
  op_Execute :: "phys_ref \<Rightarrow> 'r \<Rightarrow> 'r \<Rightarrow> ('w, 'r \<times> 'r) act"
  op_Sink :: "phys_ref \<Rightarrow> 'r \<Rightarrow> ('w, 'r) act"

definition fallback_queries :: "(string \<times> string) list" where
  "fallback_queries =
     [(''SELECT * FROM hits WHERE URL LIKE '' @ [CHR 0x27] @ ''%google%'' @ [CHR 0x27] @ '' ORDER BY EventTime LIMIT 10;'',
       ''ClickBench Q24'')]"

definition check_fallback_queries :: "string \<Rightarrow> unit res" where
  "check_fallback_queries query = (case map_of fallback_queries query of
     Some name \<Rightarrow> Inl (InternalException (''Fallback unsupported queries: '' @ name))
   | None \<Rightarrow> Inr ())"

text \<open>The loop over \<open>current_idx\<close>: \<open>rels\<close> holds the intermediate relations, \<open>final\<close> the last one.\<close>

fun run_operators ::
  "('w, 'r) operator_methods \<Rightarrow> nat \<Rightarrow> phys_ref list \<Rightarrow> 'r list \<Rightarrow> 'r \<Rightarrow> ('w, 'r list \<times> 'r) act" where
  "run_operators M current_idx [] rels final = act_return (rels, final)"
| "run_operators M current_idx (r # rs) rels final =
     act_bind (op_Execute M r (rels ! (current_idx - 1))
         (if length rels \<le> current_idx then final else rels ! current_idx)) (\<lambda>(prev, cur).
       run_operators M (current_idx + 1) rs
         ((if length rels \<le> current_idx then rels else rels[current_idx := cur])[current_idx - 1 := prev])
         (if length rels \<le> current_idx then cur else final))"

definition run_pipeline :: "('w, 'r) operator_methods \<Rightarrow> gpu_pipeline \<Rightarrow> ('w, unit) act" where
  "run_pipeline M p = (case p_source p of
     None \<Rightarrow> act_throw (UndefinedBehaviour ''null source'')
   | Some src \<Rightarrow>
      let rs = p_operators p;
          rels = map (\<lambda>i. new_relation M (types_size M (if i = 0 then src else rs ! (i - 1)))) [0..<length rs];
          final = new_relation M (types_size M (if rs = [] then src else last rs))
      in act_bind (if op_type src = TABLE_SCAN then GetDataDuckDB M src else act_return ()) (\<lambda>_.
         act_bind (op_GetData M src (if rs = [] then final else rels ! 0)) (\<lambda>rel.
         act_bind (run_operators M 1 rs (if rs = [] then rels else rels[0 := rel]) (if rs = [] then rel else final)) (\<lambda>(_, out).
         case p_sink p of None \<Rightarrow> act_return () | Some snk \<Rightarrow> act_bind (op_Sink M snk out) (\<lambda>_. act_return ())))))"

fun run_scheduled :: "('w, 'r) operator_methods \<Rightarrow> build_state \<Rightarrow> nat list \<Rightarrow> ('w, unit) act" where
  "run_scheduled M s [] = act_return ()"
| "run_scheduled M s (p # ps) = act_bind (run_pipeline M (the_pipeline s p)) (\<lambda>_. run_scheduled M s ps)"

definition Executor_Execute :: "('w, 'r) operator_methods \<Rightarrow> string \<Rightarrow> executor \<Rightarrow> ('w, unit) act" where
  "Executor_Execute M query e =
     act_bind (act_lift (check_fallback_queries query)) (\<lambda>_. run_scheduled M (ex_build e) (scheduled e))"

text \<open>What a pipeline means: the data of the source through the operators in turn into the sink, each
  operator given a new relation with a column for each of its types.\<close>

fun flow :: "('w, 'r) operator_methods \<Rightarrow> phys_ref list \<Rightarrow> 'r \<Rightarrow> ('w, 'r) act" where
  "flow M [] rel = act_return rel"
| "flow M (r # rs) rel =
     act_bind (op_Execute M r rel (new_relation M (types_size M r))) (\<lambda>(_, out). flow M rs out)"

definition pipeline_flow :: "('w, 'r) operator_methods \<Rightarrow> phys_ref \<Rightarrow> phys_ref list \<Rightarrow> phys_ref option \<Rightarrow> ('w, unit) act" where
  "pipeline_flow M src rs snk =
     act_bind (if op_type src = TABLE_SCAN then GetDataDuckDB M src else act_return ()) (\<lambda>_.
     act_bind (op_GetData M src (new_relation M (types_size M src))) (\<lambda>rel.
     act_bind (flow M rs rel) (\<lambda>out.
     case snk of None \<Rightarrow> act_return () | Some r \<Rightarrow> act_bind (op_Sink M r out) (\<lambda>_. act_return ()))))"

lemma act_bind_cong1: "(\<And>x t. m s = (Inr x, t) \<Longrightarrow> k x t = h x t) \<Longrightarrow> act_bind m k s = act_bind m h s"
  by (auto simp: act_bind_def split: prod.splits sum.splits)

text \<open>\<open>k\<close> operators are left; the relations they write are still as they were made.\<close>

lemma run_operators_flow:
  "rs \<noteq> [] \<Longrightarrow> 0 < cur \<Longrightarrow> length rels + 1 = cur + length rs \<Longrightarrow> final = new_relation M (types_size M (last rs)) \<Longrightarrow>
   (\<forall>i. i + 1 < length rs \<longrightarrow> rels ! (cur + i) = new_relation M (types_size M (rs ! i))) \<Longrightarrow>
   act_bind (run_operators M cur rs rels final) (\<lambda>(_, out). k out) s = act_bind (flow M rs (rels ! (cur - 1))) k s"
proof (induction rs arbitrary: cur rels s)
  case (Cons r rs)
  show ?case
  proof (cases "rs = []")
    case True
    then have "length rels \<le> cur" "final = new_relation M (types_size M r)" using Cons.prems(3,4) by simp_all
    then show ?thesis using True
      by (simp add: act_bind_assoc case_prod_unfold) (rule act_bind_cong1, simp add: act_simps)
  next
    case False
    then have cur: "\<not> length rels \<le> cur" using Cons.prems(3) by (cases rs) simp_all
    have out: "rels ! cur = new_relation M (types_size M r)" using Cons.prems(5) False by (auto dest: spec [of _ 0])
    have "act_bind (run_operators M (cur + 1) rs ((rels[cur := b])[cur - 1 := a]) final) (\<lambda>(_, out). k out) t =
        act_bind (flow M rs b) k t" for a b t
    proof -
      have "((rels[cur := b])[cur - 1 := a]) ! (cur + 1 - 1) = b" using cur Cons.prems(2) by simp
      moreover have "act_bind (run_operators M (cur + 1) rs ((rels[cur := b])[cur - 1 := a]) final) (\<lambda>(_, out). k out) t =
        act_bind (flow M rs (((rels[cur := b])[cur - 1 := a]) ! (cur + 1 - 1))) k t"
      proof (rule Cons.IH [OF False])
        show "\<forall>i. i + 1 < length rs \<longrightarrow> ((rels[cur := b])[cur - 1 := a]) ! (cur + 1 + i) = new_relation M (types_size M (rs ! i))"
        proof (intro allI impI)
          fix i assume "i + 1 < length rs"
          then have "rels ! (cur + Suc i) = new_relation M (types_size M ((r # rs) ! Suc i))"
            using Cons.prems(5) [rule_format, of "Suc i"] by (simp del: add_Suc_right)
          then show "((rels[cur := b])[cur - 1 := a]) ! (cur + 1 + i) = new_relation M (types_size M (rs ! i))"
            using Cons.prems(2) by simp
        qed
      qed (use Cons.prems False in auto)
      ultimately show ?thesis by simp
    qed
    then have "act_bind (run_operators M (cur + 1) rs ((rels[cur := b])[cur - 1 := a]) final) (\<lambda>p. k (snd p)) =
        act_bind (flow M rs b) k" for a b
      by (intro ext) (simp add: case_prod_unfold)
    then show ?thesis using cur out Cons.prems(2)
      by (simp add: act_bind_assoc case_prod_unfold)
  qed
qed simp

lemma run_pipeline_flow:
  assumes "p_source p = Some src"
  shows "run_pipeline M p w = pipeline_flow M src (p_operators p) (p_sink p) w"
proof (cases "p_operators p = []")
  case True
  with assms show ?thesis
    by (simp add: run_pipeline_def pipeline_flow_def Let_def act_bind_return_left)
next
  case False
  let ?rs = "p_operators p"
  let ?rels = "map (\<lambda>i. new_relation M (types_size M (if i = 0 then src else ?rs ! (i - 1)))) [0..<length ?rs]"
  have "act_bind (run_operators M 1 ?rs (?rels[0 := rel]) (new_relation M (types_size M (last ?rs)))) (\<lambda>(_, out). k out) t =
      act_bind (flow M ?rs rel) k t" for rel k t
    using run_operators_flow [OF False, of 1 "?rels[0 := rel]" _ M k t] False by simp
  then have "act_bind (run_operators M 1 ?rs (?rels[0 := rel]) (new_relation M (types_size M (last ?rs)))) (\<lambda>(_, out). k out) =
      act_bind (flow M ?rs rel) k" for rel k
    by (rule ext)
  note run = this
  have "?rels ! 0 = new_relation M (types_size M src)" using False by simp
  then show ?thesis
    unfolding run_pipeline_def pipeline_flow_def Let_def assms option.case by (simp only: if_not_P [OF False] run)
qed

text \<open>C6: running a query runs its scheduled pipelines in order, each as the flow of its source's data
  through its operators into its sink, and stops at the first error; a query on the fallback list
  fails before any of them.\<close>

theorem Execute_flows:
  assumes "\<forall>p \<in> set (scheduled e). p_source (the_pipeline (ex_build e) p) \<noteq> None"
  shows "Executor_Execute M query e w =
    (case map_of fallback_queries query of
       Some name \<Rightarrow> (Inl (InternalException (''Fallback unsupported queries: '' @ name)), w)
     | None \<Rightarrow> foldr (\<lambda>p rest. act_bind (pipeline_flow M (the (p_source (the_pipeline (ex_build e) p)))
         (p_operators (the_pipeline (ex_build e) p)) (p_sink (the_pipeline (ex_build e) p))) (\<lambda>_. rest))
         (scheduled e) (act_return ()) w)"
proof -
  have "run_scheduled M s ps w = foldr (\<lambda>p rest. act_bind (pipeline_flow M (the (p_source (the_pipeline s p)))
      (p_operators (the_pipeline s p)) (p_sink (the_pipeline s p))) (\<lambda>_. rest)) ps (act_return ()) w"
    if "\<forall>p \<in> set ps. p_source (the_pipeline s p) \<noteq> None" for s ps w
    using that
  proof (induction ps arbitrary: w)
    case (Cons p ps)
    then obtain src where "p_source (the_pipeline s p) = Some src" by auto
    from run_pipeline_flow [OF this, of M w] this Cons show ?case
      by (simp add: act_bind_def split: prod.splits sum.splits)
  qed simp
  with assms show ?thesis
    by (simp add: Executor_Execute_def check_fallback_queries_def act_bind_def act_lift_def split: option.split)
qed

definition counting_methods :: "(phys_ref list, nat) operator_methods" where
  "counting_methods = \<lparr>new_relation = (\<lambda>n. n), types_size = (\<lambda>r. op_id r),
     GetDataDuckDB = (\<lambda>r w. (Inr (), w @ [r])), op_GetData = (\<lambda>r rel w. (Inr (rel + 1), w @ [r])),
     op_Execute = (\<lambda>r i out w. (Inr (i, i + out), w @ [r])), op_Sink = (\<lambda>r i w. (Inr i, w @ [r]))\<rparr>"

definition one_pipeline :: executor where
  "one_pipeline = GPUExecutor_new\<lparr>ex_build := empty_build\<lparr>bs_pipelines := [GPUPipeline_new\<lparr>p_source := Some (scan_ref 3),
     p_operators := [Ref 4 (OTHER_TYPE ''FILTER'') J_INVALID None], p_sink := Some (Ref 1 CTE J_INVALID None)\<rparr>]\<rparr>,
     scheduled := [0]\<rparr>"

theorem Execute_flows_witness:
  "Executor_Execute counting_methods ''SELECT 1'' one_pipeline [] =
     (Inr (), [scan_ref 3, scan_ref 3, Ref 4 (OTHER_TYPE ''FILTER'') J_INVALID None, Ref 1 CTE J_INVALID None])"
  by (subst Execute_flows)
    (simp_all add: one_pipeline_def GPUExecutor_new_def empty_build_def GPUPipeline_new_def counting_methods_def
      fallback_queries_def pipeline_flow_def act_bind_def act_return_def scan_ref_def)

end
