(* ===== verification/Kernel_Grid.thy ===== *)
theory Kernel_Grid
  imports Prelude "HOL-Library.Multiset"
begin

text \<open>
  What the CUDA kernels share (\<open>src/src/cuda/operator/cuda_helper.cuh\<close>): the rows a thread works on,
  the place a thread gets for its results (a block-wide prefix sum of the result counts and an
  atomic addition to a global counter, in the order the blocks arrive), and what stands in an array
  after all threads wrote to it in any order.  Row and slot numbers are \<open>nat\<close>: they stay far below
  \<open>2 ^ 64\<close>.  The counts a block adds up are 32-bit integers, as in the code.
\<close>

section \<open>Rows of a thread\<close>

definition BLOCK_THREADS :: nat where "BLOCK_THREADS = 128"
definition ITEMS_PER_THREAD :: nat where "ITEMS_PER_THREAD = 4"

abbreviation tile_size :: nat where "tile_size \<equiv> BLOCK_THREADS * ITEMS_PER_THREAD"

definition num_tiles :: "nat \<Rightarrow> nat" where
  "num_tiles N = (N + tile_size - 1) div tile_size"

definition num_tile_items :: "nat \<Rightarrow> nat \<Rightarrow> nat" where
  "num_tile_items N block = (if block + 1 = num_tiles N then N - block * tile_size else tile_size)"

definition thread_items :: "nat \<Rightarrow> nat \<Rightarrow> nat \<Rightarrow> nat list" where
  "thread_items N block thread =
     map (\<lambda>ITEM. block * tile_size + thread + ITEM * BLOCK_THREADS)
       (filter (\<lambda>ITEM. thread + ITEM * BLOCK_THREADS < num_tile_items N block) [0..<ITEMS_PER_THREAD])"

definition block_items :: "nat \<Rightarrow> nat \<Rightarrow> nat list" where
  "block_items N block = concat (map (thread_items N block) [0..<BLOCK_THREADS])"

lemma tile_size_eq: "tile_size = 512"
  by (simp add: BLOCK_THREADS_def ITEMS_PER_THREAD_def)

lemma tiles_cover: "block < num_tiles N \<Longrightarrow> num_tile_items N block = min tile_size (N - block * tile_size)"
  unfolding num_tile_items_def num_tiles_def tile_size_eq by (cases "block + 1 = (N + 512 - 1) div 512") auto

lemma thread_items_set:
  assumes "block < num_tiles N" and "thread < BLOCK_THREADS"
  shows "set (thread_items N block thread) =
    {r. r < N \<and> r div tile_size = block \<and> (r mod tile_size) mod BLOCK_THREADS = thread}"
proof (intro set_eqI iffI)
  fix r assume "r \<in> set (thread_items N block thread)"
  then obtain i where i: "i < 4" "thread + i * 128 < num_tile_items N block" "r = block * 512 + thread + i * 128"
    by (auto simp: thread_items_def BLOCK_THREADS_def ITEMS_PER_THREAD_def)
  have "thread + i * 128 < 512" "thread + i * 128 < N - block * 512"
    using i(2) tiles_cover [OF assms(1)] by (simp_all add: tile_size_eq)
  moreover have "r = 512 * block + (thread + i * 128)" using i(3) by simp
  ultimately have "r < N" "r div 512 = block" "r mod 512 = thread + i * 128" by simp_all
  then show "r \<in> {r. r < N \<and> r div tile_size = block \<and> (r mod tile_size) mod BLOCK_THREADS = thread}"
    using assms(2) by (simp add: tile_size_eq) (simp add: BLOCK_THREADS_def)
next
  fix r assume "r \<in> {r. r < N \<and> r div tile_size = block \<and> (r mod tile_size) mod BLOCK_THREADS = thread}"
  then have r: "r < N" "r div 512 = block" "(r mod 512) mod 128 = thread"
    unfolding tile_size_eq by (simp_all add: BLOCK_THREADS_def)
  let ?i = "(r mod 512) div 128"
  have m: "r mod 512 = thread + ?i * 128" using r(3) div_mult_mod_eq [of "r mod 512" 128] by simp
  have d: "r = block * 512 + r mod 512" using r(2) div_mult_mod_eq [of r 512] by simp
  have "?i < 4" by simp
  moreover have "thread + ?i * 128 < num_tile_items N block"
    unfolding tiles_cover [OF assms(1)] tile_size_eq m [symmetric] using d r(1) by simp
  moreover have "r = block * 512 + thread + ?i * 128" using d m by simp
  ultimately show "r \<in> set (thread_items N block thread)"
    unfolding thread_items_def tile_size_eq set_map set_filter
    by (intro image_eqI [of _ _ ?i]) (simp_all add: BLOCK_THREADS_def ITEMS_PER_THREAD_def)
qed

lemma thread_items_distinct: "distinct (thread_items N block thread)"
  by (auto simp: thread_items_def BLOCK_THREADS_def distinct_map intro!: inj_onI)

lemma distinct_concat_disjoint:
  assumes "distinct xs" and "\<And>x. x \<in> set xs \<Longrightarrow> distinct (f x)"
    and "\<And>x y. x \<in> set xs \<Longrightarrow> y \<in> set xs \<Longrightarrow> x \<noteq> y \<Longrightarrow> set (f x) \<inter> set (f y) = {}"
  shows "distinct (concat (map f xs))"
  using assms
proof (induction xs)
  case (Cons x xs)
  have "set (f x) \<inter> set (f y) = {}" if "y \<in> set xs" for y
    using Cons.prems(1,3) that by (intro Cons.prems(3)) auto
  moreover have "distinct (concat (map f xs))" using Cons.prems by (intro Cons.IH) auto
  ultimately show ?case using Cons.prems(2) by auto
qed simp

lemma block_items_set:
  assumes "block < num_tiles N"
  shows "set (block_items N block) = {r. r < N \<and> r div tile_size = block}"
proof -
  have "(r mod tile_size) mod BLOCK_THREADS < BLOCK_THREADS" for r by (simp add: BLOCK_THREADS_def)
  then show ?thesis
    using thread_items_set [OF assms] by (auto simp: block_items_def)
qed

lemma block_items_distinct:
  assumes "block < num_tiles N"
  shows "distinct (block_items N block)"
  unfolding block_items_def
  by (rule distinct_concat_disjoint) (use thread_items_set [OF assms] thread_items_distinct in auto)

text \<open>Whatever the order of the blocks, every row is worked on exactly once.\<close>

lemma grid_covers:
  assumes "mset order = mset [0..<num_tiles N]"
  shows "mset (concat (map (block_items N) order)) = mset [0..<N]"
proof -
  have order: "set order = {0..<num_tiles N}" "distinct order"
    using assms mset_eq_setD [OF assms] mset_eq_imp_distinct_iff [OF assms] by auto
  have "distinct (concat (map (block_items N) order))"
    by (rule distinct_concat_disjoint) (use order block_items_distinct block_items_set in auto)
  moreover have "set (concat (map (block_items N) order)) = {0..<N}"
  proof -
    have "r div tile_size < num_tiles N" if "r < N" for r
      using that unfolding num_tiles_def tile_size_eq by simp
    then show ?thesis using order(1) block_items_set by auto
  qed
  ultimately show ?thesis by (metis distinct_upt set_eq_iff_mset_eq_distinct set_upt)
qed

section \<open>Scattered writes\<close>

definition write_each :: "(nat \<times> 'a) list \<Rightarrow> 'a list \<Rightarrow> 'a list" where
  "write_each ws arr = fold (\<lambda>(i, v) a. a[i := v]) ws arr"

lemma write_each_length [simp]: "length (write_each ws arr) = length arr"
  unfolding write_each_def by (induction ws arbitrary: arr) auto

lemma write_each_other: "i \<notin> fst ` set ws \<Longrightarrow> write_each ws arr ! i = arr ! i"
  unfolding write_each_def by (induction ws arbitrary: arr) auto

lemma write_each_at:
  "distinct (map fst ws) \<Longrightarrow> (i, v) \<in> set ws \<Longrightarrow> i < length arr \<Longrightarrow> write_each ws arr ! i = v"
proof (induction ws arbitrary: arr)
  case (Cons w ws)
  show ?case
  proof (cases "w = (i, v)")
    case True
    then have "i \<notin> fst ` set ws" using Cons.prems(1) by simp
    then show ?thesis using True Cons.prems(3) write_each_other [of i ws "arr[i := v]"]
      by (simp add: write_each_def)
  next
    case False
    then show ?thesis using Cons by (simp add: write_each_def case_prod_beta)
  qed
qed simp

text \<open>Writes of \<open>xs\<close> from \<open>off\<close> on, in any order: the array holds \<open>xs\<close> there and is otherwise as before.\<close>

lemma write_each_segment:
  assumes ws: "mset ws = mset (enumerate off xs)" and fits: "off + length xs \<le> length arr"
  shows "write_each ws arr = take off arr @ xs @ drop (off + length xs) arr"
proof (rule nth_equalityI)
  note ws = ws [unfolded enumerate_eq_zip]
  have "map fst (zip [off..<off + length xs] xs) = [off..<off + length xs]" by simp
  then have "mset (map fst ws) = mset [off..<off + length xs]" by (metis ws mset_map)
  then have dist: "distinct (map fst ws)" and dom: "fst ` set ws = {off..<off + length xs}"
    using mset_eq_imp_distinct_iff mset_eq_setD [of "map fst ws" "[off..<off + length xs]"]
    by (metis distinct_upt, simp only: set_map set_upt)
  have set: "set ws = set (zip [off..<off + length xs] xs)" by (rule mset_eq_setD [OF ws])
  fix i assume "i < length (write_each ws arr)"
  then have i: "i < length arr" by simp
  consider "i < off" | "off \<le> i" "i < off + length xs" | "off + length xs \<le> i" by linarith
  then show "write_each ws arr ! i = (take off arr @ xs @ drop (off + length xs) arr) ! i"
  proof cases
    case 1
    then have "i \<notin> fst ` set ws" using dom by simp
    then show ?thesis using 1 i fits by (simp add: write_each_other nth_append)
  next
    case 2
    then have less: "i - off < length xs" by simp
    from 2 have "(i, xs ! (i - off)) \<in> set ws"
      unfolding set set_zip by (intro CollectI exI [of _ "i - off"]) simp
    then show ?thesis using 2 less write_each_at [OF dist _ i] fits by (simp add: nth_append)
  next
    case 3
    then have "i \<notin> fst ` set ws" "\<not> i - off < length xs" "\<not> i < off" using dom by auto
    then show ?thesis using 3 i fits by (simp add: write_each_other nth_append)
  qed
qed (use fits in simp)

section \<open>Places for the results\<close>

text \<open>\<open>cnt block thread\<close> is the number of results of a thread.  \<open>BlockScan::ExclusiveSum\<close> over the
  32-bit counts, and the \<open>atomicAdd\<close> of the last thread of each block.\<close>

definition c_t_count :: "(nat \<Rightarrow> nat) \<Rightarrow> nat \<Rightarrow> 32 word" where
  "c_t_count cnt thread = (\<Sum>t<thread. of_nat (cnt t))"

definition block_total :: "(nat \<Rightarrow> nat) \<Rightarrow> u64" where
  "block_total cnt = scast (of_nat (cnt (BLOCK_THREADS - 1)) :: 32 word) + scast (c_t_count cnt (BLOCK_THREADS - 1))"

fun block_offs :: "(nat \<Rightarrow> nat \<Rightarrow> nat) \<Rightarrow> nat list \<Rightarrow> u64 \<Rightarrow> (nat \<times> u64) list" where
  "block_offs cnt [] sofar = []"
| "block_offs cnt (b # bs) sofar = (b, sofar) # block_offs cnt bs (sofar + block_total (cnt b))"

definition final_count :: "(nat \<Rightarrow> nat \<Rightarrow> nat) \<Rightarrow> nat list \<Rightarrow> u64" where
  "final_count cnt order = fold (\<lambda>b sofar. sofar + block_total (cnt b)) order 0"

text \<open>The writes of all threads: thread \<open>t\<close> of block \<open>b\<close> writes \<open>outs b t\<close> from its place on.\<close>

definition kernel_writes :: "(nat \<Rightarrow> nat \<Rightarrow> nat) \<Rightarrow> (nat \<Rightarrow> nat \<Rightarrow> 'a list) \<Rightarrow> nat list \<Rightarrow> (nat \<times> 'a) list" where
  "kernel_writes cnt outs order = concat (map (\<lambda>(b, block_off).
     concat (map (\<lambda>t. enumerate (unat (block_off + scast (c_t_count (cnt b) t))) (outs b t)) [0..<BLOCK_THREADS]))
     (block_offs cnt order 0))"

definition block_outs :: "(nat \<Rightarrow> nat \<Rightarrow> 'a list) \<Rightarrow> nat \<Rightarrow> 'a list" where
  "block_outs outs b = concat (map (outs b) [0..<BLOCK_THREADS])"

definition small_blocks :: "(nat \<Rightarrow> nat \<Rightarrow> nat) \<Rightarrow> nat list \<Rightarrow> bool" where
  "small_blocks cnt order \<longleftrightarrow> (\<forall>b \<in> set order. (\<Sum>t<BLOCK_THREADS. cnt b t) < 2 ^ 31) \<and>
     (\<Sum>b\<leftarrow>order. \<Sum>t<BLOCK_THREADS. cnt b t) < 2 ^ 64"

lemma unat_scast_small:
  assumes "n < 2 ^ 31"
  shows "unat (scast (of_nat n :: 32 word) :: u64) = n"
proof -
  have "sint (of_nat n :: 32 word) = signed_take_bit 31 (int n)" by transfer simp
  also have "\<dots> = int n" using assms by (intro signed_take_bit_int_eq_self) simp_all
  finally have "sint (of_nat n :: 32 word) = int n" .
  then have "(scast (of_nat n :: 32 word) :: u64) = of_nat n" by (metis of_int_of_nat_eq of_int_sint)
  then show ?thesis using assms by (simp add: unat_of_nat take_bit_nat_eq_self)
qed

lemma c_t_count_nat: "c_t_count cnt t = of_nat (\<Sum>i<t. cnt i)"
  by (simp add: c_t_count_def)

lemma block_total_nat:
  assumes "(\<Sum>t<BLOCK_THREADS. cnt t) < 2 ^ 31"
  shows "unat (block_total cnt) = (\<Sum>t<BLOCK_THREADS. cnt t)"
proof -
  obtain T where T: "BLOCK_THREADS = Suc T" by (simp add: BLOCK_THREADS_def numeral_eq_Suc)
  have sum: "(\<Sum>t<BLOCK_THREADS. cnt t) = (\<Sum>t<T. cnt t) + cnt T" by (simp add: T)
  have "unat (scast (of_nat (cnt T) :: 32 word) :: u64) = cnt T"
    "unat (scast (of_nat (\<Sum>i<T. cnt i) :: 32 word) :: u64) = (\<Sum>i<T. cnt i)"
    using assms sum by (intro unat_scast_small; linarith)+
  then show ?thesis
    unfolding block_total_def c_t_count_nat T diff_Suc_1
    by (subst unat_add_no_wrap) (use assms sum T in simp_all)
qed

lemma thread_writes:
  assumes "unat off + (\<Sum>t<T. length (outs t)) < 2 ^ 64" and "(\<Sum>t<T. length (outs t)) < 2 ^ 31"
  shows "concat (map (\<lambda>t. enumerate (unat (off + scast (c_t_count (\<lambda>t. length (outs t)) t))) (outs t)) [0..<T]) =
    enumerate (unat (off :: u64)) (concat (map outs [0..<T]))"
  using assms
proof (induction T)
  case (Suc T)
  let ?s = "\<Sum>t<T. length (outs t)"
  have s: "?s < 2 ^ 31" "unat off + ?s < 2 ^ 64" using Suc.prems by simp_all
  have "unat (off + scast (c_t_count (\<lambda>t. length (outs t)) T)) = unat off + ?s"
    unfolding c_t_count_nat by (subst unat_add_no_wrap) (use s in \<open>simp_all only: unat_scast_small\<close>)
  moreover have "length (concat (map outs [0..<T])) = ?s"
    by (simp add: length_concat comp_def interv_sum_list_conv_sum_set_nat atLeast0LessThan)
  ultimately show ?case using Suc.IH s by (simp add: enumerate_append_eq)
qed simp

lemma block_outs_length: "length (block_outs outs b) = (\<Sum>t<BLOCK_THREADS. length (outs b t))"
  by (simp add: block_outs_def length_concat comp_def interv_sum_list_conv_sum_set_nat atLeast0LessThan)

lemma kernel_writes_enumerate:
  assumes "small_blocks (\<lambda>b t. length (outs b t)) order"
  shows "kernel_writes (\<lambda>b t. length (outs b t)) outs order = enumerate 0 (concat (map (block_outs outs) order))"
    and "unat (final_count (\<lambda>b t. length (outs b t)) order) = length (concat (map (block_outs outs) order))"
proof -
  let ?cnt = "\<lambda>b t. length (outs b t)"
  have main: "concat (map (\<lambda>(b, off). concat (map (\<lambda>t. enumerate (unat (off + scast (c_t_count (?cnt b) t))) (outs b t))
      [0..<BLOCK_THREADS])) (block_offs ?cnt bs sofar)) = enumerate (unat sofar) (concat (map (block_outs outs) bs)) \<and>
      unat (fold (\<lambda>b sofar. sofar + block_total (?cnt b)) bs sofar) = unat sofar + length (concat (map (block_outs outs) bs))"
    if "\<forall>b \<in> set bs. (\<Sum>t<BLOCK_THREADS. ?cnt b t) < 2 ^ 31"
      and "unat sofar + (\<Sum>b\<leftarrow>bs. \<Sum>t<BLOCK_THREADS. ?cnt b t) < 2 ^ 64" for bs sofar
    using that
  proof (induction bs arbitrary: sofar)
    case (Cons b bs)
    let ?s = "\<Sum>t<BLOCK_THREADS. ?cnt b t"
    have b: "?s < 2 ^ 31" "unat sofar + ?s < 2 ^ 64" using Cons.prems by simp_all
    have "unat (sofar + block_total (?cnt b)) = unat sofar + ?s"
      by (subst unat_add_no_wrap) (use b block_total_nat [OF b(1)] in simp_all)
    moreover from this have "unat (sofar + block_total (?cnt b)) + (\<Sum>b\<leftarrow>bs. \<Sum>t<BLOCK_THREADS. ?cnt b t) < 2 ^ 64"
      using Cons.prems(2) by simp
    ultimately show ?case
      using Cons.IH [of "sofar + block_total (?cnt b)"] Cons.prems(1) thread_writes [OF b(2,1)] block_outs_length [of outs b]
      by (simp add: block_outs_def enumerate_append_eq)
  qed simp
  show "kernel_writes ?cnt outs order = enumerate 0 (concat (map (block_outs outs) order))"
    "unat (final_count ?cnt order) = length (concat (map (block_outs outs) order))"
    using main [of order 0] assms by (simp_all add: small_blocks_def kernel_writes_def final_count_def)
qed

text \<open>Outputs that come row by row: after the writes in any order, the array starts with the outputs of
  the rows, each row once, in the order the blocks arrived.\<close>

definition row_outs :: "nat \<Rightarrow> (nat \<Rightarrow> 'a list) \<Rightarrow> nat \<Rightarrow> nat \<Rightarrow> 'a list" where
  "row_outs N out b t = concat (map out (thread_items N b t))"

lemma concat_map_nested: "concat (map (\<lambda>t. concat (map out (f t))) ts) = concat (map out (concat (map f ts)))"
  by (induction ts) auto

lemma block_outs_rows: "block_outs (row_outs N out) b = concat (map out (block_items N b))"
  unfolding block_outs_def row_outs_def block_items_def by (rule concat_map_nested)

lemma concat_block_outs:
  "concat (map (block_outs (row_outs N out)) order) = concat (map out (concat (map (block_items N) order)))"
  unfolding block_outs_rows by (induction order) auto

definition arrival_rows :: "nat \<Rightarrow> nat list \<Rightarrow> nat list" where
  "arrival_rows N order = concat (map (block_items N) order)"

lemma arrival_rows_mset: "mset order = mset [0..<num_tiles N] \<Longrightarrow> mset (arrival_rows N order) = mset [0..<N]"
  unfolding arrival_rows_def by (rule grid_covers)

abbreviation row_counts :: "nat \<Rightarrow> (nat \<Rightarrow> 'a list) \<Rightarrow> nat \<Rightarrow> nat \<Rightarrow> nat" where
  "row_counts N out \<equiv> \<lambda>b t. length (row_outs N out b t)"

lemma row_counts_cong: "(\<And>r. length (f r) = length (g r)) \<Longrightarrow> row_counts N f = row_counts N g"
  by (simp add: row_outs_def length_concat comp_def)

lemma kernel_result:
  assumes small: "small_blocks (row_counts N out) order"
    and ws: "mset ws = mset (kernel_writes (row_counts N out) (row_outs N out) order)"
    and fits: "unat (final_count (row_counts N out) order) \<le> length arr"
  shows "unat (final_count (row_counts N out) order) = length (concat (map out (arrival_rows N order)))"
    and "write_each ws arr = concat (map out (arrival_rows N order)) @ drop (unat (final_count (row_counts N out) order)) arr"
proof -
  note kw = kernel_writes_enumerate [OF small, unfolded concat_block_outs, folded arrival_rows_def]
  show "unat (final_count (row_counts N out) order) = length (concat (map out (arrival_rows N order)))" by (rule kw(2))
  show "write_each ws arr = concat (map out (arrival_rows N order)) @ drop (unat (final_count (row_counts N out) order)) arr"
    using write_each_segment [of ws 0 "concat (map out (arrival_rows N order))" arr] ws fits unfolding kw by simp
qed

text \<open>Kernels that select rows: no thread has more results than rows.\<close>

lemma block_items_length: "length (block_items N b) \<le> 512"
proof -
  have "length (thread_items N b t) \<le> 4" for t
    using length_filter_le [of "\<lambda>ITEM. t + ITEM * BLOCK_THREADS < num_tile_items N b" "[0..<ITEMS_PER_THREAD]"]
    by (simp add: thread_items_def ITEMS_PER_THREAD_def)
  then have "(\<Sum>t\<leftarrow>ts. length (thread_items N b t)) \<le> length ts * 4" for ts
    by (induction ts) (auto intro: add_mono)
  from this [of "[0..<BLOCK_THREADS]"] show ?thesis
    by (simp add: block_items_def length_concat comp_def BLOCK_THREADS_def)
qed

lemma length_concat_single:
  assumes "\<And>r. length (out r) \<le> 1"
  shows "length (concat (map out rs)) \<le> length rs"
proof (induction rs)
  case (Cons a rs)
  then show ?case using assms [of a] by simp
qed simp

lemma small_blocks_single:
  assumes single: "\<And>r. length (out r) \<le> 1" and order: "mset order = mset [0..<num_tiles N]" and N: "N < 2 ^ 64"
  shows "small_blocks (row_counts N out) order"
proof -
  have block: "(\<Sum>t<BLOCK_THREADS. length (row_outs N out b t)) = length (concat (map out (block_items N b)))" for b
    using block_outs_length [of "row_outs N out" b] by (simp add: block_outs_rows)
  have "(\<Sum>t<BLOCK_THREADS. length (row_outs N out b t)) < 2 ^ 31" for b
    unfolding block using length_concat_single [of out "block_items N b"] single block_items_length [of N b] by simp
  moreover have "(\<Sum>b\<leftarrow>order. \<Sum>t<BLOCK_THREADS. length (row_outs N out b t)) < 2 ^ 64"
  proof -
    have "(\<Sum>b\<leftarrow>bs. length (concat (map out (block_items N b)))) = length (concat (map out (concat (map (block_items N) bs))))" for bs
      by (induction bs) auto
    then have "(\<Sum>b\<leftarrow>order. \<Sum>t<BLOCK_THREADS. length (row_outs N out b t)) = length (concat (map out (arrival_rows N order)))"
      unfolding block arrival_rows_def .
    also have "\<dots> \<le> length (arrival_rows N order)" by (rule length_concat_single [OF single])
    also have "\<dots> = N" using arrival_rows_mset [OF order] by (metis diff_zero length_upt size_mset)
    finally show ?thesis using N by simp
  qed
  ultimately show ?thesis by (simp add: small_blocks_def)
qed

lemma mset_concat_map_cong: "mset xs = mset ys \<Longrightarrow> mset (concat (map f xs)) = mset (concat (map f ys))"
proof -
  have "mset (concat (map f zs)) = sum_mset (image_mset (\<lambda>x. mset (f x)) (mset zs))" for zs
    by (induction zs) auto
  then show "mset xs = mset ys \<Longrightarrow> mset (concat (map f xs)) = mset (concat (map f ys))" by simp
qed

lemma concat_map_if: "concat (map (\<lambda>r. if P r then [g r] else []) rs) = map g (filter P rs)"
  by (induction rs) auto

text \<open>Two passes of a selecting kernel, one that counts and one that writes.\<close>

definition selection_result :: "nat \<Rightarrow> (nat \<Rightarrow> 'a list) \<Rightarrow> 'a list \<Rightarrow> u64 \<Rightarrow> bool" where
  "selection_result N out result sofar \<longleftrightarrow> (\<exists>order1 order2 ws arr.
     mset order1 = mset [0..<num_tiles N] \<and> mset order2 = mset [0..<num_tiles N] \<and>
     sofar = final_count (row_counts N out) order1 \<and> length arr = unat sofar \<and>
     mset ws = mset (kernel_writes (row_counts N out) (row_outs N out) order2) \<and> result = write_each ws arr)"

lemma selection_result_exists: "\<exists>result sofar. selection_result N out (result :: u64 list) sofar"
proof -
  let ?order = "[0..<num_tiles N]" and ?n = "unat (final_count (row_counts N out) [0..<num_tiles N])"
  have "selection_result N out (write_each (kernel_writes (row_counts N out) (row_outs N out) ?order) (replicate ?n 0))
      (final_count (row_counts N out) ?order)"
    unfolding selection_result_def
    by (rule exI [of _ ?order], rule exI [of _ ?order], rule exI [of _ "kernel_writes (row_counts N out) (row_outs N out) ?order"],
        rule exI [of _ "replicate ?n 0"]) simp
  then show ?thesis by blast
qed

lemma selection_result_mset:
  assumes "selection_result N out result sofar" and "\<And>r. length (out r) \<le> 1" and "N < 2 ^ 64"
  shows "mset result = mset (concat (map out [0..<N]))" and "unat sofar = length result"
proof -
  obtain order1 order2 ws arr where o: "mset order1 = mset [0..<num_tiles N]" "mset order2 = mset [0..<num_tiles N]"
    "sofar = final_count (row_counts N out) order1" "length arr = unat sofar"
    "mset ws = mset (kernel_writes (row_counts N out) (row_outs N out) order2)" "result = write_each ws arr"
    using assms(1) by (auto simp: selection_result_def)
  note s1 = small_blocks_single [OF assms(2) o(1) assms(3)] and s2 = small_blocks_single [OF assms(2) o(2) assms(3)]
  have eq: "mset (concat (map out (arrival_rows N order))) = mset (concat (map out [0..<N]))"
    if "mset order = mset [0..<num_tiles N]" for order
    by (rule mset_concat_map_cong) (rule arrival_rows_mset [OF that])
  have "unat (final_count (row_counts N out) order) = length (concat (map out [0..<N]))"
    if "mset order = mset [0..<num_tiles N]" "small_blocks (row_counts N out) order" for order
    using kernel_writes_enumerate(2) [OF that(2), unfolded concat_block_outs, folded arrival_rows_def]
      eq [OF that(1)] by (metis size_mset)
  note cnt = this [OF o(1) s1] this [OF o(2) s2]
  have "result = concat (map out (arrival_rows N order2)) @ drop (unat (final_count (row_counts N out) order2)) arr"
    unfolding o(6) by (rule kernel_result(2) [OF s2 o(5)]) (use cnt o(3,4) in simp)
  then have "result = concat (map out (arrival_rows N order2))" using cnt o(3,4) by simp
  with eq [OF o(2)] show "mset result = mset (concat (map out [0..<N]))" by simp
  then show "unat sofar = length result" using cnt(1) o(3) by (metis size_mset)
qed

text \<open>One pass of a selecting kernel.\<close>

lemma arrival_rows_length: "mset order = mset [0..<num_tiles N] \<Longrightarrow> length (arrival_rows N order) = N"
  using arrival_rows_mset by (metis diff_zero length_upt size_mset)

lemma single_pass:
  assumes order: "mset order = mset [0..<num_tiles N]" and N: "N < 2 ^ 64" and arr: "length arr = N"
    and counts: "counts = row_counts N (\<lambda>r. if flag r then [()] else [])"
    and ws: "mset ws = mset (kernel_writes counts (row_outs N (\<lambda>r. if flag r then [g r] else [])) order)"
  shows "unat (final_count counts order) = length (filter flag (arrival_rows N order))"
    and "take (unat (final_count counts order)) (write_each ws arr) = map g (filter flag (arrival_rows N order))"
proof -
  let ?out = "\<lambda>r. if flag r then [g r] else []"
  have cnt: "counts = row_counts N ?out" unfolding counts by (rule row_counts_cong) simp
  have small: "small_blocks (row_counts N ?out) order" by (rule small_blocks_single [OF _ order N]) simp
  have len: "unat (final_count counts order) = length (concat (map ?out (arrival_rows N order)))"
    unfolding cnt by (rule kernel_result(1) [OF small ws [unfolded cnt], of arr])
      (use kernel_writes_enumerate(2) [OF small, unfolded concat_block_outs, folded arrival_rows_def]
        length_concat_single [of ?out "arrival_rows N order"] arrival_rows_length [OF order] arr in simp)
  then show flags: "unat (final_count counts order) = length (filter flag (arrival_rows N order))"
    by (simp add: concat_map_if)
  have "length (filter flag (arrival_rows N order)) \<le> N"
    using length_filter_le [of flag "arrival_rows N order"] arrival_rows_length [OF order] by simp
  then have "write_each ws arr = concat (map ?out (arrival_rows N order)) @ drop (unat (final_count counts order)) arr"
    using kernel_result(2) [OF small ws [unfolded cnt], of arr] arr flags cnt by simp
  then show "take (unat (final_count counts order)) (write_each ws arr) = map g (filter flag (arrival_rows N order))"
    using flags by (simp add: concat_map_if)
qed

end
