(* ===== verification/Hash_Table.thy ===== *)
theory Hash_Table
  imports Kernel_Grid
begin

text \<open>
  The hash table of the joins (\<open>src/src/cuda/operator/hash_join_inner.cu\<close>): an array of
  \<open>ht_len\<close> slots of \<open>n_ht_column\<close> words, the keys of a build row and its row id, with open
  addressing in steps of 100007.  \<open>build_multikey\<close> runs on many threads that claim a slot with an
  atomic compare-and-swap on its first word and then fill in the rest; \<open>build_step\<close> is one such
  access of one thread, so a run of the kernel is any interleaving of the threads.
\<close>

section \<open>Slots\<close>

text \<open>\<open>T**\<close> keys, converted to \<open>uint64_t\<close> where they are read.\<close>

record table =
  t_keys :: "int list list"
  ht_len :: nat
  num_keys :: nat
  equal_keys :: nat
  is_right :: bool

definition EMPTY :: u64 where
  "EMPTY = 0xFFFFFFFFFFFFFFFF"

definition hash64_multikey :: "u64 \<Rightarrow> u64 \<Rightarrow> u64" where
  "hash64_multikey key1 key2 =
     (let h1 = key1 * 0xc6a4a7935bd1e995;
          h2 = xor h1 (drop_bit 33 h1);
          h3 = xor h2 (key2 * 0xc6a4a7935bd1e995);
          h4 = h3 * 0xc6a4a7935bd1e995
      in xor h4 (drop_bit 33 h4))"

definition key_item :: "int list list \<Rightarrow> nat \<Rightarrow> nat \<Rightarrow> u64" where
  "key_item keys n r = word_of_int (keys ! n ! r)"

text \<open>\<open>None\<close>: the \<open>cudaAssert(0)\<close> that ends the thread.\<close>

definition first_slot :: "int list list \<Rightarrow> nat \<Rightarrow> nat \<Rightarrow> nat \<Rightarrow> nat option" where
  "first_slot keys equals len r =
     (if equals = 1 then Some (unat (key_item keys 0 r) mod len)
      else if equals = 2 then Some (unat (hash64_multikey (key_item keys 0 r) (key_item keys 1 r)) mod len)
      else None)"

definition next_slot :: "nat \<Rightarrow> nat \<Rightarrow> nat" where
  "next_slot len slot = (slot + 100007) mod len"

definition n_ht_column :: "table \<Rightarrow> nat" where
  "n_ht_column T = (if is_right T then num_keys T + 2 else num_keys T + 1)"

definition ht_at :: "table \<Rightarrow> u64 list \<Rightarrow> nat \<Rightarrow> nat \<Rightarrow> u64" where
  "ht_at T ht slot n = ht ! (slot * n_ht_column T + n)"

definition ht_set :: "table \<Rightarrow> u64 list \<Rightarrow> nat \<Rightarrow> nat \<Rightarrow> u64 \<Rightarrow> u64 list" where
  "ht_set T ht slot n v = ht[slot * n_ht_column T + n := v]"

definition count_equal_keys :: "nat list \<Rightarrow> nat" where
  "count_equal_keys condition_mode = length (filter (\<lambda>m. m = 0) condition_mode)"

section \<open>The build kernel\<close>

text \<open>A thread between two rows, looking for a slot for row \<open>r\<close>, and filling in column \<open>n\<close> of the slot it
  claimed; the list holds the rows that follow.\<close>

datatype worker = Next "nat list" | Seek nat nat "nat list" | Fill nat nat nat "nat list"

inductive build_step :: "table \<Rightarrow> u64 list \<times> worker list \<Rightarrow> u64 list \<times> worker list \<Rightarrow> bool" for T :: table where
  begin_row: "i < length ws \<Longrightarrow> ws ! i = Next (r # rs) \<Longrightarrow> first_slot (t_keys T) (equal_keys T) (ht_len T) r = Some s \<Longrightarrow>
    build_step T (ht, ws) (ht, ws[i := Seek r s rs])"
| no_hash: "i < length ws \<Longrightarrow> ws ! i = Next (r # rs) \<Longrightarrow> first_slot (t_keys T) (equal_keys T) (ht_len T) r = None \<Longrightarrow>
    build_step T (ht, ws) (ht, ws[i := Next []])"
| occupied: "i < length ws \<Longrightarrow> ws ! i = Seek r s rs \<Longrightarrow> ht_at T ht s 0 \<noteq> EMPTY \<Longrightarrow>
    build_step T (ht, ws) (ht, ws[i := Seek r (next_slot (ht_len T) s) rs])"
| claim: "i < length ws \<Longrightarrow> ws ! i = Seek r s rs \<Longrightarrow> ht_at T ht s 0 = EMPTY \<Longrightarrow>
    build_step T (ht, ws) (ht_set T ht s 0 (key_item (t_keys T) 0 r), ws[i := Fill r s 1 rs])"
| fill_key: "i < length ws \<Longrightarrow> ws ! i = Fill r s n rs \<Longrightarrow> n < num_keys T \<Longrightarrow>
    build_step T (ht, ws) (ht_set T ht s n (key_item (t_keys T) n r), ws[i := Fill r s (Suc n) rs])"
| fill_row: "i < length ws \<Longrightarrow> ws ! i = Fill r s n rs \<Longrightarrow> num_keys T \<le> n \<Longrightarrow>
    build_step T (ht, ws) (ht_set T ht s (num_keys T) (of_nat r), ws[i := Next rs])"

text \<open>\<open>buildHashTable\<close>: the table is set to all ones and the grid is launched; it is done when every
  thread is.\<close>

definition build_threads :: "nat \<Rightarrow> worker list" where
  "build_threads N = concat (map (\<lambda>b. map (\<lambda>t. Next (thread_items N b t)) [0..<BLOCK_THREADS]) [0..<num_tiles N])"

definition buildHashTable :: "table \<Rightarrow> nat \<Rightarrow> u64 list \<Rightarrow> u64 list \<Rightarrow> bool" where
  "buildHashTable T N ht ht' =
     (if N = 0 \<or> ht_len T = 0 then ht' = ht
      else \<exists>ws. (build_step T)\<^sup>*\<^sup>* (replicate (ht_len T * n_ht_column T) EMPTY, build_threads N) (ht', ws) \<and>
        (\<forall>w \<in> set ws. w = Next []))"

section \<open>What a built table holds\<close>

text \<open>The \<open>k\<close>-th slot a row looks at.\<close>

fun path :: "nat \<Rightarrow> nat \<Rightarrow> nat \<Rightarrow> nat" where
  "path len f 0 = f"
| "path len f (Suc k) = next_slot len (path len f k)"

text \<open>Row \<open>r\<close> gets to slot \<open>s\<close>: all it looks at before is occupied.\<close>

definition gets_to :: "table \<Rightarrow> u64 list \<Rightarrow> nat \<Rightarrow> nat \<Rightarrow> bool" where
  "gets_to T ht r s \<longleftrightarrow> (\<exists>f k. first_slot (t_keys T) (equal_keys T) (ht_len T) r = Some f \<and> s = path (ht_len T) f k \<and>
     (\<forall>j < k. ht_at T ht (path (ht_len T) f j) 0 \<noteq> EMPTY))"

definition cell :: "table \<Rightarrow> nat \<Rightarrow> nat \<Rightarrow> u64" where
  "cell T r n = (if n < num_keys T then key_item (t_keys T) n r else if n = num_keys T then of_nat r else EMPTY)"

definition table_holds :: "table \<Rightarrow> nat set \<Rightarrow> u64 list \<Rightarrow> bool" where
  "table_holds T rows ht \<longleftrightarrow> length ht = ht_len T * n_ht_column T \<and>
     (\<exists>slot. inj_on slot rows \<and>
       (\<forall>r \<in> rows. slot r < ht_len T \<and> gets_to T ht r (slot r) \<and> (\<forall>n < n_ht_column T. ht_at T ht (slot r) n = cell T r n)) \<and>
       (\<forall>s < ht_len T. s \<notin> slot ` rows \<longrightarrow> (\<forall>n < n_ht_column T. ht_at T ht s n = EMPTY)))"

text \<open>What the code relies on: one or two equality keys, and no row with the first key all ones.\<close>

definition buildable :: "table \<Rightarrow> nat \<Rightarrow> bool" where
  "buildable T N \<longleftrightarrow> 0 < ht_len T \<and> 0 < num_keys T \<and> (equal_keys T = 1 \<or> equal_keys T = 2) \<and>
     (\<forall>r < N. key_item (t_keys T) 0 r \<noteq> EMPTY)"

lemma n_ht_column_pos: "num_keys T < n_ht_column T"
  by (simp add: n_ht_column_def)

lemma slot_index_less: "s < H \<Longrightarrow> n < c \<Longrightarrow> s * c + n < H * (c :: nat)"
proof -
  assume "s < H" "n < c"
  then have "s * c + n < Suc s * c" by simp
  also have "\<dots> \<le> H * c" using \<open>s < H\<close> by (intro mult_le_mono1) simp
  finally show ?thesis .
qed

lemma slot_index_eq: "n < c \<Longrightarrow> n' < c \<Longrightarrow> s * c + n = s' * c + (n' :: nat) \<longleftrightarrow> s = s' \<and> n = n'"
proof
  assume a: "n < c" "n' < c" "s * c + n = s' * c + n'"
  then have "(s * c + n) div c = (s' * c + n') div c" "(s * c + n) mod c = (s' * c + n') mod c" by simp_all
  with a(1,2) show "s = s' \<and> n = n'" by simp
qed simp

lemma ht_at_set:
  assumes "length ht = ht_len T * n_ht_column T" and "s < ht_len T" and "n < n_ht_column T" and "n' < n_ht_column T"
  shows "ht_at T (ht_set T ht s n v) s' n' = (if s' = s \<and> n' = n then v else ht_at T ht s' n')"
proof (cases "s' = s \<and> n' = n")
  case True
  then show ?thesis using slot_index_less [OF assms(2,3)] assms(1) by (simp add: ht_at_def ht_set_def)
next
  case False
  then have "s * n_ht_column T + n \<noteq> s' * n_ht_column T + n'" using slot_index_eq [OF assms(3,4)] by metis
  then show ?thesis unfolding if_not_P [OF False] ht_at_def ht_set_def by (rule nth_list_update_neq)
qed

lemma ht_set_length [simp]: "length (ht_set T ht s n v) = length ht"
  by (simp add: ht_set_def)

lemma path_less: "0 < len \<Longrightarrow> f < len \<Longrightarrow> path len f k < len"
  by (induction k) (simp_all add: next_slot_def)

lemma path_mod: "f < len \<Longrightarrow> path len f k = (f + k * 100007) mod len"
  by (induction k) (simp_all add: next_slot_def mod_add_left_eq mod_add_right_eq algebra_simps)

lemma first_slot_less: "first_slot keys e len r = Some f \<Longrightarrow> 0 < len \<Longrightarrow> f < len"
  by (auto simp: first_slot_def split: if_splits)

lemma first_slot_defined: "buildable T N \<Longrightarrow> \<exists>f. first_slot (t_keys T) (equal_keys T) (ht_len T) r = Some f"
  by (auto simp: buildable_def first_slot_def)

section \<open>The invariant of the build kernel\<close>

fun worker_rows :: "worker \<Rightarrow> nat list" where
  "worker_rows (Next rs) = rs"
| "worker_rows (Seek r s rs) = r # rs"
| "worker_rows (Fill r s n rs) = r # rs"

text \<open>The rows of a thread that have no slot yet.\<close>

fun waiting :: "worker \<Rightarrow> nat list" where
  "waiting (Next rs) = rs"
| "waiting (Seek r s rs) = r # rs"
| "waiting (Fill r s n rs) = rs"

definition claimed :: "nat \<Rightarrow> worker list \<Rightarrow> nat set" where
  "claimed N ws = {r. r < N \<and> (\<forall>i < length ws. r \<notin> set (waiting (ws ! i)))}"

definition rows_apart :: "nat \<Rightarrow> worker list \<Rightarrow> bool" where
  "rows_apart N ws \<longleftrightarrow> (\<forall>i < length ws. distinct (worker_rows (ws ! i)) \<and> set (worker_rows (ws ! i)) \<subseteq> {..<N} \<and>
     (\<forall>j < length ws. j \<noteq> i \<longrightarrow> set (worker_rows (ws ! i)) \<inter> set (worker_rows (ws ! j)) = {}))"

text \<open>The words written so far for a row: the first \<open>n\<close> columns.\<close>

definition written :: "table \<Rightarrow> u64 list \<Rightarrow> nat \<Rightarrow> nat \<Rightarrow> nat \<Rightarrow> bool" where
  "written T ht r s n \<longleftrightarrow> (\<forall>c < n_ht_column T. ht_at T ht s c = (if c < n then cell T r c else EMPTY))"

definition building :: "table \<Rightarrow> nat \<Rightarrow> (nat \<Rightarrow> nat) \<Rightarrow> u64 list \<times> worker list \<Rightarrow> bool" where
  "building T N slot = (\<lambda>(ht, ws). length ht = ht_len T * n_ht_column T \<and> rows_apart N ws \<and>
     inj_on slot (claimed N ws) \<and>
     (\<forall>r \<in> claimed N ws. slot r < ht_len T \<and> gets_to T ht r (slot r) \<and>
        ((\<forall>i < length ws. r \<notin> set (worker_rows (ws ! i))) \<longrightarrow> written T ht r (slot r) (num_keys T + 1))) \<and>
     (\<forall>i < length ws. \<forall>r s n rs. ws ! i = Fill r s n rs \<longrightarrow> slot r = s \<and> 1 \<le> n \<and> n \<le> num_keys T \<and> written T ht r s n) \<and>
     (\<forall>i < length ws. \<forall>r s rs. ws ! i = Seek r s rs \<longrightarrow> s < ht_len T \<and> gets_to T ht r s) \<and>
     (\<forall>s < ht_len T. s \<notin> slot ` claimed N ws \<longrightarrow> (\<forall>n < n_ht_column T. ht_at T ht s n = EMPTY)))"

lemma waiting_sub: "set (waiting w) \<subseteq> set (worker_rows w)"
  by (cases w) auto

lemma claimed_same:
  assumes "i < length ws" and "set (waiting w) = set (waiting (ws ! i))"
  shows "claimed N (ws[i := w]) = claimed N ws"
  using assms by (auto simp: claimed_def nth_list_update)

lemma rows_apart_update:
  assumes "rows_apart N ws" and "i < length ws" and "distinct (worker_rows w)"
    and "set (worker_rows w) \<subseteq> set (worker_rows (ws ! i))"
  shows "rows_apart N (ws[i := w])"
  using assms unfolding rows_apart_def by (simp add: nth_list_update) blast

lemma rows_apartD:
  assumes "rows_apart N ws" and "i < length ws"
  shows "distinct (worker_rows (ws ! i))" and "set (worker_rows (ws ! i)) \<subseteq> {..<N}"
    and "r \<in> set (worker_rows (ws ! i)) \<Longrightarrow> j < length ws \<Longrightarrow> j \<noteq> i \<Longrightarrow> r \<notin> set (worker_rows (ws ! j))"
  using assms unfolding rows_apart_def by blast+

lemma fill_claimed:
  assumes "rows_apart N ws" and "i < length ws" and "ws ! i = Fill r s n rs"
  shows "r \<in> claimed N ws"
  unfolding claimed_def
proof (intro CollectI conjI allI impI)
  note ra = rows_apartD [OF assms(1,2)]
  show "r < N" using ra(2) assms(3) by auto
  fix j assume j: "j < length ws"
  show "r \<notin> set (waiting (ws ! j))"
  proof (cases "j = i")
    case True
    then show ?thesis using ra(1) assms(3) by simp
  next
    case False
    then show ?thesis using ra(3) [of r, OF _ j] assms(3) waiting_sub [of "ws ! j"] by auto
  qed
qed

lemma gets_to_mono:
  assumes "gets_to T ht r s" and "\<And>x. ht_at T ht x 0 \<noteq> EMPTY \<Longrightarrow> ht_at T ht' x 0 \<noteq> EMPTY"
  shows "gets_to T ht' r s"
  using assms unfolding gets_to_def by blast

lemma gets_to_next:
  assumes "gets_to T ht r s" and "ht_at T ht s 0 \<noteq> EMPTY"
  shows "gets_to T ht r (next_slot (ht_len T) s)"
proof -
  obtain f k where "first_slot (t_keys T) (equal_keys T) (ht_len T) r = Some f" "s = path (ht_len T) f k"
    "\<forall>j < k. ht_at T ht (path (ht_len T) f j) 0 \<noteq> EMPTY" using assms(1) by (auto simp: gets_to_def)
  with assms(2) show ?thesis
    unfolding gets_to_def by (intro exI [of _ f] exI [of _ "Suc k"]) (auto simp: less_Suc_eq)
qed

lemma written_nonempty:
  assumes "buildable T N" and "r < N" and "written T ht r s n" and "1 \<le> n"
  shows "ht_at T ht s 0 \<noteq> EMPTY"
proof -
  have "ht_at T ht s 0 = cell T r 0" using assms(3,4) n_ht_column_pos [of T] by (simp add: written_def)
  then show ?thesis using assms(1,2) by (simp add: cell_def buildable_def)
qed

text \<open>The slot of a claimed row is occupied, by that row only.\<close>

lemma claimed_occupied:
  assumes "buildable T N" and "building T N slot (ht, ws)" and "r \<in> claimed N ws"
  shows "ht_at T ht (slot r) 0 \<noteq> EMPTY"
proof (cases "\<forall>i < length ws. r \<notin> set (worker_rows (ws ! i))")
  case True
  then have "written T ht r (slot r) (num_keys T + 1)" using assms(2,3) by (simp add: building_def)
  then show ?thesis using assms(1,3) by (intro written_nonempty) (auto simp: claimed_def)
next
  case False
  then obtain i where i: "i < length ws" "r \<in> set (worker_rows (ws ! i))" by blast
  have "r \<notin> set (waiting (ws ! i))" using assms(3) i(1) by (simp add: claimed_def)
  with i(2) obtain s n rs where w: "ws ! i = Fill r s n rs" by (cases "ws ! i") auto
  then have "slot r = s" and wr: "1 \<le> n" "written T ht r s n" using assms(2) i(1) by (auto simp: building_def)
  moreover have "r < N" using assms(3) by (simp add: claimed_def)
  ultimately show ?thesis using written_nonempty [OF assms(1) _ wr(2,1)] by simp
qed

lemma empty_slot_free:
  assumes "buildable T N" and "building T N slot (ht, ws)" and "ht_at T ht s 0 = EMPTY"
  shows "s \<notin> slot ` claimed N ws"
  using claimed_occupied [OF assms(1,2)] assms(3) by auto

lemma building_thread_moves:
  assumes b: "building T N slot (ht, ws)" and i: "i < length ws" and rows: "set (worker_rows w) = set (worker_rows (ws ! i))"
    "distinct (worker_rows w)" and wait: "set (waiting w) = set (waiting (ws ! i))"
    and fill: "\<And>r s n rs. w = Fill r s n rs \<Longrightarrow> ws ! i = w"
    and seek: "\<And>r s rs. w = Seek r s rs \<Longrightarrow> s < ht_len T \<and> gets_to T ht r s"
  shows "building T N slot (ht, ws[i := w])"
proof -
  note c = claimed_same [OF i wait, of N]
  have "rows_apart N (ws[i := w])"
    using b i rows by (intro rows_apart_update) (simp_all add: building_def)
  moreover have "(\<forall>j < length ws. r \<notin> set (worker_rows (ws[i := w] ! j))) \<longleftrightarrow> (\<forall>j < length ws. r \<notin> set (worker_rows (ws ! j)))" for r
    using i rows(1) by (auto simp: nth_list_update)
  ultimately show ?thesis
    using b i fill seek unfolding building_def case_prod_conv c length_list_update
    by (auto simp: nth_list_update)
qed

lemma written_other:
  assumes "length ht = ht_len T * n_ht_column T" and "s < ht_len T" and "n < n_ht_column T" and "s' \<noteq> s"
  shows "written T (ht_set T ht s n v) r s' m \<longleftrightarrow> written T ht r s' m"
  using assms(4) ht_at_set [OF assms(1-3)] by (simp add: written_def)

lemma written_more:
  assumes "length ht = ht_len T * n_ht_column T" and "s < ht_len T" and "n < n_ht_column T" and "written T ht r s n"
  shows "written T (ht_set T ht s n (cell T r n)) r s (Suc n)"
  using assms(4) ht_at_set [OF assms(1-3)] by (auto simp: written_def less_Suc_eq)

lemma set_keeps_occupied:
  assumes "length ht = ht_len T * n_ht_column T" and "s < ht_len T" and "n < n_ht_column T" and "n = 0 \<Longrightarrow> v \<noteq> EMPTY"
    and "ht_at T ht x 0 \<noteq> EMPTY"
  shows "ht_at T (ht_set T ht s n v) x 0 \<noteq> EMPTY"
  using assms(4,5) ht_at_set [OF assms(1-3)] n_ht_column_pos [of T] by simp

text \<open>A thread writes column \<open>n\<close> of the slot of its row.\<close>

lemma building_fill:
  assumes ok: "buildable T N" and b: "building T N slot (ht, ws)" and i: "i < length ws" "ws ! i = Fill r s n rs"
    and w: "w = (if n < num_keys T then Fill r s (Suc n) rs else Next rs)"
  shows "building T N slot (ht_set T ht s n (cell T r n), ws[i := w])" (is "building T N slot (?ht, ?ws)")
proof -
  have len: "length ht = ht_len T * n_ht_column T" and apart: "rows_apart N ws" and inj: "inj_on slot (claimed N ws)"
    and cl: "\<And>q. q \<in> claimed N ws \<Longrightarrow> slot q < ht_len T \<and> gets_to T ht q (slot q) \<and>
        ((\<forall>i < length ws. q \<notin> set (worker_rows (ws ! i))) \<longrightarrow> written T ht q (slot q) (num_keys T + 1))"
    and fl: "\<And>j q s n rs. j < length ws \<Longrightarrow> ws ! j = Fill q s n rs \<Longrightarrow> slot q = s \<and> 1 \<le> n \<and> n \<le> num_keys T \<and> written T ht q s n"
    and sk: "\<And>j q s rs. j < length ws \<Longrightarrow> ws ! j = Seek q s rs \<Longrightarrow> s < ht_len T \<and> gets_to T ht q s"
    and em: "\<And>s. s < ht_len T \<Longrightarrow> s \<notin> slot ` claimed N ws \<Longrightarrow> \<forall>n < n_ht_column T. ht_at T ht s n = EMPTY"
    using b by (auto simp: building_def)
  note f = fl [OF i]
  have mine: "set (worker_rows (ws ! i)) \<subseteq> {..<N}" "distinct (worker_rows (ws ! i))"
    using apart i(1) unfolding rows_apart_def by blast+
  have others: "r \<notin> set (worker_rows (ws ! j))" if "j < length ws" "j \<noteq> i" for j
    using rows_apartD(3) [OF apart i(1) _ that, of r] i(2) by simp
  have rcl: "r \<in> claimed N ws" by (rule fill_claimed [OF apart i])
  have s: "s < ht_len T" using cl [OF rcl] f by simp
  have n: "n < n_ht_column T" using f n_ht_column_pos [of T] by simp
  have same: "claimed N ?ws = claimed N ws"
    by (rule claimed_same [OF i(1)]) (simp add: w i(2))
  have keep: "ht_at T ?ht x 0 \<noteq> EMPTY" if "ht_at T ht x 0 \<noteq> EMPTY" for x
    by (rule set_keeps_occupied [OF len s n _ that]) (use f in simp)
  have gt: "gets_to T ?ht q x" if "gets_to T ht q x" for q x by (rule gets_to_mono [OF that keep])
  have slot_other: "slot q \<noteq> s" if "q \<in> claimed N ws" "q \<noteq> r" for q
    using inj_onD [OF inj] that rcl f by metis
  have wr: "written T ?ht q (slot q) m" if "q \<in> claimed N ws" "q \<noteq> r" "written T ht q (slot q) m" for q m
    using written_other [OF len s n slot_other [OF that(1,2)]] that(3) by simp
  have mine': "written T ?ht r s (Suc n)" by (rule written_more [OF len s n]) (use f in simp)
  have rows: "rows_apart N ?ws"
    by (rule rows_apart_update [OF apart i(1)]) (use mine(2) i(2) w in auto)
  show ?thesis
    unfolding building_def case_prod_conv same
  proof (intro conjI)
    show "\<forall>q \<in> claimed N ws. slot q < ht_len T \<and> gets_to T ?ht q (slot q) \<and>
        ((\<forall>j < length ?ws. q \<notin> set (worker_rows (?ws ! j))) \<longrightarrow> written T ?ht q (slot q) (num_keys T + 1))"
    proof (intro ballI conjI impI)
      fix q assume q: "q \<in> claimed N ws"
      show "slot q < ht_len T" "gets_to T ?ht q (slot q)" using cl [OF q] gt by simp_all
      assume none: "\<forall>j < length ?ws. q \<notin> set (worker_rows (?ws ! j))"
      show "written T ?ht q (slot q) (num_keys T + 1)"
      proof (cases "q = r")
        case True
        with none i(1) w have "\<not> n < num_keys T" by (auto simp: nth_list_update)
        then have "n = num_keys T" using f by simp
        with mine' True f show ?thesis by simp
      next
        case False
        have "q \<notin> set (worker_rows (ws ! j))" if j: "j < length ws" for j
        proof (cases "j = i")
          case True
          have "q \<notin> set (worker_rows w)" using none i(1) by (metis length_list_update nth_list_update_eq)
          then show ?thesis using True False i(2) w by (cases "n < num_keys T") simp_all
        next
          case False
          then show ?thesis using none j by (metis length_list_update nth_list_update_neq)
        qed
        then show ?thesis using cl [OF q] wr [OF q False] by metis
      qed
    qed
    show "\<forall>j < length ?ws. \<forall>q x m ys. ?ws ! j = Fill q x m ys \<longrightarrow>
        slot q = x \<and> 1 \<le> m \<and> m \<le> num_keys T \<and> written T ?ht q x m"
    proof (intro allI impI)
      fix j q x m ys assume j: "j < length ?ws" and jw: "?ws ! j = Fill q x m ys"
      show "slot q = x \<and> 1 \<le> m \<and> m \<le> num_keys T \<and> written T ?ht q x m"
      proof (cases "j = i")
        case True
        with jw i(1) w have "n < num_keys T" "q = r" "x = s" "m = Suc n" by (auto split: if_splits)
        then show ?thesis using f mine' by simp
      next
        case False
        with jw j have jj: "j < length ws" "ws ! j = Fill q x m ys" by simp_all
        have "q \<noteq> r" using others [OF jj(1) False] jj(2) by auto
        then show ?thesis using fl [OF jj] wr [OF fill_claimed [OF apart jj]] by auto
      qed
    qed
    show "\<forall>j < length ?ws. \<forall>q x ys. ?ws ! j = Seek q x ys \<longrightarrow> x < ht_len T \<and> gets_to T ?ht q x"
      using sk gt i(1) w by (auto simp: nth_list_update split: if_splits)
    show "\<forall>x < ht_len T. x \<notin> slot ` claimed N ws \<longrightarrow> (\<forall>c < n_ht_column T. ht_at T ?ht x c = EMPTY)"
    proof (intro allI impI)
      fix x c assume x: "x < ht_len T" "x \<notin> slot ` claimed N ws" "c < n_ht_column T"
      then have "x \<noteq> s" using rcl f by blast
      then show "ht_at T ?ht x c = EMPTY" using ht_at_set [OF len s n x(3)] em [OF x(1,2)] x(3) by simp
    qed
  qed (use len rows inj in simp_all)
qed

lemma buildingD:
  assumes "building T N slot (ht, ws)"
  shows "length ht = ht_len T * n_ht_column T" and "rows_apart N ws" and "inj_on slot (claimed N ws)"
    and "q \<in> claimed N ws \<Longrightarrow> slot q < ht_len T" and "q \<in> claimed N ws \<Longrightarrow> gets_to T ht q (slot q)"
    and "q \<in> claimed N ws \<Longrightarrow> \<forall>i < length ws. q \<notin> set (worker_rows (ws ! i)) \<Longrightarrow> written T ht q (slot q) (num_keys T + 1)"
    and "i < length ws \<Longrightarrow> ws ! i = Fill q s n rs \<Longrightarrow> slot q = s \<and> 1 \<le> n \<and> n \<le> num_keys T \<and> written T ht q s n"
    and "i < length ws \<Longrightarrow> ws ! i = Seek q s rs \<Longrightarrow> s < ht_len T \<and> gets_to T ht q s"
    and "s < ht_len T \<Longrightarrow> s \<notin> slot ` claimed N ws \<Longrightarrow> n < n_ht_column T \<Longrightarrow> ht_at T ht s n = EMPTY"
  using assms unfolding building_def case_prod_conv by blast+

lemma claimed_claim:
  assumes apart: "rows_apart N ws" and i: "i < length ws" "ws ! i = Seek r s rs"
  shows "claimed N (ws[i := Fill r s n rs]) = insert r (claimed N ws)" and "r \<notin> claimed N ws"
proof -
  have r: "r < N" "r \<notin> set rs" using rows_apartD(1,2) [OF apart i(1)] i(2) by auto
  have others: "r \<notin> set (waiting (ws ! j))" if "j < length ws" "j \<noteq> i" for j
    using rows_apartD(3) [OF apart i(1) _ that, of r] i(2) waiting_sub [of "ws ! j"] by auto
  show "r \<notin> claimed N ws" using i by (auto simp: claimed_def)
  have "q \<in> claimed N (ws[i := Fill r s n rs]) \<longleftrightarrow> q \<in> insert r (claimed N ws)" for q
  proof (cases "q = r")
    case True
    have "r \<notin> set (waiting (ws[i := Fill r s n rs] ! j))" if "j < length ws" for j
      using others [OF that] r(2) i(1) by (cases "j = i") simp_all
    with True r(1) show ?thesis by (simp add: claimed_def)
  next
    case False
    then have "(\<forall>j < length ws. q \<notin> set (waiting (ws[i := Fill r s n rs] ! j))) \<longleftrightarrow>
        (\<forall>j < length ws. q \<notin> set (waiting (ws ! j)))"
      using i by (metis (no_types, lifting) nth_list_update_eq nth_list_update_neq set_ConsD waiting.simps(2,3) list.set_intros(2))
    with False show ?thesis by (simp add: claimed_def)
  qed
  then show "claimed N (ws[i := Fill r s n rs]) = insert r (claimed N ws)" by blast
qed

lemma building_claim:
  assumes ok: "buildable T N" and b: "building T N slot (ht, ws)" and i: "i < length ws" "ws ! i = Seek r s rs"
    and free: "ht_at T ht s 0 = EMPTY"
  shows "building T N (slot(r := s)) (ht_set T ht s 0 (cell T r 0), ws[i := Fill r s 1 rs])"
    (is "building T N ?slot (?ht, ?ws)")
proof -
  note D = buildingD [OF b]
  note cl = claimed_claim(1) [OF D(2) i, where n = 1] claimed_claim(2) [OF D(2) i]
  have s: "s < ht_len T" "gets_to T ht r s" using D(8) [OF i] by simp_all
  have n: "0 < n_ht_column T" using n_ht_column_pos [of T] by simp
  have r: "r < N" using rows_apartD(2) [OF D(2) i(1)] i(2) by auto
  have unused: "s \<notin> slot ` claimed N ws" by (rule empty_slot_free [OF ok b free])
  have cell: "cell T r 0 \<noteq> EMPTY" using ok r by (simp add: cell_def buildable_def)
  have keep: "ht_at T ?ht x 0 \<noteq> EMPTY" if "ht_at T ht x 0 \<noteq> EMPTY" for x
    by (rule set_keeps_occupied [OF D(1) s(1) n cell that])
  have gt: "gets_to T ?ht q x" if "gets_to T ht q x" for q x by (rule gets_to_mono [OF that keep])
  have same: "?slot q = slot q" "slot q \<noteq> s" if "q \<in> claimed N ws" for q
    using that cl(2) unused by auto
  have wr: "written T ?ht q (slot q) m \<longleftrightarrow> written T ht q (slot q) m" if "q \<in> claimed N ws" for q m
    by (rule written_other [OF D(1) s(1) n same(2) [OF that]])
  have "written T ht r s 0" using D(9) [OF s(1) unused] by (simp add: written_def)
  then have mine: "written T ?ht r s 1" using written_more [OF D(1) s(1) n] by simp
  have rows: "rows_apart N ?ws"
    by (rule rows_apart_update [OF D(2) i(1)]) (use rows_apartD(1) [OF D(2) i(1)] i(2) in auto)
  have eqrows: "worker_rows (?ws ! j) = worker_rows (ws ! j)" if "j < length ws" for j
    using i that by (cases "j = i") auto
  show ?thesis
    unfolding building_def case_prod_conv cl(1)
  proof (intro conjI)
    show "inj_on ?slot (insert r (claimed N ws))"
      using D(3) same unused cl(2) by (auto simp: inj_on_def)
    show "\<forall>q \<in> insert r (claimed N ws). ?slot q < ht_len T \<and> gets_to T ?ht q (?slot q) \<and>
        ((\<forall>j < length ?ws. q \<notin> set (worker_rows (?ws ! j))) \<longrightarrow> written T ?ht q (?slot q) (num_keys T + 1))"
    proof (intro ballI conjI impI)
      fix q assume q: "q \<in> insert r (claimed N ws)"
      show "?slot q < ht_len T" using q s(1) D(4) same(1) by auto
      show "gets_to T ?ht q (?slot q)" using q s(2) D(5) same(1) gt by auto
      assume none: "\<forall>j < length ?ws. q \<notin> set (worker_rows (?ws ! j))"
      then have "q \<noteq> r" using i by (metis list.set_intros(1) length_list_update eqrows worker_rows.simps(2))
      then have q': "q \<in> claimed N ws" using q by simp
      have "\<forall>j < length ws. q \<notin> set (worker_rows (ws ! j))" using none eqrows by simp
      then show "written T ?ht q (?slot q) (num_keys T + 1)" using D(6) [OF q'] wr [OF q'] same [OF q'] by simp
    qed
    show "\<forall>j < length ?ws. \<forall>q x m ys. ?ws ! j = Fill q x m ys \<longrightarrow>
        ?slot q = x \<and> 1 \<le> m \<and> m \<le> num_keys T \<and> written T ?ht q x m"
    proof (intro allI impI)
      fix j q x m ys assume j: "j < length ?ws" and jw: "?ws ! j = Fill q x m ys"
      show "?slot q = x \<and> 1 \<le> m \<and> m \<le> num_keys T \<and> written T ?ht q x m"
      proof (cases "j = i")
        case True
        with jw i(1) have "q = r" "x = s" "m = 1" by simp_all
        then show ?thesis using mine ok by (simp add: buildable_def Suc_leI)
      next
        case False
        with jw j have jj: "j < length ws" "ws ! j = Fill q x m ys" by simp_all
        have q: "q \<in> claimed N ws" by (rule fill_claimed [OF D(2) jj])
        then show ?thesis using D(7) [OF jj] wr [OF q] same [OF q] by auto
      qed
    qed
    show "\<forall>j < length ?ws. \<forall>q x ys. ?ws ! j = Seek q x ys \<longrightarrow> x < ht_len T \<and> gets_to T ?ht q x"
    proof (intro allI impI)
      fix j q x ys assume j: "j < length ?ws" and jw: "?ws ! j = Seek q x ys"
      then have "j \<noteq> i" using i(1) by auto
      with j jw have "j < length ws" "ws ! j = Seek q x ys" by simp_all
      from D(8) [OF this] show "x < ht_len T \<and> gets_to T ?ht q x" using gt by blast
    qed
    show "\<forall>x < ht_len T. x \<notin> ?slot ` insert r (claimed N ws) \<longrightarrow> (\<forall>c < n_ht_column T. ht_at T ?ht x c = EMPTY)"
    proof (intro allI impI)
      fix x c assume x: "x < ht_len T" "x \<notin> ?slot ` insert r (claimed N ws)" "c < n_ht_column T"
      have "x \<noteq> s" using x(2) by auto
      moreover have "x \<notin> slot ` claimed N ws"
      proof
        assume "x \<in> slot ` claimed N ws"
        then obtain q where "q \<in> claimed N ws" "x = slot q" by blast
        then have "x \<in> ?slot ` insert r (claimed N ws)" using same(1) by (intro image_eqI [of _ _ q]) simp_all
        with x(2) show False by contradiction
      qed
      ultimately      show "ht_at T ?ht x c = EMPTY" using ht_at_set [OF D(1) s(1) n x(3)] D(9) [OF x(1) _ x(3)] by simp
    qed
  qed (use D(1) rows in simp_all)
qed

lemma build_step_building:
  assumes "build_step T (ht, ws) (ht', ws')" and ok: "buildable T N" and b: "building T N slot (ht, ws)"
  shows "\<exists>slot'. building T N slot' (ht', ws')"
  using assms(1)
proof cases
  case (begin_row i r rs s)
  have "distinct (worker_rows (ws ! i))" by (rule rows_apartD(1) [OF buildingD(2) [OF b] begin_row(3)])
  moreover have "s < ht_len T" "gets_to T ht r s"
    using first_slot_less begin_row(5) ok by (auto simp: buildable_def gets_to_def intro!: exI [of _ s] exI [of _ "0 :: nat"])
  ultimately have "building T N slot (ht, ws[i := Seek r s rs])"
    using begin_row(3,4) by (intro building_thread_moves [OF b]) auto
  with begin_row show ?thesis by blast
next
  case (no_hash i r rs)
  then show ?thesis using first_slot_defined [OF ok, of r] by simp
next
  case (occupied i r s rs)
  have "distinct (worker_rows (ws ! i))" by (rule rows_apartD(1) [OF buildingD(2) [OF b] occupied(3)])
  moreover have "s < ht_len T" "gets_to T ht r s" using buildingD(8) [OF b occupied(3,4)] by simp_all
  ultimately have "building T N slot (ht, ws[i := Seek r (next_slot (ht_len T) s) rs])"
    using occupied(3,4,5) gets_to_next ok by (intro building_thread_moves [OF b]) (auto simp: next_slot_def buildable_def)
  with occupied show ?thesis by blast
next
  case (claim i r s rs)
  have "key_item (t_keys T) 0 r = cell T r 0" using ok by (simp add: cell_def buildable_def)
  then show ?thesis using building_claim [OF ok b claim(3,4,5)] claim(1,2) by auto
next
  case (fill_key i r s n rs)
  have "key_item (t_keys T) n r = cell T r n" using fill_key(5) by (simp add: cell_def)
  then show ?thesis using building_fill [OF ok b fill_key(3,4) refl] fill_key(1,2,5) by auto
next
  case (fill_row i r s n rs)
  have "n = num_keys T" using buildingD(7) [OF b fill_row(3,4)] fill_row(5) by simp
  moreover have "of_nat r = cell T r (num_keys T)" by (simp add: cell_def)
  ultimately show ?thesis using building_fill [OF ok b fill_row(3,4) refl] fill_row(1,2) by auto
qed

section \<open>From the launch to the end\<close>

lemma distinct_concat_nth:
  assumes "distinct (concat xss)" and "i < length xss" and "j < length xss" and "i \<noteq> j"
  shows "set (xss ! i) \<inter> set (xss ! j) = {}"
proof -
  have apart: "set (xss ! a) \<inter> set (xss ! b) = {}" if "a < b" "b < length xss" for a b
  proof -
    have "concat xss = concat (take b xss) @ concat (drop b xss)" by (simp flip: concat_append)
    then have "set (concat (take b xss)) \<inter> set (concat (drop b xss)) = {}"
      using assms(1) by (metis distinct_append)
    moreover have "xss ! a \<in> set (take b xss)" using that by (metis in_set_conv_nth length_take min.absorb4 nth_take)
    moreover have "xss ! b \<in> set (drop b xss)" using that by (metis hd_drop_conv_nth hd_in_set drop_eq_Nil not_le)
    ultimately show ?thesis by fastforce
  qed
  show ?thesis using apart [of i j] apart [of j i] assms(2-4) by (cases "i < j") auto
qed

lemma rows_apart_distinct:
  assumes "distinct (concat (map worker_rows ws))" and "set (concat (map worker_rows ws)) \<subseteq> {..<N}"
  shows "rows_apart N ws"
  unfolding rows_apart_def
proof (intro allI impI conjI)
  fix i assume i: "i < length ws"
  show "distinct (worker_rows (ws ! i))" using assms(1) i by (simp add: distinct_concat_iff)
  show "set (worker_rows (ws ! i)) \<subseteq> {..<N}" using assms(2) i nth_mem by fastforce
  fix j assume "j < length ws" "j \<noteq> i"
  then show "set (worker_rows (ws ! i)) \<inter> set (worker_rows (ws ! j)) = {}"
    using distinct_concat_nth [OF assms(1), of i j] i by simp
qed

lemma build_threads_rows:
  "concat (map worker_rows (build_threads N)) = concat (map (block_items N) [0..<num_tiles N])"
proof -
  have "concat (map worker_rows (concat (map (\<lambda>b. map (\<lambda>t. Next (thread_items N b t)) [0..<BLOCK_THREADS]) bs))) =
      concat (map (block_items N) bs)" for bs
    by (induction bs) (simp_all add: block_items_def comp_def)
  then show ?thesis by (simp add: build_threads_def)
qed

lemma build_threads_next: "w \<in> set (build_threads N) \<Longrightarrow> \<exists>rs. w = Next rs"
  by (auto simp: build_threads_def)

lemma building_start:
  "building T N slot (replicate (ht_len T * n_ht_column T) EMPTY, build_threads N)"
proof -
  let ?ws = "build_threads N"
  have "mset (concat (map worker_rows ?ws)) = mset [0..<N]"
    unfolding build_threads_rows by (rule grid_covers) simp
  note ms = this
  have rows: "distinct (concat (map worker_rows ?ws))" "set (concat (map worker_rows ?ws)) = {..<N}"
    unfolding mset_eq_imp_distinct_iff [OF ms] mset_eq_setD [OF ms] by auto
  have "waiting w = worker_rows w" if "w \<in> set ?ws" for w using build_threads_next [OF that] by auto
  note same = this
  have "\<exists>i < length ?ws. r \<in> set (waiting (?ws ! i))" if "r < N" for r
  proof -
    have "r \<in> set (concat (map worker_rows ?ws))" using that rows(2) by simp
    then obtain w where "w \<in> set ?ws" "r \<in> set (worker_rows w)" by auto
    then show ?thesis using same by (metis in_set_conv_nth)
  qed
  then have "claimed N ?ws = {}" by (auto simp: claimed_def)
  moreover have "rows_apart N ?ws" by (rule rows_apart_distinct [OF rows(1)]) (simp only: rows(2) order_refl)
  moreover have "?ws ! i \<noteq> Fill r s n rs" "?ws ! i \<noteq> Seek r s rs" if "i < length ?ws" for i r s n rs
    using build_threads_next [OF nth_mem [OF that]] by auto
  moreover have "ht_at T (replicate (ht_len T * n_ht_column T) EMPTY) s n = EMPTY" if "s < ht_len T" "n < n_ht_column T" for s n
    using slot_index_less [OF that] by (simp add: ht_at_def)
  ultimately show ?thesis by (simp add: building_def)
qed

lemma building_reachable:
  assumes "buildable T N"
    and "(build_step T)\<^sup>*\<^sup>* (replicate (ht_len T * n_ht_column T) EMPTY, build_threads N) c"
  shows "\<exists>slot. building T N slot c"
  using assms(2)
proof induction
  case base
  show ?case using building_start by blast
next
  case (step c d)
  obtain slot where "building T N slot c" using step.IH by blast
  then show ?case using build_step_building [OF _ assms(1)] step.hyps(2) by (cases c; cases d) metis
qed

lemma building_done:
  assumes "building T N slot (ht, ws)" and "\<forall>w \<in> set ws. w = Next []"
  shows "table_holds T {..<N} ht"
proof -
  note D = buildingD [OF assms(1)]
  have none: "worker_rows (ws ! i) = []" "waiting (ws ! i) = []" if "i < length ws" for i
    using assms(2) nth_mem [OF that] by auto
  then have all: "claimed N ws = {..<N}" by (auto simp: claimed_def)
  have "\<forall>i < length ws. r \<notin> set (worker_rows (ws ! i))" for r using none by simp
  note W = D(6) [OF _ this, unfolded written_def]
  have "ht_at T ht (slot r) n = cell T r n" if "r < N" "n < n_ht_column T" for r n
    using W [of r] that all by (auto simp: cell_def)
  then show ?thesis
    unfolding table_holds_def using D(1,3-5,9) all by (intro conjI exI [of _ slot]) simp_all
qed

lemma table_held:
  assumes "buildable T N" and "0 < N" and "buildHashTable T N ht ht'"
  shows "table_holds T {..<N} ht'"
proof -
  obtain ws where run: "(build_step T)\<^sup>*\<^sup>* (replicate (ht_len T * n_ht_column T) EMPTY, build_threads N) (ht', ws)"
    and fin: "\<forall>w \<in> set ws. w = Next []"
    using assms by (auto simp: buildHashTable_def buildable_def)
  obtain slot where "building T N slot (ht', ws)" using building_reachable [OF assms(1) run] by blast
  then show ?thesis by (rule building_done [OF _ fin])
qed

text \<open>C22: whatever the interleaving of the threads of the build kernel, the finished hash table holds
  every build row exactly once, with all its keys and its row id, in a slot that the row's probe
  sequence reaches over occupied slots only, and every other slot is empty; the word behind the row
  id, where right joins mark matches, is empty.\<close>

theorem buildHashTable_holds_every_row:
  assumes "buildable T N" and "0 < N" and "buildHashTable T N ht ht'"
  shows "table_holds T {..<N} ht'"
  by (rule table_held [OF assms])

section \<open>The build kernel ends\<close>

definition pot :: "table \<Rightarrow> worker \<Rightarrow> nat" where
  "pot T w = (case w of
     Next rs \<Rightarrow> length rs * (ht_len T + num_keys T + 2)
   | Seek r s rs \<Rightarrow> (ht_len T - (LEAST k. path (ht_len T) (the (first_slot (t_keys T) (equal_keys T) (ht_len T) r)) k = s))
       + num_keys T + 1 + length rs * (ht_len T + num_keys T + 2)
   | Fill r s n rs \<Rightarrow> num_keys T + 1 - n + length rs * (ht_len T + num_keys T + 2))"

lemma path_inj:
  assumes "coprime len 100007" and "f < len" and "j < len" and "k < len" and "path len f j = path len f k"
  shows "j = k"
proof -
  have main: "j = k" if "j \<le> k" "k < len" "(f + j * 100007) mod len = (f + k * 100007) mod len" for j k
  proof -
    have "len dvd (f + k * 100007) - (f + j * 100007)"
      using that(3) that(1) by (metis mod_eq_dvd_iff_nat add_le_mono le_refl mult_le_mono1)
    moreover have "(f + k * 100007) - (f + j * 100007) = (k - j) * 100007" by (simp add: diff_mult_distrib)
    ultimately have "len dvd k - j" using assms(1) by (metis coprime_dvd_mult_left_iff)
    then have "k - j = 0" using that(2) by (metis dvd_imp_le less_imp_diff_less not_le bot_nat_0.not_eq_extremum)
    with that(1) show "j = k" by simp
  qed
  have "(f + j * 100007) mod len = (f + k * 100007) mod len" using assms(5) path_mod [OF assms(2)] by simp
  with main [of j k] main [of k j] assms(3,4) show ?thesis by (cases "j \<le> k") auto
qed

lemma some_slot_empty:
  assumes ok: "buildable T N" and b: "building T N slot (ht, ws)" and cop: "coprime (ht_len T) 100007"
    and less: "N < ht_len T" and fl: "f < ht_len T"
  shows "\<exists>j < ht_len T. ht_at T ht (path (ht_len T) f j) 0 = EMPTY"
proof (rule ccontr)
  let ?H = "ht_len T"
  note D = buildingD [OF b]
  have H: "0 < ?H" using less by simp
  assume "\<not> (\<exists>j < ?H. ht_at T ht (path ?H f j) 0 = EMPTY)"
  then have "path ?H f j \<in> slot ` claimed N ws" if "j < ?H" for j
    using that D(9) [OF path_less [OF H fl], where n = 0] n_ht_column_pos [of T] by auto
  then have sub: "path ?H f ` {..<?H} \<subseteq> slot ` claimed N ws" by auto
  have fin: "finite (claimed N ws)" and cN: "card (claimed N ws) \<le> N"
    using card_mono [of "{..<N}" "claimed N ws"] by (auto simp: claimed_def)
  have "inj_on (path ?H f) {..<?H}" using path_inj [OF cop fl] by (auto simp: inj_on_def)
  then have "?H = card (path ?H f ` {..<?H})" by (simp add: card_image)
  also have "\<dots> \<le> card (slot ` claimed N ws)" using sub fin by (intro card_mono) simp_all
  also have "\<dots> \<le> card (claimed N ws)" by (rule card_image_le [OF fin])
  finally show False using less cN by simp
qed

text \<open>As long as fewer rows than slots are claimed, a seeking row has not been all round the table.\<close>

lemma seek_position:
  assumes ok: "buildable T N" and b: "building T N slot (ht, ws)" and i: "i < length ws" "ws ! i = Seek r s rs"
    and cop: "coprime (ht_len T) 100007" and less: "N < ht_len T"
  obtains f k where "first_slot (t_keys T) (equal_keys T) (ht_len T) r = Some f" and "f < ht_len T"
    and "s = path (ht_len T) f k" and "k < ht_len T" and "\<forall>j < k. ht_at T ht (path (ht_len T) f j) 0 \<noteq> EMPTY"
proof -
  let ?H = "ht_len T"
  note D = buildingD [OF b]
  obtain f k where f: "first_slot (t_keys T) (equal_keys T) ?H r = Some f" "s = path ?H f k"
    "\<forall>j < k. ht_at T ht (path ?H f j) 0 \<noteq> EMPTY"
    using D(8) [OF i] by (auto simp: gets_to_def)
  have H: "0 < ?H" using ok by (simp add: buildable_def)
  have fl: "f < ?H" by (rule first_slot_less [OF f(1) H])
  obtain j where j: "j < ?H" "ht_at T ht (path ?H f j) 0 = EMPTY"
    using some_slot_empty [OF ok b cop less fl] by blast
  have "\<not> j < k" using f(3) j(2) by blast
  then have "k < ?H" using j(1) by simp
  with f fl show ?thesis by (intro that) simp_all
qed

lemma position_least:
  assumes "coprime len 100007" and "f < len" and "k < len"
  shows "(LEAST j. path len f j = path len f k) = k"
proof (rule Least_equality)
  fix j assume "path len f j = path len f k"
  then show "k \<le> j" using path_inj [OF assms(1,2) _ assms(3), of j] assms(3) by (cases "j < len") simp_all
qed simp

lemma pot_update:
  assumes "i < length ws" and "pot T w < pot T (ws ! i)"
  shows "sum_list (map (pot T) (ws[i := w])) < sum_list (map (pot T) ws)"
proof -
  have "pot T (ws ! i) \<le> sum_list (map (pot T) ws)" using assms(1) by (intro member_le_sum_list) simp_all
  then show ?thesis using assms by (simp add: map_update sum_list_update)
qed

lemma pot_seek:
  assumes "coprime (ht_len T) 100007" and "first_slot (t_keys T) (equal_keys T) (ht_len T) r = Some f" and "f < ht_len T"
    and "k < ht_len T"
  shows "pot T (Seek r (path (ht_len T) f k) rs) = (ht_len T - k) + num_keys T + 1 + length rs * (ht_len T + num_keys T + 2)"
  using position_least [OF assms(1,3,4)] assms(2) by (simp add: pot_def)

lemma build_step_decreases:
  assumes step: "build_step T (ht, ws) (ht', ws')" and ok: "buildable T N" and b: "building T N slot (ht, ws)"
    and cop: "coprime (ht_len T) 100007" and less: "N < ht_len T"
  shows "sum_list (map (pot T) ws') < sum_list (map (pot T) ws)"
  using step
proof cases
  case (begin_row i r rs s)
  have "s < ht_len T" using first_slot_less begin_row(5) ok by (auto simp: buildable_def)
  then have "pot T (Seek r s rs) = ht_len T + num_keys T + 1 + length rs * (ht_len T + num_keys T + 2)"
    using pot_seek [OF cop begin_row(5), of 0 rs] by simp
  then show ?thesis using begin_row by (simp add: pot_update pot_def)
next
  case (no_hash i r rs)
  with first_slot_defined [OF ok, of r] show ?thesis by simp
next
  case (occupied i r s rs)
  obtain f k where p: "first_slot (t_keys T) (equal_keys T) (ht_len T) r = Some f" "f < ht_len T"
    "s = path (ht_len T) f k" "k < ht_len T" "\<forall>j < k. ht_at T ht (path (ht_len T) f j) 0 \<noteq> EMPTY"
    by (rule seek_position [OF ok b occupied(3,4) cop less])
  have nx: "next_slot (ht_len T) s = path (ht_len T) f (Suc k)" using p(3) by simp
  have "Suc k < ht_len T"
  proof (rule ccontr)
    assume "\<not> Suc k < ht_len T"
    then have full: "\<forall>j < ht_len T. ht_at T ht (path (ht_len T) f j) 0 \<noteq> EMPTY"
      using p(3-5) occupied(5) by (metis less_Suc_eq less_trans_Suc not_less_eq)
    obtain j where "j < ht_len T" "ht_at T ht (path (ht_len T) f j) 0 = EMPTY"
      using some_slot_empty [OF ok b cop less p(2)] by blast
    with full show False by blast
  qed
  then show ?thesis
    using pot_seek [OF cop p(1,2,4), of rs] pot_seek [OF cop p(1,2), of "Suc k" rs] occupied nx p(3)
    by (simp add: pot_update)
next
  case (claim i r s rs)
  obtain f k where p: "first_slot (t_keys T) (equal_keys T) (ht_len T) r = Some f" "f < ht_len T"
    "s = path (ht_len T) f k" "k < ht_len T"
    by (rule seek_position [OF ok b claim(3,4) cop less])
  have "pot T (Fill r s 1 rs) < pot T (Seek r s rs)"
    unfolding p(3) pot_seek [OF cop p(1,2,4)] using p(4) by (simp add: pot_def)
  then show ?thesis using claim by (simp add: pot_update)
next
  case (fill_key i r s n rs)
  then show ?thesis by (simp add: pot_update pot_def)
next
  case (fill_row i r s n rs)
  have "n \<le> num_keys T" using buildingD(7) [OF b fill_row(3,4)] by simp
  then show ?thesis using fill_row by (simp add: pot_update pot_def)
qed

lemma build_not_stuck:
  assumes "buildable T N" and "building T N slot (ht, ws)" and "\<not> (\<forall>w \<in> set ws. w = Next [])"
  shows "\<exists>d. build_step T (ht, ws) d"
proof -
  obtain i where i: "i < length ws" "ws ! i \<noteq> Next []" using assms(3) by (auto simp: in_set_conv_nth)
  show ?thesis
  proof (cases "ws ! i")
    case (Next rs)
    with i(2) obtain r rs' where rs: "ws ! i = Next (r # rs')" by (cases rs) auto
    obtain f where "first_slot (t_keys T) (equal_keys T) (ht_len T) r = Some f"
      using first_slot_defined [OF assms(1)] by blast
    from build_step.begin_row [OF i(1) rs this] show ?thesis by blast
  next
    case (Seek r s rs)
    show ?thesis
      using build_step.occupied [OF i(1) Seek] build_step.claim [OF i(1) Seek] by (cases "ht_at T ht s 0 = EMPTY") blast+
  next
    case (Fill r s n rs)
    show ?thesis
      using build_step.fill_key [OF i(1) Fill] build_step.fill_row [OF i(1) Fill] by (cases "n < num_keys T") (blast, force)
  qed
qed

definition build_start :: "table \<Rightarrow> nat \<Rightarrow> u64 list \<times> worker list" where
  "build_start T N = (replicate (ht_len T * n_ht_column T) EMPTY, build_threads N)"

lemma pot_start: "sum_list (map (pot T) (build_threads N)) = N * (ht_len T + num_keys T + 2)"
proof -
  have "sum_list (map (pot T) ws) = length (concat (map worker_rows ws)) * (ht_len T + num_keys T + 2)"
    if "\<forall>w \<in> set ws. \<exists>rs. w = Next rs" for ws
    using that by (induction ws) (auto simp: pot_def algebra_simps)
  moreover have "length (concat (map worker_rows (build_threads N))) = N"
    unfolding build_threads_rows using grid_covers [of "[0..<num_tiles N]" N] by (metis diff_zero length_upt size_mset)
  ultimately show ?thesis using build_threads_next by metis
qed

lemma build_run_bound:
  assumes ok: "buildable T N" and cop: "coprime (ht_len T) 100007" and less: "N < ht_len T"
    and run: "(build_step T ^^ n) (build_start T N) c"
  shows "n \<le> N * (ht_len T + num_keys T + 2) \<and>
    (\<exists>ht ws. (build_step T)\<^sup>*\<^sup>* c (ht, ws) \<and> (\<forall>w \<in> set ws. w = Next []))"
proof
  have inv: "\<exists>slot. building T N slot c" if "(build_step T)\<^sup>*\<^sup>* (build_start T N) c" for c
    using building_reachable [OF ok] that by (simp add: build_start_def)
  have "n + sum_list (map (pot T) (snd c)) \<le> N * (ht_len T + num_keys T + 2)"
    using run
  proof (induction n arbitrary: c)
    case 0
    then show ?case by (auto simp: build_start_def pot_start)
  next
    case (Suc n)
    then obtain d where d: "(build_step T ^^ n) (build_start T N) d" "build_step T d c" by auto
    obtain slot where "building T N slot (fst d, snd d)"
      using inv [of d] relpowp_imp_rtranclp [OF d(1)] by auto
    with d(2) have "sum_list (map (pot T) (snd c)) < sum_list (map (pot T) (snd d))"
      using build_step_decreases [OF _ ok _ cop less, of "fst d" "snd d" "fst c" "snd c" slot] by simp
    with Suc.IH [OF d(1)] show ?case by simp
  qed
  then show "n \<le> N * (ht_len T + num_keys T + 2)" by simp
  have "\<exists>ht ws. (build_step T)\<^sup>*\<^sup>* c (ht, ws) \<and> (\<forall>w \<in> set ws. w = Next [])"
    if "(build_step T)\<^sup>*\<^sup>* (build_start T N) c" for c
    using that
  proof (induction "sum_list (map (pot T) (snd c))" arbitrary: c rule: less_induct)
    case less
    obtain ht ws slot where c: "c = (ht, ws)" "building T N slot (ht, ws)"
      using inv [OF less.prems] by (cases c) auto
    show ?case
    proof (cases "\<forall>w \<in> set ws. w = Next []")
      case True
      with c(1) show ?thesis by blast
    next
      case False
      then obtain ht' ws' where d: "build_step T (ht, ws) (ht', ws')" using build_not_stuck [OF ok c(2)] by auto
      have "(build_step T)\<^sup>*\<^sup>* (build_start T N) (ht', ws')" using less.prems c(1) d by simp
      from less.hyps [OF _ this] build_step_decreases [OF d ok c(2) cop assms(3)] c(1) d
      show ?thesis by (auto intro: converse_rtranclp_into_rtranclp)
    qed
  qed
  from this [OF relpowp_imp_rtranclp [OF run]]
  show "\<exists>ht ws. (build_step T)\<^sup>*\<^sup>* c (ht, ws) \<and> (\<forall>w \<in> set ws. w = Next [])" .
qed

definition one_key_table :: "int list \<Rightarrow> nat \<Rightarrow> table" where
  "one_key_table ks H = \<lparr>t_keys = [ks], ht_len = H, num_keys = 1, equal_keys = 1, is_right = False\<rparr>"

lemma two_rows_buildable: "buildable (one_key_table [5, 5] 4) 2"
  by (auto simp: buildable_def one_key_table_def key_item_def EMPTY_def less_2_cases_iff)

lemma two_rows_coprime: "coprime (ht_len (one_key_table [5, 5] 4)) 100007"
proof -
  have "coprime (2 * 2 :: nat) 100007" unfolding coprime_mult_left_iff coprime_left_2_iff_odd by simp
  then show ?thesis by (simp add: one_key_table_def)
qed

lemma build_exists:
  assumes "buildable T N" and "coprime (ht_len T) 100007" and "N < ht_len T"
  shows "\<exists>ht. buildHashTable T N ht0 ht"
proof -
  obtain ht ws where "(build_step T)\<^sup>*\<^sup>* (build_start T N) (ht, ws)" "\<forall>w \<in> set ws. w = Next []"
    using build_run_bound [OF assms(1,2,3), of 0] by auto
  then show ?thesis unfolding buildHashTable_def build_start_def
    by (cases "N = 0 \<or> ht_len T = 0") auto
qed

lemma two_rows_build: "\<exists>ht. buildHashTable (one_key_table [5, 5] 4) 2 [] ht"
  by (rule build_exists [OF two_rows_buildable two_rows_coprime]) (simp add: one_key_table_def)

text \<open>C23: with more slots than rows and a table length that shares no factor with the step 100007, the
  build kernel ends: no run takes more than \<open>ht_len + num_keys + 2\<close> accesses per row, and from
  every state that a run reaches the threads can finish.\<close>

theorem build_kernel_ends:
  assumes ok: "buildable T N" and cop: "coprime (ht_len T) 100007" and less: "N < ht_len T"
    and run: "(build_step T ^^ n) (build_start T N) c"
  shows "n \<le> N * (ht_len T + num_keys T + 2) \<and>
    (\<exists>ht ws. (build_step T)\<^sup>*\<^sup>* c (ht, ws) \<and> (\<forall>w \<in> set ws. w = Next []))"
  by (rule build_run_bound [OF assms])

theorem build_kernel_ends_witness:
  "\<exists>ht ws. (build_step (one_key_table [5, 5] 4))\<^sup>*\<^sup>* (build_start (one_key_table [5, 5] 4) 2) (ht, ws) \<and> (\<forall>w \<in> set ws. w = Next [])"
  using build_kernel_ends [OF two_rows_buildable two_rows_coprime, of 0] by (simp add: one_key_table_def)

theorem buildHashTable_holds_every_row_witness:
  "\<exists>ht. table_holds (one_key_table [5, 5] 4) {..<2} ht"
  using two_rows_build buildHashTable_holds_every_row [OF two_rows_buildable] by fastforce

section \<open>Table lengths that share a factor with the step\<close>

lemma path_class:
  assumes "d dvd len" and "d dvd 100007" and "f < len"
  shows "path len f k mod d = f mod d"
proof -
  have "path len f k mod d = (f + k * 100007) mod d"
    unfolding path_mod [OF assms(3)] by (rule mod_mod_cancel [OF assms(1)])
  also obtain e where "100007 = d * e" using assms(2) by (rule dvdE)
  then have "(f + k * 100007) mod d = (f + d * (k * e)) mod d" by (simp only: mult.left_commute)
  then have "(f + k * 100007) mod d = f mod d" by (simp only: mod_mult_self2)
  finally show ?thesis .
qed

lemma class_size:
  assumes "d dvd H"
  shows "card {x. x < H \<and> x mod d = c} \<le> H div (d :: nat)"
proof -
  have "inj_on (\<lambda>x. x div d) {x. x < H \<and> x mod d = c}"
  proof (rule inj_onI)
    fix x y assume "x \<in> {x. x < H \<and> x mod d = c}" "y \<in> {x. x < H \<and> x mod d = c}" "x div d = y div d"
    then show "x = y" using div_mult_mod_eq [of x d] div_mult_mod_eq [of y d] by simp
  qed
  moreover have "(\<lambda>x. x div d) ` {x. x < H \<and> x mod d = c} \<subseteq> {..<H div d}"
  proof (rule image_subsetI)
    fix x assume "x \<in> {x. x < H \<and> x mod d = c}"
    then have "x < H div d * d" using dvd_div_mult_self [OF assms] by simp
    then show "x div d \<in> {..<H div d}" using less_mult_imp_div_less by simp
  qed
  ultimately have "card {x. x < H \<and> x mod d = c} \<le> card {..<H div d}" by (rule card_inj_on_le) simp
  then show ?thesis by simp
qed

text \<open>C24: when the table length is a multiple of a divisor \<open>d\<close> of the step (97 or 1031), the probe
  sequence stays in its class modulo \<open>d\<close>: with more rows hashing into a class than it has slots the
  build kernel never finishes, however empty the rest of the table is.\<close>

theorem build_kernel_hangs:
  assumes ok: "buildable T N" and d: "d dvd 100007" "d dvd ht_len T"
    and rows: "R \<subseteq> {..<N}" "\<forall>r \<in> R. \<exists>f. first_slot (t_keys T) (equal_keys T) (ht_len T) r = Some f \<and> f mod d = c"
    and many: "ht_len T div d < card R"
  shows "\<not> buildHashTable T N ht ht'"
proof
  assume "buildHashTable T N ht ht'"
  moreover have "0 < N" using rows(1) many by (cases N) auto
  ultimately have "table_holds T {..<N} ht'" by (intro table_held [OF ok])
  then obtain slot where inj: "inj_on slot {..<N}"
    and slot: "\<And>r. r < N \<Longrightarrow> slot r < ht_len T \<and> gets_to T ht' r (slot r)"
    unfolding table_holds_def by (metis lessThan_iff)
  have "slot r \<in> {x. x < ht_len T \<and> x mod d = c}" if "r \<in> R" for r
  proof -
    have r: "r < N" using that rows(1) by blast
    obtain f k where "first_slot (t_keys T) (equal_keys T) (ht_len T) r = Some f" "slot r = path (ht_len T) f k"
      using slot [OF r] by (auto simp: gets_to_def)
    moreover have "f mod d = c" "f < ht_len T"
      using rows(2) that calculation(1) first_slot_less ok by (auto simp: buildable_def)
    ultimately show ?thesis using slot [OF r] path_class [OF d(2,1)] by simp
  qed
  then have "card R \<le> card {x. x < ht_len T \<and> x mod d = c}"
    using inj_on_subset [OF inj rows(1)] by (intro card_inj_on_le [of slot]) auto
  also have "\<dots> \<le> ht_len T div d" by (rule class_size [OF d(2)])
  finally show False using many by simp
qed

text \<open>A build column of 97 equal keys.\<close>

theorem build_kernel_hangs_witness:
  "\<forall>ht ht'. \<not> buildHashTable (one_key_table (replicate 97 5) 194) 97 ht ht'"
proof (intro allI, rule build_kernel_hangs [where d = 97 and R = "{..<97}" and c = 5])
  show "buildable (one_key_table (replicate 97 5) 194) 97"
    by (simp add: buildable_def one_key_table_def key_item_def EMPTY_def)
qed (simp_all add: one_key_table_def first_slot_def key_item_def)

end
