(* ===== verification/Hash_Probe.thy ===== *)
theory Hash_Probe
  imports Hash_Table
begin

text \<open>
  The kernels that probe the hash table of a join (\<open>src/src/cuda/operator/hash_join_inner.cu\<close>,
  \<open>hash_join_right.cu\<close>, \<open>hash_join_single.cu\<close>) and the host functions that launch them.  The search
  loops have no bound of their own: they are partial functions, \<open>None\<close> when the search does not end.
  The results are compared with the join computed by two nested loops over the rows.
\<close>

section \<open>Searching\<close>

text \<open>\<open>local_found\<close>: condition mode 0 asks for equal keys, mode 1 for different ones.\<close>

definition local_found :: "table \<Rightarrow> nat list \<Rightarrow> int list list \<Rightarrow> u64 list \<Rightarrow> nat \<Rightarrow> nat \<Rightarrow> bool" where
  "local_found T condition_mode keys ht r slot = list_all (\<lambda>n.
     (if condition_mode ! n = 0 \<and> ht_at T ht slot n \<noteq> key_item keys n r then False
      else if condition_mode ! n = 1 \<and> ht_at T ht slot n = key_item keys n r then False
      else True)) [0..<num_keys T]"

text \<open>The loop of \<open>probe_multikey\<close>: every matching slot; and the loop that breaks at the first.\<close>

partial_function (option) all_matches ::
  "table \<Rightarrow> nat list \<Rightarrow> int list list \<Rightarrow> u64 list \<Rightarrow> nat \<Rightarrow> nat \<Rightarrow> nat list option" where
  "all_matches T condition_mode keys ht r slot =
     (if ht_at T ht slot 0 = EMPTY then Some []
      else Option.bind (all_matches T condition_mode keys ht r (next_slot (ht_len T) slot)) (\<lambda>rest.
        Some (if local_found T condition_mode keys ht r slot then slot # rest else rest)))"

partial_function (option) first_match ::
  "table \<Rightarrow> nat list \<Rightarrow> int list list \<Rightarrow> u64 list \<Rightarrow> nat \<Rightarrow> nat \<Rightarrow> nat option option" where
  "first_match T condition_mode keys ht r slot =
     (if ht_at T ht slot 0 = EMPTY then Some None
      else if local_found T condition_mode keys ht r slot then Some (Some slot)
      else first_match T condition_mode keys ht r (next_slot (ht_len T) slot))"

text \<open>What a thread finds for a row; nothing when the number of equality keys has no hash.\<close>

definition row_matches :: "table \<Rightarrow> nat list \<Rightarrow> int list list \<Rightarrow> u64 list \<Rightarrow> nat \<Rightarrow> nat list option" where
  "row_matches T condition_mode keys ht r =
     (case first_slot keys (count_equal_keys condition_mode) (ht_len T) r of None \<Rightarrow> Some []
      | Some slot \<Rightarrow> all_matches T condition_mode keys ht r slot)"

definition row_first_match :: "table \<Rightarrow> nat list \<Rightarrow> int list list \<Rightarrow> u64 list \<Rightarrow> nat \<Rightarrow> nat option option" where
  "row_first_match T condition_mode keys ht r =
     (case first_slot keys (count_equal_keys condition_mode) (ht_len T) r of None \<Rightarrow> Some None
      | Some slot \<Rightarrow> first_match T condition_mode keys ht r slot)"

section \<open>The join by nested loops\<close>

definition joins :: "table \<Rightarrow> nat list \<Rightarrow> int list list \<Rightarrow> nat \<Rightarrow> nat \<Rightarrow> bool" where
  "joins T condition_mode keys r b \<longleftrightarrow> (\<forall>n < num_keys T.
     (condition_mode ! n = 0 \<longrightarrow> key_item (t_keys T) n b = key_item keys n r) \<and>
     (condition_mode ! n = 1 \<longrightarrow> key_item (t_keys T) n b \<noteq> key_item keys n r))"

text \<open>The conditions as the hash join passes them to the build and to the probe: the equalities first,
  their number in \<open>equal_keys\<close>.\<close>

definition conditions_fit :: "table \<Rightarrow> nat list \<Rightarrow> bool" where
  "conditions_fit T condition_mode \<longleftrightarrow> length condition_mode = num_keys T \<and>
     equal_keys T = count_equal_keys condition_mode \<and> (\<forall>n < equal_keys T. condition_mode ! n = 0)"

text \<open>A table built from \<open>M\<close> rows, with room to spare.\<close>

definition row_slots :: "table \<Rightarrow> nat \<Rightarrow> u64 list \<Rightarrow> (nat \<Rightarrow> nat) \<Rightarrow> bool" where
  "row_slots T M ht slot \<longleftrightarrow> inj_on slot {..<M} \<and>
     (\<forall>b < M. slot b < ht_len T \<and> gets_to T ht b (slot b) \<and> (\<forall>n \<le> num_keys T. ht_at T ht (slot b) n = cell T b n)) \<and>
     (\<forall>s < ht_len T. s \<notin> slot ` {..<M} \<longrightarrow> (\<forall>n \<le> num_keys T. ht_at T ht s n = EMPTY))"

definition probeable :: "table \<Rightarrow> nat \<Rightarrow> u64 list \<Rightarrow> bool" where
  "probeable T M ht \<longleftrightarrow> buildable T M \<and> M < ht_len T \<and> coprime (ht_len T) 100007 \<and> (\<exists>slot. row_slots T M ht slot)"

lemma table_holds_probeable:
  assumes "table_holds T {..<M} ht" and "buildable T M" and "M < ht_len T" and "coprime (ht_len T) 100007"
  shows "probeable T M ht"
proof -
  have le: "n < n_ht_column T" if "n \<le> num_keys T" for n using that n_ht_column_pos [of T] by simp
  obtain slot where "inj_on slot {..<M}"
    "\<forall>r \<in> {..<M}. slot r < ht_len T \<and> gets_to T ht r (slot r) \<and> (\<forall>n < n_ht_column T. ht_at T ht (slot r) n = cell T r n)"
    "\<forall>s < ht_len T. s \<notin> slot ` {..<M} \<longrightarrow> (\<forall>n < n_ht_column T. ht_at T ht s n = EMPTY)"
    using assms(1) unfolding table_holds_def by blast
  then have "row_slots T M ht slot" unfolding row_slots_def using le by (intro conjI) simp_all
  with assms(2-4) show ?thesis by (auto simp: probeable_def)
qed

lemma all_matches_path:
  assumes "\<forall>j < k. ht_at T ht (path (ht_len T) f j) 0 \<noteq> EMPTY" and "ht_at T ht (path (ht_len T) f k) 0 = EMPTY"
  shows "i \<le> k \<Longrightarrow> all_matches T cm keys ht r (path (ht_len T) f i) =
     Some (filter (local_found T cm keys ht r) (map (path (ht_len T) f) [i..<k]))"
proof (induction "k - i" arbitrary: i)
  case 0
  then show ?case using assms(2) by (subst all_matches.simps) simp
next
  case (Suc d)
  then have i: "i < k" "d = k - Suc i" by simp_all
  have "all_matches T cm keys ht r (path (ht_len T) f (Suc i)) =
      Some (filter (local_found T cm keys ht r) (map (path (ht_len T) f) [Suc i..<k]))"
    by (rule Suc.hyps(1) [OF i(2)]) (use i in simp)
  then show ?case using assms(1) i(1) by (subst all_matches.simps) (simp add: upt_conv_Cons)
qed

lemma first_match_path:
  assumes "\<forall>j < k. ht_at T ht (path (ht_len T) f j) 0 \<noteq> EMPTY" and "ht_at T ht (path (ht_len T) f k) 0 = EMPTY"
  shows "i \<le> k \<Longrightarrow> first_match T cm keys ht r (path (ht_len T) f i) =
     Some (find (local_found T cm keys ht r) (map (path (ht_len T) f) [i..<k]))"
proof (induction "k - i" arbitrary: i)
  case 0
  then show ?case using assms(2) by (subst first_match.simps) simp
next
  case (Suc d)
  then have i: "i < k" "d = k - Suc i" by simp_all
  have "first_match T cm keys ht r (path (ht_len T) f (Suc i)) =
      Some (find (local_found T cm keys ht r) (map (path (ht_len T) f) [Suc i..<k]))"
    by (rule Suc.hyps(1) [OF i(2)]) (use i in simp)
  then show ?case using assms(1) i(1) by (subst first_match.simps) (simp add: upt_conv_Cons)
qed

text \<open>The probe sequence meets an empty slot before it has gone round.\<close>

lemma probe_meets_empty:
  assumes "probeable T M ht" and "f < ht_len T"
  obtains k where "k < ht_len T" and "ht_at T ht (path (ht_len T) f k) 0 = EMPTY"
    and "\<forall>j < k. ht_at T ht (path (ht_len T) f j) 0 \<noteq> EMPTY"
proof -
  let ?H = "ht_len T"
  obtain slot where less: "M < ?H" and cop: "coprime ?H 100007"
    and em: "\<forall>s < ?H. s \<notin> slot ` {..<M} \<longrightarrow> (\<forall>n \<le> num_keys T. ht_at T ht s n = EMPTY)"
    using assms(1) by (auto simp: probeable_def row_slots_def)
  have "inj_on (path ?H f) {..<?H}" using path_inj [OF cop assms(2)] by (auto simp: inj_on_def)
  then have "card (path ?H f ` {..<?H}) = ?H" by (simp add: card_image)
  moreover have "card (slot ` {..<M}) \<le> M" using card_image_le [of "{..<M}" slot] by simp
  ultimately have "\<not> path ?H f ` {..<?H} \<subseteq> slot ` {..<M}"
    using less card_mono [of "slot ` {..<M}" "path ?H f ` {..<?H}"] by auto
  then obtain j where j: "j < ?H" "path ?H f j \<notin> slot ` {..<M}" by blast
  have "path ?H f j < ?H" by (rule path_less) (use assms(2) in simp_all)
  then have "ht_at T ht (path ?H f j) 0 = EMPTY" using em j(2) by simp
  then obtain k where "ht_at T ht (path ?H f k) 0 = EMPTY" "k \<le> j"
    "\<forall>i < k. ht_at T ht (path ?H f i) 0 \<noteq> EMPTY"
    using ex_least_nat_le [of "\<lambda>i. ht_at T ht (path ?H f i) 0 = EMPTY" j] by blast
  with j(1) show ?thesis by (intro that [of k]) simp_all
qed

lemma conditions_fit_le: "conditions_fit T condition_mode \<Longrightarrow> equal_keys T \<le> num_keys T"
  by (metis conditions_fit_def count_equal_keys_def length_filter_le)

lemma joins_same_slot:
  assumes "joins T cm keys r b" and "conditions_fit T cm" and "0 < num_keys T"
    and "first_slot keys (equal_keys T) (ht_len T) r = Some f"
  shows "first_slot (t_keys T) (equal_keys T) (ht_len T) b = Some f"
proof -
  have eq: "key_item (t_keys T) n b = key_item keys n r" if "n < equal_keys T" for n
    using assms(1,2) that conditions_fit_le [OF assms(2)] by (simp add: joins_def conditions_fit_def)
  show ?thesis
    using assms(4) eq [of 0] eq [of 1] by (auto simp: first_slot_def split: if_splits)
qed

lemma local_found_joins:
  assumes "\<forall>n \<le> num_keys T. ht_at T ht s n = cell T b n"
  shows "local_found T cm keys ht r s \<longleftrightarrow> joins T cm keys r b"
proof -
  have "ht_at T ht s n = key_item (t_keys T) n b" if "n < num_keys T" for n
    using assms that by (simp add: cell_def)
  moreover have "(if c = 0 \<and> h \<noteq> i then False else if c = 1 \<and> h = i then False else True) \<longleftrightarrow>
      (c = 0 \<longrightarrow> h = i) \<and> (c = 1 \<longrightarrow> h \<noteq> i)" for c :: nat and h i :: u64 by auto
  ultimately show ?thesis by (simp only: local_found_def joins_def list_all_iff set_upt atLeastLessThan_iff) auto
qed

text \<open>The occupied slots a probe looks at: those of the rows it has to see are among them.\<close>

lemma probe_path:
  assumes p: "probeable T M ht" and slot: "row_slots T M ht slot" and fit: "conditions_fit T cm"
    and f: "first_slot keys (equal_keys T) (ht_len T) r = Some f"
  obtains k where "all_matches T cm keys ht r f = Some (filter (local_found T cm keys ht r) (map (path (ht_len T) f) [0..<k]))"
    and "first_match T cm keys ht r f = Some (find (local_found T cm keys ht r) (map (path (ht_len T) f) [0..<k]))"
    and "distinct (map (path (ht_len T) f) [0..<k])"
    and "{s \<in> set (map (path (ht_len T) f) [0..<k]). local_found T cm keys ht r s} = slot ` {b. b < M \<and> joins T cm keys r b}"
proof -
  let ?H = "ht_len T"
  have ok: "buildable T M" and cop: "coprime ?H 100007" using p by (simp_all add: probeable_def)
  have H: "0 < ?H" and nk: "0 < num_keys T" using ok by (simp_all add: buildable_def)
  have fl: "f < ?H" by (rule first_slot_less [OF f H])
  obtain k where k: "k < ?H" "ht_at T ht (path ?H f k) 0 = EMPTY" "\<forall>j < k. ht_at T ht (path ?H f j) 0 \<noteq> EMPTY"
    by (rule probe_meets_empty [OF p fl])
  have sl: "slot b < ?H" "gets_to T ht b (slot b)" "\<forall>n \<le> num_keys T. ht_at T ht (slot b) n = cell T b n" if "b < M" for b
    using slot that unfolding row_slots_def by blast+
  have occ: "ht_at T ht (slot b) 0 \<noteq> EMPTY" if "b < M" for b
    using sl(3) [OF that] ok that nk by (simp add: cell_def buildable_def)
  have "{s \<in> set (map (path ?H f) [0..<k]). local_found T cm keys ht r s} = slot ` {b. b < M \<and> joins T cm keys r b}"
  proof (intro set_eqI iffI)
    fix s assume "s \<in> {s \<in> set (map (path ?H f) [0..<k]). local_found T cm keys ht r s}"
    then obtain j where j: "j < k" "s = path ?H f j" "local_found T cm keys ht r s" by auto
    have "s < ?H" using path_less [OF H fl] j(2) by simp
    moreover have "ht_at T ht s 0 \<noteq> EMPTY" using j k(3) by simp
    ultimately have "s \<in> slot ` {..<M}" using slot unfolding row_slots_def by blast
    then obtain b where b: "b < M" "s = slot b" by blast
    with j(3) show "s \<in> slot ` {b. b < M \<and> joins T cm keys r b}" using local_found_joins [OF sl(3) [OF b(1)]] by blast
  next
    fix s assume "s \<in> slot ` {b. b < M \<and> joins T cm keys r b}"
    then obtain b where b: "b < M" "joins T cm keys r b" "s = slot b" by blast
    have fb: "first_slot (t_keys T) (equal_keys T) ?H b = Some f" by (rule joins_same_slot [OF b(2) fit nk f])
    obtain i where i: "slot b = path ?H f i" "\<forall>j < i. ht_at T ht (path ?H f j) 0 \<noteq> EMPTY"
      using sl(2) [OF b(1)] fb by (auto simp: gets_to_def)
    have "\<not> k \<le> i" using i k(2) occ [OF b(1)] by (metis le_neq_implies_less)
    then have "s \<in> set (map (path ?H f) [0..<k])" using b(3) i(1) by auto
    then show "s \<in> {s \<in> set (map (path ?H f) [0..<k]). local_found T cm keys ht r s}"
      using local_found_joins [OF sl(3) [OF b(1)]] b by simp
  qed
  moreover have "distinct (map (path ?H f) [0..<k])"
    using path_inj [OF cop fl] k(1) by (auto simp: distinct_map intro!: inj_onI)
  moreover have "all_matches T cm keys ht r f = Some (filter (local_found T cm keys ht r) (map (path ?H f) [0..<k]))"
    using all_matches_path [OF k(3,2), of 0] by simp
  moreover have "first_match T cm keys ht r f = Some (find (local_found T cm keys ht r) (map (path ?H f) [0..<k]))"
    using first_match_path [OF k(3,2), of 0] by simp
  ultimately show ?thesis by (intro that [of k])
qed

lemma row_matches_rows:
  assumes "probeable T M ht" and "row_slots T M ht slot" and "conditions_fit T cm"
  shows "\<exists>ms. row_matches T cm keys ht r = Some ms \<and> distinct ms \<and> set ms = slot ` {b. b < M \<and> joins T cm keys r b}"
proof -
  have "equal_keys T = 1 \<or> equal_keys T = 2" using assms(1) by (simp add: probeable_def buildable_def)
  then obtain f where f: "first_slot keys (equal_keys T) (ht_len T) r = Some f" by (auto simp: first_slot_def)
  obtain k where "all_matches T cm keys ht r f = Some (filter (local_found T cm keys ht r) (map (path (ht_len T) f) [0..<k]))"
    "distinct (map (path (ht_len T) f) [0..<k])"
    "{s \<in> set (map (path (ht_len T) f) [0..<k]). local_found T cm keys ht r s} = slot ` {b. b < M \<and> joins T cm keys r b}"
    by (rule probe_path [OF assms f])
  then show ?thesis using f assms(3) by (simp add: row_matches_def distinct_filter conditions_fit_def)
qed

lemma row_first_match_rows:
  assumes "probeable T M ht" and "row_slots T M ht slot" and "conditions_fit T cm"
  shows "\<exists>m. row_first_match T cm keys ht r = Some m \<and> (m = None \<longleftrightarrow> \<not> (\<exists>b < M. joins T cm keys r b)) \<and>
    (\<forall>s. m = Some s \<longrightarrow> s \<in> slot ` {b. b < M \<and> joins T cm keys r b})"
proof -
  have "equal_keys T = 1 \<or> equal_keys T = 2" using assms(1) by (simp add: probeable_def buildable_def)
  then obtain f where f: "first_slot keys (equal_keys T) (ht_len T) r = Some f" by (auto simp: first_slot_def)
  obtain k where k: "first_match T cm keys ht r f = Some (find (local_found T cm keys ht r) (map (path (ht_len T) f) [0..<k]))"
    "{s \<in> set (map (path (ht_len T) f) [0..<k]). local_found T cm keys ht r s} = slot ` {b. b < M \<and> joins T cm keys r b}"
    by (rule probe_path [OF assms f])
  let ?m = "find (local_found T cm keys ht r) (map (path (ht_len T) f) [0..<k])"
  have "?m = None \<longleftrightarrow> {s \<in> set (map (path (ht_len T) f) [0..<k]). local_found T cm keys ht r s} = {}"
    by (auto simp: find_None_iff)
  then have "?m = None \<longleftrightarrow> \<not> (\<exists>b < M. joins T cm keys r b)" unfolding k(2) by auto
  moreover have "s \<in> slot ` {b. b < M \<and> joins T cm keys r b}" if "?m = Some s" for s
    using that unfolding k(2) [symmetric] by (auto simp: find_Some_iff)
  ultimately show ?thesis using f k(1) assms(3) by (simp add: row_first_match_def conditions_fit_def)
qed

section \<open>Inner and right joins: \<open>probeHashTable\<close>\<close>

text \<open>The writes of row ids of a probe row that a right join leaves behind the build row's id, in the
  slots \<open>f r\<close>, and the table after all of them, in any order.\<close>

definition mark_writes :: "table \<Rightarrow> nat \<Rightarrow> (nat \<Rightarrow> nat list) \<Rightarrow> (nat \<times> u64) list" where
  "mark_writes T N f = concat (map (\<lambda>r. map (\<lambda>s. (s * n_ht_column T + num_keys T + 1, of_nat r)) (f r)) [0..<N])"

definition marked :: "table \<Rightarrow> nat \<Rightarrow> (nat \<Rightarrow> nat list) \<Rightarrow> u64 list \<Rightarrow> u64 list \<Rightarrow> bool" where
  "marked T N f ht ht' \<longleftrightarrow> (\<exists>ws. mset ws = mset (mark_writes T N f) \<and> ht' = write_each ws ht)"

text \<open>Two passes over the probe side: \<open>probe_multikey_count\<close> gives each thread its place, \<open>probe_multikey\<close>
  writes the pairs of row ids there.  Threads only look at the words up to the row id, which the
  marks of a right join leave alone.\<close>

definition probe_multikey ::
  "table \<Rightarrow> nat \<Rightarrow> u64 list \<Rightarrow> (nat \<Rightarrow> nat list) \<Rightarrow> nat list \<Rightarrow> (nat \<times> u64) list \<Rightarrow> (nat \<times> u64) list \<Rightarrow> bool" where
  "probe_multikey T N ht ms order wsl wsr \<longleftrightarrow>
     mset wsl = mset (kernel_writes (row_counts N ms) (row_outs N (\<lambda>r. map (\<lambda>s. of_nat r) (ms r))) order) \<and>
     mset wsr = mset (kernel_writes (row_counts N ms) (row_outs N (\<lambda>r. map (\<lambda>s. ht_at T ht s (num_keys T)) (ms r))) order)"

definition probeHashTable ::
  "table \<Rightarrow> nat list \<Rightarrow> int list list \<Rightarrow> nat \<Rightarrow> u64 list \<Rightarrow> u64 list \<times> u64 list \<times> u64 \<times> u64 list \<Rightarrow> bool" where
  "probeHashTable T condition_mode keys N ht = (\<lambda>(row_ids_left, row_ids_right, h_count, ht').
     if N = 0 \<or> ht_len T = 0 then row_ids_left = [] \<and> row_ids_right = [] \<and> h_count = 0 \<and> ht' = ht
     else \<exists>ms order wsl wsr arrl arrr.
       (\<forall>r < N. row_matches T condition_mode keys ht r = Some (ms r)) \<and>
       mset order = mset [0..<num_tiles N] \<and> h_count = final_count (row_counts N ms) order \<and>
       length arrl = unat h_count \<and> length arrr = unat h_count \<and>
       probe_multikey T N ht ms order wsl wsr \<and>
       row_ids_left = write_each wsl arrl \<and> row_ids_right = write_each wsr arrr \<and>
       (if is_right T then marked T N ms ht ht' else ht' = ht))"

text \<open>The matches of a block fit the 32-bit counts, and all matches 64 bits.\<close>

definition join_fits :: "table \<Rightarrow> nat list \<Rightarrow> int list list \<Rightarrow> nat \<Rightarrow> nat \<Rightarrow> bool" where
  "join_fits T condition_mode keys N M \<longleftrightarrow>
     (\<forall>order. mset order = mset [0..<num_tiles N] \<longrightarrow>
        small_blocks (row_counts N (\<lambda>r. filter (joins T condition_mode keys r) [0..<M])) order)"

lemma zip_concat:
  assumes "\<And>r. r \<in> set rs \<Longrightarrow> length (f r) = length (g r)"
  shows "zip (concat (map f rs)) (concat (map g rs)) = concat (map (\<lambda>r. zip (f r) (g r)) rs)"
  using assms by (induction rs) auto

lemma row_outs_cong:
  "(\<And>r. r < N \<Longrightarrow> f r = g r) \<Longrightarrow> b < num_tiles N \<Longrightarrow> t < BLOCK_THREADS \<Longrightarrow> row_outs N f b t = row_outs N g b t"
  unfolding row_outs_def using thread_items_set by (intro arg_cong [of _ _ concat] map_cong) auto

lemma matches_mset:
  assumes inj: "inj_on slot {..<M}" and ms: "distinct ms" "set ms = slot ` {b. b < M \<and> P b}"
  shows "mset ms = mset (map slot (filter P [0..<M]))"
proof -
  have "distinct (map slot (filter P [0..<M]))" using inj by (auto simp: distinct_map inj_on_def)
  moreover have "set (map slot (filter P [0..<M])) = set ms" using ms(2) by auto
  ultimately show ?thesis using ms(1) by (metis set_eq_iff_mset_eq_distinct)
qed

lemma small_blocks_rows:
  assumes "\<And>r. r < N \<Longrightarrow> length (f r) = length (g r)" and "mset order = mset [0..<num_tiles N]"
  shows "small_blocks (row_counts N f) order \<longleftrightarrow> small_blocks (row_counts N g) order"
proof -
  have "set order = {0..<num_tiles N}" using mset_eq_setD [OF assms(2)] by simp
  moreover have "length (row_outs N f b t) = length (row_outs N g b t)" if "b < num_tiles N" "t < BLOCK_THREADS" for b t
    using assms(1) thread_items_set [OF that]
    by (auto simp: row_outs_def length_concat comp_def intro!: arg_cong [of _ _ sum_list] map_cong)
  ultimately have "(\<Sum>t<BLOCK_THREADS. length (row_outs N f b t)) = (\<Sum>t<BLOCK_THREADS. length (row_outs N g b t))"
    if "b \<in> set order" for b
    using that by simp
  then show ?thesis unfolding small_blocks_def by (simp cong: map_cong)
qed

lemma probeHashTable_pairs:
  assumes p: "probeable T M ht" and fit: "conditions_fit T cm" and fits: "join_fits T cm keys N M"
    and res: "probeHashTable T cm keys N ht (row_ids_left, row_ids_right, h_count, ht')"
  shows "mset (zip row_ids_left row_ids_right) =
      mset (concat (map (\<lambda>r. map (\<lambda>b. (of_nat r, of_nat b)) (filter (joins T cm keys r) [0..<M])) [0..<N]))"
    and "length row_ids_left = length row_ids_right" and "unat h_count = length row_ids_left"
proof -
  have H: "ht_len T \<noteq> 0" using p by (auto simp: probeable_def buildable_def)
  obtain slot where slot: "row_slots T M ht slot" using p by (auto simp: probeable_def)
  let ?J = "\<lambda>r. filter (joins T cm keys r) [0..<M]"
  have all: "mset (zip row_ids_left row_ids_right) = mset (concat (map (\<lambda>r. map (\<lambda>b. (of_nat r, of_nat b)) (?J r)) [0..<N])) \<and>
    length row_ids_left = length row_ids_right \<and> unat h_count = length row_ids_left"
  proof (cases "N = 0")
    case True
    then show ?thesis using res by (simp add: probeHashTable_def)
  next
    case False
    then have no: "\<not> (N = 0 \<or> ht_len T = 0)" using H by simp
    from res [unfolded probeHashTable_def probe_multikey_def case_prod_conv if_not_P [OF no]] obtain ms order wsl wsr arrl arrr where
      ms: "\<forall>r < N. row_matches T cm keys ht r = Some (ms r)" and order: "mset order = mset [0..<num_tiles N]"
      and cnt: "h_count = final_count (row_counts N ms) order" and arr: "length arrl = unat h_count" "length arrr = unat h_count"
      and wl: "mset wsl = mset (kernel_writes (row_counts N ms) (row_outs N (\<lambda>r. map (\<lambda>s. of_nat r) (ms r))) order)"
      and wr: "mset wsr = mset (kernel_writes (row_counts N ms) (row_outs N (\<lambda>r. map (\<lambda>s. ht_at T ht s (num_keys T)) (ms r))) order)"
      and out: "row_ids_left = write_each wsl arrl" "row_ids_right = write_each wsr arrr"
      by (elim exE conjE) (rule that; assumption)
    let ?l = "\<lambda>r. map (\<lambda>s. of_nat r :: u64) (ms r)" and ?r = "\<lambda>r. map (\<lambda>s. ht_at T ht s (num_keys T)) (ms r)"
    have rows: "distinct (ms r) \<and> set (ms r) = slot ` {b. b < M \<and> joins T cm keys r b}" if "r < N" for r
      using row_matches_rows [OF p slot fit, of keys r] ms that by auto
    have mm: "mset (ms r) = mset (map slot (?J r))" if "r < N" for r
      using rows [OF that] slot by (intro matches_mset) (simp_all add: row_slots_def)
    have "length (ms r) = length (?J r)" if "r < N" for r using mm [OF that] by (metis length_map size_mset)
    then have small: "small_blocks (row_counts N ms) order"
      using fits order small_blocks_rows [OF _ order, of ms ?J] by (simp add: join_fits_def)
    have cl: "row_counts N ms = row_counts N ?l" "row_counts N ms = row_counts N ?r" by (rule row_counts_cong, simp)+
    have L: "row_ids_left = concat (map ?l (arrival_rows N order))"
      using kernel_result [OF small [unfolded cl(1)] wl [unfolded cl(1)], of arrl] arr(1) cnt cl(1) out(1) by simp
    have R: "row_ids_right = concat (map ?r (arrival_rows N order))"
      using kernel_result [OF small [unfolded cl(2)] wr [unfolded cl(2)], of arrr] arr(2) cnt cl(2) out(2) by simp
    have pairs: "mset (zip (?l r) (?r r)) = mset (map (\<lambda>b. (of_nat r, of_nat b)) (?J r))" if "r < N" for r
    proof -
      have "zip (?l r) (?r r) = map (\<lambda>s. (of_nat r, ht_at T ht s (num_keys T))) (ms r)"
        by (simp add: zip_map_map zip_same_conv_map)
      then have "mset (zip (?l r) (?r r)) = image_mset (\<lambda>s. (of_nat r, ht_at T ht s (num_keys T))) (mset (ms r))" by simp
      also have "\<dots> = mset (map (\<lambda>b. (of_nat r, ht_at T ht (slot b) (num_keys T))) (?J r))"
        unfolding mm [OF that] by (simp add: image_mset.compositionality comp_def)
      also have "map (\<lambda>b. (of_nat r, ht_at T ht (slot b) (num_keys T))) (?J r) = map (\<lambda>b. (of_nat r, of_nat b)) (?J r)"
        using slot by (intro map_cong) (auto simp: row_slots_def cell_def)
      finally show ?thesis .
    qed
    have "zip row_ids_left row_ids_right = concat (map (\<lambda>r. zip (?l r) (?r r)) (arrival_rows N order))"
      unfolding L R by (rule zip_concat) simp
    then have "mset (zip row_ids_left row_ids_right) = mset (concat (map (\<lambda>r. zip (?l r) (?r r)) [0..<N]))"
      using mset_concat_map_cong [OF arrival_rows_mset [OF order]] by simp
    also have "\<dots> = mset (concat (map (\<lambda>r. map (\<lambda>b. (of_nat r, of_nat b)) (?J r)) [0..<N]))"
    proof -
      have "mset (concat (map (\<lambda>r. zip (?l r) (?r r)) rs)) = mset (concat (map (\<lambda>r. map (\<lambda>b. (of_nat r, of_nat b)) (?J r)) rs))"
        if "\<forall>r \<in> set rs. r < N" for rs
        using that pairs by (induction rs) auto
      then show ?thesis by simp
    qed
    finally show ?thesis using out arr L R by (simp add: length_concat comp_def)
  qed
  then show "mset (zip row_ids_left row_ids_right) =
      mset (concat (map (\<lambda>r. map (\<lambda>b. (of_nat r, of_nat b)) (?J r)) [0..<N]))"
    "length row_ids_left = length row_ids_right" "unat h_count = length row_ids_left" by simp_all
qed

lemma join_fits_small:
  assumes "N * M < 2 ^ 31"
  shows "join_fits T cm keys N M"
  unfolding join_fits_def
proof (intro allI impI)
  fix order assume order: "mset order = mset [0..<num_tiles N]"
  let ?J = "\<lambda>r. filter (joins T cm keys r) [0..<M]"
  have block: "(\<Sum>t<BLOCK_THREADS. length (row_outs N ?J b t)) = length (concat (map ?J (block_items N b)))" for b
    using block_outs_length [of "row_outs N ?J" b] by (simp add: block_outs_rows)
  have sum: "(\<Sum>b\<leftarrow>bs. length (concat (map ?J (block_items N b)))) = length (concat (map ?J (concat (map (block_items N) bs))))" for bs
    by (induction bs) auto
  have "length (concat (map ?J rs)) \<le> length rs * M" for rs
  proof (induction rs)
    case (Cons r rs)
    have "length (?J r) \<le> M" using length_filter_le [of "joins T cm keys r" "[0..<M]"] by simp
    with Cons show ?case by simp
  qed simp
  from this [of "arrival_rows N order"]
  have total: "(\<Sum>b\<leftarrow>order. length (concat (map ?J (block_items N b)))) \<le> N * M"
    unfolding sum arrival_rows_def [symmetric] by (simp add: arrival_rows_length [OF order])
  have "length (concat (map ?J (block_items N b))) < 2 ^ 31" if "b \<in> set order" for b
    using member_le_sum_list [of _ "map (\<lambda>b. length (concat (map ?J (block_items N b)))) order"] that total assms by fastforce
  then show "small_blocks (row_counts N ?J) order"
    unfolding small_blocks_def block using total assms by simp
qed

lemma probeHashTable_ends:
  assumes p: "probeable T M ht" and fit: "conditions_fit T cm"
  shows "\<exists>res. probeHashTable T cm keys N ht res"
proof -
  obtain slot where slot: "row_slots T M ht slot" using p by (auto simp: probeable_def)
  have no: "N \<noteq> 0 \<Longrightarrow> \<not> (N = 0 \<or> ht_len T = 0)" using p by (auto simp: probeable_def buildable_def)
  define ms where "ms = (\<lambda>r. the (row_matches T cm keys ht r))"
  have ms: "row_matches T cm keys ht r = Some (ms r)" for r
    using row_matches_rows [OF p slot fit, of keys r] by (auto simp: ms_def)
  let ?order = "[0..<num_tiles N]" and ?n = "unat (final_count (row_counts N ms) [0..<num_tiles N])"
  let ?wl = "kernel_writes (row_counts N ms) (row_outs N (\<lambda>r. map (\<lambda>s. of_nat r :: u64) (ms r))) ?order"
  let ?wr = "kernel_writes (row_counts N ms) (row_outs N (\<lambda>r. map (\<lambda>s. ht_at T ht s (num_keys T)) (ms r))) ?order"
  let ?ht = "if is_right T then write_each (mark_writes T N ms) ht else ht"
  have m: "if is_right T then marked T N ms ht ?ht else ?ht = ht" by (auto simp: marked_def)
  show ?thesis
  proof (cases "N = 0")
    case False
    have "probeHashTable T cm keys N ht (write_each ?wl (replicate ?n 0), write_each ?wr (replicate ?n 0),
        final_count (row_counts N ms) ?order, ?ht)"
      unfolding probeHashTable_def probe_multikey_def case_prod_conv if_not_P [OF no [OF False]]
      by (rule exI [of _ ms], rule exI [of _ ?order], rule exI [of _ ?wl], rule exI [of _ ?wr],
          rule exI [of _ "replicate ?n 0"], rule exI [of _ "replicate ?n 0"])
        (use ms m in \<open>simp only: length_replicate simp_thms\<close>)
    then show ?thesis by blast
  qed (auto simp: probeHashTable_def)
qed

text \<open>C21: the hash join is the join by two nested loops.  Let the build side be one the table can hold: one or
  two equality keys, no build row whose first key is the all-ones word, more slots than rows and a number of
  slots that shares no factor with the step 100007 (with a common factor a build may never end); and let the
  two sides have fewer than 2^31 pairs of rows.  Then a build can finish, from any table memory; the probe of
  any finished build ends; and any result of the probe is exactly the pairs of rows that satisfy the join
  conditions, each once, as two nested loops over the rows would give, whatever the interleaving of the
  build threads, the order in which the probe blocks arrive and the order of their writes; both row-id
  arrays have the length of the count.  (That no run of the build goes on for ever under these hypotheses is
  the property of \<open>build_kernel_ends\<close>.)\<close>

theorem hash_join_is_nested_loop_join:
  assumes "buildable T M" and "0 < M" and "M < ht_len T" and "coprime (ht_len T) 100007"
    and "conditions_fit T condition_mode" and "N * M < 2 ^ 31"
  shows "(\<exists>ht. buildHashTable T M ht0 ht) \<and>
    (\<forall>ht. buildHashTable T M ht0 ht \<longrightarrow>
      (\<exists>res. probeHashTable T condition_mode keys N ht res) \<and>
      (\<forall>row_ids_left row_ids_right h_count ht'.
         probeHashTable T condition_mode keys N ht (row_ids_left, row_ids_right, h_count, ht') \<longrightarrow>
         mset (zip row_ids_left row_ids_right) =
           mset (concat (map (\<lambda>r. map (\<lambda>b. (of_nat r, of_nat b)) (filter (joins T condition_mode keys r) [0..<M])) [0..<N])) \<and>
         length row_ids_left = length row_ids_right \<and> unat h_count = length row_ids_left))"
proof (intro conjI allI impI)
  show "\<exists>ht. buildHashTable T M ht0 ht" by (rule build_exists [OF assms(1,4,3)])
next
  fix ht assume build: "buildHashTable T M ht0 ht"
  have p: "probeable T M ht"
    by (rule table_holds_probeable [OF table_held [OF assms(1,2) build] assms(1,3,4)])
  show "\<exists>res. probeHashTable T condition_mode keys N ht res" using probeHashTable_ends [OF p assms(5)] by blast
  fix row_ids_left row_ids_right h_count ht'
  assume "probeHashTable T condition_mode keys N ht (row_ids_left, row_ids_right, h_count, ht')"
  note pairs = probeHashTable_pairs [OF p assms(5) join_fits_small [OF assms(6)] this]
  show "mset (zip row_ids_left row_ids_right) =
      mset (concat (map (\<lambda>r. map (\<lambda>b. (of_nat r, of_nat b)) (filter (joins T condition_mode keys r) [0..<M])) [0..<N]))"
    "length row_ids_left = length row_ids_right" "unat h_count = length row_ids_left"
    using pairs by blast+
qed

text \<open>Probing the two rows with key 5 with a row of key 6 and one of key 5.\<close>

theorem hash_join_is_nested_loop_join_witness:
  "\<exists>ht row_ids_left row_ids_right h_count ht'.
     probeHashTable (one_key_table [5, 5] 4) [0] [[6, 5]] 2 ht (row_ids_left, row_ids_right, h_count, ht') \<and>
     mset (zip row_ids_left row_ids_right) = {#(1, 0), (1, 1)#}"
proof -
  let ?T = "one_key_table [5, 5] 4"
  obtain ht where ht: "buildHashTable ?T 2 [] ht" using two_rows_build by blast
  have fit: "conditions_fit ?T [0]" "2 < ht_len ?T" by (simp_all add: conditions_fit_def count_equal_keys_def one_key_table_def)
  have "2 * 2 < (2 ^ 31 :: nat)" "0 < (2 :: nat)" by simp_all
  note j = hash_join_is_nested_loop_join [OF two_rows_buildable this(2) fit(2) two_rows_coprime fit(1) this(1), of "[]" "[[6, 5]]",
      THEN conjunct2, rule_format, OF ht]
  from j obtain a b c d where res: "probeHashTable ?T [0] [[6, 5]] 2 ht (a, b, c, d)" by auto
  have ref: "concat (map (\<lambda>r. map (\<lambda>b. (of_nat r, of_nat b)) (filter (joins ?T [0] [[6, 5]] r) [0..<2])) [0..<2]) =
      [(1 :: u64, 0 :: u64), (1, 1)]"
    by (simp add: upt_conv_Cons numeral_2_eq_2 joins_def one_key_table_def key_item_def)
  from j res have "mset (zip a b) = mset [(1, 0), (1, 1)]" unfolding ref by blast
  then have "mset (zip a b) = {#(1, 0), (1, 1)#}" by simp
  with res show ?thesis by blast
qed

section \<open>Right semi and anti joins\<close>

text \<open>These kernels are written for \<open>num_keys + 2\<close> words per slot.\<close>

definition right_table :: "table \<Rightarrow> table" where "right_table T = T\<lparr>is_right := True\<rparr>"

lemma right_table_same: "is_right T \<Longrightarrow> right_table T = T"
  by (simp add: right_table_def)

definition probeHashTableRightSemiAnti :: "table \<Rightarrow> nat list \<Rightarrow> int list list \<Rightarrow> nat \<Rightarrow> u64 list \<Rightarrow> u64 list \<Rightarrow> bool" where
  "probeHashTableRightSemiAnti T condition_mode keys N ht ht' \<longleftrightarrow>
     (if N = 0 \<or> ht_len T = 0 then ht' = ht
      else \<exists>ms. (\<forall>r < N. row_matches (right_table T) condition_mode keys ht r = Some (ms r)) \<and>
        marked (right_table T) N ms ht ht')"

text \<open>With unique build keys the search stops at the first match.\<close>

definition probeHashTableRightSemiAntiSingleMatch ::
  "table \<Rightarrow> nat list \<Rightarrow> int list list \<Rightarrow> nat \<Rightarrow> u64 list \<Rightarrow> u64 list \<Rightarrow> bool" where
  "probeHashTableRightSemiAntiSingleMatch T condition_mode keys N ht ht' \<longleftrightarrow>
     (if N = 0 \<or> ht_len T = 0 then ht' = ht
      else \<exists>found. (\<forall>r < N. row_first_match (right_table T) condition_mode keys ht r = Some (found r)) \<and>
        marked (right_table T) N (\<lambda>r. case found r of None \<Rightarrow> [] | Some s \<Rightarrow> [s]) ht ht')"

text \<open>The scan of the slots: join mode 0 selects the marked rows, mode 1 the others.\<close>

definition scan_right :: "table \<Rightarrow> nat \<Rightarrow> u64 list \<Rightarrow> nat \<Rightarrow> u64 list" where
  "scan_right T join_mode ht slot =
     (if join_mode = 0 then
        (if ht_at (right_table T) ht slot (num_keys T + 1) \<noteq> EMPTY then [ht_at (right_table T) ht slot (num_keys T)] else [])
      else if join_mode = 1 then
        (if ht_at (right_table T) ht slot (num_keys T + 1) = EMPTY \<and> ht_at (right_table T) ht slot (num_keys T) \<noteq> EMPTY
         then [ht_at (right_table T) ht slot (num_keys T)] else [])
      else [])"

definition scanHashTableRight :: "table \<Rightarrow> nat \<Rightarrow> u64 list \<Rightarrow> u64 list \<Rightarrow> u64 \<Rightarrow> bool" where
  "scanHashTableRight T join_mode ht row_ids h_count \<longleftrightarrow>
     (if ht_len T = 0 then row_ids = [] \<and> h_count = 0
      else selection_result (ht_len T) (scan_right T join_mode ht) row_ids h_count)"

lemma write_each_mem:
  "i < length arr \<Longrightarrow> i \<in> fst ` set ws \<Longrightarrow> \<exists>v. (i, v) \<in> set ws \<and> write_each ws arr ! i = v"
proof (induction ws arbitrary: arr)
  case (Cons w ws)
  obtain j v where w: "w = (j, v)" by (cases w)
  have step: "write_each (w # ws) arr = write_each ws (arr[j := v])" by (simp add: write_each_def w)
  show ?case
  proof (cases "i \<in> fst ` set ws")
    case True
    then show ?thesis using Cons.IH [of "arr[j := v]"] Cons.prems(1) step by auto
  next
    case False
    then show ?thesis using Cons.prems write_each_other [OF False, of "arr[j := v]"] step w by auto
  qed
qed simp

lemma marked_cells:
  assumes m: "marked T N f ht ht'" and right: "is_right T" and len: "length ht = ht_len T * n_ht_column T"
    and s: "s < ht_len T" and N: "N < 2 ^ 64 - 1"
  shows "n \<le> num_keys T \<Longrightarrow> ht_at T ht' s n = ht_at T ht s n"
    and "ht_at T ht s (num_keys T + 1) = EMPTY \<Longrightarrow>
      ht_at T ht' s (num_keys T + 1) = EMPTY \<longleftrightarrow> \<not> (\<exists>r < N. s \<in> set (f r))"
proof -
  obtain ws where ws: "mset ws = mset (mark_writes T N f)" "ht' = write_each ws ht" using m by (auto simp: marked_def)
  have cols: "num_keys T + 1 < n_ht_column T" using right by (simp add: n_ht_column_def)
  have set: "set ws = {(x * n_ht_column T + num_keys T + 1, of_nat r) | x r. r < N \<and> x \<in> set (f r)}"
    unfolding mset_eq_setD [OF ws(1)] by (fastforce simp: mark_writes_def)
  have idx: "x * n_ht_column T + num_keys T + 1 = s * n_ht_column T + n \<longleftrightarrow> x = s \<and> num_keys T + 1 = n"
    if "n < n_ht_column T" for x n
    using slot_index_eq [OF cols that, of x s] by (simp add: add.assoc)
  show "ht_at T ht' s n = ht_at T ht s n" if "n \<le> num_keys T"
  proof -
    have "s * n_ht_column T + n \<notin> fst ` set ws"
    proof
      assume "s * n_ht_column T + n \<in> fst ` set ws"
      then obtain w where "w \<in> set ws" "fst w = s * n_ht_column T + n" by auto
      then obtain x where "x * n_ht_column T + num_keys T + 1 = s * n_ht_column T + n" unfolding set by fastforce
      then show False using idx [of n x] that cols by simp
    qed
    then show ?thesis by (simp add: ht_at_def ws(2) write_each_other)
  qed
  let ?i = "s * n_ht_column T + (num_keys T + 1)"
  show "ht_at T ht' s (num_keys T + 1) = EMPTY \<longleftrightarrow> \<not> (\<exists>r < N. s \<in> set (f r))"
    if "ht_at T ht s (num_keys T + 1) = EMPTY"
  proof (cases "\<exists>r < N. s \<in> set (f r)")
    case True
    then obtain r where "r < N" "s \<in> set (f r)" by blast
    then have "(?i, of_nat r) \<in> set ws" unfolding set
      by (intro CollectI exI [of _ s] exI [of _ r]) (simp add: add.assoc)
    then have "?i \<in> fst ` set ws" by (rule image_eqI [rotated]) simp
    then obtain v where v: "(?i, v) \<in> set ws" "write_each ws ht ! ?i = v"
      using write_each_mem [of ?i ht ws] slot_index_less [OF s cols] len by auto
    then obtain r where "r < N" "v = of_nat r" unfolding set by auto
    then have "unat v < 2 ^ 64 - 1" using N by (simp add: unat_of_nat take_bit_nat_eq_self)
    then have "v \<noteq> EMPTY" by (auto simp: EMPTY_def)
    then show ?thesis using True v(2) by (simp add: ht_at_def ws(2))
  next
    case False
    then have "?i \<notin> fst ` set ws" unfolding set using idx [OF cols] cols by (auto simp: image_iff add.assoc)
    then show ?thesis using False that by (simp add: ht_at_def ws(2) write_each_other)
  qed
qed

lemma scan_right_single: "length (scan_right T jm ht s) \<le> 1"
  by (simp add: scan_right_def)

lemma scan_rows:
  assumes inj: "inj_on slot {..<M}" and sl: "\<forall>b < M. slot b < H"
    and sel: "\<forall>s < H. out s = (if P s then [g s] else [])" and P: "\<forall>s < H. P s \<longleftrightarrow> s \<in> slot ` {b. b < M \<and> Q b}"
    and g: "\<forall>b < M. g (slot b) = h b"
  shows "mset (concat (map out [0..<H])) = mset (map h (filter Q [0..<M]))"
proof -
  have "concat (map out [0..<H]) = concat (map (\<lambda>s. if P s then [g s] else []) [0..<H])"
    using sel by (intro arg_cong [of _ _ concat] map_cong) simp_all
  also have "\<dots> = map g (filter P [0..<H])" by (rule concat_map_if)
  finally have "mset (concat (map out [0..<H])) = image_mset g (mset (filter P [0..<H]))" by simp
  also have "mset (filter P [0..<H]) = mset (map slot (filter Q [0..<M]))"
  proof -
    have "distinct (map slot (filter Q [0..<M]))" using inj by (auto simp: distinct_map inj_on_def)
    moreover have "set (map slot (filter Q [0..<M])) = set (filter P [0..<H])" using P sl by auto
    moreover have "distinct (filter P [0..<H])" by simp
    ultimately show ?thesis by (metis set_eq_iff_mset_eq_distinct)
  qed
  also have "image_mset g (mset (map slot (filter Q [0..<M]))) = mset (map (\<lambda>b. g (slot b)) (filter Q [0..<M]))"
    by (simp add: image_mset.compositionality comp_def)
  also have "map (\<lambda>b. g (slot b)) (filter Q [0..<M]) = map h (filter Q [0..<M])" using g by (intro map_cong) simp_all
  finally show ?thesis .
qed

lemma right_probe_cells:
  assumes "buildable T M" and "0 < M" and "M < ht_len T" and "coprime (ht_len T) 100007" and "is_right T"
    and "buildHashTable T M ht0 ht" and "conditions_fit T condition_mode" and "N < 2 ^ 64 - 1" and "ht_len T < 2 ^ 64"
    and "probeHashTableRightSemiAnti T condition_mode keys N ht ht'"
  obtains slot where "inj_on slot {..<M}" and "\<forall>b < M. slot b < ht_len T"
    and "\<forall>b < M. ht_at T ht' (slot b) (num_keys T) = of_nat b"
    and "\<forall>s < ht_len T. ht_at T ht' s (num_keys T) \<noteq> EMPTY \<longleftrightarrow> s \<in> slot ` {..<M}"
    and "\<forall>s < ht_len T. ht_at T ht' s (num_keys T + 1) \<noteq> EMPTY \<longleftrightarrow>
      s \<in> slot ` {b. b < M \<and> (\<exists>r < N. joins T condition_mode keys r b)}"
proof -
  let ?nk = "num_keys T"
  have held: "table_holds T {..<M} ht" by (rule table_held [OF assms(1,2,6)])
  have p: "probeable T M ht" by (rule table_holds_probeable [OF held assms(1,3,4)])
  have cols: "?nk + 1 < n_ht_column T" using assms(5) by (simp add: n_ht_column_def)
  obtain slot where len: "length ht = ht_len T * n_ht_column T" and inj: "inj_on slot {..<M}"
    and sl: "\<forall>b \<in> {..<M}. slot b < ht_len T \<and> gets_to T ht b (slot b) \<and> (\<forall>n < n_ht_column T. ht_at T ht (slot b) n = cell T b n)"
    and em: "\<forall>s < ht_len T. s \<notin> slot ` {..<M} \<longrightarrow> (\<forall>n < n_ht_column T. ht_at T ht s n = EMPTY)"
    using held unfolding table_holds_def by blast
  have slot: "row_slots T M ht slot"
    unfolding row_slots_def using inj sl em cols by (intro conjI) simp_all
  have mark0: "ht_at T ht s (?nk + 1) = EMPTY" if "s < ht_len T" for s
    using that sl em cols by (cases "s \<in> slot ` {..<M}") (auto simp: cell_def)
  have M64: "M < 2 ^ 64 - 1" using assms(3,9) by simp
  have rowid: "ht_at T ht s ?nk \<noteq> EMPTY \<longleftrightarrow> s \<in> slot ` {..<M}" if "s < ht_len T" for s
  proof (cases "s \<in> slot ` {..<M}")
    case True
    then obtain b where b: "b < M" "s = slot b" by auto
    then have "ht_at T ht s ?nk = of_nat b" using sl cols by (simp add: cell_def)
    moreover have "unat (of_nat b :: u64) < 2 ^ 64 - 1" using b(1) M64 by (simp add: unat_of_nat take_bit_nat_eq_self)
    then have "(of_nat b :: u64) \<noteq> EMPTY" by (auto simp: EMPTY_def)
    ultimately show ?thesis using True by simp
  next
    case False
    then show ?thesis using em that cols by simp
  qed
  have cells: "ht_at T ht' s ?nk = ht_at T ht s ?nk \<and>
      (ht_at T ht' s (?nk + 1) = EMPTY \<longleftrightarrow> \<not> s \<in> slot ` {b. b < M \<and> (\<exists>r < N. joins T condition_mode keys r b)})"
    if s: "s < ht_len T" for s
  proof (cases "N = 0")
    case True
    then show ?thesis using assms(10) mark0 [OF s] by (simp add: probeHashTableRightSemiAnti_def)
  next
    case False
    then have no: "\<not> (N = 0 \<or> ht_len T = 0)" using assms(3) by simp
    obtain ms where ms: "\<forall>r < N. row_matches T condition_mode keys ht r = Some (ms r)" and m: "marked T N ms ht ht'"
      using assms(10) [unfolded probeHashTableRightSemiAnti_def if_not_P [OF no] right_table_same [OF assms(5)]] by blast
    have "set (ms r) = slot ` {b. b < M \<and> joins T condition_mode keys r b}" if "r < N" for r
      using row_matches_rows [OF p slot assms(7), of keys r] ms that by auto
    then have "(\<exists>r < N. s \<in> set (ms r)) \<longleftrightarrow> s \<in> slot ` {b. b < M \<and> (\<exists>r < N. joins T condition_mode keys r b)}" by blast
    then show ?thesis
      using marked_cells [OF m assms(5) len s assms(8)] mark0 [OF s] by simp
  qed
  show ?thesis
  proof (rule that [OF inj])
    show "\<forall>b < M. slot b < ht_len T" using sl by simp
    show "\<forall>b < M. ht_at T ht' (slot b) ?nk = of_nat b" using cells sl cols by (simp add: cell_def)
  qed (use cells rowid in simp_all)
qed

text \<open>C37: building with a right join's table, marking the matches of the probe side and scanning the
  slots selects the build rows with a match in mode 0 and the build rows without one in mode 1, each
  exactly once.\<close>

theorem right_semi_and_anti_join:
  assumes "buildable T M" and "0 < M" and "M < ht_len T" and "coprime (ht_len T) 100007" and "is_right T"
    and "buildHashTable T M ht0 ht" and "conditions_fit T condition_mode" and "N < 2 ^ 64 - 1" and "ht_len T < 2 ^ 64"
    and "probeHashTableRightSemiAnti T condition_mode keys N ht ht'"
    and "scanHashTableRight T join_mode ht' row_ids h_count" and "join_mode = 0 \<or> join_mode = 1"
  shows "mset row_ids = mset (map of_nat (filter (\<lambda>b. (\<exists>r < N. joins T condition_mode keys r b) \<longleftrightarrow> join_mode = 0) [0..<M])) \<and>
    unat h_count = length row_ids"
proof -
  let ?nk = "num_keys T"
  obtain slot where inj: "inj_on slot {..<M}" and sl: "\<forall>b < M. slot b < ht_len T"
    and ids: "\<forall>b < M. ht_at T ht' (slot b) ?nk = of_nat b"
    and used: "\<forall>s < ht_len T. ht_at T ht' s ?nk \<noteq> EMPTY \<longleftrightarrow> s \<in> slot ` {..<M}"
    and marks: "\<forall>s < ht_len T. ht_at T ht' s (?nk + 1) \<noteq> EMPTY \<longleftrightarrow>
      s \<in> slot ` {b. b < M \<and> (\<exists>r < N. joins T condition_mode keys r b)}"
    by (rule right_probe_cells [OF assms(1-10)])
  have no: "ht_len T \<noteq> 0" using assms(3) by simp
  have sel: "selection_result (ht_len T) (scan_right T join_mode ht') row_ids h_count"
    using assms(11) [unfolded scanHashTableRight_def if_not_P [OF no]] .
  note sr = selection_result_mset [OF sel scan_right_single assms(9)]
  let ?Q = "\<lambda>b. (\<exists>r < N. joins T condition_mode keys r b) \<longleftrightarrow> join_mode = 0"
  let ?P = "\<lambda>s. if join_mode = 0 then ht_at T ht' s (?nk + 1) \<noteq> EMPTY
    else ht_at T ht' s (?nk + 1) = EMPTY \<and> ht_at T ht' s ?nk \<noteq> EMPTY"
  have "mset (concat (map (scan_right T join_mode ht') [0..<ht_len T])) = mset (map of_nat (filter ?Q [0..<M]))"
  proof (rule scan_rows [OF inj, where P = ?P and g = "\<lambda>s. ht_at T ht' s ?nk"])
    show "\<forall>s < ht_len T. scan_right T join_mode ht' s = (if ?P s then [ht_at T ht' s ?nk] else [])"
      using assms(12) by (auto simp: scan_right_def right_table_same [OF assms(5)])
    show "\<forall>s < ht_len T. ?P s \<longleftrightarrow> s \<in> slot ` {b. b < M \<and> ?Q b}"
    proof (intro allI impI)
      fix s assume s: "s < ht_len T"
      show "?P s \<longleftrightarrow> s \<in> slot ` {b. b < M \<and> ?Q b}"
      proof (cases "s \<in> slot ` {..<M}")
        case True
        then obtain b where b: "b < M" "s = slot b" by blast
        have im: "slot b \<in> slot ` {b'. b' < M \<and> R b'} \<longleftrightarrow> R b" for R
          using inj b(1) by (auto simp: inj_on_def)
        show ?thesis using used [rule_format, OF s] marks [rule_format, OF s] assms(12) True unfolding b(2) im by auto
      next
        case False
        then have "s \<notin> slot ` {b. b < M \<and> R b}" for R by blast
        then show ?thesis using used [rule_format, OF s] marks [rule_format, OF s] assms(12) False by auto
      qed
    qed
    show "\<forall>b < M. ht_at T ht' (slot b) ?nk = of_nat b" by (rule ids)
  qed (rule sl)
  with sr show ?thesis by simp
qed

lemma probeHashTableRightSemiAnti_ends:
  assumes "probeable T M ht" and "is_right T" and "conditions_fit T condition_mode"
  shows "\<exists>ht'. probeHashTableRightSemiAnti T condition_mode keys N ht ht'"
proof -
  obtain slot where slot: "row_slots T M ht slot" using assms(1) by (auto simp: probeable_def)
  have no: "ht_len T \<noteq> 0" using assms(1) by (auto simp: probeable_def)
  define ms where "ms = (\<lambda>r. the (row_matches T condition_mode keys ht r))"
  have "row_matches T condition_mode keys ht r = Some (ms r)" for r
    using row_matches_rows [OF assms(1) slot assms(3), of keys r] by (auto simp: ms_def)
  moreover have "marked T N ms ht (write_each (mark_writes T N ms) ht)" by (auto simp: marked_def)
  ultimately show ?thesis
    using no by (auto simp: probeHashTableRightSemiAnti_def right_table_same [OF assms(2)])
qed

text \<open>Build rows with keys 5 and 7 and two probe rows with key 7: the anti join keeps build row 0.\<close>

theorem right_semi_and_anti_join_witness:
  "\<exists>ht ht' row_ids h_count. probeHashTableRightSemiAnti ((one_key_table [5, 7] 4)\<lparr>is_right := True\<rparr>) [0] [[7, 7]] 2 ht ht' \<and>
     scanHashTableRight ((one_key_table [5, 7] 4)\<lparr>is_right := True\<rparr>) 1 ht' row_ids h_count \<and> mset row_ids = {#0#}"
proof -
  let ?T = "(one_key_table [5, 7] 4)\<lparr>is_right := True\<rparr>"
  have ok: "buildable ?T 2" by (auto simp: buildable_def one_key_table_def key_item_def EMPTY_def less_2_cases_iff)
  have "ht_len ?T = ht_len (one_key_table [5, 5] 4)" by (simp add: one_key_table_def)
  then have cop: "coprime (ht_len ?T) 100007" using two_rows_coprime by simp
  have less: "2 < ht_len ?T" "0 < (2::nat)" "(2::nat) < 2 ^ 64 - 1" "ht_len ?T < 2 ^ 64" and r: "is_right ?T"
    by (simp_all add: one_key_table_def)
  have fit: "conditions_fit ?T [0]" by (simp add: conditions_fit_def count_equal_keys_def one_key_table_def)
  obtain ht where ht: "buildHashTable ?T 2 [] ht" using build_exists [OF ok cop less(1)] by blast
  have p: "probeable ?T 2 ht" by (rule table_holds_probeable [OF table_held [OF ok less(2) ht] ok less(1) cop])
  obtain ht' where ht': "probeHashTableRightSemiAnti ?T [0] [[7, 7]] 2 ht ht'"
    using probeHashTableRightSemiAnti_ends [OF p r fit] by blast
  obtain row_ids h_count where scan: "scanHashTableRight ?T 1 ht' row_ids h_count"
    using selection_result_exists [of "ht_len ?T" "scan_right ?T 1 ht'"] less(1)
    unfolding scanHashTableRight_def by (cases "ht_len ?T = 0") auto
  have "filter (\<lambda>b. (\<exists>r < 2. joins ?T [0] [[7, 7]] r b) \<longleftrightarrow> (1::nat) = 0) [0..<2] = [0]"
    by (auto simp: upt_conv_Cons numeral_2_eq_2 joins_def one_key_table_def key_item_def Ex_less_Suc)
  then have "mset row_ids = {#0#}"
    using right_semi_and_anti_join [OF ok less(2) less(1) cop r ht fit less(3,4) ht' scan] by simp
  with ht' scan show ?thesis by blast
qed

end
