(* ===== verification/Hash_Single.thy ===== *)
theory Hash_Single
  imports Hash_Probe
begin

text \<open>
  The join kernels that stop at the first match of a probe row, used when the build keys are unique or
  when only the existence of a match counts (\<open>src/src/cuda/operator/hash_join_single.cu\<close>): inner and
  right joins on unique keys, semi joins, anti joins and mark joins.  They run in one pass over output
  arrays as long as the probe side.
\<close>

section \<open>The kernels and their host functions\<close>

text \<open>The row id goes through an array of \<open>int\<close>.\<close>

definition items_off :: "u64 \<Rightarrow> u64" where
  "items_off v = scast (ucast v :: 32 word)"

definition single_table :: "table \<Rightarrow> nat \<Rightarrow> table" where
  "single_table T join_mode = T\<lparr>is_right := (join_mode = 3)\<rparr>"

text \<open>The rows a thread flags: in join mode 2 those without a match, else those with one.\<close>

definition selection_flag :: "table \<Rightarrow> nat list \<Rightarrow> nat \<Rightarrow> int list list \<Rightarrow> (nat \<Rightarrow> nat option) \<Rightarrow> nat \<Rightarrow> bool" where
  "selection_flag T condition_mode join_mode keys found r =
     (if first_slot keys (count_equal_keys condition_mode) (ht_len T) r = None then False
      else if join_mode = 2 then found r = None else found r \<noteq> None)"

definition single_left :: "nat \<Rightarrow> bool \<Rightarrow> nat \<Rightarrow> u64 list" where
  "single_left join_mode flag r = (if flag \<and> join_mode \<le> 3 then [of_nat r] else [])"

definition single_right :: "table \<Rightarrow> nat \<Rightarrow> u64 list \<Rightarrow> bool \<Rightarrow> nat option \<Rightarrow> u64 list" where
  "single_right T join_mode ht flag m =
     (if flag \<and> (join_mode = 0 \<or> join_mode = 3)
      then (case m of Some s \<Rightarrow> [items_off (ht_at T ht s (num_keys T))] | None \<Rightarrow> []) else [])"

definition probe_single_match ::
  "table \<Rightarrow> nat \<Rightarrow> nat \<Rightarrow> u64 list \<Rightarrow> (nat \<Rightarrow> bool) \<Rightarrow> (nat \<Rightarrow> nat option) \<Rightarrow> nat list \<Rightarrow> u64 \<Rightarrow>
    (nat \<times> u64) list \<Rightarrow> (nat \<times> u64) list \<Rightarrow> bool" where
  "probe_single_match T join_mode N ht flag found order h_count wsl wsr \<longleftrightarrow>
     (let counts = row_counts N (\<lambda>r. if flag r then [()] else []) in
      h_count = final_count counts order \<and>
      mset wsl = mset (kernel_writes counts (row_outs N (\<lambda>r. single_left join_mode (flag r) r)) order) \<and>
      mset wsr = mset (kernel_writes counts (row_outs N (\<lambda>r. single_right T join_mode ht (flag r) (found r))) order))"

definition probeHashTableSingleMatch ::
  "table \<Rightarrow> nat list \<Rightarrow> nat \<Rightarrow> int list list \<Rightarrow> nat \<Rightarrow> u64 list \<Rightarrow> u64 list \<times> u64 list \<times> u64 \<times> u64 list \<Rightarrow> bool" where
  "probeHashTableSingleMatch T0 condition_mode join_mode keys N ht = (\<lambda>(row_ids_left, row_ids_right, h_count, ht').
     if N = 0 \<or> ht_len T0 = 0 then row_ids_left = [] \<and> row_ids_right = [] \<and> h_count = 0 \<and> ht' = ht
     else let T = single_table T0 join_mode in \<exists>found order wsl wsr arrl arrr.
       (\<forall>r < N. row_first_match T condition_mode keys ht r = Some (found r)) \<and>
       mset order = mset [0..<num_tiles N] \<and>
       length arrl = N \<and> length arrr = (if join_mode = 0 \<or> join_mode = 3 then N else 0) \<and>
       probe_single_match T join_mode N ht (selection_flag T condition_mode join_mode keys found) found order h_count wsl wsr \<and>
       row_ids_left = write_each wsl arrl \<and> row_ids_right = write_each wsr arrr \<and>
       (if join_mode = 3 then marked T N (\<lambda>r. case found r of None \<Rightarrow> [] | Some s \<Rightarrow> [s]) ht ht' else ht' = ht))"

text \<open>\<open>probe_mark\<close>: every thread writes the outcome of its rows to the rows' own bytes.\<close>

definition probe_mark :: "table \<Rightarrow> nat list \<Rightarrow> int list list \<Rightarrow> nat \<Rightarrow> (nat \<Rightarrow> nat option) \<Rightarrow> (nat \<times> 8 word) list" where
  "probe_mark T condition_mode keys N found = concat (map (\<lambda>b. concat (map (\<lambda>t. concat (map (\<lambda>r.
     if first_slot keys (count_equal_keys condition_mode) (ht_len T) r = None then []
     else [(r, of_bool (found r \<noteq> None))]) (thread_items N b t))) [0..<BLOCK_THREADS])) [0..<num_tiles N])"

definition probeHashTableMark :: "table \<Rightarrow> nat list \<Rightarrow> int list list \<Rightarrow> nat \<Rightarrow> u64 list \<Rightarrow> 8 word list \<Rightarrow> bool" where
  "probeHashTableMark T0 condition_mode keys N ht output =
     (if N = 0 \<or> ht_len T0 = 0 then output = replicate N 0
      else let T = single_table T0 0 in \<exists>found ws arr.
       (\<forall>r < N. row_first_match T condition_mode keys ht r = Some (found r)) \<and> length arr = N \<and>
       mset ws = mset (probe_mark T condition_mode keys N found) \<and>
       output = write_each ws arr)"

section \<open>What they return\<close>

lemma single_table_same: "is_right T \<longleftrightarrow> join_mode = 3 \<Longrightarrow> single_table T join_mode = T"
  by (cases "is_right T") (simp_all add: single_table_def)

lemma found_rows:
  assumes p: "probeable T M ht" and slot: "row_slots T M ht slot" and fit: "conditions_fit T cm"
    and found: "row_first_match T cm keys ht r = Some (found r)"
  shows "found r = None \<longleftrightarrow> \<not> (\<exists>b < M. joins T cm keys r b)"
    and "found r = Some s \<Longrightarrow> \<exists>b < M. s = slot b \<and> joins T cm keys r b"
    and "selection_flag T cm jm keys found r \<longleftrightarrow> ((\<exists>b < M. joins T cm keys r b) \<longleftrightarrow> jm \<noteq> 2)"
proof -
  have hash: "first_slot keys (count_equal_keys cm) (ht_len T) r \<noteq> None"
    using p fit by (auto simp: probeable_def buildable_def conditions_fit_def first_slot_def)
  obtain m where m: "row_first_match T cm keys ht r = Some m" "m = None \<longleftrightarrow> \<not> (\<exists>b < M. joins T cm keys r b)"
    "\<forall>s. m = Some s \<longrightarrow> s \<in> slot ` {b. b < M \<and> joins T cm keys r b}"
    using row_first_match_rows [OF p slot fit, of keys r] by blast
  have eq: "found r = m" using m(1) found by simp
  show *: "found r = None \<longleftrightarrow> \<not> (\<exists>b < M. joins T cm keys r b)" using m(2) eq by simp
  show "found r = Some s \<Longrightarrow> \<exists>b < M. s = slot b \<and> joins T cm keys r b" using m(3) eq by blast
  show "selection_flag T cm jm keys found r \<longleftrightarrow> ((\<exists>b < M. joins T cm keys r b) \<longleftrightarrow> jm \<noteq> 2)"
    unfolding selection_flag_def if_not_P [OF hash] * by auto
qed

lemma probeHashTableSingleMatch_ends:
  assumes p: "probeable T M ht" and fit: "conditions_fit T cm" and right: "is_right T \<longleftrightarrow> jm = 3"
  shows "\<exists>res. probeHashTableSingleMatch T cm jm keys N ht res"
proof -
  obtain slot where slot: "row_slots T M ht slot" using p by (auto simp: probeable_def)
  define found where "found = (\<lambda>r. the (row_first_match T cm keys ht r))"
  have found: "row_first_match T cm keys ht r = Some (found r)" for r
    using row_first_match_rows [OF p slot fit, of keys r] by (auto simp: found_def)
  let ?flag = "selection_flag T cm jm keys found" and ?order = "[0..<num_tiles N]"
  let ?counts = "row_counts N (\<lambda>r. if ?flag r then [()] else [])"
  let ?wl = "kernel_writes ?counts (row_outs N (\<lambda>r. single_left jm (?flag r) r)) ?order"
  let ?wr = "kernel_writes ?counts (row_outs N (\<lambda>r. single_right T jm ht (?flag r) (found r))) ?order"
  let ?f = "\<lambda>r. case found r of None \<Rightarrow> [] | Some s \<Rightarrow> [s]"
  let ?ht = "if jm = 3 then write_each (mark_writes T N ?f) ht else ht"
  let ?n = "if jm = 0 \<or> jm = 3 then N else 0"
  have m: "if jm = 3 then marked T N ?f ht ?ht else ?ht = ht" by (auto simp: marked_def)
  show ?thesis
  proof (cases "N = 0 \<or> ht_len T = 0")
    case False
    have "probeHashTableSingleMatch T cm jm keys N ht (write_each ?wl (replicate N 0), write_each ?wr (replicate ?n 0),
        final_count ?counts ?order, ?ht)"
      unfolding probeHashTableSingleMatch_def probe_single_match_def case_prod_conv if_not_P [OF False] single_table_same [OF right] Let_def
      by (rule exI [of _ found], rule exI [of _ ?order], rule exI [of _ ?wl], rule exI [of _ ?wr],
          rule exI [of _ "replicate N 0"], rule exI [of _ "replicate ?n 0"])
        (use found m in \<open>simp only: length_replicate simp_thms\<close>)
    then show ?thesis by blast
  qed (auto simp: probeHashTableSingleMatch_def)
qed

lemma probeHashTableSingleMatch_rows:
  assumes p: "probeable T M ht" and fit: "conditions_fit T cm" and right: "is_right T \<longleftrightarrow> jm = 3"
    and N: "N < 2 ^ 64" and jm: "jm \<le> 3"
    and res: "probeHashTableSingleMatch T cm jm keys N ht (row_ids_left, row_ids_right, h_count, ht')"
  obtains rs m slot where "mset rs = mset (filter (\<lambda>r. (\<exists>b < M. joins T cm keys r b) \<longleftrightarrow> jm \<noteq> 2) [0..<N])"
    and "row_slots T M ht slot"
    and "unat h_count = length rs" and "take (unat h_count) row_ids_left = map of_nat rs"
    and "jm = 0 \<or> jm = 3 \<Longrightarrow> take (unat h_count) row_ids_right = map (\<lambda>r. items_off (ht_at T ht (slot (m r)) (num_keys T))) rs"
    and "jm \<noteq> 2 \<Longrightarrow> \<forall>r \<in> set rs. m r < M \<and> joins T cm keys r (m r)"
proof -
  obtain slot where slot: "row_slots T M ht slot" using p by (auto simp: probeable_def)
  have H: "ht_len T \<noteq> 0" using p by (auto simp: probeable_def)
  show ?thesis
  proof (cases "N = 0")
    case True
    then show ?thesis using res by (intro that [of "[]" slot]) (simp_all add: probeHashTableSingleMatch_def slot)
  next
    case False
    then have no: "\<not> (N = 0 \<or> ht_len T = 0)" using H by simp
    from res [unfolded probeHashTableSingleMatch_def probe_single_match_def case_prod_conv if_not_P [OF no] single_table_same [OF right] Let_def]
    obtain found order wsl wsr arrl arrr where
      found: "\<forall>r < N. row_first_match T cm keys ht r = Some (found r)" and order: "mset order = mset [0..<num_tiles N]"
      and cnt: "h_count = final_count (row_counts N (\<lambda>r. if selection_flag T cm jm keys found r then [()] else [])) order"
      and arr: "length arrl = N" "length arrr = (if jm = 0 \<or> jm = 3 then N else 0)"
      and wl: "mset wsl = mset (kernel_writes (row_counts N (\<lambda>r. if selection_flag T cm jm keys found r then [()] else []))
        (row_outs N (\<lambda>r. single_left jm (selection_flag T cm jm keys found r) r)) order)"
      and wr: "mset wsr = mset (kernel_writes (row_counts N (\<lambda>r. if selection_flag T cm jm keys found r then [()] else []))
        (row_outs N (\<lambda>r. single_right T jm ht (selection_flag T cm jm keys found r) (found r))) order)"
      and out: "row_ids_left = write_each wsl arrl" "row_ids_right = write_each wsr arrr"
      by (elim exE conjE) (rule that; assumption)
    let ?flag = "selection_flag T cm jm keys found"
    define g where "g = (\<lambda>r. items_off (ht_at T ht (the (found r)) (num_keys T)))"
    define rs where "rs = filter ?flag (arrival_rows N order)"
    define m where "m = (\<lambda>r. SOME b. b < M \<and> the (found r) = slot b \<and> joins T cm keys r b)"
    have left: "single_left jm (?flag r) r = (if ?flag r then [of_nat r] else [])" for r
      using jm by (simp add: single_left_def)
    have right_out: "single_right T jm ht (?flag r) (found r) = (if ?flag r then [g r] else [])" if "jm = 0 \<or> jm = 3" for r
      using that by (auto simp: single_right_def selection_flag_def g_def)
    have mem: "r < N" if "r \<in> set rs" for r
      using that mset_eq_setD [OF arrival_rows_mset [OF order]] by (auto simp: rs_def)
    note fr = found_rows [where found = found, OF p slot fit found [rule_format]]
    have flag: "?flag r \<longleftrightarrow> ((\<exists>b < M. joins T cm keys r b) \<longleftrightarrow> jm \<noteq> 2)" if "r < N" for r by (rule fr(3) [OF that])
    note l = single_pass [OF order N arr(1) refl wl [unfolded left]]
    have choice: "m r < M \<and> the (found r) = slot (m r) \<and> joins T cm keys r (m r)" if r: "r \<in> set rs" and "jm \<noteq> 2" for r
    proof -
      have "\<exists>b < M. joins T cm keys r b" using r that(2) flag [OF mem [OF r]] by (simp add: rs_def)
      then obtain s where "found r = Some s" using fr(1) [OF mem [OF r]] by auto
      then have "\<exists>b. b < M \<and> the (found r) = slot b \<and> joins T cm keys r b" using fr(2) [OF mem [OF r], of s] by auto
      then show ?thesis unfolding m_def by (rule someI_ex)
    qed
    show ?thesis
    proof (rule that [of rs slot m])
      have "mset rs = mset (filter ?flag [0..<N])" unfolding rs_def by (simp add: arrival_rows_mset [OF order])
      also have "filter ?flag [0..<N] = filter (\<lambda>r. (\<exists>b < M. joins T cm keys r b) \<longleftrightarrow> jm \<noteq> 2) [0..<N]"
        using flag by (intro filter_cong) simp_all
      finally show "mset rs = mset (filter (\<lambda>r. (\<exists>b < M. joins T cm keys r b) \<longleftrightarrow> jm \<noteq> 2) [0..<N])" .
      show "row_slots T M ht slot" by (rule slot)
      show "unat h_count = length rs" "take (unat h_count) row_ids_left = map of_nat rs"
        using l unfolding cnt out rs_def by simp_all
      show "take (unat h_count) row_ids_right = map (\<lambda>r. items_off (ht_at T ht (slot (m r)) (num_keys T))) rs" if j: "jm = 0 \<or> jm = 3"
      proof -
        have a: "length arrr = N" using arr(2) j by simp
        have "take (unat h_count) row_ids_right = map g rs"
          using single_pass(2) [OF order N a refl wr [unfolded right_out [OF j]]] unfolding cnt out rs_def by simp
        also have "\<dots> = map (\<lambda>r. items_off (ht_at T ht (slot (m r)) (num_keys T))) rs"
          using choice j by (intro map_cong) (auto simp: g_def)
        finally show ?thesis .
      qed
      show "\<forall>r \<in> set rs. m r < M \<and> joins T cm keys r (m r)" if "jm \<noteq> 2" using choice that by blast
    qed
  qed
qed

lemma items_off_small:
  assumes "b < 2 ^ 31"
  shows "items_off (of_nat b) = of_nat b"
proof -
  have u: "(ucast (of_nat b :: u64) :: 32 word) = of_nat b"
    using assms by (simp add: unsigned_of_nat take_bit_nat_eq_self)
  then show ?thesis
    unfolding items_off_def u word_unat_eq_iff using unat_scast_small [OF assms] assms
    by (simp add: unat_of_nat take_bit_nat_eq_self)
qed

text \<open>C38: semi and anti joins on the probe side: for a build side the table can hold (one or two equality
  keys and no all-ones first key, \<open>buildable\<close>; fewer rows than slots; a number of slots coprime to the
  probing step) and any finished build of it, probing the table once ends and selects, each once, exactly
  the probe rows with a matching build row (join mode 1) or without one (join mode 2), whatever the
  interleaving of the build and the order in which the blocks arrive.\<close>

theorem semi_and_anti_join:
  assumes "buildable T M" and "0 < M" and "M < ht_len T" and "coprime (ht_len T) 100007" and "\<not> is_right T"
    and "buildHashTable T M ht0 ht" and "conditions_fit T condition_mode" and "N < 2 ^ 64"
    and "join_mode = 1 \<or> join_mode = 2"
  shows "(\<exists>res. probeHashTableSingleMatch T condition_mode join_mode keys N ht res) \<and>
    (\<forall>row_ids_left row_ids_right h_count ht'.
       probeHashTableSingleMatch T condition_mode join_mode keys N ht (row_ids_left, row_ids_right, h_count, ht') \<longrightarrow>
       mset (take (unat h_count) row_ids_left) =
         mset (map of_nat (filter (\<lambda>r. (\<exists>b < M. joins T condition_mode keys r b) \<longleftrightarrow> join_mode = 1) [0..<N])))"
proof -
  have p: "probeable T M ht"
    by (rule table_holds_probeable [OF table_held [OF assms(1,2,6)] assms(1,3,4)])
  have jm: "is_right T \<longleftrightarrow> join_mode = 3" "join_mode \<le> 3" and mode: "join_mode \<noteq> 2 \<longleftrightarrow> join_mode = 1" using assms(5,9) by auto
  show ?thesis
  proof (intro conjI allI impI)
    fix l r c ht' assume "probeHashTableSingleMatch T condition_mode join_mode keys N ht (l, r, c, ht')"
    then obtain rs where
      "mset rs = mset (filter (\<lambda>r. (\<exists>b < M. joins T condition_mode keys r b) \<longleftrightarrow> join_mode \<noteq> 2) [0..<N])"
      "take (unat c) l = map of_nat rs"
      by (rule probeHashTableSingleMatch_rows [OF p assms(7) jm(1) assms(8) jm(2)]) (rule that; assumption)
    then show "mset (take (unat c) l) =
        mset (map of_nat (filter (\<lambda>r. (\<exists>b < M. joins T condition_mode keys r b) \<longleftrightarrow> join_mode = 1) [0..<N]))"
      unfolding mode by simp
  qed (rule probeHashTableSingleMatch_ends [OF p assms(7) jm(1)])
qed

text \<open>C39: inner and right joins on unique build keys: when no probe row matches two build rows and the
  build side has at most \<open>2 ^ 31\<close> rows, so that a row id survives the detour through \<open>int\<close>, one pass that
  stops at the first match gives the pairs of the join by nested loops.\<close>

theorem unique_hash_join:
  assumes "buildable T M" and "0 < M" and "M < ht_len T" and "coprime (ht_len T) 100007"
    and "is_right T \<longleftrightarrow> join_mode = 3" and "buildHashTable T M ht0 ht" and "conditions_fit T condition_mode"
    and "N < 2 ^ 64" and "join_mode = 0 \<or> join_mode = 3" and "M \<le> 2 ^ 31"
    and "\<forall>r < N. \<forall>b < M. \<forall>b' < M. joins T condition_mode keys r b \<and> joins T condition_mode keys r b' \<longrightarrow> b = b'"
    and "probeHashTableSingleMatch T condition_mode join_mode keys N ht (row_ids_left, row_ids_right, h_count, ht')"
  shows "mset (zip (take (unat h_count) row_ids_left) (take (unat h_count) row_ids_right)) =
    mset (concat (map (\<lambda>r. map (\<lambda>b. (of_nat r, of_nat b)) (filter (joins T condition_mode keys r) [0..<M])) [0..<N]))"
proof -
  let ?J = "joins T condition_mode keys"
  have p: "probeable T M ht"
    by (rule table_holds_probeable [OF table_held [OF assms(1,2,6)] assms(1,3,4)])
  have jm: "join_mode \<le> 3" "join_mode \<noteq> 2" using assms(9) by auto
  obtain rs m slot where rs: "mset rs = mset (filter (\<lambda>r. (\<exists>b < M. ?J r b) \<longleftrightarrow> join_mode \<noteq> 2) [0..<N])"
    and slot: "row_slots T M ht slot" and l: "take (unat h_count) row_ids_left = map of_nat rs"
    and r: "take (unat h_count) row_ids_right = map (\<lambda>r. items_off (ht_at T ht (slot (m r)) (num_keys T))) rs"
    and m: "\<forall>r \<in> set rs. m r < M \<and> ?J r (m r)"
    by (rule probeHashTableSingleMatch_rows [OF p assms(7,5,8) jm(1) assms(12)]) (use assms(9) jm(2) in blast)
  have mem: "r < N" if "r \<in> set rs" for r using that mset_eq_setD [OF rs] by auto
  have "items_off (ht_at T ht (slot (m r)) (num_keys T)) = of_nat (m r)" if "r \<in> set rs" for r
  proof -
    have b: "m r < M" "m r < 2 ^ 31" using m that assms(10) by (blast, fastforce)
    have "ht_at T ht (slot (m r)) (num_keys T) = of_nat (m r)" using slot b(1) by (simp add: row_slots_def cell_def)
    then show ?thesis using items_off_small [OF b(2)] by simp
  qed
  then have R: "take (unat h_count) row_ids_right = map (\<lambda>r. of_nat (m r)) rs" unfolding r by simp
  have one: "filter (?J r) [0..<M] = (if \<exists>b < M. ?J r b then [THE b. b < M \<and> ?J r b] else [])" if r: "r < N" for r
  proof (cases "\<exists>b < M. ?J r b")
    case True
    then obtain b where b: "b < M" "?J r b" by blast
    have "?J r b' \<longleftrightarrow> b' = b" if "b' < M" for b' using assms(11) r b that by blast
    then have "filter (?J r) [0..<M] = filter (\<lambda>b'. b' = b) [0..<M]" "(THE b'. b' < M \<and> ?J r b') = b"
      using b by (auto intro!: filter_cong)
    moreover have "filter (\<lambda>x. x = b) xs = (if b \<in> set xs then [b] else [])" if "distinct xs" for xs
      using that by (induction xs) auto
    ultimately show ?thesis using b True by simp
  qed simp
  have the: "(THE b. b < M \<and> ?J r b) = m r" if "r \<in> set rs" for r
    using m assms(11) that mem [OF that] by (intro the_equality) blast+
  have "zip (take (unat h_count) row_ids_left) (take (unat h_count) row_ids_right) = map (\<lambda>r. (of_nat r, of_nat (m r))) rs"
    unfolding l R by (simp add: zip_map_map zip_same_conv_map)
  also have "\<dots> = map (\<lambda>r. (of_nat r, of_nat (THE b. b < M \<and> ?J r b))) rs" using the by simp
  finally have "mset (zip (take (unat h_count) row_ids_left) (take (unat h_count) row_ids_right)) =
      image_mset (\<lambda>r. (of_nat r, of_nat (THE b. b < M \<and> ?J r b))) (mset rs)" by simp
  also have "\<dots> = mset (map (\<lambda>r. (of_nat r, of_nat (THE b. b < M \<and> ?J r b))) (filter (\<lambda>r. \<exists>b < M. ?J r b) [0..<N]))"
    unfolding rs using jm(2) by simp
  also have "\<dots> = mset (concat (map (\<lambda>r. if \<exists>b < M. ?J r b then [(of_nat r, of_nat (THE b. b < M \<and> ?J r b))] else []) [0..<N]))"
    by (simp only: concat_map_if)
  also have "concat (map (\<lambda>r. if \<exists>b < M. ?J r b then [(of_nat r, of_nat (THE b. b < M \<and> ?J r b))] else []) [0..<N]) =
      concat (map (\<lambda>r. map (\<lambda>b. (of_nat r, of_nat b)) (filter (?J r) [0..<M])) [0..<N])"
    using one by (intro arg_cong [of _ _ concat] map_cong) auto
  finally show ?thesis .
qed

lemma enumerate_map_upt: "enumerate 0 (map f [0..<N]) = map (\<lambda>r. (r, f r)) [0..<N]"
  by (rule nth_equalityI) (simp_all add: nth_enumerate_eq)

text \<open>A mark join writes one byte per probe row, 1 exactly for the rows with a matching build row.\<close>

theorem mark_join:
  assumes "buildable T M" and "0 < M" and "M < ht_len T" and "coprime (ht_len T) 100007" and "\<not> is_right T"
    and "buildHashTable T M ht0 ht" and "conditions_fit T condition_mode"
    and "probeHashTableMark T condition_mode keys N ht output"
  shows "output = map (\<lambda>r. of_bool (\<exists>b < M. joins T condition_mode keys r b)) [0..<N]"
proof -
  have p: "probeable T M ht"
    by (rule table_holds_probeable [OF table_held [OF assms(1,2,6)] assms(1,3,4)])
  obtain slot where slot: "row_slots T M ht slot" using p by (auto simp: probeable_def)
  have hash: "first_slot keys (count_equal_keys condition_mode) (ht_len T) r \<noteq> None" for r
    using assms(1,7) by (auto simp: buildable_def conditions_fit_def first_slot_def)
  have same: "single_table T 0 = T" by (rule single_table_same) (use assms(5) in simp)
  show ?thesis
  proof (cases "N = 0")
    case True
    then show ?thesis using assms(8) by (simp add: probeHashTableMark_def)
  next
    case False
    then have no: "\<not> (N = 0 \<or> ht_len T = 0)" using assms(3) by simp
    from assms(8) [unfolded probeHashTableMark_def probe_mark_def if_not_P [OF no] same Let_def if_not_P [OF hash]]
    obtain found ws arr where found: "\<forall>r < N. row_first_match T condition_mode keys ht r = Some (found r)"
      and arr: "length arr = N" and out: "output = write_each ws arr"
      and ws: "mset ws = mset (concat (map (\<lambda>b. concat (map (\<lambda>t. concat (map (\<lambda>r. [(r, of_bool (found r \<noteq> None))])
        (thread_items N b t))) [0..<BLOCK_THREADS])) [0..<num_tiles N]))"
      by (elim exE conjE) (rule that; assumption)
    let ?w = "\<lambda>r. (r, of_bool (found r \<noteq> None) :: 8 word)"
    have "concat (map (\<lambda>b. concat (map (\<lambda>t. concat (map (\<lambda>r. [?w r]) (thread_items N b t))) [0..<BLOCK_THREADS])) [0..<num_tiles N])
        = map ?w (arrival_rows N [0..<num_tiles N])"
      by (simp add: arrival_rows_def block_items_def concat_map_nested map_concat comp_def)
    then have "mset ws = image_mset ?w (mset [0..<N])"
      unfolding ws mset_map [symmetric] using arrival_rows_mset [of "[0..<num_tiles N]" N] by (simp only: mset_map)
    then have "mset ws = mset (enumerate 0 (map (\<lambda>r. of_bool (found r \<noteq> None)) [0..<N]))"
      by (simp only: enumerate_map_upt mset_map)
    from write_each_segment [OF this, of arr] arr out
    have "output = map (\<lambda>r. of_bool (found r \<noteq> None)) [0..<N]" by simp
    also have "\<dots> = map (\<lambda>r. of_bool (\<exists>b < M. joins T condition_mode keys r b)) [0..<N]"
      using found_rows(1) [where found = found, OF p slot assms(7) found [rule_format]] by (intro map_cong) auto
    finally show ?thesis .
  qed
qed

lemma probeHashTableMark_ends:
  assumes p: "probeable T M ht" and fit: "conditions_fit T cm" and right: "\<not> is_right T"
  shows "\<exists>output. probeHashTableMark T cm keys N ht output"
proof -
  obtain slot where slot: "row_slots T M ht slot" using p by (auto simp: probeable_def)
  have same: "single_table T 0 = T" by (rule single_table_same) (use right in simp)
  define found where "found = (\<lambda>r. the (row_first_match T cm keys ht r))"
  have found: "row_first_match T cm keys ht r = Some (found r)" for r
    using row_first_match_rows [OF p slot fit, of keys r] by (auto simp: found_def)
  show ?thesis
  proof (cases "N = 0 \<or> ht_len T = 0")
    case False
    show ?thesis
      unfolding probeHashTableMark_def probe_mark_def if_not_P [OF False] same Let_def
      by (intro exI [of _ found] exI) (rule conjI, use found in simp, rule conjI, rule length_replicate, rule conjI, rule refl, rule refl)
  qed (auto simp: probeHashTableMark_def)
qed

section \<open>Concrete runs\<close>

lemma five_seven_table:
  shows "buildable (one_key_table [5, 7] 4) 2" and "coprime (ht_len (one_key_table [5, 7] 4)) 100007"
    and "2 < ht_len (one_key_table [5, 7] 4)" and "\<not> is_right (one_key_table [5, 7] 4)"
    and "conditions_fit (one_key_table [5, 7] 4) [0]" and "\<exists>ht. buildHashTable (one_key_table [5, 7] 4) 2 [] ht"
proof -
  have "ht_len (one_key_table [5, 7] 4) = ht_len (one_key_table [5, 5] 4)" by (simp add: one_key_table_def)
  then show cop: "coprime (ht_len (one_key_table [5, 7] 4)) 100007" using two_rows_coprime by simp
  show ok: "buildable (one_key_table [5, 7] 4) 2"
    by (auto simp: buildable_def one_key_table_def key_item_def EMPTY_def less_2_cases_iff)
  show less: "2 < ht_len (one_key_table [5, 7] 4)" by (simp add: one_key_table_def)
  show "\<not> is_right (one_key_table [5, 7] 4)" "conditions_fit (one_key_table [5, 7] 4) [0]"
    by (simp_all add: conditions_fit_def count_equal_keys_def one_key_table_def)
  show "\<exists>ht. buildHashTable (one_key_table [5, 7] 4) 2 [] ht" by (rule build_exists [OF ok cop less])
qed

lemma five_seven_probeable:
  "buildHashTable (one_key_table [5, 7] 4) 2 [] ht \<Longrightarrow> probeable (one_key_table [5, 7] 4) 2 ht"
  by (rule table_holds_probeable [OF table_held [OF five_seven_table(1)] five_seven_table(1,3,2)]) simp_all

lemma five_seven_joins:
  "joins (one_key_table [5, 7] 4) [0] [[7, 6]] r b \<longleftrightarrow> (word_of_int ([5, 7] ! b) :: u64) = word_of_int ([7, 6] ! r)"
  by (simp add: joins_def one_key_table_def key_item_def)

text \<open>Build keys 5 and 7, probe keys 7 and 6.\<close>

theorem semi_and_anti_join_witness:
  "\<exists>ht l r c ht'. probeHashTableSingleMatch (one_key_table [5, 7] 4) [0] 2 [[7, 6]] 2 ht (l, r, c, ht') \<and>
     mset (take (unat c) l) = {#1#}"
proof -
  obtain ht where ht: "buildHashTable (one_key_table [5, 7] 4) 2 [] ht" using five_seven_table(6) by blast
  have n: "0 < (2 :: nat)" "(2 :: nat) < 2 ^ 64" "(2 :: nat) = 1 \<or> (2 :: nat) = 2" by simp_all
  note j = semi_and_anti_join [OF five_seven_table(1) n(1) five_seven_table(3,2,4) ht five_seven_table(5) n(2,3), of "[[7, 6]]"]
  from j obtain l r c ht' where res: "probeHashTableSingleMatch (one_key_table [5, 7] 4) [0] 2 [[7, 6]] 2 ht (l, r, c, ht')" by auto
  have f: "filter (\<lambda>r. (\<exists>b < 2. joins (one_key_table [5, 7] 4) [0] [[7, 6]] r b) \<longleftrightarrow> (2 :: nat) = 1) [0..<2] = [1]"
    by (simp add: five_seven_joins upt_conv_Cons numeral_2_eq_2 Ex_less_Suc)
  from j res have "mset (take (unat c) l) = mset (map of_nat [1])" unfolding f by blast
  then have "mset (take (unat c) l) = {#1#}" by simp
  with res show ?thesis by blast
qed

theorem unique_hash_join_witness:
  "\<exists>ht l r c ht'. probeHashTableSingleMatch (one_key_table [5, 7] 4) [0] 0 [[7, 6]] 2 ht (l, r, c, ht') \<and>
     mset (zip (take (unat c) l) (take (unat c) r)) = {#(0, 1)#}"
proof -
  obtain ht where ht: "buildHashTable (one_key_table [5, 7] 4) 2 [] ht" using five_seven_table(6) by blast
  have n: "0 < (2 :: nat)" "(2 :: nat) < 2 ^ 64" "(0 :: nat) = 0 \<or> (0 :: nat) = 3" "(2 :: nat) \<le> 2 ^ 31"
    and right: "is_right (one_key_table [5, 7] 4) \<longleftrightarrow> (0 :: nat) = 3" using five_seven_table(4) by simp_all
  have one: "\<forall>r < 2. \<forall>b < 2. \<forall>b' < 2. joins (one_key_table [5, 7] 4) [0] [[7, 6]] r b \<and>
      joins (one_key_table [5, 7] 4) [0] [[7, 6]] r b' \<longrightarrow> b = b'"
    by (simp add: five_seven_joins numeral_2_eq_2 All_less_Suc)
  obtain l r c ht' where res: "probeHashTableSingleMatch (one_key_table [5, 7] 4) [0] 0 [[7, 6]] 2 ht (l, r, c, ht')"
    using probeHashTableSingleMatch_ends [OF five_seven_probeable [OF ht] five_seven_table(5) right, where N = 2 and keys = "[[7, 6]]"] by auto
  have "concat (map (\<lambda>r. map (\<lambda>b. (of_nat r, of_nat b)) (filter (joins (one_key_table [5, 7] 4) [0] [[7, 6]] r) [0..<2])) [0..<2])
      = [(0 :: u64, 1 :: u64)]"
    by (simp add: five_seven_joins upt_conv_Cons numeral_2_eq_2)
  then have "mset (zip (take (unat c) l) (take (unat c) r)) = {#(0, 1)#}"
    using unique_hash_join [OF five_seven_table(1) n(1) five_seven_table(3,2) right ht five_seven_table(5) n(2,3,4) one res] by simp
  with res show ?thesis by blast
qed

theorem mark_join_witness:
  "\<exists>ht. probeHashTableMark (one_key_table [5, 7] 4) [0] [[7, 6]] 2 ht [1, 0]"
proof -
  obtain ht where ht: "buildHashTable (one_key_table [5, 7] 4) 2 [] ht" using five_seven_table(6) by blast
  obtain bytes where out: "probeHashTableMark (one_key_table [5, 7] 4) [0] [[7, 6]] 2 ht bytes"
    using probeHashTableMark_ends [OF five_seven_probeable [OF ht] five_seven_table(5,4)] by blast
  have n: "0 < (2 :: nat)" by simp
  have "map (\<lambda>r. of_bool (\<exists>b < 2. joins (one_key_table [5, 7] 4) [0] [[7, 6]] r b)) [0..<2] = [1 :: 8 word, 0]"
    by (simp add: five_seven_joins upt_conv_Cons numeral_2_eq_2 Ex_less_Suc)
  then have "bytes = [1, 0]"
    using mark_join [OF five_seven_table(1) n five_seven_table(3,2,4) ht five_seven_table(5) out] by simp
  with out show ?thesis by blast
qed

section \<open>The key that marks an empty slot\<close>

lemma local_found_empty_key:
  assumes "condition_mode ! 0 = 0" and "0 < num_keys T" and "key_item keys 0 r = EMPTY" and "ht_at T ht slot 0 \<noteq> EMPTY"
  shows "\<not> local_found T condition_mode keys ht r slot"
  unfolding local_found_def list_all_iff using assms by (intro notI) (auto dest!: bspec [of _ _ 0])

lemma all_matches_empty_key:
  "all_matches T condition_mode keys ht r slot = Some ms \<Longrightarrow>
    condition_mode ! 0 = 0 \<longrightarrow> 0 < num_keys T \<longrightarrow> key_item keys 0 r = EMPTY \<longrightarrow> ms = []"
proof (rule all_matches.raw_induct [of "\<lambda>T condition_mode keys ht r slot ms.
    condition_mode ! 0 = 0 \<longrightarrow> 0 < num_keys T \<longrightarrow> key_item keys 0 r = EMPTY \<longrightarrow> ms = []"])
  fix search T condition_mode keys ht r slot ms
  assume IH: "\<And>T condition_mode keys ht r slot ms. search T condition_mode keys ht r slot = Some ms \<Longrightarrow>
      condition_mode ! 0 = 0 \<longrightarrow> 0 < num_keys T \<longrightarrow> key_item keys 0 r = EMPTY \<longrightarrow> ms = []"
    and step: "(if ht_at T ht slot 0 = EMPTY then Some []
      else Option.bind (search T condition_mode keys ht r (next_slot (ht_len T) slot)) (\<lambda>rest.
        Some (if local_found T condition_mode keys ht r slot then slot # rest else rest))) = Some ms"
  show "condition_mode ! 0 = 0 \<longrightarrow> 0 < num_keys T \<longrightarrow> key_item keys 0 r = EMPTY \<longrightarrow> ms = []"
  proof (intro impI)
    assume key: "condition_mode ! 0 = 0" "0 < num_keys T" "key_item keys 0 r = EMPTY"
    show "ms = []"
    proof (cases "ht_at T ht slot 0 = EMPTY")
      case False
      then obtain rest where "search T condition_mode keys ht r (next_slot (ht_len T) slot) = Some rest" "ms = rest"
        using step local_found_empty_key [OF key False] by (auto simp: bind_eq_Some_conv)
      then show ?thesis using IH key by blast
    qed (use step in simp)
  qed
qed

text \<open>C40: the all-ones word marks an empty slot, so a probe row whose first key is that word (the integer
  -1) matches no slot of any table, whatever the build side holds: with an equality on the first key
  its row is dropped from an inner join although equal build keys exist.\<close>

theorem sentinel_key_never_matches:
  assumes "condition_mode ! 0 = 0" and "0 < num_keys T" and "keys ! 0 ! r = - 1"
    and "row_matches T condition_mode keys ht r = Some ms"
  shows "ms = []"
proof -
  have "key_item keys 0 r = EMPTY" using assms(3) by (simp add: key_item_def EMPTY_def)
  then show ?thesis
    using assms all_matches_empty_key [of T condition_mode keys ht r] by (auto simp: row_matches_def split: option.splits)
qed

text \<open>The two nested loops would join the row: the table below holds a build row with the same key -1.\<close>

theorem sentinel_key_never_matches_witness:
  "joins (one_key_table [-1, 7] 4) [0] [[-1]] 0 0 \<and>
   row_matches (one_key_table [-1, 7] 4) [0] [[-1]] ([7, 1] @ replicate 6 EMPTY) 0 = Some []"
proof -
  let ?T = "one_key_table [-1, 7] 4" and ?ht = "[7, 1] @ replicate 6 EMPTY"
  have "unat (- 1 :: u64) mod 4 = 3" by (simp add: unsigned_minus_1_eq_mask mask_eq_exp_minus_1)
  then have "first_slot [[-1]] (count_equal_keys [0]) (ht_len ?T) 0 = Some 3"
    by (simp add: first_slot_def count_equal_keys_def key_item_def one_key_table_def)
  moreover have "ht_at ?T ?ht 3 0 = EMPTY" by (simp add: ht_at_def one_key_table_def n_ht_column_def nth_append)
  ultimately obtain ms where ms: "row_matches ?T [0] [[-1]] ?ht 0 = Some ms"
    by (simp add: row_matches_def all_matches.simps)
  have "ms = []" by (rule sentinel_key_never_matches [OF _ _ _ ms]) (simp_all add: one_key_table_def)
  with ms show ?thesis by (simp add: joins_def one_key_table_def key_item_def)
qed

end
