(* ===== verification/Scan_Filter.thy ===== *)
theory Scan_Filter
  imports Device_Memory Kernel_Grid "HOL-Library.Sublist"
begin

text \<open>
  The filter of a table scan (\<open>src/src/cuda/operator/arbitrary_expression.cu\<close> and
  \<open>HandleArbitraryConstantExpression\<close> of \<open>src/src/operator/gpu_physical_table_scan.cpp\<close>): comparing
  the values of columns with constants that travel to the device as one byte buffer.  The elements
  of an array are their bit patterns.  A DuckDB value is what the code reads of it: whether it is
  NULL, the bits that \<open>GetValue\<close> returns for a column type, and its text.
\<close>

section \<open>Comparisons\<close>

datatype CompareType =
    EQUAL | NOTEQUAL | GREATERTHAN | GREATERTHANOREQUALTO | LESSTHAN | LESSTHANOREQUALTO | IS_NULL | IS_NOT_NULL

datatype ScanDataType =
    S_INT16 | S_INT32 | S_INT64 | S_FLOAT32 | S_FLOAT64 | S_BOOLEAN | S_DATE | S_VARCHAR | S_DECIMAL32 | S_DECIMAL64
  | S_SQLNULL

text \<open>\<open>device_comparison<T>\<close> over the operators \<open>==\<close>, \<open><\<close> and \<open><=\<close> of \<open>T\<close>; the last branch leaves
  the function without a value.\<close>

definition device_comparison ::
  "('a \<Rightarrow> 'a \<Rightarrow> bool) \<Rightarrow> ('a \<Rightarrow> 'a \<Rightarrow> bool) \<Rightarrow> ('a \<Rightarrow> 'a \<Rightarrow> bool) \<Rightarrow> 'a \<Rightarrow> 'a \<Rightarrow> CompareType \<Rightarrow> bool res" where
  "device_comparison eq lt le item compare mode =
     (if mode = EQUAL then Inr (eq item compare)
      else if mode = NOTEQUAL then Inr (\<not> eq item compare)
      else if mode = GREATERTHAN then Inr (lt compare item)
      else if mode = GREATERTHANOREQUALTO then Inr (le compare item)
      else if mode = LESSTHAN then Inr (lt item compare)
      else if mode = LESSTHANOREQUALTO then Inr (le item compare)
      else Inl (UndefinedBehaviour ''return without a value''))"

definition device_comparison_null :: "bool \<Rightarrow> CompareType \<Rightarrow> bool" where
  "device_comparison_null validity_bit mode =
     (if mode = IS_NULL then \<not> validity_bit
      else if mode = IS_NOT_NULL then validity_bit
      else False)"

text \<open>Strings: characters are signed.  The first position where the strings differ decides; without one
  the lengths do.\<close>

definition first_difference :: "u8 list \<Rightarrow> u8 list \<Rightarrow> nat option" where
  "first_difference xs ys = find (\<lambda>j. xs ! j \<noteq> ys ! j) [0..<min (length ys) (length xs)]"

definition device_comparison_string :: "u8 list \<Rightarrow> u8 list \<Rightarrow> CompareType \<Rightarrow> bool res" where
  "device_comparison_string char_data compare_chars mode =
     (let char_len = length char_data; compare_length = length compare_chars;
          num_compare_chars = min compare_length char_len in
      if mode = EQUAL then
        (if compare_length \<noteq> char_len then Inr False
         else Inr (first_difference char_data compare_chars = None))
      else if mode = NOTEQUAL then
        (if compare_length \<noteq> char_len then Inr True
         else Inr (first_difference char_data compare_chars \<noteq> None))
      else if mode \<in> {GREATERTHAN, GREATERTHANOREQUALTO, LESSTHAN, LESSTHANOREQUALTO} then
        (let is_greater_check = mode \<in> {GREATERTHAN, GREATERTHANOREQUALTO};
             is_inclusive = mode \<in> {GREATERTHANOREQUALTO, LESSTHANOREQUALTO} in
         case first_difference char_data compare_chars of
           Some j \<Rightarrow> Inr (if is_greater_check then sint (char_data ! j) > sint (compare_chars ! j)
                          else sint (char_data ! j) < sint (compare_chars ! j))
         | None \<Rightarrow> Inr (is_inclusive \<and> char_len = num_compare_chars \<or>
             is_greater_check \<and> char_len > num_compare_chars \<or>
             \<not> is_greater_check \<and> char_len < num_compare_chars))
      else Inl (UndefinedBehaviour ''return without a value''))"

section \<open>Floating-point numbers\<close>

text \<open>An IEEE 754 bit pattern with \<open>e\<close> exponent and \<open>m\<close> mantissa bits as a number of the same order:
  \<open>None\<close> for a NaN; the two zeros are equal.\<close>

definition float_key :: "nat \<Rightarrow> nat \<Rightarrow> u64 \<Rightarrow> int option" where
  "float_key e m w =
     (let magnitude = uint (take_bit (e + m) w) in
      if (2 ^ e - 1) * 2 ^ m < magnitude then None
      else Some (if bit w (e + m) then - magnitude else magnitude))"

definition key_eq :: "int option \<Rightarrow> int option \<Rightarrow> bool" where
  "key_eq a b = (case (a, b) of (Some x, Some y) \<Rightarrow> x = y | _ \<Rightarrow> False)"

definition key_lt :: "int option \<Rightarrow> int option \<Rightarrow> bool" where
  "key_lt a b = (case (a, b) of (Some x, Some y) \<Rightarrow> x < y | _ \<Rightarrow> False)"

definition key_le :: "int option \<Rightarrow> int option \<Rightarrow> bool" where
  "key_le a b = (case (a, b) of (Some x, Some y) \<Rightarrow> x \<le> y | _ \<Rightarrow> False)"

section \<open>Bytes\<close>

text \<open>\<open>memcpy\<close> between a number and a byte buffer on a little-endian machine.\<close>

definition le_bytes :: "nat \<Rightarrow> u64 \<Rightarrow> u8 list" where
  "le_bytes n w = map (\<lambda>i. ucast (drop_bit (8 * i) w)) [0..<n]"

fun le_number :: "u8 list \<Rightarrow> u64" where
  "le_number [] = 0"
| "le_number (b # bs) = ucast b + push_bit 8 (le_number bs)"

definition copy_number :: "u8 list \<Rightarrow> u64 \<Rightarrow> nat \<Rightarrow> u64 res" where
  "copy_number buffer start n =
     (if unat start + n \<le> length buffer then Inr (le_number (take n (drop (unat start) buffer)))
      else Inl (UndefinedBehaviour ''memcpy out of bounds''))"

section \<open>The kernel\<close>

text \<open>The host arrays that the launch copies to the device.\<close>

record scan_args =
  sa_col :: "ptr list"
  sa_offset :: "ptr list"
  sa_bitmask :: "ptr list"
  constant_compare :: "u8 list"
  constant_offset :: "u64 list"
  data_type :: "ScanDataType list"
  compare_mode :: "CompareType list"

definition val_at :: "u64 device \<Rightarrow> u64 \<Rightarrow> ptr \<Rightarrow> nat \<Rightarrow> u64 res" where
  "val_at d w p i = (case cells d p of
     Some (Vals w' xs) \<Rightarrow> if w' = w then vec_at xs i else Inl (UndefinedBehaviour ''array read at another element size'')
   | _ \<Rightarrow> Inl (UndefinedBehaviour ''not a value array''))"

definition bit_at :: "u64 device \<Rightarrow> ptr \<Rightarrow> nat \<Rightarrow> bool res" where
  "bit_at d p i = (case cells d p of Some (Bits bs) \<Rightarrow> vec_at bs i | _ \<Rightarrow> Inl (UndefinedBehaviour ''not a validity mask''))"

definition string_at :: "u64 device \<Rightarrow> ptr \<Rightarrow> ptr \<Rightarrow> nat \<Rightarrow> u8 list res" where
  "string_at d data offset i = (case (cells d data, cells d offset) of
     (Some (Bytes bs), Some (Offsets os)) \<Rightarrow>
       res_bind (vec_at os i) (\<lambda>lo. res_bind (vec_at os (Suc i)) (\<lambda>hi.
         if unat lo + unat (hi - lo) \<le> length bs then Inr (take (unat (hi - lo)) (drop (unat lo) bs))
         else Inl (UndefinedBehaviour ''string out of bounds'')))
   | _ \<Rightarrow> Inl (UndefinedBehaviour ''not a string column''))"

text \<open>One element and one constant of a data type: the size of the element and what the typed reads see
  of the bits.\<close>

definition scan_size :: "ScanDataType \<Rightarrow> nat" where
  "scan_size t = (case t of S_INT16 \<Rightarrow> 2 | S_INT32 \<Rightarrow> 4 | S_DATE \<Rightarrow> 4 | S_DECIMAL32 \<Rightarrow> 4 | S_INT64 \<Rightarrow> 8
     | S_DECIMAL64 \<Rightarrow> 8 | S_FLOAT32 \<Rightarrow> 4 | S_FLOAT64 \<Rightarrow> 8 | S_BOOLEAN \<Rightarrow> 1 | S_VARCHAR \<Rightarrow> 1 | S_SQLNULL \<Rightarrow> 4)"

definition compare_numbers :: "ScanDataType \<Rightarrow> u64 \<Rightarrow> u64 \<Rightarrow> CompareType \<Rightarrow> bool res" where
  "compare_numbers t item constant mode =
     (if t = S_INT16 then device_comparison (=) (<s) (\<le>s) (ucast item :: 16 word) (ucast constant) mode
      else if t = S_INT32 \<or> t = S_DATE \<or> t = S_DECIMAL32 then
        device_comparison (=) (<s) (\<le>s) (ucast item :: 32 word) (ucast constant) mode
      else if t = S_INT64 \<or> t = S_DECIMAL64 then device_comparison (=) (<s) (\<le>s) item constant mode
      else if t = S_FLOAT32 then
        device_comparison key_eq key_lt key_le (float_key 8 23 item) (float_key 8 23 constant) mode
      else if t = S_FLOAT64 then
        device_comparison key_eq key_lt key_le (float_key 11 52 item) (float_key 11 52 constant) mode
      else device_comparison (=) (<) (\<le>) (ucast item :: 8 word) (ucast constant) mode)"

definition expr_flag :: "u64 device \<Rightarrow> scan_args \<Rightarrow> nat \<Rightarrow> nat \<Rightarrow> bool res" where
  "expr_flag d a item_idx expr =
     res_bind (vec_at (sa_bitmask a) expr) (\<lambda>mask. res_bind (bit_at d mask item_idx) (\<lambda>validity_bit.
     res_bind (vec_at (data_type a) expr) (\<lambda>t. res_bind (vec_at (compare_mode a) expr) (\<lambda>mode.
     if t = S_SQLNULL then Inr (device_comparison_null validity_bit mode)
     else if \<not> validity_bit then Inr False
     else res_bind (vec_at (sa_col a) expr) (\<lambda>col. res_bind (vec_at (constant_offset a) expr) (\<lambda>start.
       if t = S_VARCHAR then
         res_bind (vec_at (sa_offset a) expr) (\<lambda>offset. res_bind (string_at d col offset item_idx) (\<lambda>curr.
         res_bind (vec_at (constant_offset a) (Suc expr)) (\<lambda>stop.
           if unat start + unat (stop - start) \<le> length (constant_compare a)
           then device_comparison_string curr (take (unat (stop - start)) (drop (unat start) (constant_compare a))) mode
           else Inl (UndefinedBehaviour ''constant out of bounds''))))
       else res_bind (val_at d (of_nat (scan_size t)) col item_idx) (\<lambda>item.
            res_bind (copy_number (constant_compare a) start (scan_size t)) (\<lambda>constant.
            compare_numbers t item constant mode))))))))"

fun row_flag :: "u64 device \<Rightarrow> scan_args \<Rightarrow> nat \<Rightarrow> nat list \<Rightarrow> bool \<Rightarrow> bool res" where
  "row_flag d a item_idx [] flag = Inr flag"
| "row_flag d a item_idx (expr # exprs) flag =
     res_bind (expr_flag d a item_idx expr) (\<lambda>f. if \<not> f then Inr f else row_flag d a item_idx exprs f)"

text \<open>The launch: the row ids it writes, in the places that the blocks get in their order of arrival.
  The words behind them stay uninitialised and are not part of the array.\<close>

definition table_scan_expression ::
  "u64 device \<Rightarrow> scan_args \<Rightarrow> nat \<Rightarrow> nat \<Rightarrow> nat list \<Rightarrow> (u64 \<times> u64 list) res" where
  "table_scan_expression d a N num_expr order =
     res_bind (res_mapM (\<lambda>r. row_flag d a r [0..<num_expr] False) [0..<N]) (\<lambda>selection_flags.
       let out = (\<lambda>r. if selection_flags ! r then [of_nat r] else []);
           total = final_count (row_counts N out) order
       in Inr (total, take (unat total) (write_each (kernel_writes (row_counts N out) (row_outs N out) order) (replicate N 0))))"

definition tableScanExpression ::
  "rmm_pool \<Rightarrow> (nat \<Rightarrow> nat list) \<Rightarrow> scan_args \<Rightarrow> ptr \<Rightarrow> nat \<Rightarrow> nat \<Rightarrow> (u64 device, ptr \<times> u64) act" where
  "tableScanExpression rmm arrival a ids N num_expr =
     (if N = 0 then act_bind (dev_host_alloc 8 1) (\<lambda>_. act_return (ids, 0))
      else act_bind (act_lift (vec_at (constant_offset a) num_expr)) (\<lambda>constant_size.
        act_bind (dev_malloc rmm 1 constant_size) (\<lambda>d_constant_compare.
        act_bind (dev_malloc rmm 8 (of_nat num_expr + 1)) (\<lambda>d_constant_offset.
        act_bind (dev_malloc rmm 4 (of_nat num_expr)) (\<lambda>d_compare_mode.
        act_bind (dev_malloc rmm 4 (of_nat num_expr)) (\<lambda>d_data_type.
        act_bind (dev_malloc rmm 8 (of_nat num_expr)) (\<lambda>d_col.
        act_bind (dev_malloc rmm 8 (of_nat num_expr)) (\<lambda>d_offset.
        act_bind (dev_malloc rmm 8 (of_nat num_expr)) (\<lambda>d_bitmask.
        act_bind (dev_malloc rmm 8 1) (\<lambda>d_count.
        act_bind (dev_malloc rmm 8 (of_nat N)) (\<lambda>new_ids.
        act_bind (\<lambda>d. (table_scan_expression d a N num_expr (arrival (num_tiles N)), d)) (\<lambda>(total, rows).
        act_bind (dev_write new_ids (RowIds rows)) (\<lambda>_.
        act_bind (dev_host_alloc 8 1) (\<lambda>_.
        act_bind (dev_free d_count) (\<lambda>_.
        act_bind (dev_free d_col) (\<lambda>_.
        act_bind (dev_free d_offset) (\<lambda>_.
        act_bind (dev_free d_constant_compare) (\<lambda>_.
        act_bind (dev_free d_constant_offset) (\<lambda>_.
        act_bind (dev_free d_compare_mode) (\<lambda>_.
        act_bind (dev_free d_data_type) (\<lambda>_.
        act_return (new_ids, total))))))))))))))))))))))"

section \<open>\<open>HandleArbitraryConstantExpression\<close>\<close>

datatype ExpressionType =
    COMPARE_EQUAL | COMPARE_NOTEQUAL | COMPARE_GREATERTHAN | COMPARE_GREATERTHANOREQUALTO | COMPARE_LESSTHAN
  | COMPARE_LESSTHANOREQUALTO | OPERATOR_IS_NULL | OPERATOR_IS_NOT_NULL | OTHER_EXPRESSION nat

record duckdb_value =
  IsNull :: bool
  GetValue :: "GPUColumnTypeId \<Rightarrow> u64 res"
  GetValueUnsafe :: u64
  ToString :: "u8 list"

record ConstantFilter =
  comparison_type :: ExpressionType
  filter_constant :: duckdb_value

definition convert_comparison :: "ExpressionType \<Rightarrow> CompareType res" where
  "convert_comparison e = (case e of
     COMPARE_EQUAL \<Rightarrow> Inr EQUAL
   | COMPARE_NOTEQUAL \<Rightarrow> Inr NOTEQUAL
   | COMPARE_GREATERTHAN \<Rightarrow> Inr GREATERTHAN
   | COMPARE_GREATERTHANOREQUALTO \<Rightarrow> Inr GREATERTHANOREQUALTO
   | COMPARE_LESSTHAN \<Rightarrow> Inr LESSTHAN
   | COMPARE_LESSTHANOREQUALTO \<Rightarrow> Inr LESSTHANOREQUALTO
   | OPERATOR_IS_NULL \<Rightarrow> Inr IS_NULL
   | OPERATOR_IS_NOT_NULL \<Rightarrow> Inr IS_NOT_NULL
   | OTHER_EXPRESSION n \<Rightarrow> Inl (NotImplementedException ''Unsupported comparison type''))"

text \<open>The first loop: the data type of an expression.  The \<open>throw\<close> behind the two decimal sizes is
  unreachable, other sizes leave the data type uninitialised.\<close>

definition scan_data_type :: "duckdb_env \<Rightarrow> GPUColumnType \<Rightarrow> duckdb_value \<Rightarrow> ScanDataType res" where
  "scan_data_type D t v =
     (if IsNull v then Inr S_SQLNULL
      else case ct_id t of
        C_INT16 \<Rightarrow> Inr S_INT16
      | C_INT32 \<Rightarrow> Inr S_INT32
      | C_INT64 \<Rightarrow> Inr S_INT64
      | C_FLOAT32 \<Rightarrow> Inr S_FLOAT32
      | C_FLOAT64 \<Rightarrow> Inr S_FLOAT64
      | C_DATE \<Rightarrow> Inr S_DATE
      | C_VARCHAR \<Rightarrow> Inr S_VARCHAR
      | C_DECIMAL \<Rightarrow> res_bind (getColumnTypeSize D t) (\<lambda>sz.
          if sz = 4 then Inr S_DECIMAL32 else if sz = 8 then Inr S_DECIMAL64
          else Inl (UndefinedBehaviour ''data type left uninitialised''))
      | _ \<Rightarrow> Inl (NotImplementedException ''Unsupported sirius column type in `HandleArbitraryConstantExpression`''))"

text \<open>The second loop: the bytes an expression adds to the constants.\<close>

definition constant_bytes :: "duckdb_env \<Rightarrow> GPUColumnType \<Rightarrow> duckdb_value \<Rightarrow> u8 list res" where
  "constant_bytes D t v =
     (if IsNull v then Inr (le_bytes 4 0xFFFFFFFF)
      else case ct_id t of
        C_INT16 \<Rightarrow> res_bind (GetValue v C_INT16) (\<lambda>temp. Inr (le_bytes 2 temp))
      | C_INT32 \<Rightarrow> res_bind (GetValue v C_INT32) (\<lambda>temp. Inr (le_bytes 4 temp))
      | C_DATE \<Rightarrow> res_bind (GetValue v C_INT32) (\<lambda>temp. Inr (le_bytes 4 temp))
      | C_INT64 \<Rightarrow> res_bind (GetValue v C_INT64) (\<lambda>temp. Inr (le_bytes 8 temp))
      | C_FLOAT32 \<Rightarrow> res_bind (GetValue v C_FLOAT32) (\<lambda>temp. Inr (le_bytes 4 temp))
      | C_FLOAT64 \<Rightarrow> res_bind (GetValue v C_FLOAT64) (\<lambda>temp. Inr (le_bytes 8 temp))
      | C_VARCHAR \<Rightarrow> Inr (ToString v)
      | C_DECIMAL \<Rightarrow> res_bind (getColumnTypeSize D t) (\<lambda>sz.
          if sz = 4 then Inr (le_bytes 4 (GetValueUnsafe v)) else if sz = 8 then Inr (le_bytes 8 (GetValueUnsafe v))
          else Inl (UndefinedBehaviour ''constant offset left uninitialised''))
      | _ \<Rightarrow> Inl (NotImplementedException ''Unsupported sirius column type in `HandleArbitraryConstantExpression`''))"

fun constant_offsets :: "u64 \<Rightarrow> u8 list list \<Rightarrow> u64 list" where
  "constant_offsets init_offset [] = [init_offset]"
| "constant_offsets init_offset (b # bs) = init_offset # constant_offsets (init_offset + of_nat (length b)) bs"

definition scan_modes :: "duckdb_env \<Rightarrow> GPUColumn list \<Rightarrow> ConstantFilter list \<Rightarrow> (CompareType \<times> ScanDataType) list res" where
  "scan_modes D cs fs = res_mapM (\<lambda>(c, f).
     res_bind (convert_comparison (comparison_type f)) (\<lambda>mode.
     res_bind (scan_data_type D (dw_type (data_wrapper c)) (filter_constant f)) (\<lambda>t. Inr (mode, t)))) (zip cs fs)"

definition total_bytes :: "(CompareType \<times> ScanDataType) list \<Rightarrow> ConstantFilter list \<Rightarrow> nat" where
  "total_bytes modes fs = (\<Sum>((mode, t), f) \<leftarrow> zip modes fs.
     if t = S_VARCHAR then length (ToString (filter_constant f)) else scan_size t)"

definition scan_constants :: "duckdb_env \<Rightarrow> GPUColumn list \<Rightarrow> ConstantFilter list \<Rightarrow> u8 list list res" where
  "scan_constants D cs fs = res_mapM (\<lambda>(c, f). constant_bytes D (dw_type (data_wrapper c)) (filter_constant f)) (zip cs fs)"

definition scan_args_of :: "GPUColumn list \<Rightarrow> (CompareType \<times> ScanDataType) list \<Rightarrow> u8 list list \<Rightarrow> scan_args" where
  "scan_args_of cs modes cbs =
     \<lparr>sa_col = map (\<lambda>c. dw_data (data_wrapper c)) cs, sa_offset = map (\<lambda>c. dw_offset (data_wrapper c)) cs,
      sa_bitmask = map (\<lambda>c. dw_validity_mask (data_wrapper c)) cs,
      constant_compare = concat cbs, constant_offset = constant_offsets 0 cbs,
      data_type = map snd modes, compare_mode = map fst modes\<rparr>"

definition HandleArbitraryConstantExpression ::
  "duckdb_env \<Rightarrow> rmm_pool \<Rightarrow> (nat \<Rightarrow> nat list) \<Rightarrow> GPUColumn list \<Rightarrow> ptr \<Rightarrow> ConstantFilter list \<Rightarrow>
    (u64 device, ptr \<times> u64) act" where
  "HandleArbitraryConstantExpression D rmm arrival cs ids fs =
     (let num_expr = length fs in
      act_bind (act_mapM (\<lambda>(sz, n). dev_host_alloc sz n)
        [(8, of_nat num_expr), (8, of_nat num_expr), (8, of_nat num_expr), (8, of_nat num_expr + 1),
         (4, of_nat num_expr), (4, of_nat num_expr)]) (\<lambda>_.
      act_bind (act_lift (scan_modes D cs fs)) (\<lambda>modes.
      act_bind (dev_host_alloc 1 (of_nat (total_bytes modes fs))) (\<lambda>_.
      act_bind (act_lift (scan_constants D cs fs)) (\<lambda>cbs.
      act_bind (act_lift (vec_at cs 0)) (\<lambda>c.
      tableScanExpression rmm arrival (scan_args_of cs modes cbs) ids (unat (column_length c)) num_expr))))))"

section \<open>Comparing strings\<close>

text \<open>The order of strings by signed characters.\<close>

fun str_less :: "u8 list \<Rightarrow> u8 list \<Rightarrow> bool" where
  "str_less xs [] = False"
| "str_less [] (y # ys) = True"
| "str_less (x # xs) (y # ys) = (sint x < sint y \<or> x = y \<and> str_less xs ys)"

lemma find_map: "find P (map f xs) = map_option f (find (P \<circ> f) xs)"
  by (induction xs) auto

lemma first_difference_simps:
  "first_difference [] ys = None" "first_difference xs [] = None"
  "first_difference (x # xs) (y # ys) = (if x \<noteq> y then Some 0 else map_option Suc (first_difference xs ys))"
proof -
  show "first_difference (x # xs) (y # ys) = (if x \<noteq> y then Some 0 else map_option Suc (first_difference xs ys))"
    unfolding first_difference_def
    by (simp add: upt_rec [of 0] map_Suc_upt [symmetric] find_map comp_def del: upt_Suc map_Suc_upt)
qed (simp_all add: first_difference_def)

lemma first_difference_None: "first_difference xs ys = None \<longleftrightarrow> prefix xs ys \<or> prefix ys xs"
proof (induction xs arbitrary: ys)
  case (Cons x xs)
  then show ?case by (cases ys) (auto simp: first_difference_simps)
qed (simp add: first_difference_simps)

lemma first_difference_Some:
  "first_difference xs ys = Some j \<Longrightarrow>
    (str_less xs ys \<longleftrightarrow> sint (xs ! j) < sint (ys ! j)) \<and> (str_less ys xs \<longleftrightarrow> sint (ys ! j) < sint (xs ! j)) \<and>
    \<not> prefix xs ys \<and> sint (xs ! j) \<noteq> sint (ys ! j)"
proof (induction xs arbitrary: ys j)
  case (Cons x xs)
  show ?case
  proof (cases ys)
    case Nil
    then show ?thesis using Cons.prems by (simp add: first_difference_simps)
  next
    case (Cons y ys')
    show ?thesis
    proof (cases "x = y")
      case True
      then obtain i where "first_difference xs ys' = Some i" "j = Suc i"
        using Cons.prems Cons by (auto simp: first_difference_simps)
      with Cons.IH [OF this(1)] True Cons show ?thesis by simp
    next
      case False
      then have "sint x \<noteq> sint y" by (metis signed_word_eqI)
      then show ?thesis using Cons.prems Cons False by (auto simp: first_difference_simps)
    qed
  qed
qed (simp add: first_difference_simps)

lemma prefix_str_less: "prefix xs ys \<Longrightarrow> \<not> str_less ys xs \<and> (str_less xs ys \<longleftrightarrow> length xs < length ys)"
proof (induction xs arbitrary: ys)
  case Nil
  then show ?case by (cases ys) auto
next
  case (Cons x xs)
  then show ?case by (cases ys) auto
qed

text \<open>C31: the string comparison of the scan filter on every mode: equality and inequality are those of the
  strings, \<open>>\<close> and \<open><=\<close> follow the lexicographic order of signed characters, but a string that is a
  proper prefix of the constant is not below it for \<open><\<close> and not excluded by \<open>>=\<close>.\<close>

theorem string_comparison:
  "device_comparison_string xs ys EQUAL = Inr (xs = ys) \<and>
   device_comparison_string xs ys NOTEQUAL = Inr (xs \<noteq> ys) \<and>
   device_comparison_string xs ys GREATERTHAN = Inr (str_less ys xs) \<and>
   device_comparison_string xs ys LESSTHANOREQUALTO = Inr (\<not> str_less ys xs) \<and>
   device_comparison_string xs ys LESSTHAN = Inr (str_less xs ys \<and> \<not> strict_prefix xs ys) \<and>
   device_comparison_string xs ys GREATERTHANOREQUALTO = Inr (\<not> (str_less xs ys \<and> \<not> strict_prefix xs ys))"
proof (cases "first_difference xs ys")
  case None
  then consider "prefix xs ys" | "prefix ys xs" "xs \<noteq> ys" unfolding first_difference_None by blast
  then show ?thesis
  proof cases
    case 1
    then have "length xs \<le> length ys" "xs = ys \<longleftrightarrow> length xs = length ys"
      by (auto simp: prefix_length_le) (metis not_equal_is_parallel parallelD1)
    then show ?thesis using None 1 prefix_str_less [OF 1]
      by (auto simp: device_comparison_string_def strict_prefix_def)
  next
    case 2
    then have "length ys < length xs" using prefix_length_less [of ys xs] by (simp add: strict_prefix_def)
    moreover have "\<not> prefix xs ys" using 2 by (meson prefix_order.antisym)
    ultimately show ?thesis using None 2 prefix_str_less [OF 2(1)]
      by (auto simp: device_comparison_string_def strict_prefix_def)
  qed
next
  case (Some j)
  note d = first_difference_Some [OF Some]
  have "xs \<noteq> ys" using Some first_difference_None [of xs ys] by auto
  then show ?thesis using Some d by (auto simp: device_comparison_string_def strict_prefix_def)
qed

lemma string_comparison_total:
  "mode \<noteq> IS_NULL \<Longrightarrow> mode \<noteq> IS_NOT_NULL \<Longrightarrow> \<exists>b. device_comparison_string xs ys mode = Inr b"
  by (cases mode) (auto simp: device_comparison_string_def Let_def split: option.splits)

section \<open>Comparing numbers\<close>

definition compares :: "CompareType \<Rightarrow> int option \<Rightarrow> int option \<Rightarrow> bool" where
  "compares mode a b = (case mode of EQUAL \<Rightarrow> key_eq a b | NOTEQUAL \<Rightarrow> \<not> key_eq a b | GREATERTHAN \<Rightarrow> key_lt b a
     | GREATERTHANOREQUALTO \<Rightarrow> key_le b a | LESSTHAN \<Rightarrow> key_lt a b | LESSTHANOREQUALTO \<Rightarrow> key_le a b | _ \<Rightarrow> False)"

definition six_modes :: "CompareType set" where
  "six_modes = {EQUAL, NOTEQUAL, GREATERTHAN, GREATERTHANOREQUALTO, LESSTHAN, LESSTHANOREQUALTO}"

text \<open>A type whose operators compare a key.\<close>

locale keyed_comparison =
  fixes key :: "'a \<Rightarrow> int option" and eq lt le :: "'a \<Rightarrow> 'a \<Rightarrow> bool"
  assumes eq: "eq a b \<longleftrightarrow> key_eq (key a) (key b)"
    and lt: "lt a b \<longleftrightarrow> key_lt (key a) (key b)"
    and le: "le a b \<longleftrightarrow> key_le (key a) (key b)"
begin

lemma device_comparison_keys:
  "mode \<in> six_modes \<Longrightarrow> device_comparison eq lt le a b mode = Inr (compares mode (key a) (key b))"
  by (auto simp: device_comparison_def compares_def six_modes_def eq lt le)

end

lemma key_simps [simp]:
  "key_eq (Some x) (Some y) = (x = y)" "key_lt (Some x) (Some y) = (x < y)" "key_le (Some x) (Some y) = (x \<le> y)"
  by (simp_all add: key_eq_def key_lt_def key_le_def)

interpretation s16: keyed_comparison "\<lambda>w :: 16 word. Some (sint w)" "(=)" "(<s)" "(\<le>s)"
  by unfold_locales (auto simp: word_sless_alt word_sle_eq intro: signed_word_eqI)

interpretation s32: keyed_comparison "\<lambda>w :: 32 word. Some (sint w)" "(=)" "(<s)" "(\<le>s)"
  by unfold_locales (auto simp: word_sless_alt word_sle_eq intro: signed_word_eqI)

interpretation s64: keyed_comparison "\<lambda>w :: u64. Some (sint w)" "(=)" "(<s)" "(\<le>s)"
  by unfold_locales (auto simp: word_sless_alt word_sle_eq intro: signed_word_eqI)

interpretation u8: keyed_comparison "\<lambda>w :: 8 word. Some (uint w)" "(=)" "(<)" "(\<le>)"
  by unfold_locales (auto simp: word_less_def word_le_def word_uint_eq_iff)

interpretation floats: keyed_comparison "\<lambda>k. k" key_eq key_lt key_le
  by unfold_locales simp_all

definition number_key :: "ScanDataType \<Rightarrow> u64 \<Rightarrow> int option" where
  "number_key t w =
     (if t = S_INT16 then Some (sint (ucast w :: 16 word))
      else if t = S_INT32 \<or> t = S_DATE \<or> t = S_DECIMAL32 then Some (sint (ucast w :: 32 word))
      else if t = S_INT64 \<or> t = S_DECIMAL64 then Some (sint w)
      else if t = S_FLOAT32 then float_key 8 23 w
      else if t = S_FLOAT64 then float_key 11 52 w
      else Some (uint (ucast w :: 8 word)))"

lemma compare_numbers_keys:
  "mode \<in> six_modes \<Longrightarrow> compare_numbers t item constant mode = Inr (compares mode (number_key t item) (number_key t constant))"
  by (simp add: compare_numbers_def number_key_def s16.device_comparison_keys s32.device_comparison_keys
      s64.device_comparison_keys u8.device_comparison_keys floats.device_comparison_keys)

section \<open>Constants through the byte buffer\<close>

lemma le_bytes_length [simp]: "length (le_bytes n w) = n"
  by (simp add: le_bytes_def)

lemma le_bytes_Suc: "le_bytes (Suc n) w = ucast w # le_bytes n (drop_bit 8 w)"
  by (simp add: le_bytes_def upt_rec [of 0] map_Suc_upt [symmetric] comp_def ac_simps del: upt_Suc map_Suc_upt)

lemma le_number_bytes: "le_number (le_bytes n w) = take_bit (8 * n) w"
proof (induction n arbitrary: w)
  case (Suc n)
  have "(ucast (ucast w :: u8) :: u64) = take_bit 8 w" by (rule bit_word_eqI) (auto simp: bit_simps)
  then have "le_number (le_bytes (Suc n) w) = take_bit 8 w + push_bit 8 (take_bit (8 * n) (drop_bit 8 w))"
    by (simp add: le_bytes_Suc Suc)
  also have "\<dots> = or (take_bit 8 w) (push_bit 8 (take_bit (8 * n) (drop_bit 8 w)))"
    by (rule disjunctive_add) (auto simp: bit_simps)
  also have "\<dots> = take_bit (8 * Suc n) w" by (rule bit_word_eqI) (auto simp: bit_simps)
  finally show ?case .
qed (simp add: le_bytes_def)

lemma number_key_take:
  assumes "t \<noteq> S_VARCHAR" and "t \<noteq> S_SQLNULL"
  shows "number_key t (take_bit (8 * scan_size t) w) = number_key t w"
proof -
  have 1: "(ucast (take_bit 16 w) :: 16 word) = ucast w" "(ucast (take_bit 32 w) :: 32 word) = ucast w"
    "(ucast (take_bit 8 w) :: 8 word) = ucast w" "take_bit 64 w = w" for w :: u64
    by (rule bit_word_eqI, auto simp: bit_simps)+
  moreover have "float_key 8 23 (take_bit 32 w) = float_key 8 23 w" for w
    by (simp add: float_key_def Let_def bit_simps)
  ultimately show ?thesis using assms by (cases t) (simp_all add: number_key_def scan_size_def)
qed

lemma constant_offsets_nth:
  "i \<le> length bs \<Longrightarrow> constant_offsets init bs ! i = init + of_nat (length (concat (take i bs)))"
proof (induction bs arbitrary: init i)
  case (Cons b bs)
  show ?case
  proof (cases i)
    case (Suc k)
    then show ?thesis using Cons.IH [of k "init + of_nat (length b)"] Cons.prems by simp
  qed simp
qed simp

lemma constant_offsets_length [simp]: "length (constant_offsets init bs) = Suc (length bs)"
  by (induction bs arbitrary: init) auto

lemma concat_part:
  assumes "i < length bs"
  shows "take (length (bs ! i)) (drop (length (concat (take i bs))) (concat bs)) = bs ! i"
    and "length (concat (take i bs)) + length (bs ! i) \<le> length (concat bs)"
proof -
  have "concat bs = concat (take i bs) @ (bs ! i) @ concat (drop (Suc i) bs)"
    using id_take_nth_drop [OF assms] by (metis concat.simps(2) concat_append)
  then show "take (length (bs ! i)) (drop (length (concat (take i bs))) (concat bs)) = bs ! i"
    "length (concat (take i bs)) + length (bs ! i) \<le> length (concat bs)" by simp_all
qed

text \<open>What the kernel finds at the offsets of expression \<open>i\<close>.\<close>

lemma constant_part:
  assumes "i < length bs" and "length (concat bs) < 2 ^ 64"
  defines "start \<equiv> constant_offsets 0 bs ! i" and "stop \<equiv> constant_offsets 0 bs ! Suc i"
  shows "unat start + unat (stop - start) \<le> length (concat bs)"
    and "take (unat (stop - start)) (drop (unat start) (concat bs)) = bs ! i"
    and "n = length (bs ! i) \<Longrightarrow> copy_number (concat bs) start n = Inr (le_number (bs ! i))"
proof -
  have "length (concat (take (Suc i) bs)) = length (concat (take i bs)) + length (bs ! i)"
    using assms(1) by (simp add: take_Suc_conv_app_nth)
  then have st: "start = of_nat (length (concat (take i bs)))" "stop - start = of_nat (length (bs ! i))"
    using assms(1) constant_offsets_nth [of i bs 0] constant_offsets_nth [of "Suc i" bs 0]
    by (simp_all add: start_def stop_def)
  note p = concat_part [OF assms(1)]
  have u: "unat start = length (concat (take i bs))"
    unfolding st(1) using p(2) assms(2) by (simp add: unat_of_nat take_bit_nat_eq_self)
  have u2: "unat (stop - start) = length (bs ! i)"
    unfolding st(2) using p(2) assms(2) by (simp add: unat_of_nat take_bit_nat_eq_self)
  note u = u u2
  show "unat start + unat (stop - start) \<le> length (concat bs)"
    "take (unat (stop - start)) (drop (unat start) (concat bs)) = bs ! i" unfolding u using p by simp_all
  show "n = length (bs ! i) \<Longrightarrow> copy_number (concat bs) start n = Inr (le_number (bs ! i))"
    unfolding copy_number_def u using p by simp
qed

section \<open>The rows a filter lets through\<close>

text \<open>The value a constant stands for.\<close>

definition constant_bits :: "GPUColumnType \<Rightarrow> duckdb_value \<Rightarrow> u64 res" where
  "constant_bits t v = (if ct_id t = C_DECIMAL then Inr (GetValueUnsafe v)
     else if ct_id t = C_DATE then GetValue v C_INT32 else GetValue v (ct_id t))"

text \<open>A comparison with NULL is false, only the tests for NULL see the validity bit; otherwise the row must
  be valid and its value compare with the constant.\<close>

definition passes :: "duckdb_env \<Rightarrow> u64 device \<Rightarrow> GPUColumn \<Rightarrow> ConstantFilter \<Rightarrow> nat \<Rightarrow> bool" where
  "passes D d c f r =
     (let dw = data_wrapper c; v = filter_constant f; t = dw_type dw in
      case (bit_at d (dw_validity_mask dw) r, convert_comparison (comparison_type f)) of
        (Inr valid, Inr mode) \<Rightarrow>
          if IsNull v then mode = IS_NULL \<and> \<not> valid \<or> mode = IS_NOT_NULL \<and> valid
          else valid \<and>
            (if ct_id t = C_VARCHAR then
               (case string_at d (dw_data dw) (dw_offset dw) r of
                  Inr s \<Rightarrow> device_comparison_string s (ToString v) mode = Inr True | Inl _ \<Rightarrow> False)
             else (case (scan_data_type D t v, constant_bits t v) of
                 (Inr st, Inr k) \<Rightarrow> (case val_at d (of_nat (scan_size st)) (dw_data dw) r of
                    Inr x \<Rightarrow> compares mode (number_key st x) (number_key st k) | Inl _ \<Rightarrow> False)
               | _ \<Rightarrow> False))
      | _ \<Rightarrow> False)"

text \<open>An expression whose column can be read at every row, whose type is supported and whose mode is a
  comparison.\<close>

definition expr_ready :: "duckdb_env \<Rightarrow> u64 device \<Rightarrow> nat \<Rightarrow> GPUColumn \<Rightarrow> ConstantFilter \<Rightarrow> bool" where
  "expr_ready D d N c f \<longleftrightarrow>
     (let dw = data_wrapper c; v = filter_constant f; t = dw_type dw in
      (\<exists>mode. convert_comparison (comparison_type f) = Inr mode \<and> (IsNull v \<or> mode \<in> six_modes)) \<and>
      (\<exists>bs. cells d (dw_validity_mask dw) = Some (Bits bs) \<and> N \<le> length bs) \<and>
      (IsNull v \<or>
       (\<exists>st. scan_data_type D t v = Inr st \<and>
         (if ct_id t = C_VARCHAR then \<forall>r < N. \<exists>s. string_at d (dw_data dw) (dw_offset dw) r = Inr s
          else (\<exists>k. constant_bits t v = Inr k) \<and>
            (\<exists>xs. cells d (dw_data dw) = Some (Vals (of_nat (scan_size st)) xs) \<and> N \<le> length xs)))))"

lemma scan_data_type_bytes:
  assumes "scan_data_type D t v = Inr st" and "\<not> IsNull v" and "ct_id t \<noteq> C_VARCHAR" and "constant_bits t v = Inr k"
  shows "constant_bytes D t v = Inr (le_bytes (scan_size st) k) \<and> st \<noteq> S_VARCHAR \<and> st \<noteq> S_SQLNULL"
  using assms
  by (cases "ct_id t"; cases "getColumnTypeSize D t")
    (auto simp: scan_data_type_def constant_bytes_def constant_bits_def scan_size_def split: if_splits)

lemma scan_data_type_string:
  "ct_id t = C_VARCHAR \<Longrightarrow> \<not> IsNull v \<Longrightarrow> scan_data_type D t v = Inr S_VARCHAR \<and> constant_bytes D t v = Inr (ToString v)"
  by (simp add: scan_data_type_def constant_bytes_def)

text \<open>The arrays of the launch stand for the expressions.\<close>

definition args_for :: "duckdb_env \<Rightarrow> GPUColumn list \<Rightarrow> ConstantFilter list \<Rightarrow> scan_args \<Rightarrow> bool" where
  "args_for D cs fs a \<longleftrightarrow> length cs = length fs \<and> (\<exists>modes cbs. scan_modes D cs fs = Inr modes \<and>
     scan_constants D cs fs = Inr cbs \<and> a = scan_args_of cs modes cbs \<and> length (concat cbs) < 2 ^ 64)"

lemma expr_flag_passes:
  assumes args: "args_for D cs fs a" and e: "expr < length fs" and ready: "expr_ready D d N (cs ! expr) (fs ! expr)" and r: "r < N"
  shows "expr_flag d a r expr = Inr (passes D d (cs ! expr) (fs ! expr) r)"
proof -
  let ?c = "cs ! expr" and ?f = "fs ! expr"
  let ?dw = "data_wrapper ?c" and ?v = "filter_constant ?f"
  let ?t = "dw_type ?dw"
  obtain modes cbs where len: "length cs = length fs" and modes: "scan_modes D cs fs = Inr modes"
    and cbs: "scan_constants D cs fs = Inr cbs" and a: "a = scan_args_of cs modes cbs"
    and small: "length (concat cbs) < 2 ^ 64" using args by (auto simp: args_for_def)
  have lens: "length modes = length fs" "length cbs = length fs"
    using modes cbs len by (auto simp: scan_modes_def scan_constants_def dest!: res_mapM_length)
  obtain mode st where mode: "convert_comparison (comparison_type ?f) = Inr mode"
    and st: "scan_data_type D ?t ?v = Inr st" "modes ! expr = (mode, st)"
    using res_mapM_nth [OF modes [unfolded scan_modes_def], of expr] e len by (auto simp: res_bind_Inr_iff)
  have cb: "constant_bytes D ?t ?v = Inr (cbs ! expr)"
    using res_mapM_nth [OF cbs [unfolded scan_constants_def], of expr] e len by simp
  obtain bs where bs: "cells d (dw_validity_mask ?dw) = Some (Bits bs)" "N \<le> length bs"
    using ready by (auto simp: expr_ready_def Let_def)
  have bit: "bit_at d (dw_validity_mask ?dw) r = Inr (bs ! r)" using bs r by (simp add: bit_at_def)
  have args: "vec_at (sa_bitmask a) expr = Inr (dw_validity_mask ?dw)" "vec_at (data_type a) expr = Inr st"
    "vec_at (compare_mode a) expr = Inr mode" "vec_at (sa_col a) expr = Inr (dw_data ?dw)"
    "vec_at (sa_offset a) expr = Inr (dw_offset ?dw)"
    "vec_at (constant_offset a) expr = Inr (constant_offsets 0 cbs ! expr)"
    "vec_at (constant_offset a) (Suc expr) = Inr (constant_offsets 0 cbs ! Suc expr)"
    "constant_compare a = concat cbs"
    using e len lens st by (simp_all add: a scan_args_of_def)
  have e': "expr < length cbs" using e lens by simp
  note part = constant_part [OF e' small]
  show ?thesis
  proof (cases "IsNull ?v")
    case True
    then have "st = S_SQLNULL" using st by (simp add: scan_data_type_def)
    then show ?thesis using True mode
      by (auto simp: expr_flag_def args(1-3) bit passes_def Let_def device_comparison_null_def)
  next
    case False
    note ready = ready [unfolded expr_ready_def Let_def]
    have mode6: "mode \<in> six_modes" using ready False mode by auto
    show ?thesis
    proof (cases "ct_id ?t = C_VARCHAR")
      case True
      have st': "st = S_VARCHAR" "cbs ! expr = ToString ?v"
        using scan_data_type_string [OF True False, of D] st cb by simp_all
      obtain s where s: "string_at d (dw_data ?dw) (dw_offset ?dw) r = Inr s" using ready False True r by auto
      obtain b where b: "device_comparison_string s (ToString ?v) mode = Inr b"
        using mode6 string_comparison_total [of mode s "ToString ?v"] by (auto simp: six_modes_def)
      show ?thesis using True False mode s b part(1,2) st'(2)
        by (simp add: expr_flag_def args bit passes_def Let_def st'(1))
    next
      case num: False
      obtain k xs where k: "constant_bits ?t ?v = Inr k"
        and xs: "cells d (dw_data ?dw) = Some (Vals (of_nat (scan_size st)) xs)" "N \<le> length xs"
        using ready False num st(1) by auto
      note sb = scan_data_type_bytes [OF st(1) False num k]
      have x: "val_at d (of_nat (scan_size st)) (dw_data ?dw) r = Inr (xs ! r)" using xs r by (simp add: val_at_def)
      have "copy_number (concat cbs) (constant_offsets 0 cbs ! expr) (scan_size st) =
          Inr (take_bit (8 * scan_size st) k)"
        using part(3) [of "scan_size st"] sb cb by (simp add: le_number_bytes)
      then show ?thesis using False num mode x k st sb
        by (simp add: expr_flag_def args bit passes_def Let_def compare_numbers_keys [OF mode6] number_key_take)
    qed
  qed
qed

lemma row_flag_all:
  assumes "\<And>e. e \<in> set es \<Longrightarrow> expr_flag d a r e = Inr (P e)"
  shows "row_flag d a r es flag = Inr (if es = [] then flag else \<forall>e \<in> set es. P e)"
  using assms by (induction es arbitrary: flag) auto

definition selected_rows :: "duckdb_env \<Rightarrow> u64 device \<Rightarrow> GPUColumn list \<Rightarrow> ConstantFilter list \<Rightarrow> nat \<Rightarrow> nat list" where
  "selected_rows D d cs fs N = filter (\<lambda>r. \<forall>i < length fs. passes D d (cs ! i) (fs ! i) r) [0..<N]"

lemma table_scan_rows:
  assumes args: "args_for D cs fs a" and ready: "\<forall>i < length fs. expr_ready D d N (cs ! i) (fs ! i)" and ne: "fs \<noteq> []"
    and order: "mset order = mset [0..<num_tiles N]" and N: "N < 2 ^ 64"
  shows "\<exists>total rows. table_scan_expression d a N (length fs) order = Inr (total, rows) \<and> unat total = length rows \<and>
    mset rows = mset (map of_nat (selected_rows D d cs fs N))"
proof -
  let ?P = "\<lambda>r. \<forall>i < length fs. passes D d (cs ! i) (fs ! i) r"
  have "row_flag d a r [0..<length fs] False = Inr (?P r)" if "r \<in> set [0..<N]" for r
    using row_flag_all [of "[0..<length fs]" d a r "\<lambda>i. passes D d (cs ! i) (fs ! i) r" False]
      expr_flag_passes [OF args _ _, of _ d N r] ready that ne by auto
  then have flags: "res_mapM (\<lambda>r. row_flag d a r [0..<length fs] False) [0..<N] = Inr (map ?P [0..<N])"
    by (rule res_mapM_Inr_map)
  define flag where "flag = (\<lambda>r. map ?P [0..<N] ! r)"
  let ?out = "\<lambda>r. if flag r then [of_nat r :: u64] else []"
  let ?total = "final_count (row_counts N ?out) order"
  let ?rows = "take (unat ?total) (write_each (kernel_writes (row_counts N ?out) (row_outs N ?out) order) (replicate N 0))"
  have cnt: "row_counts N ?out = row_counts N (\<lambda>r. if flag r then [()] else [])" by (rule row_counts_cong) simp
  note pass = single_pass [where g = "\<lambda>r. of_nat r :: u64", OF order N length_replicate cnt refl]
  have f: "filter flag [0..<N] = selected_rows D d cs fs N"
    unfolding selected_rows_def flag_def by (rule filter_cong) simp_all
  have rows: "?rows = map of_nat (filter flag (arrival_rows N order))" by (rule pass(2))
  then have "mset ?rows = mset (map of_nat (filter flag [0..<N]))" by (simp add: arrival_rows_mset [OF order])
  then have "mset ?rows = mset (map of_nat (selected_rows D d cs fs N))" unfolding f .
  moreover have "unat ?total = length ?rows" unfolding rows using pass(1) by simp
  ultimately show ?thesis by (simp add: table_scan_expression_def flags Let_def flag_def)
qed

lemma string_at_mono:
  assumes "cells d \<subseteq>\<^sub>m cells d'" and "string_at d p q r = Inr s"
  shows "string_at d' p q r = Inr s"
proof -
  have m: "cells d p = Some x \<Longrightarrow> cells d' p = Some x" for p x using assms(1) by (auto simp: map_le_def dom_def)
  obtain bs os where "cells d p = Some (Bytes bs)" "cells d q = Some (Offsets os)"
    using assms(2) by (auto simp: string_at_def split: option.splits darray.splits)
  with m [OF this(1)] m [OF this(2)] assms(2) show ?thesis by (simp add: string_at_def)
qed

lemma expr_ready_mono:
  assumes "cells d \<subseteq>\<^sub>m cells d'" and "expr_ready D d N c f"
  shows "expr_ready D d' N c f"
proof -
  have m: "cells d p = Some x \<Longrightarrow> cells d' p = Some x" for p x using assms(1) by (auto simp: map_le_def dom_def)
  let ?dw = "data_wrapper c"
  note ready = assms(2) [unfolded expr_ready_def Let_def]
  have vals: "\<exists>xs. cells d' p = Some (Vals w xs) \<and> N \<le> length xs"
    if "\<exists>xs. cells d p = Some (Vals w xs) \<and> N \<le> length xs" for p w using that m by blast
  have strs: "\<forall>r < N. \<exists>s. string_at d' p q r = Inr s" if "\<forall>r < N. \<exists>s. string_at d p q r = Inr s" for p q
    using that string_at_mono [OF assms(1)] by blast
  show ?thesis
    unfolding expr_ready_def Let_def
  proof (intro conjI)
    show "\<exists>bs. cells d' (dw_validity_mask ?dw) = Some (Bits bs) \<and> N \<le> length bs" using ready m by blast
    show "IsNull (filter_constant f) \<or> (\<exists>st. scan_data_type D (dw_type ?dw) (filter_constant f) = Inr st \<and>
      (if ct_id (dw_type ?dw) = C_VARCHAR then \<forall>r < N. \<exists>s. string_at d' (dw_data ?dw) (dw_offset ?dw) r = Inr s
       else (\<exists>k. constant_bits (dw_type ?dw) (filter_constant f) = Inr k) \<and>
         (\<exists>xs. cells d' (dw_data ?dw) = Some (Vals (of_nat (scan_size st)) xs) \<and> N \<le> length xs)))"
      using ready vals strs by (cases "ct_id (dw_type ?dw) = C_VARCHAR") (simp, blast)+
  qed (use ready in blast)
qed

lemma passes_mono:
  assumes "cells d \<subseteq>\<^sub>m cells d'" and "expr_ready D d N c f" and "r < N"
  shows "passes D d' c f r \<longleftrightarrow> passes D d c f r"
proof -
  have m: "cells d p = Some x \<Longrightarrow> cells d' p = Some x" for p x using assms(1) by (auto simp: map_le_def dom_def)
  obtain bs where bs: "cells d (dw_validity_mask (data_wrapper c)) = Some (Bits bs)"
    using assms(2) by (auto simp: expr_ready_def Let_def)
  have bit: "bit_at d' (dw_validity_mask (data_wrapper c)) r = bit_at d (dw_validity_mask (data_wrapper c)) r"
    using bs m [OF bs] by (simp add: bit_at_def)
  show ?thesis
  proof (cases "IsNull (filter_constant f)")
    case True
    then show ?thesis by (simp only: passes_def Let_def bit if_True)
  next
    case False
    show ?thesis
    proof (cases "ct_id (dw_type (data_wrapper c)) = C_VARCHAR")
      case True
      then obtain s where "string_at d (dw_data (data_wrapper c)) (dw_offset (data_wrapper c)) r = Inr s"
        using assms(2,3) False by (auto simp: expr_ready_def Let_def)
      with string_at_mono [OF assms(1) this] have "string_at d' (dw_data (data_wrapper c)) (dw_offset (data_wrapper c)) r =
          string_at d (dw_data (data_wrapper c)) (dw_offset (data_wrapper c)) r" by simp
      then show ?thesis by (simp only: passes_def bit Let_def True simp_thms if_True)
    next
      case num: False
      obtain st k xs where "scan_data_type D (dw_type (data_wrapper c)) (filter_constant f) = Inr st"
        and "constant_bits (dw_type (data_wrapper c)) (filter_constant f) = Inr k" and xs: "cells d (dw_data (data_wrapper c)) = Some (Vals (of_nat (scan_size st)) xs)"
        using assms(2) False num by (auto simp: expr_ready_def Let_def)
      moreover from xs have "val_at d' (of_nat (scan_size st)) (dw_data (data_wrapper c)) r =
          val_at d (of_nat (scan_size st)) (dw_data (data_wrapper c)) r" using m [OF xs] by (simp add: val_at_def)
      ultimately show ?thesis by (simp only: passes_def bit Let_def num if_False prod.case sum.case)
    qed
  qed
qed

section \<open>The whole filter\<close>

lemma ends_scan:
  assumes args: "args_for D cs fs a" and ready: "\<forall>i < length fs. expr_ready D d N (cs ! i) (fs ! i)" and ne: "fs \<noteq> []"
    and order: "mset order = mset [0..<num_tiles N]" and N: "N < 2 ^ 64"
  shows "ends (holding rmm d ps) (\<lambda>s. (table_scan_expression s a N (length fs) order, s))
    (\<lambda>(total, rows) s. holding rmm d ps s \<and> unat total = length rows \<and>
      mset rows = mset (map of_nat (selected_rows D d cs fs N)))"
  unfolding ends_def
proof (intro allI impI)
  fix s r s' assume h: "holding rmm d ps s" and m: "(table_scan_expression s a N (length fs) order, s) = (r, s')"
  have sub: "cells d \<subseteq>\<^sub>m cells s" using h by (simp add: holding_def)
  have ready': "\<forall>i < length fs. expr_ready D s N (cs ! i) (fs ! i)" using ready expr_ready_mono [OF sub] by blast
  have "selected_rows D s cs fs N = selected_rows D d cs fs N"
  proof -
    have "passes D s (cs ! i) (fs ! i) r \<longleftrightarrow> passes D d (cs ! i) (fs ! i) r" if "i < length fs" "r < N" for i r
      by (rule passes_mono [OF sub ready [rule_format, OF that(1)] that(2)])
    then show ?thesis unfolding selected_rows_def by (intro filter_cong) auto
  qed
  then show "case r of Inl e \<Rightarrow> out_of_memory e | Inr x \<Rightarrow> (case x of (n, rows) \<Rightarrow> \<lambda>s. holding rmm d ps s \<and>
      unat n = length rows \<and> mset rows = mset (map of_nat (selected_rows D d cs fs N))) s'"
    using table_scan_rows [OF args ready' ne order N] m h by auto
qed

lemma ends_weaken: "ends P m Q \<Longrightarrow> (\<And>x s. Q x s \<Longrightarrow> Q' x s) \<Longrightarrow> ends P m Q'"
  unfolding ends_def by (fastforce split: sum.splits)

lemma ends_lift_bind: "r = Inr x \<Longrightarrow> ends P (k x) R \<Longrightarrow> ends P (act_bind (act_lift r) k) R"
  by (simp add: ends_def act_bind_def act_basic)

lemma ends_assume: "(\<And>s. P s \<Longrightarrow> C) \<Longrightarrow> (C \<Longrightarrow> ends P m Q) \<Longrightarrow> ends P m Q"
  by (auto simp: ends_def)

text \<open>Freeing the temporary arrays one by one.\<close>

lemma ends_free_next:
  assumes "ends (\<lambda>s. holding rmm d (remove1 p ps) s \<and> cells s q = a) k Q" and "p \<in> set ps" and "p \<noteq> q"
  shows "ends (\<lambda>s. holding rmm d ps s \<and> cells s q = a) (act_bind (dev_free p) (\<lambda>_. k)) Q"
  by (rule ends_bind [OF ends_free [OF assms(2,3)] assms(1)])

lemma ends_cleanup:
  assumes "distinct [n, c, b, off, col, dt, cm, co, cc]"
  shows "ends (\<lambda>s. holding rmm d [n, c, b, off, col, dt, cm, co, cc] s)
    (act_bind (dev_write n (RowIds rows)) (\<lambda>_. act_bind (dev_host_alloc 8 1) (\<lambda>_. act_bind (dev_free c) (\<lambda>_.
     act_bind (dev_free col) (\<lambda>_. act_bind (dev_free off) (\<lambda>_. act_bind (dev_free cc) (\<lambda>_. act_bind (dev_free co) (\<lambda>_.
     act_bind (dev_free cm) (\<lambda>_. act_bind (dev_free dt) (\<lambda>_. act_return (n, tot)))))))))))
    (\<lambda>x s. x = (n, tot) \<and> holding rmm d [n, b] s \<and> cells s n = Some (RowIds rows))"
proof (rule ends_bind [OF ends_write])
  show "n \<in> set [n, c, b, off, col, dt, cm, co, cc]" by simp
  note frees = ends_free_next [rotated]
  show "ends (\<lambda>s. holding rmm d [n, c, b, off, col, dt, cm, co, cc] s \<and> cells s n = Some (RowIds rows))
    (act_bind (dev_host_alloc 8 1) (\<lambda>_. act_bind (dev_free c) (\<lambda>_.
     act_bind (dev_free col) (\<lambda>_. act_bind (dev_free off) (\<lambda>_. act_bind (dev_free cc) (\<lambda>_. act_bind (dev_free co) (\<lambda>_.
     act_bind (dev_free cm) (\<lambda>_. act_bind (dev_free dt) (\<lambda>_. act_return (n, tot))))))))))
    (\<lambda>x s. x = (n, tot) \<and> holding rmm d [n, b] s \<and> cells s n = Some (RowIds rows))" for x :: unit
  proof (rule ends_bind [OF ends_host_alloc_keeps])
    show "ends (\<lambda>s. holding rmm d [n, c, b, off, col, dt, cm, co, cc] s \<and> cells s n = Some (RowIds rows))
      (act_bind (dev_free c) (\<lambda>_. act_bind (dev_free col) (\<lambda>_. act_bind (dev_free off) (\<lambda>_.
       act_bind (dev_free cc) (\<lambda>_. act_bind (dev_free co) (\<lambda>_. act_bind (dev_free cm) (\<lambda>_. act_bind (dev_free dt) (\<lambda>_.
       act_return (n, tot))))))))) (\<lambda>x s. x = (n, tot) \<and> holding rmm d [n, b] s \<and> cells s n = Some (RowIds rows))" for y :: ptr
      using assms by (intro ends_free_next ends_return) auto
  qed
qed

lemma tableScanExpression_ends:
  assumes args: "args_for D cs fs a" and ready: "\<forall>i < length fs. expr_ready D d N (cs ! i) (fs ! i)" and ne: "fs \<noteq> []"
    and order: "\<forall>n. mset (arrival n) = mset [0..<n]" and N: "0 < N" "N < 2 ^ 64"
  shows "ends (holding rmm d []) (tableScanExpression rmm arrival a ids N (length fs))
    (\<lambda>(new_ids, total) s. \<exists>rows leaked. holding rmm d [new_ids, leaked] s \<and> cells s new_ids = Some (RowIds rows) \<and>
      length rows = unat total \<and> mset rows = mset (map of_nat (selected_rows D d cs fs N)))"
proof -
  have no: "\<not> N = 0" using N by simp
  obtain size where size: "vec_at (constant_offset a) (length fs) = Inr size"
    using args by (auto simp: args_for_def scan_args_of_def scan_constants_def dest!: res_mapM_length)
  note scan = ends_scan [OF args ready ne order [rule_format] N(2)]
  show ?thesis
    unfolding tableScanExpression_def if_not_P [OF no]
    apply (rule ends_bind [OF ends_lift [OF size, where Q = "\<lambda>_. holding rmm d []"]], assumption)
    apply (rule ends_bind [OF ends_malloc])+
    apply (rule ends_bind [OF scan])
    apply (simp only: split_paired_all prod.case)
    subgoal for _ cc co cm dt col off b c n tot rows
    proof (rule ends_assume)
      fix s assume h: "holding rmm d [n, c, b, off, col, dt, cm, co, cc] s \<and> unat tot = length rows \<and>
        mset rows = mset (map of_nat (selected_rows D d cs fs N))"
      then show "distinct [n, c, b, off, col, dt, cm, co, cc] \<and> unat tot = length rows \<and>
        mset rows = mset (map of_nat (selected_rows D d cs fs N))" by (simp only: holding_def)
    next
      assume C: "distinct [n, c, b, off, col, dt, cm, co, cc] \<and> unat tot = length rows \<and>
        mset rows = mset (map of_nat (selected_rows D d cs fs N))"
      show ?thesis
        by (rule ends_weaken, rule ends_strengthen, rule ends_cleanup, rule conjunct1 [OF C]) (use C in auto)
    qed
    done
qed

lemma res_mapM_exists: "(\<And>x. x \<in> set xs \<Longrightarrow> \<exists>y. f x = Inr y) \<Longrightarrow> \<exists>ys. res_mapM f xs = Inr ys"
  by (rule exI [of _ "map (\<lambda>x. projr (f x)) xs"]) (rule res_mapM_Inr_map, fastforce)

lemma ready_args:
  assumes "length cs = length fs" and ready: "\<forall>i < length fs. expr_ready D d N (cs ! i) (fs ! i)"
  shows "\<exists>modes. scan_modes D cs fs = Inr modes" and "\<exists>bs. scan_constants D cs fs = Inr bs"
proof -
  have each: "expr_ready D d N c f" if "(c, f) \<in> set (zip cs fs)" for c f
    using that ready assms(1) by (auto simp: in_set_zip)
  show "\<exists>modes. scan_modes D cs fs = Inr modes"
    unfolding scan_modes_def
  proof (rule res_mapM_exists)
    fix x assume x: "x \<in> set (zip cs fs)"
    obtain c f where cf: "x = (c, f)" by (cases x)
    note r = each [OF x [unfolded cf], unfolded expr_ready_def Let_def]
    have "\<exists>st. scan_data_type D (dw_type (data_wrapper c)) (filter_constant f) = Inr st"
      using r by (auto simp: scan_data_type_def)
    then show "\<exists>y. (case x of (c, f) \<Rightarrow> res_bind (convert_comparison (comparison_type f)) (\<lambda>mode.
        res_bind (scan_data_type D (dw_type (data_wrapper c)) (filter_constant f)) (\<lambda>t. Inr (mode, t)))) = Inr y"
      using r cf by auto
  qed
  show "\<exists>bs. scan_constants D cs fs = Inr bs"
    unfolding scan_constants_def
  proof (rule res_mapM_exists)
    fix x assume x: "x \<in> set (zip cs fs)"
    obtain c f where cf: "x = (c, f)" by (cases x)
    note r = each [OF x [unfolded cf], unfolded expr_ready_def Let_def]
    show "\<exists>y. (case x of (c, f) \<Rightarrow> constant_bytes D (dw_type (data_wrapper c)) (filter_constant f)) = Inr y"
    proof (cases "IsNull (filter_constant f) \<or> ct_id (dw_type (data_wrapper c)) = C_VARCHAR")
      case True
      then show ?thesis using cf by (auto simp: constant_bytes_def)
    next
      case False
      then obtain st k where "scan_data_type D (dw_type (data_wrapper c)) (filter_constant f) = Inr st"
        "constant_bits (dw_type (data_wrapper c)) (filter_constant f) = Inr k" using r by auto
      with False show ?thesis using scan_data_type_bytes [of D _ "filter_constant f" st k] cf by auto
    qed
  qed
qed

lemma HandleArbitraryConstantExpression_ends:
  assumes len: "length cs = length fs" and ne: "fs \<noteq> []" and N: "N = unat (column_length (cs ! 0))"
    and ready: "\<forall>i < length fs. expr_ready D d N (cs ! i) (fs ! i)"
    and small: "\<forall>bs. scan_constants D cs fs = Inr bs \<longrightarrow> length (concat bs) < 2 ^ 64"
    and arrival: "\<forall>n. mset (arrival n) = mset [0..<n]"
  shows "ends (holding rmm d []) (HandleArbitraryConstantExpression D rmm arrival cs ids fs)
    (\<lambda>(out, n) s. if N = 0 then out = ids \<and> n = 0 \<and> holding rmm d [] s else
       \<exists>rows leaked. holding rmm d [out, leaked] s \<and> cells s out = Some (RowIds rows) \<and> length rows = unat n \<and>
         mset rows = mset (map of_nat (selected_rows D d cs fs N)))"
proof -
  obtain modes bs where modes: "scan_modes D cs fs = Inr modes" and bs: "scan_constants D cs fs = Inr bs"
    using ready_args [OF len ready] by blast
  have args: "args_for D cs fs (scan_args_of cs modes bs)" using modes bs len small by (auto simp: args_for_def)
  have c: "vec_at cs 0 = Inr (cs ! 0)" using len ne by simp
  have N64: "N < 2 ^ 64" unfolding N using unat_bound_u64 by simp
  note hosts = ends_bind [OF ends_host_alloc]
  have six: "ends (holding rmm d []) (act_mapM (\<lambda>(sz, n). dev_host_alloc sz n) xs) (\<lambda>_. holding rmm d [])" for xs
  proof (induction xs)
    case (Cons x xs)
    obtain sz n where "x = (sz, n)" by (cases x)
    then show ?case using Cons by (simp, intro ends_bind [OF ends_host_alloc] ends_bind [OF Cons] ends_return)
  qed (simp, rule ends_return)
  show ?thesis
    unfolding HandleArbitraryConstantExpression_def Let_def
  proof (rule ends_bind [OF six], rule ends_lift_bind [OF modes], rule ends_bind [OF ends_host_alloc],
      rule ends_lift_bind [OF bs], rule ends_lift_bind [OF c], fold N)
    show "ends (holding rmm d []) (tableScanExpression rmm arrival (scan_args_of cs modes bs) ids N (length fs))
      (\<lambda>(out, n) s. if N = 0 then out = ids \<and> n = 0 \<and> holding rmm d [] s else
         \<exists>rows leaked. holding rmm d [out, leaked] s \<and> cells s out = Some (RowIds rows) \<and> length rows = unat n \<and>
           mset rows = mset (map of_nat (selected_rows D d cs fs N)))"
    proof (cases "N = 0")
      case True
      then show ?thesis
        by (simp add: tableScanExpression_def) (rule ends_bind [OF ends_host_alloc], rule ends_return, simp add: holding_def)
    next
      case False
      then have "0 < N" by simp
      show ?thesis
        by (rule ends_weaken [OF tableScanExpression_ends [OF args ready ne arrival \<open>0 < N\<close> N64]]) (use False in auto)
    qed
  qed
qed

text \<open>C30: the filter of a table scan, when memory suffices, yields exactly the rows for which every
  expression holds, each once, in a new array, for every order of arrival of the thread blocks; the
  constants survive their trip through the byte buffer, a NULL in the row or in the constant makes a
  comparison false, and no array of the scan's columns changes.\<close>

theorem scan_filter_selects:
  assumes "dev_wf rmm d" and "length cs = length fs" and "fs \<noteq> []" and "N = unat (column_length (cs ! 0))"
    and "\<forall>i < length fs. expr_ready D d N (cs ! i) (fs ! i)"
    and "\<forall>bs. scan_constants D cs fs = Inr bs \<longrightarrow> length (concat bs) < 2 ^ 64"
    and "\<forall>n. mset (arrival n) = mset [0..<n]"
    and "HandleArbitraryConstantExpression D rmm arrival cs ids fs d = (r, d')"
  shows "(\<exists>e. r = Inl e \<and> out_of_memory e) \<or>
    (\<exists>out n. r = Inr (out, n) \<and> cells d \<subseteq>\<^sub>m cells d' \<and>
       (if N = 0 then out = ids \<and> n = 0
        else \<exists>rows. out \<notin> dom (cells d) \<and> cells d' out = Some (RowIds rows) \<and> length rows = unat n \<and>
          mset rows = mset (map of_nat (selected_rows D d cs fs N))))"
  using endsD [OF HandleArbitraryConstantExpression_ends [OF assms(2-7)] holding_start [OF assms(1)] assms(8)]
  by (auto simp: holding_def split: if_splits)

text \<open>Four values of an \<open>INT32\<close> column, the third NULL; 15 < value.\<close>

definition scan_device :: "u64 device" where
  "scan_device = \<lparr>mgr = small_manager, cells = [0x20000 \<mapsto> Vals 4 [10, 20, 30, 40], 0x20100 \<mapsto> Bits [True, True, False, True]]\<rparr>"

definition scan_column :: GPUColumn where
  "scan_column = \<lparr>data_wrapper = \<lparr>dw_type = ColumnType C_INT32, dw_data = 0x20000, dw_size = 4,
     dw_offset = nullptr, dw_num_bytes = 16, dw_is_string_data = False, dw_validity_mask = 0x20100,
     dw_mask_bytes = 64\<rparr>, row_ids = nullptr, row_id_count = None, column_length = 4, is_unique = False\<rparr>"

definition above_15 :: ConstantFilter where
  "above_15 = \<lparr>comparison_type = COMPARE_GREATERTHAN,
     filter_constant = \<lparr>IsNull = False, GetValue = (\<lambda>t. Inr 15), GetValueUnsafe = 15, ToString = [0x31, 0x35]\<rparr>\<rparr>"

lemma scan_device_wf: "dev_wf bump_pool scan_device"
proof -
  have "rmm_outside bump_pool small_manager"
    unfolding rmm_outside_def
  proof (intro allI impI)
    fix live n p assume "bump_pool live n = Some p"
    then have "p < 0x10000" by (rule bump_pool_below)
    then show "\<not> in_cache_region small_manager p"
      by (simp add: in_cache_region_def small_manager_def GPUBufferManager_new_def word_le_nat_alt word_less_nat_alt)
  qed
  moreover have "pool_wf small_manager" unfolding small_manager_def by (rule pool_wf_new)
  moreover have "in_cache_region small_manager 0x20000" "in_cache_region small_manager 0x20100" by code_simp+
  ultimately show ?thesis using bump_pool_fresh by (auto simp: dev_wf_def scan_device_def)
qed

theorem scan_filter_selects_witness:
  "\<exists>r d'. HandleArbitraryConstantExpression duckdb_documented bump_pool (\<lambda>n. [0..<n]) [scan_column] nullptr [above_15] scan_device = (r, d') \<and>
    ((\<exists>e. r = Inl e \<and> out_of_memory e) \<or>
     (\<exists>out rows. r = Inr (out, 2) \<and> cells d' out = Some (RowIds rows) \<and> mset rows = {#1, 3#}))"
proof -
  obtain r d' where m: "HandleArbitraryConstantExpression duckdb_documented bump_pool (\<lambda>n. [0..<n]) [scan_column] nullptr [above_15] scan_device = (r, d')"
    by (cases "HandleArbitraryConstantExpression duckdb_documented bump_pool (\<lambda>n. [0..<n]) [scan_column] nullptr [above_15] scan_device")
  have ready: "expr_ready duckdb_documented scan_device 4 scan_column above_15"
    by (simp add: expr_ready_def scan_device_def scan_column_def above_15_def convert_comparison_def six_modes_def
        scan_data_type_def ColumnType_def scan_size_def constant_bits_def)
  have p: "passes duckdb_documented scan_device scan_column above_15 i \<longleftrightarrow> [False, True, False, True] ! i" if "i < 4" for i
  proof -
    have "i \<in> set [0..<4]" using that by simp
    moreover have "\<forall>i \<in> set [0..<4]. passes duckdb_documented scan_device scan_column above_15 i \<longleftrightarrow> [False, True, False, True] ! i"
      by code_simp
    ultimately show ?thesis by blast
  qed
  have sel: "selected_rows duckdb_documented scan_device [scan_column] [above_15] 4 = [1, 3]"
    by (simp add: selected_rows_def p upt_conv_Cons)
  have n: "unat (column_length ([scan_column] ! 0)) = 4" by (simp add: scan_column_def)
  have bytes: "\<forall>bs. scan_constants duckdb_documented [scan_column] [above_15] = Inr bs \<longrightarrow> length (concat bs) < 2 ^ 64"
    by (simp add: scan_constants_def scan_column_def above_15_def constant_bytes_def ColumnType_def)
  have "(\<exists>e. r = Inl e \<and> out_of_memory e) \<or>
    (\<exists>out n. r = Inr (out, n) \<and> cells scan_device \<subseteq>\<^sub>m cells d' \<and>
       (if (4 :: nat) = 0 then out = nullptr \<and> n = 0
        else \<exists>rows. out \<notin> dom (cells scan_device) \<and> cells d' out = Some (RowIds rows) \<and> length rows = unat n \<and>
          mset rows = mset (map of_nat (selected_rows duckdb_documented scan_device [scan_column] [above_15] 4))))"
    by (rule scan_filter_selects [OF scan_device_wf _ _ n [symmetric] _ bytes _ m]) (use ready in simp_all)
  moreover have "n = 2" if "length rows = unat n" "mset rows = {#1, 3#}" for rows :: "u64 list" and n :: u64
  proof -
    have "unat n = 2" using that by (metis numeral_2_eq_2 size_add_mset size_empty size_mset)
    then show ?thesis by (simp add: word_unat_eq_iff)
  qed
  ultimately show ?thesis using m by (auto simp: sel)
qed

end
