(* ===== verification/Table_Scan.thy ===== *)
theory Table_Scan
  imports Scan_Filter
begin

text \<open>
  The table scan over the cached columns (\<open>GPUPhysicalTableScan::GetData\<close> in
  \<open>src/src/operator/gpu_physical_table_scan.cpp\<close>): looking up the table and its columns, collecting
  the comparisons of the pushed-down filters, running the filter and emitting the projected columns with
  the row ids it selected.  DuckDB's filter objects are a datatype with the filter types the code names.
\<close>

section \<open>The operator\<close>

datatype TableFilter =
    OPTIONAL_FILTER | IS_NOT_NULL_FILTER | CONSTANT_COMPARISON ConstantFilter | CONJUNCTION_AND "TableFilter list"
  | OTHER_FILTER nat

record GPUPhysicalTableScan =
  ts_types :: "LogicalType list"
  ts_table :: string
  ts_column_ids :: "nat list"
  ts_projection_ids :: "nat list"
  ts_names :: "string list"
  table_filters :: "(nat \<times> TableFilter) list option"
  filter_prune :: bool
  gen_row_id_column :: bool

text \<open>The column ids without the one that asks for a row id column.\<close>

definition scanned_ids :: "GPUPhysicalTableScan \<Rightarrow> nat list" where
  "scanned_ids op = take (length (ts_column_ids op) - of_bool (gen_row_id_column op)) (ts_column_ids op)"

section \<open>Collecting the comparisons\<close>

definition and_child :: "TableFilter \<Rightarrow> ConstantFilter list res" where
  "and_child f = (case f of
     CONSTANT_COMPARISON c \<Rightarrow> Inr [c]
   | IS_NOT_NULL_FILTER \<Rightarrow> Inr []
   | OPTIONAL_FILTER \<Rightarrow> Inr []
   | _ \<Rightarrow> Inl (NotImplementedException ''Filter type not supported''))"

definition filter_exprs :: "TableFilter \<Rightarrow> ConstantFilter list res" where
  "filter_exprs f = (case f of
     OPTIONAL_FILTER \<Rightarrow> Inr []
   | CONJUNCTION_AND fs \<Rightarrow> res_bind (res_mapM and_child fs) (\<lambda>css. Inr (concat css))
   | CONSTANT_COMPARISON c \<Rightarrow> Inr [c]
   | _ \<Rightarrow> Inl (NotImplementedException ''Filter aside from constant comparison not supported''))"

definition update_table :: "string \<Rightarrow> GPUIntermediateRelation \<Rightarrow> u64 device \<Rightarrow> u64 device" where
  "update_table tn t d = d\<lparr>mgr := (mgr d)\<lparr>tables := AList.update tn t (tables (mgr d))\<rparr>\<rparr>"

definition the_table :: "string \<Rightarrow> u64 device \<Rightarrow> GPUIntermediateRelation res" where
  "the_table tn d = (case map_of (tables (mgr d)) tn of Some t \<Rightarrow> Inr t
     | None \<Rightarrow> Inl (InvalidInputException ''Table not found''))"

text \<open>The first loop over the filters: a filtered column forgets its row ids; the comparisons are counted
  and unsupported filters refused.\<close>

fun count_filters :: "GPUPhysicalTableScan \<Rightarrow> string \<Rightarrow> (nat \<times> TableFilter) list \<Rightarrow> nat \<Rightarrow> (u64 device, nat) act" where
  "count_filters op tn [] num_expr = act_return num_expr"
| "count_filters op tn ((column_index, f) # fs) num_expr =
     act_bind (act_lift (vec_at (ts_column_ids op) column_index)) (\<lambda>i.
     act_bind (\<lambda>d. (res_bind (the_table tn d) (\<lambda>t. res_bind (column_at t i) (\<lambda>c. Inr (t, c))), d)) (\<lambda>(t, c).
     act_bind (act_modify (update_table tn (t\<lparr>columns := (columns t)[i := Some (c\<lparr>row_ids := nullptr, row_id_count := Some 0\<rparr>)]\<rparr>))) (\<lambda>_.
     if f = OPTIONAL_FILTER \<or> \<not> column_index < length (ts_names op) then count_filters op tn fs num_expr
     else act_bind (act_lift (filter_exprs f)) (\<lambda>es. count_filters op tn fs (num_expr + length es)))))"

text \<open>The second loop pairs each comparison with its column.\<close>

fun collect_filters ::
  "GPUPhysicalTableScan \<Rightarrow> GPUIntermediateRelation \<Rightarrow> (nat \<times> TableFilter) list \<Rightarrow> (GPUColumn \<times> ConstantFilter) list res" where
  "collect_filters op t [] = Inr []"
| "collect_filters op t ((column_index, f) # fs) =
     (if f = OPTIONAL_FILTER \<or> \<not> column_index < length (ts_names op) then collect_filters op t fs
      else res_bind (filter_exprs f) (\<lambda>es. res_bind (vec_at (ts_column_ids op) column_index) (\<lambda>i.
           res_bind (column_at t i) (\<lambda>c. res_bind (collect_filters op t fs) (\<lambda>rest.
           Inr (map (Pair c) es @ rest))))))"

definition run_filters ::
  "duckdb_env \<Rightarrow> rmm_pool \<Rightarrow> (nat \<Rightarrow> nat list) \<Rightarrow> GPUPhysicalTableScan \<Rightarrow> string \<Rightarrow> (u64 device, ptr \<times> u64 option) act" where
  "run_filters D rmm arrival op tn = (case table_filters op of
     None \<Rightarrow> act_return (nullptr, None)
   | Some fs \<Rightarrow> act_bind (count_filters op tn fs 0) (\<lambda>num_expr.
       act_bind (dev_host_alloc 8 (of_nat num_expr)) (\<lambda>_.
       act_bind (\<lambda>d. (res_bind (the_table tn d) (\<lambda>t. collect_filters op t fs), d)) (\<lambda>exprs.
       if 0 < num_expr then
         act_bind (HandleArbitraryConstantExpression D rmm arrival (map fst exprs) nullptr (map snd exprs))
           (\<lambda>(ids, n). act_return (ids, Some n))
       else act_return (nullptr, None)))))"

section \<open>Emitting the columns\<close>

text \<open>Which columns of the table go to the output.  With a row id column the loop bound
  \<open>projection_ids.size() - 1\<close> wraps around when there are no projection ids.\<close>

definition projected_ids :: "GPUPhysicalTableScan \<Rightarrow> nat list res" where
  "projected_ids op =
     (if filter_prune op then
        (if ts_projection_ids op = [] then
           (if gen_row_id_column op then Inl (UndefinedBehaviour ''vector index'') else Inr (scanned_ids op))
         else res_mapM (vec_at (ts_column_ids op))
           (take (length (ts_projection_ids op) - of_bool (gen_row_id_column op)) (ts_projection_ids op)))
      else Inr (scanned_ids op))"

definition emit_column :: "duckdb_env \<Rightarrow> GPUIntermediateRelation \<Rightarrow> ptr \<Rightarrow> u64 option \<Rightarrow> nat \<Rightarrow> GPUColumn res" where
  "emit_column D t ids n i =
     res_bind (column_at t i) (\<lambda>c. let dw = data_wrapper c in
     res_bind (GPUColumn_string D (column_length c) (dw_type dw) (dw_data dw) (dw_offset dw) (dw_num_bytes dw)
       (dw_is_string_data dw) (dw_validity_mask dw)) (\<lambda>out.
     Inr (out\<lparr>is_unique := is_unique c, row_ids := (if ids \<noteq> nullptr then ids else row_ids out),
             row_id_count := (case n of Some k \<Rightarrow> Some k | None \<Rightarrow> row_id_count out)\<rparr>)))"

fun emit_columns ::
  "duckdb_env \<Rightarrow> GPUIntermediateRelation \<Rightarrow> ptr \<Rightarrow> u64 option \<Rightarrow> nat \<Rightarrow> nat list \<Rightarrow> GPUIntermediateRelation \<Rightarrow>
    GPUIntermediateRelation res" where
  "emit_columns D t ids n index [] out = Inr out"
| "emit_columns D t ids n index (i # is) out =
     res_bind (emit_column D t ids n i) (\<lambda>c. res_bind (set_column index c out) (emit_columns D t ids n (Suc index) is))"

definition emit_row_ids :: "duckdb_env \<Rightarrow> rmm_pool \<Rightarrow> ptr \<Rightarrow> u64 option \<Rightarrow> GPUIntermediateRelation \<Rightarrow>
    (u64 device, GPUIntermediateRelation) act" where
  "emit_row_ids D rmm ids n out =
     (if column_count out < 2 then
        act_throw (InternalException ''Should have at least one data column to generate row_id column'')
      else act_bind (act_lift (column_at out 0)) (\<lambda>c0. let num_rows = column_length c0 in
        act_bind (dev_malloc rmm 1 (num_rows * 8)) (\<lambda>data.
        act_bind (dev_write data (Vals 8 (map of_nat [0..<unat num_rows]))) (\<lambda>_.
        act_bind (act_lift (GPUColumn_string D num_rows (ColumnType C_INT64) data nullptr (num_rows * 8) False nullptr)) (\<lambda>c.
        act_lift (set_column (length (columns out) - 1)
          (c\<lparr>is_unique := True, row_ids := (if ids \<noteq> nullptr then ids else row_ids c),
             row_id_count := (case n of Some k \<Rightarrow> Some k | None \<Rightarrow> row_id_count c)\<rparr>) out))))))"

definition TableScan_GetData ::
  "duckdb_env \<Rightarrow> rmm_pool \<Rightarrow> (nat \<Rightarrow> nat list) \<Rightarrow> GPUPhysicalTableScan \<Rightarrow> GPUIntermediateRelation \<Rightarrow>
    (u64 device, GPUIntermediateRelation) act" where
  "TableScan_GetData D rmm arrival op output_relation =
     (let tn = string_toupper (ts_table op) in
      if length (columns output_relation) \<noteq> length (ts_types op)
      then act_throw (InvalidInputException ''Mismatched column count'')
      else act_bind (\<lambda>d. (the_table tn d, d)) (\<lambda>table.
        act_bind (act_mapM (\<lambda>i. act_bind (act_lift (vec_at (ts_names op) i)) (\<lambda>name.
          if string_toupper name \<notin> set (column_names table) then act_throw (InvalidInputException ''Column not found'')
          else act_lift (vec_at (column_names table) i))) (scanned_ids op)) (\<lambda>_.
        act_bind (run_filters D rmm arrival op tn) (\<lambda>(ids, n).
        act_bind (\<lambda>d. (res_bind (the_table tn d) (\<lambda>t. res_bind (projected_ids op) (\<lambda>is.
          emit_columns D t ids n 0 is output_relation)), d)) (\<lambda>out.
        if gen_row_id_column op then emit_row_ids D rmm ids n out else act_return out)))))"

section \<open>What a scan returns\<close>

text \<open>The scan resets the row ids of cached columns, which nothing else of a column depends on.\<close>

definition same_table :: "GPUIntermediateRelation \<Rightarrow> GPUIntermediateRelation \<Rightarrow> bool" where
  "same_table t t' \<longleftrightarrow> column_names t' = column_names t \<and> length (columns t') = length (columns t) \<and>
     (\<forall>i < length (columns t). \<forall>c. columns t ! i = Some c \<longrightarrow> (\<exists>c'. columns t' ! i = Some c' \<and>
        data_wrapper c' = data_wrapper c \<and> column_length c' = column_length c \<and> is_unique c' = is_unique c))"

lemma same_table_refl: "same_table t t"
  by (simp add: same_table_def)

lemma same_table_reset:
  assumes "same_table t t'" and "column_at t' i = Inr c"
  shows "same_table t (t'\<lparr>columns := (columns t')[i := Some (c\<lparr>row_ids := nullptr, row_id_count := Some 0\<rparr>)]\<rparr>)"
  using assms unfolding same_table_def column_at_Inr_iff by (auto simp: nth_list_update)

lemma same_table_at:
  "same_table t t' \<Longrightarrow> column_at t i = Inr c \<Longrightarrow> \<exists>c'. column_at t' i = Inr c' \<and>
     data_wrapper c' = data_wrapper c \<and> column_length c' = column_length c \<and> is_unique c' = is_unique c"
  unfolding same_table_def column_at_Inr_iff by auto

lemma passes_wrapper: "data_wrapper c' = data_wrapper c \<Longrightarrow> passes D d c' f r = passes D d c f r"
  by (simp add: passes_def)

lemma expr_ready_wrapper: "data_wrapper c' = data_wrapper c \<Longrightarrow> expr_ready D d N c' f = expr_ready D d N c f"
  by (simp add: expr_ready_def)

definition exprs_of :: "TableFilter \<Rightarrow> ConstantFilter list" where
  "exprs_of f = (case filter_exprs f of Inr es \<Rightarrow> es | Inl _ \<Rightarrow> [])"

text \<open>Filters whose columns are cached and readable at \<open>L\<close> rows, and the rows they let through.\<close>

definition filter_ready ::
  "duckdb_env \<Rightarrow> u64 device \<Rightarrow> GPUPhysicalTableScan \<Rightarrow> GPUIntermediateRelation \<Rightarrow> nat \<Rightarrow> nat \<times> TableFilter \<Rightarrow> bool" where
  "filter_ready D d op t L = (\<lambda>(ci, f). ci < length (ts_column_ids op) \<and> ci < length (ts_names op) \<and>
     (\<exists>c. column_at t (ts_column_ids op ! ci) = Inr c \<and> unat (column_length c) = L \<and>
       (\<exists>es. filter_exprs f = Inr es \<and> (\<forall>e \<in> set es. expr_ready D d L c e))))"

definition filter_holds ::
  "duckdb_env \<Rightarrow> u64 device \<Rightarrow> GPUPhysicalTableScan \<Rightarrow> GPUIntermediateRelation \<Rightarrow> nat \<Rightarrow> nat \<times> TableFilter \<Rightarrow> bool" where
  "filter_holds D d op t r = (\<lambda>(ci, f). \<forall>e \<in> set (exprs_of f).
     case column_at t (ts_column_ids op ! ci) of Inr c \<Rightarrow> passes D d c e r | Inl _ \<Rightarrow> False)"

definition has_table :: "string \<Rightarrow> GPUIntermediateRelation \<Rightarrow> u64 device \<Rightarrow> bool" where
  "has_table tn t s \<longleftrightarrow> (\<exists>t'. map_of (tables (mgr s)) tn = Some t' \<and> same_table t t')"

lemma dev_wf_tables: "dev_wf rmm s \<Longrightarrow> dev_wf rmm (update_table tn t s)"
  by (simp add: dev_wf_def update_table_def rmm_outside_def pool_wf_def owned_def in_cache_region_def)

definition all_exprs :: "(nat \<times> TableFilter) list \<Rightarrow> ConstantFilter list" where
  "all_exprs fs = concat (map (\<lambda>x. exprs_of (snd x)) fs)"

lemma count_filters_ends:
  assumes "\<forall>x \<in> set fs. filter_ready D d op t L x"
  shows "ends (\<lambda>s. dev_wf rmm s \<and> cells s = cells d \<and> has_table tn t s) (count_filters op tn fs k)
    (\<lambda>n s. n = k + length (all_exprs fs) \<and> dev_wf rmm s \<and> cells s = cells d \<and> has_table tn t s)"
  using assms
proof (induction fs arbitrary: k)
  case Nil
  show ?case by (auto intro!: ends_return simp: all_exprs_def)
next
  case (Cons x fs)
  obtain ci f where x: "x = (ci, f)" by (cases x)
  obtain c es where c: "ci < length (ts_column_ids op)" "ci < length (ts_names op)" "column_at t (ts_column_ids op ! ci) = Inr c"
    and es: "filter_exprs f = Inr es" using Cons.prems x by (auto simp: filter_ready_def)
  let ?i = "ts_column_ids op ! ci" and ?P = "\<lambda>s. dev_wf rmm s \<and> cells s = cells d \<and> has_table tn t s"
  have ex: "exprs_of f = es" using es by (simp add: exprs_of_def)
  have read: "ends ?P (\<lambda>d. (res_bind (the_table tn d) (\<lambda>t. res_bind (column_at t ?i) (\<lambda>c. Inr (t, c))), d))
      (\<lambda>(t', c') s. ?P s \<and> same_table t t' \<and> column_at t' ?i = Inr c')"
    unfolding ends_def using same_table_at [OF _ c(3)]
    by (fastforce simp: has_table_def the_table_def split: sum.splits)
  have reset: "ends (\<lambda>s. ?P s \<and> same_table t t' \<and> column_at t' ?i = Inr c')
      (act_modify (update_table tn (t'\<lparr>columns := (columns t')[?i := Some (c'\<lparr>row_ids := nullptr, row_id_count := Some 0\<rparr>)]\<rparr>)))
      (\<lambda>_. ?P)" for t' c'
    unfolding ends_def
    by (auto simp: act_basic dev_wf_tables has_table_def) (auto simp: update_table_def AList.update_conv' same_table_reset)
  have "f = OPTIONAL_FILTER \<Longrightarrow> es = []" using es by (simp add: filter_exprs_def)
  then have rest: "ends ?P (if f = OPTIONAL_FILTER \<or> \<not> ci < length (ts_names op) then count_filters op tn fs k
      else act_bind (act_lift (filter_exprs f)) (\<lambda>es. count_filters op tn fs (k + length es)))
    (\<lambda>n s. n = k + length (all_exprs (x # fs)) \<and> ?P s)"
  proof (cases "f = OPTIONAL_FILTER")
    case True
    then have "all_exprs (x # fs) = all_exprs fs" using x ex \<open>f = OPTIONAL_FILTER \<Longrightarrow> es = []\<close> by (simp add: all_exprs_def)
    then show ?thesis using Cons.IH [of k] Cons.prems True by simp
  next
    case False
    have "k + length (all_exprs (x # fs)) = k + length es + length (all_exprs fs)" using x ex by (simp add: all_exprs_def)
    then have "ends ?P (act_bind (act_lift (filter_exprs f)) (\<lambda>es. count_filters op tn fs (k + length es)))
        (\<lambda>n s. n = k + length (all_exprs (x # fs)) \<and> ?P s)"
      using Cons.IH [of "k + length es"] Cons.prems by (intro ends_lift_bind [OF es]) (simp add: add.assoc)
    then show ?thesis using False c(2) by simp
  qed
  show ?case
    unfolding x count_filters.simps
    by (rule ends_lift_bind [of _ ?i], use c(1) in simp, rule ends_bind [OF read], simp only: split_paired_all prod.case,
        rule ends_bind [OF reset], rule rest [unfolded x])
qed

lemma collect_filters_result:
  assumes "same_table t t'" and "\<forall>x \<in> set fs. filter_ready D d op t L x"
  shows "\<exists>xs. collect_filters op t' fs = Inr xs \<and> map snd xs = all_exprs fs \<and>
    (\<forall>(c, e) \<in> set xs. unat (column_length c) = L \<and> expr_ready D d L c e) \<and>
    (\<forall>r. (\<forall>(c, e) \<in> set xs. passes D d c e r) \<longleftrightarrow> (\<forall>x \<in> set fs. filter_holds D d op t r x))"
  using assms(2)
proof (induction fs)
  case Nil
  then show ?case by (simp add: all_exprs_def)
next
  case (Cons x fs)
  obtain ci f where x: "x = (ci, f)" by (cases x)
  obtain c es where c: "ci < length (ts_column_ids op)" "ci < length (ts_names op)" "column_at t (ts_column_ids op ! ci) = Inr c"
    "unat (column_length c) = L" and es: "filter_exprs f = Inr es" "\<forall>e \<in> set es. expr_ready D d L c e"
    using Cons.prems x by (auto simp: filter_ready_def)
  obtain c' where c': "column_at t' (ts_column_ids op ! ci) = Inr c'" "data_wrapper c' = data_wrapper c"
    "column_length c' = column_length c" using same_table_at [OF assms(1) c(3)] by blast
  obtain xs where xs: "collect_filters op t' fs = Inr xs" "map snd xs = all_exprs fs"
    "\<forall>(c, e) \<in> set xs. unat (column_length c) = L \<and> expr_ready D d L c e"
    "\<forall>r. (\<forall>(c, e) \<in> set xs. passes D d c e r) \<longleftrightarrow> (\<forall>x \<in> set fs. filter_holds D d op t r x)"
    using Cons by auto
  have ex: "exprs_of f = es" using es by (simp add: exprs_of_def)
  have opt: "f = OPTIONAL_FILTER \<Longrightarrow> es = []" using es by (simp add: filter_exprs_def)
  have col: "collect_filters op t' (x # fs) = Inr (map (Pair c') es @ xs)"
    using c c'(1) es(1) xs(1) opt x by (cases "f = OPTIONAL_FILTER") simp_all
  have holds: "(\<forall>(c, e) \<in> set (map (Pair c') es @ xs). passes D d c e r) \<longleftrightarrow> (\<forall>x \<in> set (x # fs). filter_holds D d op t r x)" for r
  proof -
    have "(\<forall>(c, e) \<in> set (map (Pair c') es). passes D d c e r) \<longleftrightarrow> filter_holds D d op t r x"
      using ex c(3) passes_wrapper [OF c'(2), of D d _ r] by (auto simp: filter_holds_def x)
    then show ?thesis using xs(4) by (simp add: ball_Un)
  qed
  have ready: "\<forall>(c, e) \<in> set (map (Pair c') es @ xs). unat (column_length c) = L \<and> expr_ready D d L c e"
    using xs(3) es(2) c(4) c'(3) expr_ready_wrapper [OF c'(2), of D d L] by auto
  have "map snd (map (Pair c') es @ xs) = all_exprs (x # fs)" using xs(2) ex x by (simp add: all_exprs_def comp_def)
  with col holds ready show ?case by blast
qed

lemma constant_bytes_length: "constant_bytes D t v = Inr b \<Longrightarrow> length b \<le> length (ToString v) + 8"
  by (auto simp: constant_bytes_def res_bind_Inr_iff split: if_splits GPUColumnTypeId.splits)

lemma scan_constants_length:
  "length cs = length fs \<Longrightarrow> scan_constants D cs fs = Inr bs \<Longrightarrow>
    length (concat bs) \<le> (\<Sum>f\<leftarrow>fs. length (ToString (filter_constant f)) + 8)"
proof (induction cs fs arbitrary: bs rule: list_induct2)
  case (Cons c cs f fs)
  then obtain b bs' where "bs = b # bs'" "constant_bytes D (dw_type (data_wrapper c)) (filter_constant f) = Inr b"
    "scan_constants D cs fs = Inr bs'" by (auto simp: scan_constants_def res_bind_Inr_iff)
  with Cons.IH [of bs'] constant_bytes_length [of D _ "filter_constant f" b] show ?case by fastforce
qed (simp add: scan_constants_def)

text \<open>The row ids that the filters hand on stand for these rows.\<close>

definition hands_on :: "u64 device \<Rightarrow> nat \<Rightarrow> ptr \<Rightarrow> u64 option \<Rightarrow> nat list \<Rightarrow> bool" where
  "hands_on s L ids n rows \<longleftrightarrow>
     (if ids = nullptr then rows = [0..<L]
      else \<exists>rs k. cells s ids = Some (RowIds rs) \<and> n = Some k \<and> length rs = unat k \<and> rows = map unat rs)"

definition scan_state :: "rmm_pool \<Rightarrow> u64 device \<Rightarrow> string \<Rightarrow> GPUIntermediateRelation \<Rightarrow> u64 device \<Rightarrow> bool" where
  "scan_state rmm d tn t s \<longleftrightarrow> dev_wf rmm s \<and> cells d \<subseteq>\<^sub>m cells s \<and> has_table tn t s"

lemma scan_state_holding: "scan_state rmm d tn t d1 \<Longrightarrow> holding rmm d1 ps s \<Longrightarrow> scan_state rmm d tn t s"
  by (auto simp: scan_state_def holding_def has_table_def intro: map_le_trans)

lemma map_unat_of_nat: "set xs \<subseteq> {..<2 ^ 64} \<Longrightarrow> map unat (map (of_nat :: nat \<Rightarrow> u64) xs) = xs"
  by (induction xs) (auto simp: unat_of_nat take_bit_nat_eq_self)

lemma ends_at: "(\<And>s. P s \<Longrightarrow> ends (\<lambda>s'. s' = s) m Q) \<Longrightarrow> ends P m Q"
  by (fastforce simp: ends_def)

lemma ends_holding:
  assumes "scan_state rmm d tn t s" and "ends (holding rmm s []) m Q"
  shows "ends (\<lambda>s'. s' = s) m Q"
  by (rule ends_strengthen [OF assms(2)]) (use assms(1) holding_start in \<open>auto simp: scan_state_def\<close>)

lemma filters_final:
  assumes st: "scan_state rmm d tn t s" and ne: "xs \<noteq> []"
    and ready: "\<forall>(c, e) \<in> set xs. unat (column_length c) = L \<and> expr_ready D d L c e"
    and holds: "\<And>r. (\<forall>(c, e) \<in> set xs. passes D d c e r) \<longleftrightarrow> holds r"
    and small: "(\<Sum>f\<leftarrow>map snd xs. length (ToString (filter_constant f)) + 8) < 2 ^ 64"
    and arrival: "\<forall>n. mset (arrival n) = mset [0..<n]"
  shows "ends (\<lambda>s'. s' = s) (HandleArbitraryConstantExpression D rmm arrival (map fst xs) nullptr (map snd xs))
    (\<lambda>(ids, n) s'. scan_state rmm d tn t s' \<and> (\<exists>rows. hands_on s' L ids (Some n) rows \<and> mset rows = mset (filter holds [0..<L])))"
proof (rule ends_holding [OF st], rule ends_weaken)
  have sub: "cells d \<subseteq>\<^sub>m cells s" using st by (simp add: scan_state_def)
  have L: "L = unat (column_length (map fst xs ! 0))" using ready ne by (cases xs) auto
  have each: "expr_ready D d L (fst (xs ! i)) (snd (xs ! i))" if "i < length xs" for i
    using ready nth_mem [OF that] by (auto split: prod.splits)
  have small': "\<forall>bs. scan_constants D (map fst xs) (map snd xs) = Inr bs \<longrightarrow> length (concat bs) < 2 ^ 64"
    using scan_constants_length [of "map fst xs" "map snd xs" D] small by (auto intro: le_less_trans)
  show "ends (holding rmm s []) (HandleArbitraryConstantExpression D rmm arrival (map fst xs) nullptr (map snd xs))
    (\<lambda>(out, n) s'. if L = 0 then out = nullptr \<and> n = 0 \<and> holding rmm s [] s' else
       \<exists>rows leaked. holding rmm s [out, leaked] s' \<and> cells s' out = Some (RowIds rows) \<and> length rows = unat n \<and>
         mset rows = mset (map of_nat (selected_rows D s (map fst xs) (map snd xs) L)))"
    using each expr_ready_mono [OF sub] ne
    by (intro HandleArbitraryConstantExpression_ends L small' arrival) auto
  have all: "(\<forall>i < length xs. passes D d (fst (xs ! i)) (snd (xs ! i)) r) \<longleftrightarrow> holds r" for r
    unfolding holds [symmetric] all_set_conv_all_nth by (simp add: case_prod_beta)
  have "selected_rows D s (map fst xs) (map snd xs) L = filter holds [0..<L]"
    unfolding selected_rows_def using passes_mono [OF sub each] all by (intro filter_cong) auto
  then have rows: "\<exists>rows. mset rows = mset (filter holds [0..<L]) \<and> rows = map unat rs"
    if "mset rs = mset (map of_nat (selected_rows D s (map fst xs) (map snd xs) L))" for rs :: "u64 list"
  proof -
    have "L < 2 ^ 64" unfolding L using unat_bound_u64 by simp
    then have "map unat (map of_nat (filter holds [0..<L]) :: u64 list) = filter holds [0..<L]"
      by (intro map_unat_of_nat) auto
    then have "mset (map unat rs) = mset (filter holds [0..<L])"
      using that \<open>selected_rows D s (map fst xs) (map snd xs) L = filter holds [0..<L]\<close> by (metis mset_map)
    then show ?thesis by blast
  qed
  show "(case x of (ids, n) \<Rightarrow> \<lambda>s'. scan_state rmm d tn t s' \<and>
      (\<exists>rows. hands_on s' L ids (Some n) rows \<and> mset rows = mset (filter holds [0..<L]))) s'"
    if "(case x of (out, n) \<Rightarrow> \<lambda>s'. if L = 0 then out = nullptr \<and> n = 0 \<and> holding rmm s [] s' else
       \<exists>rows leaked. holding rmm s [out, leaked] s' \<and> cells s' out = Some (RowIds rows) \<and> length rows = unat n \<and>
         mset rows = mset (map of_nat (selected_rows D s (map fst xs) (map snd xs) L))) s'" for x s'
  proof (cases "L = 0")
    case True
    then show ?thesis using that scan_state_holding [OF st] by (auto simp: hands_on_def)
  next
    case False
    obtain out n where x: "x = (out, n)" by (cases x)
    have "\<exists>rs leaked. holding rmm s [out, leaked] s' \<and> cells s' out = Some (RowIds rs) \<and> length rs = unat n \<and>
      mset rs = mset (map of_nat (selected_rows D s (map fst xs) (map snd xs) L))"
      using that unfolding x prod.case if_not_P [OF False] .
    then obtain rs leaked where h: "holding rmm s [out, leaked] s'" "cells s' out = Some (RowIds rs)" "length rs = unat n"
      "mset rs = mset (map of_nat (selected_rows D s (map fst xs) (map snd xs) L))" by blast
    have "out \<noteq> nullptr" using h(1) by (auto simp: holding_def)
    then show ?thesis using rows [OF h(4)] h(2,3) x scan_state_holding [OF st h(1)] by (auto simp: hands_on_def)
  qed
qed

lemma run_filters_ends:
  assumes wf: "dev_wf rmm d" and tab: "map_of (tables (mgr d)) tn = Some t"
    and ready: "\<forall>fs. table_filters op = Some fs \<longrightarrow> (\<forall>x \<in> set fs. filter_ready D d op t L x) \<and>
      (\<Sum>f\<leftarrow>all_exprs fs. length (ToString (filter_constant f)) + 8) < 2 ^ 64"
    and arrival: "\<forall>n. mset (arrival n) = mset [0..<n]"
  shows "ends (\<lambda>s. s = d) (run_filters D rmm arrival op tn) (\<lambda>(ids, n) s. scan_state rmm d tn t s \<and>
    (\<exists>rows. hands_on s L ids n rows \<and>
       mset rows = mset (filter (\<lambda>r. \<forall>fs. table_filters op = Some fs \<longrightarrow> (\<forall>x \<in> set fs. filter_holds D d op t r x)) [0..<L])))"
proof (cases "table_filters op")
  case None
  have "has_table tn t d" using tab same_table_refl by (auto simp: has_table_def)
  then show ?thesis using wf None
    by (auto simp: run_filters_def scan_state_def hands_on_def intro!: ends_return)
next
  case (Some fs)
  let ?holds = "\<lambda>r. \<forall>x \<in> set fs. filter_holds D d op t r x"
  let ?Q = "\<lambda>(ids, n) s. scan_state rmm d tn t s \<and> (\<exists>rows. hands_on s L ids n rows \<and> mset rows = mset (filter ?holds [0..<L]))"
  have fr: "\<forall>x \<in> set fs. filter_ready D d op t L x" and
    small: "(\<Sum>f\<leftarrow>all_exprs fs. length (ToString (filter_constant f)) + 8) < 2 ^ 64" using ready Some by blast+
  have "ends (\<lambda>s. s = d) (count_filters op tn fs 0)
      (\<lambda>n s. n = 0 + length (all_exprs fs) \<and> dev_wf rmm s \<and> cells s = cells d \<and> has_table tn t s)"
    by (rule ends_strengthen [OF count_filters_ends [OF fr]]) (use wf tab same_table_refl in \<open>auto simp: has_table_def\<close>)
  then have start: "ends (\<lambda>s. s = d) (count_filters op tn fs 0) (\<lambda>n s. scan_state rmm d tn t s \<and> n = length (all_exprs fs))"
    by (rule ends_weaken) (simp add: scan_state_def)
  have host: "ends (\<lambda>s. scan_state rmm d tn t s \<and> C) (dev_host_alloc w n) (\<lambda>_ s. scan_state rmm d tn t s \<and> C)" for w n C
  proof (rule ends_at)
    fix s assume s: "scan_state rmm d tn t s \<and> C"
    then show "ends (\<lambda>s'. s' = s) (dev_host_alloc w n) (\<lambda>_ s. scan_state rmm d tn t s \<and> C)"
      by (intro ends_holding [OF conjunct1 [OF s]] ends_weaken [OF ends_host_alloc]) (auto intro: scan_state_holding)
  qed
  have collect: "ends (\<lambda>s. scan_state rmm d tn t s \<and> k = length (all_exprs fs))
      (\<lambda>d. (res_bind (the_table tn d) (\<lambda>t. collect_filters op t fs), d))
      (\<lambda>xs s. scan_state rmm d tn t s \<and> map snd xs = all_exprs fs \<and> k = length xs \<and>
        (\<forall>(c, e) \<in> set xs. unat (column_length c) = L \<and> expr_ready D d L c e) \<and>
        (\<forall>r. (\<forall>(c, e) \<in> set xs. passes D d c e r) \<longleftrightarrow> ?holds r))" for k
    unfolding ends_def
  proof (intro allI impI)
    fix s r s' assume s: "scan_state rmm d tn t s \<and> k = length (all_exprs fs)"
      and m: "(res_bind (the_table tn s) (\<lambda>t. collect_filters op t fs), s) = (r, s')"
    obtain t' where t': "map_of (tables (mgr s)) tn = Some t'" "same_table t t'"
      using s by (auto simp: scan_state_def has_table_def)
    obtain xs where xs: "collect_filters op t' fs = Inr xs" and es: "map snd xs = all_exprs fs"
      and "\<forall>(c, e) \<in> set xs. unat (column_length c) = L \<and> expr_ready D d L c e"
      "\<forall>r. (\<forall>(c, e) \<in> set xs. passes D d c e r) \<longleftrightarrow> ?holds r"
      using collect_filters_result [OF t'(2) fr] by blast
    moreover have "length xs = length (all_exprs fs)" using es by (metis length_map)
    moreover have "r = Inr xs" "s' = s" using m t'(1) xs by (simp_all add: the_table_def)
    moreover note es
    ultimately show "case r of Inl e \<Rightarrow> out_of_memory e | Inr xs \<Rightarrow> scan_state rmm d tn t s' \<and> map snd xs = all_exprs fs \<and>
        k = length xs \<and> (\<forall>(c, e) \<in> set xs. unat (column_length c) = L \<and> expr_ready D d L c e) \<and>
        (\<forall>r. (\<forall>(c, e) \<in> set xs. passes D d c e r) \<longleftrightarrow> ?holds r)"
      using s by simp
  qed
  have last: "ends (\<lambda>s. scan_state rmm d tn t s \<and> map snd xs = all_exprs fs \<and> k = length xs \<and>
        (\<forall>(c, e) \<in> set xs. unat (column_length c) = L \<and> expr_ready D d L c e) \<and>
        (\<forall>r. (\<forall>(c, e) \<in> set xs. passes D d c e r) \<longleftrightarrow> ?holds r))
      (if 0 < k then act_bind (HandleArbitraryConstantExpression D rmm arrival (map fst xs) nullptr (map snd xs))
         (\<lambda>(ids, n). act_return (ids, Some n)) else act_return (nullptr, None)) ?Q" for k xs
  proof (rule ends_at)
    fix s assume s: "scan_state rmm d tn t s \<and> map snd xs = all_exprs fs \<and> k = length xs \<and>
        (\<forall>(c, e) \<in> set xs. unat (column_length c) = L \<and> expr_ready D d L c e) \<and>
        (\<forall>r. (\<forall>(c, e) \<in> set xs. passes D d c e r) \<longleftrightarrow> ?holds r)"
    show "ends (\<lambda>s'. s' = s) (if 0 < k then act_bind (HandleArbitraryConstantExpression D rmm arrival (map fst xs) nullptr (map snd xs))
         (\<lambda>(ids, n). act_return (ids, Some n)) else act_return (nullptr, None)) ?Q"
    proof (cases "xs = []")
      case True
      then show ?thesis using s by (auto simp: hands_on_def intro!: ends_return)
    next
      case False
      have k: "0 < k" using s False by simp
      show ?thesis
        unfolding if_P [OF k]
        by (rule ends_bind [OF filters_final [where holds = ?holds, OF _ False _ _ _ arrival]])
          (use s small in \<open>auto intro!: ends_return\<close>)
    qed
  qed
  have "ends (\<lambda>s. s = d) (run_filters D rmm arrival op tn) ?Q"
    unfolding run_filters_def Some option.case
    by (rule ends_bind [OF start], rule ends_bind [OF host], rule ends_bind [OF collect], rule last)
  then show ?thesis unfolding Some by simp
qed

text \<open>An output column: the data of the cached column with the row ids of the scan.\<close>

definition emitted :: "u64 device \<Rightarrow> nat \<Rightarrow> nat list \<Rightarrow> GPUIntermediateRelation \<Rightarrow> nat \<Rightarrow> GPUColumn \<Rightarrow> bool" where
  "emitted s L rows t i c \<longleftrightarrow> (\<exists>c0. column_at t i = Inr c0 \<and>
     dw_data (data_wrapper c) = dw_data (data_wrapper c0) \<and> dw_offset (data_wrapper c) = dw_offset (data_wrapper c0) \<and>
     dw_validity_mask (data_wrapper c) = dw_validity_mask (data_wrapper c0) \<and>
     dw_type (data_wrapper c) = dw_type (data_wrapper c0) \<and> is_unique c = is_unique c0 \<and>
     column_length c = column_length c0 \<and> column_row_list s c = Some rows)"

definition column_fine :: "duckdb_env \<Rightarrow> GPUIntermediateRelation \<Rightarrow> nat \<Rightarrow> nat \<Rightarrow> bool" where
  "column_fine D t L i \<longleftrightarrow> (\<exists>c. column_at t i = Inr c \<and> unat (column_length c) = L \<and>
     (dw_is_string_data (data_wrapper c) \<or> (\<exists>sz. getColumnTypeSize D (dw_type (data_wrapper c)) = Inr sz)))"

lemma emit_column_emitted:
  assumes "same_table t t'" and "column_fine D t L i" and "hands_on s L ids n rows"
  shows "\<exists>c. emit_column D t' ids n i = Inr c \<and> emitted s L rows t i c"
proof -
  obtain c where c: "column_at t i = Inr c" "unat (column_length c) = L"
    "dw_is_string_data (data_wrapper c) \<or> (\<exists>sz. getColumnTypeSize D (dw_type (data_wrapper c)) = Inr sz)"
    using assms(2) by (auto simp: column_fine_def)
  obtain c' where c': "column_at t' i = Inr c'" "data_wrapper c' = data_wrapper c" "column_length c' = column_length c"
    "is_unique c' = is_unique c" using same_table_at [OF assms(1) c(1)] by blast
  let ?dw = "data_wrapper c"
  obtain out where out: "GPUColumn_string D (column_length c) (dw_type ?dw) (dw_data ?dw) (dw_offset ?dw) (dw_num_bytes ?dw)
      (dw_is_string_data ?dw) (dw_validity_mask ?dw) = Inr out"
    using c(3) by (cases "dw_is_string_data ?dw") (auto simp: GPUColumn_string_def Let_def DataWrapper_string_def)
  let ?res = "out\<lparr>is_unique := is_unique c, row_ids := (if ids \<noteq> nullptr then ids else row_ids out),
      row_id_count := (case n of Some k \<Rightarrow> Some k | None \<Rightarrow> row_id_count out)\<rparr>"
  have "emit_column D t' ids n i = Inr ?res" using c' out by (simp add: emit_column_def Let_def)
  moreover have "emitted s L rows t i ?res"
    using c out assms(3) unfolding GPUColumn_string_Inr emitted_def hands_on_def
    by (auto simp: column_row_list_def split: if_splits)
  ultimately show ?thesis by blast
qed

lemma emit_columns_result:
  assumes "same_table t t'" and "hands_on s L ids n rows"
  shows "\<forall>i \<in> set is. column_fine D t L i \<Longrightarrow> k + length is \<le> length (columns out) \<Longrightarrow>
    \<exists>out'. emit_columns D t' ids n k is out = Inr out' \<and> length (columns out') = length (columns out) \<and>
      (\<forall>j < k. columns out' ! j = columns out ! j) \<and>
      (\<forall>j < length is. \<exists>c. columns out' ! (k + j) = Some c \<and> emitted s L rows t (is ! j) c)"
proof (induction "is" arbitrary: k out)
  case (Cons i is')
  obtain c where c: "emit_column D t' ids n i = Inr c" "emitted s L rows t i c"
    using emit_column_emitted [OF assms(1) _ assms(2), of D i] Cons.prems(1) by auto
  let ?out = "out\<lparr>columns := (columns out)[k := Some c]\<rparr>"
  have set: "set_column k c out = Inr ?out" using Cons.prems(2) by (simp add: set_column_Inr_iff)
  obtain out' where out': "emit_columns D t' ids n (Suc k) is' ?out = Inr out'" "length (columns out') = length (columns ?out)"
    "\<forall>j < Suc k. columns out' ! j = columns ?out ! j"
    "\<forall>j < length is'. \<exists>c. columns out' ! (Suc k + j) = Some c \<and> emitted s L rows t (is' ! j) c"
    using Cons.IH [of "Suc k" ?out] Cons.prems by auto
  have "\<exists>c. columns out' ! (k + j) = Some c \<and> emitted s L rows t ((i # is') ! j) c" if "j < length (i # is')" for j
  proof (cases j)
    case 0
    then show ?thesis using out'(3) c(2) Cons.prems(2) by auto
  next
    case (Suc l)
    then show ?thesis using out'(4) that by auto
  qed
  moreover have "columns out' ! j = columns out ! j" if "j < k" for j using out'(3) that by auto
  ultimately show ?case using c(1) set out'(1,2) by auto
qed simp

text \<open>A scan without a row id column over a cached table.\<close>

definition scannable ::
  "duckdb_env \<Rightarrow> u64 device \<Rightarrow> GPUPhysicalTableScan \<Rightarrow> GPUIntermediateRelation \<Rightarrow> nat \<Rightarrow> nat list \<Rightarrow> GPUIntermediateRelation \<Rightarrow> bool" where
  "scannable D d op t L is out \<longleftrightarrow> map_of (tables (mgr d)) (string_toupper (ts_table op)) = Some t \<and>
     \<not> gen_row_id_column op \<and> length (columns out) = length (ts_types op) \<and> length is \<le> length (columns out) \<and>
     (\<forall>i \<in> set (scanned_ids op). i < length (ts_names op) \<and> i < length (column_names t) \<and>
        string_toupper (ts_names op ! i) \<in> set (column_names t)) \<and>
     projected_ids op = Inr is \<and> (\<forall>i \<in> set is. column_fine D t L i) \<and>
     (\<forall>fs. table_filters op = Some fs \<longrightarrow> (\<forall>x \<in> set fs. filter_ready D d op t L x) \<and>
        (\<Sum>f\<leftarrow>all_exprs fs. length (ToString (filter_constant f)) + 8) < 2 ^ 64)"

lemma act_mapM_returns: "\<forall>x \<in> set xs. \<exists>y. f x = act_lift (Inr y) \<Longrightarrow> \<exists>ys. act_mapM f xs = act_lift (Inr ys)"
  by (induction xs) (auto simp: fun_eq_iff act_basic act_bind_def)

lemma ends_bind_known: "ends P m (\<lambda>x s. Q s \<and> x = y) \<Longrightarrow> ends Q (k y) R \<Longrightarrow> ends P (act_bind m k) R"
  by (rule ends_bind) (auto simp: ends_def)

lemma scan_ends:
  assumes wf: "dev_wf rmm d" and scan: "scannable D d op t L is out" and arrival: "\<forall>n. mset (arrival n) = mset [0..<n]"
  shows "ends (\<lambda>s. s = d) (TableScan_GetData D rmm arrival op out) (\<lambda>out' s. \<exists>rows. cells d \<subseteq>\<^sub>m cells s \<and>
    mset rows = mset (filter (\<lambda>r. \<forall>fs. table_filters op = Some fs \<longrightarrow> (\<forall>x \<in> set fs. filter_holds D d op t r x)) [0..<L]) \<and>
    (\<forall>j < length is. \<exists>c. columns out' ! j = Some c \<and> emitted s L rows t (is ! j) c))"
proof -
  let ?tn = "string_toupper (ts_table op)"
  let ?name = "\<lambda>i. act_bind (act_lift (vec_at (ts_names op) i)) (\<lambda>name.
      if string_toupper name \<notin> set (column_names t) then act_throw (InvalidInputException ''Column not found'')
      else act_lift (vec_at (column_names t) i)) :: (u64 device, _) act"
  have tab: "map_of (tables (mgr d)) ?tn = Some t" and cols: "length (columns out) = length (ts_types op)" "length is \<le> length (columns out)"
    and pr: "projected_ids op = Inr is" and fine: "\<forall>i \<in> set is. column_fine D t L i" and no_row_id: "\<not> gen_row_id_column op"
    using scan by (auto simp: scannable_def)
  have "\<exists>y. ?name i = act_lift (Inr y)" if "i \<in> set (scanned_ids op)" for i
    using scan that by (auto simp: scannable_def fun_eq_iff act_basic act_bind_def vec_at_def)
  then obtain names where names: "act_mapM ?name (scanned_ids op) = act_lift (Inr names)"
    using act_mapM_returns [of "scanned_ids op" ?name] by blast
  let ?rows = "\<lambda>rows. mset rows = mset (filter (\<lambda>r. \<forall>fs. table_filters op = Some fs \<longrightarrow> (\<forall>x \<in> set fs. filter_holds D d op t r x)) [0..<L])"
  have filters: "ends (\<lambda>s. s = d) (run_filters D rmm arrival op ?tn)
      (\<lambda>(ids, n) s. scan_state rmm d ?tn t s \<and> (\<exists>rows. hands_on s L ids n rows \<and> ?rows rows))"
    using scan by (intro run_filters_ends wf tab arrival) (auto simp: scannable_def)
  have emit: "ends (\<lambda>s. scan_state rmm d ?tn t s \<and> (\<exists>rows. hands_on s L ids n rows \<and> ?rows rows))
      (\<lambda>d. (res_bind (the_table ?tn d) (\<lambda>t. res_bind (projected_ids op) (\<lambda>is. emit_columns D t ids n 0 is out)), d))
      (\<lambda>out' s. \<exists>rows. cells d \<subseteq>\<^sub>m cells s \<and> ?rows rows \<and>
        (\<forall>j < length is. \<exists>c. columns out' ! j = Some c \<and> emitted s L rows t (is ! j) c))" for ids n
    unfolding ends_def
  proof (intro allI impI)
    fix s r s' assume "scan_state rmm d ?tn t s \<and> (\<exists>rows. hands_on s L ids n rows \<and> ?rows rows)"
      and m: "(res_bind (the_table ?tn s) (\<lambda>t. res_bind (projected_ids op) (\<lambda>is. emit_columns D t ids n 0 is out)), s) = (r, s')"
    then obtain rows t' where s: "cells d \<subseteq>\<^sub>m cells s" "hands_on s L ids n rows" "?rows rows"
      "map_of (tables (mgr s)) ?tn = Some t'" "same_table t t'" by (auto simp: scan_state_def has_table_def)
    obtain out' where out': "emit_columns D t' ids n 0 is out = Inr out'"
      "\<forall>j < length is. \<exists>c. columns out' ! (0 + j) = Some c \<and> emitted s L rows t (is ! j) c"
      using emit_columns_result [OF s(5,2) fine, of 0 out] cols(2) by auto
    have "r = Inr out'" "s' = s" using m s(4) out'(1) pr by (simp_all add: the_table_def)
    then show "case r of Inl e \<Rightarrow> out_of_memory e | Inr out' \<Rightarrow> \<exists>rows. cells d \<subseteq>\<^sub>m cells s' \<and> ?rows rows \<and>
        (\<forall>j < length is. \<exists>c. columns out' ! j = Some c \<and> emitted s' L rows t (is ! j) c)"
      using s(1,3) out'(2) by auto
  qed
  have table: "ends (\<lambda>s. s = d) (\<lambda>d. (the_table ?tn d, d)) (\<lambda>t' s. s = d \<and> t' = t)"
    using tab by (simp add: ends_def the_table_def)
  have get: "TableScan_GetData D rmm arrival op out = act_bind (\<lambda>d. (the_table ?tn d, d)) (\<lambda>t.
      act_bind (act_mapM (\<lambda>i. act_bind (act_lift (vec_at (ts_names op) i)) (\<lambda>name.
          if string_toupper name \<notin> set (column_names t) then act_throw (InvalidInputException ''Column not found'')
          else act_lift (vec_at (column_names t) i))) (scanned_ids op)) (\<lambda>_.
        act_bind (run_filters D rmm arrival op ?tn) (\<lambda>x.
          act_bind (\<lambda>d. (res_bind (the_table ?tn d) (\<lambda>t. res_bind (projected_ids op) (\<lambda>is. emit_columns D t (fst x) (snd x) 0 is out)), d))
            act_return)))"
    using cols(1) no_row_id by (simp add: TableScan_GetData_def Let_def split_def cong: if_cong)
  show ?thesis unfolding get
    by (rule ends_bind_known [OF table], unfold names, rule ends_lift_bind [OF refl],
        rule ends_bind [OF filters], simp only: split_def, rule ends_bind [OF emit], rule ends_return)
qed

section \<open>What the filters mean\<close>

text \<open>The meaning of a filter in a row, stated of DuckDB's filter and not of the comparisons that the code
  collects: a conjunction is true when all its children are, \<open>IS NOT NULL\<close> when the validity bit is set.
  An optional filter may be left out, so it excludes no row.\<close>

fun filter_meaning :: "duckdb_env \<Rightarrow> u64 device \<Rightarrow> GPUColumn \<Rightarrow> nat \<Rightarrow> TableFilter \<Rightarrow> bool" where
  "filter_meaning D d c r OPTIONAL_FILTER = True"
| "filter_meaning D d c r IS_NOT_NULL_FILTER = (bit_at d (dw_validity_mask (data_wrapper c)) r = Inr True)"
| "filter_meaning D d c r (CONSTANT_COMPARISON e) = passes D d c e r"
| "filter_meaning D d c r (CONJUNCTION_AND fs) = (\<forall>f \<in> set fs. filter_meaning D d c r f)"
| "filter_meaning D d c r (OTHER_FILTER n) = False"

definition filter_true ::
  "duckdb_env \<Rightarrow> u64 device \<Rightarrow> GPUPhysicalTableScan \<Rightarrow> GPUIntermediateRelation \<Rightarrow> nat \<Rightarrow> nat \<times> TableFilter \<Rightarrow> bool" where
  "filter_true D d op t r = (\<lambda>(ci, f). case column_at t (ts_column_ids op ! ci) of
     Inr c \<Rightarrow> filter_meaning D d c r f | Inl _ \<Rightarrow> False)"

text \<open>The code leaves the tests \<open>IS NOT NULL\<close> of a conjunction out.  That is harmless when the conjunction
  also compares the column with a constant that is not NULL, or the column has no NULL.\<close>

definition null_tests_covered ::
  "duckdb_env \<Rightarrow> u64 device \<Rightarrow> GPUPhysicalTableScan \<Rightarrow> GPUIntermediateRelation \<Rightarrow> nat \<Rightarrow> nat \<times> TableFilter \<Rightarrow> bool" where
  "null_tests_covered D d op t L = (\<lambda>(ci, f). \<forall>fs. f = CONJUNCTION_AND fs \<and> IS_NOT_NULL_FILTER \<in> set fs \<longrightarrow>
     (\<exists>e. CONSTANT_COMPARISON e \<in> set fs \<and> \<not> IsNull (filter_constant e)) \<or>
     (\<forall>c. column_at t (ts_column_ids op ! ci) = Inr c \<longrightarrow>
        (\<forall>r < L. bit_at d (dw_validity_mask (data_wrapper c)) r = Inr True)))"

lemma and_children:
  "res_mapM and_child fs = Inr css \<Longrightarrow> set (concat css) = {e. CONSTANT_COMPARISON e \<in> set fs} \<and>
    (\<forall>f \<in> set fs. f = OPTIONAL_FILTER \<or> f = IS_NOT_NULL_FILTER \<or> (\<exists>e. f = CONSTANT_COMPARISON e))"
proof (induction fs arbitrary: css)
  case (Cons f fs)
  then obtain cs css' where f: "and_child f = Inr cs" and fs: "res_mapM and_child fs = Inr css'" and css: "css = cs # css'"
    by (auto simp: res_bind_Inr_iff)
  from f have "f = OPTIONAL_FILTER \<and> cs = [] \<or> f = IS_NOT_NULL_FILTER \<and> cs = [] \<or> (\<exists>e. f = CONSTANT_COMPARISON e \<and> cs = [e])"
    by (cases f) (simp_all add: and_child_def)
  with Cons.IH [OF fs] css show ?case by auto
qed simp

lemma passes_valid: "passes D d c e r \<Longrightarrow> \<not> IsNull (filter_constant e) \<Longrightarrow> bit_at d (dw_validity_mask (data_wrapper c)) r = Inr True"
  by (auto simp: passes_def Let_def split: sum.splits)

lemma filter_holds_true:
  assumes ready: "filter_ready D d op t L x" and covered: "null_tests_covered D d op t L x" and r: "r < L"
  shows "filter_holds D d op t r x \<longleftrightarrow> filter_true D d op t r x"
proof -
  obtain ci f where x: "x = (ci, f)" by (cases x)
  obtain c es where c: "column_at t (ts_column_ids op ! ci) = Inr c" and es: "filter_exprs f = Inr es"
    using ready x by (auto simp: filter_ready_def)
  have holds: "filter_holds D d op t r x \<longleftrightarrow> (\<forall>e \<in> set es. passes D d c e r)"
    using c es by (auto simp: filter_holds_def x exprs_of_def)
  have true: "filter_true D d op t r x \<longleftrightarrow> filter_meaning D d c r f" using c by (simp add: filter_true_def x)
  show ?thesis
  proof (cases "\<exists>fs. f = CONJUNCTION_AND fs")
    case False
    then show ?thesis using es unfolding holds true by (cases f) (auto simp: filter_exprs_def)
  next
    case True
    then obtain fs css where fs: "f = CONJUNCTION_AND fs" "res_mapM and_child fs = Inr css" "es = concat css"
      using es by (auto simp: filter_exprs_def res_bind_Inr_iff)
    note kids = and_children [OF fs(2)]
    have "bit_at d (dw_validity_mask (data_wrapper c)) r = Inr True"
      if "IS_NOT_NULL_FILTER \<in> set fs" "\<forall>e \<in> set es. passes D d c e r"
      using covered that passes_valid kids fs(3) c r by (fastforce simp: null_tests_covered_def x fs(1))
    then show ?thesis unfolding holds true fs(1,3) filter_meaning.simps
      using kids fs(3) by (metis (no_types, lifting) filter_meaning.simps(1-3) mem_Collect_eq)
  qed
qed

text \<open>A conjunction of tests for NULL alone lets every row through.\<close>

lemma null_test_alone_ignored: "filter_holds D d op t r (ci, CONJUNCTION_AND [IS_NOT_NULL_FILTER])"
  by (simp add: filter_holds_def exprs_of_def filter_exprs_def and_child_def)

text \<open>C29: scanning a cached table, when memory suffices, puts into the output, in the order of the
  projection, the cached columns with one common list of row ids: exactly the rows of the table in which
  every pushed-down filter is true, each once; the cached arrays are unchanged.  A comparison is false in a
  row where the column is NULL, and \<open>IS NOT NULL\<close> is true where it is not; the code leaves the
  \<open>IS NOT NULL\<close> of a conjunction out, so a conjunction with one must also compare the column with a
  constant, or the column must have no NULL.  Optional filters exclude nothing.\<close>

theorem table_scan_selects:
  assumes "dev_wf rmm d" and "scannable D d op t L is out" and "\<forall>n. mset (arrival n) = mset [0..<n]"
    and "\<forall>fs. table_filters op = Some fs \<longrightarrow> (\<forall>x \<in> set fs. null_tests_covered D d op t L x)"
    and "TableScan_GetData D rmm arrival op out d = (r, d')"
  shows "(\<exists>e. r = Inl e \<and> out_of_memory e) \<or>
    (\<exists>out' rows. r = Inr out' \<and> cells d \<subseteq>\<^sub>m cells d' \<and>
       mset rows = mset (filter (\<lambda>r. \<forall>fs. table_filters op = Some fs \<longrightarrow> (\<forall>x \<in> set fs. filter_true D d op t r x)) [0..<L]) \<and>
       (\<forall>j < length is. \<exists>c. columns out' ! j = Some c \<and> emitted d' L rows t (is ! j) c))"
proof -
  have "(\<forall>fs. table_filters op = Some fs \<longrightarrow> (\<forall>x \<in> set fs. filter_holds D d op t r x)) \<longleftrightarrow>
      (\<forall>fs. table_filters op = Some fs \<longrightarrow> (\<forall>x \<in> set fs. filter_true D d op t r x))" if "r < L" for r
    using filter_holds_true [OF _ _ that] assms(2,4) unfolding scannable_def by blast
  then have same: "filter (\<lambda>r. \<forall>fs. table_filters op = Some fs \<longrightarrow> (\<forall>x \<in> set fs. filter_holds D d op t r x)) [0..<L] =
      filter (\<lambda>r. \<forall>fs. table_filters op = Some fs \<longrightarrow> (\<forall>x \<in> set fs. filter_true D d op t r x)) [0..<L]"
    by (intro filter_cong) simp_all
  from endsD [OF scan_ends [OF assms(1-3)] refl assms(5), unfolded same] show ?thesis by blast
qed

text \<open>The cached table \<open>T\<close> with one column \<open>A\<close>, scanned for \<open>A > 15 AND A IS NOT NULL\<close>.\<close>

definition scan_table :: GPUIntermediateRelation where
  "scan_table = \<lparr>rel_names = ''T'', column_names = [''A''], columns = [Some scan_column], column_count = 1\<rparr>"

definition table_device :: "u64 device" where
  "table_device = update_table ''T'' scan_table scan_device"

definition scan_op :: GPUPhysicalTableScan where
  "scan_op = \<lparr>ts_types = [L_INTEGER], ts_table = ''t'', ts_column_ids = [0], ts_projection_ids = [0], ts_names = [''a''],
     table_filters = Some [(0, CONJUNCTION_AND [CONSTANT_COMPARISON above_15, IS_NOT_NULL_FILTER])],
     filter_prune = True, gen_row_id_column = False\<rparr>"

lemma above_15_rows:
  assumes "cells s = cells scan_device"
  shows "expr_ready duckdb_documented s 4 scan_column above_15"
    and "i < 4 \<Longrightarrow> passes duckdb_documented s scan_column above_15 i \<longleftrightarrow> [False, True, False, True] ! i"
proof -
  have "expr_ready duckdb_documented scan_device 4 scan_column above_15"
    by (simp add: expr_ready_def scan_device_def scan_column_def above_15_def convert_comparison_def six_modes_def
        scan_data_type_def ColumnType_def scan_size_def constant_bits_def)
  then show ready: "expr_ready duckdb_documented s 4 scan_column above_15"
    by (rule expr_ready_mono [rotated]) (simp add: assms)
  assume "i < 4"
  then have "i \<in> set [0..<4]" by simp
  moreover have "\<forall>i \<in> set [0..<4]. passes duckdb_documented scan_device scan_column above_15 i \<longleftrightarrow> [False, True, False, True] ! i"
    by code_simp
  moreover have "passes duckdb_documented s scan_column above_15 i = passes duckdb_documented scan_device scan_column above_15 i"
    by (rule passes_mono [OF _ ready \<open>i < 4\<close>, symmetric]) (simp add: assms)
  ultimately show "passes duckdb_documented s scan_column above_15 i \<longleftrightarrow> [False, True, False, True] ! i" by blast
qed

lemma table_device_cells: "cells table_device = cells scan_device"
  by (simp add: table_device_def update_table_def)

lemma scan_op_scannable: "scannable duckdb_documented table_device scan_op scan_table 4 [0] (GPUIntermediateRelation_new 1)"
proof -
  note rows = above_15_rows [OF table_device_cells]
  have ready: "filter_ready duckdb_documented table_device scan_op scan_table 4 (0, CONJUNCTION_AND [CONSTANT_COMPARISON above_15, IS_NOT_NULL_FILTER])"
    using rows(1) by (simp add: filter_ready_def scan_op_def scan_table_def column_at_def vec_at_def filter_exprs_def and_child_def)
      (simp add: scan_column_def)
  have fine: "column_fine duckdb_documented scan_table 4 0"
    by (simp add: column_fine_def scan_table_def column_at_def vec_at_def) (simp add: scan_column_def ColumnType_def getColumnTypeSize_def)
  show ?thesis
    unfolding scannable_def
  proof (intro conjI)
    have name: "string_toupper ''t'' = ''T''" "string_toupper ''a'' = ''A''" by code_simp+
    show "map_of (tables (mgr table_device)) (string_toupper (ts_table scan_op)) = Some scan_table"
      using name by (simp add: scan_op_def table_device_def update_table_def scan_device_def small_manager_def GPUBufferManager_new_def)
    show "\<forall>i \<in> set (scanned_ids scan_op). i < length (ts_names scan_op) \<and> i < length (column_names scan_table) \<and>
        string_toupper (ts_names scan_op ! i) \<in> set (column_names scan_table)"
      using name by (simp add: scanned_ids_def scan_op_def scan_table_def)
    show "projected_ids scan_op = Inr [0]"
      by (simp add: projected_ids_def scan_op_def vec_at_def)
    have fs: "table_filters scan_op = Some fs \<Longrightarrow> fs = [(0, CONJUNCTION_AND [CONSTANT_COMPARISON above_15, IS_NOT_NULL_FILTER])]" for fs
      by (simp add: scan_op_def)
    show "\<forall>fs. table_filters scan_op = Some fs \<longrightarrow> (\<forall>x \<in> set fs. filter_ready duckdb_documented table_device scan_op scan_table 4 x) \<and>
        (\<Sum>f\<leftarrow>all_exprs fs. length (ToString (filter_constant f)) + 8) < 2 ^ 64"
      using ready by (auto dest!: fs simp: all_exprs_def exprs_of_def filter_exprs_def and_child_def above_15_def)
  qed (use fine in \<open>simp_all add: scan_op_def GPUIntermediateRelation_new_def\<close>)
qed

theorem table_scan_selects_witness:
  "\<exists>r d'. TableScan_GetData duckdb_documented bump_pool (\<lambda>n. [0..<n]) scan_op (GPUIntermediateRelation_new 1) table_device = (r, d') \<and>
    ((\<exists>e. r = Inl e \<and> out_of_memory e) \<or>
     (\<exists>out c rows. r = Inr out \<and> columns out ! 0 = Some c \<and> dw_data (data_wrapper c) = 0x20000 \<and>
        column_row_list d' c = Some rows \<and> mset rows = {#1, 3#}))"
proof -
  obtain r d' where m: "TableScan_GetData duckdb_documented bump_pool (\<lambda>n. [0..<n]) scan_op (GPUIntermediateRelation_new 1) table_device = (r, d')"
    by (cases "TableScan_GetData duckdb_documented bump_pool (\<lambda>n. [0..<n]) scan_op (GPUIntermediateRelation_new 1) table_device")
  note rows = above_15_rows [OF table_device_cells]
  have const: "\<not> IsNull (filter_constant above_15)" by (simp add: above_15_def)
  have holds: "filter_true duckdb_documented table_device scan_op scan_table i (0, CONJUNCTION_AND [CONSTANT_COMPARISON above_15, IS_NOT_NULL_FILTER])
      \<longleftrightarrow> [False, True, False, True] ! i" if "i < 4" for i
    using rows(2) [OF that] passes_valid [OF _ const, of duckdb_documented table_device scan_column i]
    by (auto simp: filter_true_def scan_op_def scan_table_def column_at_def vec_at_def)
  have covered: "\<forall>fs. table_filters scan_op = Some fs \<longrightarrow>
      (\<forall>x \<in> set fs. null_tests_covered duckdb_documented table_device scan_op scan_table 4 x)"
    using const by (auto simp: scan_op_def null_tests_covered_def)
  have sel: "filter (\<lambda>i. \<forall>fs. table_filters scan_op = Some fs \<longrightarrow>
      (\<forall>x \<in> set fs. filter_true duckdb_documented table_device scan_op scan_table i x)) [0..<4] = [1, 3]"
    using holds by (simp add: upt_conv_Cons) (simp add: scan_op_def)
  note result = table_scan_selects [OF dev_wf_tables [OF scan_device_wf, of "''T''" scan_table, folded table_device_def] scan_op_scannable _ covered m, unfolded sel]
  have "column_at scan_table 0 = Inr scan_column" "dw_data (data_wrapper scan_column) = 0x20000"
    by (simp_all add: scan_table_def column_at_def vec_at_def scan_column_def)
  then show ?thesis using result m by (auto simp: emitted_def)
qed

end
