(* ===== verification/Kmp_Automaton.thy ===== *)
theory Kmp_Automaton
  imports Prelude "HOL-Library.Sublist"
begin

text \<open>
  The automaton of Knuth, Morris and Pratt that \<open>StringMatching\<close> and \<open>DoStringMatching\<close>
  (\<open>src/src/cuda/operator/strings_matching.cu\<close>) build for a search term, as the flat array of the code,
  and its correctness: in state \<open>j\<close> the character \<open>c\<close> leads to the length of the longest prefix of the
  term that is a suffix of the first \<open>j\<close> characters of the term followed by \<open>c\<close>.
\<close>

section \<open>The automaton\<close>

definition CHARS_IN_BYTE :: nat where "CHARS_IN_BYTE = 256"

text \<open>The host computes the column of a character in \<open>int\<close>, the device in \<open>uint64_t\<close>.\<close>

definition host_idx :: "u8 \<Rightarrow> nat" where
  "host_idx c = nat (sint c + 128)"

definition device_idx :: "u8 \<Rightarrow> nat" where
  "device_idx c = unat (scast c + 128 :: u64)"

text \<open>Row \<open>j\<close> of the automaton starts as a copy of row \<open>X\<close>.\<close>

definition copy_row :: "nat \<Rightarrow> nat \<Rightarrow> nat list \<Rightarrow> nat list" where
  "copy_row X j a = fold (\<lambda>c a. a[j * CHARS_IN_BYTE + c := a ! (X * CHARS_IN_BYTE + c)]) [0..<CHARS_IN_BYTE] a"

definition automato_step :: "u8 list \<Rightarrow> nat \<Rightarrow> nat \<times> nat list \<Rightarrow> nat \<times> nat list" where
  "automato_step match_char j = (\<lambda>(X, a).
     let curr_idx = host_idx (match_char ! j);
         a' = (copy_row X j a)[j * CHARS_IN_BYTE + curr_idx := j + 1]
     in (a' ! (X * CHARS_IN_BYTE + curr_idx), a'))"

text \<open>An empty search term has an automaton of size zero, into which the first store is out of bounds.\<close>

definition kmp_automato :: "u8 list \<Rightarrow> nat list res" where
  "kmp_automato match_char = (case match_char of
     [] \<Rightarrow> Inl (UndefinedBehaviour ''store behind the automaton'')
   | c # _ \<Rightarrow> Inr (snd (fold (automato_step match_char) [1..<length match_char]
       (0, (replicate (length match_char * CHARS_IN_BYTE) 0)[host_idx c := 1]))))"

section \<open>Borders\<close>

definition border :: "u8 list \<Rightarrow> u8 list \<Rightarrow> nat" where
  "border p w = Max (set (filter (\<lambda>k. suffix (take k p) w) [0..<Suc (length p)]))"

lemma border_Max: "border p w = Max {k. k \<le> length p \<and> suffix (take k p) w}"
  unfolding border_def by (rule arg_cong [of _ _ Max]) (auto simp: less_Suc_eq_le simp del: upt_Suc)

lemma border_max: "k \<le> length p \<Longrightarrow> suffix (take k p) w \<Longrightarrow> k \<le> border p w"
  unfolding border_Max by (intro Max_ge) auto

lemma border_le: "border p w \<le> length p" and border_suffix: "suffix (take (border p w) p) w"
proof -
  have "finite {k. k \<le> length p \<and> suffix (take k p) w}" by simp
  moreover have "{k. k \<le> length p \<and> suffix (take k p) w} \<noteq> {}" by (auto intro!: exI [of _ 0])
  ultimately have "border p w \<in> {k. k \<le> length p \<and> suffix (take k p) w}" unfolding border_Max by (rule Max_in)
  then show "border p w \<le> length p" "suffix (take (border p w) p) w" by simp_all
qed

lemma border_cong: "(\<And>k. k \<le> length p \<Longrightarrow> suffix (take k p) v \<longleftrightarrow> suffix (take k p) w) \<Longrightarrow> border p v = border p w"
  unfolding border_Max by (rule arg_cong [of _ _ Max]) blast

lemma border_empty [simp]: "border p [] = 0"
  using border_suffix [of p "[]"] border_le [of p "[]"] by auto

lemma border_full: "border p w = length p \<longleftrightarrow> suffix p w"
  using border_suffix [of p w] border_max [of "length p" p w] border_le [of p w] by auto

lemma suffix_take_snoc:
  assumes "Suc k \<le> length p"
  shows "suffix (take (Suc k) p) (w @ [c]) \<longleftrightarrow> p ! k = c \<and> suffix (take k p) w"
  using assms by (simp add: take_Suc_conv_app_nth)

lemma border_append: "border p (w @ [c]) = border p (take (border p w) p @ [c])"
proof (rule border_cong)
  fix k assume k: "k \<le> length p"
  show "suffix (take k p) (w @ [c]) \<longleftrightarrow> suffix (take k p) (take (border p w) p @ [c])"
  proof (cases k)
    case (Suc l)
    have "suffix (take l p) w \<longleftrightarrow> suffix (take l p) (take (border p w) p)"
    proof
      assume l: "suffix (take l p) w"
      then have "l \<le> border p w" using border_max [of l p w] k Suc by simp
      then show "suffix (take l p) (take (border p w) p)"
        using suffix_length_suffix [OF l border_suffix] border_le [of p w] by simp
    next
      assume "suffix (take l p) (take (border p w) p)"
      then show "suffix (take l p) w" using border_suffix suffix_order.trans by blast
    qed
    then show ?thesis using suffix_take_snoc [of l p] k Suc by blast
  qed simp
qed

text \<open>The next state from the state of the term without its first character.\<close>

lemma border_step:
  assumes "j < length p" and "0 < j"
  shows "border p (take j p @ [c]) = (if c = p ! j then Suc j else border p (drop 1 (take j p) @ [c]))"
proof (cases "c = p ! j")
  case True
  have "suffix (take (Suc j) p) (take j p @ [c])" using assms True by (simp add: take_Suc_conv_app_nth)
  then have "Suc j \<le> border p (take j p @ [c])" using assms by (intro border_max) simp_all
  moreover have "border p (take j p @ [c]) \<le> Suc j"
    using suffix_length_le [OF border_suffix [of p "take j p @ [c]"]] border_le [of p "take j p @ [c]"] assms by simp
  ultimately show ?thesis using True by simp
next
  case False
  have "border p (take j p @ [c]) = border p (drop 1 (take j p) @ [c])"
  proof (rule border_cong)
    fix k assume k: "k \<le> length p"
    have tl: "suffix (drop 1 (take j p) @ [c]) (take j p @ [c])" by (simp add: suffix_drop)
    show "suffix (take k p) (take j p @ [c]) \<longleftrightarrow> suffix (take k p) (drop 1 (take j p) @ [c])"
    proof
      assume s: "suffix (take k p) (take j p @ [c])"
      have "k \<le> Suc j" using suffix_length_le [OF s] k assms by simp
      moreover have "k \<noteq> Suc j" using s False assms suffix_take_snoc [of j p "take j p" c] by auto
      ultimately show "suffix (take k p) (drop 1 (take j p) @ [c])"
        using suffix_length_suffix [OF s tl] assms k by simp
    next
      assume "suffix (take k p) (drop 1 (take j p) @ [c])"
      then show "suffix (take k p) (take j p @ [c])" using tl suffix_order.trans by blast
    qed
  qed
  then show ?thesis using False by simp
qed

section \<open>The automaton is correct\<close>

lemma host_idx_less: "host_idx c < 256"
proof -
  have "- 128 \<le> sint c" "sint c < 128" using sint_range_size [of c] by (simp_all add: word_size)
  then show ?thesis by (simp add: host_idx_def)
qed

lemma host_idx_inj: "host_idx c = host_idx d \<longleftrightarrow> c = d"
proof -
  have "- 128 \<le> sint x" for x :: u8 using sint_range_size [of x] by (simp add: word_size)
  from this [of c] this [of d] have "host_idx c = host_idx d \<Longrightarrow> sint c = sint d" by (simp add: host_idx_def)
  then show ?thesis using signed_word_eqI [of c d] by blast
qed

lemma device_host_idx: "device_idx c = host_idx c"
proof -
  have r: "- 128 \<le> sint c" "sint c < 128" using sint_range_size [of c] by (simp_all add: word_size)
  have "(scast c + 128 :: u64) = word_of_int (sint c + 128)" by (simp only: scast_eq wi_hom_add [symmetric]) simp
  then have "uint (scast c + 128 :: u64) = (sint c + 128) mod 2 ^ 64" by (simp only: uint_word_of_int) simp
  also have "\<dots> = sint c + 128" using r by (intro mod_pos_pos_trivial) simp_all
  finally have "unat (scast c + 128 :: u64) = nat (sint c + 128)" by (simp only: unat_eq_nat_uint)
  then show ?thesis by (simp only: device_idx_def host_idx_def)
qed

lemma copy_row_upto:
  assumes "X < j" and "(j + 1) * 256 \<le> length a" and "n \<le> 256"
  shows "length (fold (\<lambda>c a. a[j * 256 + c := a ! (X * 256 + c)]) [0..<n] a) = length a \<and>
    (\<forall>i < length a. fold (\<lambda>c a. a[j * 256 + c := a ! (X * 256 + c)]) [0..<n] a ! i =
      (if j * 256 \<le> i \<and> i < j * 256 + n then a ! (X * 256 + (i - j * 256)) else a ! i))"
  using assms(3)
proof (induction n)
  case (Suc n)
  let ?a = "fold (\<lambda>c a. a[j * 256 + c := a ! (X * 256 + c)]) [0..<n] a"
  have IH: "length ?a = length a" "\<forall>i < length a. ?a ! i =
      (if j * 256 \<le> i \<and> i < j * 256 + n then a ! (X * 256 + (i - j * 256)) else a ! i)" using Suc by auto
  have less: "X * 256 + n < j * 256" "j * 256 + n < length a" using assms(1,2) Suc.prems by (simp_all add: algebra_simps)
  then have "?a ! (X * 256 + n) = a ! (X * 256 + n)" using IH(2) by auto
  then show ?case using IH less by (auto simp: nth_list_update)
qed auto

lemma copy_row:
  assumes "X < j" and "(j + 1) * 256 \<le> length a"
  shows "length (copy_row X j a) = length a"
    and "c < 256 \<Longrightarrow> copy_row X j a ! (j * 256 + c) = a ! (X * 256 + c)"
    and "k < j \<Longrightarrow> c < 256 \<Longrightarrow> copy_row X j a ! (k * 256 + c) = a ! (k * 256 + c)"
proof -
  have main: "length (copy_row X j a) = length a \<and> (\<forall>i < length a. copy_row X j a ! i =
      (if j * 256 \<le> i \<and> i < j * 256 + 256 then a ! (X * 256 + (i - j * 256)) else a ! i))"
    using copy_row_upto [OF assms, of 256] by (simp add: copy_row_def CHARS_IN_BYTE_def)
  then show "length (copy_row X j a) = length a" by simp
  show "copy_row X j a ! (j * 256 + c) = a ! (X * 256 + c)" if "c < 256" using main that assms(2) by simp
  show "copy_row X j a ! (k * 256 + c) = a ! (k * 256 + c)" if "k < j" "c < 256"
  proof -
    have "k * 256 + c < j * 256" using that by linarith
    then show ?thesis using main assms(2) by simp
  qed
qed

definition row_ok :: "u8 list \<Rightarrow> nat list \<Rightarrow> nat \<Rightarrow> bool" where
  "row_ok p a j \<longleftrightarrow> (\<forall>c. a ! (j * 256 + host_idx c) = border p (take j p @ [c]))"

lemma automato_step_ok:
  assumes j: "0 < j" "j < length p" and len: "length a = length p * 256"
    and X: "X = border p (drop 1 (take j p))" and rows: "\<forall>k < j. row_ok p a k"
    and step: "automato_step p j (X, a) = (X', a')"
  shows "length a' = length p * 256" and "X' = border p (drop 1 (take (Suc j) p))" and "\<forall>k < Suc j. row_ok p a' k"
proof -
  have "X \<le> j - 1" using suffix_length_le [OF border_suffix [of p "drop 1 (take j p)"]] border_le [of p "drop 1 (take j p)"] X j by simp
  then have Xj: "X < j" using j by simp
  have fits: "(j + 1) * 256 \<le> length a" using len j by simp
  note copy = copy_row [OF Xj fits]
  let ?c = "p ! j"
  have a': "a' = (copy_row X j a)[j * 256 + host_idx ?c := Suc j]" and X': "X' = a' ! (X * 256 + host_idx ?c)"
    using step by (auto simp: automato_step_def Let_def CHARS_IN_BYTE_def)
  show "length a' = length p * 256" using a' copy(1) len by simp
  have old: "row_ok p a' k" if "k < j" for k
    unfolding row_ok_def
  proof
    fix c
    have "k * 256 + host_idx c < j * 256" using that host_idx_less [of c] by linarith
    then show "a' ! (k * 256 + host_idx c) = border p (take k p @ [c])"
      using a' copy(3) [OF that host_idx_less] rows that by (simp add: row_ok_def)
  qed
  have next_state: "border p (drop 1 (take j p) @ [c]) = a ! (X * 256 + host_idx c)" for c
    using rows Xj X border_append [of p "drop 1 (take j p)" c] by (simp add: row_ok_def)
  have "row_ok p a' j"
    unfolding row_ok_def
  proof
    fix c
    have "j * 256 + host_idx ?c < length (copy_row X j a)" using copy(1) fits host_idx_less [of ?c] by simp
    then show "a' ! (j * 256 + host_idx c) = border p (take j p @ [c])"
      using copy(2) [OF host_idx_less, of c] border_step [OF j(2,1), of c] next_state [of c]
      by (auto simp: a' nth_list_update host_idx_inj)
  qed
  with old show "\<forall>k < Suc j. row_ok p a' k" by (auto simp: less_Suc_eq)
  have "drop 1 (take (Suc j) p) = drop 1 (take j p) @ [?c]" using j by (simp add: take_Suc_conv_app_nth)
  then show "X' = border p (drop 1 (take (Suc j) p))"
    using X' old [OF Xj] X border_append [of p "drop 1 (take j p)" ?c] by (simp add: row_ok_def)
qed

lemma automato_loop_ok:
  assumes "length a = length p * 256" and "row_ok p a 0" and "0 < n" and "n \<le> length p"
  shows "case fold (automato_step p) [1..<n] (0, a) of (X, a') \<Rightarrow>
    length a' = length p * 256 \<and> X = border p (drop 1 (take n p)) \<and> (\<forall>k < n. row_ok p a' k)"
  using assms(3,4)
proof (induction n rule: nat_induct_non_zero)
  case 1
  have "drop 1 (take 1 p) = []" by simp
  then show ?case using assms(1,2) by simp
next
  case (Suc n)
  obtain X a1 where x: "fold (automato_step p) [1..<n] (0, a) = (X, a1)" by fastforce
  then have st: "length a1 = length p * 256" "X = border p (drop 1 (take n p))" "\<forall>k < n. row_ok p a1 k"
    using Suc by auto
  obtain X' a' where s: "automato_step p n (X, a1) = (X', a')" by fastforce
  have "fold (automato_step p) [1..<Suc n] (0, a) = (X', a')" using x s Suc.hyps by simp
  then show ?case using automato_step_ok [OF _ _ st s] Suc by simp
qed

lemma kmp_automato_ok:
  assumes "p \<noteq> []"
  shows "\<exists>a. kmp_automato p = Inr a \<and> length a = length p * CHARS_IN_BYTE \<and>
    (\<forall>j c. j < length p \<longrightarrow> a ! (j * CHARS_IN_BYTE + device_idx c) = border p (take j p @ [c]))"
proof -
  obtain c0 cs where p: "p = c0 # cs" using assms by (cases p) auto
  let ?a = "(replicate (length p * 256) 0)[host_idx c0 := 1] :: nat list"
  have "border p [c] = of_bool (c = c0)" for c
  proof -
    have le: "border p [c] \<le> 1" using suffix_length_le [OF border_suffix [of p "[c]"]] border_le [of p "[c]"] by simp
    have "1 \<le> border p [c] \<longleftrightarrow> c = c0"
    proof
      assume "1 \<le> border p [c]"
      then have "border p [c] = 1" using le by simp
      then show "c = c0" using border_suffix [of p "[c]"] by (simp add: p suffix_def)
    next
      assume "c = c0"
      then show "1 \<le> border p [c]" by (intro border_max) (simp_all add: p)
    qed
    then show ?thesis using le by (cases "border p [c]") auto
  qed
  moreover have "?a ! host_idx c = of_bool (c = c0)" for c
    using host_idx_less [of c] host_idx_less [of c0] by (auto simp: nth_list_update host_idx_inj p)
  ultimately have row0: "row_ok p ?a 0" by (simp add: row_ok_def)
  obtain X a where x: "fold (automato_step p) [1..<length p] (0, ?a) = (X, a)" by fastforce
  then have "length a = length p * 256" "\<forall>k < length p. row_ok p a k"
    using automato_loop_ok [OF _ row0, of "length p"] by (simp_all add: p)
  moreover have "kmp_automato p = Inr a" using x by (simp add: kmp_automato_def p CHARS_IN_BYTE_def)
  ultimately show ?thesis by (simp add: row_ok_def CHARS_IN_BYTE_def device_host_idx)
qed

text \<open>C33: the automaton built for a non-empty search term takes every state \<open>j\<close> and every character to the
  length of the longest prefix of the term that ends the first \<open>j\<close> characters of the term and the
  character.\<close>

theorem kmp_automato_correct:
  assumes "p \<noteq> []"
  shows "\<exists>a. kmp_automato p = Inr a \<and> length a = length p * CHARS_IN_BYTE \<and>
    (\<forall>c. \<forall>j \<in> {..<length p}. a ! (j * CHARS_IN_BYTE + device_idx c) = border p (take j p @ [c]))"
  using kmp_automato_ok [OF assms] by auto

theorem kmp_automato_correct_witness:
  "\<exists>a. kmp_automato [0x61, 0x61, 0x62] = Inr a \<and> a ! (2 * 256 + device_idx 0x61) = 2"
proof -
  obtain a where "kmp_automato [0x61, 0x61, 0x62] = Inr a" and
    "\<forall>c. \<forall>j \<in> {..<length [0x61, 0x61, 0x62]}. a ! (j * CHARS_IN_BYTE + device_idx c) =
       border [0x61, 0x61, 0x62] (take j [0x61, 0x61, 0x62] @ [c])"
    using kmp_automato_correct [of "[0x61, 0x61, 0x62]"] by auto
  moreover from this(2) [rule_format, of 2 "0x61"]
  have "a ! (2 * 256 + device_idx 0x61) = border [0x61, 0x61, 0x62] [0x61, 0x61, 0x61]"
    by (simp add: CHARS_IN_BYTE_def)
  moreover have "border [0x61, 0x61, 0x62] [0x61, 0x61, 0x61] = 2" by code_simp
  ultimately show ?thesis by auto
qed

end
