(* ===== verification/String_Matching.thy ===== *)
theory String_Matching
  imports Kmp_Automaton Kernel_Grid
begin

text \<open>
  The string matching kernels (\<open>src/src/cuda/operator/strings_matching.cu\<close>): the binary search for the
  string in which a chunk of the character data starts, the kernel in which every thread runs the
  automaton of the search term over its part of a chunk, and the prefix kernel.  A string column is the character data and the offsets of its strings, one more than
  there are strings; offsets and positions are natural numbers (a column has far fewer than \<open>2 ^ 63\<close>
  bytes).
\<close>

section \<open>The string a chunk starts in\<close>

definition CHUNK_SIZE :: nat where "CHUNK_SIZE = 8192"
definition THREADS_PER_BLOCK_STRINGS :: nat where "THREADS_PER_BLOCK_STRINGS = 512"

text \<open>Below the first string the unsigned upper bound wraps around and the next probe is out of bounds.\<close>

function search_term :: "nat list \<Rightarrow> nat \<Rightarrow> nat \<Rightarrow> nat \<Rightarrow> nat res" where
  "search_term indices chunk_start lo hi =
     (if hi < lo then Inr 0
      else let curr = (lo + hi) div 2 in
        res_bind (vec_at indices curr) (\<lambda>start.
        if chunk_start < start
        then (if curr = 0 then Inl (UndefinedBehaviour ''binary search below the first string'')
              else search_term indices chunk_start lo (curr - 1))
        else res_bind (vec_at indices (curr + 1)) (\<lambda>stop.
          if chunk_start < stop then Inr curr else search_term indices chunk_start (curr + 1) hi)))"
  by pat_completeness auto
termination by (relation "measure (\<lambda>(indices, x, lo, hi). Suc hi - lo)") auto

declare search_term.simps [simp del]

definition determine_start :: "nat list \<Rightarrow> nat \<Rightarrow> nat \<Rightarrow> nat \<Rightarrow> nat res" where
  "determine_start indices num_strings last_char tid =
     search_term indices (min (tid * CHUNK_SIZE) last_char) 0 num_strings"

section \<open>The matching kernels\<close>

text \<open>The positions of a thread: its part of the chunk, and as many characters behind it as the term has.\<close>

definition sub_chunk :: "nat \<Rightarrow> nat \<Rightarrow> nat \<Rightarrow> nat \<Rightarrow> nat \<times> nat" where
  "sub_chunk pattern_size last_char chunk_id thread =
     (let sub_chunk_size = (CHUNK_SIZE + THREADS_PER_BLOCK_STRINGS - 1) div THREADS_PER_BLOCK_STRINGS;
          curr_chunk_start = min (chunk_id * CHUNK_SIZE) last_char;
          curr_chunk_end = min (curr_chunk_start + CHUNK_SIZE + pattern_size) last_char;
          curr_sub_chunk_start = min (curr_chunk_start + thread * sub_chunk_size) curr_chunk_end
      in (curr_sub_chunk_start, min (curr_sub_chunk_start + sub_chunk_size + pattern_size) curr_chunk_end))"

definition first_term :: "nat list \<Rightarrow> nat \<Rightarrow> nat \<Rightarrow> nat \<Rightarrow> nat" where
  "first_term indices num_strings start i =
     (case find (\<lambda>t. indices ! t \<le> i \<and> i < indices ! (t + 1)) [start..<num_strings] of
        Some t \<Rightarrow> t | None \<Rightarrow> num_strings)"

text \<open>The loop over the positions; its results are the hits, a string and the position where the term
  ends.  After a hit the automaton starts again.\<close>

fun kmp_loop ::
  "u8 list \<Rightarrow> nat list \<Rightarrow> nat list \<Rightarrow> nat \<Rightarrow> nat list \<Rightarrow> nat \<Rightarrow> nat \<Rightarrow> nat \<Rightarrow> (nat \<times> nat) list res" where
  "kmp_loop chars indices automato pattern_size [] curr_term curr_term_end j = Inr []"
| "kmp_loop chars indices automato pattern_size (i # is) curr_term curr_term_end j =
     res_bind (if curr_term_end \<le> i then res_bind (vec_at indices (curr_term + 2)) (\<lambda>e. Inr (curr_term + 1, e, 0))
               else Inr (curr_term, curr_term_end, j)) (\<lambda>(curr_term, curr_term_end, j).
     res_bind (vec_at chars i) (\<lambda>c.
     res_bind (vec_at automato (j * CHARS_IN_BYTE + device_idx c)) (\<lambda>j.
     if pattern_size \<le> j
     then res_bind (kmp_loop chars indices automato pattern_size is curr_term curr_term_end 0)
            (\<lambda>hits. Inr ((curr_term, i) # hits))
     else kmp_loop chars indices automato pattern_size is curr_term curr_term_end j)))"

definition kmp_thread ::
  "u8 list \<Rightarrow> nat list \<Rightarrow> nat list \<Rightarrow> nat \<Rightarrow> nat \<Rightarrow> nat \<Rightarrow> nat \<Rightarrow> nat \<Rightarrow> (nat \<times> nat) list res" where
  "kmp_thread chars indices automato pattern_size num_strings last_char chunk_id thread =
     (let (lo, hi) = sub_chunk pattern_size last_char chunk_id thread in
      res_bind (determine_start indices num_strings last_char chunk_id) (\<lambda>start.
      let curr_term = first_term indices num_strings start lo in
      res_bind (vec_at indices (curr_term + 1)) (\<lambda>curr_term_end.
      kmp_loop chars indices automato pattern_size [lo..<hi + 1] curr_term curr_term_end 0)))"

definition workers_needed :: "nat \<Rightarrow> nat" where
  "workers_needed num_chars = (num_chars + CHUNK_SIZE - 1) div CHUNK_SIZE"

definition kmp_hits :: "u8 list \<Rightarrow> nat list \<Rightarrow> nat list \<Rightarrow> nat \<Rightarrow> nat \<Rightarrow> nat \<Rightarrow> (nat \<times> nat) list res" where
  "kmp_hits chars indices automato pattern_size num_strings num_chars =
     res_bind (res_mapM (\<lambda>chunk. res_bind (res_mapM
         (kmp_thread chars indices automato pattern_size num_strings (num_chars - 1) chunk)
         [0..<THREADS_PER_BLOCK_STRINGS]) (\<lambda>hits. Inr (concat hits)))
       [0..<workers_needed num_chars]) (\<lambda>hits. Inr (concat hits))"

text \<open>All threads only store \<open>true\<close>, so that their order does not matter.\<close>

definition single_term_kmp :: "u8 list \<Rightarrow> nat list \<Rightarrow> nat list \<Rightarrow> nat \<Rightarrow> nat \<Rightarrow> nat \<Rightarrow> bool list res" where
  "single_term_kmp chars indices automato pattern_size num_strings num_chars =
     res_bind (kmp_hits chars indices automato pattern_size num_strings num_chars) (\<lambda>hits.
     if \<forall>(t, i) \<in> set hits. t < num_strings then Inr (map (\<lambda>r. r \<in> fst ` set hits) [0..<num_strings])
     else Inl (UndefinedBehaviour ''store behind the results''))"

definition DoStringMatching :: "u8 list \<Rightarrow> nat \<Rightarrow> nat list \<Rightarrow> nat \<Rightarrow> u8 list \<Rightarrow> bool list res" where
  "DoStringMatching input_data input_count input_offsets byte_count match_string =
     res_bind (kmp_automato match_string) (\<lambda>automato.
     single_term_kmp input_data input_offsets automato (length match_string) input_count byte_count)"

text \<open>The prefix kernel: a grid-stride loop over the strings.\<close>

definition prefix_row :: "u8 list \<Rightarrow> nat list \<Rightarrow> u8 list \<Rightarrow> nat \<Rightarrow> bool res" where
  "prefix_row chars indices prefix_chars i =
     res_bind (vec_at indices i) (\<lambda>start. res_bind (vec_at indices (i + 1)) (\<lambda>stop.
       if stop - start < length prefix_chars then Inr False
       else if start + length prefix_chars \<le> length chars
         then Inr (find (\<lambda>j. chars ! (start + j) \<noteq> prefix_chars ! j) [0..<length prefix_chars] = None)
         else Inl (UndefinedBehaviour ''read behind the characters'')))"

definition DoPrefixMatching :: "u8 list \<Rightarrow> nat \<Rightarrow> nat list \<Rightarrow> u8 list \<Rightarrow> bool list res" where
  "DoPrefixMatching input_data input_count input_offsets match_prefix =
     res_mapM (prefix_row input_data input_offsets match_prefix) [0..<input_count]"

section \<open>Columns without empty strings\<close>

definition strings_ok :: "u8 list \<Rightarrow> nat list \<Rightarrow> nat \<Rightarrow> bool" where
  "strings_ok chars os n \<longleftrightarrow> length os = n + 1 \<and> os ! 0 = 0 \<and> os ! n = length chars \<and> (\<forall>t < n. os ! t < os ! (t + 1))"

lemma strings_ok_less: "strings_ok chars os n \<Longrightarrow> s < t \<Longrightarrow> t \<le> n \<Longrightarrow> os ! s < os ! t"
proof (induction t)
  case (Suc t)
  then have "os ! t < os ! Suc t" "s < t \<Longrightarrow> os ! s < os ! t" by (auto simp: strings_ok_def)
  then show ?case using Suc.prems(2) by (cases "s = t") auto
qed simp

lemma strings_ok_le: "strings_ok chars os n \<Longrightarrow> s \<le> t \<Longrightarrow> t \<le> n \<Longrightarrow> os ! s \<le> os ! t"
  using strings_ok_less [of chars os n s t] by (cases "s = t") auto

lemma string_below:
  assumes "strings_ok chars os n" and "s \<le> n" and "os ! s \<le> x" and "x < os ! (t + 1)"
  shows "s \<le> t"
proof (rule ccontr)
  assume "\<not> s \<le> t"
  then have "os ! (t + 1) \<le> os ! s" using assms(1,2) by (intro strings_ok_le) simp_all
  then show False using assms(3,4) by simp
qed

lemma string_of_position:
  assumes "strings_ok chars os n" and "x < length chars"
  shows "\<exists>t < n. os ! t \<le> x \<and> x < os ! (t + 1)"
proof -
  have "x < os ! t \<Longrightarrow> t \<le> n \<Longrightarrow> \<exists>t < n. os ! t \<le> x \<and> x < os ! (t + 1)" for t
  proof (induction t)
    case 0
    then show ?case using assms(1) by (simp add: strings_ok_def)
  next
    case (Suc t)
    then show ?case by (cases "x < os ! t") (simp_all, metis Suc_le_lessD not_less)
  qed
  from this [of n] show ?thesis using assms by (simp add: strings_ok_def)
qed

text \<open>The binary search finds the string, and the walk to the thread's string ends there.\<close>

lemma search_term_finds:
  assumes ok: "strings_ok chars os n" and t: "t < n" "os ! t \<le> x" "x < os ! (t + 1)"
  shows "lo \<le> t \<Longrightarrow> t \<le> hi \<Longrightarrow> hi \<le> n \<Longrightarrow> search_term os x lo hi = Inr t"
proof (induction "Suc hi - lo" arbitrary: lo hi rule: less_induct)
  case less
  let ?c = "(lo + hi) div 2"
  have c: "?c < n" "lo \<le> ?c" "?c \<le> hi" using less.prems t(1) by auto
  then have len: "?c < length os" "Suc ?c < length os" using ok by (simp_all add: strings_ok_def)
  have below: "t \<le> ?c" if "x < os ! (?c + 1)" using string_below [OF ok _ t(2) that] t(1) by simp
  have above: "?c \<le> t" if "os ! ?c \<le> x" using string_below [OF ok _ that t(3)] c(1) by simp
  have unfold: "search_term os x lo hi = (if x < os ! ?c then (if ?c = 0 then Inl (UndefinedBehaviour ''binary search below the first string'')
       else search_term os x lo (?c - 1)) else if x < os ! (?c + 1) then Inr ?c else search_term os x (?c + 1) hi)"
    using less.prems len by (subst search_term.simps) (simp add: Let_def vec_at_def)
  consider "x < os ! ?c" | "os ! ?c \<le> x" "x < os ! (?c + 1)" | "os ! (?c + 1) \<le> x" "os ! ?c \<le> x" by linarith
  then show ?case
  proof cases
    case 1
    then have "t < ?c" using strings_ok_le [OF ok, of ?c t] t by (cases "t < ?c") auto
    then show ?thesis unfolding unfold using 1 less c by simp
  next
    case 2
    then show ?thesis unfolding unfold using below above by simp
  next
    case 3
    then have "?c + 1 \<le> t" using string_below [OF ok _ 3(1) t(3)] c(1) by simp
    then show ?thesis unfolding unfold using 3 less c by simp
  qed
qed

lemma first_term_finds:
  assumes "strings_ok chars os n" and "t < n" and "os ! t \<le> i" and "i < os ! (t + 1)" and "start \<le> t"
  shows "first_term os n start i = t"
proof -
  have "find (\<lambda>t. os ! t \<le> i \<and> i < os ! (t + 1)) [start..<n] = Some t"
    unfolding find_Some_iff
  proof (intro exI [of _ "t - start"] conjI allI impI)
    fix k assume "k < t - start"
    then show "\<not> (os ! ([start..<n] ! k) \<le> i \<and> i < os ! ([start..<n] ! k + 1))"
      using string_below [OF assms(1), of t i "start + k"] assms by auto
  qed (use assms in auto)
  then show ?thesis by (simp add: first_term_def)
qed

section \<open>What the loop finds\<close>

definition occurs :: "u8 list \<Rightarrow> nat list \<Rightarrow> nat \<Rightarrow> u8 list \<Rightarrow> nat \<Rightarrow> nat \<Rightarrow> bool" where
  "occurs chars os n p r q \<longleftrightarrow> r < n \<and> os ! r \<le> q \<and> q + length p \<le> os ! (r + 1) \<and> take (length p) (drop q chars) = p"

definition good_hits :: "u8 list \<Rightarrow> nat list \<Rightarrow> nat \<Rightarrow> u8 list \<Rightarrow> nat \<Rightarrow> nat \<Rightarrow> nat \<Rightarrow> (nat \<times> nat) list \<Rightarrow> bool" where
  "good_hits chars os n p base i e hits \<longleftrightarrow>
     (\<forall>(r, k) \<in> set hits. \<exists>q. occurs chars os n p r q \<and> k + 1 = q + length p) \<and>
     (\<forall>r q. occurs chars os n p r q \<longrightarrow> base \<le> q \<longrightarrow> i < q + length p \<longrightarrow> q + length p \<le> e \<longrightarrow> r \<in> fst ` set hits)"

lemma suffix_segment:
  assumes "base \<le> e" and "e \<le> length chars"
  shows "suffix p (drop base (take e chars)) \<longleftrightarrow> base + length p \<le> e \<and> take (length p) (drop (e - length p) chars) = p"
proof -
  let ?w = "drop base (take e chars)"
  have w: "length ?w = e - base" using assms by simp
  have "length p \<le> length ?w \<and> drop (length ?w - length p) ?w = p" if s: "suffix p ?w"
  proof -
    obtain z where "?w = z @ p" using s unfolding suffix_def by blast
    then have "length ?w = length z + length p" "drop (length z) ?w = p" by (metis length_append, metis append_eq_conv_conj)
    then show ?thesis by (simp only: add_diff_cancel_right' le_add2 simp_thms)
  qed
  then have "suffix p ?w \<longleftrightarrow> length p \<le> length ?w \<and> drop (length ?w - length p) ?w = p"
    using suffix_drop [of "length ?w - length p" ?w] by (metis suffix_order.refl)
  moreover have "drop (length ?w - length p) ?w = take (length p) (drop (e - length p) chars)" if "base + length p \<le> e"
  proof -
    have "e - base - length p + base = e - length p" "e - (e - length p) = length p" using that by simp_all
    then show ?thesis unfolding w by (simp add: drop_take)
  qed
  ultimately show ?thesis using w assms by (cases "base + length p \<le> e") auto
qed

text \<open>Into the next string, past a character without a hit, and past a hit.\<close>

lemma good_hits_switch:
  assumes "strings_ok chars os n" and "t < n" and "os ! t \<le> base" and "i = os ! (t + 1)" and "good_hits chars os n p i i e hits"
  shows "good_hits chars os n p base i e hits"
proof -
  have "i \<le> q" if "occurs chars os n p r q" "i < q + length p" for r q
  proof (rule ccontr)
    assume "\<not> i \<le> q"
    then have "r \<le> t" using that(1) string_below [OF assms(1), of r q t] assms(2,4) by (auto simp: occurs_def)
    then have "os ! (r + 1) \<le> os ! (t + 1)" using strings_ok_le [OF assms(1), of "r + 1" "t + 1"] assms(2) by simp
    then show False using that assms(4) by (simp add: occurs_def)
  qed
  then show ?thesis using assms(5) by (simp add: good_hits_def)
qed

lemma good_hits_miss:
  assumes "e \<le> length chars" and "i < e" and "base \<le> i" and "\<not> suffix p (drop base (take (Suc i) chars))"
    and "good_hits chars os n p base (Suc i) e hits"
  shows "good_hits chars os n p base i e hits"
proof -
  have "Suc i < q + length p" if "occurs chars os n p r q" "base \<le> q" "i < q + length p" for r q
  proof (rule ccontr)
    assume "\<not> Suc i < q + length p"
    then have "q + length p = Suc i" using that(3) by simp
    then have "Suc i - length p = q" by simp
    then show False using assms(1-4) suffix_segment [of base "Suc i" chars p] that \<open>q + length p = Suc i\<close> by (simp add: occurs_def)
  qed
  then show ?thesis using assms(5) by (simp add: good_hits_def)
qed

lemma good_hits_hit:
  assumes ok: "strings_ok chars os n" and t: "t < n" "os ! t \<le> base" "base \<le> i" "i < os ! (t + 1)" and e: "e \<le> length chars" "i < e"
    and hit: "suffix p (drop base (take (Suc i) chars))" and p: "p \<noteq> []"
    and rest: "good_hits chars os n p (Suc i) (Suc i) e hits"
  shows "good_hits chars os n p base i e ((t, i) # hits)"
proof -
  have s: "base + length p \<le> Suc i" "take (length p) (drop (Suc i - length p) chars) = p"
    using hit suffix_segment [of base "Suc i" chars p] t e by simp_all
  then have "occurs chars os n p t (Suc i - length p) \<and> i + 1 = (Suc i - length p) + length p" using t by (simp add: occurs_def)
  then have sound: "\<forall>(r, k) \<in> set ((t, i) # hits). \<exists>q. occurs chars os n p r q \<and> k + 1 = q + length p"
    using rest by (auto simp: good_hits_def)
  have "r \<in> fst ` set ((t, i) # hits)" if o: "occurs chars os n p r q" "base \<le> q" "q + length p \<le> e" for r q
  proof (cases "Suc i \<le> q")
    case True
    moreover have "Suc i < q + length p" using True p by (cases p) simp_all
    ultimately show ?thesis using rest o by (auto simp: good_hits_def)
  next
    case False
    have "q < os ! (t + 1)" "os ! t \<le> q" using False t o(2) by simp_all
    moreover have "q < os ! (r + 1)" using o(1) p by (cases p) (auto simp: occurs_def)
    ultimately have "r = t"
      using string_below [OF ok, of r q t] string_below [OF ok, of t q r] t(1) o(1) by (simp add: occurs_def antisym)
    then show ?thesis by simp
  qed
  with sound show ?thesis by (auto simp: good_hits_def)
qed

definition automaton_for :: "u8 list \<Rightarrow> nat list \<Rightarrow> bool" where
  "automaton_for p a \<longleftrightarrow> length a = length p * CHARS_IN_BYTE \<and>
     (\<forall>j c. j < length p \<longrightarrow> a ! (j * CHARS_IN_BYTE + device_idx c) = border p (take j p @ [c]))"

lemma automaton_next:
  assumes "automaton_for p a" and "border p w < length p"
  shows "vec_at a (border p w * CHARS_IN_BYTE + device_idx c) = Inr (border p (w @ [c]))"
proof -
  have "device_idx c < CHARS_IN_BYTE" by (simp add: device_host_idx host_idx_less CHARS_IN_BYTE_def)
  moreover have "(border p w + 1) * CHARS_IN_BYTE \<le> length p * CHARS_IN_BYTE" using assms(2) by (intro mult_le_mono1) simp
  ultimately have "border p w * CHARS_IN_BYTE + device_idx c < length a" using assms(1) by (simp add: automaton_for_def)
  then show ?thesis using assms border_append [of p w c] by (simp add: vec_at_def automaton_for_def)
qed

lemma kmp_loop_good:
  assumes ok: "strings_ok chars os n" and aut: "automaton_for p a" and p: "p \<noteq> []" and e: "e \<le> length chars"
  shows "t < n \<Longrightarrow> os ! t \<le> base \<Longrightarrow> base \<le> i \<Longrightarrow> i \<le> os ! (t + 1) \<Longrightarrow> i \<le> e \<Longrightarrow>
    border p (drop base (take i chars)) < length p \<Longrightarrow>
    \<exists>hits. kmp_loop chars os a (length p) [i..<e] t (os ! (t + 1)) (border p (drop base (take i chars))) = Inr hits \<and>
      good_hits chars os n p base i e hits"
proof (induction "e - i" arbitrary: i t base)
  case 0
  then show ?case using p by (auto simp: good_hits_def)
next
  case (Suc d)
  have ie: "i < e" and d: "d = e - Suc i" using Suc.hyps(2) by simp_all
  have upt: "[i..<e] = i # [Suc i..<e]" using ie by (rule upt_conv_Cons)
  have ic: "i < length chars" using ie e by simp
  have run: "\<exists>hits. (res_bind (vec_at a (border p (drop base (take i chars)) * CHARS_IN_BYTE + device_idx (chars ! i))) (\<lambda>j.
      if length p \<le> j then res_bind (kmp_loop chars os a (length p) [Suc i..<e] t (os ! (t + 1)) 0) (\<lambda>hits. Inr ((t, i) # hits))
      else kmp_loop chars os a (length p) [Suc i..<e] t (os ! (t + 1)) j)) = Inr hits \<and> good_hits chars os n p base i e hits"
    if t: "t < n" "os ! t \<le> base" "base \<le> i" "i < os ! (t + 1)" and j: "border p (drop base (take i chars)) < length p" for t base
  proof -
    have snoc: "drop base (take i chars) @ [chars ! i] = drop base (take (Suc i) chars)"
      using t(3) ic by (simp add: take_Suc_conv_app_nth)
    note next_j = automaton_next [OF aut j, of "chars ! i", unfolded snoc]
    show ?thesis
    proof (cases "suffix p (drop base (take (Suc i) chars))")
      case True
      then have full: "border p (drop base (take (Suc i) chars)) = length p" by (simp add: border_full)
      have "drop (Suc i) (take (Suc i) chars) = []" by simp
      then obtain hits where h: "kmp_loop chars os a (length p) [Suc i..<e] t (os ! (t + 1)) 0 = Inr hits"
        "good_hits chars os n p (Suc i) (Suc i) e hits"
        using Suc.hyps(1) [OF d, of t "Suc i"] t p ie by auto
      then show ?thesis using next_j full good_hits_hit [OF ok t e ie True p h(2)] by simp
    next
      case False
      then have less: "border p (drop base (take (Suc i) chars)) < length p"
        using border_full border_le [of p "drop base (take (Suc i) chars)"] by (metis le_neq_implies_less)
      then obtain hits where h: "kmp_loop chars os a (length p) [Suc i..<e] t (os ! (t + 1)) (border p (drop base (take (Suc i) chars))) = Inr hits"
        "good_hits chars os n p base (Suc i) e hits"
        using Suc.hyps(1) [OF d, of t base] t ie by auto
      then show ?thesis using next_j less good_hits_miss [OF e ie t(3) False h(2)] by simp
    qed
  qed
  show ?case
  proof (cases "os ! (t + 1) \<le> i")
    case True
    then have i: "i = os ! (t + 1)" using Suc.prems by simp
    have "t + 1 \<noteq> n" using i ic ok by (auto simp: strings_ok_def)
    then have t1: "t + 1 < n" using Suc.prems by simp
    then have len: "t + 2 < length os" and less: "i < os ! (t + 1 + 1)" using ok i by (auto simp: strings_ok_def)
    have v: "vec_at os (t + 2) = Inr (os ! (t + 1 + 1))" "vec_at chars i = Inr (chars ! i)" using len ic by (simp_all add: vec_at_def)
    have empty: "drop i (take i chars) = []" by simp
    obtain hits where h: "(res_bind (vec_at a (border p (drop i (take i chars)) * CHARS_IN_BYTE + device_idx (chars ! i))) (\<lambda>j.
      if length p \<le> j then res_bind (kmp_loop chars os a (length p) [Suc i..<e] (t + 1) (os ! (t + 1 + 1)) 0) (\<lambda>hits. Inr ((t + 1, i) # hits))
      else kmp_loop chars os a (length p) [Suc i..<e] (t + 1) (os ! (t + 1 + 1)) j)) = Inr hits" "good_hits chars os n p i i e hits"
      using run [OF t1 _ _ less, of i] i p empty by auto
    have "good_hits chars os n p base i e hits" by (rule good_hits_switch [OF ok Suc.prems(1,2) i h(2)])
    moreover have "kmp_loop chars os a (length p) [i..<e] t (os ! (t + 1)) (border p (drop base (take i chars))) = Inr hits"
      using h(1) True v unfolding upt empty border_empty by (simp cong: if_cong)
    ultimately show ?thesis by blast
  next
    case False
    then have "\<not> os ! (t + 1) \<le> i" "i < os ! (t + 1)" by simp_all
    moreover have "vec_at chars i = Inr (chars ! i)" using ic by (simp add: vec_at_def)
    ultimately show ?thesis using run [of t base] Suc.prems unfolding upt by (simp cong: if_cong)
  qed
qed

section \<open>What the kernel finds\<close>

lemma thread_positions:
  assumes "sub_chunk m last_char chunk thread = (lo, hi)"
  shows "min (chunk * CHUNK_SIZE) last_char \<le> lo" and "lo \<le> hi" and "hi \<le> last_char"
proof -
  let ?s = "min (chunk * CHUNK_SIZE) last_char" and ?k = "(CHUNK_SIZE + THREADS_PER_BLOCK_STRINGS - 1) div THREADS_PER_BLOCK_STRINGS"
  let ?e = "min (?s + CHUNK_SIZE + m) last_char"
  have lo: "lo = min (?s + thread * ?k) ?e" and hi: "hi = min (lo + ?k + m) ?e" using assms by (auto simp only: sub_chunk_def Let_def prod.inject)
  have se: "?s \<le> ?e" "?e \<le> last_char" by simp_all
  show "?s \<le> lo" unfolding lo using se(1) by (intro min.boundedI) simp_all
  have "lo \<le> ?e" unfolding lo by (rule min.cobounded2)
  then show "lo \<le> hi" unfolding hi by simp
  show "hi \<le> last_char" unfolding hi using se(2) by (meson le_trans min.cobounded2)
qed

lemma kmp_thread_good:
  assumes ok: "strings_ok chars os n" and aut: "automaton_for p a" and p: "p \<noteq> []" and chars: "chars \<noteq> []"
    and sub: "sub_chunk (length p) (length chars - 1) chunk thread = (lo, hi)"
  shows "\<exists>hits. kmp_thread chars os a (length p) n (length chars - 1) chunk thread = Inr hits \<and> good_hits chars os n p lo lo (hi + 1) hits"
proof -
  note pos = thread_positions [OF sub]
  have last: "length chars - 1 < length chars" using chars by (cases chars) simp_all
  let ?x = "min (chunk * CHUNK_SIZE) (length chars - 1)"
  obtain s where s: "s < n" "os ! s \<le> ?x" "?x < os ! (s + 1)" using string_of_position [OF ok, of ?x] last by (auto simp only: min.strict_coboundedI2)
  then have start: "determine_start os n (length chars - 1) chunk = Inr s"
    unfolding determine_start_def by (intro search_term_finds [OF ok]) simp_all
  obtain t where t: "t < n" "os ! t \<le> lo" "lo < os ! (t + 1)" using string_of_position [OF ok, of lo] pos last by auto
  have "s \<le> t" using string_below [OF ok _ _ t(3), of s] s pos(1) by auto
  then have first: "first_term os n s lo = t" by (intro first_term_finds [OF ok t])
  have stop: "vec_at os (t + 1) = Inr (os ! (t + 1))" using ok t(1) by (simp add: vec_at_def strings_ok_def)
  have "border p (drop lo (take lo chars)) = 0" by simp
  then obtain hits where "kmp_loop chars os a (length p) [lo..<hi + 1] t (os ! (t + 1)) 0 = Inr hits" "good_hits chars os n p lo lo (hi + 1) hits"
    using kmp_loop_good [OF ok aut p, of "hi + 1" t lo lo] t pos last p by auto
  then show ?thesis by (simp only: kmp_thread_def sub prod.case start first stop Let_def res_bind_simps) blast
qed

text \<open>Every occurrence lies in the positions of the thread in whose part it starts.\<close>

lemma thread_of_position:
  assumes "q + m \<le> N" and "0 < m"
  shows "\<exists>chunk thread lo hi. chunk < workers_needed N \<and> thread < THREADS_PER_BLOCK_STRINGS \<and>
    sub_chunk m (N - 1) chunk thread = (lo, hi) \<and> lo \<le> q \<and> q + m \<le> hi + 1"
proof (intro exI conjI)
  let ?chunk = "q div 8192" and ?thread = "(q mod 8192) div 16"
  have q: "?chunk * 8192 + ?thread * 16 + q mod 16 = q"
  proof -
    have "q = 8192 * ?chunk + q mod 8192" by simp
    moreover have "q mod 8192 = 16 * ?thread + q mod 8192 mod 16" by simp
    moreover have "q mod 8192 mod 16 = q mod 16" by (rule mod_mod_cancel) simp
    ultimately show ?thesis by linarith
  qed
  have r: "q mod 16 < 16" "?thread * 16 \<le> 8176" by simp_all
  show "?chunk < workers_needed N" using assms unfolding workers_needed_def CHUNK_SIZE_def by simp
  show "?thread < THREADS_PER_BLOCK_STRINGS" by (simp add: THREADS_PER_BLOCK_STRINGS_def)
  show "sub_chunk m (N - 1) ?chunk ?thread = (fst (sub_chunk m (N - 1) ?chunk ?thread), snd (sub_chunk m (N - 1) ?chunk ?thread))" by simp
  have size: "(8192 + 512 - 1) div 512 = (16 :: nat)" by simp
  have start: "min (?chunk * 8192) (N - 1) = ?chunk * 8192" using q assms by simp
  have lo: "min (?chunk * 8192 + ?thread * 16) (min (?chunk * 8192 + 8192 + m) (N - 1)) = ?chunk * 8192 + ?thread * 16"
    using q r assms by (intro min_absorb1 min.boundedI) linarith+
  have sub: "sub_chunk m (N - 1) ?chunk ?thread = (?chunk * 8192 + ?thread * 16,
      min (?chunk * 8192 + ?thread * 16 + 16 + m) (min (?chunk * 8192 + 8192 + m) (N - 1)))"
    unfolding sub_chunk_def Let_def CHUNK_SIZE_def THREADS_PER_BLOCK_STRINGS_def size start lo ..
  show "fst (sub_chunk m (N - 1) ?chunk ?thread) \<le> q" unfolding sub using q by simp
  have "q + m - 1 \<le> min (?chunk * 8192 + ?thread * 16 + 16 + m) (min (?chunk * 8192 + 8192 + m) (N - 1))"
    using q r assms by (intro min.boundedI) linarith+
  then show "q + m \<le> snd (sub_chunk m (N - 1) ?chunk ?thread) + 1" unfolding sub snd_conv by (simp only: le_diff_conv)
qed

lemma concat_mapM:
  assumes "\<forall>x \<in> set xs. \<exists>y. f x = Inr y \<and> Q x y"
  shows "\<exists>ys. res_bind (res_mapM f xs) (\<lambda>h. Inr (concat h)) = Inr ys \<and>
    (\<forall>z \<in> set ys. \<exists>x \<in> set xs. \<exists>y. Q x y \<and> z \<in> set y) \<and> (\<forall>x \<in> set xs. \<exists>y. Q x y \<and> set y \<subseteq> set ys)"
  using assms
proof (induction xs)
  case (Cons x xs)
  then obtain y where y: "f x = Inr y" "Q x y" by auto
  obtain ys where ys: "res_bind (res_mapM f xs) (\<lambda>h. Inr (concat h)) = Inr ys"
    "\<forall>z \<in> set ys. \<exists>x \<in> set xs. \<exists>y. Q x y \<and> z \<in> set y" "\<forall>x \<in> set xs. \<exists>y. Q x y \<and> set y \<subseteq> set ys"
    using Cons by auto
  have "res_bind (res_mapM f (x # xs)) (\<lambda>h. Inr (concat h)) = Inr (y @ ys)"
    using y(1) ys(1) by (auto simp: res_bind_Inr_iff)
  moreover have "\<forall>z \<in> set (y @ ys). \<exists>x \<in> set (x # xs). \<exists>y. Q x y \<and> z \<in> set y" using y(2) ys(2) by auto
  moreover have "\<exists>y'. Q x' y' \<and> set y' \<subseteq> set (y @ ys)" if x': "x' \<in> set (x # xs)" for x'
  proof (cases "x' = x")
    case True
    then show ?thesis using y(2) by auto
  next
    case False
    then obtain y' where "Q x' y'" "set y' \<subseteq> set ys" using ys(3) x' by auto
    then show ?thesis by (intro exI [of _ y']) auto
  qed
  ultimately show ?case by blast
qed simp

text \<open>All hits of the grid: only occurrences, and one for every string with an occurrence.\<close>

definition thread_hits :: "u8 list \<Rightarrow> nat list \<Rightarrow> nat \<Rightarrow> u8 list \<Rightarrow> nat \<Rightarrow> nat \<Rightarrow> (nat \<times> nat) list \<Rightarrow> bool" where
  "thread_hits chars os n p chunk thread hits \<longleftrightarrow> (case sub_chunk (length p) (length chars - 1) chunk thread of
     (lo, hi) \<Rightarrow> good_hits chars os n p lo lo (hi + 1) hits)"

definition chunk_hits :: "u8 list \<Rightarrow> nat list \<Rightarrow> nat \<Rightarrow> u8 list \<Rightarrow> nat \<Rightarrow> (nat \<times> nat) list \<Rightarrow> bool" where
  "chunk_hits chars os n p chunk hits \<longleftrightarrow>
     (\<forall>z \<in> set hits. \<exists>thread hs. thread_hits chars os n p chunk thread hs \<and> z \<in> set hs) \<and>
     (\<forall>thread < THREADS_PER_BLOCK_STRINGS. \<exists>hs. thread_hits chars os n p chunk thread hs \<and> set hs \<subseteq> set hits)"

lemma chunk_hits_good:
  assumes ok: "strings_ok chars os n" and aut: "automaton_for p a" and p: "p \<noteq> []" and chars: "chars \<noteq> []"
  shows "\<exists>hits. res_bind (res_mapM (kmp_thread chars os a (length p) n (length chars - 1) chunk) [0..<THREADS_PER_BLOCK_STRINGS])
      (\<lambda>h. Inr (concat h)) = Inr hits \<and> chunk_hits chars os n p chunk hits"
proof -
  have "\<exists>hits. kmp_thread chars os a (length p) n (length chars - 1) chunk thread = Inr hits \<and> thread_hits chars os n p chunk thread hits"
    for thread
    using kmp_thread_good [OF ok aut p chars, of chunk thread]
    by (cases "sub_chunk (length p) (length chars - 1) chunk thread") (simp only: thread_hits_def prod.case)
  then obtain hits where
    "res_bind (res_mapM (kmp_thread chars os a (length p) n (length chars - 1) chunk) [0..<THREADS_PER_BLOCK_STRINGS])
      (\<lambda>h. Inr (concat h)) = Inr hits"
    "\<forall>z \<in> set hits. \<exists>thread \<in> set [0..<THREADS_PER_BLOCK_STRINGS]. \<exists>hs. thread_hits chars os n p chunk thread hs \<and> z \<in> set hs"
    "\<forall>thread \<in> set [0..<THREADS_PER_BLOCK_STRINGS]. \<exists>hs. thread_hits chars os n p chunk thread hs \<and> set hs \<subseteq> set hits"
    using concat_mapM [of "[0..<THREADS_PER_BLOCK_STRINGS]" _ "thread_hits chars os n p chunk"] by blast
  then show ?thesis unfolding chunk_hits_def by (intro exI [of _ hits] conjI) (simp, blast, simp)
qed

lemma kmp_hits_threads:
  assumes ok: "strings_ok chars os n" and aut: "automaton_for p a" and p: "p \<noteq> []"
  shows "\<exists>hits. kmp_hits chars os a (length p) n (length chars) = Inr hits \<and>
    (\<forall>z \<in> set hits. \<exists>chunk thread hs. thread_hits chars os n p chunk thread hs \<and> z \<in> set hs) \<and>
    (\<forall>chunk < workers_needed (length chars). \<forall>thread < THREADS_PER_BLOCK_STRINGS.
       \<exists>hs. thread_hits chars os n p chunk thread hs \<and> set hs \<subseteq> set hits)"
proof (cases "chars = []")
  case True
  then have "workers_needed (length chars) = 0" by (simp add: workers_needed_def CHUNK_SIZE_def)
  then show ?thesis by (simp add: kmp_hits_def)
next
  case False
  let ?cs = "[0..<workers_needed (length chars)]"
  have "\<exists>hits. kmp_hits chars os a (length p) n (length chars) = Inr hits \<and>
      (\<forall>z \<in> set hits. \<exists>chunk \<in> set ?cs. \<exists>hs. chunk_hits chars os n p chunk hs \<and> z \<in> set hs) \<and>
      (\<forall>chunk \<in> set ?cs. \<exists>hs. chunk_hits chars os n p chunk hs \<and> set hs \<subseteq> set hits)"
    unfolding kmp_hits_def by (rule concat_mapM) (use chunk_hits_good [OF ok aut p False] in blast)
  then obtain hits where hits: "kmp_hits chars os a (length p) n (length chars) = Inr hits"
    "\<forall>z \<in> set hits. \<exists>chunk \<in> set ?cs. \<exists>hs. chunk_hits chars os n p chunk hs \<and> z \<in> set hs"
    "\<forall>chunk \<in> set ?cs. \<exists>hs. chunk_hits chars os n p chunk hs \<and> set hs \<subseteq> set hits"
    by blast
  have "\<forall>z \<in> set hits. \<exists>chunk thread hs. thread_hits chars os n p chunk thread hs \<and> z \<in> set hs" using hits(2) unfolding chunk_hits_def by blast
  moreover have "\<forall>chunk < workers_needed (length chars). \<forall>thread < THREADS_PER_BLOCK_STRINGS.
      \<exists>hs. thread_hits chars os n p chunk thread hs \<and> set hs \<subseteq> set hits"
  proof (intro allI impI)
    fix chunk thread assume c: "chunk < workers_needed (length chars)" "thread < THREADS_PER_BLOCK_STRINGS"
    then have "chunk \<in> set ?cs" by simp
    with hits(3) obtain hs where hs: "chunk_hits chars os n p chunk hs" "set hs \<subseteq> set hits" by blast
    then obtain hs' where "thread_hits chars os n p chunk thread hs'" "set hs' \<subseteq> set hs" using c(2) unfolding chunk_hits_def by blast
    moreover note hs(2)
    ultimately show "\<exists>hs. thread_hits chars os n p chunk thread hs \<and> set hs \<subseteq> set hits" by blast
  qed
  ultimately show ?thesis using hits(1) by blast
qed

lemma kmp_hits_good:
  assumes ok: "strings_ok chars os n" and aut: "automaton_for p a" and p: "p \<noteq> []"
  shows "\<exists>hits. kmp_hits chars os a (length p) n (length chars) = Inr hits \<and>
    (\<forall>(r, k) \<in> set hits. \<exists>q. occurs chars os n p r q \<and> k + 1 = q + length p) \<and>
    fst ` set hits = {r. \<exists>q. occurs chars os n p r q}"
proof -
  obtain hits where hits: "kmp_hits chars os a (length p) n (length chars) = Inr hits"
    and source: "\<forall>z \<in> set hits. \<exists>chunk thread hs. thread_hits chars os n p chunk thread hs \<and> z \<in> set hs"
    and forth: "\<forall>chunk < workers_needed (length chars). \<forall>thread < THREADS_PER_BLOCK_STRINGS.
       \<exists>hs. thread_hits chars os n p chunk thread hs \<and> set hs \<subseteq> set hits"
    using kmp_hits_threads [OF assms] by blast
  have sound: "\<exists>q. occurs chars os n p r q \<and> k + 1 = q + length p" if "(r, k) \<in> set hits" for r k
  proof -
    obtain chunk thread hs where "thread_hits chars os n p chunk thread hs" "(r, k) \<in> set hs" using source \<open>(r, k) \<in> set hits\<close> by blast
    then show ?thesis unfolding thread_hits_def good_hits_def by (auto split: prod.splits)
  qed
  have complete: "r \<in> fst ` set hits" if o: "occurs chars os n p r q" for r q
  proof -
    have "q + length p \<le> length chars" using o strings_ok_le [OF ok, of "r + 1" n] ok by (auto simp: occurs_def strings_ok_def)
    then obtain chunk thread lo hi where t: "chunk < workers_needed (length chars)" "thread < THREADS_PER_BLOCK_STRINGS"
      "sub_chunk (length p) (length chars - 1) chunk thread = (lo, hi)" "lo \<le> q" "q + length p \<le> hi + 1"
      using thread_of_position [of q "length p" "length chars"] p by auto
    then obtain hs where hs: "set hs \<subseteq> set hits" "good_hits chars os n p lo lo (hi + 1) hs"
      using forth unfolding thread_hits_def by (metis (no_types, lifting) case_prod_conv)
    have "lo < q + length p" using t(4) p by (cases p) simp_all
    then have "r \<in> fst ` set hs" using hs(2) o t(4,5) unfolding good_hits_def by blast
    then show ?thesis using hs(1) by blast
  qed
  have "fst ` set hits = {r. \<exists>q. occurs chars os n p r q}"
  proof (intro set_eqI iffI)
    fix r assume "r \<in> fst ` set hits"
    then show "r \<in> {r. \<exists>q. occurs chars os n p r q}" using sound by force
  qed (use complete in blast)
  then show ?thesis using hits sound by blast
qed

section \<open>String and prefix matching\<close>

definition row_string :: "u8 list \<Rightarrow> nat list \<Rightarrow> nat \<Rightarrow> u8 list" where
  "row_string chars os r = take (os ! (r + 1) - os ! r) (drop (os ! r) chars)"

lemma occurs_sublist:
  assumes "os ! r \<le> os ! (r + 1)" and "os ! (r + 1) \<le> length chars" and "r < n"
  shows "(\<exists>q. occurs chars os n p r q) \<longleftrightarrow> sublist p (row_string chars os r)"
proof
  assume "\<exists>q. occurs chars os n p r q"
  then obtain q where q: "os ! r \<le> q" "q + length p \<le> os ! (r + 1)" "take (length p) (drop q chars) = p" by (auto simp: occurs_def)
  have "p = take (length p) (drop (q - os ! r) (row_string chars os r))"
    using q by (simp add: row_string_def drop_take min_absorb1)
  then show "sublist p (row_string chars os r)" by (metis sublist_take sublist_drop sublist_order.order.trans)
next
  assume "sublist p (row_string chars os r)"
  then obtain u v where uv: "row_string chars os r = u @ p @ v" by (auto simp: sublist_def)
  have len: "length (row_string chars os r) = os ! (r + 1) - os ! r" using assms by (simp add: row_string_def)
  have fits: "os ! r + length u + length p \<le> os ! (r + 1)" using arg_cong [OF uv, of length] len assms(1) by simp
  have "take (length p) (drop (length u) (row_string chars os r)) = p" using uv by simp
  then have "take (length p) (drop (os ! r + length u) chars) = p"
    using fits by (simp add: row_string_def drop_take min_absorb1 add.commute)
  then show "\<exists>q. occurs chars os n p r q" using fits assms(3) by (intro exI [of _ "os ! r + length u"]) (simp add: occurs_def)
qed

lemma string_matching_result:
  assumes "strings_ok chars os n" and "p \<noteq> []"
  shows "DoStringMatching chars n os (length chars) p = Inr (map (\<lambda>r. sublist p (row_string chars os r)) [0..<n])"
proof -
  obtain a where a: "kmp_automato p = Inr a" "automaton_for p a"
    using kmp_automato_ok [OF assms(2)] by (auto simp: automaton_for_def)
  obtain hits where hits: "kmp_hits chars os a (length p) n (length chars) = Inr hits"
    "\<forall>(r, k) \<in> set hits. \<exists>q. occurs chars os n p r q \<and> k + 1 = q + length p" "fst ` set hits = {r. \<exists>q. occurs chars os n p r q}"
    using kmp_hits_good [OF assms(1) a(2) assms(2)] by blast
  have rows: "\<forall>(t, i) \<in> set hits. t < n" using hits(2) by (auto simp: occurs_def)
  have "(\<exists>q. occurs chars os n p r q) \<longleftrightarrow> sublist p (row_string chars os r)" if "r < n" for r
    using strings_ok_le [OF assms(1), of r "r + 1"] strings_ok_le [OF assms(1), of "r + 1" n] assms(1) that
    by (intro occurs_sublist) (auto simp: strings_ok_def)
  then show ?thesis using a(1) hits(1,3) rows by (simp add: DoStringMatching_def single_term_kmp_def)
qed

text \<open>C32: \<open>contains\<close> on a string column without empty strings, for every column length and every way the
  search term lies across chunks and threads: the result is true exactly for the strings in which the
  search term occurs.\<close>

theorem string_matching_contains:
  assumes "strings_ok chars os n" and "p \<noteq> []"
  shows "DoStringMatching chars n os (length chars) p = Inr (map (\<lambda>r. sublist p (row_string chars os r)) [0..<n])"
  using assms by (rule string_matching_result)

theorem string_matching_contains_witness:
  "DoStringMatching [0x78, 0x61, 0x62, 0x63] 2 [0, 1, 4] 4 [0x62, 0x63] = Inr [False, True]"
proof -
  have "strings_ok [0x78, 0x61, 0x62, 0x63] [0, 1, 4] 2" by (simp add: strings_ok_def less_Suc_eq numeral_2_eq_2)
  note result = string_matching_contains [OF this, of "[0x62, 0x63]"]
  have "map (\<lambda>r. sublist [0x62, 0x63] (row_string [0x78, 0x61, 0x62, 0x63] [0, 1, 4] r)) [0..<2] = [False, True]" by code_simp
  moreover have "length [0x78, 0x61, 0x62, 0x63 :: u8] = 4" by simp
  ultimately show ?thesis using result by (simp only:) simp
qed

text \<open>C34: prefix matching, with empty strings too, is true exactly for the strings that start with the
  prefix.\<close>

theorem prefix_matching_starts_with:
  assumes "length os = n + 1" and "\<forall>t < n. os ! t \<le> os ! (t + 1)" and "\<forall>t \<le> n. os ! t \<le> length chars"
  shows "DoPrefixMatching chars n os p = Inr (map (\<lambda>r. prefix p (row_string chars os r)) [0..<n])"
proof -
  have row: "prefix_row chars os p r = Inr (prefix p (row_string chars os r))" if "r < n" for r
  proof -
    have b: "os ! r \<le> os ! (r + 1)" "os ! (r + 1) \<le> length chars" using assms(2,3) that by simp_all
    have len: "length (row_string chars os r) = os ! (r + 1) - os ! r" using b by (simp add: row_string_def)
    have v: "vec_at os r = Inr (os ! r)" "vec_at os (r + 1) = Inr (os ! (r + 1))" using assms(1) that by (simp_all add: vec_at_def)
    show ?thesis
    proof (cases "os ! (r + 1) - os ! r < length p")
      case True
      then have "\<not> prefix p (row_string chars os r)" using len prefix_length_le [of p "row_string chars os r"] by auto
      then show ?thesis using True v by (simp add: prefix_row_def)
    next
      case False
      have "find (\<lambda>j. chars ! (os ! r + j) \<noteq> p ! j) [0..<length p] = None \<longleftrightarrow> (\<forall>j < length p. row_string chars os r ! j = p ! j)"
        using False b by (auto simp: find_None_iff row_string_def)
      also have "\<dots> \<longleftrightarrow> take (length p) (row_string chars os r) = p"
        using False len by (auto simp: list_eq_iff_nth_eq)
      also have "\<dots> \<longleftrightarrow> prefix p (row_string chars os r)" by (metis prefix_def append_take_drop_id append_eq_conv_conj)
      finally show ?thesis using False v b by (simp add: prefix_row_def)
    qed
  qed
  have "res_mapM f xs = Inr (map g xs)" if "\<And>x. x \<in> set xs \<Longrightarrow> f x = Inr (g x)" for f g and xs :: "nat list"
    using that by (induction xs) auto
  from this [of "[0..<n]" "prefix_row chars os p" "\<lambda>r. prefix p (row_string chars os r)"]
  show ?thesis using row by (simp add: DoPrefixMatching_def)
qed

theorem prefix_matching_starts_with_witness:
  "DoPrefixMatching [0x61, 0x62, 0x63] 3 [0, 0, 1, 3] [0x62] = Inr [False, False, True]"
proof -
  have "map (\<lambda>r. prefix [0x62] (row_string [0x61, 0x62, 0x63] [0, 0, 1, 3] r)) [0..<3] = [False, False, True]" by code_simp
  then show ?thesis using prefix_matching_starts_with [of "[0, 0, 1, 3]" 3 "[0x61, 0x62, 0x63]" "[0x62]"]
    by (simp add: less_Suc_eq le_Suc_eq numeral_3_eq_3)
qed

lemma res_mapM_map: "(\<And>x. x \<in> set xs \<Longrightarrow> f x = Inr (g x)) \<Longrightarrow> res_mapM f xs = Inr (map g xs)"
  by (induction xs) auto

lemma automaton_single:
  assumes "automaton_for [a] t"
  shows "vec_at t (device_idx c) = Inr (of_bool (c = a))"
proof -
  have "border [a] [c] = of_bool (c = a)"
    using border_full [of "[a]" "[c]"] border_le [of "[a]" "[c]"] by (auto simp: suffix_def le_Suc_eq)
  then show ?thesis using automaton_next [OF assms, of "[]" c] by simp
qed

text \<open>With an empty string in the column the hits move: of the three strings \<open>x\<close>, the empty string and
  \<open>a b\<close>, the search for the one-character term \<open>a\<close> finds the empty string, and finds \<open>a b\<close> only if \<open>b\<close> is
  the term again, because at each character the loop steps on by at most one string.\<close>

theorem empty_string_takes_the_hit:
  "DoStringMatching [x, a, b] 3 [0, 1, 1, 3] 3 [a] = Inr [x = a, True, b = a]"
proof -
  obtain t where t: "kmp_automato [a] = Inr t" "automaton_for [a] t"
    using kmp_automato_ok [of "[a]"] by (auto simp: automaton_for_def)
  note step = automaton_single [OF t(2)]
  let ?hits = "\<lambda>thread. if thread = 0 then (if x = a then [(0, 0)] else []) @ (1, 1) # (if b = a then [(2, 2)] else [])
    else if b = a then [(2, 2)] else [] :: (nat \<times> nat) list"
  have start: "determine_start [0, 1, 1, 3] 3 2 0 = Inr 0" by code_simp
  have sub: "sub_chunk 1 2 0 thread = (if thread = 0 then 0 else 2, 2)" for thread
    by (cases thread) (simp_all add: sub_chunk_def CHUNK_SIZE_def THREADS_PER_BLOCK_STRINGS_def)
  have first: "first_term [0, 1, 1, 3] 3 0 0 = 0" "first_term [0, 1, 1, 3] 3 0 2 = 2" by code_simp+
  have thread: "kmp_thread [x, a, b] [0, 1, 1, 3] t 1 3 2 0 thread = Inr (?hits thread)" for thread
  proof -
    have upt: "[0..<2 + 1] = [0, 1, 2 :: nat]" "[2..<2 + 1] = [2 :: nat]" by code_simp+
    have stop: "vec_at [0, 1, 1, 3] (0 + 1) = (Inr 1 :: nat res)" "vec_at [0, 1, 1, 3] (2 + 1) = (Inr 3 :: nat res)" by code_simp+
    have run: "kmp_thread [x, a, b] [0, 1, 1, 3] t 1 3 2 0 thread =
        (if thread = 0 then kmp_loop [x, a, b] [0, 1, 1, 3] t 1 [0, 1, 2] 0 1 0 else kmp_loop [x, a, b] [0, 1, 1, 3] t 1 [2] 2 3 0)"
      by (cases "thread = 0") (simp_all only: kmp_thread_def sub if_True if_False prod.case start res_bind_simps Let_def first upt stop simp_thms refl)
    show ?thesis unfolding run by (simp add: step vec_at_def [of _ "Suc _"] vec_at_def [of "[x, a, b]"] vec_at_def [of "[0, 1, 1, 3]"])
  qed
  have "workers_needed 3 = 1" by (simp add: workers_needed_def CHUNK_SIZE_def)
  then have hits: "kmp_hits [x, a, b] [0, 1, 1, 3] t 1 3 3 = Inr (concat (map ?hits [0..<THREADS_PER_BLOCK_STRINGS]))"
    using res_mapM_map [of "[0..<THREADS_PER_BLOCK_STRINGS]" _ ?hits, OF thread] by (simp add: kmp_hits_def)
  have set: "set (concat (map ?hits [0..<THREADS_PER_BLOCK_STRINGS])) =
      {(r, i). r = i \<and> (r = 0 \<and> x = a \<or> r = 1 \<or> r = 2 \<and> b = a)}"
    by (auto simp: THREADS_PER_BLOCK_STRINGS_def split: if_splits)
  have "fst ` {(r, i). r = i \<and> (r = 0 \<and> x = a \<or> r = 1 \<or> r = 2 \<and> b = a)} = {r :: nat. r = 0 \<and> x = a \<or> r = 1 \<or> r = 2 \<and> b = a}"
    by force
  moreover have "[0..<3] = [0, 1, 2 :: nat]" by (simp add: upt_conv_Cons)
  moreover obtain H where "kmp_hits [x, a, b] [0, 1, 1, 3] t 1 3 3 = Inr H" "set H = {(r, i). r = i \<and> (r = 0 \<and> x = a \<or> r = 1 \<or> r = 2 \<and> b = a)}"
    using hits set by blast
  ultimately show ?thesis
    using t(1) by (auto simp: DoStringMatching_def single_term_kmp_def)
qed

end
