(* ===== verification/String_Patterns.thy ===== *)
theory String_Patterns
  imports String_Matching
begin

text \<open>
  Patterns of several terms (\<open>DoMultiStringMatching\<close> and its kernel in
  \<open>src/src/cuda/operator/strings_matching.cu\<close>), the splitting of a pattern at its percent signs
  (\<open>string_split\<close> in \<open>src/src/operator/gpu_physical_strings_matching.cpp\<close>) and the dispatch of the string
  predicates to the kernels (\<open>src/src/cuda/expression_executor/gpu_dispatch_string.cu\<close>).
\<close>

section \<open>Several terms\<close>

text \<open>One pass: the hits of a term count where they end at or behind the answer of the term before; the
  answer of a string is the smallest end of such a hit plus the length of the term (\<open>fetch_min\<close>, in any
  order), or the number of characters.\<close>

definition multi_term_kmp ::
  "u8 list \<Rightarrow> nat list \<Rightarrow> nat list \<Rightarrow> nat list \<Rightarrow> nat \<Rightarrow> nat \<Rightarrow> nat \<Rightarrow> (bool list \<times> nat list) res" where
  "multi_term_kmp chars indices automato prev_term_answer pattern_size num_strings num_chars =
     res_bind (kmp_hits chars indices automato pattern_size num_strings num_chars) (\<lambda>hits.
     if \<forall>(t, i) \<in> set hits. t < num_strings
     then let good = filter (\<lambda>(t, i). prev_term_answer ! t \<le> i) hits in
       Inr (map (\<lambda>r. r \<in> fst ` set good) [0..<num_strings],
            map (\<lambda>r. fold min (map (\<lambda>(t, i). i + pattern_size) (filter (\<lambda>(t, i). t = r) good)) num_chars) [0..<num_strings])
     else Inl (UndefinedBehaviour ''store behind the results''))"

text \<open>The passes over the terms; the answers of one are the previous answers of the next.\<close>

fun term_passes ::
  "u8 list \<Rightarrow> nat list \<Rightarrow> nat \<Rightarrow> nat \<Rightarrow> (u8 list \<times> nat list) list \<Rightarrow> nat list \<Rightarrow> bool list \<Rightarrow> bool list res" where
  "term_passes chars indices num_strings num_chars [] prev found = Inr found"
| "term_passes chars indices num_strings num_chars ((match_string, automato) # terms) prev found =
     res_bind (multi_term_kmp chars indices automato prev (length match_string) num_strings num_chars) (\<lambda>(found, answer).
     term_passes chars indices num_strings num_chars terms answer found)"

definition DoMultiStringMatching :: "u8 list \<Rightarrow> nat \<Rightarrow> nat list \<Rightarrow> nat \<Rightarrow> u8 list list \<Rightarrow> bool list res" where
  "DoMultiStringMatching input_data input_count input_offsets byte_count match_strings =
     res_bind (res_mapM kmp_automato match_strings) (\<lambda>automatos.
     if match_strings = [] \<and> input_count \<noteq> 0 then Inl (UndefinedBehaviour ''result never initialised'')
     else term_passes input_data input_offsets input_count byte_count (zip match_strings automatos)
       (take input_count input_offsets) [])"

section \<open>Splitting and dispatch\<close>

text \<open>The pattern is split at single characters, so that the loop makes progress.\<close>

function string_split :: "u8 list \<Rightarrow> u8 \<Rightarrow> u8 list list" where
  "string_split s delimiter =
     (case find (\<lambda>pos. s ! pos = delimiter) [0..<length s] of
        None \<Rightarrow> (if s = [] then [] else [s])
      | Some pos \<Rightarrow> (if pos = 0 then [] else [take pos s]) @ string_split (drop (pos + 1) s) delimiter)"
  by pat_completeness auto
termination by (relation "measure (\<lambda>(s, _). length s)") (auto simp: find_Some_iff)

declare string_split.simps [simp del]

datatype StringMatchingType = LIKE | NOT_LIKE | CONTAINS | PREFIX | SUFFIX

definition DispatchStringMatching :: "StringMatchingType \<Rightarrow> u8 list \<Rightarrow> nat \<Rightarrow> nat list \<Rightarrow> nat \<Rightarrow> u8 list \<Rightarrow> bool list res" where
  "DispatchStringMatching MatchType chars num_rows offsets byte_count match_str =
     (if MatchType = LIKE \<or> MatchType = NOT_LIKE then
        res_bind (DoMultiStringMatching chars num_rows offsets byte_count (string_split match_str 0x25)) (\<lambda>result.
        if MatchType = LIKE then Inr result else Inr (map Not result))
      else if MatchType = CONTAINS then DoStringMatching chars num_rows offsets byte_count match_str
      else if MatchType = PREFIX then DoPrefixMatching chars num_rows offsets match_str
      else Inl (NotImplementedException ''Unsupported StringMatchingType when not using cudf''))"

section \<open>What one pass finds\<close>

lemma fold_min_le: "fold min xs (b :: nat) \<le> b"
proof (induction xs arbitrary: b)
  case (Cons x xs)
  then show ?case using le_trans [OF Cons [of "min x b"]] by simp
qed simp

lemma fold_min_in: "fold min xs (b :: nat) = b \<or> fold min xs b \<in> set xs"
proof (induction xs arbitrary: b)
  case (Cons x xs)
  show ?case using Cons [of "min x b"] by (auto simp: min_def split: if_splits)
qed simp

text \<open>A string found has an occurrence that ends at or behind the previous answer, and a string's answer
  is the end of such an occurrence plus the term's length, or the number of characters.\<close>

lemma multi_term_pass:
  assumes ok: "strings_ok chars os n" and aut: "kmp_automato p = Inr a" and p: "p \<noteq> []"
  shows "\<exists>found answer. multi_term_kmp chars os a prev (length p) n (length chars) = Inr (found, answer) \<and>
    length found = n \<and> length answer = n \<and>
    (\<forall>r < n. (found ! r \<longrightarrow> (\<exists>q. occurs chars os n p r q \<and> prev ! r < q + length p)) \<and>
      (answer ! r = length chars \<or>
       found ! r \<and> (\<exists>q. occurs chars os n p r q \<and> prev ! r < q + length p \<and> answer ! r + 1 = q + length p + length p)) \<and>
      answer ! r \<le> length chars)"
proof -
  obtain a' where "kmp_automato p = Inr a'" "automaton_for p a'" using kmp_automato_ok [OF p] by (auto simp: automaton_for_def)
  then have aut': "automaton_for p a" using aut by simp
  obtain hits where hits: "kmp_hits chars os a (length p) n (length chars) = Inr hits"
    and sound: "\<forall>(r, k) \<in> set hits. \<exists>q. occurs chars os n p r q \<and> k + 1 = q + length p"
    using kmp_hits_good [OF ok aut' p] by blast
  let ?good = "filter (\<lambda>(t, i). prev ! t \<le> i) hits"
  let ?found = "map (\<lambda>r. r \<in> fst ` set ?good) [0..<n]"
  let ?ends = "\<lambda>r. map (\<lambda>(t, i). i + length p) (filter (\<lambda>(t, i). t = r) ?good)"
  let ?answer = "map (\<lambda>r. fold min (?ends r) (length chars)) [0..<n]"
  have "\<forall>(t, i) \<in> set hits. t < n" using sound by (auto simp: occurs_def)
  then have run: "multi_term_kmp chars os a prev (length p) n (length chars) = Inr (?found, ?answer)"
    unfolding multi_term_kmp_def hits by (simp add: Let_def)
  have each: "\<exists>q. occurs chars os n p r q \<and> prev ! r < q + length p \<and> k + 1 = q + length p" if "(r, k) \<in> set ?good" for r k
    using sound that by fastforce
  have "?answer ! r = length chars \<or> ?found ! r \<and>
      (\<exists>q. occurs chars os n p r q \<and> prev ! r < q + length p \<and> ?answer ! r + 1 = q + length p + length p)" if r: "r < n" for r
  proof -
    consider "fold min (?ends r) (length chars) = length chars" | k where "(r, k) \<in> set ?good" "fold min (?ends r) (length chars) = k + length p"
      using fold_min_in [of "?ends r" "length chars"] by auto
    then show ?thesis
    proof cases
      case 2
      then have "?found ! r" using r by force
      then show ?thesis using each [OF 2(1)] 2(2) r by auto
    qed (use r in simp)
  qed
  moreover have "\<exists>q. occurs chars os n p r q \<and> prev ! r < q + length p" if "r < n" "?found ! r" for r
  proof -
    from that obtain k where "(r, k) \<in> set ?good" by auto
    then show ?thesis using each by blast
  qed
  moreover have "?answer ! r \<le> length chars" if "r < n" for r using that fold_min_le by simp
  ultimately show ?thesis using run by (intro exI conjI) (assumption, simp, simp, blast)
qed

text \<open>A pass for a term that occurs at most once in each string, at \<open>pos r\<close>.\<close>

lemma fold_min_const: "xs \<noteq> [] \<Longrightarrow> \<forall>x \<in> set xs. x = v \<Longrightarrow> fold min xs m = min v (m :: nat)"
  by (induction xs arbitrary: m rule: list_nonempty_induct) (auto simp: min.commute min.left_commute)

lemma multi_term_unique:
  assumes ok: "strings_ok chars os n" and aut: "kmp_automato p = Inr a" and p: "p \<noteq> []"
    and one: "\<And>r q. occurs chars os n p r q \<longleftrightarrow> pos r = Some q"
  shows "multi_term_kmp chars os a prev (length p) n (length chars) =
    Inr (map (\<lambda>r. case pos r of None \<Rightarrow> False | Some q \<Rightarrow> prev ! r < q + length p) [0..<n],
         map (\<lambda>r. case pos r of None \<Rightarrow> length chars | Some q \<Rightarrow>
           if prev ! r < q + length p then min (q + length p - 1 + length p) (length chars) else length chars) [0..<n])"
proof -
  obtain a' where "kmp_automato p = Inr a'" "automaton_for p a'" using kmp_automato_ok [OF p] by (auto simp: automaton_for_def)
  then have aut': "automaton_for p a" using aut by simp
  obtain hits where hits: "kmp_hits chars os a (length p) n (length chars) = Inr hits"
    and sound: "\<forall>(r, k) \<in> set hits. \<exists>q. occurs chars os n p r q \<and> k + 1 = q + length p"
    and all: "fst ` set hits = {r. \<exists>q. occurs chars os n p r q}"
    using kmp_hits_good [OF ok aut' p] by blast
  have iff: "(r, k) \<in> set hits \<longleftrightarrow> (\<exists>q. pos r = Some q \<and> k + 1 = q + length p)" for r k
  proof
    assume "(r, k) \<in> set hits"
    then show "\<exists>q. pos r = Some q \<and> k + 1 = q + length p" using sound one by fastforce
  next
    assume "\<exists>q. pos r = Some q \<and> k + 1 = q + length p"
    then obtain q where q: "pos r = Some q" "k + 1 = q + length p" by blast
    then have "r \<in> fst ` set hits" using all one by blast
    then obtain k' where k': "(r, k') \<in> set hits" by force
    then have "k' + 1 = q + length p" using sound one q(1) by fastforce
    with q(2) have "k' = k" by simp
    with k' show "(r, k) \<in> set hits" by simp
  qed
  let ?good = "filter (\<lambda>(t, i). prev ! t \<le> i) hits"
  let ?ends = "\<lambda>r. map (\<lambda>(t, i). i + length p) (filter (\<lambda>(t, i). t = r) ?good)"
  have good: "(r, k) \<in> set ?good \<longleftrightarrow> (\<exists>q. pos r = Some q \<and> k + 1 = q + length p \<and> prev ! r < q + length p)" for r k
    using iff by auto
  have len: "0 < length p" using p by simp
  have found: "r \<in> fst ` set ?good \<longleftrightarrow> (case pos r of None \<Rightarrow> False | Some q \<Rightarrow> prev ! r < q + length p)" for r
  proof -
    have "r \<in> fst ` set ?good \<longleftrightarrow> (\<exists>k. (r, k) \<in> set ?good)" by force
    also have "\<dots> \<longleftrightarrow> (\<exists>q. pos r = Some q \<and> prev ! r < q + length p)"
      unfolding good using len by (metis Suc_eq_plus1 Suc_pred add_gr_0)
    finally show ?thesis by (auto split: option.split)
  qed
  have ends: "fold min (?ends r) (length chars) = (case pos r of None \<Rightarrow> length chars | Some q \<Rightarrow>
      if prev ! r < q + length p then min (q + length p - 1 + length p) (length chars) else length chars)" for r
  proof (cases "r \<in> fst ` set ?good")
    case False
    then have "filter (\<lambda>(t, i). t = r) ?good = []" by (force simp: filter_empty_conv)
    with False show ?thesis unfolding found by (auto split: option.splits)
  next
    case True
    then obtain q where q: "pos r = Some q" "prev ! r < q + length p" unfolding found by (auto split: option.splits)
    from True obtain k where "(r, k) \<in> set ?good" by force
    then have "?ends r \<noteq> []" by (force simp: filter_empty_conv)
    moreover have "\<forall>x \<in> set (?ends r). x = q + length p - 1 + length p"
      using iff q(1) by auto
    ultimately show ?thesis using q fold_min_const by simp
  qed
  have "\<forall>(t, i) \<in> set hits. t < n" using sound by (auto simp: occurs_def)
  then have "multi_term_kmp chars os a prev (length p) n (length chars) =
      Inr (map (\<lambda>r. r \<in> fst ` set ?good) [0..<n], map (\<lambda>r. fold min (?ends r) (length chars)) [0..<n])"
    unfolding multi_term_kmp_def hits by (simp add: Let_def)
  then show ?thesis unfolding found ends .
qed

section \<open>Terms in order\<close>

text \<open>The meaning of the pattern \<open>%t1%t2%...%\<close>.\<close>

fun like_terms :: "u8 list list \<Rightarrow> u8 list \<Rightarrow> bool" where
  "like_terms [] s \<longleftrightarrow> True"
| "like_terms (t # ts) s \<longleftrightarrow> (\<exists>u v. s = u @ t @ v \<and> like_terms ts v)"

text \<open>Occurrences of the terms in string \<open>r\<close>, one behind the other between two positions.\<close>

fun placed :: "u8 list \<Rightarrow> nat list \<Rightarrow> nat \<Rightarrow> nat \<Rightarrow> nat \<Rightarrow> u8 list list \<Rightarrow> nat \<Rightarrow> bool" where
  "placed chars os n r lo [] hi \<longleftrightarrow> lo \<le> hi"
| "placed chars os n r lo (t # ts) hi \<longleftrightarrow>
     (\<exists>q \<ge> lo. occurs chars os n t r q \<and> placed chars os n r (q + length t) ts hi)"

lemma placed_snoc:
  "placed chars os n r lo ts hi \<Longrightarrow> occurs chars os n t r q \<Longrightarrow> hi \<le> q \<Longrightarrow> placed chars os n r lo (ts @ [t]) (q + length t)"
proof (induction ts arbitrary: lo)
  case Nil
  then show ?case by (auto intro!: exI [of _ q])
qed auto

lemma placed_like:
  "placed chars os n r lo ts hi \<Longrightarrow> like_terms ts (take (os ! (r + 1) - lo) (drop lo chars))"
proof (induction ts arbitrary: lo)
  case (Cons t ts)
  let ?S = "\<lambda>lo. take (os ! (r + 1) - lo) (drop lo chars)"
  obtain q where q: "lo \<le> q" "occurs chars os n t r q" "placed chars os n r (q + length t) ts hi" using Cons.prems by auto
  have fits: "q + length t \<le> os ! (r + 1)" "take (length t) (drop q chars) = t" using q(2) by (simp_all add: occurs_def)
  have "?S lo = take (q - lo) (?S lo) @ drop (q - lo) (?S lo)" by (rule append_take_drop_id [symmetric])
  also have "drop (q - lo) (?S lo) = ?S q" using q(1) fits(1) by (simp add: drop_take)
  also have "?S q = take (length t) (?S q) @ drop (length t) (?S q)" by (rule append_take_drop_id [symmetric])
  also have "take (length t) (?S q) = t" using fits by (simp add: min_absorb1)
  also have "drop (length t) (?S q) = ?S (q + length t)" by (simp add: drop_take add.commute)
  finally show ?case using Cons.IH [OF q(3)] by auto
qed simp

text \<open>The previous answers of the strings whose first terms are placed leave room for a term that is not
  longer than the last one.\<close>

definition answers_ok :: "u8 list \<Rightarrow> nat list \<Rightarrow> nat \<Rightarrow> u8 list list \<Rightarrow> nat \<Rightarrow> nat list \<Rightarrow> bool" where
  "answers_ok chars os n ts m prev \<longleftrightarrow> (\<forall>r < n. prev ! r = length chars \<or>
     (\<exists>e. placed chars os n r (os ! r) ts e \<and>
       (\<forall>s k. os ! r \<le> s \<longrightarrow> k \<le> m \<longrightarrow> prev ! r < s + k \<longrightarrow> e \<le> s)))"

lemma occurs_fits: "strings_ok chars os n \<Longrightarrow> occurs chars os n p r q \<Longrightarrow> q + length p \<le> length chars"
  using strings_ok_le [of chars os n "r + 1" n] by (auto simp: occurs_def strings_ok_def)

lemma answers_ok_placed:
  assumes ok: "strings_ok chars os n" and ans: "answers_ok chars os n ts m prev" and o: "occurs chars os n p r q"
    and "prev ! r < q + length p" and "length p \<le> m"
  shows "placed chars os n r (os ! r) (ts @ [p]) (q + length p)"
proof -
  have r: "r < n" "os ! r \<le> q" using o by (simp_all add: occurs_def)
  have "prev ! r \<noteq> length chars" using occurs_fits [OF ok o] assms(4) by simp
  then obtain e where "placed chars os n r (os ! r) ts e" "e \<le> q"
    using ans r assms(4,5) unfolding answers_ok_def by blast
  then show ?thesis by (rule placed_snoc [OF _ o])
qed

lemma answers_ok_next:
  assumes ok: "strings_ok chars os n" and ans: "answers_ok chars os n ts m prev" and "length p \<le> m"
    and answer: "\<forall>r < n. answer ! r = length chars \<or>
      (\<exists>q. occurs chars os n p r q \<and> prev ! r < q + length p \<and> answer ! r + 1 = q + length p + length p)"
  shows "answers_ok chars os n (ts @ [p]) (length p) answer"
  unfolding answers_ok_def
proof (intro allI impI)
  fix r assume "r < n"
  then consider "answer ! r = length chars" | q where "occurs chars os n p r q" "prev ! r < q + length p"
    "answer ! r + 1 = q + length p + length p" using answer by blast
  then show "answer ! r = length chars \<or> (\<exists>e. placed chars os n r (os ! r) (ts @ [p]) e \<and>
      (\<forall>s k. os ! r \<le> s \<longrightarrow> k \<le> length p \<longrightarrow> answer ! r < s + k \<longrightarrow> e \<le> s))"
  proof cases
    case 2
    have "\<forall>s k. os ! r \<le> s \<longrightarrow> k \<le> length p \<longrightarrow> answer ! r < s + k \<longrightarrow> q + length p \<le> s"
      using 2(3) by linarith
    then show ?thesis using answers_ok_placed [OF ok ans 2(1,2) assms(3)] by blast
  qed simp
qed

lemma term_passes_sound:
  assumes ok: "strings_ok chars os n"
  shows "ts' \<noteq> [] \<Longrightarrow> \<forall>t \<in> set ts'. t \<noteq> [] \<and> length t \<le> m \<Longrightarrow> sorted_wrt (\<lambda>t u. length u \<le> length t) ts' \<Longrightarrow>
    list_all2 (\<lambda>t a. kmp_automato t = Inr a) ts' autos \<Longrightarrow> answers_ok chars os n ts m prev \<Longrightarrow>
    \<exists>result. term_passes chars os n (length chars) (zip ts' autos) prev found = Inr result \<and> length result = n \<and>
      (\<forall>r < n. result ! r \<longrightarrow> (\<exists>e. placed chars os n r (os ! r) (ts @ ts') e))"
proof (induction ts' arbitrary: ts autos m prev found)
  case (Cons t ts')
  obtain a as where a: "autos = a # as" "kmp_automato t = Inr a" "list_all2 (\<lambda>t a. kmp_automato t = Inr a) ts' as"
    using Cons.prems(4) by (auto simp: list_all2_Cons1)
  have t: "t \<noteq> []" "length t \<le> m" using Cons.prems(2) by auto
  obtain found' answer where pass: "multi_term_kmp chars os a prev (length t) n (length chars) = Inr (found', answer)"
    "length found' = n" "\<forall>r < n. found' ! r \<longrightarrow> (\<exists>q. occurs chars os n t r q \<and> prev ! r < q + length t)"
    "\<forall>r < n. answer ! r = length chars \<or>
      (\<exists>q. occurs chars os n t r q \<and> prev ! r < q + length t \<and> answer ! r + 1 = q + length t + length t)"
    using multi_term_pass [OF ok a(2) t(1), of prev] by blast
  have ans: "answers_ok chars os n (ts @ [t]) (length t) answer" by (rule answers_ok_next [OF ok Cons.prems(5) t(2) pass(4)])
  show ?case
  proof (cases "ts' = []")
    case True
    have "\<exists>e. placed chars os n r (os ! r) (ts @ [t]) e" if "r < n" "found' ! r" for r
      using pass(3) that answers_ok_placed [OF ok Cons.prems(5) _ _ t(2)] by blast
    then show ?thesis using True a pass(1,2) by simp
  next
    case False
    have "\<forall>u \<in> set ts'. u \<noteq> [] \<and> length u \<le> length t" "sorted_wrt (\<lambda>t u. length u \<le> length t) ts'" using Cons.prems(2,3) by auto
    then show ?thesis using Cons.IH [OF False _ _ a(3) ans, of found'] a(1) pass(1) by simp
  qed
qed simp

text \<open>C35: a pattern of several non-empty terms, none longer than the one before it, on a string column without
  empty strings (behind an empty string the kernel attributes a hit to the wrong row): the passes end, and every string they report matches the pattern, its terms in order and
  without overlap.\<close>

theorem like_terms_sound:
  assumes "strings_ok chars os n" and "ts \<noteq> []" and "\<forall>t \<in> set ts. t \<noteq> []" and "sorted_wrt (\<lambda>t u. length u \<le> length t) ts"
  shows "\<exists>result. DoMultiStringMatching chars n os (length chars) ts = Inr result \<and> length result = n \<and>
    (\<forall>r \<in> {r. r < n \<and> result ! r}. like_terms ts (row_string chars os r))"
proof -
  have autos: "\<exists>autos. res_mapM kmp_automato us = Inr autos \<and> list_all2 (\<lambda>t a. kmp_automato t = Inr a) us autos"
    if "\<forall>t \<in> set us. t \<noteq> []" for us
    using that kmp_automato_ok by (induction us) fastforce+
  obtain autos where autos: "res_mapM kmp_automato ts = Inr autos" "list_all2 (\<lambda>t a. kmp_automato t = Inr a) ts autos"
    using autos [OF assms(3)] by blast
  let ?m = "Max (length ` set ts)"
  have m: "\<forall>t \<in> set ts. t \<noteq> [] \<and> length t \<le> ?m" using assms(3) by simp
  have start: "answers_ok chars os n [] ?m (take n os)"
    using assms(1) by (auto simp: answers_ok_def strings_ok_def)
  obtain result where "term_passes chars os n (length chars) (zip ts autos) (take n os) [] = Inr result" "length result = n"
    "\<forall>r < n. result ! r \<longrightarrow> (\<exists>e. placed chars os n r (os ! r) ts e)"
    using term_passes_sound [OF assms(1,2) m assms(4) autos(2) start, of "[]"] by auto
  then show ?thesis using autos(1) assms(2) placed_like by (fastforce simp: DoMultiStringMatching_def row_string_def)
qed

theorem like_terms_sound_witness:
  "\<exists>result. DoMultiStringMatching [0x78, 0x61, 0x78, 0x62, 0x62] 2 [0, 4, 5] 5 [[0x61], [0x62]] = Inr result \<and>
     result = [True, False] \<and> like_terms [[0x61], [0x62]] [0x78, 0x61, 0x78, 0x62 :: u8]"
proof -
  let ?chars = "[0x78, 0x61, 0x78, 0x62, 0x62] :: u8 list" and ?terms = "[[0x61], [0x62]] :: u8 list list"
  have ok: "strings_ok ?chars [0, 4, 5] 2" by (simp add: strings_ok_def less_Suc_eq numeral_2_eq_2)
  then obtain result where result: "DoMultiStringMatching ?chars 2 [0, 4, 5] (length ?chars) ?terms = Inr result"
    "\<forall>r \<in> {r. r < 2 \<and> result ! r}. like_terms ?terms (row_string ?chars [0, 4, 5] r)"
    using like_terms_sound [of ?chars "[0, 4, 5]" 2 ?terms] by auto
  obtain a where "kmp_automato [0x61 :: u8] = Inr a" using kmp_automato_ok [of "[0x61]"] by auto
  moreover obtain b where "kmp_automato [0x62 :: u8] = Inr b" using kmp_automato_ok [of "[0x62]"] by auto
  moreover note auto = calculation
  have one: "occurs ?chars [0, 4, 5] 2 [0x61] r q \<longleftrightarrow> [0 \<mapsto> 1] r = Some q"
    "occurs ?chars [0, 4, 5] 2 [0x62] r q \<longleftrightarrow> [0 \<mapsto> 3, 1 \<mapsto> 4] r = Some q" for r q
  proof -
    have small: "\<forall>r \<in> set [0..<2]. \<forall>q \<in> set [0..<5]. occurs ?chars [0, 4, 5] 2 [0x61] r q = ([0 \<mapsto> 1] r = Some q) \<and>
        occurs ?chars [0, 4, 5] 2 [0x62] r q = ([0 \<mapsto> 3, 1 \<mapsto> 4] r = Some q)" by code_simp
    have "(occurs ?chars [0, 4, 5] 2 [0x61] r q \<longleftrightarrow> [0 \<mapsto> 1] r = Some q) \<and>
      (occurs ?chars [0, 4, 5] 2 [0x62] r q \<longleftrightarrow> [0 \<mapsto> 3, 1 \<mapsto> 4] r = Some q)"
    proof (cases "r < 2 \<and> q < 5")
      case True
      then have "r \<in> set [0..<2]" "q \<in> set [0..<5]" by simp_all
      with small show ?thesis by blast
    next
      case False
      then have "\<not> occurs ?chars [0, 4, 5] 2 [c] r q" for c
        by (auto simp: occurs_def numeral_2_eq_2 less_Suc_eq)
      then show ?thesis using False by auto
    qed
    then show "occurs ?chars [0, 4, 5] 2 [0x61] r q \<longleftrightarrow> [0 \<mapsto> 1] r = Some q"
      "occurs ?chars [0, 4, 5] 2 [0x62] r q \<longleftrightarrow> [0 \<mapsto> 3, 1 \<mapsto> 4] r = Some q" by blast+
  qed
  note first = multi_term_unique [OF ok auto(1) _ one(1), of "[0, 4]"]
    and second = multi_term_unique [OF ok auto(2) _ one(2), of "[2, 5]"]
  have run: "DoMultiStringMatching ?chars 2 [0, 4, 5] 5 ?terms = Inr [True, False]"
    using first second auto by (simp add: DoMultiStringMatching_def upt_conv_Cons eval_nat_numeral)
  with result(1) have "result = [True, False]" by (simp add: eval_nat_numeral)
  then have "like_terms ?terms (row_string ?chars [0, 4, 5] 0)" using result(2) by (simp del: like_terms.simps)
  moreover have "row_string ?chars [0, 4, 5] 0 = [0x78, 0x61, 0x78, 0x62]" by code_simp
  ultimately show ?thesis using run by (simp del: like_terms.simps)
qed

text \<open>A string that consists of two terms next to each other, the second one shorter, is not found by
  the pattern \<open>%t1%t2%\<close>: the kernel asks for the end of the second term behind the end of the first by the
  first term's length.\<close>

theorem adjacent_terms_missed:
  assumes "p \<noteq> []" and "q \<noteq> []" and "length q < length p"
  shows "DoMultiStringMatching (p @ q) 1 [0, length (p @ q)] (length (p @ q)) [p, q] = Inr [False]"
proof -
  let ?s = "p @ q" and ?os = "[0, length (p @ q)]"
  have ok: "strings_ok ?s ?os 1" using assms(1) by (simp add: strings_ok_def)
  obtain a where a: "kmp_automato p = Inr a" using kmp_automato_ok [OF assms(1)] by blast
  obtain b where b: "kmp_automato q = Inr b" using kmp_automato_ok [OF assms(2)] by blast
  obtain found answer where p: "multi_term_kmp ?s ?os a [0] (length p) 1 (length ?s) = Inr (found, answer)"
    "answer ! 0 = length ?s \<or> length p + length p \<le> answer ! 0 + 1"
    using multi_term_pass [OF ok a assms(1), of "[0]"] by fastforce
  obtain found' answer' where q: "multi_term_kmp ?s ?os b answer (length q) 1 (length ?s) = Inr (found', answer')" "length found' = 1"
    "found' ! 0 \<longrightarrow> (\<exists>k. occurs ?s ?os 1 q 0 k \<and> answer ! 0 < k + length q)"
    using multi_term_pass [OF ok b assms(2), of answer] by fastforce
  have "\<not> found' ! 0" using q(3) p(2) occurs_fits [OF ok, of q 0] assms(3) by fastforce
  then have "found' = [False]" using q(2) by (cases found') auto
  then show ?thesis using a b p(1) q(1) by (simp add: DoMultiStringMatching_def)
qed

theorem adjacent_terms_missed_witness:
  "DoMultiStringMatching [0x61, 0x62, 0x63] 1 [0, 3] 3 [[0x61, 0x62], [0x63]] = Inr [False] \<and>
   like_terms [[0x61, 0x62], [0x63]] [0x61, 0x62, 0x63]"
proof
  show "DoMultiStringMatching [0x61, 0x62, 0x63] 1 [0, 3] 3 [[0x61, 0x62], [0x63]] = Inr [False]"
    using adjacent_terms_missed [of "[0x61, 0x62]" "[0x63]"] by (simp add: numeral_3_eq_3)
  show "like_terms [[0x61, 0x62], [0x63]] [0x61, 0x62, 0x63]"
    by (simp, rule exI [of _ "[]"], rule exI [of _ "[0x63]"], simp, rule exI [of _ "[]"], simp)
qed

section \<open>Patterns without a percent sign\<close>

lemma string_split_none: "d \<notin> set s \<Longrightarrow> s \<noteq> [] \<Longrightarrow> string_split s d = [s]"
proof -
  assume "d \<notin> set s" and s: "s \<noteq> []"
  then have "find (\<lambda>pos. s ! pos = d) [0..<length s] = None" by (auto simp: find_None_iff in_set_conv_nth)
  then show ?thesis using s by (subst string_split.simps) simp
qed

text \<open>The terms of a pattern are not empty, have no percent sign and lose no other character.\<close>

lemma string_split_terms: "concat (string_split s d) = filter (\<lambda>c. c \<noteq> d) s \<and> (\<forall>t \<in> set (string_split s d). t \<noteq> [] \<and> d \<notin> set t)"
proof (induction s d rule: string_split.induct)
  case (1 s d)
  show ?case
  proof (cases "find (\<lambda>pos. s ! pos = d) [0..<length s]")
    case None
    then have "d \<notin> set s" by (auto simp: find_None_iff in_set_conv_nth)
    moreover from this have "filter (\<lambda>c. c \<noteq> d) s = s" by (auto simp: filter_id_conv)
    ultimately show ?thesis using None by (subst (1 2) string_split.simps) simp
  next
    case (Some pos)
    then obtain i where "i < length s" "s ! i = d" "pos = i" "\<forall>j < i. s ! j \<noteq> d" by (auto simp: find_Some_iff)
    then have pos: "pos < length s" "s ! pos = d" "d \<notin> set (take pos s)" by (auto simp: in_set_conv_nth)
    have "filter (\<lambda>c. c \<noteq> d) s = filter (\<lambda>c. c \<noteq> d) (take pos s @ d # drop (Suc pos) s)"
      using id_take_nth_drop [OF pos(1)] pos(2) by simp
    also have "\<dots> = take pos s @ filter (\<lambda>c. c \<noteq> d) (drop (pos + 1) s)" using pos(3) by (auto simp: filter_id_conv)
    finally have "filter (\<lambda>c. c \<noteq> d) s = take pos s @ filter (\<lambda>c. c \<noteq> d) (drop (pos + 1) s)" .
    moreover have "string_split s d = (if pos = 0 then [] else [take pos s]) @ string_split (drop (pos + 1) s) d"
      using Some by (subst string_split.simps) simp
    ultimately show ?thesis using 1 [OF Some] pos by (cases "pos = 0") auto
  qed
qed

lemma one_term_contains:
  assumes ok: "strings_ok chars os n" and p: "p \<noteq> []"
  shows "DoMultiStringMatching chars n os (length chars) [p] = DoStringMatching chars n os (length chars) p"
proof -
  obtain a where a: "kmp_automato p = Inr a" "automaton_for p a" using kmp_automato_ok [OF p] by (auto simp: automaton_for_def)
  obtain hits where hits: "kmp_hits chars os a (length p) n (length chars) = Inr hits"
    and sound: "\<forall>(r, k) \<in> set hits. \<exists>q. occurs chars os n p r q \<and> k + 1 = q + length p"
    using kmp_hits_good [OF ok a(2) p] by blast
  have good: "t < n \<and> take n os ! t \<le> i" if ti: "(t, i) \<in> set hits" for t i
  proof -
    obtain q where q: "occurs chars os n p t q" "i + 1 = q + length p" using bspec [OF sound ti] by auto
    then have "t < n" "os ! t \<le> q" by (simp_all add: occurs_def)
    moreover have "q \<le> i" using q(2) p by (cases p) simp_all
    ultimately show ?thesis by simp
  qed
  have each: "case x of (t, i) \<Rightarrow> take n os ! t \<le> i" "case x of (t, i) \<Rightarrow> t < n" if "x \<in> set hits" for x
    using good [of "fst x" "snd x"] that by (simp_all only: case_prod_beta prod.collapse simp_thms)
  have all: "filter (\<lambda>(t, i). take n os ! t \<le> i) hits = hits" unfolding filter_id_conv by (intro ballI each(1))
  have rows: "\<forall>(t, i) \<in> set hits. t < n" by (intro ballI each(2))
  let ?answer = "map (\<lambda>r. fold min (map (\<lambda>(t, i). i + length p) (filter (\<lambda>(t, i). t = r) hits)) (length chars)) [0..<n]"
  have "multi_term_kmp chars os a (take n os) (length p) n (length chars) = Inr (map (\<lambda>r. r \<in> fst ` set hits) [0..<n], ?answer)"
    by (simp only: multi_term_kmp_def hits res_bind_simps Let_def all if_P [OF rows])
  then have "DoMultiStringMatching chars n os (length chars) [p] = Inr (map (\<lambda>r. r \<in> fst ` set hits) [0..<n])"
    by (simp add: DoMultiStringMatching_def a(1))
  moreover have "DoStringMatching chars n os (length chars) p = Inr (map (\<lambda>r. r \<in> fst ` set hits) [0..<n])"
    by (simp only: DoStringMatching_def a(1) single_term_kmp_def hits res_bind_simps if_P [OF rows])
  ultimately show ?thesis by simp
qed

text \<open>A \<open>LIKE\<close> pattern without a percent sign is dispatched as \<open>contains\<close>: the result is true for every
  string in which the pattern occurs anywhere, and \<open>NOT LIKE\<close> is its negation.\<close>

theorem like_without_percent_is_contains:
  assumes "strings_ok chars os n" and "pat \<noteq> []" and "0x25 \<notin> set pat"
  shows "DispatchStringMatching LIKE chars n os (length chars) pat = Inr (map (\<lambda>r. sublist pat (row_string chars os r)) [0..<n]) \<and>
    DispatchStringMatching NOT_LIKE chars n os (length chars) pat = Inr (map (\<lambda>r. \<not> sublist pat (row_string chars os r)) [0..<n])"
  using string_split_none [OF assms(3,2)] one_term_contains [OF assms(1,2)] string_matching_result [OF assms(1,2)]
  by (simp_all add: DispatchStringMatching_def)

theorem like_without_percent_is_contains_witness:
  "DispatchStringMatching LIKE [0x78, 0x61] 1 [0, 2] 2 [0x61] = Inr [True]"
proof -
  have "strings_ok [0x78, 0x61] [0, 2] 1" by (simp add: strings_ok_def)
  moreover have "map (\<lambda>r. sublist [0x61] (row_string [0x78, 0x61] [0, 2] r)) [0..<1] = [True]" by code_simp
  moreover have "length [0x78, 0x61 :: u8] = 2" by simp
  ultimately show ?thesis using like_without_percent_is_contains [of "[0x78, 0x61]" "[0, 2]" 1 "[0x61]"]
    by (simp only:) simp
qed

end
