(* ===== verification/Cudf_Library.thy ===== *)
theory Cudf_Library
  imports Materialize_Values
begin

text \<open>
  What the expression executor sees of cuDF and of DuckDB's values.  Both are libraries outside
  \<open>src/\<close>, so their functions are the fields of two records, \<open>cudf\<close> and \<open>duckdb_values\<close>, that
  the executor's definitions take as a parameter.  A \<open>cudf::column\<close> is its type, its data and its
  validity bits: the data of a NULL row is there, and meaningless.  A scalar is always valid, as
  the executor passes \<open>true\<close> for each that it builds.  The second half of the theory states what
  cuDF documents of the operations, row by row (\<open>cudf_documented\<close>), and gives one library of
  integer columns that behaves so.
\<close>

section \<open>Columns, scalars and operators\<close>

record 'v cudf_column =
  cc_type :: cudf_data_type
  cc_data :: "'v list"
  cc_mask :: "bool list"

datatype 'v cudf_scalar =
    NumericScalar cudf_data_type 'v
  | FixedPointScalar cudf_data_type int
  | StringScalar string

datatype binary_operator =
    ADD | SUB | MUL | DIV | MOD | EQUAL | NOT_EQUAL | LESS | GREATER | LESS_EQUAL | GREATER_EQUAL
  | LOGICAL_AND | LOGICAL_OR

datatype datetime_component = YEAR | MONTH | DAY | HOUR | MINUTE | SECOND | MILLISECOND | MICROSECOND

datatype rounding_frequency =
    FREQ_DAY | FREQ_HOUR | FREQ_MINUTE | FREQ_SECOND | FREQ_MILLISECOND | FREQ_MICROSECOND

section \<open>The libraries\<close>

record 'v cudf =
  cudf_binary_operation ::
    "'v cudf_column \<Rightarrow> 'v cudf_column \<Rightarrow> binary_operator \<Rightarrow> cudf_data_type \<Rightarrow> 'v cudf_column res"
  cudf_binary_operation_lhs ::
    "'v cudf_scalar \<Rightarrow> 'v cudf_column \<Rightarrow> binary_operator \<Rightarrow> cudf_data_type \<Rightarrow> 'v cudf_column res"
  cudf_binary_operation_rhs ::
    "'v cudf_column \<Rightarrow> 'v cudf_scalar \<Rightarrow> binary_operator \<Rightarrow> cudf_data_type \<Rightarrow> 'v cudf_column res"
  cudf_unary_not :: "'v cudf_column \<Rightarrow> 'v cudf_column res"
  cudf_is_null :: "'v cudf_column \<Rightarrow> 'v cudf_column res"
  cudf_cast :: "'v cudf_column \<Rightarrow> cudf_data_type \<Rightarrow> 'v cudf_column res"
  cudf_contains :: "'v cudf_column \<Rightarrow> 'v cudf_column \<Rightarrow> 'v cudf_column res"
  cudf_copy_if_else :: "'v cudf_column \<Rightarrow> 'v cudf_column \<Rightarrow> 'v cudf_column \<Rightarrow> 'v cudf_column res"
  cudf_reduce_any :: "'v cudf_column \<Rightarrow> bool res"
  cudf_make_column_from_scalar :: "'v cudf_scalar \<Rightarrow> int \<Rightarrow> 'v cudf_column res"
  cudf_extract_datetime_component :: "'v cudf_column \<Rightarrow> datetime_component \<Rightarrow> 'v cudf_column res"
  cudf_floor_datetimes :: "'v cudf_column \<Rightarrow> rounding_frequency \<Rightarrow> 'v cudf_column res"
  cudf_count_bytes :: "'v cudf_column \<Rightarrow> 'v cudf_column res"
  cudf_count_characters :: "'v cudf_column \<Rightarrow> 'v cudf_column res"
  cudf_ends_with :: "'v cudf_column \<Rightarrow> 'v cudf_scalar \<Rightarrow> 'v cudf_column res"
  cudf_starts_with :: "'v cudf_column \<Rightarrow> 'v cudf_scalar \<Rightarrow> 'v cudf_column res"
  cudf_strings_contains :: "'v cudf_column \<Rightarrow> 'v cudf_scalar \<Rightarrow> 'v cudf_column res"
  cudf_like :: "'v cudf_column \<Rightarrow> 'v cudf_scalar \<Rightarrow> 'v cudf_scalar \<Rightarrow> 'v cudf_column res"
  cudf_slice_strings :: "'v cudf_column \<Rightarrow> int \<Rightarrow> int \<Rightarrow> int \<Rightarrow> 'v cudf_column res"
  cudf_replace_with_backrefs :: "'v cudf_column \<Rightarrow> string \<Rightarrow> string \<Rightarrow> 'v cudf_column res"
  cudf_replace_re :: "'v cudf_column \<Rightarrow> string list \<Rightarrow> 'v cudf_column \<Rightarrow> 'v cudf_column res"
  element_of_bytes :: "u8 list \<Rightarrow> 'v"
  bytes_of_element :: "'v \<Rightarrow> u8 list"
  element_true :: "'v \<Rightarrow> bool"
  cudf_nullable :: "'v cudf_column \<Rightarrow> bool"
  cudf_offsets_int64 :: "'v cudf_column \<Rightarrow> bool"

text \<open>\<open>GetValue<T>\<close> of a DuckDB value, the C++ type \<open>T\<close> named by its cuDF type id; the two halves of a
  \<open>hugeint_t\<close> are read separately.\<close>

record ('d, 'v) duckdb_values =
  value_type :: "'d \<Rightarrow> LogicalType"
  GetValue :: "cudf_type_id \<Rightarrow> 'd \<Rightarrow> 'v res"
  GetValue_string :: "'d \<Rightarrow> string res"
  GetValue_size_type :: "'d \<Rightarrow> int res"
  GetValue_uint64 :: "'d \<Rightarrow> u64 res"
  GetValueUnsafe :: "cudf_type_id \<Rightarrow> 'd \<Rightarrow> int res"
  GetValueUnsafe_hugeint :: "'d \<Rightarrow> (u64 \<times> u64) res"

section \<open>A column on the device, read as a cuDF column\<close>

text \<open>The fields of the \<open>cudf::column_view\<close> that \<open>convertToCudfColumn\<close> fills in.\<close>

record cudf_view =
  cv_type :: cudf_data_type
  cv_size :: int
  cv_data :: ptr
  cv_mask :: ptr
  cv_offsets :: ptr

definition createNullMask :: "rmm_pool \<Rightarrow> u64 \<Rightarrow> ('v device, ptr) act" where
  "createNullMask rmm n = act_bind (dev_malloc rmm 1 (getMaskBytesSize n)) (\<lambda>mask.
     act_bind (dev_write mask (Bits (replicate (unat n) True))) (\<lambda>_. act_return mask))"

definition int32_of_u64 :: "u64 \<Rightarrow> int" where
  "int32_of_u64 n = sint (ucast n :: 32 word)"

definition convertToCudfColumn ::
  "duckdb_env \<Rightarrow> rmm_pool \<Rightarrow> GPUColumn \<Rightarrow> ('v device, GPUColumn \<times> cudf_view) act" where
  "convertToCudfColumn D rmm c =
     act_bind
       (if dw_validity_mask (data_wrapper c) = nullptr then
          act_bind (createNullMask rmm (column_length c)) (\<lambda>mask. act_return
            (c\<lparr>data_wrapper := (data_wrapper c)\<lparr>dw_validity_mask := mask,
                 dw_mask_bytes := getMaskBytesSize (word_of_int (int32_of_u64 (column_length c)))\<rparr>\<rparr>))
        else act_return c)
       (\<lambda>c. act_bind (act_lift (cudf_type_of_column D (dw_type (data_wrapper c)))) (\<lambda>t.
          act_return (c, \<lparr>cv_type = t, cv_size = int32_of_u64 (column_length c),
            cv_data = dw_data (data_wrapper c), cv_mask = dw_validity_mask (data_wrapper c),
            cv_offsets = (if ct_id (dw_type (data_wrapper c)) = C_VARCHAR
                          then dw_offset (data_wrapper c) else nullptr)\<rparr>)))"

text \<open>Copying a view into a column of its own reads \<open>size\<close> elements and \<open>size\<close> validity bits.\<close>

definition cudf_size_of :: "cudf_type_id \<Rightarrow> u64" where
  "cudf_size_of i = (case i of
     CUDF_INT16 \<Rightarrow> 2 | CUDF_INT32 \<Rightarrow> 4 | CUDF_INT64 \<Rightarrow> 8 | CUDF_FLOAT32 \<Rightarrow> 4 | CUDF_FLOAT64 \<Rightarrow> 8
   | CUDF_BOOL8 \<Rightarrow> 1 | CUDF_TIMESTAMP_DAYS \<Rightarrow> 4 | CUDF_DECIMAL32 \<Rightarrow> 4 | CUDF_DECIMAL64 \<Rightarrow> 8
   | CUDF_DECIMAL128 \<Rightarrow> 16 | _ \<Rightarrow> 8)"

definition string_cells :: "(u8 list \<Rightarrow> 'v) \<Rightarrow> nat \<Rightarrow> u64 list \<Rightarrow> u8 list \<Rightarrow> 'v list res" where
  "string_cells el n os bs = res_mapM (\<lambda>i.
     res_bind (vec_at os (Suc i)) (\<lambda>hi. res_bind (vec_at os i) (\<lambda>lo.
       if unat lo \<le> unat hi \<and> unat hi \<le> length bs
       then Inr (el (take (unat hi - unat lo) (drop (unat lo) bs)))
       else Inl (UndefinedBehaviour ''string out of bounds'')))) [0..<n]"

definition copy_view :: "'v cudf \<Rightarrow> cudf_view \<Rightarrow> ('v device, 'v cudf_column) act" where
  "copy_view L v =
     (if cv_size v < 0 then act_throw (UndefinedBehaviour ''negative column size'')
      else if cv_size v = 0 then act_return \<lparr>cc_type = cv_type v, cc_data = [], cc_mask = []\<rparr>
      else act_bind
        (if cudf_id (cv_type v) = CUDF_STRING then
           act_bind (dev_offsets (cv_offsets v)) (\<lambda>os. act_bind (dev_bytes (cv_data v)) (\<lambda>bs.
             act_lift (string_cells (element_of_bytes L) (nat (cv_size v)) os bs)))
         else act_bind (dev_vals (cudf_size_of (cudf_id (cv_type v))) (cv_data v)) (\<lambda>xs.
             act_lift (first_n (of_int (cv_size v)) xs)))
        (\<lambda>data. act_bind (dev_bits (cv_mask v)) (\<lambda>bits.
           act_bind (act_lift (first_n (of_int (cv_size v)) bits)) (\<lambda>mask.
             act_return \<lparr>cc_type = cv_type v, cc_data = data, cc_mask = mask\<rparr>))))"

end
