(* ===== verification/Expressions.thy ===== *)
theory Expressions
  imports Cudf_Library
begin

text \<open>
  Bound expressions and the executor's state tree (\<open>gpu_expression_executor_state.hpp/.cpp\<close>, the
  \<open>InitializeState\<close> functions of \<open>src/src/expression_executor/specializations/\<close>, and
  \<open>SetInputColumns\<close> and \<open>HasNullLeaf\<close> of \<open>gpu_expression_executor.cpp\<close>).  The constructors are the
  expression classes the executor dispatches on, each with the fields it reads; \<open>'d\<close> is the type of
  DuckDB's values.
\<close>

section \<open>Expressions\<close>

datatype ExpressionType =
    COMPARE_EQUAL | COMPARE_NOTEQUAL | COMPARE_LESSTHAN | COMPARE_GREATERTHAN
  | COMPARE_LESSTHANOREQUALTO | COMPARE_GREATERTHANOREQUALTO
  | COMPARE_DISTINCT_FROM | COMPARE_NOT_DISTINCT_FROM | COMPARE_IN | COMPARE_NOT_IN
  | CONJUNCTION_AND | CONJUNCTION_OR
  | OPERATOR_NOT | OPERATOR_IS_NULL | OPERATOR_IS_NOT_NULL | OPERATOR_COALESCE
  | EXPRESSION_OTHER nat

text \<open>A BETWEEN carries DuckDB's \<open>lower_inclusive\<close> and \<open>upper_inclusive\<close>.\<close>

datatype 'd Expression =
    BoundBetween LogicalType "'d Expression" "'d Expression" "'d Expression" bool bool
  | BoundCase LogicalType "'d CaseCheck list" "'d Expression"
  | BoundCast LogicalType "'d Expression"
  | BoundComparison ExpressionType LogicalType "'d Expression" "'d Expression"
  | BoundConjunction ExpressionType LogicalType "'d Expression list"
  | BoundConstant LogicalType 'd
  | BoundFunction string LogicalType "'d Expression list"
  | BoundOperator ExpressionType LogicalType "'d Expression list"
  | BoundParameter LogicalType
  | BoundReference LogicalType nat
  | OtherExpression LogicalType
and 'd CaseCheck = CaseCheck (when_expr: "'d Expression") (then_expr: "'d Expression")

fun return_type :: "'d Expression \<Rightarrow> LogicalType" where
  "return_type (BoundBetween t _ _ _ _ _) = t"
| "return_type (BoundCase t _ _) = t"
| "return_type (BoundCast t _) = t"
| "return_type (BoundComparison _ t _ _) = t"
| "return_type (BoundConjunction _ t _) = t"
| "return_type (BoundConstant t _) = t"
| "return_type (BoundFunction _ t _) = t"
| "return_type (BoundOperator _ t _) = t"
| "return_type (BoundParameter t) = t"
| "return_type (BoundReference t _) = t"
| "return_type (OtherExpression t) = t"

definition constant_of :: "'d Expression \<Rightarrow> 'd res" where
  "constant_of e = (case e of BoundConstant t v \<Rightarrow> Inr v
     | _ \<Rightarrow> Inl (InternalException ''Failed to cast expression to type - expression type mismatch''))"

definition is_constant :: "'d Expression \<Rightarrow> bool" where
  "is_constant e = (case e of BoundConstant t v \<Rightarrow> True | _ \<Rightarrow> False)"

section \<open>The state tree\<close>

datatype 'd GpuExpressionState =
  GpuExpressionState (state_expr: "'d Expression") (child_states: "'d GpuExpressionState list")
    (child_types: "cudf_data_type list")

text \<open>\<open>AddChild\<close> records the child's type before it builds the child's state; the state to build is
  the last argument.\<close>

definition AddChild ::
  "duckdb_env \<Rightarrow> 'd Expression \<Rightarrow> 'd GpuExpressionState \<Rightarrow> 'd GpuExpressionState res \<Rightarrow> 'd GpuExpressionState res" where
  "AddChild D child_expr st child_state =
     res_bind (GetCudfType D (return_type child_expr)) (\<lambda>t.
     res_bind child_state (\<lambda>s.
       Inr (GpuExpressionState (state_expr st) (child_states st @ [s]) (child_types st @ [t]))))"

fun InitializeState :: "duckdb_env \<Rightarrow> 'd Expression \<Rightarrow> 'd GpuExpressionState res"
and AddChildren :: "duckdb_env \<Rightarrow> 'd Expression list \<Rightarrow> 'd GpuExpressionState \<Rightarrow> 'd GpuExpressionState res"
and AddCaseChecks :: "duckdb_env \<Rightarrow> 'd CaseCheck list \<Rightarrow> 'd GpuExpressionState \<Rightarrow> 'd GpuExpressionState res"
and AddCaseCheck :: "duckdb_env \<Rightarrow> 'd CaseCheck \<Rightarrow> 'd GpuExpressionState \<Rightarrow> 'd GpuExpressionState res"
where
  "InitializeState D (BoundBetween t input lower upper li ui) =
     res_bind (AddChild D input (GpuExpressionState (BoundBetween t input lower upper li ui) [] []) (InitializeState D input)) (\<lambda>r.
     res_bind (AddChild D lower r (InitializeState D lower)) (\<lambda>r.
     AddChild D upper r (InitializeState D upper)))"
| "InitializeState D (BoundCase t checks else_expr) =
     res_bind (AddCaseChecks D checks (GpuExpressionState (BoundCase t checks else_expr) [] [])) (\<lambda>r.
     AddChild D else_expr r (InitializeState D else_expr))"
| "InitializeState D (BoundCast t child) =
     AddChild D child (GpuExpressionState (BoundCast t child) [] []) (InitializeState D child)"
| "InitializeState D (BoundComparison ty t left right) =
     res_bind (AddChild D left (GpuExpressionState (BoundComparison ty t left right) [] []) (InitializeState D left)) (\<lambda>r.
     AddChild D right r (InitializeState D right))"
| "InitializeState D (BoundConjunction ty t children) =
     AddChildren D children (GpuExpressionState (BoundConjunction ty t children) [] [])"
| "InitializeState D (BoundConstant t v) = Inr (GpuExpressionState (BoundConstant t v) [] [])"
| "InitializeState D (BoundFunction name t children) =
     AddChildren D children (GpuExpressionState (BoundFunction name t children) [] [])"
| "InitializeState D (BoundOperator ty t children) =
     AddChildren D children (GpuExpressionState (BoundOperator ty t children) [] [])"
| "InitializeState D (BoundParameter t) =
     Inl (NotImplementedException ''InitializeState[BOUND_PARAMETER]: Not yet implemented!'')"
| "InitializeState D (BoundReference t i) = Inr (GpuExpressionState (BoundReference t i) [] [])"
| "InitializeState D (OtherExpression t) = Inl (InternalException ''InitializeState: Unknown ExpressionClass!'')"
| "AddChildren D [] r = Inr r"
| "AddChildren D (c # cs) r = res_bind (AddChild D c r (InitializeState D c)) (AddChildren D cs)"
| "AddCaseChecks D [] r = Inr r"
| "AddCaseChecks D (c # cs) r = res_bind (AddCaseCheck D c r) (AddCaseChecks D cs)"
| "AddCaseCheck D (CaseCheck w th) r =
     res_bind (AddChild D w r (InitializeState D w)) (\<lambda>r. AddChild D th r (InitializeState D th))"

section \<open>Input columns\<close>

text \<open>The part of the executor that changes while it runs; a moved-over relation shares its columns.\<close>

record 'v gpu_expression_executor =
  exec_dev :: "'v device"
  input_columns :: "GPUColumn option list"
  input_count :: int
  has_null_input_column :: bool

definition on_device :: "('v device, 'a) act \<Rightarrow> ('v gpu_expression_executor, 'a) act" where
  "on_device m s = (case m (exec_dev s) of (r, d) \<Rightarrow> (r, s\<lparr>exec_dev := d\<rparr>))"

definition temp_count :: "GPUColumn option \<Rightarrow> int res" where
  "temp_count col = (case col of None \<Rightarrow> Inr 0
     | Some c \<Rightarrow> if row_ids c = nullptr then Inr (int32_of_u64 (column_length c))
                else (case row_id_count c of Some n \<Rightarrow> Inr (int32_of_u64 n)
                      | None \<Rightarrow> Inl (UndefinedBehaviour ''row_id_count is uninitialised'')))"

fun count_columns :: "GPUColumn option list \<Rightarrow> int \<times> bool \<Rightarrow> (int \<times> bool) res" where
  "count_columns [] acc = Inr acc"
| "count_columns (c # cs) (n, null_seen) = res_bind (temp_count c) (\<lambda>k.
     count_columns cs (if k > 0 then (k, null_seen) else (n, True)))"

definition SetInputColumns :: "GPUIntermediateRelation \<Rightarrow> ('v gpu_expression_executor, unit) act" where
  "SetInputColumns rel =
     (if columns rel = [] then
        act_modify (\<lambda>s. s\<lparr>input_columns := [], input_count := 1, has_null_input_column := False\<rparr>)
      else act_bind (act_lift (count_columns (columns rel) (0, False))) (\<lambda>(n, null_seen).
        act_modify (\<lambda>s. s\<lparr>input_columns := columns rel, input_count := n,
                          has_null_input_column := null_seen\<rparr>)))"

definition null_column :: "GPUColumn option list \<Rightarrow> nat \<Rightarrow> bool res" where
  "null_column cols i = res_bind (vec_at cols i) (\<lambda>c.
     Inr (case c of None \<Rightarrow> True | Some col \<Rightarrow> dw_data (data_wrapper col) = nullptr))"

definition res_or :: "bool res \<Rightarrow> bool res \<Rightarrow> bool res" where
  "res_or a b = res_bind a (\<lambda>x. if x then Inr True else b)"

fun HasNullLeaf :: "GPUColumn option list \<Rightarrow> 'd Expression \<Rightarrow> bool res"
and HasNullLeafLoop :: "GPUColumn option list \<Rightarrow> 'd Expression list \<Rightarrow> bool res"
and HasNullLeafChecks :: "GPUColumn option list \<Rightarrow> 'd CaseCheck list \<Rightarrow> bool res"
and HasNullLeafCheck :: "GPUColumn option list \<Rightarrow> 'd CaseCheck \<Rightarrow> bool res"
where
  "HasNullLeaf cols (BoundBetween t input lower upper li ui) =
     res_or (HasNullLeaf cols input) (res_or (HasNullLeaf cols lower) (HasNullLeaf cols upper))"
| "HasNullLeaf cols (BoundCase t checks else_expr) =
     res_or (HasNullLeafChecks cols checks) (HasNullLeaf cols else_expr)"
| "HasNullLeaf cols (BoundCast t child) = HasNullLeaf cols child"
| "HasNullLeaf cols (BoundComparison ty t left right) =
     res_or (HasNullLeaf cols left) (HasNullLeaf cols right)"
| "HasNullLeaf cols (BoundConjunction ty t children) = HasNullLeafLoop cols children"
| "HasNullLeaf cols (BoundConstant t v) = Inr False"
| "HasNullLeaf cols (BoundFunction name t children) = HasNullLeafLoop cols children"
| "HasNullLeaf cols (BoundOperator ty t children) = HasNullLeafLoop cols children"
| "HasNullLeaf cols (BoundReference t i) = null_column cols i"
| "HasNullLeaf cols (BoundParameter t) =
     Inl (InternalException ''HasNullLeaf called on an expression with unsupported expression class!'')"
| "HasNullLeaf cols (OtherExpression t) =
     Inl (InternalException ''HasNullLeaf called on an expression with unsupported expression class!'')"
| "HasNullLeafLoop cols [] = Inr False"
| "HasNullLeafLoop cols (c # cs) = res_or (HasNullLeaf cols c) (HasNullLeafLoop cols cs)"
| "HasNullLeafChecks cols [] = Inr False"
| "HasNullLeafChecks cols (c # cs) = res_or (HasNullLeafCheck cols c) (HasNullLeafChecks cols cs)"
| "HasNullLeafCheck cols (CaseCheck w th) = res_or (HasNullLeaf cols w) (HasNullLeaf cols th)"

end
