(* ===== verification/Expression_Executor.thy ===== *)
theory Expression_Executor
  imports Expressions
begin

text \<open>
  The expression executor (\<open>src/src/expression_executor/\<close>): one definition for each
  \<open>Execute(const Bound...Expression&)\<close>, the dispatchers they use, and the recursion
  \<open>Execute(expr, state)\<close> that ties them together.  A specialization is given the calls it may make,
  one per child, and reaches child \<open>k\<close> with the state it reads from \<open>child_states\<close>, so an index past
  the end of either vector is visible.
\<close>

record ('d, 'v) exec_env =
  ee_duckdb :: duckdb_env
  ee_rmm :: rmm_pool
  ee_cub :: "u64 \<Rightarrow> u64"
  ee_cudf :: "'v cudf"
  ee_values :: "('d, 'v) duckdb_values"

type_synonym 'v column_act = "('v gpu_expression_executor, 'v cudf_column) act"

type_synonym ('d, 'v) child_calls = "('d GpuExpressionState \<Rightarrow> 'v column_act) list"

definition exec_at :: "('d, 'v) child_calls \<Rightarrow> 'd GpuExpressionState \<Rightarrow> nat \<Rightarrow> nat \<Rightarrow> 'v column_act" where
  "exec_at calls st k j = act_bind (act_lift (vec_at (child_states st) j)) (\<lambda>s.
     act_bind (act_lift (vec_at calls k)) (\<lambda>f. f s))"

definition exec_child :: "('d, 'v) child_calls \<Rightarrow> 'd GpuExpressionState \<Rightarrow> nat \<Rightarrow> 'v column_act" where
  "exec_child calls st k = exec_at calls st k k"

abbreviation bool8 :: cudf_data_type where "bool8 \<equiv> cudf_data CUDF_BOOL8"

definition INT32_MAX :: int where "INT32_MAX = 2147483647"

section \<open>References and constants\<close>

definition Execute_Reference :: "('d, 'v) exec_env \<Rightarrow> nat \<Rightarrow> 'v column_act" where
  "Execute_Reference E index = act_reads input_columns (\<lambda>cols.
     act_bind (act_lift (vec_at cols index)) (\<lambda>col. case col of
       None \<Rightarrow> act_throw (UndefinedBehaviour ''null column'')
     | Some c \<Rightarrow>
         if row_ids c \<noteq> nullptr then
           (case row_id_count c of
              None \<Rightarrow> act_throw (UndefinedBehaviour ''row_id_count is uninitialised'')
            | Some n \<Rightarrow>
                if int (unat n) > INT32_MAX then act_throw (NotImplementedException
                  ''Execute[Reference]: row_id_counts larger than int32_t are not supported in libcudf'')
                else act_bind (on_device (HandleMaterializeExpression (ee_duckdb E) (ee_rmm E) (ee_cub E) c)) (\<lambda>out.
                     act_bind (on_device (convertToCudfColumn (ee_duckdb E) (ee_rmm E) out)) (\<lambda>(out, view).
                     on_device (copy_view (ee_cudf E) view))))
         else if int (unat (column_length c)) > INT32_MAX then act_throw (NotImplementedException
           ''Execute[Reference]: input column length larger than int32_t are not supported in libcudf'')
         else act_bind (on_device (convertToCudfColumn (ee_duckdb E) (ee_rmm E) c)) (\<lambda>(c', view).
              act_bind (act_modify (\<lambda>s. s\<lparr>input_columns := (input_columns s)[index := Some c']\<rparr>)) (\<lambda>_.
              on_device (copy_view (ee_cudf E) view)))))"

definition decimal_scale :: "LogicalType \<Rightarrow> int res" where
  "decimal_scale t = (case t of L_DECIMAL w sc \<Rightarrow> Inr (- uint sc)
     | _ \<Rightarrow> Inl (UndefinedBehaviour ''DecimalType::GetScale of another type''))"

definition constant_scalar :: "('d, 'v) exec_env \<Rightarrow> cudf_type_id \<Rightarrow> 'd \<Rightarrow> 'v cudf_scalar res" where
  "constant_scalar E i value =
     (if i = CUDF_STRING then res_bind (GetValue_string (ee_values E) value) (\<lambda>str. Inr (StringScalar str))
      else if i = CUDF_DECIMAL32 \<or> i = CUDF_DECIMAL64 then
        (case value_type (ee_values E) value of
           L_DECIMAL w sc \<Rightarrow> res_bind (GetValueUnsafe (ee_values E) i value) (\<lambda>rep.
             Inr (FixedPointScalar (cudf_decimal i (- uint sc)) rep))
         | _ \<Rightarrow> Inl (InternalException ''Invalid duckdb type for decimal constant''))
      else res_bind (GetValue (ee_values E) i value) (\<lambda>v. Inr (NumericScalar (cudf_data i) v)))"

definition MakeColumnFromConstant ::
  "('d, 'v) exec_env \<Rightarrow> cudf_type_id \<Rightarrow> 'd \<Rightarrow> int \<Rightarrow> 'v cudf_column res" where
  "MakeColumnFromConstant E i value cnt =
     res_bind (constant_scalar E i value) (\<lambda>scalar. cudf_make_column_from_scalar (ee_cudf E) scalar cnt)"

definition constant_type :: "cudf_type_id \<Rightarrow> bool" where
  "constant_type i \<longleftrightarrow> i \<in> {CUDF_INT16, CUDF_INT32, CUDF_INT64, CUDF_FLOAT32, CUDF_FLOAT64, CUDF_BOOL8,
     CUDF_STRING, CUDF_DECIMAL32, CUDF_DECIMAL64}"

definition Execute_Constant :: "('d, 'v) exec_env \<Rightarrow> LogicalType \<Rightarrow> 'd \<Rightarrow> 'v column_act" where
  "Execute_Constant E t value = act_reads input_count (\<lambda>cnt.
     act_bind (act_lift (GetCudfType (ee_duckdb E) t)) (\<lambda>cudf_type.
       act_lift (if constant_type (cudf_id cudf_type)
                 then MakeColumnFromConstant E (cudf_id cudf_type) value cnt
                 else Inl (InternalException ''Execute[Constant]: Unknown cudf type''))))"

section \<open>Comparisons, BETWEEN, conjunctions and casts\<close>

definition comparison_operator :: "ExpressionType \<Rightarrow> binary_operator res" where
  "comparison_operator ty = (case ty of
     COMPARE_EQUAL \<Rightarrow> Inr EQUAL
   | COMPARE_NOTEQUAL \<Rightarrow> Inr NOT_EQUAL
   | COMPARE_LESSTHAN \<Rightarrow> Inr LESS
   | COMPARE_GREATERTHAN \<Rightarrow> Inr GREATER
   | COMPARE_LESSTHANOREQUALTO \<Rightarrow> Inr LESS_EQUAL
   | COMPARE_GREATERTHANOREQUALTO \<Rightarrow> Inr GREATER_EQUAL
   | COMPARE_DISTINCT_FROM \<Rightarrow> Inl (NotImplementedException
       ''Execute[Comparison]: DISTINCT comparisons not yet implemented!'')
   | COMPARE_NOT_DISTINCT_FROM \<Rightarrow> Inl (NotImplementedException
       ''Execute[Comparison]: DISTINCT comparisons not yet implemented!'')
   | _ \<Rightarrow> Inl (InternalException ''Execute[Comparison]: Unknown comparison type!''))"

definition comparison_scalar :: "('d, 'v) exec_env \<Rightarrow> cudf_type_id \<Rightarrow> 'd \<Rightarrow> 'v cudf_scalar res" where
  "comparison_scalar E i right_value =
     (if i = CUDF_STRING then
        res_bind (GetValue_string (ee_values E) right_value) (\<lambda>str. Inr (StringScalar str))
      else if i \<in> {CUDF_INT16, CUDF_INT32, CUDF_INT64, CUDF_FLOAT32, CUDF_FLOAT64, CUDF_BOOL8} then
        res_bind (GetValue (ee_values E) i right_value) (\<lambda>v. Inr (NumericScalar (cudf_data i) v))
      else Inl (InternalException ''Execute[Comparison]: Unsupported constant type for comparison''))"

definition DoScalarComparison ::
  "('d, 'v) exec_env \<Rightarrow> binary_operator \<Rightarrow> 'v cudf_column \<Rightarrow> cudf_type_id \<Rightarrow> 'd \<Rightarrow> cudf_data_type \<Rightarrow>
   'v cudf_column res" where
  "DoScalarComparison E op left i right_value ret =
     res_bind (comparison_scalar E i right_value) (\<lambda>scalar.
       cudf_binary_operation_rhs (ee_cudf E) left scalar op ret)"

definition Execute_Comparison ::
  "('d, 'v) exec_env \<Rightarrow> ExpressionType \<Rightarrow> LogicalType \<Rightarrow> 'd Expression \<Rightarrow> ('d, 'v) child_calls \<Rightarrow>
   'd GpuExpressionState \<Rightarrow> 'v column_act" where
  "Execute_Comparison E ty t right_expr calls st =
     act_bind (act_lift (GetCudfType (ee_duckdb E) t)) (\<lambda>ret.
     act_bind (act_lift (comparison_operator ty)) (\<lambda>op.
     act_bind (exec_child calls st 0) (\<lambda>left.
       case right_expr of
         BoundConstant rt right_value \<Rightarrow>
           act_bind (act_lift (GetCudfType (ee_duckdb E) rt)) (\<lambda>ct.
             act_lift (DoScalarComparison E op left (cudf_id ct) right_value ret))
       | _ \<Rightarrow> act_bind (exec_child calls st 1) (\<lambda>right.
             act_lift (cudf_binary_operation (ee_cudf E) left right op ret)))))"

definition Execute_Between ::
  "('d, 'v) exec_env \<Rightarrow> ('d, 'v) child_calls \<Rightarrow> 'd GpuExpressionState \<Rightarrow> 'v column_act" where
  "Execute_Between E calls st =
     act_bind (exec_child calls st 0) (\<lambda>input.
     act_bind (exec_child calls st 1) (\<lambda>lower.
     act_bind (exec_child calls st 2) (\<lambda>upper.
     act_bind (act_lift (cudf_binary_operation (ee_cudf E) input lower GREATER_EQUAL bool8)) (\<lambda>lower_cmp.
     act_bind (act_lift (cudf_binary_operation (ee_cudf E) input upper LESS_EQUAL bool8)) (\<lambda>upper_cmp.
     act_lift (cudf_binary_operation (ee_cudf E) lower_cmp upper_cmp LOGICAL_AND bool8))))))"

definition conjunction_operator :: "ExpressionType \<Rightarrow> binary_operator res" where
  "conjunction_operator ty = (case ty of
     CONJUNCTION_AND \<Rightarrow> Inr LOGICAL_AND
   | CONJUNCTION_OR \<Rightarrow> Inr LOGICAL_OR
   | _ \<Rightarrow> Inl (InternalException ''Execute[Conjunction]: Unknown conjunction type!''))"

text \<open>The loop from child \<open>i\<close> on, with the \<open>k\<close> children left.  With no child at all the result is a null
  pointer, which the caller dereferences.\<close>

fun conjunction_loop ::
  "('d, 'v) exec_env \<Rightarrow> ExpressionType \<Rightarrow> cudf_data_type \<Rightarrow> ('d, 'v) child_calls \<Rightarrow> 'd GpuExpressionState \<Rightarrow>
   nat \<Rightarrow> nat \<Rightarrow> 'v cudf_column option \<Rightarrow> ('v gpu_expression_executor, 'v cudf_column option) act" where
  "conjunction_loop E ty ret calls st i 0 out = act_return out"
| "conjunction_loop E ty ret calls st i (Suc k) out =
     act_bind (exec_child calls st i) (\<lambda>current.
     act_bind
       (case out of None \<Rightarrow> act_return current
        | Some output_column \<Rightarrow> act_bind (act_lift (conjunction_operator ty)) (\<lambda>op.
            act_lift (cudf_binary_operation (ee_cudf E) current output_column op ret)))
       (\<lambda>out. conjunction_loop E ty ret calls st (Suc i) k (Some out)))"

definition Execute_Conjunction ::
  "('d, 'v) exec_env \<Rightarrow> ExpressionType \<Rightarrow> LogicalType \<Rightarrow> nat \<Rightarrow> ('d, 'v) child_calls \<Rightarrow>
   'd GpuExpressionState \<Rightarrow> 'v column_act" where
  "Execute_Conjunction E ty t n calls st =
     act_bind (act_lift (GetCudfType (ee_duckdb E) t)) (\<lambda>ret.
     act_bind (conjunction_loop E ty ret calls st 0 n None) (\<lambda>out.
       case out of None \<Rightarrow> act_throw (UndefinedBehaviour ''null column'')
       | Some c \<Rightarrow> act_return c))"

definition Execute_Cast ::
  "('d, 'v) exec_env \<Rightarrow> LogicalType \<Rightarrow> ('d, 'v) child_calls \<Rightarrow> 'd GpuExpressionState \<Rightarrow> 'v column_act" where
  "Execute_Cast E t calls st =
     act_bind (act_lift (GetCudfType (ee_duckdb E) t)) (\<lambda>ty.
     act_bind (exec_child calls st 0) (\<lambda>child.
       act_lift (cudf_cast (ee_cudf E) child (cudf_data (cudf_id ty)))))"

section \<open>CASE\<close>

definition error_function :: "'d Expression \<Rightarrow> bool" where
  "error_function e = (case e of BoundFunction name t children \<Rightarrow> name = ''error'' | _ \<Rightarrow> False)"

definition error_message :: exn where
  "error_message = InternalException
     ''Execute[Case]: More than one row returned by a subquery used as an expression.''"

text \<open>One turn of the loop for check \<open>i\<close>; \<open>is_error\<close> tells whether its THEN is the error function.\<close>

definition case_step ::
  "('d, 'v) exec_env \<Rightarrow> ('d, 'v) child_calls \<Rightarrow> 'd GpuExpressionState \<Rightarrow> bool \<Rightarrow> nat \<Rightarrow> 'v cudf_column \<Rightarrow>
   'v column_act" where
  "case_step E calls st is_error i current_output =
     act_bind (act_lift (vec_at (child_states st) (2 * i + 1))) (\<lambda>then_state.
     act_bind (exec_child calls st (2 * i)) (\<lambda>current_mask.
       if is_error then
         act_bind (act_lift (cudf_reduce_any (ee_cudf E) current_mask)) (\<lambda>any_result.
           if any_result then act_throw error_message else act_return current_output)
       else act_bind (exec_child calls st (2 * i + 1)) (\<lambda>current_then.
         act_lift (cudf_copy_if_else (ee_cudf E) current_then current_output current_mask))))"

fun case_loop ::
  "('d, 'v) exec_env \<Rightarrow> ('d, 'v) child_calls \<Rightarrow> 'd GpuExpressionState \<Rightarrow> 'd CaseCheck list \<Rightarrow> nat \<Rightarrow>
   'v cudf_column \<Rightarrow> 'v column_act" where
  "case_loop E calls st checks 0 out = act_return out"
| "case_loop E calls st checks (Suc i) out =
     act_bind (act_lift (vec_at checks i)) (\<lambda>check.
     act_bind (case_step E calls st (error_function (then_expr check)) i out)
       (case_loop E calls st checks i))"

definition Execute_Case ::
  "('d, 'v) exec_env \<Rightarrow> 'd CaseCheck list \<Rightarrow> ('d, 'v) child_calls \<Rightarrow> 'd GpuExpressionState \<Rightarrow> 'v column_act" where
  "Execute_Case E checks calls st =
     act_bind (if child_states st = [] then act_throw (UndefinedBehaviour ''back of an empty vector'')
               else exec_at calls st (2 * length checks) (length (child_states st) - 1))
       (\<lambda>current_output. case_loop E calls st checks (length checks) current_output)"

end
