(* ===== verification/Expression_Functions.thy ===== *)
theory Expression_Functions
  imports Expression_Executor
begin

text \<open>
  The executor's operators (\<open>IN\<close>, \<open>NOT\<close>, \<open>IS NULL\<close>: \<open>gpu_execute_operator.cpp\<close>) and functions
  (\<open>gpu_execute_function.cpp\<close>), and the recursion over expressions.  The template argument
  \<open>use_cudf\<close> has the value the build fixes, \<open>Config::USE_CUDF_EXPR = true\<close>.
\<close>

section \<open>IN, NOT, IS NULL\<close>

definition constant_list :: "'d Expression list \<Rightarrow> 'd list res" where
  "constant_list es = res_mapM constant_of es"

text \<open>The list of a numeric \<open>IN\<close> gets the type of the left side; its length is narrowed to 32 bits
  (\<open>static_cast<cudf::size_type>\<close>).\<close>

definition ExecuteNumericIn ::
  "('d, 'v) exec_env \<Rightarrow> cudf_type_id \<Rightarrow> 'd Expression list \<Rightarrow> 'v cudf_column \<Rightarrow> 'v cudf_column res" where
  "ExecuteNumericIn E i children input =
     res_bind (constant_list (tl children)) (\<lambda>values.
     res_bind (res_mapM (GetValue (ee_values E) i) values) (\<lambda>children_vals.
       cudf_contains (ee_cudf E)
         \<lparr>cc_type = cc_type input, cc_data = children_vals, cc_mask = map (\<lambda>_. True) children_vals\<rparr> input))"

text \<open>The strings are laid out as one byte array with running offsets, and read back by cuDF.\<close>

fun in_offsets :: "u64 \<Rightarrow> u8 list list \<Rightarrow> u64 list" where
  "in_offsets offset [] = [offset]"
| "in_offsets offset (s # ss) = offset # in_offsets (offset + of_nat (length s)) ss"

definition bytes_of_string :: "string \<Rightarrow> u8 list" where
  "bytes_of_string s = map (\<lambda>c. word_of_nat (of_char c)) s"

definition ExecuteStringIn ::
  "('d, 'v) exec_env \<Rightarrow> 'd Expression list \<Rightarrow> 'v cudf_column \<Rightarrow> 'v cudf_column res" where
  "ExecuteStringIn E children input =
     res_bind (constant_list (tl children)) (\<lambda>values.
     res_bind (res_mapM (GetValue_string (ee_values E)) values) (\<lambda>strings.
       let bytes = map bytes_of_string strings; chars = concat bytes; offsets = in_offsets 0 bytes in
       res_bind (string_cells (element_of_bytes (ee_cudf E)) (length children - 1) offsets chars) (\<lambda>data.
         cudf_contains (ee_cudf E)
           \<lparr>cc_type = cudf_data CUDF_STRING, cc_data = data, cc_mask = map (\<lambda>_. True) data\<rparr> input)))"

definition in_constants ::
  "('d, 'v) exec_env \<Rightarrow> 'd Expression list \<Rightarrow> 'v cudf_column \<Rightarrow> 'v cudf_column res" where
  "in_constants E children left =
     (let i = cudf_id (cc_type left) in
      if i \<in> {CUDF_INT16, CUDF_INT32, CUDF_INT64, CUDF_FLOAT32, CUDF_FLOAT64, CUDF_BOOL8}
      then ExecuteNumericIn E i children left
      else if i = CUDF_STRING then ExecuteStringIn E children left
      else Inl (NotImplementedException ''Execute[IN_CONSTANTS]: Unimplemented type''))"

fun in_loop ::
  "('d, 'v) exec_env \<Rightarrow> cudf_data_type \<Rightarrow> ('d, 'v) child_calls \<Rightarrow> 'd GpuExpressionState \<Rightarrow> 'v cudf_column \<Rightarrow>
   nat \<Rightarrow> nat \<Rightarrow> 'v cudf_column option \<Rightarrow> ('v gpu_expression_executor, 'v cudf_column option) act" where
  "in_loop E ret calls st left child 0 out = act_return out"
| "in_loop E ret calls st left child (Suc k) out =
     act_bind (exec_child calls st child) (\<lambda>comparator.
     act_bind (act_lift (cudf_binary_operation (ee_cudf E) left comparator EQUAL ret)) (\<lambda>comparison_result.
     act_bind
       (case out of None \<Rightarrow> act_return comparison_result
        | Some intermediate_result \<Rightarrow> act_lift
            (cudf_binary_operation (ee_cudf E) intermediate_result comparison_result LOGICAL_OR ret))
       (\<lambda>out. in_loop E ret calls st left (Suc child) k (Some out))))"

definition execute_in ::
  "('d, 'v) exec_env \<Rightarrow> bool \<Rightarrow> cudf_data_type \<Rightarrow> 'd Expression list \<Rightarrow> ('d, 'v) child_calls \<Rightarrow>
   'd GpuExpressionState \<Rightarrow> 'v column_act" where
  "execute_in E negated ret children calls st =
     (if length children < 2 then act_throw (InvalidInputException
        ''Execute[BOUND_OPERATOR]: IN needs at least two children!'')
      else act_bind (exec_child calls st 0) (\<lambda>left.
        if list_all is_constant (tl children) then act_lift (in_constants E children left)
        else act_bind (in_loop E ret calls st left 1 (length children - 1) None) (\<lambda>out.
          case out of None \<Rightarrow> act_throw (UndefinedBehaviour ''null column'')
          | Some intermediate_result \<Rightarrow>
              if negated then act_lift (cudf_unary_not (ee_cudf E) intermediate_result)
              else act_return intermediate_result)))"

definition unary_operator :: "('d, 'v) exec_env \<Rightarrow> ExpressionType \<Rightarrow> 'v cudf_column \<Rightarrow> 'v cudf_column res" where
  "unary_operator E ty child =
     (if ty = OPERATOR_NOT then cudf_unary_not (ee_cudf E) child
      else if ty = OPERATOR_IS_NULL then cudf_is_null (ee_cudf E) child
      else if ty = OPERATOR_IS_NOT_NULL then
        res_bind (cudf_is_null (ee_cudf E) child) (\<lambda>temp. cudf_unary_not (ee_cudf E) temp)
      else Inl (NotImplementedException ''Execute[OPERATOR]: Unimplemented operator type with 1 child!''))"

definition Execute_Operator ::
  "('d, 'v) exec_env \<Rightarrow> ExpressionType \<Rightarrow> LogicalType \<Rightarrow> 'd Expression list \<Rightarrow> ('d, 'v) child_calls \<Rightarrow>
   'd GpuExpressionState \<Rightarrow> 'v column_act" where
  "Execute_Operator E ty t children calls st =
     act_bind (act_lift (GetCudfType (ee_duckdb E) t)) (\<lambda>ret.
       if ty = COMPARE_IN \<or> ty = COMPARE_NOT_IN then execute_in E (ty = COMPARE_NOT_IN) ret children calls st
       else if ty = OPERATOR_COALESCE then act_throw (NotImplementedException
         ''Execute[OPERATOR_COALESCE]: Not yet implemented!'')
       else if length children = 1 then
         act_bind (exec_child calls st 0) (\<lambda>child. act_lift (unary_operator E ty child))
       else act_throw (NotImplementedException ''Execute[OPERATOR]: Unimplemented operator type!''))"

section \<open>Arithmetic\<close>

definition INT64_MAX :: int where "INT64_MAX = 9223372036854775807"

text \<open>The decimal scalar takes the type of the column it is combined with: only the upper limit of a
  narrower type is tested before the cast.\<close>

definition decimal_scalar ::
  "cudf_type_id \<Rightarrow> int \<Rightarrow> int \<Rightarrow> cudf_data_type \<Rightarrow> 'v cudf_scalar res" where
  "decimal_scalar i rep scale other =
     (if cudf_id other = i then Inr (FixedPointScalar (cudf_decimal i scale) rep)
      else (case cudf_id other of
        CUDF_DECIMAL32 \<Rightarrow>
          if rep > INT32_MAX then Inl (InternalException
            ''Cannot cast decimal scalar to decimal32, value greater than INT32_MAX'')
          else Inr (FixedPointScalar (cudf_decimal CUDF_DECIMAL32 scale) (sint (word_of_int rep :: 32 word)))
      | CUDF_DECIMAL64 \<Rightarrow>
          if rep > INT64_MAX then Inl (InternalException
            ''Cannot cast decimal scalar to decimal64, value greater than INT64_MAX'')
          else Inr (FixedPointScalar (cudf_decimal CUDF_DECIMAL64 scale) (sint (word_of_int rep :: 64 word)))
      | CUDF_DECIMAL128 \<Rightarrow> Inr (FixedPointScalar (cudf_decimal CUDF_DECIMAL128 scale) rep)
      | _ \<Rightarrow> Inl (InternalException ''column is not decimal with decimal constant'')))"

text \<open>\<open>(__int128_t(upper) << 64) | lower\<close>.\<close>

definition int128_of_hugeint :: "u64 \<times> u64 \<Rightarrow> int" where
  "int128_of_hugeint h = (case h of (upper, lower) \<Rightarrow>
     sint (or (push_bit 64 (scast upper :: 128 word)) (ucast lower)))"

definition constant_rep :: "('d, 'v) exec_env \<Rightarrow> cudf_type_id \<Rightarrow> 'd \<Rightarrow> int res" where
  "constant_rep E i value =
     (if i = CUDF_DECIMAL128
      then res_bind (GetValueUnsafe_hugeint (ee_values E) value) (\<lambda>h. Inr (int128_of_hugeint h))
      else GetValueUnsafe (ee_values E) i value)"

definition binary_scalar ::
  "('d, 'v) exec_env \<Rightarrow> cudf_type_id \<Rightarrow> 'd \<Rightarrow> cudf_data_type \<Rightarrow> 'v cudf_scalar res" where
  "binary_scalar E i value other =
     (if i \<in> {CUDF_INT16, CUDF_INT32, CUDF_INT64, CUDF_FLOAT32, CUDF_FLOAT64} then
        res_bind (GetValue (ee_values E) i value) (\<lambda>v. Inr (NumericScalar (cudf_data i) v))
      else if i \<in> {CUDF_DECIMAL32, CUDF_DECIMAL64, CUDF_DECIMAL128} then
        res_bind (constant_rep E i value) (\<lambda>rep.
        res_bind (decimal_scale (value_type (ee_values E) value)) (\<lambda>scale.
          decimal_scalar i rep scale other))
      else if i = CUDF_BOOL8 then Inl (NotImplementedException
        ''Execute[Function]: Boolean types not supported for numeric binary operations!'')
      else Inl (InternalException ''Execute[Function]: Unknown cudf type of constant for binary operation''))"

definition NumericBinaryFunctionDispatcher ::
  "('d, 'v) exec_env \<Rightarrow> binary_operator \<Rightarrow> LogicalType \<Rightarrow> 'd Expression list \<Rightarrow> ('d, 'v) child_calls \<Rightarrow>
   'd GpuExpressionState \<Rightarrow> 'v column_act" where
  "NumericBinaryFunctionDispatcher E op t children calls st =
     act_bind (act_lift (GetCudfType (ee_duckdb E) t)) (\<lambda>ret.
     act_bind (act_lift (vec_at children 0)) (\<lambda>c0.
       if is_constant c0 then
         act_bind (act_lift (constant_of c0)) (\<lambda>left_value.
         act_bind (exec_child calls st 1) (\<lambda>right.
         act_bind (act_lift (GetCudfType (ee_duckdb E) (return_type c0))) (\<lambda>ct.
         act_bind (act_lift (binary_scalar E (cudf_id ct) left_value (cc_type right))) (\<lambda>scalar.
           act_lift (cudf_binary_operation_lhs (ee_cudf E) scalar right op ret)))))
       else act_bind (act_lift (vec_at children 1)) (\<lambda>c1.
         if is_constant c1 then
           act_bind (act_lift (constant_of c1)) (\<lambda>right_value.
           act_bind (exec_child calls st 0) (\<lambda>left.
           act_bind (act_lift (GetCudfType (ee_duckdb E) (return_type c1))) (\<lambda>ct.
           act_bind (act_lift (binary_scalar E (cudf_id ct) right_value (cc_type left))) (\<lambda>scalar.
             act_lift (cudf_binary_operation_rhs (ee_cudf E) left scalar op ret)))))
         else act_bind (exec_child calls st 0) (\<lambda>left.
              act_bind (exec_child calls st 1) (\<lambda>right.
                act_lift (cudf_binary_operation (ee_cudf E) left right op ret))))))"

section \<open>String, date and unary functions\<close>

datatype MatchType = MATCH_LIKE | MATCH_NOT_LIKE | MATCH_CONTAINS | MATCH_PREFIX | MATCH_SUFFIX

definition WARP_SIZE :: int where "WARP_SIZE = 32"

definition StringMatchingDispatcher ::
  "('d, 'v) exec_env \<Rightarrow> MatchType \<Rightarrow> 'd Expression list \<Rightarrow> ('d, 'v) child_calls \<Rightarrow> 'd GpuExpressionState \<Rightarrow>
   'v column_act" where
  "StringMatchingDispatcher E MatchType children calls st =
     act_bind (exec_child calls st 0) (\<lambda>input.
     act_bind (act_lift (vec_at children 1)) (\<lambda>c1.
     act_bind (act_lift (constant_of c1)) (\<lambda>match_value.
     act_bind (act_lift (GetValue_string (ee_values E) match_value)) (\<lambda>match_str.
     act_lift (case MatchType of
       MATCH_SUFFIX \<Rightarrow> cudf_ends_with (ee_cudf E) input (StringScalar match_str)
     | MATCH_LIKE \<Rightarrow> cudf_like (ee_cudf E) input (StringScalar match_str) (StringScalar [])
     | MATCH_NOT_LIKE \<Rightarrow> res_bind (cudf_like (ee_cudf E) input (StringScalar match_str) (StringScalar []))
         (cudf_unary_not (ee_cudf E))
     | MATCH_CONTAINS \<Rightarrow>
         if int (length (cc_data input)) \<le> INT32_MAX div WARP_SIZE
         then cudf_strings_contains (ee_cudf E) input (StringScalar match_str)
         else cudf_like (ee_cudf E) input (StringScalar (''%'' @ match_str @ ''%'')) (StringScalar [])
     | MATCH_PREFIX \<Rightarrow> cudf_starts_with (ee_cudf E) input (StringScalar match_str))))))"

definition int32_result :: "int \<Rightarrow> int res" where
  "int32_result i = (if - INT32_MAX - 1 \<le> i \<and> i \<le> INT32_MAX then Inr i
     else Inl (UndefinedBehaviour ''signed integer overflow''))"

definition substring_function ::
  "('d, 'v) exec_env \<Rightarrow> 'd Expression list \<Rightarrow> ('d, 'v) child_calls \<Rightarrow> 'd GpuExpressionState \<Rightarrow> 'v column_act" where
  "substring_function E children calls st =
     act_bind (act_lift (res_bind (vec_at children 1) constant_of)) (\<lambda>start_value.
     act_bind (act_lift (res_bind (vec_at children 2) constant_of)) (\<lambda>len_value.
     act_bind (exec_child calls st 0) (\<lambda>input.
     act_lift
       (res_bind (GetValue_size_type (ee_values E) start_value) (\<lambda>start.
        res_bind (int32_result (start - 1)) (\<lambda>cudf_start.
        res_bind (GetValue_size_type (ee_values E) len_value) (\<lambda>len.
        res_bind (int32_result (len + cudf_start)) (\<lambda>cudf_end.
          cudf_slice_strings (ee_cudf E) input cudf_start cudf_end 1))))))))"

definition DatetimeExtractFunctionDispatcher ::
  "('d, 'v) exec_env \<Rightarrow> datetime_component \<Rightarrow> ('d, 'v) child_calls \<Rightarrow> 'd GpuExpressionState \<Rightarrow> 'v column_act" where
  "DatetimeExtractFunctionDispatcher E COMP calls st = act_bind (exec_child calls st 0) (\<lambda>input.
     act_lift (cudf_extract_datetime_component (ee_cudf E) input COMP))"

definition truncation_frequency :: "string \<Rightarrow> rounding_frequency res" where
  "truncation_frequency freq_str =
     (if freq_str = ''day'' then Inr FREQ_DAY
      else if freq_str = ''hour'' then Inr FREQ_HOUR
      else if freq_str = ''minute'' then Inr FREQ_MINUTE
      else if freq_str = ''second'' then Inr FREQ_SECOND
      else if freq_str = ''millisecond'' then Inr FREQ_MILLISECOND
      else if freq_str = ''microsecond'' then Inr FREQ_MICROSECOND
      else Inl (InvalidInputException ''Execute[Function]: Unknown extract type for date_trunc()''))"

definition DatetimeTruncateFunctionDispatcher ::
  "('d, 'v) exec_env \<Rightarrow> 'd Expression list \<Rightarrow> ('d, 'v) child_calls \<Rightarrow> 'd GpuExpressionState \<Rightarrow> 'v column_act" where
  "DatetimeTruncateFunctionDispatcher E children calls st =
     act_bind (act_lift (res_bind (vec_at children 0) constant_of)) (\<lambda>freq_value.
     act_bind (act_lift (GetValue_string (ee_values E) freq_value)) (\<lambda>freq_str.
     act_bind (exec_child calls st 1) (\<lambda>input.
       act_lift (res_bind (truncation_frequency freq_str) (cudf_floor_datetimes (ee_cudf E) input)))))"

datatype UnaryFunctionType = FUNC_STRLEN | FUNC_LENGTH

definition UnaryFunctionDispatcher ::
  "('d, 'v) exec_env \<Rightarrow> UnaryFunctionType \<Rightarrow> ('d, 'v) child_calls \<Rightarrow> 'd GpuExpressionState \<Rightarrow> 'v column_act" where
  "UnaryFunctionDispatcher E FuncType calls st = act_bind (exec_child calls st 0) (\<lambda>input.
     act_lift (case FuncType of
       FUNC_STRLEN \<Rightarrow> cudf_count_bytes (ee_cudf E) input
     | FUNC_LENGTH \<Rightarrow> cudf_count_characters (ee_cudf E) input))"

text \<open>\<open>std::regex_search(s, std::regex("\\[0-9]"))\<close>: a backslash followed by a digit.\<close>

fun has_backrefs :: "string \<Rightarrow> bool" where
  "has_backrefs (a # b # s) \<longleftrightarrow>
     (a = CHR 0x5C \<and> b \<in> set ''0123456789'') \<or> has_backrefs (b # s)"
| "has_backrefs _ \<longleftrightarrow> False"

definition RegexFunctionDispatcher ::
  "('d, 'v) exec_env \<Rightarrow> 'd Expression list \<Rightarrow> ('d, 'v) child_calls \<Rightarrow> 'd GpuExpressionState \<Rightarrow> 'v column_act" where
  "RegexFunctionDispatcher E children calls st =
     act_bind (exec_child calls st 0) (\<lambda>input.
     act_bind (act_lift (res_bind (res_bind (vec_at children 1) constant_of) (GetValue_string (ee_values E)))) (\<lambda>pattern_str.
     act_bind (act_lift (res_bind (res_bind (vec_at children 2) constant_of) (GetValue_string (ee_values E)))) (\<lambda>replace_str.
     act_lift (if has_backrefs replace_str
       then cudf_replace_with_backrefs (ee_cudf E) input pattern_str replace_str
       else res_bind (cudf_make_column_from_scalar (ee_cudf E) (StringScalar replace_str) 1)
         (cudf_replace_re (ee_cudf E) input [pattern_str])))))"

section \<open>The function dispatch\<close>

definition numeric_function :: "string \<Rightarrow> binary_operator option" where
  "numeric_function func_str =
     (if func_str = ''+'' then Some ADD
      else if func_str = ''-'' then Some SUB
      else if func_str = ''*'' then Some MUL
      else if func_str = ''/'' \<or> func_str = ''//'' then Some DIV
      else if func_str = ''%'' then Some MOD
      else None)"

definition Execute_Function ::
  "('d, 'v) exec_env \<Rightarrow> string \<Rightarrow> LogicalType \<Rightarrow> 'd Expression list \<Rightarrow> ('d, 'v) child_calls \<Rightarrow>
   'd GpuExpressionState \<Rightarrow> 'v column_act" where
  "Execute_Function E func_str t children calls st =
     (case numeric_function func_str of Some op \<Rightarrow> NumericBinaryFunctionDispatcher E op t children calls st
      | None \<Rightarrow>
      if func_str = ''error'' then act_throw (InternalException
        ''Execute[Function]: error() should be handled by Execute[Case]!'')
      else if func_str = ''substring'' \<or> func_str = ''substr'' then substring_function E children calls st
      else if func_str = ''~~'' then StringMatchingDispatcher E MATCH_LIKE children calls st
      else if func_str = ''!~~'' then StringMatchingDispatcher E MATCH_NOT_LIKE children calls st
      else if func_str = ''contains'' then StringMatchingDispatcher E MATCH_CONTAINS children calls st
      else if func_str = ''prefix'' then StringMatchingDispatcher E MATCH_PREFIX children calls st
      else if func_str = ''suffix'' then StringMatchingDispatcher E MATCH_SUFFIX children calls st
      else if func_str = ''year'' then DatetimeExtractFunctionDispatcher E YEAR calls st
      else if func_str = ''month'' then DatetimeExtractFunctionDispatcher E MONTH calls st
      else if func_str = ''day'' then DatetimeExtractFunctionDispatcher E DAY calls st
      else if func_str = ''hour'' then DatetimeExtractFunctionDispatcher E HOUR calls st
      else if func_str = ''minute'' then DatetimeExtractFunctionDispatcher E MINUTE calls st
      else if func_str = ''second'' then DatetimeExtractFunctionDispatcher E SECOND calls st
      else if func_str = ''millisecond'' then DatetimeExtractFunctionDispatcher E MILLISECOND calls st
      else if func_str = ''microsecond'' then DatetimeExtractFunctionDispatcher E MICROSECOND calls st
      else if func_str = ''date_trunc'' then DatetimeTruncateFunctionDispatcher E children calls st
      else if func_str = ''strlen'' then UnaryFunctionDispatcher E FUNC_STRLEN calls st
      else if func_str = ''length'' then UnaryFunctionDispatcher E FUNC_LENGTH calls st
      else if func_str = ''regexp_replace'' then RegexFunctionDispatcher E children calls st
      else act_throw (InternalException ''Execute[Function]: Unknown function type''))"

section \<open>The recursion over expressions\<close>

text \<open>The children of an expression in the order in which \<open>InitializeState\<close> adds them.\<close>

fun case_children :: "'d CaseCheck list \<Rightarrow> 'd Expression list" where
  "case_children [] = []"
| "case_children (c # cs) = when_expr c # then_expr c # case_children cs"

fun children_of :: "'d Expression \<Rightarrow> 'd Expression list" where
  "children_of (BoundBetween t input lower upper li ui) = [input, lower, upper]"
| "children_of (BoundCase t checks else_expr) = case_children checks @ [else_expr]"
| "children_of (BoundCast t child) = [child]"
| "children_of (BoundComparison ty t left right) = [left, right]"
| "children_of (BoundConjunction ty t children) = children"
| "children_of (BoundFunction name t children) = children"
| "children_of (BoundOperator ty t children) = children"
| "children_of _ = []"

definition Execute_class ::
  "('d, 'v) exec_env \<Rightarrow> 'd Expression \<Rightarrow> ('d, 'v) child_calls \<Rightarrow> 'd GpuExpressionState \<Rightarrow> 'v column_act" where
  "Execute_class E e calls st = (case e of
     BoundBetween t input lower upper li ui \<Rightarrow> Execute_Between E calls st
   | BoundCase t checks else_expr \<Rightarrow> Execute_Case E checks calls st
   | BoundCast t child \<Rightarrow> Execute_Cast E t calls st
   | BoundComparison ty t left right \<Rightarrow> Execute_Comparison E ty t right calls st
   | BoundConjunction ty t children \<Rightarrow> Execute_Conjunction E ty t (length children) calls st
   | BoundConstant t v \<Rightarrow> Execute_Constant E t v
   | BoundFunction name t children \<Rightarrow> Execute_Function E name t children calls st
   | BoundOperator ty t children \<Rightarrow> Execute_Operator E ty t children calls st
   | BoundParameter t \<Rightarrow> act_throw (NotImplementedException ''Execute[BOUND_PARAMETER]: Not yet implemented!'')
   | BoundReference t i \<Rightarrow> Execute_Reference E i
   | OtherExpression t \<Rightarrow> act_throw (InternalException
       ''Execute called on an expression with unsupported expression class!''))"

lemma case_children_size:
  "c \<in> set (case_children checks) \<Longrightarrow> size c < size_list size checks"
proof (induction checks)
  case (Cons chk checks)
  then show ?case by (cases chk) auto
qed simp

lemma children_of_size: "c \<in> set (children_of e) \<Longrightarrow> size c < size e"
proof (cases e)
  case (BoundCase t checks else_expr)
  then show "c \<in> set (children_of e) \<Longrightarrow> size c < size e" using case_children_size [of c checks] by auto
qed (auto dest: size_list_estimation' [where f = size, OF _ order_refl])

function Execute_expr :: "('d, 'v) exec_env \<Rightarrow> 'd Expression \<Rightarrow> 'd GpuExpressionState \<Rightarrow> 'v column_act" where
  "Execute_expr E e st = Execute_class E e (map (Execute_expr E) (children_of e)) st"
  by pat_completeness auto

termination
  by (relation "measure (\<lambda>(E, e, st). size e)") (auto simp: children_of_size)

declare Execute_expr.simps [simp del]

end
