(* ===== verification/Row_Semantics.thy ===== *)
theory Row_Semantics
  imports Expression_Functions
begin

text \<open>
  What an expression means for one row, and what cuDF documents of its operations.  \<open>row_ops\<close> holds
  cuDF's element functions and the type combinations it accepts; \<open>cudf_documented\<close> says that each
  operation on columns applies them row by row and is NULL where an operand is, whatever data lies
  under a NULL.  \<open>expression_type\<close> is the cuDF type of an expression over inputs of given types,
  \<open>row_value\<close> its value in one row.  The expressions with a type here are BETWEEN, CASE without the
  error function, casts, comparisons, conjunctions, constants, arithmetic, \<open>IN\<close>, \<open>NOT IN\<close> over a
  list that is not constant, \<open>NOT\<close>, \<open>IS NULL\<close>, \<open>IS NOT NULL\<close> and references.
\<close>

section \<open>Columns as lists of rows\<close>

definition cells_of :: "'v cudf_column \<Rightarrow> 'v option list" where
  "cells_of c = map2 (\<lambda>v b. if b then Some v else None) (cc_data c) (cc_mask c)"

text \<open>\<open>column_is c t n f\<close>: a column of type \<open>t\<close> whose \<open>n\<close> rows are \<open>f 0, ..., f (n - 1)\<close>.\<close>

definition column_is :: "'v cudf_column \<Rightarrow> cudf_data_type \<Rightarrow> nat \<Rightarrow> (nat \<Rightarrow> 'v option) \<Rightarrow> bool" where
  "column_is c t n f \<longleftrightarrow> length (cc_data c) = n \<and> length (cc_mask c) = n \<and> cc_type c = t \<and>
     cells_of c = map f [0..<n]"

definition returns_column :: "'v cudf_column res \<Rightarrow> cudf_data_type \<Rightarrow> nat \<Rightarrow> (nat \<Rightarrow> 'v option) \<Rightarrow> bool" where
  "returns_column r t n f \<longleftrightarrow> (\<exists>c. r = Inr c \<and> column_is c t n f)"

definition lift2 :: "('v \<Rightarrow> 'v \<Rightarrow> 'v) \<Rightarrow> 'v option \<Rightarrow> 'v option \<Rightarrow> 'v option" where
  "lift2 f a b = (case a of None \<Rightarrow> None | Some x \<Rightarrow> (case b of None \<Rightarrow> None | Some y \<Rightarrow> Some (f x y)))"

section \<open>The documented behaviour of cuDF\<close>

record 'v row_ops =
  op_binary_ok :: "binary_operator \<Rightarrow> cudf_data_type \<Rightarrow> cudf_data_type \<Rightarrow> cudf_data_type \<Rightarrow> bool"
  op_binary :: "binary_operator \<Rightarrow> cudf_data_type \<Rightarrow> cudf_data_type \<Rightarrow> cudf_data_type \<Rightarrow> 'v \<Rightarrow> 'v \<Rightarrow> 'v"
  op_not :: "'v \<Rightarrow> 'v"
  op_bool :: "bool \<Rightarrow> 'v"
  op_true :: "'v \<Rightarrow> bool"
  op_cast_ok :: "cudf_data_type \<Rightarrow> cudf_data_type \<Rightarrow> bool"
  op_cast :: "cudf_data_type \<Rightarrow> cudf_data_type \<Rightarrow> 'v \<Rightarrow> 'v"
  op_contains :: "cudf_data_type \<Rightarrow> 'v list \<Rightarrow> 'v \<Rightarrow> bool"
  op_scalar :: "'v cudf_scalar \<Rightarrow> 'v"

fun scalar_type :: "'v cudf_scalar \<Rightarrow> cudf_data_type" where
  "scalar_type (NumericScalar t v) = t"
| "scalar_type (FixedPointScalar t rep) = t"
| "scalar_type (StringScalar s) = cudf_data CUDF_STRING"

definition binary_cell ::
  "'v row_ops \<Rightarrow> binary_operator \<Rightarrow> cudf_data_type \<Rightarrow> cudf_data_type \<Rightarrow> cudf_data_type \<Rightarrow>
   'v option \<Rightarrow> 'v option \<Rightarrow> 'v option" where
  "binary_cell R op a b ret = lift2 (op_binary R op a b ret)"

definition binary_documented :: "'v cudf \<Rightarrow> 'v row_ops \<Rightarrow> bool" where
  "binary_documented L R \<longleftrightarrow>
     (\<forall>op l r a b ret n f g. column_is l a n f \<and> column_is r b n g \<and> op_binary_ok R op a b ret \<longrightarrow>
        returns_column (cudf_binary_operation L l r op ret) ret n (\<lambda>i. binary_cell R op a b ret (f i) (g i)))"

definition scalars_documented :: "'v cudf \<Rightarrow> 'v row_ops \<Rightarrow> bool" where
  "scalars_documented L R \<longleftrightarrow>
     (\<forall>op l sc a ret n f. column_is l a n f \<and> op_binary_ok R op a (scalar_type sc) ret \<longrightarrow>
        returns_column (cudf_binary_operation_rhs L l sc op ret) ret n
          (\<lambda>i. binary_cell R op a (scalar_type sc) ret (f i) (Some (op_scalar R sc)))) \<and>
     (\<forall>op sc r b ret n g. column_is r b n g \<and> op_binary_ok R op (scalar_type sc) b ret \<longrightarrow>
        returns_column (cudf_binary_operation_lhs L sc r op ret) ret n
          (\<lambda>i. binary_cell R op (scalar_type sc) b ret (Some (op_scalar R sc)) (g i))) \<and>
     (\<forall>sc n. returns_column (cudf_make_column_from_scalar L sc (int n)) (scalar_type sc) n (\<lambda>i. Some (op_scalar R sc)))"

definition unary_documented :: "'v cudf \<Rightarrow> 'v row_ops \<Rightarrow> bool" where
  "unary_documented L R \<longleftrightarrow>
     (\<forall>c n f. column_is c bool8 n f \<longrightarrow>
        returns_column (cudf_unary_not L c) bool8 n (\<lambda>i. map_option (op_not R) (f i))) \<and>
     (\<forall>c t n f. column_is c t n f \<longrightarrow>
        returns_column (cudf_is_null L c) bool8 n (\<lambda>i. Some (op_bool R (f i = None)))) \<and>
     (\<forall>c t t' n f. column_is c t n f \<and> op_cast_ok R t t' \<longrightarrow>
        returns_column (cudf_cast L c t') t' n (\<lambda>i. map_option (op_cast R t t') (f i)))"

definition selects_documented :: "'v cudf \<Rightarrow> 'v row_ops \<Rightarrow> bool" where
  "selects_documented L R \<longleftrightarrow>
     (\<forall>c t vs n f. column_is c t n f \<longrightarrow>
        returns_column (cudf_contains L \<lparr>cc_type = t, cc_data = vs, cc_mask = map (\<lambda>_. True) vs\<rparr> c) bool8 n
          (\<lambda>i. map_option (\<lambda>x. op_bool R (op_contains R t vs x)) (f i))) \<and>
     (\<forall>a b m t n f g h. column_is a t n f \<and> column_is b t n g \<and> column_is m bool8 n h \<longrightarrow>
        returns_column (cudf_copy_if_else L a b m) t n
          (\<lambda>i. if (case h i of None \<Rightarrow> False | Some x \<Rightarrow> op_true R x) then f i else g i))"

definition cudf_documented :: "'v cudf \<Rightarrow> 'v row_ops \<Rightarrow> bool" where
  "cudf_documented L R \<longleftrightarrow> binary_documented L R \<and> scalars_documented L R \<and> unary_documented L R \<and>
     selects_documented L R"

section \<open>The type of an expression\<close>

definition check :: "bool \<Rightarrow> 'a \<Rightarrow> 'a option" where
  "check b x = (if b then Some x else None)"

definition res_option :: "'a res \<Rightarrow> 'a option" where
  "res_option r = (case r of Inr x \<Rightarrow> Some x | Inl e \<Rightarrow> None)"

fun case_type :: "cudf_data_type option list \<Rightarrow> cudf_data_type option" where
  "case_type [t] = t"
| "case_type (w # t # rest) = (if w = Some bool8 \<and> t = case_type rest then t else None)"
| "case_type [] = None"

definition binary_type ::
  "'v row_ops \<Rightarrow> binary_operator \<Rightarrow> cudf_data_type \<Rightarrow> cudf_data_type option \<Rightarrow> cudf_data_type option \<Rightarrow>
   cudf_data_type option" where
  "binary_type R op ret a b = (case a of None \<Rightarrow> None | Some a' \<Rightarrow> (case b of None \<Rightarrow> None
     | Some b' \<Rightarrow> check (op_binary_ok R op a' b' ret) ret))"

definition constant_side :: "('d, 'v) exec_env \<Rightarrow> (cudf_type_id \<Rightarrow> 'd \<Rightarrow> 'v cudf_scalar res) \<Rightarrow> 'd Expression \<Rightarrow> 'v cudf_scalar option" where
  "constant_side E mk e = (case e of
     BoundConstant t v \<Rightarrow> res_option (res_bind (GetCudfType (ee_duckdb E) t) (\<lambda>ct. mk (cudf_id ct) v))
   | _ \<Rightarrow> None)"

definition comparison_side :: "('d, 'v) exec_env \<Rightarrow> 'd Expression \<Rightarrow> 'v cudf_scalar option" where
  "comparison_side E = constant_side E (comparison_scalar E)"

definition numeric_side :: "('d, 'v) exec_env \<Rightarrow> cudf_data_type option \<Rightarrow> 'd Expression \<Rightarrow> 'v cudf_scalar option" where
  "numeric_side E other e = (case other of None \<Rightarrow> None
     | Some t \<Rightarrow> constant_side E (\<lambda>i v. binary_scalar E i v t) e)"

definition value_scalar :: "('d, 'v) exec_env \<Rightarrow> LogicalType \<Rightarrow> 'd \<Rightarrow> 'v cudf_scalar option" where
  "value_scalar E t v = (case GetCudfType (ee_duckdb E) t of Inl e \<Rightarrow> None
     | Inr ct \<Rightarrow> if constant_type (cudf_id ct) then res_option (constant_scalar E (cudf_id ct) v) else None)"

definition comparison_type ::
  "('d, 'v) exec_env \<Rightarrow> 'v row_ops \<Rightarrow> ExpressionType \<Rightarrow> LogicalType \<Rightarrow> 'd Expression \<Rightarrow>
   cudf_data_type option list \<Rightarrow> cudf_data_type option" where
  "comparison_type E R ty t right ts = (case GetCudfType (ee_duckdb E) t of Inl e \<Rightarrow> None | Inr ret \<Rightarrow>
     (case comparison_operator ty of Inl e \<Rightarrow> None | Inr op \<Rightarrow>
        binary_type R op ret (ts ! 0)
          (if is_constant right then map_option scalar_type (comparison_side E right) else ts ! 1)))"

definition conjunction_type ::
  "('d, 'v) exec_env \<Rightarrow> 'v row_ops \<Rightarrow> ExpressionType \<Rightarrow> LogicalType \<Rightarrow> cudf_data_type option list \<Rightarrow>
   cudf_data_type option" where
  "conjunction_type E R ty t ts = (case conjunction_operator ty of Inl e \<Rightarrow> None | Inr op \<Rightarrow>
     check (GetCudfType (ee_duckdb E) t = Inr bool8 \<and> ts \<noteq> [] \<and> list_all (\<lambda>a. a = Some bool8) ts \<and>
        op_binary_ok R op bool8 bool8 bool8) bool8)"

definition numeric_type ::
  "('d, 'v) exec_env \<Rightarrow> 'v row_ops \<Rightarrow> string \<Rightarrow> LogicalType \<Rightarrow> 'd Expression list \<Rightarrow>
   cudf_data_type option list \<Rightarrow> cudf_data_type option" where
  "numeric_type E R name t children ts =
     (case (numeric_function name, children, GetCudfType (ee_duckdb E) t) of
        (Some op, [c0, c1], Inr ret) \<Rightarrow>
          if is_constant c0 then
            binary_type R op ret (map_option scalar_type (numeric_side E (ts ! 1) c0)) (ts ! 1)
          else if is_constant c1 then
            binary_type R op ret (ts ! 0) (map_option scalar_type (numeric_side E (ts ! 0) c1))
          else binary_type R op ret (ts ! 0) (ts ! 1)
      | _ \<Rightarrow> None)"

text \<open>The values of a constant \<open>IN\<close> list, read at the type of the left side.\<close>

definition in_values :: "('d, 'v) exec_env \<Rightarrow> cudf_data_type \<Rightarrow> 'd Expression list \<Rightarrow> 'v list option" where
  "in_values E t children =
     (if t \<in> cudf_data ` {CUDF_INT16, CUDF_INT32, CUDF_INT64, CUDF_FLOAT32, CUDF_FLOAT64, CUDF_BOOL8}
      then res_option (res_bind (constant_list (tl children)) (res_mapM (GetValue (ee_values E) (cudf_id t))))
      else None)"

definition in_type ::
  "('d, 'v) exec_env \<Rightarrow> 'v row_ops \<Rightarrow> bool \<Rightarrow> 'd Expression list \<Rightarrow> cudf_data_type option list \<Rightarrow>
   cudf_data_type option" where
  "in_type E R negated children ts =
     (case ts of Some a # b # rest \<Rightarrow>
        if list_all is_constant (tl children)
        then check (\<not> negated \<and> in_values E a children \<noteq> None) bool8
        else check (list_all (\<lambda>b. b \<noteq> None \<and> op_binary_ok R EQUAL a (the b) bool8) (b # rest) \<and>
               op_binary_ok R LOGICAL_OR bool8 bool8 bool8) bool8
      | _ \<Rightarrow> None)"

definition operator_type ::
  "('d, 'v) exec_env \<Rightarrow> 'v row_ops \<Rightarrow> ExpressionType \<Rightarrow> LogicalType \<Rightarrow> 'd Expression list \<Rightarrow>
   cudf_data_type option list \<Rightarrow> cudf_data_type option" where
  "operator_type E R ty t children ts =
     (if GetCudfType (ee_duckdb E) t \<noteq> Inr bool8 then None
      else if ty = COMPARE_IN \<or> ty = COMPARE_NOT_IN then in_type E R (ty = COMPARE_NOT_IN) children ts
      else (case ts of [Some a] \<Rightarrow>
          if ty = OPERATOR_NOT then check (a = bool8) bool8
          else if ty = OPERATOR_IS_NULL \<or> ty = OPERATOR_IS_NOT_NULL then Some bool8 else None
        | _ \<Rightarrow> None))"

definition type_of_class ::
  "('d, 'v) exec_env \<Rightarrow> 'v row_ops \<Rightarrow> cudf_data_type list \<Rightarrow> 'd Expression \<Rightarrow> cudf_data_type option list \<Rightarrow>
   cudf_data_type option" where
  "type_of_class E R tys e ts = (case e of
     BoundBetween t input lower upper li ui \<Rightarrow>
       if binary_type R GREATER_EQUAL bool8 (ts ! 0) (ts ! 1) = Some bool8 \<and>
          binary_type R LESS_EQUAL bool8 (ts ! 0) (ts ! 2) = Some bool8
       then binary_type R LOGICAL_AND bool8 (Some bool8) (Some bool8) else None
   | BoundCase t checks else_expr \<Rightarrow>
       if list_ex (\<lambda>c. error_function (then_expr c)) checks then None else case_type ts
   | BoundCast t child \<Rightarrow> (case (GetCudfType (ee_duckdb E) t, ts ! 0) of
       (Inr ct, Some a) \<Rightarrow> check (op_cast_ok R a (cudf_data (cudf_id ct))) (cudf_data (cudf_id ct))
     | _ \<Rightarrow> None)
   | BoundComparison ty t left right \<Rightarrow> comparison_type E R ty t right ts
   | BoundConjunction ty t children \<Rightarrow> conjunction_type E R ty t ts
   | BoundConstant t v \<Rightarrow> map_option scalar_type (value_scalar E t v)
   | BoundFunction name t children \<Rightarrow> numeric_type E R name t children ts
   | BoundOperator ty t children \<Rightarrow> operator_type E R ty t children ts
   | BoundReference t i \<Rightarrow> check (i < length tys) (tys ! i)
   | _ \<Rightarrow> None)"

function expression_type ::
  "('d, 'v) exec_env \<Rightarrow> 'v row_ops \<Rightarrow> cudf_data_type list \<Rightarrow> 'd Expression \<Rightarrow> cudf_data_type option" where
  "expression_type E R tys e = type_of_class E R tys e (map (expression_type E R tys) (children_of e))"
  by pat_completeness auto

termination
  by (relation "measure (\<lambda>(E, R, tys, e). size e)") (auto simp: children_of_size)

declare expression_type.simps [simp del]

section \<open>The value of an expression in a row\<close>

text \<open>\<open>ts\<close> and \<open>vs\<close> are the types and the values of the children.  A NULL operand makes every operator
  NULL, the logical ones included; a CASE takes the THEN of its first true WHEN.\<close>

fun case_value :: "'v row_ops \<Rightarrow> 'v option list \<Rightarrow> 'v option" where
  "case_value R (w # t # rest) =
     (if (case w of None \<Rightarrow> False | Some x \<Rightarrow> op_true R x) then t else case_value R rest)"
| "case_value R [t] = t"
| "case_value R [] = None"

definition bool_cell :: "'v row_ops \<Rightarrow> binary_operator \<Rightarrow> 'v option \<Rightarrow> 'v option \<Rightarrow> 'v option" where
  "bool_cell R op = binary_cell R op bool8 bool8 bool8"

text \<open>The first operand stays on the right of the operator, as in the loops of the code.\<close>

definition conjunction_value :: "'v row_ops \<Rightarrow> binary_operator \<Rightarrow> 'v option list \<Rightarrow> 'v option" where
  "conjunction_value R op vs = foldl (\<lambda>out v. bool_cell R op v out) (hd vs) (tl vs)"

definition in_value :: "'v row_ops \<Rightarrow> cudf_data_type list \<Rightarrow> 'v option list \<Rightarrow> 'v option" where
  "in_value R ts vs =
     (let eqs = map2 (\<lambda>t v. binary_cell R EQUAL (hd ts) t bool8 (hd vs) v) (tl ts) (tl vs)
      in foldl (bool_cell R LOGICAL_OR) (hd eqs) (tl eqs))"

definition comparison_value ::
  "('d, 'v) exec_env \<Rightarrow> 'v row_ops \<Rightarrow> binary_operator \<Rightarrow> 'd Expression \<Rightarrow> cudf_data_type \<Rightarrow>
   cudf_data_type list \<Rightarrow> 'v option list \<Rightarrow> 'v option" where
  "comparison_value E R op right ret ts vs =
     (case comparison_side E right of
        Some sc \<Rightarrow> binary_cell R op (ts ! 0) (scalar_type sc) ret (vs ! 0) (Some (op_scalar R sc))
      | None \<Rightarrow> binary_cell R op (ts ! 0) (ts ! 1) ret (vs ! 0) (vs ! 1))"

definition numeric_value ::
  "('d, 'v) exec_env \<Rightarrow> 'v row_ops \<Rightarrow> binary_operator \<Rightarrow> 'd Expression list \<Rightarrow> cudf_data_type \<Rightarrow>
   cudf_data_type list \<Rightarrow> 'v option list \<Rightarrow> 'v option" where
  "numeric_value E R op children ret ts vs =
     (case numeric_side E (Some (ts ! 1)) (children ! 0) of
        Some sc \<Rightarrow> binary_cell R op (scalar_type sc) (ts ! 1) ret (Some (op_scalar R sc)) (vs ! 1)
      | None \<Rightarrow> (case numeric_side E (Some (ts ! 0)) (children ! 1) of
          Some sc \<Rightarrow> binary_cell R op (ts ! 0) (scalar_type sc) ret (vs ! 0) (Some (op_scalar R sc))
        | None \<Rightarrow> binary_cell R op (ts ! 0) (ts ! 1) ret (vs ! 0) (vs ! 1)))"

definition the_res :: "'a res \<Rightarrow> 'a" where
  "the_res r = the (res_option r)"

definition operator_value ::
  "('d, 'v) exec_env \<Rightarrow> 'v row_ops \<Rightarrow> ExpressionType \<Rightarrow> 'd Expression list \<Rightarrow> cudf_data_type list \<Rightarrow>
   'v option list \<Rightarrow> 'v option" where
  "operator_value E R ty children ts vs =
     (if ty = COMPARE_IN \<or> ty = COMPARE_NOT_IN then
        (if list_all is_constant (tl children)
         then map_option (\<lambda>x. op_bool R (op_contains R (ts ! 0) (the (in_values E (ts ! 0) children)) x)) (vs ! 0)
         else map_option (if ty = COMPARE_NOT_IN then op_not R else (\<lambda>x. x)) (in_value R ts vs))
      else if ty = OPERATOR_NOT then map_option (op_not R) (vs ! 0)
      else if ty = OPERATOR_IS_NULL then Some (op_bool R (vs ! 0 = None))
      else Some (op_not R (op_bool R (vs ! 0 = None))))"

definition value_of_class ::
  "('d, 'v) exec_env \<Rightarrow> 'v row_ops \<Rightarrow> 'v option list \<Rightarrow> 'd Expression \<Rightarrow> cudf_data_type list \<Rightarrow>
   'v option list \<Rightarrow> 'v option" where
  "value_of_class E R row e ts vs = (case e of
     BoundBetween t input lower upper li ui \<Rightarrow> bool_cell R LOGICAL_AND
       (binary_cell R GREATER_EQUAL (ts ! 0) (ts ! 1) bool8 (vs ! 0) (vs ! 1))
       (binary_cell R LESS_EQUAL (ts ! 0) (ts ! 2) bool8 (vs ! 0) (vs ! 2))
   | BoundCase t checks else_expr \<Rightarrow> case_value R vs
   | BoundCast t child \<Rightarrow>
       map_option (op_cast R (ts ! 0) (cudf_data (cudf_id (the_res (GetCudfType (ee_duckdb E) t))))) (vs ! 0)
   | BoundComparison ty t left right \<Rightarrow>
       comparison_value E R (the_res (comparison_operator ty)) right (the_res (GetCudfType (ee_duckdb E) t)) ts vs
   | BoundConjunction ty t children \<Rightarrow> conjunction_value R (the_res (conjunction_operator ty)) vs
   | BoundConstant t v \<Rightarrow> map_option (op_scalar R) (value_scalar E t v)
   | BoundFunction name t children \<Rightarrow>
       numeric_value E R (the (numeric_function name)) children (the_res (GetCudfType (ee_duckdb E) t)) ts vs
   | BoundOperator ty t children \<Rightarrow> operator_value E R ty children ts vs
   | BoundReference t i \<Rightarrow> row ! i
   | _ \<Rightarrow> None)"

function row_value ::
  "('d, 'v) exec_env \<Rightarrow> 'v row_ops \<Rightarrow> cudf_data_type list \<Rightarrow> 'v option list \<Rightarrow> 'd Expression \<Rightarrow> 'v option" where
  "row_value E R tys row e = value_of_class E R row e
     (map (\<lambda>c. the (expression_type E R tys c)) (children_of e))
     (map (row_value E R tys row) (children_of e))"
  by pat_completeness auto

termination
  by (relation "measure (\<lambda>(E, R, tys, row, e). size e)") (auto simp: children_of_size)

declare row_value.simps [simp del]

end
