(* ===== verification/Executor_Classes.thy ===== *)
theory Executor_Classes
  imports Row_Semantics
begin

text \<open>
  Each expression class computes its row semantics, given that its children do.  The lemmas of this
  theory are about one \<open>Execute\<close> specialization each; \<open>Executor_Refinement\<close> puts them together.
\<close>

section \<open>Computations that deliver a result\<close>

text \<open>From a state with \<open>I\<close>, the computation runs out of memory or returns a result with \<open>Q\<close> in a
  state with \<open>I\<close>.\<close>

definition delivers :: "('s \<Rightarrow> bool) \<Rightarrow> ('s, 'a) act \<Rightarrow> ('a \<Rightarrow> bool) \<Rightarrow> bool" where
  "delivers I m Q \<longleftrightarrow> (\<forall>s r s'. I s \<longrightarrow> m s = (r, s') \<longrightarrow> r = Inl BadAlloc \<or> (\<exists>x. r = Inr x \<and> Q x \<and> I s'))"

lemma delivers_bind: "delivers I m Q \<Longrightarrow> (\<And>x. Q x \<Longrightarrow> delivers I (k x) R) \<Longrightarrow> delivers I (act_bind m k) R"
  unfolding delivers_def by (fastforce elim!: act_bind_cases)

lemma delivers_return: "Q x \<Longrightarrow> delivers I (act_return x) Q"
  by (simp add: delivers_def act_basic)

lemma delivers_lift: "r = Inr x \<Longrightarrow> Q x \<Longrightarrow> delivers I (act_lift r) Q"
  by (simp add: delivers_def act_basic)

lemma delivers_bind_lift: "r = Inr x \<Longrightarrow> delivers I (k x) Q \<Longrightarrow> delivers I (act_bind (act_lift r) k) Q"
  by (simp add: delivers_def act_bind_def act_basic)

lemma delivers_column: "returns_column r t n f \<Longrightarrow> delivers I (act_lift r) (\<lambda>c. column_is c t n f)"
  by (auto simp: returns_column_def intro: delivers_lift)

lemma delivers_bind_column:
  "returns_column r t n f \<Longrightarrow> (\<And>c. column_is c t n f \<Longrightarrow> delivers I (k c) Q) \<Longrightarrow>
   delivers I (act_bind (act_lift r) k) Q"
  by (auto simp: returns_column_def intro: delivers_bind_lift)

lemma delivers_mono: "delivers I m Q \<Longrightarrow> (\<And>x. Q x \<Longrightarrow> Q' x) \<Longrightarrow> delivers I m Q'"
  by (fastforce simp: delivers_def)

lemma column_is_cong: "column_is c t n f \<Longrightarrow> (\<And>i. i < n \<Longrightarrow> f i = g i) \<Longrightarrow> column_is c t n g"
  by (simp add: column_is_def)

section \<open>The children of a class\<close>

definition children_deliver ::
  "('v gpu_expression_executor \<Rightarrow> bool) \<Rightarrow> ('d, 'v) child_calls \<Rightarrow> 'd GpuExpressionState \<Rightarrow> nat \<Rightarrow>
   cudf_data_type option list \<Rightarrow> (nat \<Rightarrow> 'v option list) \<Rightarrow> bool" where
  "children_deliver I calls st n ts vf \<longleftrightarrow>
     length ts = length calls \<and> length (child_states st) = length calls \<and> (\<forall>i. length (vf i) = length calls) \<and>
     (\<forall>k < length ts. \<forall>t. ts ! k = Some t \<longrightarrow>
        delivers I (exec_child calls st k) (\<lambda>c. column_is c t n (\<lambda>i. vf i ! k)))"

lemma child_delivers:
  "children_deliver I calls st n ts vf \<Longrightarrow> k < length ts \<Longrightarrow> ts ! k = Some t \<Longrightarrow>
   delivers I (exec_child calls st k) (\<lambda>c. column_is c t n (\<lambda>i. vf i ! k))"
  by (simp add: children_deliver_def)

lemma binary_type_Some:
  "binary_type R op ret a b = Some t \<longleftrightarrow>
     (\<exists>a' b'. a = Some a' \<and> b = Some b' \<and> op_binary_ok R op a' b' ret \<and> t = ret)"
  by (auto simp: binary_type_def check_def split: option.splits)

lemma check_Some [simp]: "check b x = Some y \<longleftrightarrow> b \<and> x = y"
  by (auto simp: check_def)

lemma res_option_Some [simp]: "res_option r = Some x \<longleftrightarrow> r = Inr x"
  by (simp add: res_option_def split: sum.splits)

lemma the_res_Inr [simp]: "the_res (Inr x) = x"
  by (simp add: the_res_def res_option_def)

lemma binary_documentedD:
  "binary_documented L R \<Longrightarrow> column_is l a n f \<Longrightarrow> column_is r b n g \<Longrightarrow> op_binary_ok R op a b ret \<Longrightarrow>
   returns_column (cudf_binary_operation L l r op ret) ret n (\<lambda>i. binary_cell R op a b ret (f i) (g i))"
  by (simp add: binary_documented_def)

lemma scalar_rhs_documentedD:
  "scalars_documented L R \<Longrightarrow> column_is l a n f \<Longrightarrow> op_binary_ok R op a (scalar_type sc) ret \<Longrightarrow>
   returns_column (cudf_binary_operation_rhs L l sc op ret) ret n
     (\<lambda>i. binary_cell R op a (scalar_type sc) ret (f i) (Some (op_scalar R sc)))"
  by (simp add: scalars_documented_def)

lemma scalar_lhs_documentedD:
  "scalars_documented L R \<Longrightarrow> column_is r b n g \<Longrightarrow> op_binary_ok R op (scalar_type sc) b ret \<Longrightarrow>
   returns_column (cudf_binary_operation_lhs L sc r op ret) ret n
     (\<lambda>i. binary_cell R op (scalar_type sc) b ret (Some (op_scalar R sc)) (g i))"
  by (simp add: scalars_documented_def)

section \<open>BETWEEN, casts and constants\<close>

lemma Execute_Between_rows:
  assumes lib: "binary_documented (ee_cudf E) R"
    and ch: "children_deliver I calls st n ts vf" and len: "length ts = 3"
    and ge: "binary_type R GREATER_EQUAL bool8 (ts ! 0) (ts ! 1) = Some bool8"
    and le: "binary_type R LESS_EQUAL bool8 (ts ! 0) (ts ! 2) = Some bool8"
    and conj: "op_binary_ok R LOGICAL_AND bool8 bool8 bool8"
  shows "delivers I (Execute_Between E calls st) (\<lambda>c. column_is c bool8 n (\<lambda>i. bool_cell R LOGICAL_AND
       (binary_cell R GREATER_EQUAL (the (ts ! 0)) (the (ts ! 1)) bool8 (vf i ! 0) (vf i ! 1))
       (binary_cell R LESS_EQUAL (the (ts ! 0)) (the (ts ! 2)) bool8 (vf i ! 0) (vf i ! 2))))"
proof -
  from ge le obtain a b c where t: "ts ! 0 = Some a" "ts ! 1 = Some b" "ts ! 2 = Some c"
    "op_binary_ok R GREATER_EQUAL a b bool8" "op_binary_ok R LESS_EQUAL a c bool8"
    by (auto simp: binary_type_Some)
  note kids = child_delivers [OF ch, unfolded len]
  show ?thesis
    unfolding Execute_Between_def bool_cell_def t(1-3) option.sel
    by (intro delivers_bind [OF kids [OF _ t(1)]] delivers_bind [OF kids [OF _ t(2)]]
        delivers_bind [OF kids [OF _ t(3)]] delivers_bind_column delivers_column)
       (auto intro: binary_documentedD [OF lib] conj t(4,5))
qed

lemma Execute_Cast_rows:
  assumes lib: "unary_documented (ee_cudf E) R"
    and ch: "children_deliver I calls st n ts vf" and len: "length ts = 1"
    and ct: "GetCudfType (ee_duckdb E) t = Inr ct" and a: "ts ! 0 = Some a"
    and ok: "op_cast_ok R a (cudf_data (cudf_id ct))"
  shows "delivers I (Execute_Cast E t calls st) (\<lambda>c. column_is c (cudf_data (cudf_id ct)) n
       (\<lambda>i. map_option (op_cast R a (cudf_data (cudf_id ct))) (vf i ! 0)))"
  unfolding Execute_Cast_def
  using lib ok
  by (intro delivers_bind_lift [OF ct] delivers_bind [OF child_delivers [OF ch _ a]] delivers_column)
     (simp_all add: len unary_documented_def)

lemma Execute_Constant_rows:
  assumes lib: "scalars_documented (ee_cudf E) R" and sc: "value_scalar E t v = Some sc"
    and I: "\<And>s. I s \<Longrightarrow> input_count s = int n"
  shows "delivers I (Execute_Constant E t v) (\<lambda>c. column_is c (scalar_type sc) n (\<lambda>i. Some (op_scalar R sc)))"
proof -
  from sc obtain ct where ct: "GetCudfType (ee_duckdb E) t = Inr ct" "constant_type (cudf_id ct)"
    "constant_scalar E (cudf_id ct) v = Inr sc"
    by (auto simp: value_scalar_def split: sum.splits if_splits)
  have "returns_column (cudf_make_column_from_scalar (ee_cudf E) sc (int n)) (scalar_type sc) n (\<lambda>i. Some (op_scalar R sc))"
    using lib by (simp add: scalars_documented_def)
  then show ?thesis
    by (auto simp: delivers_def Execute_Constant_def act_basic act_bind_def ct MakeColumnFromConstant_def I
        returns_column_def)
qed

section \<open>Comparisons\<close>

lemma comparison_side_iff:
  "comparison_side E e = Some sc \<longleftrightarrow> (\<exists>t v ct. e = BoundConstant t v \<and> GetCudfType (ee_duckdb E) t = Inr ct \<and>
     comparison_scalar E (cudf_id ct) v = Inr sc)"
  by (auto simp: comparison_side_def constant_side_def res_bind_Inr_iff split: Expression.splits)

lemma not_constant_side: "\<not> is_constant e \<Longrightarrow> constant_side E mk e = None"
  by (simp add: is_constant_def constant_side_def split: Expression.splits)

lemma Execute_Comparison_rows:
  assumes lib: "binary_documented (ee_cudf E) R" "scalars_documented (ee_cudf E) R"
    and ch: "children_deliver I calls st n ts vf" and len: "length ts = 2"
    and ty: "comparison_type E R cmp t right ts = Some ret"
  shows "delivers I (Execute_Comparison E cmp t right calls st) (\<lambda>c. column_is c ret n
    (\<lambda>i. comparison_value E R (the_res (comparison_operator cmp)) right (the_res (GetCudfType (ee_duckdb E) t))
       (map the ts) (vf i)))"
proof -
  from ty obtain op where op: "comparison_operator cmp = Inr op" and ret: "GetCudfType (ee_duckdb E) t = Inr ret"
    and bt: "binary_type R op ret (ts ! 0) (if is_constant right then map_option scalar_type (comparison_side E right) else ts ! 1) = Some ret"
    by (auto simp: comparison_type_def binary_type_Some split: sum.splits)
  from bt obtain a b where a: "ts ! 0 = Some a" and ok: "op_binary_ok R op a b ret"
    and b: "(if is_constant right then map_option scalar_type (comparison_side E right) else ts ! 1) = Some b"
    by (auto simp: binary_type_Some)
  note kids = child_delivers [OF ch, unfolded len]
  show ?thesis
  proof (cases "is_constant right")
    case True
    with b obtain sc where sc: "comparison_side E right = Some sc" "b = scalar_type sc" by auto
    then obtain rt v ct where rt: "right = BoundConstant rt v" "GetCudfType (ee_duckdb E) rt = Inr ct"
      "comparison_scalar E (cudf_id ct) v = Inr sc" by (auto simp: comparison_side_iff)
    have "delivers I (Execute_Comparison E cmp t right calls st)
        (\<lambda>c. column_is c ret n (\<lambda>i. binary_cell R op a (scalar_type sc) ret (vf i ! 0) (Some (op_scalar R sc))))"
      unfolding Execute_Comparison_def rt(1) Expression.case DoScalarComparison_def
      using ok sc(2) rt
      by (intro delivers_bind_lift [OF ret] delivers_bind_lift [OF op] delivers_bind [OF kids [OF _ a]]
          delivers_bind_lift [OF rt(2)] delivers_column) (simp_all add: scalar_rhs_documentedD [OF lib(2)])
    then show ?thesis
      by (rule delivers_mono) (simp add: comparison_value_def sc op ret a len)
  next
    case False
    with b have b: "ts ! 1 = Some b" by simp
    have nc: "comparison_side E right = None" using False by (simp add: comparison_side_def not_constant_side)
    have "Execute_Comparison E cmp t right calls st = act_bind (act_lift (GetCudfType (ee_duckdb E) t)) (\<lambda>ret.
        act_bind (act_lift (comparison_operator cmp)) (\<lambda>op. act_bind (exec_child calls st 0) (\<lambda>left.
        act_bind (exec_child calls st 1) (\<lambda>right. act_lift (cudf_binary_operation (ee_cudf E) left right op ret)))))"
      using False by (cases right) (simp_all add: Execute_Comparison_def is_constant_def)
    moreover have "delivers I \<dots> (\<lambda>c. column_is c ret n (\<lambda>i. binary_cell R op a b ret (vf i ! 0) (vf i ! 1)))"
      by (intro delivers_bind_lift [OF ret] delivers_bind_lift [OF op] delivers_bind [OF kids [OF _ a]]
          delivers_bind [OF kids [OF _ b]] delivers_column binary_documentedD [OF lib(1)] ok) simp_all
    ultimately have "delivers I (Execute_Comparison E cmp t right calls st)
        (\<lambda>c. column_is c ret n (\<lambda>i. binary_cell R op a b ret (vf i ! 0) (vf i ! 1)))" by simp
    then show ?thesis
      by (rule delivers_mono) (simp add: comparison_value_def nc op ret a b [simplified] len)
  qed
qed

section \<open>Conjunctions\<close>

lemma children_length: "children_deliver I calls st n ts vf \<Longrightarrow> length (vf i) = length ts"
  by (simp add: children_deliver_def)

lemma drop_child:
  "children_deliver I calls st n ts vf \<Longrightarrow> k < length ts \<Longrightarrow> drop k (vf i) = vf i ! k # drop (Suc k) (vf i)"
  by (simp add: children_length Cons_nth_drop_Suc)

lemma conjunction_loop_rows:
  assumes lib: "binary_documented (ee_cudf E) R" and ch: "children_deliver I calls st n ts vf"
    and op: "conjunction_operator ty = Inr op" and ok: "op_binary_ok R op bool8 bool8 bool8"
    and types: "\<forall>j < length ts. ts ! j = Some bool8"
  shows "k + m = length ts \<Longrightarrow> column_is c bool8 n f \<Longrightarrow>
    delivers I (conjunction_loop E ty bool8 calls st k m (Some c)) (\<lambda>out. \<exists>c'. out = Some c' \<and>
      column_is c' bool8 n (\<lambda>i. foldl (\<lambda>out v. bool_cell R op v out) (f i) (drop k (vf i))))"
proof (induction m arbitrary: k c f)
  case 0
  then show ?case by (auto intro!: delivers_return simp: children_length [OF ch])
next
  case (Suc m)
  have k: "k < length ts" and t: "ts ! k = Some bool8" using Suc.prems(1) types by auto
  show ?case
    unfolding conjunction_loop.simps option.case drop_child [OF ch k] foldl_Cons
    using Suc.prems
    by (intro delivers_bind [OF child_delivers [OF ch k t]] delivers_bind [OF delivers_bind_lift [OF op delivers_column]]
        Suc.IH) (auto simp: bool_cell_def intro: binary_documentedD [OF lib _ _ ok])
qed

lemma Execute_Conjunction_rows:
  assumes lib: "binary_documented (ee_cudf E) R" and ch: "children_deliver I calls st n ts vf"
    and ty: "conjunction_type E R cty t ts = Some ret"
  shows "delivers I (Execute_Conjunction E cty t (length ts) calls st)
    (\<lambda>c. column_is c ret n (\<lambda>i. conjunction_value R (the_res (conjunction_operator cty)) (vf i)))"
proof -
  from ty obtain op where op: "conjunction_operator cty = Inr op" and ret: "ret = bool8"
    and t: "GetCudfType (ee_duckdb E) t = Inr bool8" and ne: "ts \<noteq> []"
    and types: "\<forall>j < length ts. ts ! j = Some bool8" and ok: "op_binary_ok R op bool8 bool8 bool8"
    by (auto simp: conjunction_type_def list_all_length split: sum.splits)
  obtain m where m: "length ts = Suc m" using ne by (cases ts) auto
  have vf: "vf i = vf i ! 0 # drop 1 (vf i)" for i
    using drop_child [OF ch, of 0] ne by simp
  have "delivers I (conjunction_loop E cty bool8 calls st 0 (Suc m) None) (\<lambda>out. \<exists>c'. out = Some c' \<and>
      column_is c' bool8 n (\<lambda>i. foldl (\<lambda>out v. bool_cell R op v out) (vf i ! 0) (drop 1 (vf i))))"
    unfolding conjunction_loop.simps option.case One_nat_def
    using ne m types
    by (intro delivers_bind [OF child_delivers [OF ch]] delivers_bind [OF delivers_return]
        conjunction_loop_rows [OF lib ch op ok types]) auto
  then have "delivers I (Execute_Conjunction E cty t (Suc m) calls st)
      (\<lambda>c. column_is c bool8 n (\<lambda>i. foldl (\<lambda>out v. bool_cell R op v out) (vf i ! 0) (drop 1 (vf i))))"
    unfolding Execute_Conjunction_def
    by (intro delivers_bind_lift [OF t]) (erule delivers_bind, auto intro: delivers_return)
  moreover have "conjunction_value R op (vf i) = foldl (\<lambda>out v. bool_cell R op v out) (vf i ! 0) (drop 1 (vf i))" for i
    unfolding conjunction_value_def by (subst (1 2) vf) simp
  ultimately show ?thesis by (simp add: m op ret)
qed

section \<open>CASE\<close>

lemma case_type_Some:
  "case_type ts = Some t \<Longrightarrow> length ts = Suc (2 * m) \<Longrightarrow>
   ts ! (2 * m) = Some t \<and> (\<forall>i < m. ts ! (2 * i) = Some bool8 \<and> ts ! (2 * i + 1) = Some t)"
proof (induction ts arbitrary: m rule: case_type.induct)
  case (2 w u rest)
  then obtain m' where m': "m = Suc m'" by (cases m) auto
  from 2 m' show ?case by (auto split: if_splits simp: less_Suc_eq_0_disj)
qed auto

lemma copy_if_else_documentedD:
  "selects_documented L R \<Longrightarrow> column_is a t n f \<Longrightarrow> column_is b t n g \<Longrightarrow> column_is m bool8 n h \<Longrightarrow>
   returns_column (cudf_copy_if_else L a b m) t n
     (\<lambda>i. if (case h i of None \<Rightarrow> False | Some x \<Rightarrow> op_true R x) then f i else g i)"
  by (simp add: selects_documented_def)

lemma case_loop_rows:
  assumes lib: "selects_documented (ee_cudf E) R" and ch: "children_deliver I calls st n ts vf"
    and len: "length ts = Suc (2 * length checks)" and ty: "case_type ts = Some t"
    and no_error: "\<forall>c \<in> set checks. \<not> error_function (then_expr c)"
  shows "m \<le> length checks \<Longrightarrow> column_is c t n (\<lambda>i. case_value R (drop (2 * m) (vf i))) \<Longrightarrow>
    delivers I (case_loop E calls st checks m c) (\<lambda>c. column_is c t n (\<lambda>i. case_value R (vf i)))"
proof (induction m arbitrary: c)
  case 0
  then show ?case by (auto intro: delivers_return)
next
  case (Suc m)
  then have m: "m < length checks" by simp
  have w: "2 * m < length ts" "ts ! (2 * m) = Some bool8" and th: "2 * m + 1 < length ts" "ts ! (2 * m + 1) = Some t"
    using case_type_Some [OF ty len] m len by auto
  have st: "vec_at (child_states st) (2 * m + 1) = Inr (child_states st ! (2 * m + 1))"
    using ch th(1) by (simp add: children_deliver_def)
  have vf: "drop (2 * m) (vf i) = vf i ! (2 * m) # vf i ! (2 * m + 1) # drop (2 * Suc m) (vf i)" for i
    using drop_child [OF ch w(1)] drop_child [OF ch th(1)] by simp
  have step: "case_value R (drop (2 * m) (vf i)) = (if (case vf i ! (2 * m) of None \<Rightarrow> False | Some x \<Rightarrow> op_true R x)
       then vf i ! (2 * m + 1) else case_value R (drop (2 * Suc m) (vf i)))" for i
    unfolding vf by simp
  have "delivers I (case_step E calls st False m c) (\<lambda>c. column_is c t n (\<lambda>i. case_value R (drop (2 * m) (vf i))))"
    unfolding case_step_def step if_False
    by (intro delivers_bind_lift [OF st] delivers_bind [OF child_delivers [OF ch w]]
        delivers_bind [OF child_delivers [OF ch th]] delivers_column
        copy_if_else_documentedD [OF lib _ Suc.prems(2)])
  with m no_error show ?case
    unfolding case_loop.simps by (intro delivers_bind_lift [OF vec_at_in [OF m]] delivers_bind [where Q = "\<lambda>c. column_is c t n (\<lambda>i. case_value R (drop (2 * m) (vf i)))"] Suc.IH) auto
qed

lemma Execute_Case_rows:
  assumes lib: "selects_documented (ee_cudf E) R" and ch: "children_deliver I calls st n ts vf"
    and len: "length ts = Suc (2 * length checks)" and ty: "case_type ts = Some t"
    and no_error: "\<not> list_ex (\<lambda>c. error_function (then_expr c)) checks"
  shows "delivers I (Execute_Case E checks calls st) (\<lambda>c. column_is c t n (\<lambda>i. case_value R (vf i)))"
proof -
  have n: "length (child_states st) = Suc (2 * length checks)" using ch len by (simp add: children_deliver_def)
  have t: "ts ! (2 * length checks) = Some t" using case_type_Some [OF ty len] by simp
  have last: "case_value R (drop (2 * length checks) (vf i)) = vf i ! (2 * length checks)" for i
    using drop_child [OF ch, of "2 * length checks"] len children_length [OF ch, of i] by simp
  have "child_states st \<noteq> []" using n by auto
  then show ?thesis
    unfolding Execute_Case_def n
    using no_error last len
    by (auto intro!: delivers_bind [OF child_delivers [OF ch _ t, unfolded exec_child_def]]
        case_loop_rows [OF lib ch len ty] simp: list_ex_iff)
qed

section \<open>IN and the unary operators\<close>

lemma in_loop_rows:
  assumes lib: "binary_documented (ee_cudf E) R" and ch: "children_deliver I calls st n ts vf"
    and left: "column_is l a n lf" and ok: "op_binary_ok R LOGICAL_OR bool8 bool8 bool8"
    and types: "\<forall>j < length ts. k0 \<le> j \<longrightarrow> (\<exists>b. ts ! j = Some b \<and> op_binary_ok R EQUAL a b bool8)"
  shows "k + m = length ts \<Longrightarrow> k0 \<le> k \<Longrightarrow> column_is c bool8 n f \<Longrightarrow>
    delivers I (in_loop E bool8 calls st l k m (Some c)) (\<lambda>out. \<exists>c'. out = Some c' \<and>
      column_is c' bool8 n (\<lambda>i. foldl (bool_cell R LOGICAL_OR) (f i)
        (map2 (\<lambda>t v. binary_cell R EQUAL a t bool8 (lf i) v) (drop k (map the ts)) (drop k (vf i)))))"
proof (induction m arbitrary: k c f)
  case 0
  then show ?case by (auto intro!: delivers_return simp: children_length [OF ch])
next
  case (Suc m)
  have k: "k < length ts" using Suc.prems(1) by auto
  then obtain b where t: "ts ! k = Some b" and b: "op_binary_ok R EQUAL a b bool8" using types Suc.prems(2) by blast
  have d: "drop k (map the ts) = b # drop (Suc k) (map the ts)"
    using k t Cons_nth_drop_Suc [of k "map the ts"] by simp
  show ?case
    unfolding in_loop.simps option.case drop_child [OF ch k] d list.map zip_Cons_Cons prod.case foldl_Cons
    using Suc.prems
    by (intro delivers_bind [OF child_delivers [OF ch k t]] delivers_bind_column delivers_bind [OF delivers_column]
        Suc.IH) (auto simp: bool_cell_def intro: binary_documentedD [OF lib left _ b] binary_documentedD [OF lib _ _ ok])
qed

lemma not_documentedD:
  "unary_documented L R \<Longrightarrow> column_is c bool8 n f \<Longrightarrow>
   returns_column (cudf_unary_not L c) bool8 n (\<lambda>i. map_option (op_not R) (f i))"
  by (simp add: unary_documented_def)

lemma delivers_not:
  "unary_documented L R \<Longrightarrow> column_is c bool8 n f \<Longrightarrow>
   delivers I (act_lift (cudf_unary_not L c)) (\<lambda>c. column_is c bool8 n (\<lambda>i. map_option (op_not R) (f i)))"
  by (rule delivers_column) (rule not_documentedD)

lemma is_null_documentedD:
  "unary_documented L R \<Longrightarrow> column_is c t n f \<Longrightarrow>
   returns_column (cudf_is_null L c) bool8 n (\<lambda>i. Some (op_bool R (f i = None)))"
  by (simp add: unary_documented_def)

lemma contains_documentedD:
  "selects_documented L R \<Longrightarrow> column_is c t n f \<Longrightarrow>
   returns_column (cudf_contains L \<lparr>cc_type = t, cc_data = vs, cc_mask = map (\<lambda>_. True) vs\<rparr> c) bool8 n
     (\<lambda>i. map_option (\<lambda>x. op_bool R (op_contains R t vs x)) (f i))"
  by (simp add: selects_documented_def)

lemma in_values_Some:
  "in_values E t children = Some vs \<Longrightarrow> cudf_id t \<in> {CUDF_INT16, CUDF_INT32, CUDF_INT64, CUDF_FLOAT32, CUDF_FLOAT64, CUDF_BOOL8} \<and>
     (\<exists>ds. constant_list (tl children) = Inr ds \<and> res_mapM (GetValue (ee_values E) (cudf_id t)) ds = Inr vs)"
  by (auto simp: in_values_def res_bind_Inr_iff cudf_data_def split: if_splits)

lemma in_constants_rows:
  assumes lib: "selects_documented (ee_cudf E) R" and c: "column_is c t n f" and vs: "in_values E t children = Some vs"
  shows "returns_column (in_constants E children c) bool8 n
    (\<lambda>i. map_option (\<lambda>x. op_bool R (op_contains R t vs x)) (f i))"
proof -
  have t: "cc_type c = t" using c by (simp add: column_is_def)
  from in_values_Some [OF vs] show ?thesis
    using contains_documentedD [OF lib c, of vs]
    by (auto simp: in_constants_def ExecuteNumericIn_def t)
qed

lemma in_loop_start:
  assumes lib: "binary_documented (ee_cudf E) R" and ch: "children_deliver I calls st n ts vf"
    and left: "column_is l a n (\<lambda>i. vf i ! 0)" and ok: "op_binary_ok R LOGICAL_OR bool8 bool8 bool8"
    and ts: "ts = Some a # Some b # rest"
    and types: "\<forall>j < length ts. 1 \<le> j \<longrightarrow> (\<exists>b. ts ! j = Some b \<and> op_binary_ok R EQUAL a b bool8)"
  shows "delivers I (in_loop E bool8 calls st l 1 (length ts - 1) None) (\<lambda>out. \<exists>c'. out = Some c' \<and>
      column_is c' bool8 n (\<lambda>i. in_value R (map the ts) (vf i)))"
proof -
  have b: "op_binary_ok R EQUAL a b bool8" using types [rule_format, of 1] ts by auto
  have n: "length ts - 1 = Suc (length rest)" using ts by simp
  have k: "1 < length ts" "ts ! 1 = Some b" using ts by simp_all
  have vf: "vf i = vf i ! 0 # vf i ! 1 # drop 2 (vf i)" for i
    using drop_child [OF ch, of 0 i] drop_child [OF ch, of 1 i] ts by (simp add: numeral_2_eq_2)
  have val: "in_value R (map the ts) (vf i) = foldl (bool_cell R LOGICAL_OR) (binary_cell R EQUAL a b bool8 (vf i ! 0) (vf i ! 1))
      (map2 (\<lambda>t v. binary_cell R EQUAL a t bool8 (vf i ! 0) v) (drop 2 (map the ts)) (drop 2 (vf i)))" for i
    unfolding in_value_def by (subst (1 2) vf) (simp add: ts Let_def numeral_2_eq_2)
  have loop: "column_is c bool8 n f \<Longrightarrow> delivers I (in_loop E bool8 calls st l (Suc (Suc 0)) (length rest) (Some c)) (\<lambda>out. \<exists>c'. out = Some c' \<and>
      column_is c' bool8 n (\<lambda>i. foldl (bool_cell R LOGICAL_OR) (f i)
      (map2 (\<lambda>t v. binary_cell R EQUAL a t bool8 (vf i ! 0) v) (drop 2 (map the ts)) (drop 2 (vf i)))))" for c f
    using in_loop_rows [OF lib ch left ok types, of 2 "length rest"] ts by (simp add: numeral_2_eq_2)
  show ?thesis
    unfolding n in_loop.simps option.case val
    by (intro delivers_bind [OF child_delivers [OF ch k]] delivers_bind_column delivers_bind [OF delivers_return])
       (auto intro: binary_documentedD [OF lib left _ b] loop)
qed

lemma execute_in_rows:
  assumes lib: "binary_documented (ee_cudf E) R" "unary_documented (ee_cudf E) R" "selects_documented (ee_cudf E) R"
    and ch: "children_deliver I calls st n ts vf" and len: "length ts = length children"
    and ty: "in_type E R negated children ts = Some ret"
    and neg: "negated \<longleftrightarrow> cmp = COMPARE_NOT_IN" and cmp: "cmp = COMPARE_IN \<or> cmp = COMPARE_NOT_IN"
  shows "delivers I (execute_in E negated bool8 children calls st)
    (\<lambda>c. column_is c ret n (\<lambda>i. operator_value E R cmp children (map the ts) (vf i)))"
proof -
  from ty obtain a ob rest where ts: "ts = Some a # ob # rest"
    by (auto simp: in_type_def split: list.splits option.splits)
  have two: "\<not> length children < 2" and k: "0 < length ts" "ts ! 0 = Some a" using ts len by auto
  have ret: "ret = bool8" using ty by (auto simp: in_type_def ts split: if_splits)
  show ?thesis
  proof (cases "list_all is_constant (tl children)")
    case True
    then obtain vs where vs: "\<not> negated" "in_values E a children = Some vs" using ty by (auto simp: in_type_def ts)
    have "delivers I (execute_in E negated bool8 children calls st)
        (\<lambda>c. column_is c bool8 n (\<lambda>i. map_option (\<lambda>x. op_bool R (op_contains R a vs x)) (vf i ! 0)))"
      unfolding execute_in_def using two True
      by (auto intro!: delivers_bind [OF child_delivers [OF ch k]] delivers_column in_constants_rows [OF lib(3) _ vs(2)])
    then show ?thesis
      by (rule delivers_mono) (use cmp in \<open>simp add: operator_value_def True ret ts vs\<close>)
  next
    case False
    then have ok: "op_binary_ok R LOGICAL_OR bool8 bool8 bool8"
      and rest: "list_all (\<lambda>b. b \<noteq> None \<and> op_binary_ok R EQUAL a (the b) bool8) (ob # rest)"
      using ty unfolding ret by (simp_all add: in_type_def ts)
    obtain b where ob: "ob = Some b" using rest by auto
    have types: "\<forall>j < length ts. 1 \<le> j \<longrightarrow> (\<exists>b. ts ! j = Some b \<and> op_binary_ok R EQUAL a b bool8)"
    proof (intro allI impI)
      fix j assume j: "j < length ts" "1 \<le> j"
      then have "ts ! j \<in> set (ob # rest)" by (auto simp: ts nth_Cons' intro!: nth_mem)
      with rest show "\<exists>b. ts ! j = Some b \<and> op_binary_ok R EQUAL a b bool8"
        unfolding list_all_iff by fastforce
    qed
    have "delivers I (execute_in E negated bool8 children calls st)
        (\<lambda>c. column_is c bool8 n (\<lambda>i. map_option (if negated then op_not R else (\<lambda>x. x)) (in_value R (map the ts) (vf i))))"
      unfolding execute_in_def len [symmetric] if_not_P [OF two [folded len]] if_not_P [OF False]
      by (intro delivers_bind [OF child_delivers [OF ch k]]
            delivers_bind [OF in_loop_start [OF lib(1) ch _ ok ts [unfolded ob] types]])
         (auto simp: option.map_ident intro: delivers_return delivers_not [OF lib(2)])
    then show ?thesis
      by (rule delivers_mono) (use cmp neg in \<open>simp only: operator_value_def False ret if_True if_False simp_thms\<close>)
  qed
qed

lemma Execute_Operator_rows:
  assumes lib: "binary_documented (ee_cudf E) R" "unary_documented (ee_cudf E) R" "selects_documented (ee_cudf E) R"
    and ch: "children_deliver I calls st n ts vf" and len: "length ts = length children"
    and ty: "operator_type E R cmp t children ts = Some ret"
  shows "delivers I (Execute_Operator E cmp t children calls st)
    (\<lambda>c. column_is c ret n (\<lambda>i. operator_value E R cmp children (map the ts) (vf i)))"
proof -
  have t: "GetCudfType (ee_duckdb E) t = Inr bool8" using ty by (simp add: operator_type_def split: if_splits)
  show ?thesis
  proof (cases "cmp = COMPARE_IN \<or> cmp = COMPARE_NOT_IN")
    case True
    with ty t have "in_type E R (cmp = COMPARE_NOT_IN) children ts = Some ret" by (simp add: operator_type_def)
    from execute_in_rows [OF lib ch len this refl True] show ?thesis
      unfolding Execute_Operator_def if_P [OF True] by (rule delivers_bind_lift [OF t])
  next
    case False
    have not_in: "operator_type E R cmp t children ts = (case ts of [Some a] \<Rightarrow>
          if cmp = OPERATOR_NOT then check (a = bool8) bool8
          else if cmp = OPERATOR_IS_NULL \<or> cmp = OPERATOR_IS_NOT_NULL then Some bool8 else None
        | _ \<Rightarrow> None)"
      unfolding operator_type_def if_not_P [OF False] using t by simp
    obtain a where ts: "ts = [Some a]"
      using ty unfolding not_in by (auto split: list.splits option.splits)
    have u: "cmp = OPERATOR_NOT \<and> a = bool8 \<or> cmp = OPERATOR_IS_NULL \<or> cmp = OPERATOR_IS_NOT_NULL" and ret: "ret = bool8"
      using ty [unfolded not_in, unfolded ts] by (simp_all split: if_splits)
    have k: "0 < length ts" "ts ! 0 = Some a" "length children = 1" using ts len by auto
    have no_in: "\<not> (cmp = COMPARE_IN \<or> cmp = COMPARE_NOT_IN)" "cmp \<noteq> OPERATOR_COALESCE" using False u by auto
    have unary: "returns_column (unary_operator E cmp c) bool8 n (\<lambda>i. operator_value E R cmp children (map the ts) (vf i))"
      if c: "column_is c a n (\<lambda>i. vf i ! 0)" for c
      using u
    proof (elim disjE conjE)
      assume "cmp = OPERATOR_NOT" "a = bool8"
      with c show ?thesis by (simp add: unary_operator_def operator_value_def not_documentedD [OF lib(2)])
    next
      assume "cmp = OPERATOR_IS_NULL"
      then show ?thesis
        using is_null_documentedD [OF lib(2) c] by (simp add: unary_operator_def operator_value_def)
    next
      assume cmp: "cmp = OPERATOR_IS_NOT_NULL"
      from is_null_documentedD [OF lib(2) c] obtain temp where temp: "cudf_is_null (ee_cudf E) c = Inr temp"
        "column_is temp bool8 n (\<lambda>i. Some (op_bool R (vf i ! 0 = None)))" by (auto simp: returns_column_def)
      from not_documentedD [OF lib(2) temp(2)] show ?thesis
        by (simp add: unary_operator_def operator_value_def cmp temp(1))
    qed
    show ?thesis
      unfolding Execute_Operator_def if_not_P [OF no_in(1)] if_not_P [OF no_in(2)] if_P [OF k(3)] ret
      by (intro delivers_bind_lift [OF t] delivers_bind [OF child_delivers [OF ch k(1,2)]] delivers_column unary)
  qed
qed

section \<open>Arithmetic\<close>

lemma numeric_side_iff:
  "numeric_side E (Some t) e = Some sc \<longleftrightarrow> (\<exists>v ct. constant_of e = Inr v \<and> is_constant e \<and>
     GetCudfType (ee_duckdb E) (return_type e) = Inr ct \<and> binary_scalar E (cudf_id ct) v t = Inr sc)"
  by (auto simp: numeric_side_def constant_side_def res_bind_Inr_iff is_constant_def constant_of_def
      split: Expression.splits)

lemma not_numeric_side: "\<not> is_constant e \<Longrightarrow> numeric_side E (Some t) e = None"
  by (simp add: numeric_side_def not_constant_side)

lemma numeric_rows:
  assumes lib: "binary_documented (ee_cudf E) R" "scalars_documented (ee_cudf E) R"
    and ch: "children_deliver I calls st n ts vf" and len: "length ts = length children"
    and ty: "numeric_type E R name t children ts = Some ret" and op: "numeric_function name = Some op"
  shows "delivers I (NumericBinaryFunctionDispatcher E op t children calls st) (\<lambda>c. column_is c ret n
    (\<lambda>i. numeric_value E R op children (the_res (GetCudfType (ee_duckdb E) t)) (map the ts) (vf i)))"
proof -
  obtain r where r: "GetCudfType (ee_duckdb E) t = Inr r"
    using ty by (cases "GetCudfType (ee_duckdb E) t") (simp_all add: numeric_type_def op split: list.splits)
  obtain c0 c1 where cs: "children = [c0, c1]"
    using ty by (simp add: numeric_type_def op r split: list.splits)
  have ret_of: "binary_type R op r a b = Some ret \<Longrightarrow> r = ret" for a b
    by (auto simp: binary_type_Some)
  have "r = ret"
    using ty by (simp add: numeric_type_def op r cs split: if_splits) (erule ret_of)+
  with r have tr: "GetCudfType (ee_duckdb E) t = Inr ret" by simp
  have ty: "(if is_constant c0 then binary_type R op ret (map_option scalar_type (numeric_side E (ts ! 1) c0)) (ts ! 1)
     else if is_constant c1 then binary_type R op ret (ts ! 0) (map_option scalar_type (numeric_side E (ts ! 0) c1))
     else binary_type R op ret (ts ! 0) (ts ! 1)) = Some ret"
    using ty by (simp add: numeric_type_def op cs tr)
  have k: "0 < length ts" "1 < length ts" using len cs by simp_all
  have at: "vec_at children 0 = Inr c0" "vec_at children 1 = Inr c1" "children ! 0 = c0" "children ! 1 = c1"
    by (simp_all add: cs)
  have nth: "map the ts ! 0 = the (ts ! 0)" "map the ts ! 1 = the (ts ! 1)" using k by simp_all
  note cells = numeric_value_def at(3,4) nth tr option.case option.sel the_res_Inr
  note start = delivers_bind_lift [OF tr] delivers_bind_lift [OF at(1)]
  show ?thesis
  proof (cases "is_constant c0")
    case True
    with ty obtain b sc where b: "ts ! 1 = Some b" and sc: "numeric_side E (Some b) c0 = Some sc"
      and ok: "op_binary_ok R op (scalar_type sc) b ret" by (auto simp: binary_type_Some)
    from sc obtain v ct where v: "constant_of c0 = Inr v" "GetCudfType (ee_duckdb E) (return_type c0) = Inr ct"
      "binary_scalar E (cudf_id ct) v b = Inr sc" by (auto simp: numeric_side_iff)
    have "delivers I (NumericBinaryFunctionDispatcher E op t children calls st) (\<lambda>c. column_is c ret n
        (\<lambda>i. binary_cell R op (scalar_type sc) b ret (Some (op_scalar R sc)) (vf i ! 1)))"
      unfolding NumericBinaryFunctionDispatcher_def
    proof (intro start, unfold if_P [OF True], intro delivers_bind_lift [OF v(1)] delivers_bind [OF child_delivers [OF ch k(2) b]]
        delivers_bind_lift [OF v(2)] delivers_bind_lift [where x = sc] delivers_column)
      fix c assume c: "column_is c b n (\<lambda>i. vf i ! 1)"
      then show "binary_scalar E (cudf_id ct) v (cc_type c) = Inr sc" using v(3) by (simp add: column_is_def)
      show "returns_column (cudf_binary_operation_lhs (ee_cudf E) sc c op ret) ret n
          (\<lambda>i. binary_cell R op (scalar_type sc) b ret (Some (op_scalar R sc)) (vf i ! 1))"
        by (rule scalar_lhs_documentedD [OF lib(2) c ok])
    qed
    then show ?thesis
      by (rule delivers_mono) (simp only: cells b sc)
  next
    case c0: False
    note none = not_numeric_side [OF c0]
    show ?thesis
    proof (cases "is_constant c1")
      case True
      with ty c0 obtain a sc where a: "ts ! 0 = Some a" and sc: "numeric_side E (Some a) c1 = Some sc"
        and ok: "op_binary_ok R op a (scalar_type sc) ret" by (auto simp: binary_type_Some)
      from sc obtain v ct where v: "constant_of c1 = Inr v" "GetCudfType (ee_duckdb E) (return_type c1) = Inr ct"
        "binary_scalar E (cudf_id ct) v a = Inr sc" by (auto simp: numeric_side_iff)
      have "delivers I (NumericBinaryFunctionDispatcher E op t children calls st) (\<lambda>c. column_is c ret n
          (\<lambda>i. binary_cell R op a (scalar_type sc) ret (vf i ! 0) (Some (op_scalar R sc))))"
        unfolding NumericBinaryFunctionDispatcher_def
      proof (intro start, unfold if_not_P [OF c0], intro delivers_bind_lift [OF at(2)], unfold if_P [OF True],
          intro delivers_bind_lift [OF v(1)] delivers_bind [OF child_delivers [OF ch k(1) a]]
          delivers_bind_lift [OF v(2)] delivers_bind_lift [where x = sc] delivers_column)
        fix c assume c: "column_is c a n (\<lambda>i. vf i ! 0)"
        then show "binary_scalar E (cudf_id ct) v (cc_type c) = Inr sc" using v(3) by (simp add: column_is_def)
        show "returns_column (cudf_binary_operation_rhs (ee_cudf E) c sc op ret) ret n
            (\<lambda>i. binary_cell R op a (scalar_type sc) ret (vf i ! 0) (Some (op_scalar R sc)))"
          by (rule scalar_rhs_documentedD [OF lib(2) c ok])
      qed
      then show ?thesis
        by (rule delivers_mono) (simp only: cells a none sc)
    next
      case c1: False
      with ty c0 obtain a b where a: "ts ! 0 = Some a" and b: "ts ! 1 = Some b" and ok: "op_binary_ok R op a b ret"
        by (auto simp: binary_type_Some)
      have "delivers I (NumericBinaryFunctionDispatcher E op t children calls st) (\<lambda>c. column_is c ret n
          (\<lambda>i. binary_cell R op a b ret (vf i ! 0) (vf i ! 1)))"
        unfolding NumericBinaryFunctionDispatcher_def
        by (intro start, unfold if_not_P [OF c0], intro delivers_bind_lift [OF at(2)], unfold if_not_P [OF c1],
            intro delivers_bind [OF child_delivers [OF ch k(1) a]] delivers_bind [OF child_delivers [OF ch k(2) b]]
            delivers_column binary_documentedD [OF lib(1) _ _ ok])
      then show ?thesis
        by (rule delivers_mono)
          (simp only: cells a b none not_numeric_side [OF c1])
    qed
  qed
qed

end
