(* ===== verification/Device_Frames.thy ===== *)
theory Device_Frames
  imports Cudf_Library
begin

text \<open>
  What reading a column for the expression executor leaves alone on the device: gathering a column
  frees the arrays it read, unless the buffer manager keeps them (caching region, locked blocks,
  buffers taken over from cuDF).  For such columns the device only grows.
\<close>

definition device_extends :: "rmm_pool \<Rightarrow> 'v device \<Rightarrow> 'v device \<Rightarrow> bool" where
  "device_extends rmm d d' \<longleftrightarrow> dev_wf rmm d' \<and> cells d \<subseteq>\<^sub>m cells d' \<and> (\<forall>p. retained (mgr d) p \<longrightarrow> retained (mgr d') p)"

lemma device_extends_refl [simp]: "dev_wf rmm d \<Longrightarrow> device_extends rmm d d"
  by (simp add: device_extends_def)

lemma device_extends_trans:
  "device_extends rmm d d' \<Longrightarrow> device_extends rmm d' d'' \<Longrightarrow> device_extends rmm d d''"
  by (auto simp: device_extends_def intro: map_le_trans)

lemma device_extends_cell: "device_extends rmm d d' \<Longrightarrow> cells d p = Some a \<Longrightarrow> cells d' p = Some a"
  by (auto simp: device_extends_def map_le_def dom_def)

lemma dev_malloc_extends:
  assumes "dev_wf rmm d" and "dev_malloc rmm w n d = (Inr p, d')"
  shows "device_extends rmm d d' \<and> p \<notin> dom (cells d) \<and> p \<in> dom (cells d') \<and> p \<noteq> nullptr"
  using assms(1,2)
proof (cases rule: dev_malloc_cases)
  case (granted q)
  have "cells d \<subseteq>\<^sub>m cells d'" using granted(3) unfolding granted(4) by (auto simp: map_le_def)
  with granted dev_malloc_retained [OF assms(2)] show ?thesis by (auto simp: device_extends_def)
qed simp

lemma dev_malloc_throws: "dev_wf rmm d \<Longrightarrow> dev_malloc rmm w n d = (Inl e, d') \<Longrightarrow> e = BadAlloc"
  by (erule (1) dev_malloc_cases) simp_all

text \<open>Writing to an array that is not one of the first device's arrays.\<close>

lemma dev_write_extends:
  assumes "device_extends rmm d d'" and "p \<notin> dom (cells d)" and "p \<in> dom (cells d')"
  shows "device_extends rmm d (d'\<lparr>cells := (cells d')(p \<mapsto> a)\<rparr>)"
  using assms by (auto simp: device_extends_def map_le_def intro: dev_wf_write)

text \<open>The guards of \<open>customCudaFree\<close>: such a pointer is left alone.\<close>

lemma dev_free_retained:
  assumes "dev_wf rmm d" and "retained (mgr d) p"
  shows "dev_free p d = (Inr (), d)"
proof -
  have pw: "pool_wf (mgr d)" using assms(1) by (simp add: dev_wf_def)
  have "p = nullptr \<or> in_cache_region (mgr d) p \<or> p \<in> fst ` set (locked_allocation_table (mgr d)) \<or>
        p \<in> fst ` set (rmm_stored_buffers (mgr d))" using assms(2) by (simp add: retained_def)
  then have "customCudaFree p (mgr d) = (Inr (), mgr d)"
    by (simp only: customCudaFree_branches [OF pw] if_True)
  then show ?thesis by (simp add: dev_free_def)
qed

section \<open>Gathering a column\<close>

lemma materializeExpression_extends:
  assumes wf: "dev_wf rmm d" and keep: "retained (mgr d) a" "retained (mgr d) vmask"
    and m: "materializeExpression rmm w a ids n vmask d = (Inr x, d')"
  shows "device_extends rmm d d'"
proof (cases "n = 0")
  case True
  with m wf show ?thesis by (simp add: materializeExpression_def act_basic)
next
  case False
  with m have "act_bind (dev_malloc rmm w n) (\<lambda>result.
           act_bind (gather_mask rmm n vmask) (\<lambda>out_mask.
           act_bind (dev_vals w a) (\<lambda>xs.
           act_bind (dev_rows ids) (\<lambda>zs0.
           act_bind (act_lift (first_n n zs0)) (\<lambda>zs.
           act_bind (act_lift (gather xs zs)) (\<lambda>ys.
           act_bind (dev_write result (Vals w ys)) (\<lambda>_.
           act_bind (write_mask zs vmask out_mask) (\<lambda>_.
           act_bind (dev_free a) (\<lambda>_.
           act_bind (free_mask vmask) (\<lambda>_.
           act_return (Some (result, out_mask)))))))))))) d = (Inr x, d')"
    by (simp add: materializeExpression_def)
  then obtain q d1 om d2 zs ys d3 d4 d5 where q: "dev_malloc rmm w n d = (Inr q, d1)"
    and om: "gather_mask rmm n vmask d1 = (Inr om, d2)"
    and w3: "dev_write q (Vals w ys) d2 = (Inr (), d3)" and wm: "write_mask zs vmask om d3 = (Inr (), d4)"
    and f4: "dev_free a d4 = (Inr (), d5)" and f5: "free_mask vmask d5 = (Inr (), d')"
    by (elim act_bind_InrE)
       (auto simp: act_basic dev_vals_def dev_rows_def split: option.splits darray.splits if_splits)
  have e1: "device_extends rmm d d1" "q \<notin> dom (cells d)" "q \<in> dom (cells d1)"
    using dev_malloc_extends [OF wf q] by simp_all
  have wf1: "dev_wf rmm d1" using e1 by (simp add: device_extends_def)
  have e2: "device_extends rmm d d2 \<and> (vmask \<noteq> nullptr \<longrightarrow> om \<notin> dom (cells d) \<and> om \<in> dom (cells d2)) \<and> q \<in> dom (cells d2)"
  proof (cases "vmask = nullptr")
    case True
    with om have "d2 = d1" by (simp add: gather_mask_def act_basic)
    with e1 True show ?thesis by simp
  next
    case False
    with om have al: "dev_malloc rmm 4 (getMaskBytesSize n div 4) d1 = (Inr om, d2)" by (simp add: gather_mask_def)
    note m2 = dev_malloc_extends [OF wf1 al]
    have grows: "dom (cells d) \<subseteq> dom (cells d1)" "dom (cells d1) \<subseteq> dom (cells d2)"
      using e1 m2 by (simp_all add: device_extends_def map_le_implies_dom_le)
    then have "om \<notin> dom (cells d)" "q \<in> dom (cells d2)" using m2 e1(3) by auto
    with m2 device_extends_trans [OF e1(1), of d2] show ?thesis by simp
  qed
  let ?d3 = "d2\<lparr>cells := (cells d2)(q \<mapsto> Vals w ys)\<rparr>"
  have e3: "device_extends rmm d ?d3" using dev_write_extends [OF conjunct1 [OF e2] e1(2)] e2 by blast
  have d3: "d3 = ?d3" using w3 by (simp add: dev_write_def act_basic)
  have e4: "device_extends rmm d d4"
  proof (cases "vmask = nullptr")
    case True
    with wm e3 show ?thesis by (simp add: d3 write_mask_def act_basic)
  next
    case False
    with wm obtain b where "d4 = ?d3\<lparr>cells := (cells ?d3)(om \<mapsto> b)\<rparr>"
      unfolding d3 by (auto simp: write_mask_def dev_write_def dev_bits_def act_basic elim!: act_bind_InrE
          split: option.splits darray.splits)
    with False e2 dev_write_extends [OF e3, of om] show ?thesis by auto
  qed
  have keep4: "dev_wf rmm d4" "retained (mgr d4) a" "retained (mgr d4) vmask"
    using e4 keep by (simp_all add: device_extends_def)
  have "d' = d4"
    using f4 f5 dev_free_retained [OF keep4(1,2)] dev_free_retained [OF keep4(1,3)]
    by (auto simp: free_mask_def act_basic split: if_splits)
  with e4 show ?thesis by simp
qed

lemma HandleMaterializeExpression_extends:
  assumes wf: "dev_wf rmm d" and keep: "retained (mgr d) (dw_data (data_wrapper c))"
      "retained (mgr d) (dw_validity_mask (data_wrapper c))"
    and t: "ct_id (dw_type (data_wrapper c)) \<noteq> C_VARCHAR"
    and m: "HandleMaterializeExpression D rmm cub c d = (Inr out, d')"
  shows "device_extends rmm d d'"
proof -
  have resolve: "device_extends rmm d d'"
    if "ResolveTypeMaterializeExpression D rmm w c d = (Inr out, d')" for w
    using that wf materializeExpression_extends [OF wf keep]
    by (auto simp: ResolveTypeMaterializeExpression_def act_basic Let_def elim!: act_bind_InrE
        split: if_splits option.splits)
  from m t resolve show ?thesis
    by (cases "ct_id (dw_type (data_wrapper c))")
       (auto simp: HandleMaterializeExpression_def act_basic elim!: act_bind_InrE split: if_splits)
qed

end
