(* ===== verification/Executor_Refinement.thy ===== *)
theory Executor_Refinement
  imports Executor_Classes Device_Frames
begin

text \<open>
  The executor computes the row semantics.  The state tree built by \<open>InitializeState\<close> mirrors the
  expression, so every child is found; a reference yields the rows of its input column and leaves
  the input columns readable; hence any expression with a type returns a column of that type whose
  rows are the values of the expression in the input rows.
\<close>

section \<open>The state tree mirrors the expression\<close>

lemma AddChild_Inr:
  "AddChild D c r m = Inr r' \<Longrightarrow> \<exists>s. m = Inr s \<and> child_states r' = child_states r @ [s]"
  by (auto simp: AddChild_def res_bind_Inr_iff)

definition states_for :: "duckdb_env \<Rightarrow> 'd Expression list \<Rightarrow> 'd GpuExpressionState list \<Rightarrow> bool" where
  "states_for D es ss \<longleftrightarrow> list_all2 (\<lambda>e s. InitializeState D e = Inr s) es ss"

lemma states_for_simps [simp]:
  "states_for D [] ss \<longleftrightarrow> ss = []"
  "states_for D (e # es) ss \<longleftrightarrow> (\<exists>s ss'. ss = s # ss' \<and> InitializeState D e = Inr s \<and> states_for D es ss')"
  by (simp_all add: states_for_def list_all2_Cons1)

lemma states_for_append:
  "states_for D es ss \<Longrightarrow> states_for D es' ss' \<Longrightarrow> states_for D (es @ es') (ss @ ss')"
  by (simp add: states_for_def list_all2_appendI)

lemma AddChildren_states:
  "AddChildren D cs r = Inr r' \<Longrightarrow> \<exists>ss. child_states r' = child_states r @ ss \<and> states_for D cs ss"
proof (induction cs arbitrary: r)
  case (Cons c cs)
  then obtain r1 where r1: "AddChild D c r (InitializeState D c) = Inr r1" "AddChildren D cs r1 = Inr r'"
    by (auto simp: res_bind_Inr_iff)
  from AddChild_Inr [OF r1(1)] Cons.IH [OF r1(2)] show ?case by auto
qed simp

lemma AddCaseChecks_states:
  "AddCaseChecks D cs r = Inr r' \<Longrightarrow> \<exists>ss. child_states r' = child_states r @ ss \<and> states_for D (case_children cs) ss"
proof (induction cs arbitrary: r)
  case (Cons c cs)
  obtain w th where c: "c = CaseCheck w th" by (cases c)
  with Cons.prems obtain r1 r2 where r: "AddChild D w r (InitializeState D w) = Inr r1"
    "AddChild D th r1 (InitializeState D th) = Inr r2" "AddCaseChecks D cs r2 = Inr r'"
    by (auto simp: res_bind_Inr_iff)
  from AddChild_Inr [OF r(1)] AddChild_Inr [OF r(2)] Cons.IH [OF r(3)] show ?case by (auto simp: c)
qed simp

lemma InitializeState_states:
  assumes "InitializeState D e = Inr st"
  shows "states_for D (children_of e) (child_states st)"
proof (cases e)
  case (BoundCase t checks else_expr)
  with assms obtain r where r: "AddCaseChecks D checks (GpuExpressionState e [] []) = Inr r"
    "AddChild D else_expr r (InitializeState D else_expr) = Inr st" by (auto simp: res_bind_Inr_iff)
  from AddCaseChecks_states [OF r(1)] AddChild_Inr [OF r(2)] show ?thesis
    by (auto simp: BoundCase intro!: states_for_append)
qed (use assms in \<open>auto simp: res_bind_Inr_iff dest!: AddChild_Inr AddChildren_states\<close>)

lemma InitializeState_child:
  assumes "InitializeState D e = Inr st" and "k < length (children_of e)"
  shows "k < length (child_states st)" and "InitializeState D (children_of e ! k) = Inr (child_states st ! k)"
  using InitializeState_states [OF assms(1)] assms(2)
  by (auto simp: states_for_def list_all2_conv_all_nth)

lemma InitializeState_length: "InitializeState D e = Inr st \<Longrightarrow> length (child_states st) = length (children_of e)"
  using InitializeState_states [of D e st] by (simp add: states_for_def list_all2_lengthD)

text \<open>The types that \<open>AddChild\<close> records.\<close>

definition types_for :: "duckdb_env \<Rightarrow> 'd Expression list \<Rightarrow> cudf_data_type list \<Rightarrow> bool" where
  "types_for D es ts \<longleftrightarrow> list_all2 (\<lambda>c t. GetCudfType D (return_type c) = Inr t) es ts"

lemma types_for_simps [simp]:
  "types_for D [] ts \<longleftrightarrow> ts = []"
  "types_for D (e # es) ts \<longleftrightarrow> (\<exists>t ts'. ts = t # ts' \<and> GetCudfType D (return_type e) = Inr t \<and> types_for D es ts')"
  by (simp_all add: types_for_def list_all2_Cons1)

lemma AddChild_types:
  "AddChild D c r m = Inr r' \<Longrightarrow> state_expr r' = state_expr r \<and>
     (\<exists>t. GetCudfType D (return_type c) = Inr t \<and> child_types r' = child_types r @ [t])"
  by (auto simp: AddChild_def res_bind_Inr_iff)

lemma AddChildren_types:
  "AddChildren D cs r = Inr r' \<Longrightarrow> state_expr r' = state_expr r \<and>
     (\<exists>ts. child_types r' = child_types r @ ts \<and> types_for D cs ts)"
proof (induction cs arbitrary: r)
  case (Cons c cs)
  then obtain r1 where r1: "AddChild D c r (InitializeState D c) = Inr r1" "AddChildren D cs r1 = Inr r'"
    by (auto simp: res_bind_Inr_iff)
  from AddChild_types [OF r1(1)] Cons.IH [OF r1(2)] show ?case by auto
qed simp

lemma AddCaseChecks_types:
  "AddCaseChecks D cs r = Inr r' \<Longrightarrow> state_expr r' = state_expr r \<and>
     (\<exists>ts. child_types r' = child_types r @ ts \<and> types_for D (case_children cs) ts)"
proof (induction cs arbitrary: r)
  case (Cons c cs)
  obtain w th where c: "c = CaseCheck w th" by (cases c)
  with Cons.prems obtain r1 r2 where r: "AddChild D w r (InitializeState D w) = Inr r1"
    "AddChild D th r1 (InitializeState D th) = Inr r2" "AddCaseChecks D cs r2 = Inr r'"
    by (auto simp: res_bind_Inr_iff)
  from AddChild_types [OF r(1)] AddChild_types [OF r(2)] Cons.IH [OF r(3)] show ?case by (auto simp: c)
qed simp

lemma InitializeState_types:
  assumes "InitializeState D e = Inr st"
  shows "state_expr st = e \<and> list_all2 (\<lambda>c t. GetCudfType D (return_type c) = Inr t) (children_of e) (child_types st)"
proof -
  have "state_expr st = e \<and> types_for D (children_of e) (child_types st)"
  proof (cases e)
    case (BoundCase t checks else_expr)
    with assms obtain r where r: "AddCaseChecks D checks (GpuExpressionState e [] []) = Inr r"
      "AddChild D else_expr r (InitializeState D else_expr) = Inr st" by (auto simp: res_bind_Inr_iff)
    from AddCaseChecks_types [OF r(1)] AddChild_types [OF r(2)] show ?thesis
      by (auto simp: BoundCase types_for_def intro!: list_all2_appendI)
  qed (use assms in \<open>auto simp: res_bind_Inr_iff dest!: AddChild_types AddChildren_types\<close>)
  then show ?thesis by (simp add: types_for_def)
qed

section \<open>Reading a column\<close>

lemma cudf_size_agrees:
  assumes "cudf_type_of_column D t = Inr ct" and "getColumnTypeSize D t = Inr w" and "ct_id t \<noteq> C_VARCHAR"
  shows "cudf_size_of (cudf_id ct) = w \<and> cudf_id ct \<noteq> CUDF_STRING"
  using assms
  by (cases "ct_id t")
     (auto simp: cudf_type_of_column_def getColumnTypeSize_def cudf_size_of_def cudf_data_def cudf_decimal_def
        res_bind_Inr_iff split: option.splits if_splits)

lemma int32_of_u64_small: "int (unat n) \<le> INT32_MAX \<Longrightarrow> int32_of_u64 n = int (unat n)"
  unfolding int32_of_u64_def INT32_MAX_def
  using signed_take_bit_int_eq_self [of 31 "uint n"] uint_ge_0 [of n]
  by (simp add: signed_ucast_eq order.trans [of _ 0])

section \<open>Input columns\<close>

lemma column_row_list_mono:
  assumes "device_extends rmm d d'" and "column_row_list d c = Some rows"
  shows "column_row_list d' c = Some rows"
proof (cases "row_ids c = nullptr")
  case True
  with assms(2) show ?thesis by (simp add: column_row_list_def)
next
  case False
  with assms(2) obtain xs n where "cells d (row_ids c) = Some (RowIds xs)" "row_id_count c = Some n"
    "unat n \<le> length xs" "rows = map unat (take (unat n) xs)"
    by (auto simp: column_row_list_def split: option.splits darray.splits if_splits)
  with False device_extends_cell [OF assms(1)] show ?thesis by (simp add: column_row_list_def)
qed

lemma values_of_mono:
  assumes "device_extends rmm d d'" and "values_of D d c = Some vs"
  shows "values_of D d' c = Some vs"
proof -
  from assms(2) obtain rows where rows: "column_row_list d c = Some rows"
    by (auto simp: values_of_def split: option.splits)
  note rows' = column_row_list_mono [OF assms(1) rows]
  show ?thesis
  proof (cases rows)
    case Nil
    with assms(2) rows rows' show ?thesis by (simp add: values_of_def)
  next
    case (Cons r rs)
    with assms(2) rows obtain w xs where "cells d (dw_data (data_wrapper c)) = Some (Vals w xs)"
      by (auto simp: values_of_def split: option.splits darray.splits)
    with device_extends_cell [OF assms(1) this] assms(2) rows rows' Cons show ?thesis
      by (simp add: values_of_def)
  qed
qed

lemma validity_of_mono:
  assumes "device_extends rmm d d'" and "validity_of d c = Some bs"
  shows "validity_of d' c = Some bs"
proof -
  from assms(2) obtain rows where rows: "column_row_list d c = Some rows"
    by (auto simp: validity_of_def split: option.splits)
  note rows' = column_row_list_mono [OF assms(1) rows]
  show ?thesis
  proof (cases "rows = [] \<or> dw_validity_mask (data_wrapper c) = nullptr")
    case True
    with assms(2) rows rows' show ?thesis by (simp add: validity_of_def)
  next
    case False
    with assms(2) rows obtain ms where "cells d (dw_validity_mask (data_wrapper c)) = Some (Bits ms)"
      by (auto simp: validity_of_def split: option.splits darray.splits)
    with device_extends_cell [OF assms(1) this] assms(2) rows rows' False show ?thesis
      by (simp add: validity_of_def)
  qed
qed

lemma readable_mono: "device_extends rmm d d' \<Longrightarrow> readable D d c vs bs \<Longrightarrow> readable D d' c vs bs"
  by (auto simp: readable_def intro: values_of_mono validity_of_mono)

text \<open>A column without row ids whose \<open>n\<close> rows can be read.\<close>

definition plain_column ::
  "duckdb_env \<Rightarrow> 'v device \<Rightarrow> GPUColumn \<Rightarrow> cudf_data_type \<Rightarrow> nat \<Rightarrow> 'v list \<Rightarrow> bool list \<Rightarrow> bool" where
  "plain_column D d c t n vs bs \<longleftrightarrow> row_ids c = nullptr \<and> unat (column_length c) = n \<and> 0 < n \<and>
     int n \<le> INT32_MAX \<and> values_of D d c = Some vs \<and> validity_of d c = Some bs \<and>
     ct_id (dw_type (data_wrapper c)) \<noteq> C_VARCHAR \<and> cudf_type_of_column D (dw_type (data_wrapper c)) = Inr t"

definition view_of :: "GPUColumn \<Rightarrow> cudf_data_type \<Rightarrow> cudf_view" where
  "view_of c t = \<lparr>cv_type = t, cv_size = int32_of_u64 (column_length c),
     cv_data = dw_data (data_wrapper c), cv_mask = dw_validity_mask (data_wrapper c),
     cv_offsets = (if ct_id (dw_type (data_wrapper c)) = C_VARCHAR then dw_offset (data_wrapper c) else nullptr)\<rparr>"

lemma pick_prefix: "pick xs [0..<n] = Some ys \<Longrightarrow> n \<le> length xs \<and> ys = take n xs"
proof -
  assume p: "pick xs [0..<n] = Some ys"
  then have "\<forall>i < n. i < length xs" by (simp add: pick_def split: if_splits)
  then have "n \<le> length xs" by (meson not_le order.irrefl)
  with p show ?thesis by (auto simp: pick_def split: if_splits intro!: nth_equalityI)
qed

lemma plain_column_cells:
  assumes "plain_column D d c t n vs bs" and "dw_validity_mask (data_wrapper c) \<noteq> nullptr"
  shows "\<exists>xs ms. cells d (dw_data (data_wrapper c)) = Some (Vals (cudf_size_of (cudf_id t)) xs) \<and> n \<le> length xs \<and>
     vs = take n xs \<and> cells d (dw_validity_mask (data_wrapper c)) = Some (Bits ms) \<and> n \<le> length ms \<and> bs = take n ms"
proof -
  have rows: "column_row_list d c = Some [0..<n]" and n: "0 < n"
    using assms(1) by (auto simp: plain_column_def column_row_list_def)
  have ne: "[0..<n] = 0 # [1..<n]" using n by (simp add: upt_conv_Cons)
  obtain w xs where xs: "cells d (dw_data (data_wrapper c)) = Some (Vals w xs)"
    "getColumnTypeSize D (dw_type (data_wrapper c)) = Inr w" "pick xs [0..<n] = Some vs"
    using assms(1) rows ne by (auto simp: plain_column_def values_of_def split: option.splits darray.splits if_splits)
  obtain ms where ms: "cells d (dw_validity_mask (data_wrapper c)) = Some (Bits ms)" "pick ms [0..<n] = Some bs"
    using assms rows n by (auto simp: plain_column_def validity_of_def split: option.splits darray.splits if_splits)
  have "cudf_size_of (cudf_id t) = w"
    using cudf_size_agrees [OF _ xs(2)] assms(1) by (auto simp: plain_column_def)
  with xs ms pick_prefix [OF xs(3)] pick_prefix [OF ms(2)] show ?thesis by auto
qed

lemma copy_plain_column:
  assumes c: "plain_column D d c t n vs bs" and mask: "dw_validity_mask (data_wrapper c) \<noteq> nullptr"
    and w: "getColumnTypeSize D (dw_type (data_wrapper c)) = Inr w"
  shows "copy_view L (view_of c t) d = (Inr \<lparr>cc_type = t, cc_data = vs, cc_mask = bs\<rparr>, d)"
proof -
  from plain_column_cells [OF c mask] obtain xs ms where x:
    "cells d (dw_data (data_wrapper c)) = Some (Vals (cudf_size_of (cudf_id t)) xs)" "n \<le> length xs" "vs = take n xs"
    "cells d (dw_validity_mask (data_wrapper c)) = Some (Bits ms)" "n \<le> length ms" "bs = take n ms" by blast
  have n: "unat (column_length c) = n" "0 < n" "int n \<le> INT32_MAX" using c by (simp_all add: plain_column_def)
  have size: "cv_size (view_of c t) = int n" using int32_of_u64_small [of "column_length c"] n by (simp add: view_of_def)
  have "cudf_id t \<noteq> CUDF_STRING" using cudf_size_agrees [OF _ w] c by (auto simp: plain_column_def)
  moreover have "n < 2 ^ 64" using n by (simp add: INT32_MAX_def)
  then have "unat (of_nat n :: u64) = n" by (simp add: unat_of_nat)
  ultimately show ?thesis
    using x n size
    by (simp add: copy_view_def act_bind_def act_basic dev_vals_def dev_bits_def first_n_def view_of_def)
qed

lemma values_of_same:
  assumes "row_ids c' = row_ids c" "row_id_count c' = row_id_count c" "column_length c' = column_length c"
    "dw_data (data_wrapper c') = dw_data (data_wrapper c)" "dw_type (data_wrapper c') = dw_type (data_wrapper c)"
  shows "values_of D d c' = values_of D d c"
  unfolding values_of_def column_row_list_def assms ..

lemma createNullMask_extends:
  assumes wf: "dev_wf rmm d" and m: "createNullMask rmm n d = (r, d')"
  shows "r = Inl BadAlloc \<or> (\<exists>p. r = Inr p \<and> p \<noteq> nullptr \<and> device_extends rmm d d' \<and>
     cells d' p = Some (Bits (replicate (unat n) True)))"
proof (cases "dev_malloc rmm 1 (getMaskBytesSize n) d")
  case (Pair r1 d1)
  show ?thesis
  proof (cases r1)
    case (Inl e)
    with m Pair dev_malloc_throws [OF wf] show ?thesis by (auto simp: createNullMask_def act_bind_def)
  next
    case (Inr p)
    note al = dev_malloc_extends [OF wf Pair [unfolded Inr]]
    have "r = Inr p" "d' = d1\<lparr>cells := (cells d1)(p \<mapsto> Bits (replicate (unat n) True))\<rparr>"
      using m Pair Inr by (simp_all add: createNullMask_def act_bind_def act_basic dev_write_def)
    with al dev_write_extends [of rmm d d1 p] show ?thesis by auto
  qed
qed

lemma convert_plain_column:
  assumes wf: "dev_wf rmm d" and c: "plain_column D d c t n vs bs"
    and m: "convertToCudfColumn D rmm c d = (r, d')"
  shows "r = Inl BadAlloc \<or> (\<exists>c'. r = Inr (c', view_of c' t) \<and> device_extends rmm d d' \<and>
     plain_column D d' c' t n vs bs \<and> dw_validity_mask (data_wrapper c') \<noteq> nullptr)"
proof -
  have t: "cudf_type_of_column D (dw_type (data_wrapper c)) = Inr t" using c by (simp add: plain_column_def)
  show ?thesis
  proof (cases "dw_validity_mask (data_wrapper c) = nullptr")
    case False
    then have "r = Inr (c, view_of c t)" "d' = d"
      using m t by (simp_all add: convertToCudfColumn_def act_bind_def act_basic view_of_def)
    with wf c False show ?thesis by auto
  next
    case True
    obtain r1 d1 where mk: "createNullMask rmm (column_length c) d = (r1, d1)"
      by (cases "createNullMask rmm (column_length c) d")
    from createNullMask_extends [OF wf mk] show ?thesis
    proof (elim disjE exE conjE)
      assume "r1 = Inl BadAlloc"
      with m True mk show ?thesis by (simp add: convertToCudfColumn_def act_bind_def)
    next
      fix p assume p: "r1 = Inr p" "p \<noteq> nullptr" "device_extends rmm d d1"
        "cells d1 p = Some (Bits (replicate (unat (column_length c)) True))"
      let ?c = "c\<lparr>data_wrapper := (data_wrapper c)\<lparr>dw_validity_mask := p,
                 dw_mask_bytes := getMaskBytesSize (word_of_int (int32_of_u64 (column_length c)))\<rparr>\<rparr>"
      have run: "r = Inr (?c, view_of ?c t)" "d' = d1"
        using m True mk p(1) t by (simp_all add: convertToCudfColumn_def act_bind_def act_basic view_of_def)
      have rows: "column_row_list d1 ?c = Some [0..<n]" "column_row_list d c = Some [0..<n]"
        using c by (auto simp: plain_column_def column_row_list_def)
      have "values_of D d1 c = Some vs" using c values_of_mono [OF p(3)] by (simp add: plain_column_def)
      moreover have "values_of D d1 ?c = values_of D d1 c" by (rule values_of_same) simp_all
      ultimately have vals: "values_of D d1 ?c = Some vs" by simp
      have "bs = replicate n True" using c rows(2) True by (auto simp: plain_column_def validity_of_def map_replicate_const)
      then have "validity_of d1 ?c = Some bs"
        using c rows(1) p(2,4) pick_all [of "replicate n True" n] by (auto simp: plain_column_def validity_of_def)
      then have "plain_column D d1 ?c t n vs bs" using c vals by (simp add: plain_column_def)
      with run p(2,3) show ?thesis by simp
    qed
  qed
qed

text \<open>The input columns of a run: \<open>ins\<close> lists type, values and validity of each, and \<open>n\<close> is the number
  of rows.  A column that still carries row ids is gathered when it is referenced, which frees the
  arrays it read; its arrays have to be ones that the manager retains.\<close>

definition input_ok ::
  "('d, 'v) exec_env \<Rightarrow> nat \<Rightarrow> 'v device \<Rightarrow> GPUColumn \<Rightarrow> cudf_data_type \<times> 'v list \<times> bool list \<Rightarrow> bool" where
  "input_ok E n d c inp \<longleftrightarrow> (case inp of (t, vs, bs) \<Rightarrow>
     readable (ee_duckdb E) d c vs bs \<and> length vs = n \<and> length bs = n \<and>
     ct_id (dw_type (data_wrapper c)) \<noteq> C_VARCHAR \<and>
     cudf_type_of_column (ee_duckdb E) (dw_type (data_wrapper c)) = Inr t \<and>
     (row_ids c = nullptr \<or> retained (mgr d) (dw_data (data_wrapper c)) \<and>
        retained (mgr d) (dw_validity_mask (data_wrapper c))))"

definition executor_ok ::
  "('d, 'v) exec_env \<Rightarrow> nat \<Rightarrow> (cudf_data_type \<times> 'v list \<times> bool list) list \<Rightarrow> 'v gpu_expression_executor \<Rightarrow> bool" where
  "executor_ok E n ins s \<longleftrightarrow> dev_wf (ee_rmm E) (exec_dev s) \<and> 0 < n \<and> int n \<le> INT32_MAX \<and>
     input_count s = int n \<and> length (input_columns s) = length ins \<and>
     (\<forall>k < length ins. \<exists>c. input_columns s ! k = Some c \<and> input_ok E n (exec_dev s) c (ins ! k))"

definition input_cell :: "cudf_data_type \<times> 'v list \<times> bool list \<Rightarrow> nat \<Rightarrow> 'v option" where
  "input_cell inp i = (case inp of (t, vs, bs) \<Rightarrow> if bs ! i then Some (vs ! i) else None)"

lemma input_column_is:
  "length vs = n \<Longrightarrow> length bs = n \<Longrightarrow> column_is \<lparr>cc_type = t, cc_data = vs, cc_mask = bs\<rparr> t n (input_cell (t, vs, bs))"
  by (auto simp: column_is_def cells_of_def input_cell_def intro: nth_equalityI)

lemma input_ok_mono: "device_extends rmm d d' \<Longrightarrow> input_ok E n d c inp \<Longrightarrow> input_ok E n d' c inp"
proof -
  assume e: "device_extends rmm d d'"
  then have "\<forall>p. retained (mgr d) p \<longrightarrow> retained (mgr d') p" by (simp add: device_extends_def)
  then show "input_ok E n d c inp \<Longrightarrow> input_ok E n d' c inp"
    using readable_mono [OF e] by (auto simp: input_ok_def)
qed

lemma executor_ok_extends:
  "executor_ok E n ins s \<Longrightarrow> device_extends (ee_rmm E) (exec_dev s) d \<Longrightarrow> executor_ok E n ins (s\<lparr>exec_dev := d\<rparr>)"
proof -
  assume ok: "executor_ok E n ins s" and e: "device_extends (ee_rmm E) (exec_dev s) d"
  then have "dev_wf (ee_rmm E) d" by (simp add: device_extends_def)
  moreover have "\<forall>k < length ins. \<exists>c. input_columns s ! k = Some c \<and> input_ok E n d c (ins ! k)"
    using ok input_ok_mono [OF e] unfolding executor_ok_def by blast
  ultimately show ?thesis using ok by (simp add: executor_ok_def)
qed

lemma values_of_rows_size:
  assumes "values_of D d c = Some vs" and "vs \<noteq> []"
  shows "\<exists>w. getColumnTypeSize D (dw_type (data_wrapper c)) = Inr w"
  using assms by (auto simp: values_of_def split: option.splits list.splits darray.splits if_splits)

lemma convert_and_copy:
  assumes wf: "dev_wf rmm d" and c: "plain_column D d c t n vs bs" and len: "length vs = n" "length bs = n"
    and m: "convertToCudfColumn D rmm c d = (r, d')"
  shows "r = Inl BadAlloc \<or> (\<exists>c'. r = Inr (c', view_of c' t) \<and> device_extends rmm d d' \<and>
     plain_column D d' c' t n vs bs \<and>
     copy_view L (view_of c' t) d' = (Inr \<lparr>cc_type = t, cc_data = vs, cc_mask = bs\<rparr>, d'))"
proof -
  from convert_plain_column [OF wf c m] show ?thesis
  proof (elim disjE exE conjE)
    fix c' assume c': "r = Inr (c', view_of c' t)" "device_extends rmm d d'" "plain_column D d' c' t n vs bs"
      "dw_validity_mask (data_wrapper c') \<noteq> nullptr"
    then have "values_of D d' c' = Some vs" "vs \<noteq> []" using len by (auto simp: plain_column_def)
    from values_of_rows_size [OF this] copy_plain_column [OF c'(3,4)] c' show ?thesis by blast
  qed simp
qed

lemma plain_input_ok:
  assumes "plain_column (ee_duckdb E) d c t n vs bs" and "length vs = n" "length bs = n"
  shows "input_ok E n d c (t, vs, bs)"
  using assms by (auto simp: plain_column_def input_ok_def readable_def)

lemma executor_ok_replace:
  assumes ok: "executor_ok E n ins s" and k: "k < length ins" and e: "device_extends (ee_rmm E) (exec_dev s) d"
    and c: "input_ok E n d c (ins ! k)"
  shows "executor_ok E n ins (s\<lparr>exec_dev := d, input_columns := (input_columns s)[k := Some c]\<rparr>)"
  using executor_ok_extends [OF ok e] k c by (auto simp: executor_ok_def nth_list_update)

text \<open>A column that carries no row ids.\<close>

lemma reference_plain:
  assumes ok: "executor_ok E n ins s" and k: "k < length ins" "ins ! k = (t, vs, bs)"
    and c: "input_columns s ! k = Some c" "row_ids c = nullptr" and r: "Execute_Reference E k s = (r, s')"
  shows "r = Inl BadAlloc \<or> (\<exists>col. r = Inr col \<and> column_is col t n (input_cell (ins ! k)) \<and> executor_ok E n ins s')"
proof -
  have inp: "input_ok E n (exec_dev s) c (t, vs, bs)" and wf: "dev_wf (ee_rmm E) (exec_dev s)"
    and n: "0 < n" "int n \<le> INT32_MAX" and len: "k < length (input_columns s)" "length vs = n" "length bs = n"
    using ok k c(1) by (fastforce simp: executor_ok_def input_ok_def)+
  have cl: "unat (column_length c) = n"
    using inp c(2) values_of_length [of "ee_duckdb E" "exec_dev s" c vs] by (auto simp: input_ok_def readable_def column_row_list_def)
  then have plain: "plain_column (ee_duckdb E) (exec_dev s) c t n vs bs"
    using inp n c(2) by (auto simp: input_ok_def plain_column_def readable_def)
  obtain r1 d1 where cv: "convertToCudfColumn (ee_duckdb E) (ee_rmm E) c (exec_dev s) = (r1, d1)"
    by (cases "convertToCudfColumn (ee_duckdb E) (ee_rmm E) c (exec_dev s)")
  have small: "\<not> int (unat (column_length c)) > INT32_MAX" using cl n by simp
  have start: "Execute_Reference E k s = act_bind (on_device (convertToCudfColumn (ee_duckdb E) (ee_rmm E) c)) (\<lambda>(c', view).
       act_bind (act_modify (\<lambda>s. s\<lparr>input_columns := (input_columns s)[k := Some c']\<rparr>)) (\<lambda>_.
       on_device (copy_view (ee_cudf E) view))) s"
    using c len(1) small by (simp add: Execute_Reference_def act_basic act_bind_def)
  from convert_and_copy [OF wf plain len(2,3) cv, of "ee_cudf E"] show ?thesis
  proof (elim disjE exE conjE)
    assume "r1 = Inl BadAlloc"
    with r start cv show ?thesis by (simp add: act_bind_def on_device_def)
  next
    fix c' assume c': "r1 = Inr (c', view_of c' t)" "device_extends (ee_rmm E) (exec_dev s) d1"
      "plain_column (ee_duckdb E) d1 c' t n vs bs"
      "copy_view (ee_cudf E) (view_of c' t) d1 = (Inr \<lparr>cc_type = t, cc_data = vs, cc_mask = bs\<rparr>, d1)"
    have "r = Inr \<lparr>cc_type = t, cc_data = vs, cc_mask = bs\<rparr>"
      "s' = s\<lparr>exec_dev := d1, input_columns := (input_columns s)[k := Some c']\<rparr>"
      using r start cv c'(1,4) by (auto simp: act_bind_def on_device_def act_basic)
    with executor_ok_replace [OF ok k(1) c'(2)] plain_input_ok [OF c'(3) len(2,3)] input_column_is [OF len(2,3)] k(2)
    show ?thesis by simp
  qed
qed

text \<open>A column that is gathered first.\<close>

lemma reference_late:
  assumes ok: "executor_ok E n ins s" and k: "k < length ins" "ins ! k = (t, vs, bs)"
    and c: "input_columns s ! k = Some c" "row_ids c \<noteq> nullptr" and r: "Execute_Reference E k s = (r, s')"
  shows "r = Inl BadAlloc \<or> (\<exists>col. r = Inr col \<and> column_is col t n (input_cell (ins ! k)) \<and> executor_ok E n ins s')"
proof -
  let ?D = "ee_duckdb E" and ?d = "exec_dev s" and ?ty = "dw_type (data_wrapper c)"
  have inp: "input_ok E n ?d c (t, vs, bs)" and wf: "dev_wf (ee_rmm E) ?d"
    and n: "0 < n" "int n \<le> INT32_MAX" and len: "k < length (input_columns s)" "length vs = n" "length bs = n"
    using ok k c(1) by (fastforce simp: executor_ok_def input_ok_def)+
  have rd: "readable ?D ?d c vs bs" and ty: "ct_id ?ty \<noteq> C_VARCHAR" "cudf_type_of_column ?D ?ty = Inr t"
    and keep: "retained (mgr ?d) (dw_data (data_wrapper c))" "retained (mgr ?d) (dw_validity_mask (data_wrapper c))"
    using inp c(2) by (simp_all add: input_ok_def)
  from rd c(2) obtain xs m where rc: "row_id_count c = Some m" and m: "unat m = n"
    using values_of_length [of ?D ?d c vs] len(2)
    by (auto simp: readable_def values_of_def column_row_list_def split: option.splits darray.splits if_splits)
  obtain w where w: "getColumnTypeSize ?D ?ty = Inr w"
    using values_of_rows_size [of ?D ?d c vs] rd len(2) n(1) by (auto simp: readable_def)
  have no_refusal: "ct_id ?ty \<noteq> C_INT128" "ct_id ?ty \<noteq> C_INVALID" "\<not> (ct_id ?ty = C_DECIMAL \<and> w = 2)"
    using ty(2) w by (auto simp: cudf_type_of_column_def split: option.splits)
  obtain r1 d1 where mat: "HandleMaterializeExpression ?D (ee_rmm E) (ee_cub E) c ?d = (r1, d1)"
    by (cases "HandleMaterializeExpression ?D (ee_rmm E) (ee_cub E) c ?d")
  have small: "\<not> int (unat m) > INT32_MAX" using m n by simp
  have start: "Execute_Reference E k s = act_bind (on_device (HandleMaterializeExpression ?D (ee_rmm E) (ee_cub E) c)) (\<lambda>out.
       act_bind (on_device (convertToCudfColumn ?D (ee_rmm E) out)) (\<lambda>(out, view). on_device (copy_view (ee_cudf E) view))) s"
    using c len(1) small rc by (simp add: Execute_Reference_def act_basic act_bind_def)
  from HandleMaterializeExpression_result [OF wf rd refl ty(1) mat] w no_refusal
  have "r1 = Inl BadAlloc \<or> (\<exists>out. r1 = Inr out \<and> materialised ?D d1 ?ty vs bs out)" by auto
  then show ?thesis
  proof (elim disjE exE conjE)
    assume "r1 = Inl BadAlloc"
    with r start mat show ?thesis by (simp add: act_bind_def on_device_def)
  next
    fix out assume out: "r1 = Inr out" "materialised ?D d1 ?ty vs bs out"
    note e1 = HandleMaterializeExpression_extends [OF wf keep ty(1) mat [unfolded out(1)]]
    then have wf1: "dev_wf (ee_rmm E) d1" by (simp add: device_extends_def)
    have plain: "plain_column ?D d1 out t n vs bs"
      using out(2) n len ty by (auto simp: materialised_def plain_column_def)
    obtain r2 d2 where cv: "convertToCudfColumn ?D (ee_rmm E) out d1 = (r2, d2)"
      by (cases "convertToCudfColumn ?D (ee_rmm E) out d1")
    from convert_and_copy [OF wf1 plain len(2,3) cv, of "ee_cudf E"] show ?thesis
    proof (elim disjE exE conjE)
      assume "r2 = Inl BadAlloc"
      with r start mat out(1) cv show ?thesis by (simp add: act_bind_def on_device_def)
    next
      fix c' assume c': "r2 = Inr (c', view_of c' t)" "device_extends (ee_rmm E) d1 d2"
        "copy_view (ee_cudf E) (view_of c' t) d2 = (Inr \<lparr>cc_type = t, cc_data = vs, cc_mask = bs\<rparr>, d2)"
      have "r = Inr \<lparr>cc_type = t, cc_data = vs, cc_mask = bs\<rparr>" "s' = s\<lparr>exec_dev := d2\<rparr>"
        using r start mat out(1) cv c'(1,3) by (simp_all add: act_bind_def on_device_def)
      with executor_ok_extends [OF ok device_extends_trans [OF e1 c'(2)]] input_column_is [OF len(2,3)] k(2)
      show ?thesis by simp
    qed
  qed
qed

lemma Execute_Reference_rows:
  assumes k: "k < length ins"
  shows "delivers (executor_ok E n ins) (Execute_Reference E k) (\<lambda>c. column_is c (fst (ins ! k)) n (input_cell (ins ! k)))"
  unfolding delivers_def
proof (intro allI impI)
  fix s r s' assume ok: "executor_ok E n ins s" and r: "Execute_Reference E k s = (r, s')"
  obtain t vs bs where inp: "ins ! k = (t, vs, bs)" by (cases "ins ! k") auto
  obtain c where c: "input_columns s ! k = Some c" using ok k by (auto simp: executor_ok_def)
  show "r = Inl BadAlloc \<or> (\<exists>x. r = Inr x \<and> column_is x (fst (ins ! k)) n (input_cell (ins ! k)) \<and> executor_ok E n ins s')"
    using reference_plain [OF ok k inp c _ r] reference_late [OF ok k inp c _ r] by (auto simp: inp)
qed

section \<open>The executor computes the row semantics\<close>

definition input_row :: "(cudf_data_type \<times> 'v list \<times> bool list) list \<Rightarrow> nat \<Rightarrow> 'v option list" where
  "input_row ins i = map (\<lambda>inp. input_cell inp i) ins"

lemma exec_child_known:
  assumes "InitializeState D e = Inr st" and "k < length (children_of e)"
  shows "exec_child (map (Execute_expr E) (children_of e)) st k = Execute_expr E (children_of e ! k) (child_states st ! k)"
  using InitializeState_child(1) [OF assms] assms(2)
  by (simp add: exec_child_def exec_at_def act_bind_def act_basic fun_eq_iff)

lemma length_case_children: "length (case_children checks) = 2 * length checks"
  by (induction checks) simp_all

text \<open>One class, its children given.\<close>

lemma Execute_class_rows:
  assumes lib: "cudf_documented (ee_cudf E) R"
    and ch: "children_deliver (executor_ok E n ins) calls st n ts vf" and len: "length ts = length (children_of e)"
    and ty: "type_of_class E R (map fst ins) e ts = Some t"
  shows "delivers (executor_ok E n ins) (Execute_class E e calls st)
    (\<lambda>c. column_is c t n (\<lambda>i. value_of_class E R (input_row ins i) e (map the ts) (vf i)))"
proof -
  have L: "binary_documented (ee_cudf E) R" "scalars_documented (ee_cudf E) R" "unary_documented (ee_cudf E) R"
    "selects_documented (ee_cudf E) R" using lib by (simp_all add: cudf_documented_def)
  have count: "executor_ok E n ins s \<Longrightarrow> input_count s = int n" for s by (simp add: executor_ok_def)
  show ?thesis
  proof (cases e)
    case (BoundBetween lt input lower upper li ui)
    then have n3: "length ts = 3" using len by simp
    have parts: "binary_type R GREATER_EQUAL bool8 (ts ! 0) (ts ! 1) = Some bool8"
      "binary_type R LESS_EQUAL bool8 (ts ! 0) (ts ! 2) = Some bool8" "op_binary_ok R LOGICAL_AND bool8 bool8 bool8" "t = bool8"
      using ty by (auto simp: BoundBetween type_of_class_def binary_type_Some split: if_splits)
    show ?thesis
      using Execute_Between_rows [OF L(1) ch n3 parts(1-3)]
      by (simp add: BoundBetween Execute_class_def value_of_class_def parts(4) n3)
  next
    case (BoundCase lt checks else_expr)
    have "\<not> list_ex (\<lambda>c. error_function (then_expr c)) checks" "case_type ts = Some t"
      using ty by (simp_all add: BoundCase type_of_class_def split: if_splits)
    moreover have "length ts = Suc (2 * length checks)" using len by (simp add: BoundCase length_case_children)
    ultimately show ?thesis
      using Execute_Case_rows [OF L(4) ch] by (simp add: BoundCase Execute_class_def value_of_class_def)
  next
    case (BoundCast lt child)
    then have n1: "length ts = 1" using len by simp
    from ty obtain ct a where "GetCudfType (ee_duckdb E) lt = Inr ct" "ts ! 0 = Some a"
      "op_cast_ok R a (cudf_data (cudf_id ct))" "t = cudf_data (cudf_id ct)"
      by (auto simp: BoundCast type_of_class_def split: sum.splits option.splits)
    with Execute_Cast_rows [OF L(3) ch n1] n1 show ?thesis
      by (simp add: BoundCast Execute_class_def value_of_class_def)
  next
    case (BoundComparison cmp lt left right)
    with len ty show ?thesis
      using Execute_Comparison_rows [OF L(1,2) ch] by (simp add: Execute_class_def value_of_class_def type_of_class_def)
  next
    case (BoundConjunction cty lt children)
    with len ty show ?thesis
      using Execute_Conjunction_rows [OF L(1) ch] by (simp add: Execute_class_def value_of_class_def type_of_class_def)
  next
    case (BoundConstant lt v)
    with ty obtain sc where "value_scalar E lt v = Some sc" "t = scalar_type sc" by (auto simp: type_of_class_def)
    with Execute_Constant_rows [OF L(2) _ count] show ?thesis
      by (simp add: BoundConstant Execute_class_def value_of_class_def)
  next
    case (BoundFunction name lt children)
    with ty have nt: "numeric_type E R name lt children ts = Some t" by (simp add: type_of_class_def)
    then obtain op where op: "numeric_function name = Some op" by (cases "numeric_function name") (simp_all add: numeric_type_def)
    with numeric_rows [OF L(1,2) ch _ nt op] len show ?thesis
      by (simp add: BoundFunction Execute_class_def Execute_Function_def value_of_class_def)
  next
    case (BoundOperator cmp lt children)
    with len ty show ?thesis
      using Execute_Operator_rows [OF L(1,3,4) ch] by (simp add: Execute_class_def value_of_class_def type_of_class_def)
  next
    case (BoundReference lt k)
    with ty have k: "k < length ins" "t = fst (ins ! k)" by (auto simp: type_of_class_def)
    with Execute_Reference_rows [OF k(1)] show ?thesis
      by (simp add: BoundReference Execute_class_def value_of_class_def input_row_def)
  qed (use ty in \<open>simp_all add: type_of_class_def\<close>)
qed

lemma Execute_expr_rows:
  assumes lib: "cudf_documented (ee_cudf E) R"
  shows "expression_type E R (map fst ins) e = Some t \<Longrightarrow> InitializeState (ee_duckdb E) e = Inr st \<Longrightarrow>
    delivers (executor_ok E n ins) (Execute_expr E e st)
      (\<lambda>c. column_is c t n (\<lambda>i. row_value E R (map fst ins) (input_row ins i) e))"
proof (induction e arbitrary: t st rule: measure_induct_rule [of size])
  case (less e)
  let ?ts = "map (expression_type E R (map fst ins)) (children_of e)"
  let ?vf = "\<lambda>i. map (row_value E R (map fst ins) (input_row ins i)) (children_of e)"
  have ch: "children_deliver (executor_ok E n ins) (map (Execute_expr E) (children_of e)) st n ?ts ?vf"
    unfolding children_deliver_def
  proof (intro conjI allI impI)
    fix k t' assume k: "k < length ?ts" "?ts ! k = Some t'"
    then have "delivers (executor_ok E n ins) (Execute_expr E (children_of e ! k) (child_states st ! k))
        (\<lambda>c. column_is c t' n (\<lambda>i. row_value E R (map fst ins) (input_row ins i) (children_of e ! k)))"
      using InitializeState_child [OF less.prems(2), of k] by (intro less.IH children_of_size) simp_all
    with k show "delivers (executor_ok E n ins) (exec_child (map (Execute_expr E) (children_of e)) st k)
        (\<lambda>c. column_is c t' n (\<lambda>i. ?vf i ! k))"
      by (simp add: exec_child_known [OF less.prems(2)])
  qed (use InitializeState_length [OF less.prems(2)] in simp_all)
  have ty: "type_of_class E R (map fst ins) e ?ts = Some t"
    using less.prems(1) by (simp add: expression_type.simps)
  have the_ts: "map the ?ts = map (\<lambda>c. the (expression_type E R (map fst ins) c)) (children_of e)" by simp
  have "row_value E R (map fst ins) (input_row ins i) e = value_of_class E R (input_row ins i) e (map the ?ts) (?vf i)" for i
    unfolding the_ts by (rule row_value.simps)
  with Execute_class_rows [OF lib ch _ ty] show ?case by (simp add: Execute_expr.simps [of E e])
qed

end
