(* ===== verification/Expression_Select.thy ===== *)
theory Expression_Select
  imports Expression_Functions Materialize_Rows
begin

text \<open>
  The executor's two entry points: \<open>Execute\<close> over a relation, for projections, and \<open>Select\<close>, for
  filters (\<open>gpu_expression_executor.cpp\<close>), with the selection vector
  (\<open>cuda/expression_executor/gpu_dispatch_select.cu\<close>), the way a cuDF column becomes a column of a
  relation (\<open>GPUColumn::setFromCudfColumn\<close>), and the operators that call them
  (\<open>gpu_physical_filter.cpp\<close>, \<open>gpu_physical_projection.cpp\<close>).
\<close>

section \<open>From cuDF back to a column\<close>

text \<open>The manager adopts a buffer that cuDF allocated; the array it holds is then on the device.\<close>

definition dev_adopt :: "rmm_pool \<Rightarrow> u64 \<Rightarrow> 'v darray \<Rightarrow> ('v device, ptr) act" where
  "dev_adopt rmm n a d = (case adoptBuffer rmm n (mgr d) of
     (Inr p, s) \<Rightarrow> (Inr p, d\<lparr>mgr := s, cells := (if p = nullptr then cells d else (cells d)(p \<mapsto> a))\<rparr>)
   | (Inl e, s) \<Rightarrow> (Inl e, d\<lparr>mgr := s\<rparr>))"

definition cudf_column_length :: "'v cudf_column \<Rightarrow> u64" where
  "cudf_column_length cc = of_nat (length (cc_data cc))"

text \<open>The offsets of a string column, converted first when cuDF kept them in 32 bits.\<close>

definition adopt_offsets :: "('d, 'v) exec_env \<Rightarrow> 'v cudf_column \<Rightarrow> u64 list \<Rightarrow> ('v device, ptr) act" where
  "adopt_offsets E cc offsets =
     (let n = cudf_column_length cc + 1 in
      if cudf_offsets_int64 (ee_cudf E) cc then dev_adopt (ee_rmm E) (8 * n) (Offsets offsets)
      else act_bind (dev_adopt (ee_rmm E) (4 * n) Uninit) (\<lambda>_.
           act_bind (dev_malloc (ee_rmm E) 8 n) (\<lambda>p.
           act_bind (dev_write p (Offsets offsets)) (\<lambda>_. act_return p))))"

text \<open>\<open>setFromCudfColumn(column, unique, nullptr, 0, manager)\<close>, the call without row ids.\<close>

definition setFromCudfColumn ::
  "('d, 'v) exec_env \<Rightarrow> 'v cudf_column \<Rightarrow> bool \<Rightarrow> GPUColumn \<Rightarrow> ('v device, GPUColumn) act" where
  "setFromCudfColumn E cc unique c =
     (let n = cudf_column_length cc; is_string = (cc_type cc = cudf_data CUDF_STRING);
          w = cudf_size_of (cudf_id (cc_type cc));
          strings = map (bytes_of_element (ee_cudf E)) (cc_data cc) in
      act_bind
        (if is_string
         then dev_adopt (ee_rmm E) (of_nat (length (concat strings))) (Bytes (concat strings))
         else dev_adopt (ee_rmm E) (w * n) (Vals w (cc_data cc))) (\<lambda>data.
      act_bind
        (if cudf_nullable (ee_cudf E) cc then dev_adopt (ee_rmm E) (getMaskBytesSize n) (Bits (cc_mask cc))
         else createNullMask (ee_rmm E) n) (\<lambda>mask.
      act_bind
        (if is_string then
           act_bind (adopt_offsets E cc (in_offsets 0 strings)) (\<lambda>offsets.
           act_bind (dev_host_alloc 8 1) (\<lambda>_.
             act_return (offsets, of_nat (length (concat strings)) :: u64)))
         else act_bind (act_lift (res_bind (column_type_of_cudf (ee_duckdb E) (cc_type cc)) (getColumnTypeSize (ee_duckdb E))))
           (\<lambda>size. act_return (nullptr, n * size))) (\<lambda>(offsets, num_bytes).
      act_bind (act_lift (column_type_of_cudf (ee_duckdb E) (cc_type cc))) (\<lambda>t.
        act_return \<lparr>data_wrapper = \<lparr>dw_type = t, dw_data = data, dw_size = n, dw_offset = offsets,
            dw_num_bytes = num_bytes, dw_is_string_data = is_string, dw_validity_mask = mask,
            dw_mask_bytes = getMaskBytesSize n\<rparr>,
          row_ids = nullptr, row_id_count = Some 0, column_length = n, is_unique = unique\<rparr>)))))"

section \<open>Projections\<close>

definition GpuExpressionExecutor_new :: "('d, 'v) exec_env \<Rightarrow> 'd Expression list \<Rightarrow> 'd GpuExpressionState list res" where
  "GpuExpressionExecutor_new E exprs = res_mapM (InitializeState (ee_duckdb E)) exprs"

definition skip_execution :: "'d Expression \<Rightarrow> ('v gpu_expression_executor, bool) act" where
  "skip_execution e = act_reads (\<lambda>s. s) (\<lambda>s.
     if input_count s = 0 then act_return True
     else if has_null_input_column s then act_lift (HasNullLeaf (input_columns s) e)
     else act_return False)"

definition cast_to_return_type ::
  "('d, 'v) exec_env \<Rightarrow> LogicalType \<Rightarrow> 'v cudf_column \<Rightarrow> 'v cudf_column res" where
  "cast_to_return_type E t result = res_bind (GetCudfType (ee_duckdb E) t) (\<lambda>ct.
     if cudf_id (cc_type result) \<noteq> cudf_id ct then cudf_cast (ee_cudf E) result ct else Inr result)"

definition execute_into ::
  "('d, 'v) exec_env \<Rightarrow> 'd Expression \<Rightarrow> 'd GpuExpressionState \<Rightarrow> ('v gpu_expression_executor, GPUColumn option) act" where
  "execute_into E e st = (case e of
     BoundReference t index \<Rightarrow> act_reads input_columns (\<lambda>cols. act_lift (vec_at cols index))
   | _ \<Rightarrow>
     act_bind (act_lift (res_bind (convertLogicalTypeToColumnType (return_type e)) (\<lambda>t.
       GPUColumn_plain (ee_duckdb E) 0 t nullptr nullptr))) (\<lambda>placeholder.
     act_bind (skip_execution e) (\<lambda>skip.
       if skip then act_return (Some placeholder)
       else act_bind (Execute_expr E e st) (\<lambda>result.
            act_bind (act_lift (cast_to_return_type E (return_type e) result)) (\<lambda>result.
            act_bind (on_device (setFromCudfColumn E result False placeholder)) (\<lambda>c.
              act_return (Some c)))))))"

definition set_column_slot ::
  "nat \<Rightarrow> GPUColumn option \<Rightarrow> GPUIntermediateRelation \<Rightarrow> GPUIntermediateRelation res" where
  "set_column_slot i c r = (if i < length (columns r) then Inr (r\<lparr>columns := (columns r)[i := c]\<rparr>)
     else Inl (UndefinedBehaviour ''vector index''))"

fun execute_loop ::
  "('d, 'v) exec_env \<Rightarrow> nat \<Rightarrow> ('d Expression \<times> 'd GpuExpressionState) list \<Rightarrow> GPUIntermediateRelation \<Rightarrow>
   ('v gpu_expression_executor, GPUIntermediateRelation) act" where
  "execute_loop E i [] out = act_return out"
| "execute_loop E i ((e, st) # rest) out =
     act_bind (execute_into E e st) (\<lambda>c.
     act_bind (act_lift (set_column_slot i c out)) (\<lambda>out'.
     execute_loop E (Suc i) rest out'))"

definition Execute ::
  "('d, 'v) exec_env \<Rightarrow> 'd Expression list \<Rightarrow> GPUIntermediateRelation \<Rightarrow> GPUIntermediateRelation \<Rightarrow>
   ('v gpu_expression_executor, GPUIntermediateRelation) act" where
  "Execute E exprs input_relation output_relation =
     act_bind (act_lift (GpuExpressionExecutor_new E exprs)) (\<lambda>states.
     act_bind (SetInputColumns input_relation) (\<lambda>_.
       execute_loop E 0 (zip exprs states) output_relation))"

section \<open>Filters\<close>

text \<open>\<open>cub::DeviceSelect::Flagged\<close> over the counting iterator, with the bitmap's data as the flags.\<close>

definition selected_rows :: "('v \<Rightarrow> bool) \<Rightarrow> 'v list \<Rightarrow> u64 list" where
  "selected_rows truth data = map of_nat (filter (\<lambda>i. truth (data ! i)) [0..<length data])"

definition DispatchSelect :: "('d, 'v) exec_env \<Rightarrow> 'v cudf_column \<Rightarrow> ('v device, ptr \<times> u64) act" where
  "DispatchSelect E bitmap =
     act_bind (dev_malloc (ee_rmm E) 8 (cudf_column_length bitmap)) (\<lambda>row_ids.
       let ids = selected_rows (element_true (ee_cudf E)) (cc_data bitmap) in
       act_bind (dev_write row_ids (RowIds ids)) (\<lambda>_. act_return (row_ids, of_nat (length ids))))"

definition relation_now :: "GPUIntermediateRelation \<Rightarrow> 'v gpu_expression_executor \<Rightarrow> GPUIntermediateRelation" where
  "relation_now rel s = rel\<lparr>columns := input_columns s\<rparr>"

definition Select ::
  "('d, 'v) exec_env \<Rightarrow> 'd Expression \<Rightarrow> GPUIntermediateRelation \<Rightarrow> GPUIntermediateRelation \<Rightarrow>
   ('v gpu_expression_executor, GPUIntermediateRelation) act" where
  "Select E e input_relation output_relation =
     act_bind (act_lift (InitializeState (ee_duckdb E) e)) (\<lambda>st.
     act_bind (SetInputColumns input_relation) (\<lambda>_.
     act_bind (skip_execution e) (\<lambda>skip.
       if skip then on_device (HandleMaterializeRowIDs (ee_duckdb E) (ee_rmm E) input_relation output_relation 0 nullptr True)
       else act_bind (Execute_expr E e st) (\<lambda>bitmap.
            act_bind (on_device (DispatchSelect E bitmap)) (\<lambda>(row_ids, cnt).
            act_reads (relation_now input_relation) (\<lambda>rel.
            on_device (HandleMaterializeRowIDs (ee_duckdb E) (ee_rmm E) rel output_relation cnt row_ids True)))))))"

section \<open>The operators\<close>

text \<open>The expression of a filter with several conditions is their conjunction.\<close>

definition GPUPhysicalFilter_new :: "'d Expression list \<Rightarrow> 'd Expression res" where
  "GPUPhysicalFilter_new select_list =
     (if length select_list > 1 then Inr (BoundConjunction CONJUNCTION_AND L_BOOLEAN select_list)
      else vec_at select_list 0)"

definition idle_executor :: "'v device \<Rightarrow> 'v gpu_expression_executor" where
  "idle_executor d = \<lparr>exec_dev = d, input_columns = [], input_count = 0, has_null_input_column = False\<rparr>"

definition run_executor :: "('v gpu_expression_executor, 'a) act \<Rightarrow> ('v device, 'a) act" where
  "run_executor m d = (case m (idle_executor d) of (r, s) \<Rightarrow> (r, exec_dev s))"

definition GPUPhysicalFilter_Execute ::
  "('d, 'v) exec_env \<Rightarrow> 'd Expression \<Rightarrow> GPUIntermediateRelation \<Rightarrow> GPUIntermediateRelation \<Rightarrow>
   ('v device, GPUIntermediateRelation) act" where
  "GPUPhysicalFilter_Execute E e input_relation output_relation =
     run_executor (Select E e input_relation output_relation)"

definition GPUPhysicalProjection_Execute ::
  "('d, 'v) exec_env \<Rightarrow> 'd Expression list \<Rightarrow> GPUIntermediateRelation \<Rightarrow> GPUIntermediateRelation \<Rightarrow>
   ('v device, GPUIntermediateRelation) act" where
  "GPUPhysicalProjection_Execute E select_list input_relation output_relation =
     run_executor (Execute E select_list input_relation output_relation)"

end
