(* ===== verification/Filter_Rows.thy ===== *)
theory Filter_Rows
  imports Executor_Refinement Expression_Select
begin

text \<open>
  The filter operator from end to end: evaluating the condition, turning the bitmap into a list of
  row ids, and selecting those rows of every column, without moving any data.
\<close>

section \<open>The executor is set up\<close>

definition relation_ok ::
  "('d, 'v) exec_env \<Rightarrow> nat \<Rightarrow> (cudf_data_type \<times> 'v list \<times> bool list) list \<Rightarrow> 'v device \<Rightarrow> GPUIntermediateRelation \<Rightarrow> bool" where
  "relation_ok E n ins d rel \<longleftrightarrow> dev_wf (ee_rmm E) d \<and> 0 < n \<and> int n \<le> INT32_MAX \<and> ins \<noteq> [] \<and>
     length (columns rel) = length ins \<and>
     (\<forall>k < length ins. \<exists>c. columns rel ! k = Some c \<and> input_ok E n d c (ins ! k))"

lemma input_temp_count:
  assumes "input_ok E n d c inp" and "int n \<le> INT32_MAX"
  shows "temp_count (Some c) = Inr (int n)"
proof -
  obtain t vs bs where inp: "inp = (t, vs, bs)" by (cases inp) auto
  from assms(1) have vs: "values_of (ee_duckdb E) d c = Some vs" "length vs = n" by (simp_all add: input_ok_def inp readable_def)
  then obtain rows where rows: "column_row_list d c = Some rows" by (auto simp: values_of_def split: option.splits)
  with vs have len: "length rows = n" using values_of_length [OF vs(1) rows] by simp
  show ?thesis
  proof (cases "row_ids c = nullptr")
    case True
    with rows len have "unat (column_length c) = n" by (auto simp: column_row_list_def)
    with True assms(2) int32_of_u64_small [of "column_length c"] show ?thesis by (simp add: temp_count_def)
  next
    case False
    with rows len obtain m where "row_id_count c = Some m" "unat m = n"
      by (auto simp: column_row_list_def split: option.splits darray.splits if_splits)
    with False assms(2) int32_of_u64_small [of m] show ?thesis by (simp add: temp_count_def)
  qed
qed

lemma count_columns_all:
  assumes "\<forall>c \<in> set cols. temp_count c = Inr (int n)" and "0 < n"
  shows "count_columns cols (m, False) = Inr (if cols = [] then m else int n, False)"
  using assms(1)
proof (induction cols arbitrary: m)
  case (Cons c cols)
  then show ?case using assms(2) by (cases cols) simp_all
qed simp

lemma SetInputColumns_ok:
  assumes "relation_ok E n ins d rel"
  shows "SetInputColumns rel (idle_executor d) =
    (Inr (), \<lparr>exec_dev = d, input_columns = columns rel, input_count = int n, has_null_input_column = False\<rparr>)"
proof -
  have ne: "columns rel \<noteq> []" and n: "0 < n" using assms by (auto simp: relation_ok_def)
  have "\<forall>c \<in> set (columns rel). temp_count c = Inr (int n)"
  proof
    fix c assume "c \<in> set (columns rel)"
    then obtain k where "k < length ins" "columns rel ! k = c" using assms by (auto simp: relation_ok_def in_set_conv_nth)
    with assms input_temp_count show "temp_count c = Inr (int n)" unfolding relation_ok_def by metis
  qed
  from count_columns_all [OF this n, of 0] ne show ?thesis
    by (simp add: SetInputColumns_def act_bind_def act_basic idle_executor_def)
qed

lemma started_executor_ok:
  "relation_ok E n ins d rel \<Longrightarrow>
   executor_ok E n ins \<lparr>exec_dev = d, input_columns = columns rel, input_count = int n, has_null_input_column = False\<rparr>"
  by (simp add: relation_ok_def executor_ok_def)

section \<open>The selection vector\<close>

lemma length_selected_rows: "length (selected_rows truth data) \<le> length data"
  by (simp add: selected_rows_def order_trans [OF length_filter_le])

lemma DispatchSelect_cases:
  assumes wf: "dev_wf (ee_rmm E) d" and m: "DispatchSelect E bitmap d = (r, d')"
    and small: "length (cc_data bitmap) < 2 ^ 64"
  defines "ids \<equiv> selected_rows (element_true (ee_cudf E)) (cc_data bitmap)"
  shows "r = Inl BadAlloc \<or> (\<exists>p cnt. r = Inr (p, cnt) \<and> unat cnt = length ids \<and> p \<noteq> nullptr \<and> p \<notin> dom (cells d) \<and>
     device_extends (ee_rmm E) d d' \<and> cells d' p = Some (RowIds ids))"
proof (cases "dev_malloc (ee_rmm E) 8 (cudf_column_length bitmap) d")
  case (Pair r1 d1)
  show ?thesis
  proof (cases r1)
    case (Inl e)
    with m Pair dev_malloc_throws [OF wf] show ?thesis by (auto simp: DispatchSelect_def act_bind_def)
  next
    case (Inr p)
    note al = dev_malloc_extends [OF wf Pair [unfolded Inr]]
    have "length ids < 2 ^ 64" using small length_selected_rows [of _ "cc_data bitmap"] unfolding ids_def by (rule le_less_trans [rotated])
    then have "unat (of_nat (length ids) :: u64) = length ids" by (simp add: unat_of_nat)
    moreover have "r = Inr (p, of_nat (length ids))" "d' = d1\<lparr>cells := (cells d1)(p \<mapsto> RowIds ids)\<rparr>"
      using m Pair Inr by (simp_all add: DispatchSelect_def act_bind_def act_basic dev_write_def Let_def ids_def)
    ultimately show ?thesis using al dev_write_extends [of "ee_rmm E" d d1 p] by auto
  qed
qed

section \<open>The selected rows of every column\<close>

text \<open>What an output column has to hold: the rows \<open>kept\<close> of its input.\<close>

definition holds_rows ::
  "('d, 'v) exec_env \<Rightarrow> 'v device \<Rightarrow> nat list \<Rightarrow> cudf_data_type \<times> 'v list \<times> bool list \<Rightarrow> GPUColumn \<Rightarrow> bool" where
  "holds_rows E d kept inp c \<longleftrightarrow> (case inp of (t, vs, bs) \<Rightarrow>
     values_of (ee_duckdb E) d c = Some (map ((!) vs) kept) \<and> validity_of d c = Some (map ((!) bs) kept))"

lemma pick_pick: "pick xs rows = Some vs \<Longrightarrow> \<forall>k \<in> set ks. k < length rows \<Longrightarrow> pick xs (map ((!) rows) ks) = Some (map ((!) vs) ks)"
  by (auto simp: pick_def split: if_splits)

lemma placed_holds_rows:
  assumes ok: "input_ok E n d c inp" and wf: "dev_wf (ee_rmm E) d" and inv: "memo_ok (ee_rmm E) d ids sel memo d'"
    and same: "same_data c out" and rows: "column_row_list d c = Some rows"
    and out: "column_row_list d' out = Some (map (\<lambda>j. rows ! unat j) sel)" and range: "\<forall>j \<in> set sel. unat j < n"
  shows "holds_rows E d' (map unat sel) inp out"
proof -
  obtain t vs bs where inp: "inp = (t, vs, bs)" by (cases inp) auto
  have vs: "values_of (ee_duckdb E) d c = Some vs" "length vs = n" and bs: "validity_of d c = Some bs"
    using ok by (auto simp: inp input_ok_def readable_def)
  have len: "length rows = n" using values_of_length [OF vs(1) rows] vs(2) by simp
  have r: "\<forall>k \<in> set (map unat sel). k < length rows" using range len by simp
  have out': "column_row_list d' out = Some (map ((!) rows) (map unat sel))" using out by (simp add: comp_def)
  have frame: "cells d' p = Some a" if a: "cells d p = Some a" "\<forall>xs. a \<noteq> RowIds xs" for p a
  proof -
    have "p \<notin> fst ` set memo" using inv a unfolding memo_ok_def by force
    with inv a(1) show ?thesis unfolding memo_ok_def by (auto simp: dom_def)
  qed
  show ?thesis
  proof (cases "sel = []")
    case True
    with out' show ?thesis by (simp add: holds_rows_def inp values_of_def validity_of_def)
  next
    case False
    then have n: "rows \<noteq> []" using r len by (cases sel) auto
    obtain w xs where xs: "cells d (dw_data (data_wrapper c)) = Some (Vals w xs)"
      "getColumnTypeSize (ee_duckdb E) (dw_type (data_wrapper c)) = Inr w" "pick xs rows = Some vs"
      using vs(1) rows n by (auto simp: values_of_def split: option.splits list.splits darray.splits if_splits)
    have "cells d' (dw_data (data_wrapper out)) = Some (Vals w xs)" using same frame [OF xs(1)] by (simp add: same_data_def)
    moreover have ne: "map ((!) rows) (map unat sel) \<noteq> []" using False by simp
    ultimately have "values_of (ee_duckdb E) d' out = Some (map ((!) vs) (map unat sel))"
      using values_of_rows [OF out' ne] same xs(2) pick_pick [OF xs(3) r] by (simp add: same_data_def)
    moreover have "validity_of d' out = Some (map ((!) bs) (map unat sel))"
    proof (cases "dw_validity_mask (data_wrapper c) = nullptr")
      case True
      then have "bs = map (\<lambda>_. True) rows" using bs rows by (simp add: validity_of_def)
      with True same out' r show ?thesis by (auto simp: validity_of_def same_data_def)
    next
      case False
      with bs rows n obtain ms where ms: "cells d (dw_validity_mask (data_wrapper c)) = Some (Bits ms)" "pick ms rows = Some bs"
        by (auto simp: validity_of_def split: option.splits darray.splits)
      with same False out' ne frame [OF ms(1)] pick_pick [OF ms(2) r] show ?thesis
        by (simp add: validity_of_def same_data_def)
    qed
    ultimately show ?thesis by (simp add: holds_rows_def inp)
  qed
qed

text \<open>No row selected: every output column is empty.\<close>

definition empty_output :: "GPUColumn option \<Rightarrow> bool" where
  "empty_output c \<longleftrightarrow> (\<exists>out. c = Some out \<and> row_ids out = nullptr \<and> column_length out = 0)"

lemma empty_output_holds: "empty_output c \<Longrightarrow> \<exists>out. c = Some out \<and> holds_rows E d [] inp out"
  by (auto simp: empty_output_def holds_rows_def values_of_def validity_of_def column_row_list_def split: prod.splits)

lemma relocate_column_none:
  assumes "getColumnTypeSize D (dw_type (data_wrapper c)) = Inr w"
  shows "\<exists>out. relocate_column D rmm 0 ids mu memo c d = (Inr (out, memo), d) \<and> empty_output (Some out)"
  using assms
  by (simp add: relocate_column_def Let_def GPUColumn_string_def DataWrapper_string_def act_bind_def act_basic empty_output_def)

lemma relocate_loop_empty:
  assumes "\<forall>col \<in> set cols. \<exists>c w. column_at rin col = Inr c \<and> getColumnTypeSize D (dw_type (data_wrapper c)) = Inr w"
    and "i + length cols \<le> length (columns rout)"
  shows "\<exists>rout'. relocate_loop D rmm rin 0 ids mu memo i cols rout d = (Inr rout', d) \<and>
    length (columns rout') = length (columns rout) \<and>
    (\<forall>j < length (columns rout). j < i \<or> i + length cols \<le> j \<longrightarrow> columns rout' ! j = columns rout ! j) \<and>
    (\<forall>k < length cols. empty_output (columns rout' ! (i + k)))"
  using assms
proof (induction cols arbitrary: i rout)
  case (Cons col cols)
  then obtain c w where c: "column_at rin col = Inr c" "getColumnTypeSize D (dw_type (data_wrapper c)) = Inr w" by auto
  from relocate_column_none [OF c(2)] obtain out
    where out: "relocate_column D rmm 0 ids mu memo c d = (Inr (out, memo), d)" "empty_output (Some out)" by blast
  let ?rout = "rout\<lparr>columns := (columns rout)[i := Some out]\<rparr>"
  have i: "i < length (columns rout)" using Cons.prems(2) by simp
  have "Suc i + length cols \<le> length (columns ?rout)" using Cons.prems(2) by simp
  from Cons.IH [OF _ this] Cons.prems(1) obtain rout'
    where r: "relocate_loop D rmm rin 0 ids mu memo (Suc i) cols ?rout d = (Inr rout', d)"
      "length (columns rout') = length (columns rout)"
      "\<forall>j < length (columns rout). j < Suc i \<or> Suc i + length cols \<le> j \<longrightarrow> columns rout' ! j = columns ?rout ! j"
      "\<forall>k < length cols. empty_output (columns rout' ! (Suc i + k))" by auto
  have "relocate_loop D rmm rin 0 ids mu memo i (col # cols) rout d = (Inr rout', d)"
    using r(1) out(1) c(1) i by (simp add: act_bind_def act_basic set_column_def)
  moreover have "empty_output (columns rout' ! (i + k))" if "k < length (col # cols)" for k
    using that r(3,4) out(2) i by (cases k) auto
  moreover have "\<forall>j < length (columns rout). j < i \<or> i + length (col # cols) \<le> j \<longrightarrow> columns rout' ! j = columns rout ! j"
    using r(3) by auto
  ultimately show ?case using r(2) by blast
qed (simp add: act_basic)

lemma input_type_size:
  assumes "input_ok E n d c inp" and "0 < n"
  shows "\<exists>w. getColumnTypeSize (ee_duckdb E) (dw_type (data_wrapper c)) = Inr w"
  using assms values_of_rows_size [of "ee_duckdb E" d c] by (fastforce simp: input_ok_def readable_def split: prod.splits)

lemma input_rows:
  assumes "input_ok E n d c inp"
  shows "\<exists>rows. column_row_list d c = Some rows \<and> length rows = n"
proof -
  obtain t vs bs where "inp = (t, vs, bs)" by (cases inp) auto
  with assms have vs: "values_of (ee_duckdb E) d c = Some vs" "length vs = n" by (simp_all add: input_ok_def readable_def)
  then obtain rows where rows: "column_row_list d c = Some rows" by (auto simp: values_of_def split: option.splits)
  with values_of_length [OF vs(1) rows] vs(2) show ?thesis by simp
qed

definition outputs_hold ::
  "('d, 'v) exec_env \<Rightarrow> 'v device \<Rightarrow> nat list \<Rightarrow> (cudf_data_type \<times> 'v list \<times> bool list) list \<Rightarrow>
   GPUIntermediateRelation \<Rightarrow> bool" where
  "outputs_hold E d kept ins rel \<longleftrightarrow>
     (\<forall>k < length ins. \<exists>out. columns rel ! k = Some out \<and> holds_rows E d kept (ins ! k) out)"

definition outputs_at ::
  "('d, 'v) exec_env \<Rightarrow> 'v device \<Rightarrow> nat list \<Rightarrow> (cudf_data_type \<times> 'v list \<times> bool list) list \<Rightarrow> nat list \<Rightarrow> nat \<Rightarrow>
   GPUIntermediateRelation \<Rightarrow> bool" where
  "outputs_at E d kept ins cols i rel \<longleftrightarrow>
     (\<forall>k < length cols. \<exists>out. columns rel ! (i + k) = Some out \<and> holds_rows E d kept (ins ! (cols ! k)) out)"

definition same_elsewhere :: "nat \<Rightarrow> nat \<Rightarrow> GPUIntermediateRelation \<Rightarrow> GPUIntermediateRelation \<Rightarrow> bool" where
  "same_elsewhere i n rel rel' \<longleftrightarrow> length (columns rel') = length (columns rel) \<and>
     (\<forall>j < length (columns rel). j < i \<or> i + n \<le> j \<longrightarrow> columns rel' ! j = columns rel ! j)"

text \<open>An array that is neither the selection nor one of the row ids composed stays, and no output uses
  it.\<close>

definition apart_from :: "'v device \<Rightarrow> 'v device \<Rightarrow> ptr set \<Rightarrow> ptr \<Rightarrow> nat \<Rightarrow> nat \<Rightarrow> GPUIntermediateRelation \<Rightarrow> bool" where
  "apart_from d d' ids p i n rel \<longleftrightarrow> (\<forall>q \<in> dom (cells d). q \<notin> ids \<longrightarrow> cells d' q = cells d q \<and>
     (q \<noteq> p \<longrightarrow> (\<forall>k < n. \<forall>out. columns rel ! (i + k) = Some out \<longrightarrow> row_ids out \<noteq> q)))"

lemma relocate_loop_holds:
  assumes wf: "dev_wf (ee_rmm E) d" and ids: "cells d p = Some (RowIds zs)" "p \<noteq> nullptr"
    and cnt: "unat cnt \<le> length zs" "sel = take (unat cnt) zs" and range: "\<forall>j \<in> set sel. unat j < n" and n: "0 < n"
    and cols: "\<forall>col \<in> set cols. \<exists>c. column_at rel col = Inr c \<and> input_ok E n d c (ins ! col) \<and> row_ids c \<noteq> p"
    and fit: "i + length cols \<le> length (columns rout)"
    and m: "relocate_loop (ee_duckdb E) (ee_rmm E) rel cnt p mu [] i cols rout d = (r, d')"
  shows "r = Inl BadAlloc \<or> (\<exists>msg. r = Inl (InternalException msg)) \<or>
    (\<exists>rout'. r = Inr rout' \<and> dev_wf (ee_rmm E) d' \<and> outputs_at E d' (map unat sel) ins cols i rout' \<and>
       same_elsewhere i (length cols) rout rout' \<and>
       apart_from d d' (row_id_arrays rel cols) p i (length cols) rout')"
proof (cases "cnt = 0")
  case True
  have sizes: "\<forall>col \<in> set cols. \<exists>c w. column_at rel col = Inr c \<and> getColumnTypeSize (ee_duckdb E) (dw_type (data_wrapper c)) = Inr w"
  proof
    fix col assume "col \<in> set cols"
    with cols obtain c where "column_at rel col = Inr c" "input_ok E n d c (ins ! col)" by blast
    with input_type_size [OF this(2) n]
    show "\<exists>c w. column_at rel col = Inr c \<and> getColumnTypeSize (ee_duckdb E) (dw_type (data_wrapper c)) = Inr w" by blast
  qed
  from relocate_loop_empty [OF sizes fit, of "ee_rmm E" p mu "[]" d] obtain rout'
    where run: "relocate_loop (ee_duckdb E) (ee_rmm E) rel 0 p mu [] i cols rout d = (Inr rout', d)"
      and same: "same_elsewhere i (length cols) rout rout'"
      and empty: "\<forall>k < length cols. empty_output (columns rout' ! (i + k))" by (auto simp: same_elsewhere_def)
  have rd: "r = Inr rout'" "d' = d" using m run unfolding True by simp_all
  have "sel = []" using cnt True by simp
  then have "outputs_at E d' (map unat sel) ins cols i rout'"
    unfolding outputs_at_def using empty empty_output_holds [of _ E d'] by simp
  moreover have "apart_from d d' (row_id_arrays rel cols) p i (length cols) rout'"
    unfolding apart_from_def using empty dev_wf_nullptr [OF wf] rd(2) by (force simp: empty_output_def)
  ultimately show ?thesis using rd wf same by blast
next
  case False
  have sel: "\<forall>col \<in> set cols. \<exists>c. column_at rel col = Inr c \<and> selectable d p sel c"
  proof
    fix col assume "col \<in> set cols"
    with cols obtain c where c: "column_at rel col = Inr c" "input_ok E n d c (ins ! col)" "row_ids c \<noteq> p" by blast
    with input_rows [OF c(2)] range show "\<exists>c. column_at rel col = Inr c \<and> selectable d p sel c"
      by (auto simp: selectable_def)
  qed
  from relocate_loop_result [OF memo_ok_start [OF wf] ids False cnt sel fit m] show ?thesis
  proof (elim disjE exE conjE)
    fix rout' memo' assume r: "r = Inr rout'" and ok: "memo_ok (ee_rmm E) d p sel memo' d'"
      and sp: "slots_placed cnt p mu memo' rel i cols rout'" and len: "length (columns rout') = length (columns rout)"
      and same: "\<forall>j < length (columns rout). j < i \<or> i + length cols \<le> j \<longrightarrow> columns rout' ! j = columns rout ! j"
      and dom: "fst ` set memo' \<subseteq> fst ` set [] \<union> row_id_arrays rel cols"
    have "\<exists>out. columns rout' ! (i + k) = Some out \<and> holds_rows E d' (map unat sel) (ins ! (cols ! k)) out"
      if k: "k < length cols" for k
    proof -
      from slots_row_lists [OF sp ok ids cnt sel k] obtain c out rows
        where c: "column_at rel (cols ! k) = Inr c" "columns rout' ! (i + k) = Some out" "same_data c out"
          "column_row_list d c = Some rows" "column_row_list d' out = Some (map (\<lambda>j. rows ! unat j) sel)" by blast
      have "cols ! k \<in> set cols" using k by simp
      with cols c(1) have "input_ok E n d c (ins ! (cols ! k))" by force
      from placed_holds_rows [OF this wf ok c(3,4,5) range] c(2) show ?thesis by auto
    qed
    then have outs: "outputs_at E d' (map unat sel) ins cols i rout'" by (simp add: outputs_at_def)
    have "cells d' q = cells d q \<and> (q \<noteq> p \<longrightarrow> row_ids out \<noteq> q)"
      if q: "q \<in> dom (cells d)" "q \<notin> row_id_arrays rel cols" and k: "k < length cols" "columns rout' ! (i + k) = Some out" for q k out
    proof -
      have memo: "q \<notin> fst ` set memo'" using dom q(2) by auto
      then have "cells d' q = cells d q" using ok q(1) by (simp add: memo_ok_def)
      moreover have "row_ids out \<noteq> q" if "q \<noteq> p"
      proof -
        from sp k obtain c where "placed cnt p mu memo' c out" by (fastforce simp: slots_placed_def)
        then have "row_ids out = p \<or> (row_ids c, row_ids out) \<in> set memo'" by (auto simp: placed_def split: if_splits)
        then show ?thesis using that ok q(1) memo unfolding memo_ok_def by fastforce
      qed
      ultimately show ?thesis by simp
    qed
    moreover have "cells d' q = cells d q" if "q \<in> dom (cells d)" "q \<notin> row_id_arrays rel cols" for q
    proof -
      have "q \<notin> fst ` set memo'" using dom that(2) by auto
      with ok that(1) show ?thesis by (simp add: memo_ok_def)
    qed
    ultimately have "apart_from d d' (row_id_arrays rel cols) p i (length cols) rout'"
      unfolding apart_from_def by blast
    moreover have "dev_wf (ee_rmm E) d'" using ok by (simp add: memo_ok_def)
    ultimately show ?thesis using r outs same len by (simp add: same_elsewhere_def)
  qed simp_all
qed

lemma HandleMaterializeRowIDs_holds:
  assumes wf: "dev_wf (ee_rmm E) d" and ids: "cells d p = Some (RowIds sel)" "p \<noteq> nullptr" and cnt: "unat cnt = length sel"
    and range: "\<forall>j \<in> set sel. unat j < n" and n: "0 < n" and len: "length (columns rel) = length ins"
    and cols: "\<forall>k < length ins. \<exists>c. columns rel ! k = Some c \<and> input_ok E n d c (ins ! k) \<and> row_ids c \<noteq> p"
    and slots: "length (columns rout) = length ins"
    and m: "HandleMaterializeRowIDs (ee_duckdb E) (ee_rmm E) rel rout cnt p True d = (r, d')"
  shows "r = Inl BadAlloc \<or> (\<exists>msg. r = Inl (InternalException msg)) \<or>
    (\<exists>rout'. r = Inr rout' \<and> outputs_hold E d' (map unat sel) ins rout')"
proof -
  let ?cols = "[0..<length (columns rel)]"
  note m = m [unfolded HandleMaterializeRowIDs_def]
  have "\<forall>col \<in> set ?cols. \<exists>c. column_at rel col = Inr c \<and> input_ok E n d c (ins ! col) \<and> row_ids c \<noteq> p"
    using cols len by (auto simp: column_at_Inr_iff)
  moreover have "0 + length ?cols \<le> length (columns rout)" using slots len by simp
  moreover have "unat cnt \<le> length sel" "sel = take (unat cnt) sel" using cnt by simp_all
  ultimately have "r = Inl BadAlloc \<or> (\<exists>msg. r = Inl (InternalException msg)) \<or>
    (\<exists>rout'. r = Inr rout' \<and> outputs_at E d' (map unat sel) ins ?cols 0 rout')"
    using relocate_loop_holds [OF wf ids _ _ range n _ _ m] by blast
  then show ?thesis using len by (auto simp: outputs_at_def outputs_hold_def)
qed

section \<open>The filter\<close>

definition condition_holds ::
  "('d, 'v) exec_env \<Rightarrow> 'v row_ops \<Rightarrow> (cudf_data_type \<times> 'v list \<times> bool list) list \<Rightarrow> 'd Expression \<Rightarrow> nat \<Rightarrow> bool" where
  "condition_holds E R ins e i = (case row_value E R (map fst ins) (input_row ins i) e of
     None \<Rightarrow> False | Some x \<Rightarrow> op_true R x)"

lemma selected_rows_flags:
  assumes "length data = n" and n: "n < 2 ^ 64"
  shows "map unat (selected_rows truth data) = filter (\<lambda>i. truth (data ! i)) [0..<n]"
proof -
  have "map unat (map (of_nat :: nat \<Rightarrow> u64) (filter P [0..<n])) = filter P [0..<n]" for P
    using n by (auto simp: comp_def unat_of_nat intro!: map_idI)
  then show ?thesis using assms(1) by (simp add: selected_rows_def)
qed

text \<open>Where the condition is not NULL, the data under the validity bit decides as the condition does.\<close>

lemma flag_condition:
  assumes c: "column_is c t n f" and i: "i < n" and "f i \<noteq> None"
  shows "truth (cc_data c ! i) = (case f i of None \<Rightarrow> False | Some x \<Rightarrow> truth x)"
proof -
  have len: "length (cc_data c) = n" "length (cc_mask c) = n" using c by (simp_all add: column_is_def)
  have "cells_of c ! i = f i" using c i by (simp add: column_is_def)
  moreover have "cells_of c ! i = (if cc_mask c ! i then Some (cc_data c ! i) else None)"
    using i len by (simp add: cells_of_def)
  ultimately show ?thesis using assms(3) by (auto split: if_splits)
qed

lemma skip_execution_full:
  "input_count s \<noteq> 0 \<Longrightarrow> \<not> has_null_input_column s \<Longrightarrow> skip_execution e s = (Inr False, s)"
  by (simp add: skip_execution_def act_basic)

lemma row_ids_known: "input_ok E n d c inp \<Longrightarrow> row_ids c \<noteq> nullptr \<Longrightarrow> row_ids c \<in> dom (cells d)"
  by (fastforce dest: input_rows simp: column_row_list_def split: option.splits darray.splits if_splits)

lemma Select_flags:
  assumes lib: "cudf_documented (ee_cudf E) R" and truth: "element_true (ee_cudf E) = op_true R"
    and rel: "relation_ok E n ins d rin" and slots: "length (columns rout) = length ins"
    and ty: "expression_type E R (map fst ins) e = Some bool8" and st: "InitializeState (ee_duckdb E) e = Inr st"
    and m: "Select E e rin rout (idle_executor d) = (r, s')"
  shows "r = Inl BadAlloc \<or> (\<exists>msg. r = Inl (InternalException msg)) \<or>
    (\<exists>rout' bitmap s1. r = Inr rout' \<and> Execute_expr E e st
        \<lparr>exec_dev = d, input_columns = columns rin, input_count = int n, has_null_input_column = False\<rparr> = (Inr bitmap, s1) \<and>
       column_is bitmap bool8 n (\<lambda>i. row_value E R (map fst ins) (input_row ins i) e) \<and>
       outputs_hold E (exec_dev s') (filter (\<lambda>i. op_true R (cc_data bitmap ! i)) [0..<n]) ins rout')"
proof -
  let ?s = "\<lparr>exec_dev = d, input_columns = columns rin, input_count = int n, has_null_input_column = False\<rparr>"
  let ?f = "\<lambda>i. row_value E R (map fst ins) (input_row ins i) e"
  have n: "0 < n" "int n \<le> INT32_MAX" using rel by (simp_all add: relation_ok_def)
  then have n64: "n < 2 ^ 64" by (simp add: INT32_MAX_def)
  have skip: "skip_execution e ?s = (Inr False, ?s)" using n by (simp add: skip_execution_full)
  obtain r1 s1 where ex: "Execute_expr E e st ?s = (r1, s1)" by (cases "Execute_expr E e st ?s")
  have start: "Select E e rin rout (idle_executor d) = act_bind (Execute_expr E e st) (\<lambda>bitmap.
            act_bind (on_device (DispatchSelect E bitmap)) (\<lambda>(row_ids, cnt).
            act_reads (relation_now rin) (\<lambda>rel.
            on_device (HandleMaterializeRowIDs (ee_duckdb E) (ee_rmm E) rel rout cnt row_ids True)))) ?s"
    by (simp add: Select_def act_bind_def act_basic st SetInputColumns_ok [OF rel] skip)
  from Execute_expr_rows [OF lib ty st, of n, unfolded delivers_def, rule_format, OF started_executor_ok [OF rel] ex]
  show ?thesis
  proof (elim disjE exE conjE)
    assume "r1 = Inl BadAlloc"
    with m start ex show ?thesis by (simp add: act_bind_def)
  next
    fix bitmap assume bm: "r1 = Inr bitmap" "column_is bitmap bool8 n ?f" and ok: "executor_ok E n ins s1"
    let ?sel = "selected_rows (op_true R) (cc_data bitmap)"
    have wf: "dev_wf (ee_rmm E) (exec_dev s1)" using ok by (simp add: executor_ok_def)
    obtain r2 d2 where ds: "DispatchSelect E bitmap (exec_dev s1) = (r2, d2)" by (cases "DispatchSelect E bitmap (exec_dev s1)")
    have "length (cc_data bitmap) < 2 ^ 64" using bm(2) n64 by (simp add: column_is_def)
    from DispatchSelect_cases [OF wf ds this, unfolded truth] show ?thesis
    proof (elim disjE exE conjE)
      assume "r2 = Inl BadAlloc"
      with m start ex bm(1) ds show ?thesis by (simp add: act_bind_def on_device_def)
    next
      fix p cnt assume p: "r2 = Inr (p, cnt)" "unat cnt = length ?sel" "p \<noteq> nullptr" "p \<notin> dom (cells (exec_dev s1))"
        "device_extends (ee_rmm E) (exec_dev s1) d2" "cells d2 p = Some (RowIds ?sel)"
      let ?rel = "relation_now rin (s1\<lparr>exec_dev := d2\<rparr>)"
      obtain r3 d3 where hm: "HandleMaterializeRowIDs (ee_duckdb E) (ee_rmm E) ?rel rout cnt p True d2 = (r3, d3)"
        by (cases "HandleMaterializeRowIDs (ee_duckdb E) (ee_rmm E) ?rel rout cnt p True d2")
      have rs: "r = r3" "exec_dev s' = d3"
        using m start ex bm(1) ds p(1) hm by (auto simp: act_bind_def act_basic on_device_def)
      have kept: "map unat ?sel = filter (\<lambda>i. op_true R (cc_data bitmap ! i)) [0..<n]"
        using bm(2) n64 by (intro selected_rows_flags) (simp_all add: column_is_def)
      have "set (map unat ?sel) \<subseteq> {0..<n}" unfolding kept by auto
      then have range: "\<forall>j \<in> set ?sel. unat j < n" by auto
      have cols: "\<forall>k < length ins. \<exists>c. columns ?rel ! k = Some c \<and> input_ok E n d2 c (ins ! k) \<and> row_ids c \<noteq> p"
      proof (intro allI impI)
        fix k assume k: "k < length ins"
        with ok obtain c where c: "input_columns s1 ! k = Some c" "input_ok E n (exec_dev s1) c (ins ! k)"
          unfolding executor_ok_def by blast
        have "row_ids c \<noteq> p" using row_ids_known [OF c(2)] p(3,4) by auto
        with c input_ok_mono [OF p(5) c(2)] show "\<exists>c. columns ?rel ! k = Some c \<and> input_ok E n d2 c (ins ! k) \<and> row_ids c \<noteq> p"
          by (simp add: relation_now_def)
      qed
      have wf2: "dev_wf (ee_rmm E) d2" using p(5) by (simp add: device_extends_def)
      have len: "length (columns ?rel) = length ins" using ok by (simp add: relation_now_def executor_ok_def)
      from HandleMaterializeRowIDs_holds [OF wf2 p(6,3,2) range n(1) len cols slots hm] show ?thesis
        using ex bm unfolding rs kept by blast
    qed
  qed
qed

lemma Select_rows:
  assumes "cudf_documented (ee_cudf E) R" and "element_true (ee_cudf E) = op_true R"
    and "relation_ok E n ins d rin" and "length (columns rout) = length ins"
    and "expression_type E R (map fst ins) e = Some bool8" and "InitializeState (ee_duckdb E) e = Inr st"
    and none: "\<forall>i < n. row_value E R (map fst ins) (input_row ins i) e \<noteq> None"
    and "Select E e rin rout (idle_executor d) = (r, s')"
  shows "r = Inl BadAlloc \<or> (\<exists>msg. r = Inl (InternalException msg)) \<or>
    (\<exists>rout'. r = Inr rout' \<and> outputs_hold E (exec_dev s') (filter (condition_holds E R ins e) [0..<n]) ins rout')"
proof -
  have "filter (\<lambda>i. op_true R (cc_data b ! i)) [0..<n] = filter (condition_holds E R ins e) [0..<n]"
    if "column_is b bool8 n (\<lambda>i. row_value E R (map fst ins) (input_row ins i) e)" for b
    using flag_condition [OF that] none by (intro filter_cong) (auto simp: condition_holds_def)
  with Select_flags [OF assms(1-6,8)] show ?thesis by metis
qed

end
