(* ===== verification/Mini_Cudf.thy ===== *)
theory Mini_Cudf
  imports Row_Semantics
begin

text \<open>
  A small library of integer columns that behaves as cuDF documents: it shows that
  \<open>cudf_documented\<close> can hold, and the witnesses of the executor's properties run on it.  Like cuDF it
  computes an operation on whatever data a row has and combines the validity bits separately.
\<close>

definition mini_binary :: "binary_operator \<Rightarrow> int \<Rightarrow> int \<Rightarrow> int" where
  "mini_binary op a b = (case op of
     ADD \<Rightarrow> a + b | SUB \<Rightarrow> a - b | MUL \<Rightarrow> a * b | DIV \<Rightarrow> a div b | MOD \<Rightarrow> a mod b
   | EQUAL \<Rightarrow> of_bool (a = b) | NOT_EQUAL \<Rightarrow> of_bool (a \<noteq> b) | LESS \<Rightarrow> of_bool (a < b)
   | GREATER \<Rightarrow> of_bool (a > b) | LESS_EQUAL \<Rightarrow> of_bool (a \<le> b) | GREATER_EQUAL \<Rightarrow> of_bool (a \<ge> b)
   | LOGICAL_AND \<Rightarrow> of_bool (a \<noteq> 0 \<and> b \<noteq> 0) | LOGICAL_OR \<Rightarrow> of_bool (a \<noteq> 0 \<or> b \<noteq> 0))"

definition mini_map2 ::
  "(int \<Rightarrow> int \<Rightarrow> int) \<Rightarrow> cudf_data_type \<Rightarrow> int cudf_column \<Rightarrow> int cudf_column \<Rightarrow> int cudf_column res" where
  "mini_map2 f t a b =
     (if length (cc_data a) = length (cc_data b)
      then Inr \<lparr>cc_type = t, cc_data = map2 f (cc_data a) (cc_data b), cc_mask = map2 (\<and>) (cc_mask a) (cc_mask b)\<rparr>
      else Inl (InternalException ''Column sizes do not match''))"

definition mini_map :: "(int \<Rightarrow> int) \<Rightarrow> cudf_data_type \<Rightarrow> int cudf_column \<Rightarrow> int cudf_column" where
  "mini_map f t c = \<lparr>cc_type = t, cc_data = map f (cc_data c), cc_mask = cc_mask c\<rparr>"

definition mini_scalar :: "int cudf_scalar \<Rightarrow> int" where
  "mini_scalar sc = (case sc of NumericScalar t v \<Rightarrow> v | FixedPointScalar t rep \<Rightarrow> rep | StringScalar s \<Rightarrow> int (length s))"

definition unsupported :: "'a res" where
  "unsupported = Inl (NotImplementedException ''not an operation of integer columns'')"

definition mini_cudf :: "int cudf" where
  "mini_cudf = \<lparr>
     cudf_binary_operation = (\<lambda>l r op t. mini_map2 (mini_binary op) t l r),
     cudf_binary_operation_lhs = (\<lambda>sc r op t. Inr (mini_map (\<lambda>x. mini_binary op (mini_scalar sc) x) t r)),
     cudf_binary_operation_rhs = (\<lambda>l sc op t. Inr (mini_map (\<lambda>x. mini_binary op x (mini_scalar sc)) t l)),
     cudf_unary_not = (\<lambda>c. Inr (mini_map (\<lambda>x. of_bool (x = 0)) (cc_type c) c)),
     cudf_is_null = (\<lambda>c. Inr \<lparr>cc_type = bool8, cc_data = map (\<lambda>b. of_bool (\<not> b)) (cc_mask c),
                              cc_mask = map (\<lambda>_. True) (cc_mask c)\<rparr>),
     cudf_cast = (\<lambda>c t. Inr (mini_map (\<lambda>x. x) t c)),
     cudf_contains = (\<lambda>hay c. Inr (mini_map (\<lambda>x. of_bool (x \<in> set (cc_data hay))) bool8 c)),
     cudf_copy_if_else = (\<lambda>a b m.
       if length (cc_data a) = length (cc_data m) \<and> length (cc_data b) = length (cc_data m)
       then (let pick = map2 (\<lambda>x v. x \<noteq> 0 \<and> v) (cc_data m) (cc_mask m) in
         Inr \<lparr>cc_type = cc_type a,
              cc_data = map2 (\<lambda>p (x, y). if p then x else y) pick (zip (cc_data a) (cc_data b)),
              cc_mask = map2 (\<lambda>p (x, y). if p then x else y) pick (zip (cc_mask a) (cc_mask b))\<rparr>)
       else Inl (InternalException ''Column sizes do not match'')),
     cudf_reduce_any = (\<lambda>c. Inr (list_ex (\<lambda>(x, b). b \<and> x \<noteq> 0) (zip (cc_data c) (cc_mask c)))),
     cudf_make_column_from_scalar = (\<lambda>sc n. Inr \<lparr>cc_type = scalar_type sc,
       cc_data = replicate (nat n) (mini_scalar sc), cc_mask = replicate (nat n) True\<rparr>),
     cudf_extract_datetime_component = (\<lambda>c k. unsupported),
     cudf_floor_datetimes = (\<lambda>c f. unsupported),
     cudf_count_bytes = (\<lambda>c. unsupported),
     cudf_count_characters = (\<lambda>c. unsupported),
     cudf_ends_with = (\<lambda>c s. unsupported),
     cudf_starts_with = (\<lambda>c s. unsupported),
     cudf_strings_contains = (\<lambda>c s. unsupported),
     cudf_like = (\<lambda>c p esc. unsupported),
     cudf_slice_strings = (\<lambda>c i j k. unsupported),
     cudf_replace_with_backrefs = (\<lambda>c p s. unsupported),
     cudf_replace_re = (\<lambda>c ps rs. unsupported),
     element_of_bytes = (\<lambda>bs. int (length bs)),
     bytes_of_element = (\<lambda>x. []),
     element_true = (\<lambda>x. x \<noteq> 0),
     cudf_nullable = (\<lambda>c. True),
     cudf_offsets_int64 = (\<lambda>c. True)\<rparr>"

definition mini_row_ops :: "int row_ops" where
  "mini_row_ops = \<lparr>
     op_binary_ok = (\<lambda>op a b t. True),
     op_binary = (\<lambda>op a b t. mini_binary op),
     op_not = (\<lambda>x. of_bool (x = 0)),
     op_bool = of_bool,
     op_true = (\<lambda>x. x \<noteq> 0),
     op_cast_ok = (\<lambda>a b. True),
     op_cast = (\<lambda>a b x. x),
     op_contains = (\<lambda>t vs x. x \<in> set vs),
     op_scalar = mini_scalar\<rparr>"

section \<open>It behaves as documented\<close>

lemma column_is_nth:
  "column_is c t n f \<longleftrightarrow> length (cc_data c) = n \<and> length (cc_mask c) = n \<and> cc_type c = t \<and>
     (\<forall>i < n. f i = (if cc_mask c ! i then Some (cc_data c ! i) else None))"
  unfolding column_is_def eq_commute [of "cells_of c"]
  by (rule conj_cong [OF refl])+ (simp add: cells_of_def list_eq_iff_nth_eq)

lemma mini_map2_documented:
  "column_is a t1 n f \<Longrightarrow> column_is b t2 n g \<Longrightarrow> returns_column (mini_map2 h t a b) t n (\<lambda>i. lift2 h (f i) (g i))"
  by (simp add: returns_column_def mini_map2_def column_is_nth lift2_def)

lemma mini_map_documented:
  "column_is c t1 n f \<Longrightarrow> returns_column (Inr (mini_map h t c)) t n (\<lambda>i. map_option h (f i))"
  by (simp add: returns_column_def mini_map_def column_is_nth)

lemma mini_copy_if_else_documented:
  assumes "column_is a t n f" and "column_is b t n g" and "column_is m bool8 n h"
  shows "returns_column (cudf_copy_if_else mini_cudf a b m) t n
          (\<lambda>i. if (case h i of None \<Rightarrow> False | Some x \<Rightarrow> x \<noteq> 0) then f i else g i)"
proof -
  have "(case h i of None \<Rightarrow> False | Some x \<Rightarrow> x \<noteq> 0) = (cc_data m ! i \<noteq> 0 \<and> cc_mask m ! i)" if "i < n" for i
    using that assms(3) by (simp add: column_is_nth)
  with assms show ?thesis
    by (simp add: returns_column_def mini_cudf_def Let_def column_is_nth)
qed

lemma mini_cudf_documented: "cudf_documented mini_cudf mini_row_ops"
  unfolding cudf_documented_def
proof (intro conjI)
  show "binary_documented mini_cudf mini_row_ops"
    by (auto simp: binary_documented_def mini_cudf_def mini_row_ops_def binary_cell_def intro: mini_map2_documented)
  have l: "lift2 h (Some x) v = map_option (h x) v" and r: "lift2 h v (Some x) = map_option (\<lambda>y. h y x) v"
    for h :: "int \<Rightarrow> int \<Rightarrow> int" and x v by (cases v; simp add: lift2_def)+
  show "scalars_documented mini_cudf mini_row_ops"
    by (simp add: scalars_documented_def mini_cudf_def mini_row_ops_def binary_cell_def l r mini_map_documented)
       (simp add: returns_column_def column_is_nth)
  show "unary_documented mini_cudf mini_row_ops"
    unfolding unary_documented_def
  proof (intro conjI allI impI)
    fix c :: "int cudf_column" and n f assume "column_is c bool8 n f"
    moreover from this have "cc_type c = bool8" by (simp add: column_is_def)
    ultimately show "returns_column (cudf_unary_not mini_cudf c) bool8 n (\<lambda>i. map_option (op_not mini_row_ops) (f i))"
      by (simp add: mini_cudf_def mini_row_ops_def mini_map_documented)
  next
    fix c :: "int cudf_column" and t n f assume "column_is c t n f"
    then show "returns_column (cudf_is_null mini_cudf c) bool8 n (\<lambda>i. Some (op_bool mini_row_ops (f i = None)))"
      by (simp add: mini_cudf_def mini_row_ops_def returns_column_def column_is_nth)
  next
    fix c :: "int cudf_column" and t t' n f assume "column_is c t n f \<and> op_cast_ok mini_row_ops t t'"
    then show "returns_column (cudf_cast mini_cudf c t') t' n (\<lambda>i. map_option (op_cast mini_row_ops t t') (f i))"
      by (simp add: mini_cudf_def mini_row_ops_def mini_map_documented)
  qed
  show "selects_documented mini_cudf mini_row_ops"
    unfolding selects_documented_def
  proof (intro conjI allI impI)
    fix c :: "int cudf_column" and t vs n f assume "column_is c t n f"
    then show "returns_column (cudf_contains mini_cudf \<lparr>cc_type = t, cc_data = vs, cc_mask = map (\<lambda>_. True) vs\<rparr> c) bool8 n
          (\<lambda>i. map_option (\<lambda>x. op_bool mini_row_ops (op_contains mini_row_ops t vs x)) (f i))"
      by (simp add: mini_cudf_def mini_row_ops_def mini_map_documented)
  next
    fix a b m :: "int cudf_column" and t n f g h
    assume "column_is a t n f \<and> column_is b t n g \<and> column_is m bool8 n h"
    then show "returns_column (cudf_copy_if_else mini_cudf a b m) t n
        (\<lambda>i. if case h i of None \<Rightarrow> False | Some x \<Rightarrow> op_true mini_row_ops x then f i else g i)"
      using mini_copy_if_else_documented [of a t n f b g m h] by (simp add: mini_row_ops_def cong: option.case_cong)
  qed
qed

section \<open>Integer constants\<close>

text \<open>DuckDB integer values: a type and a number.\<close>

definition mini_values :: "(LogicalType \<times> int, int) duckdb_values" where
  "mini_values = \<lparr>value_type = fst, GetValue = (\<lambda>i d. Inr (snd d)), GetValue_string = (\<lambda>d. Inr []),
     GetValue_size_type = (\<lambda>d. Inr (snd d)), GetValue_uint64 = (\<lambda>d. Inr (of_int (snd d))),
     GetValueUnsafe = (\<lambda>i d. Inr (snd d)), GetValueUnsafe_hugeint = (\<lambda>d. Inr (0, of_int (snd d)))\<rparr>"

end
