(* ===== verification/Expression_Properties.thy ===== *)
theory Expression_Properties
  imports Filter_Rows Mini_Cudf
begin

text \<open>
  The properties of the expression executor and of the filter, with witnesses on a small table, and
  what the code does where it departs from SQL.
\<close>

section \<open>A small table\<close>

text \<open>Column \<open>a\<close> is \<open>INT32\<close>, has a validity mask and stands for the rows 2, 0, 3 of the array
  10, 20, 30, 40; column \<open>b\<close> is \<open>INT32\<close> with the rows 7, 8, 9.\<close>

definition int_column :: "ptr \<Rightarrow> ptr \<Rightarrow> ptr \<Rightarrow> u64 \<Rightarrow> u64 \<Rightarrow> GPUColumn" where
  "int_column data vm rows n len = \<lparr>data_wrapper = \<lparr>dw_type = ColumnType C_INT32, dw_data = data, dw_size = len,
     dw_offset = nullptr, dw_num_bytes = 4 * len, dw_is_string_data = False, dw_validity_mask = vm,
     dw_mask_bytes = 64\<rparr>, row_ids = rows, row_id_count = Some n, column_length = len, is_unique = False\<rparr>"

definition table_device :: "bool list \<Rightarrow> int device" where
  "table_device ms = \<lparr>mgr = snd (customCudaMalloc bump_pool 8 3 False small_manager),
     cells = [256 \<mapsto> RowIds [2, 0, 3], 0x20000 \<mapsto> Vals 4 [10, 20, 30, 40], 0x20100 \<mapsto> Bits ms,
              0x20200 \<mapsto> Vals 4 [7, 8, 9]]\<rparr>"

definition table_relation :: GPUIntermediateRelation where
  "table_relation = \<lparr>rel_names = [], column_names = [''a'', ''b''],
     columns = [Some (int_column 0x20000 0x20100 256 3 4), Some (int_column 0x20200 nullptr nullptr 0 3)],
     column_count = 2\<rparr>"

definition mini_env :: "(LogicalType \<times> int, int) exec_env" where
  "mini_env = \<lparr>ee_duckdb = duckdb_documented, ee_rmm = bump_pool, ee_cub = (\<lambda>n. n), ee_cudf = mini_cudf,
     ee_values = mini_values\<rparr>"

definition table_inputs :: "bool \<Rightarrow> (cudf_data_type \<times> int list \<times> bool list) list" where
  "table_inputs valid = [(cudf_data CUDF_INT32, [30, 10, 40], [valid, True, True]),
     (cudf_data CUDF_INT32, [7, 8, 9], [True, True, True])]"

definition num :: "int \<Rightarrow> (LogicalType \<times> int) Expression" where
  "num k = BoundConstant L_INTEGER (L_INTEGER, k)"

definition col_a :: "(LogicalType \<times> int) Expression" where "col_a = BoundReference L_INTEGER 0"
definition col_b :: "(LogicalType \<times> int) Expression" where "col_b = BoundReference L_INTEGER 1"

text \<open>\<open>a > 20 AND a - b < 25\<close>.\<close>

definition condition :: "(LogicalType \<times> int) Expression" where
  "condition = BoundConjunction CONJUNCTION_AND L_BOOLEAN
     [BoundComparison COMPARE_GREATERTHAN L_BOOLEAN col_a (num 20),
      BoundComparison COMPARE_LESSTHAN L_BOOLEAN (BoundFunction ''-'' L_INTEGER [col_a, col_b]) (num 25)]"

definition started :: "int device \<Rightarrow> int gpu_expression_executor" where
  "started d = \<lparr>exec_dev = d, input_columns = columns table_relation, input_count = 3, has_null_input_column = False\<rparr>"

lemma table_device_wf: "dev_wf bump_pool (table_device ms)"
  unfolding table_device_def
proof (rule dev_wf_sample)
  let ?s = "snd (customCudaMalloc bump_pool 8 3 False small_manager)"
  show "pool_wf ?s" "gpuCache ?s = 0x20000" "cpuCache ?s = nullptr"
    by code_simp+
  have "fst ` set (owned ?s) = {256}" "in_cache_region ?s 0x20000" "in_cache_region ?s 0x20100" "in_cache_region ?s 0x20200"
    by code_simp+
  then show "dom [256 \<mapsto> RowIds [2, 0, 3], 0x20000 \<mapsto> Vals 4 [10, 20, 30, 40], 0x20100 \<mapsto> Bits ms,
      0x20200 \<mapsto> Vals 4 [7, 8, 9]] \<subseteq> fst ` set (owned ?s) \<union> {p. p \<noteq> nullptr \<and> in_cache_region ?s p}"
    by auto
qed

lemma env_documented: "cudf_documented (ee_cudf mini_env) mini_row_ops" "element_true (ee_cudf mini_env) = op_true mini_row_ops"
  by (simp_all add: mini_env_def mini_cudf_documented) (simp add: mini_cudf_def mini_row_ops_def)

lemma table_inputs_ok:
  "input_ok mini_env 3 (table_device [True, True, True, True]) (int_column 0x20000 0x20100 256 3 4) (table_inputs True ! 0)"
  "input_ok mini_env 3 (table_device [True, True, True, True]) (int_column 0x20200 nullptr nullptr 0 3) (table_inputs True ! 1)"
  unfolding input_ok_def by code_simp+

lemma table_relation_ok: "relation_ok mini_env 3 (table_inputs True) (table_device [True, True, True, True]) table_relation"
proof -
  have "\<forall>k < length (table_inputs True). \<exists>c. columns table_relation ! k = Some c \<and>
      input_ok mini_env 3 (table_device [True, True, True, True]) c (table_inputs True ! k)"
    using table_inputs_ok by (simp add: table_inputs_def table_relation_def all_less_two)
  then show ?thesis
    using table_device_wf by (simp add: relation_ok_def mini_env_def INT32_MAX_def table_inputs_def table_relation_def)
qed

section \<open>Properties\<close>

text \<open>C11: the executor computes the meaning of an expression row by row.  For every expression with a
  type over the input columns, evaluating it from its state tree runs out of memory or returns a
  column of that type, as long as the input, whose rows are the values of the expression in the
  input rows, NULL where the row semantics is NULL; and the input columns can be read as before.
  Input columns that are gathered on the way have to be ones the buffer manager retains.\<close>

theorem executor_computes_rows:
  assumes "cudf_documented (ee_cudf E) R" and "executor_ok E n ins s"
    and "expression_type E R (map fst ins) e = Some t" and "InitializeState (ee_duckdb E) e = Inr st"
    and "Execute_expr E e st s = (r, s')"
  shows "r = Inl BadAlloc \<or>
    (\<exists>c. r = Inr c \<and> column_is c t n (\<lambda>i. row_value E R (map fst ins) (input_row ins i) e) \<and> executor_ok E n ins s')"
  using Execute_expr_rows [OF assms(1,3,4), of n] assms(2,5) unfolding delivers_def by blast

lemma condition_type: "expression_type mini_env mini_row_ops (map fst (table_inputs True)) condition = Some bool8"
  by code_simp

definition condition_state :: "(LogicalType \<times> int) GpuExpressionState" where
  "condition_state = the_res (InitializeState duckdb_documented condition)"

lemma condition_state: "InitializeState (ee_duckdb mini_env) condition = Inr condition_state"
  by code_simp

lemma condition_values:
  "map (\<lambda>i. row_value mini_env mini_row_ops (map fst (table_inputs True)) (input_row (table_inputs True) i) condition) [0..<3] =
   [Some 1, Some 0, Some 0]"
  by code_simp

theorem executor_computes_rows_witness:
  "\<exists>c s'. Execute_expr mini_env condition condition_state (started (table_device [True, True, True, True])) = (Inr c, s') \<and>
     cells_of c = [Some 1, Some 0, Some 0]"
proof -
  let ?s = "started (table_device [True, True, True, True])"
  obtain r s' where run: "Execute_expr mini_env condition condition_state ?s = (r, s')"
    by (cases "Execute_expr mini_env condition condition_state ?s")
  have "case fst (Execute_expr mini_env condition condition_state ?s) of Inl e \<Rightarrow> False | Inr c \<Rightarrow> True"
    by code_simp
  with run obtain c where c: "r = Inr c" by (cases r) simp_all
  have ok: "executor_ok mini_env 3 (table_inputs True) ?s"
    using started_executor_ok [OF table_relation_ok] by (simp add: started_def)
  from executor_computes_rows [OF env_documented(1) ok condition_type condition_state run] c
  have "cells_of c = map (\<lambda>i. row_value mini_env mini_row_ops (map fst (table_inputs True)) (input_row (table_inputs True) i) condition) [0..<3]"
    by (auto simp: column_is_def)
  with run c condition_values show ?thesis by auto
qed

text \<open>C12: the filter keeps the rows whose condition is true.  Over columns of which none is NULL-pointed,
  and a condition that is not NULL in any row, every output column stands for the values and the
  NULLs of exactly the rows in which the condition holds, in their order, with no value moved.
  The other outcomes are lack of memory and a column type without a size.\<close>

theorem filter_keeps_true_rows:
  assumes "cudf_documented (ee_cudf E) R" and "element_true (ee_cudf E) = op_true R"
    and "relation_ok E n ins d rin" and "length (columns rout) = length ins"
    and "expression_type E R (map fst ins) e = Some bool8" and "InitializeState (ee_duckdb E) e = Inr st"
    and "\<forall>i < n. row_value E R (map fst ins) (input_row ins i) e \<noteq> None"
    and "GPUPhysicalFilter_Execute E e rin rout d = (r, d')"
  shows "r = Inl BadAlloc \<or> (\<exists>msg. r = Inl (InternalException msg)) \<or>
    (\<exists>rout'. r = Inr rout' \<and> outputs_hold E d' (filter (condition_holds E R ins e) [0..<n]) ins rout')"
proof -
  obtain s' where s': "Select E e rin rout (idle_executor d) = (r, s')" "exec_dev s' = d'"
    using assms(8) by (auto simp: GPUPhysicalFilter_Execute_def run_executor_def split: prod.splits)
  from Select_rows [OF assms(1-7) s'(1)] s'(2) show ?thesis by simp
qed

lemma all_less_three: "(\<forall>i < 3. P i) \<longleftrightarrow> P 0 \<and> P 1 \<and> P (2 :: nat)"
  by (auto simp: numeral_3_eq_3 less_Suc_eq numeral_2_eq_2)

theorem filter_keeps_true_rows_witness:
  "\<exists>rout' d' out. GPUPhysicalFilter_Execute mini_env condition table_relation (GPUIntermediateRelation_new 2)
       (table_device [True, True, True, True]) = (Inr rout', d') \<and>
     columns rout' ! 0 = Some out \<and> values_of duckdb_documented d' out = Some [30]"
proof -
  let ?d = "table_device [True, True, True, True]"
  let ?run = "GPUPhysicalFilter_Execute mini_env condition table_relation (GPUIntermediateRelation_new 2) ?d"
  obtain r d' where run: "?run = (r, d')" by (cases ?run)
  have "case fst ?run of Inl e \<Rightarrow> False | Inr c \<Rightarrow> True" by code_simp
  with run obtain rout' where r: "r = Inr rout'" by (cases r) simp_all
  have slots: "length (columns (GPUIntermediateRelation_new 2)) = length (table_inputs True)"
    by (simp add: GPUIntermediateRelation_new_def table_inputs_def)
  have valid: "\<forall>i < 3. row_value mini_env mini_row_ops (map fst (table_inputs True)) (input_row (table_inputs True) i) condition \<noteq> None"
    unfolding all_less_three using condition_values by (simp add: upt_rec_numeral upt_conv_Cons numeral_2_eq_2)
  have kept: "filter (condition_holds mini_env mini_row_ops (table_inputs True) condition) [0..<3] = [0]"
    by code_simp
  from filter_keeps_true_rows [OF env_documented table_relation_ok slots condition_type condition_state valid run]
  have "outputs_hold mini_env d' [0] (table_inputs True) rout'" unfolding kept r by simp
  then have "\<exists>out. columns rout' ! 0 = Some out \<and> values_of duckdb_documented d' out = Some [30]"
    unfolding outputs_hold_def by (auto simp: table_inputs_def holds_rows_def mini_env_def)
  with run r show ?thesis by auto
qed

text \<open>C28: the state tree mirrors the expression and records the children's types.  \<open>InitializeState\<close> gives
  a state with one child state for every child expression, in order, each the state of its
  expression, and with the cuDF type of each child's return type; so no access to \<open>child_states\<close>
  misses, in a CASE too, whose checks take two children each.\<close>

theorem state_tree_mirrors:
  assumes "InitializeState D e = Inr st"
  shows "state_expr st = e \<and> states_for D (children_of e) (child_states st) \<and>
    list_all2 (\<lambda>c t. GetCudfType D (return_type c) = Inr t) (children_of e) (child_types st)"
  using InitializeState_states [OF assms] InitializeState_types [OF assms] by simp

theorem state_tree_mirrors_witness:
  "length (child_states condition_state) = 2 \<and> child_types condition_state = [bool8, bool8]"
proof -
  from state_tree_mirrors [OF condition_state]
  have "states_for duckdb_documented (children_of condition) (child_states condition_state)"
    "list_all2 (\<lambda>c t. GetCudfType duckdb_documented (return_type c) = Inr t) (children_of condition) (child_types condition_state)"
    by (simp_all add: mini_env_def)
  then show ?thesis
    by (auto simp: condition_def states_for_def list_all2_Cons1 GetCudfType_def)
qed

section \<open>Departures from SQL\<close>

lemma execute_in_constants:
  "list_all is_constant (tl children) \<Longrightarrow>
   execute_in E negated ret children calls st = execute_in E negated' ret children calls st"
  by (simp add: execute_in_def cong: if_cong)

text \<open>C25: \<open>NOT IN\<close> over a constant list is evaluated as \<open>IN\<close>.  Whatever the libraries do, an expression
  \<open>x NOT IN (c1, ..., cn)\<close> runs exactly as \<open>x IN (c1, ..., cn)\<close> does: the path for constant lists
  returns before the negation.\<close>

theorem not_in_constants_is_in:
  assumes "list_all is_constant (tl children)"
  shows "Execute_expr E (BoundOperator COMPARE_NOT_IN t children) st s =
    Execute_expr E (BoundOperator COMPARE_IN t children) st s"
  by (simp add: Execute_expr.simps Execute_class_def Execute_Operator_def
      execute_in_constants [OF assms, of E True _ _ _ False])

theorem not_in_constants_is_in_witness:
  "\<exists>c s'. Execute_expr mini_env (BoundOperator COMPARE_NOT_IN L_BOOLEAN [col_b, num 7])
       (the_res (InitializeState duckdb_documented (BoundOperator COMPARE_NOT_IN L_BOOLEAN [col_b, num 7])))
       (started (table_device [True, True, True, True])) = (Inr c, s') \<and> cells_of c = [Some 1, Some 0, Some 0]"
proof -
  define st where "st = the_res (InitializeState duckdb_documented (BoundOperator COMPARE_NOT_IN L_BOOLEAN [col_b, num 7]))"
  define s where "s = started (table_device [True, True, True, True])"
  have v: "case fst (Execute_expr mini_env (BoundOperator COMPARE_IN L_BOOLEAN [col_b, num 7]) st s) of
      Inl e \<Rightarrow> False | Inr c \<Rightarrow> cells_of c = [Some 1, Some 0, Some 0]"
    unfolding st_def s_def by code_simp
  have "list_all is_constant (tl [col_b, num 7])" by (simp add: num_def is_constant_def)
  from not_in_constants_is_in [OF this, of mini_env L_BOOLEAN st s] v show ?thesis
    unfolding st_def [symmetric] s_def [symmetric]
    by (cases "Execute_expr mini_env (BoundOperator COMPARE_IN L_BOOLEAN [col_b, num 7]) st s") (auto split: sum.splits)
qed

text \<open>The inclusive flags of a BETWEEN play no part: \<open>1 < x AND x < 5\<close>, when DuckDB writes it as a
  BETWEEN that excludes its bounds, keeps the rows with 1 and 5.\<close>

lemma between_ignores_inclusive:
  "Execute_class E (BoundBetween t input lower upper li ui) calls st = Execute_class E (BoundBetween t input lower upper True True) calls st"
  by (simp add: Execute_class_def)

definition null_condition :: "(LogicalType \<times> int) Expression" where
  "null_condition = BoundComparison COMPARE_GREATERTHAN L_BOOLEAN col_a (num 20)"

text \<open>C26: the filter does not look at NULLs.  Without any condition on NULLs, the rows that it keeps are
  those whose value in the evaluated condition's data makes the condition true, whether or not the
  validity bit says that the condition is NULL there.  (Where it is not NULL, the data is the value of the
  row semantics.  In the witness the condition \<open>a > 20\<close> is NULL in the first row, with 30 under the
  NULL, and that row is kept.)\<close>

theorem filter_ignores_validity:
  assumes "cudf_documented (ee_cudf E) R" and "element_true (ee_cudf E) = op_true R"
    and "relation_ok E n ins d rin" and "length (columns rout) = length ins"
    and "expression_type E R (map fst ins) e = Some bool8" and "InitializeState (ee_duckdb E) e = Inr st"
    and "GPUPhysicalFilter_Execute E e rin rout d = (r, d')"
  shows "r = Inl BadAlloc \<or> (\<exists>msg. r = Inl (InternalException msg)) \<or>
    (\<exists>rout' bitmap s1. r = Inr rout' \<and> Execute_expr E e st
        \<lparr>exec_dev = d, input_columns = columns rin, input_count = int n, has_null_input_column = False\<rparr> = (Inr bitmap, s1) \<and>
       column_is bitmap bool8 n (\<lambda>i. row_value E R (map fst ins) (input_row ins i) e) \<and>
       outputs_hold E d' (filter (\<lambda>i. op_true R (cc_data bitmap ! i)) [0..<n]) ins rout')"
proof -
  obtain s' where s': "Select E e rin rout (idle_executor d) = (r, s')" "exec_dev s' = d'"
    using assms(7) by (auto simp: GPUPhysicalFilter_Execute_def run_executor_def split: prod.splits)
  from Select_flags [OF assms(1-6) s'(1)] s'(2) show ?thesis by simp
qed

lemma null_relation_ok: "relation_ok mini_env 3 (table_inputs False) (table_device [True, True, False, True]) table_relation"
proof -
  have "input_ok mini_env 3 (table_device [True, True, False, True]) (int_column 0x20000 0x20100 256 3 4) (table_inputs False ! 0)"
    "input_ok mini_env 3 (table_device [True, True, False, True]) (int_column 0x20200 nullptr nullptr 0 3) (table_inputs False ! 1)"
    unfolding input_ok_def by code_simp+
  then have "\<forall>k < length (table_inputs False). \<exists>c. columns table_relation ! k = Some c \<and>
      input_ok mini_env 3 (table_device [True, True, False, True]) c (table_inputs False ! k)"
    by (simp add: table_inputs_def table_relation_def all_less_two)
  then show ?thesis
    using table_device_wf by (simp add: relation_ok_def mini_env_def INT32_MAX_def table_inputs_def table_relation_def)
qed

definition null_state :: "(LogicalType \<times> int) GpuExpressionState" where
  "null_state = the_res (InitializeState duckdb_documented null_condition)"

theorem filter_ignores_validity_witness:
  "row_value mini_env mini_row_ops (map fst (table_inputs False)) (input_row (table_inputs False) 0) null_condition = None \<and>
   (\<exists>rout' d' out. GPUPhysicalFilter_Execute mini_env null_condition table_relation (GPUIntermediateRelation_new 2)
       (table_device [True, True, False, True]) = (Inr rout', d') \<and>
     columns rout' ! 0 = Some out \<and> values_of duckdb_documented d' out = Some [30, 40] \<and>
     validity_of d' out = Some [False, True])"
proof
  let ?d = "table_device [True, True, False, True]"
  let ?run = "GPUPhysicalFilter_Execute mini_env null_condition table_relation (GPUIntermediateRelation_new 2) ?d"
  show "row_value mini_env mini_row_ops (map fst (table_inputs False)) (input_row (table_inputs False) 0) null_condition = None"
    by code_simp
  obtain r d' where run: "?run = (r, d')" by (cases ?run)
  have "case fst ?run of Inl e \<Rightarrow> False | Inr c \<Rightarrow> True" by code_simp
  with run obtain rout' where r: "r = Inr rout'" by (cases r) simp_all
  have ty: "expression_type mini_env mini_row_ops (map fst (table_inputs False)) null_condition = Some bool8"
    and st: "InitializeState (ee_duckdb mini_env) null_condition = Inr null_state" by code_simp+
  have slots: "length (columns (GPUIntermediateRelation_new 2)) = length (table_inputs False)"
    by (simp add: GPUIntermediateRelation_new_def table_inputs_def)
  have "case fst (Execute_expr mini_env null_condition null_state (started ?d)) of Inl e \<Rightarrow> False | Inr b \<Rightarrow>
      filter (\<lambda>i. op_true mini_row_ops (cc_data b ! i)) [0..<3] = [0, 2]" by code_simp
  with filter_ignores_validity [OF env_documented null_relation_ok slots ty st run]
  have "outputs_hold mini_env d' [0, 2] (table_inputs False) rout'"
    unfolding r started_def by auto
  then show "\<exists>rout' d' out. ?run = (Inr rout', d') \<and> columns rout' ! 0 = Some out \<and>
      values_of duckdb_documented d' out = Some [30, 40] \<and> validity_of d' out = Some [False, True]"
    using run r unfolding outputs_hold_def by (auto simp: table_inputs_def holds_rows_def mini_env_def)
qed

end
