(* ===== verification/Gathered_Twice.thy ===== *)
theory Gathered_Twice
  imports Expression_Properties
begin

text \<open>
  What a second reference to a gathered column reads.  \<open>HandleMaterializeExpression\<close> frees the array it
  gathered from, while the input column goes on pointing at it (\<open>execute_reference.cpp\<close> drops the gathered
  column after copying it).  \<open>yields\<close> is the triple of a run that returns.
\<close>

section \<open>Runs that return\<close>

definition yields :: "('s \<Rightarrow> bool) \<Rightarrow> ('s, 'a) act \<Rightarrow> ('s \<Rightarrow> bool) \<Rightarrow> bool" where
  "yields P m Q \<longleftrightarrow> (\<forall>s x s'. P s \<longrightarrow> m s = (Inr x, s') \<longrightarrow> Q s')"

lemma yields_bind: "yields P m R \<Longrightarrow> (\<And>x. yields R (k x) Q) \<Longrightarrow> yields P (act_bind m k) Q"
  unfolding yields_def by (blast elim!: act_bind_InrE)

lemma yields_basic:
  "yields P (act_return x) P" "yields P (act_throw e) Q" "yields P (act_lift r) P"
  by (simp_all add: yields_def act_basic)

lemma yields_if: "yields P m Q \<Longrightarrow> yields P m' Q \<Longrightarrow> yields P (if b then m else m') Q"
  by simp

lemma yields_reading:
  "yields P (dev_vals w p) P" "yields P (dev_rows p) P" "yields P (dev_bits p) P"
  "yields P (dev_bytes p) P" "yields P (dev_offsets p) P"
  by (auto simp: yields_def dev_vals_def dev_rows_def dev_bits_def dev_bytes_def dev_offsets_def
      split: option.splits darray.splits if_splits)

lemmas yields_rules = yields_bind yields_basic yields_if yields_reading

section \<open>The array before and after it is freed\<close>

text \<open>A block of the pool that \<open>customCudaFree\<close> gives back, and a block that holds no values.\<close>

definition pool_owned :: "ptr \<Rightarrow> 'v device \<Rightarrow> bool" where
  "pool_owned p d \<longleftrightarrow> pool_wf (mgr d) \<and> p \<in> fst ` set (allocation_table (mgr d)) \<and> \<not> retained (mgr d) p"

definition no_values :: "ptr \<Rightarrow> 'v device \<Rightarrow> bool" where
  "no_values p d \<longleftrightarrow> (\<forall>w xs. cells d p \<noteq> Some (Vals w xs))"

lemma malloc_pool_owned: "rmm_fresh rmm \<Longrightarrow> yields (pool_owned p) (dev_malloc rmm w n) (pool_owned p)"
  unfolding yields_def
proof (intro allI impI)
  fix d :: "'v device" and q d'
  assume fresh: "rmm_fresh rmm" and own: "pool_owned p d" and m: "dev_malloc rmm w n d = (Inr q, d')"
  obtain r s where c: "poolMalloc rmm (aligned_alloc n w) (mgr d) = (r, s)" by fastforce
  have wf: "pool_wf (mgr d)" using own by (simp add: pool_owned_def)
  have "pool_wf s" using keepsD [OF keeps_poolMalloc [OF fresh] wf c] .
  from fresh wf c show "pool_owned p d'"
  proof (cases rule: poolMalloc_cases)
    case refused
    with m c show ?thesis by (simp add: dev_malloc_def customCudaMalloc_def Let_def)
  next
    case (granted q')
    have "mgr d' = s" using m c granted(2) by (auto simp: dev_malloc_def customCudaMalloc_def Let_def)
    then show ?thesis
      using \<open>pool_wf s\<close> own granted(5) dev_malloc_retained [OF m] by (simp add: pool_owned_def)
  qed
qed

lemma write_pool_owned: "yields (pool_owned p) (dev_write q a) (pool_owned p)"
  by (simp add: yields_def dev_write_def act_basic pool_owned_def)

lemma free_pool_owned: "yields (pool_owned p) (dev_free p) (no_values p)"
  unfolding yields_def
proof (intro allI impI)
  fix d :: "'v device" and x d' assume own: "pool_owned p d" and f: "dev_free p d = (Inr x, d')"
  have "customCudaFree p (mgr d) = (Inr (), (mgr d)\<lparr>rmm_live := filter (\<lambda>b. fst b \<noteq> p) (rmm_live (mgr d)),
      allocation_table := filter (\<lambda>b. fst b \<noteq> p) (allocation_table (mgr d))\<rparr>)"
    using own customCudaFree_branches [of "mgr d" p] by (simp add: pool_owned_def retained_def)
  moreover have "p \<notin> fst ` set (filter (\<lambda>b. fst b \<noteq> p) (allocation_table (mgr d)))" by auto
  ultimately have "d' = d\<lparr>mgr := mgr d', cells := (cells d)(p := None)\<rparr>"
    using f own unfolding dev_free_def pool_owned_def by (auto simp del: set_filter)
  then have "cells d' = (cells d)(p := None)" by (rule ssubst [where P = "\<lambda>x. cells x = (cells d)(p := None)"]) simp
  then have "cells d' p = None" by simp
  then show "no_values p d'" by (simp add: no_values_def)
qed

lemma malloc_no_values: "yields (no_values p) (dev_malloc rmm w n) (no_values p)"
  by (auto simp: yields_def dev_malloc_def no_values_def split: prod.splits sum.splits)

lemma free_no_values: "yields (no_values p) (dev_free q) (no_values p)"
  by (auto simp: yields_def dev_free_def no_values_def split: prod.splits if_splits)

lemma write_mask_pool_owned: "yields (pool_owned p) (write_mask zs vmask q) (pool_owned p)"
  unfolding write_mask_def by (rule yields_rules write_pool_owned)+

lemma gather_mask_pool_owned: "rmm_fresh rmm \<Longrightarrow> yields (pool_owned p) (gather_mask rmm n vmask) (pool_owned p)"
  unfolding gather_mask_def by (rule yields_rules malloc_pool_owned | assumption)+

lemma gather_mask_no_values: "yields (no_values p) (gather_mask rmm n vmask) (no_values p)"
  unfolding gather_mask_def by (rule yields_rules malloc_no_values)+

lemma free_mask_no_values: "yields (no_values p) (free_mask vmask) (no_values p)"
  unfolding free_mask_def by (rule yields_rules free_no_values)+

lemma createNullMask_no_values: "yields (no_values p) (createNullMask rmm n) (no_values p)"
proof -
  have "yields (no_values p) (dev_write q (Bits bs)) (no_values p)" for q bs
    by (simp add: yields_def dev_write_def act_basic no_values_def)
  note w = this
  show ?thesis unfolding createNullMask_def by (rule yields_rules malloc_no_values w)+
qed

section \<open>Two gathers\<close>

lemma gather_frees:
  assumes "rmm_fresh rmm" and "n \<noteq> 0"
  shows "yields (pool_owned p) (materializeExpression rmm w p ids n vmask) (no_values p)"
  unfolding materializeExpression_def if_not_P [OF assms(2)]
  by (rule yields_bind, (rule assms(1) malloc_pool_owned gather_mask_pool_owned yields_rules write_pool_owned
        write_mask_pool_owned free_pool_owned free_mask_no_values)+)

lemma gather_nothing:
  assumes "n \<noteq> 0"
  shows "yields (no_values p) (materializeExpression rmm w p ids n vmask) (\<lambda>_. False)"
proof -
  have "yields (no_values p) (dev_vals w p) (\<lambda>_. False)"
    by (auto simp: yields_def dev_vals_def no_values_def split: option.splits darray.splits)
  moreover have "yields (\<lambda>_. False) m (\<lambda>_. False)" for m :: "('v device, 'b) act"
    by (simp add: yields_def)
  ultimately show ?thesis
    unfolding materializeExpression_def if_not_P [OF assms]
    by (rule yields_bind [OF malloc_no_values yields_bind [OF gather_mask_no_values yields_bind]])
qed

text \<open>A column of fixed-width values that are gathered through row ids from the array at \<open>p\<close>.\<close>

definition gathers_from :: "ptr \<Rightarrow> GPUColumn \<Rightarrow> bool" where
  "gathers_from p c \<longleftrightarrow> dw_data (data_wrapper c) = p \<and> p \<noteq> nullptr \<and> row_ids c \<noteq> nullptr \<and>
     row_id_count c \<noteq> Some 0 \<and> column_length c \<noteq> 0 \<and> ct_id (dw_type (data_wrapper c)) \<noteq> C_VARCHAR"

lemma Resolve_yields:
  assumes g: "gathers_from p c"
    and m: "\<And>n ids vmask. n \<noteq> 0 \<Longrightarrow> yields P (materializeExpression rmm w p ids n vmask) Q"
  shows "yields P (ResolveTypeMaterializeExpression D rmm w c) Q"
proof (cases "row_id_count c")
  case None
  with g show ?thesis
    by (simp add: ResolveTypeMaterializeExpression_def empty_column_def gathers_from_def yields_def act_bind_def act_basic)
next
  case (Some n)
  with g have n: "n \<noteq> 0" and e: "empty_column c = Inr False" by (auto simp: gathers_from_def empty_column_def)
  have "yields Q (case r of None \<Rightarrow> act_throw e | Some (a, out_mask) \<Rightarrow> act_return (n, a, out_mask)) Q"
    for r :: "(ptr \<times> ptr) option" and e
    by (auto intro: yields_basic split: option.split prod.split)
  note step = yields_bind [OF m [OF n] this]
  have "yields Q (case x of (n, a, out_mask) \<Rightarrow> act_bind (act_lift (GPUColumn_plain D n (dw_type (data_wrapper c)) a out_mask))
      (\<lambda>result. act_return (result\<lparr>is_unique := is_unique c\<rparr>))) Q" for x
    by (cases x) (simp, rule yields_rules, rule yields_rules, rule yields_rules)
  from yields_bind [OF step this] show ?thesis
    using g Some e unfolding gathers_from_def
    by (simp add: ResolveTypeMaterializeExpression_def yields_def act_bind_def act_basic Let_def)
qed

lemma Handle_yields:
  assumes g: "gathers_from p c"
    and m: "\<And>w n ids vmask. n \<noteq> 0 \<Longrightarrow> yields P (materializeExpression rmm w p ids n vmask) Q"
  shows "yields P (HandleMaterializeExpression D rmm cub c) Q"
proof -
  note res = Resolve_yields [OF g m]
  have "yields P (act_bind (act_lift r) (\<lambda>sz. if sz = 4 then ResolveTypeMaterializeExpression D rmm 4 c
       else if sz = 8 then ResolveTypeMaterializeExpression D rmm 8 c
       else if sz = 16 then ResolveTypeMaterializeExpression D rmm 16 c else act_throw e)) Q" for r :: "u64 res" and e
    by (rule yields_bind [OF yields_basic(3)]) (simp add: res yields_basic)
  then show ?thesis
    using g res unfolding HandleMaterializeExpression_def
    by (cases "ct_id (dw_type (data_wrapper c))") (simp_all add: gathers_from_def yields_basic)
qed

lemma on_device_yields:
  "yields P m Q \<Longrightarrow> yields (\<lambda>s. input_columns s = cols \<and> P (exec_dev s)) (on_device m) (\<lambda>s. input_columns s = cols \<and> Q (exec_dev s))"
  by (auto simp: yields_def on_device_def split: prod.splits)

lemma convert_no_values: "yields (no_values p) (convertToCudfColumn D rmm c) (no_values p)"
  unfolding convertToCudfColumn_def by (rule yields_rules createNullMask_no_values)+

lemma copy_no_values: "yields (no_values p) (copy_view L v) (no_values p)"
  unfolding copy_view_def by (rule yields_rules)+

lemma Reference_yields:
  assumes g: "gathers_from p c" and k: "k < length cols" "cols ! k = Some c"
    and m: "\<And>w n ids vmask. n \<noteq> 0 \<Longrightarrow> yields P (materializeExpression (ee_rmm E) w p ids n vmask) Q"
    and Q: "\<And>c. yields Q (convertToCudfColumn (ee_duckdb E) (ee_rmm E) c) Q" "\<And>v. yields Q (copy_view (ee_cudf E) v) Q"
  shows "yields (\<lambda>s. input_columns s = cols \<and> P (exec_dev s)) (Execute_Reference E k) (\<lambda>s. input_columns s = cols \<and> Q (exec_dev s))"
proof (cases "row_id_count c")
  case None
  with g k show ?thesis by (simp add: Execute_Reference_def yields_def act_bind_def act_basic gathers_from_def)
next
  case (Some n)
  have "yields (\<lambda>s. input_columns s = cols \<and> Q (exec_dev s))
    (case x of (out, view) \<Rightarrow> on_device (copy_view (ee_cudf E) view)) (\<lambda>s. input_columns s = cols \<and> Q (exec_dev s))" for x :: "GPUColumn \<times> cudf_view"
    by (cases x) (simp add: on_device_yields Q)
  from yields_bind [OF on_device_yields [OF Handle_yields [OF g m]] yields_bind [OF on_device_yields [OF Q(1)] this]]
  show ?thesis
    using g k Some by (auto simp: Execute_Reference_def yields_def act_bind_def act_basic gathers_from_def)
qed

lemma yields_nothing: "yields (\<lambda>_. False) m (\<lambda>_. False)"
  by (simp add: yields_def)

lemma two_references:
  assumes fresh: "rmm_fresh (ee_rmm E)" and g: "gathers_from p c" and k: "k < length cols" "cols ! k = Some c"
  shows "yields (\<lambda>s. input_columns s = cols \<and> pool_owned p (exec_dev s))
    (act_bind (Execute_Reference E k) (\<lambda>a. act_bind (Execute_Reference E k) (rest a))) (\<lambda>_. False)"
proof -
  note first = Reference_yields [OF g k gather_frees [OF fresh] convert_no_values copy_no_values]
  note second = Reference_yields [OF g k gather_nothing yields_nothing yields_nothing, of E]
  have "yields (\<lambda>s. input_columns s = cols \<and> False) m (\<lambda>_. False)" for m :: "('b gpu_expression_executor, 'd) act"
    by (simp add: yields_def)
  from yields_bind [OF first yields_bind [OF second this]] show ?thesis .
qed

section \<open>Property\<close>

text \<open>C27: a gathered column can be read after it was freed.  When an input column of a fixed-width type is
  gathered through row ids from an array that is a block of the pool, neither locked nor handed over by
  cuDF, then comparing the column with itself never returns a column, whatever the comparison, the types
  and the contents: the first reference frees the array and the second gathers from it.  One reference
  alone does return (the last conjunct of the witness, and the contents property of
  \<open>HandleMaterializeExpression\<close>).\<close>

theorem column_read_after_free:
  assumes "rmm_fresh (ee_rmm E)" and "pool_wf (mgr (exec_dev s))"
    and "k < length (input_columns s)" and "input_columns s ! k = Some c" and "gathers_from p c"
    and "p \<in> fst ` set (allocation_table (mgr (exec_dev s)))" and "\<not> retained (mgr (exec_dev s)) p"
  shows "\<exists>e. fst (Execute_expr E (BoundComparison ty t (BoundReference t1 k) (BoundReference t2 k)) st s) = Inl e"
proof -
  let ?both = "act_bind (Execute_Reference E k) (\<lambda>a. act_bind (Execute_Reference E k) act_return)"
  have never: "\<not> (Execute_Reference E k s = (Inr a, s1) \<and> Execute_Reference E k s1 = (Inr b, s2))" for a s1 b s2
  proof
    assume "Execute_Reference E k s = (Inr a, s1) \<and> Execute_Reference E k s1 = (Inr b, s2)"
    then have "?both s = (Inr b, s2)" by (simp add: act_bind_def act_basic)
    with two_references [OF assms(1,5,3,4), of "\<lambda>_. act_return"] assms(2,6,7) show False
      unfolding yields_def pool_owned_def by blast
  qed
  have "\<nexists>x s'. Execute_expr E (BoundComparison ty t (BoundReference t1 k) (BoundReference t2 k)) st s = (Inr x, s')"
    using never
    by (auto simp: Execute_expr.simps Execute_class_def Execute_Comparison_def exec_child_def exec_at_def vec_at_def
        act_bind_def act_basic split: prod.splits sum.splits if_splits)
  then show ?thesis
    by (cases "Execute_expr E (BoundComparison ty t (BoundReference t1 k) (BoundReference t2 k)) st s") (metis fst_conv sum.exhaust)
qed

definition pool_device :: "int device" where
  "pool_device = \<lparr>mgr = snd (customCudaMalloc bump_pool 8 3 False (snd (customCudaMalloc bump_pool 4 4 False small_manager))),
     cells = [256 \<mapsto> Vals 4 [10, 20, 30, 40], 512 \<mapsto> RowIds [2, 0, 3]]\<rparr>"

definition pool_executor :: "int gpu_expression_executor" where
  "pool_executor = \<lparr>exec_dev = pool_device, input_columns = [Some (int_column 256 nullptr 512 3 4)], input_count = 3,
     has_null_input_column = False\<rparr>"

definition same_state :: "(LogicalType \<times> int) GpuExpressionState" where
  "same_state = the_res (InitializeState duckdb_documented (BoundComparison COMPARE_EQUAL L_BOOLEAN col_a col_a))"

theorem column_read_after_free_witness:
  "(\<exists>e. fst (Execute_expr mini_env (BoundComparison COMPARE_EQUAL L_BOOLEAN col_a col_a) same_state pool_executor) = Inl e) \<and>
   readable duckdb_documented pool_device (int_column 256 nullptr 512 3 4) [30, 10, 40] [True, True, True] \<and>
   (case fst (Execute_Reference mini_env 0 pool_executor) of Inl e \<Rightarrow> False | Inr b \<Rightarrow> cc_data b = [30, 10, 40])"
proof (intro conjI)
  have "pool_wf (mgr (exec_dev pool_executor))" "256 \<in> fst ` set (allocation_table (mgr (exec_dev pool_executor)))"
    "\<not> retained (mgr (exec_dev pool_executor)) 256"
    by code_simp+
  moreover have "gathers_from 256 (int_column 256 nullptr 512 3 4)"
    by (simp add: gathers_from_def int_column_def ColumnType_def)
  moreover have "rmm_fresh (ee_rmm mini_env)" by (simp add: mini_env_def bump_pool_fresh)
  ultimately show "\<exists>e. fst (Execute_expr mini_env (BoundComparison COMPARE_EQUAL L_BOOLEAN col_a col_a) same_state pool_executor) = Inl e"
    unfolding col_a_def by (intro column_read_after_free [where p = 256 and c = "int_column 256 nullptr 512 3 4"])
      (simp_all add: pool_executor_def)
  show "readable duckdb_documented pool_device (int_column 256 nullptr 512 3 4) [30, 10, 40] [True, True, True]"
    by code_simp
  show "case fst (Execute_Reference mini_env 0 pool_executor) of Inl e \<Rightarrow> False | Inr b \<Rightarrow> cc_data b = [30, 10, 40]"
    by code_simp
qed

end
