(* ===== verification/Join_Kernels.thy ===== *)
theory Join_Kernels
  imports Hash_Single Device_Frames
begin

text \<open>
  The host functions around the hash join kernels, on device memory
  (\<open>src/src/cuda/operator/hash_join_inner.cu\<close>, \<open>hash_join_right.cu\<close>, \<open>hash_join_single.cu\<close>): what they
  allocate, what they launch, what they free.  What a launch leaves behind is described by the relations
  of Hash_Table, Hash_Probe and Hash_Single; which of the possible outcomes a launch has is chosen by the
  GPU, so the choice is a parameter (\<open>join_kernels\<close>), one function per host function.
\<close>

section \<open>Launches\<close>

text \<open>A launch ends in one of its outcomes; it hangs when it has none.\<close>

locale launch =
  fixes outcome :: "'i \<Rightarrow> 'o \<Rightarrow> bool"
    and run :: "'i \<Rightarrow> 'o option"
  assumes run_Some: "run i = Some x \<Longrightarrow> outcome i x"
    and run_None: "run i = None \<Longrightarrow> \<not> outcome i x"
begin

lemma run_ends: "outcome i x \<Longrightarrow> \<exists>y. run i = Some y \<and> outcome i y"
  using run_Some run_None by (cases "run i") blast+

lemma run_hangs: "(\<And>x. \<not> outcome i x) \<Longrightarrow> run i = None"
  using run_Some by (cases "run i") blast+

end

definition some_outcome :: "('i \<Rightarrow> 'o \<Rightarrow> bool) \<Rightarrow> 'i \<Rightarrow> 'o option" where
  "some_outcome outcome i = (if \<exists>x. outcome i x then Some (SOME x. outcome i x) else None)"

interpretation any_launch: launch outcome "some_outcome outcome" for outcome :: "'i \<Rightarrow> 'o \<Rightarrow> bool"
  by unfold_locales (auto simp: some_outcome_def intro: someI split: if_splits)

type_synonym probe_result = "u64 list \<times> u64 list \<times> u64 \<times> u64 list"

text \<open>The inputs of the launches: the table, the modes, the probe keys and their number, the table's words.
  \<open>key_value\<close> reads an element as the key type \<open>T\<close>, \<open>byte_value\<close> a byte as an element.\<close>

record 'v join_kernels =
  k_build :: "table \<times> nat \<Rightarrow> u64 list option"
  k_probe :: "table \<times> nat list \<times> int list list \<times> nat \<times> u64 list \<Rightarrow> probe_result option"
  k_single :: "nat \<times> table \<times> nat list \<times> int list list \<times> nat \<times> u64 list \<Rightarrow> probe_result option"
  k_right :: "table \<times> nat list \<times> int list list \<times> nat \<times> u64 list \<Rightarrow> u64 list option"
  k_right_single :: "table \<times> nat list \<times> int list list \<times> nat \<times> u64 list \<Rightarrow> u64 list option"
  k_mark :: "table \<times> nat list \<times> int list list \<times> nat \<times> u64 list \<Rightarrow> 8 word list option"
  k_scan :: "nat \<times> table \<times> u64 list \<Rightarrow> (u64 list \<times> u64) option"
  key_value :: "'v \<Rightarrow> int"
  byte_value :: "8 word \<Rightarrow> 'v"

definition build_outcome :: "table \<times> nat \<Rightarrow> u64 list \<Rightarrow> bool" where
  "build_outcome = (\<lambda>(T, N) ht. buildHashTable T N [] ht)"

definition probe_outcome ::
  "table \<times> nat list \<times> int list list \<times> nat \<times> u64 list \<Rightarrow> probe_result \<Rightarrow> bool" where
  "probe_outcome = (\<lambda>(T, cm, keys, N, ht). probeHashTable T cm keys N ht)"

definition single_outcome ::
  "nat \<times> table \<times> nat list \<times> int list list \<times> nat \<times> u64 list \<Rightarrow> probe_result \<Rightarrow> bool" where
  "single_outcome = (\<lambda>(join_mode, T, cm, keys, N, ht). probeHashTableSingleMatch T cm join_mode keys N ht)"

definition right_outcome :: "table \<times> nat list \<times> int list list \<times> nat \<times> u64 list \<Rightarrow> u64 list \<Rightarrow> bool" where
  "right_outcome = (\<lambda>(T, cm, keys, N, ht). probeHashTableRightSemiAnti T cm keys N ht)"

definition right_single_outcome :: "table \<times> nat list \<times> int list list \<times> nat \<times> u64 list \<Rightarrow> u64 list \<Rightarrow> bool" where
  "right_single_outcome = (\<lambda>(T, cm, keys, N, ht). probeHashTableRightSemiAntiSingleMatch T cm keys N ht)"

definition mark_outcome :: "table \<times> nat list \<times> int list list \<times> nat \<times> u64 list \<Rightarrow> 8 word list \<Rightarrow> bool" where
  "mark_outcome = (\<lambda>(T, cm, keys, N, ht). probeHashTableMark T cm keys N ht)"

definition scan_outcome :: "nat \<times> table \<times> u64 list \<Rightarrow> u64 list \<times> u64 \<Rightarrow> bool" where
  "scan_outcome = (\<lambda>(join_mode, T, ht) (ids, n). scanHashTableRight T join_mode ht ids n)"

text \<open>A GPU that runs every launch to one of its outcomes.\<close>

definition gpu_runs :: "'v join_kernels \<Rightarrow> bool" where
  "gpu_runs K \<longleftrightarrow> launch build_outcome (k_build K) \<and> launch probe_outcome (k_probe K) \<and>
     launch single_outcome (k_single K) \<and> launch right_outcome (k_right K) \<and>
     launch right_single_outcome (k_right_single K) \<and> launch mark_outcome (k_mark K) \<and>
     launch scan_outcome (k_scan K)"

definition some_gpu :: "('v \<Rightarrow> int) \<Rightarrow> (8 word \<Rightarrow> 'v) \<Rightarrow> 'v join_kernels" where
  "some_gpu kv bv =
     \<lparr>k_build = some_outcome build_outcome, k_probe = some_outcome probe_outcome,
      k_single = some_outcome single_outcome, k_right = some_outcome right_outcome,
      k_right_single = some_outcome right_single_outcome, k_mark = some_outcome mark_outcome,
      k_scan = some_outcome scan_outcome, key_value = kv, byte_value = bv\<rparr>"

lemma some_gpu_runs: "gpu_runs (some_gpu f g)"
  by (simp add: gpu_runs_def some_gpu_def any_launch.launch_axioms)

section \<open>Keys\<close>

text \<open>\<open>keys[n][r]\<close> for the first \<open>N\<close> rows, read as elements of \<open>w\<close> bytes.\<close>

definition read_key :: "'v join_kernels \<Rightarrow> u64 \<Rightarrow> u64 \<Rightarrow> ptr \<Rightarrow> ('v device, int list) act" where
  "read_key K w N p = act_bind (dev_vals w p) (\<lambda>xs.
     act_bind (act_lift (first_n N xs)) (\<lambda>ys. act_return (map (key_value K) ys)))"

text \<open>\<open>keys_data\<close> on the host and \<open>keys_dev\<close> on the device hold the pointers of the key arrays.\<close>

definition keys_on_device :: "rmm_pool \<Rightarrow> nat \<Rightarrow> ('v device, ptr) act" where
  "keys_on_device rmm n =
     act_bind (dev_host_alloc 8 (of_nat n)) (\<lambda>_. dev_malloc rmm 8 (of_nat n))"

definition launched :: "'o option \<Rightarrow> ('s, 'o) act" where
  "launched r = (case r of None \<Rightarrow> act_throw Hangs | Some x \<Rightarrow> act_return x)"

section \<open>Building\<close>

definition join_table :: "int list list \<Rightarrow> u64 \<Rightarrow> nat list \<Rightarrow> bool \<Rightarrow> table" where
  "join_table keys len condition_mode right_join =
     \<lparr>t_keys = keys, ht_len = unat len, num_keys = length condition_mode,
      equal_keys = count_equal_keys condition_mode, is_right = right_join\<rparr>"

definition dev_buildHashTable ::
  "rmm_pool \<Rightarrow> 'v join_kernels \<Rightarrow> u64 \<Rightarrow> ptr list \<Rightarrow> ptr \<Rightarrow> u64 \<Rightarrow> u64 \<Rightarrow> nat list \<Rightarrow> bool \<Rightarrow> ('v device, unit) act" where
  "dev_buildHashTable rmm K w keys ht len N condition_mode right_join =
     (if N = 0 \<or> len = 0 then act_return ()
      else act_bind (keys_on_device rmm (length condition_mode)) (\<lambda>keys_dev.
           act_bind (act_mapM (read_key K w N) keys) (\<lambda>ks.
           act_bind (launched (k_build K (join_table ks len condition_mode right_join, unat N))) (\<lambda>words.
           act_bind (dev_write ht (RowIds words)) (\<lambda>_. dev_free keys_dev)))))"

section \<open>Probing\<close>

text \<open>The three reference parameters of a probe; the count is in host memory.\<close>

record probe_refs =
  row_ids_left :: ptr
  row_ids_right :: ptr
  probe_count :: "u64 option"

text \<open>The probes are given no build keys; \<open>equal_keys\<close> is counted anew.\<close>

definition probe_table :: "u64 \<Rightarrow> nat list \<Rightarrow> bool \<Rightarrow> table" where
  "probe_table len condition_mode right_join = join_table [] len condition_mode right_join"

definition no_rows :: "probe_refs \<Rightarrow> ('v device, probe_refs) act" where
  "no_rows refs = act_bind (dev_host_alloc 8 1) (\<lambda>_. act_return (refs\<lparr>probe_count := Some 0\<rparr>))"

definition num_tiles_u64 :: "u64 \<Rightarrow> u64" where
  "num_tiles_u64 N = (N + of_nat tile_size - 1) div of_nat tile_size"

definition dev_probeHashTable ::
  "rmm_pool \<Rightarrow> 'v join_kernels \<Rightarrow> u64 \<Rightarrow> ptr list \<Rightarrow> ptr \<Rightarrow> u64 \<Rightarrow> probe_refs \<Rightarrow> u64 \<Rightarrow> nat list \<Rightarrow> bool \<Rightarrow>
   ('v device, probe_refs) act" where
  "dev_probeHashTable rmm K w keys ht len refs N condition_mode right_join =
     (if N = 0 \<or> len = 0 then no_rows refs
      else act_bind (dev_malloc rmm 8 1) (\<lambda>count_dev.
           act_bind (dev_malloc rmm 8 (num_tiles_u64 N * of_nat BLOCK_THREADS)) (\<lambda>offset_each_thread.
           act_bind (keys_on_device rmm (length condition_mode)) (\<lambda>keys_dev.
           act_bind (dev_malloc rmm 4 (of_nat (length condition_mode))) (\<lambda>condition_mode_dev.
           act_bind (act_mapM (read_key K w N) keys) (\<lambda>ks.
           act_bind (dev_rows ht) (\<lambda>words.
           act_bind (launched (k_probe K (probe_table len condition_mode right_join, condition_mode, ks, unat N, words)))
             (\<lambda>(l, r, h_count, words').
           act_bind (dev_host_alloc 8 1) (\<lambda>_.
           act_bind (dev_malloc rmm 8 h_count) (\<lambda>left.
           act_bind (dev_malloc rmm 8 h_count) (\<lambda>right.
           act_bind (dev_write left (RowIds l)) (\<lambda>_.
           act_bind (dev_write right (RowIds r)) (\<lambda>_.
           act_bind (dev_write ht (RowIds words')) (\<lambda>_.
           act_bind (dev_free offset_each_thread) (\<lambda>_.
           act_bind (dev_free condition_mode_dev) (\<lambda>_.
           act_bind (dev_free count_dev) (\<lambda>_.
           act_bind (dev_free keys_dev) (\<lambda>_.
           act_return \<lparr>row_ids_left = left, row_ids_right = right, probe_count = Some h_count\<rparr>))))))))))))))))))"

definition dev_probeHashTableSingleMatch ::
  "rmm_pool \<Rightarrow> 'v join_kernels \<Rightarrow> u64 \<Rightarrow> ptr list \<Rightarrow> ptr \<Rightarrow> u64 \<Rightarrow> probe_refs \<Rightarrow> u64 \<Rightarrow> nat list \<Rightarrow> nat \<Rightarrow>
   ('v device, probe_refs) act" where
  "dev_probeHashTableSingleMatch rmm K w keys ht len refs N condition_mode join_mode =
     (if N = 0 \<or> len = 0 then no_rows refs
      else act_bind (dev_malloc rmm 8 1) (\<lambda>count_dev.
           act_bind (keys_on_device rmm (length condition_mode)) (\<lambda>keys_dev.
           act_bind (dev_malloc rmm 4 (of_nat (length condition_mode))) (\<lambda>condition_mode_dev.
           act_bind (dev_malloc rmm 8 N) (\<lambda>left.
           act_bind (if join_mode = 0 \<or> join_mode = 3 then dev_malloc rmm 8 N else act_return (row_ids_right refs)) (\<lambda>right.
           act_bind (act_mapM (read_key K w N) keys) (\<lambda>ks.
           act_bind (dev_rows ht) (\<lambda>words.
           act_bind (launched (k_single K (join_mode, probe_table len condition_mode (join_mode = 3), condition_mode, ks, unat N, words)))
             (\<lambda>(l, r, h_count, words').
           act_bind (dev_write left (RowIds l)) (\<lambda>_.
           act_bind (if join_mode = 0 \<or> join_mode = 3 then dev_write right (RowIds r) else act_return ()) (\<lambda>_.
           act_bind (dev_write ht (RowIds words')) (\<lambda>_.
           act_bind (dev_host_alloc 8 1) (\<lambda>_.
           act_bind (dev_free keys_dev) (\<lambda>_.
           act_bind (dev_free count_dev) (\<lambda>_.
           act_bind (dev_free condition_mode_dev) (\<lambda>_.
           act_return \<lparr>row_ids_left = left, row_ids_right = right, probe_count = Some h_count\<rparr>))))))))))))))))"

text \<open>The two probes of right semi and anti joins only mark the slots of the table.\<close>

definition dev_probe_right ::
  "rmm_pool \<Rightarrow> 'v join_kernels \<Rightarrow>
   (table \<times> nat list \<times> int list list \<times> nat \<times> u64 list \<Rightarrow> u64 list option) \<Rightarrow>
   u64 \<Rightarrow> ptr list \<Rightarrow> ptr \<Rightarrow> u64 \<Rightarrow> u64 \<Rightarrow> nat list \<Rightarrow> ('v device, unit) act" where
  "dev_probe_right rmm K run w keys ht len N condition_mode =
     (if N = 0 \<or> len = 0 then act_return ()
      else act_bind (keys_on_device rmm (length condition_mode)) (\<lambda>keys_dev.
           act_bind (dev_malloc rmm 4 (of_nat (length condition_mode))) (\<lambda>condition_mode_dev.
           act_bind (act_mapM (read_key K w N) keys) (\<lambda>ks.
           act_bind (dev_rows ht) (\<lambda>words.
           act_bind (launched (run (probe_table len condition_mode True, condition_mode, ks, unat N, words))) (\<lambda>words'.
           act_bind (dev_write ht (RowIds words')) (\<lambda>_.
           act_bind (dev_free keys_dev) (\<lambda>_.
           dev_free condition_mode_dev))))))))"

definition dev_probeHashTableRightSemiAnti ::
  "rmm_pool \<Rightarrow> 'v join_kernels \<Rightarrow> u64 \<Rightarrow> ptr list \<Rightarrow> ptr \<Rightarrow> u64 \<Rightarrow> u64 \<Rightarrow> nat list \<Rightarrow> ('v device, unit) act" where
  "dev_probeHashTableRightSemiAnti rmm K = dev_probe_right rmm K (k_right K)"

definition dev_probeHashTableRightSemiAntiSingleMatch ::
  "rmm_pool \<Rightarrow> 'v join_kernels \<Rightarrow> u64 \<Rightarrow> ptr list \<Rightarrow> ptr \<Rightarrow> u64 \<Rightarrow> u64 \<Rightarrow> nat list \<Rightarrow> ('v device, unit) act" where
  "dev_probeHashTableRightSemiAntiSingleMatch rmm K = dev_probe_right rmm K (k_right_single K)"

text \<open>With an empty table the output is cleared; the result is a column of bytes.\<close>

definition dev_probeHashTableMark ::
  "rmm_pool \<Rightarrow> 'v join_kernels \<Rightarrow> u64 \<Rightarrow> ptr list \<Rightarrow> ptr \<Rightarrow> u64 \<Rightarrow> u64 \<Rightarrow> nat list \<Rightarrow> ('v device, ptr) act" where
  "dev_probeHashTableMark rmm K w keys ht len N condition_mode =
     (if N = 0 \<or> len = 0 then
        act_bind (dev_malloc rmm 1 N) (\<lambda>output.
        act_bind (dev_write output (Vals 1 (replicate (unat N) (byte_value K 0)))) (\<lambda>_. act_return output))
      else act_bind (keys_on_device rmm (length condition_mode)) (\<lambda>keys_dev.
           act_bind (dev_malloc rmm 4 (of_nat (length condition_mode))) (\<lambda>condition_mode_dev.
           act_bind (dev_malloc rmm 1 N) (\<lambda>output.
           act_bind (act_mapM (read_key K w N) keys) (\<lambda>ks.
           act_bind (dev_rows ht) (\<lambda>words.
           act_bind (launched (k_mark K (probe_table len condition_mode False, condition_mode, ks, unat N, words))) (\<lambda>bytes.
           act_bind (dev_write output (Vals 1 (map (byte_value K) bytes))) (\<lambda>_.
           act_bind (dev_free keys_dev) (\<lambda>_.
           act_bind (dev_free condition_mode_dev) (\<lambda>_. act_return output))))))))))"

section \<open>Scanning the table\<close>

definition dev_scanHashTableRight ::
  "rmm_pool \<Rightarrow> 'v join_kernels \<Rightarrow> ptr \<Rightarrow> u64 \<Rightarrow> nat \<Rightarrow> nat \<Rightarrow> ('v device, ptr \<times> u64) act" where
  "dev_scanHashTableRight rmm K ht len join_mode n =
     (if len = 0 then act_bind (dev_host_alloc 8 1) (\<lambda>_. act_return (nullptr, 0))
      else act_bind (dev_malloc rmm 8 1) (\<lambda>count_dev.
           act_bind (dev_rows ht) (\<lambda>words.
           act_bind (launched (k_scan K (join_mode, probe_table len (replicate n 0) True, words))) (\<lambda>(ids, h_count).
           act_bind (dev_host_alloc 8 1) (\<lambda>_.
           act_bind (dev_malloc rmm 8 h_count) (\<lambda>row_ids.
           act_bind (dev_write row_ids (RowIds ids)) (\<lambda>_.
           act_bind (dev_free count_dev) (\<lambda>_.
           act_bind (dev_free ht) (\<lambda>_. act_return (row_ids, h_count))))))))))"

end
