(* ===== verification/Cudf_Join.thy ===== *)
theory Cudf_Join
  imports Expression_Select
begin

text \<open>
  Inner joins through cuDF (\<open>src/src/cuda/cudf/cudf_join.cu\<close>, \<open>convertInt32ToUInt64\<close> of
  \<open>src/src/cuda/cudf/cudf_utils.cu\<close>).  The join algorithms are cuDF's: \<open>cudf_joins\<close> holds the four
  functions the code calls, each of which returns two lists of 32-bit row numbers, the probe (left) rows
  and the build (right) rows.
\<close>

section \<open>The library\<close>

text \<open>The predicate of a conditional join; column numbers of the left and of the right table.\<close>

datatype join_predicate = AstCompare binary_operator nat nat | AstAnd join_predicate join_predicate

type_synonym join_indices = "int list \<times> int list"

record 'v cudf_joins =
  hash_join_inner :: "'v cudf_column list \<Rightarrow> 'v cudf_column list \<Rightarrow> join_indices res"
  distinct_hash_join_inner :: "'v cudf_column list \<Rightarrow> 'v cudf_column list \<Rightarrow> join_indices res"
  conditional_inner_join :: "'v cudf_column list \<Rightarrow> 'v cudf_column list \<Rightarrow> join_predicate \<Rightarrow> join_indices res"
  mixed_inner_join :: "'v cudf_column list \<Rightarrow> 'v cudf_column list \<Rightarrow> 'v cudf_column list \<Rightarrow> 'v cudf_column list \<Rightarrow>
    join_predicate \<Rightarrow> join_indices res"

section \<open>Conditions\<close>

record 'd JoinCondition =
  jc_left :: "'d Expression"
  jc_right :: "'d Expression"
  jc_comparison :: ExpressionType

definition is_equality :: "'d JoinCondition \<Rightarrow> bool" where
  "is_equality c \<longleftrightarrow> jc_comparison c = COMPARE_EQUAL \<or> jc_comparison c = COMPARE_NOT_DISTINCT_FROM"

section \<open>Row numbers\<close>

definition convertInt32ToUInt64 :: "rmm_pool \<Rightarrow> int list \<Rightarrow> ('v device, ptr) act" where
  "convertInt32ToUInt64 rmm data = act_bind (dev_malloc rmm 8 (of_nat (length data))) (\<lambda>output_dev.
     act_bind (dev_write output_dev (RowIds (map word_of_int data))) (\<lambda>_. act_return output_dev))"

text \<open>The two buffers of a result stay with the buffer manager; their row numbers are widened.\<close>

definition take_join_result ::
  "rmm_pool \<Rightarrow> join_indices \<Rightarrow> ('v device, ptr \<times> ptr \<times> u64) act" where
  "take_join_result rmm res = (case res of (left, right) \<Rightarrow>
     act_bind (dev_adopt rmm (4 * of_nat (length left)) Uninit) (\<lambda>_.
     act_bind (dev_adopt rmm (4 * of_nat (length right)) Uninit) (\<lambda>_.
     act_bind (convertInt32ToUInt64 rmm left) (\<lambda>row_ids_left.
     act_bind (convertInt32ToUInt64 rmm (take (length left) right)) (\<lambda>row_ids_right.
     act_bind (dev_host_alloc 8 1) (\<lambda>_.
     act_return (row_ids_left, row_ids_right, of_nat (length left))))))))"

definition no_join_result :: "('v device, ptr \<times> ptr \<times> u64) act" where
  "no_join_result = act_bind (dev_host_alloc 8 1) (\<lambda>_. act_return (nullptr, nullptr, 0))"

section \<open>Joins on equal keys\<close>

text \<open>A key as a cuDF column; the column may have got a validity mask.\<close>

definition key_column :: "('d, 'v) exec_env \<Rightarrow> GPUColumn \<Rightarrow> ('v device, GPUColumn \<times> 'v cudf_column) act" where
  "key_column E c = act_bind (convertToCudfColumn (ee_duckdb E) (ee_rmm E) c) (\<lambda>(c', view).
     act_bind (copy_view (ee_cudf E) view) (\<lambda>cc. act_return (c', cc)))"

text \<open>Decimal keys of different sizes are brought to the larger one.\<close>

definition same_key_types ::
  "('d, 'v) exec_env \<Rightarrow> 'v cudf_column \<Rightarrow> 'v cudf_column \<Rightarrow> ('v cudf_column \<times> 'v cudf_column) res" where
  "same_key_types E build probe =
     (if cudf_id (cc_type build) = cudf_id (cc_type probe) then Inr (build, probe)
      else if IsCudfTypeDecimal (cc_type build) \<and> IsCudfTypeDecimal (cc_type probe) then
        res_bind (GetCudfDecimalTypeSize (cc_type build)) (\<lambda>build_size.
        res_bind (GetCudfDecimalTypeSize (cc_type probe)) (\<lambda>probe_size.
          if build_size < probe_size
          then res_bind (cudf_cast (ee_cudf E) build (cc_type probe)) (\<lambda>b. Inr (b, probe))
          else res_bind (cudf_cast (ee_cudf E) probe (cc_type build)) (\<lambda>p. Inr (build, p))))
      else Inl (InternalException ''Build and probe key type mismatch in `cudf_hash_inner_join`''))"

text \<open>For each key the build column, possibly with a mask now, and the two columns to join on.\<close>

fun join_keys ::
  "('d, 'v) exec_env \<Rightarrow> GPUColumn list \<Rightarrow> GPUColumn list \<Rightarrow>
   ('v device, (GPUColumn \<times> 'v cudf_column \<times> 'v cudf_column) list) act" where
  "join_keys E (b # bs) (p # ps) =
     act_bind (key_column E b) (\<lambda>(b', build).
     act_bind (key_column E p) (\<lambda>(p', probe).
     act_bind (act_lift (same_key_types E build probe)) (\<lambda>(build, probe).
     act_bind (join_keys E bs ps) (\<lambda>rest. act_return ((b', build, probe) # rest)))))"
| "join_keys E _ _ = act_return []"

definition cudf_hash_inner_join ::
  "('d, 'v) exec_env \<Rightarrow> 'v cudf_joins \<Rightarrow> GPUColumn list \<Rightarrow> GPUColumn list \<Rightarrow> bool \<Rightarrow>
   ('v device, GPUColumn list \<times> ptr \<times> ptr \<times> u64) act" where
  "cudf_hash_inner_join E J probe_keys build_keys unique_build_keys =
     act_bind (act_lift (vec_at build_keys 0)) (\<lambda>b0.
     act_bind (act_lift (vec_at probe_keys 0)) (\<lambda>p0.
       if column_length b0 = 0 \<or> column_length p0 = 0
       then act_bind no_join_result (\<lambda>r. act_return (build_keys, r))
       else act_bind (join_keys E build_keys probe_keys) (\<lambda>keys.
            let build = map (fst \<circ> snd) keys; probe = map (snd \<circ> snd) keys in
            act_bind (act_lift (if unique_build_keys then distinct_hash_join_inner J build probe
                                else hash_join_inner J build probe)) (\<lambda>res.
            act_bind (take_join_result (ee_rmm E) res) (\<lambda>r. act_return (map fst keys, r))))))"

section \<open>Joins with other conditions\<close>

definition ast_operator :: "ExpressionType \<Rightarrow> binary_operator res" where
  "ast_operator comparison = (case comparison of
     COMPARE_NOTEQUAL \<Rightarrow> Inr NOT_EQUAL
   | COMPARE_DISTINCT_FROM \<Rightarrow> Inr NOT_EQUAL
   | COMPARE_LESSTHAN \<Rightarrow> Inr LESS
   | COMPARE_GREATERTHAN \<Rightarrow> Inr GREATER
   | COMPARE_LESSTHANOREQUALTO \<Rightarrow> Inr LESS_EQUAL
   | COMPARE_GREATERTHANOREQUALTO \<Rightarrow> Inr GREATER_EQUAL
   | _ \<Rightarrow> Inl (NotImplementedException ''Unsupported comparison type in `cudf_mixed_join`''))"

record 'v mixed_columns =
  equal_columns :: "('v cudf_column \<times> 'v cudf_column) list"
  conditional_columns :: "('v cudf_column \<times> 'v cudf_column) list"
  cudf_exprs :: "join_predicate list"

text \<open>The pairs are (probe, build).  The columns come back with the masks they got.\<close>

fun mixed_keys ::
  "('d, 'v) exec_env \<Rightarrow> 'd JoinCondition list \<Rightarrow> GPUColumn list \<Rightarrow> GPUColumn list \<Rightarrow> 'v mixed_columns \<Rightarrow>
   ('v device, GPUColumn list \<times> 'v mixed_columns) act" where
  "mixed_keys E (c # cs) (p # ps) (b # bs) acc =
     act_bind (act_lift (if is_equality c then Inr None else res_bind (ast_operator (jc_comparison c)) (\<lambda>op. Inr (Some op)))) (\<lambda>op.
     act_bind (key_column E p) (\<lambda>(p', probe).
     act_bind (key_column E b) (\<lambda>(b', build).
     act_bind (mixed_keys E cs ps bs (case op of
         None \<Rightarrow> acc\<lparr>equal_columns := equal_columns acc @ [(probe, build)]\<rparr>
       | Some op \<Rightarrow>
           let n = length (conditional_columns acc) in
           acc\<lparr>conditional_columns := conditional_columns acc @ [(probe, build)],
               cudf_exprs := cudf_exprs acc @ [AstCompare op n n]\<rparr>)) (\<lambda>(rest, acc').
       act_return (b' # rest, acc')))))"
| "mixed_keys E _ _ _ acc = act_return ([], acc)"

text \<open>An operation holds references to its operands, which live in a vector that moves them when it
  grows; of several conditions only the last one still has its operands.\<close>

definition final_expr :: "join_predicate list \<Rightarrow> join_predicate res" where
  "final_expr exprs = (case exprs of
     [e] \<Rightarrow> Inr e
   | [] \<Rightarrow> Inl (UndefinedBehaviour ''vector index'')
   | _ \<Rightarrow> Inl (UndefinedBehaviour ''operands of an expression moved away''))"

definition cudf_mixed_or_conditional_inner_join ::
  "('d, 'v) exec_env \<Rightarrow> 'v cudf_joins \<Rightarrow> GPUColumn list \<Rightarrow> GPUColumn list \<Rightarrow> 'd JoinCondition list \<Rightarrow>
   ('v device, GPUColumn list \<times> ptr \<times> ptr \<times> u64) act" where
  "cudf_mixed_or_conditional_inner_join E J probe_columns build_columns conditions =
     act_bind (act_lift (vec_at build_columns 0)) (\<lambda>b0.
     act_bind (act_lift (vec_at probe_columns 0)) (\<lambda>p0.
       if column_length b0 = 0 \<or> column_length p0 = 0
       then act_bind no_join_result (\<lambda>r. act_return (build_columns, r))
       else act_bind (mixed_keys E conditions probe_columns build_columns
                \<lparr>equal_columns = [], conditional_columns = [], cudf_exprs = []\<rparr>) (\<lambda>(build_columns', keys).
            act_bind (act_lift (final_expr (cudf_exprs keys))) (\<lambda>expr.
            let probe_eq = map fst (equal_columns keys); build_eq = map snd (equal_columns keys);
                probe_cond = map fst (conditional_columns keys); build_cond = map snd (conditional_columns keys) in
            act_bind (act_lift (if probe_eq = [] then conditional_inner_join J probe_cond build_cond expr
                                else mixed_inner_join J probe_eq build_eq probe_cond build_cond expr)) (\<lambda>res.
            act_bind (take_join_result (ee_rmm E) res) (\<lambda>r. act_return (build_columns', r)))))))"

end
