(* ===== verification/Hash_Join.thy ===== *)
theory Hash_Join
  imports Join_Kernels Cudf_Join Pipelines
begin

text \<open>
  The hash join operator (\<open>src/src/operator/gpu_physical_hash_join.cpp\<close>).  Its \<open>Sink\<close> gathers the build
  keys and builds the hash table, its \<open>Execute\<close> probes it with a relation from the left and selects rows
  of both sides, and \<open>GetData\<close> emits the build rows of right joins.  The mutable members of the operator
  are returned updated.
\<close>

section \<open>The operator\<close>

record JoinProjectionColumns =
  col_idxs :: "nat list"
  col_types :: "LogicalType list"

text \<open>\<open>None\<close> in \<open>gpu_hash_table\<close>: not initialised.\<close>

record 'd hash_join =
  join_type :: JoinType
  conditions :: "'d JoinCondition list"
  condition_types :: "LogicalType list"
  payload_columns :: JoinProjectionColumns
  lhs_output_columns :: JoinProjectionColumns
  rhs_output_columns :: JoinProjectionColumns
  delim_types :: "LogicalType list"
  unique_build_keys :: bool
  unique_probe_keys :: bool
  gpu_hash_table :: "ptr option"
  gpu_ht_len :: u64
  hash_table_result :: GPUIntermediateRelation
  materialized_build_key :: GPUIntermediateRelation

section \<open>Construction\<close>

text \<open>Equalities come first; conditions that are in that order stay as they are.\<close>

fun conditions_ordered :: "bool \<Rightarrow> 'd JoinCondition list \<Rightarrow> bool" where
  "conditions_ordered seen_non_equal [] = True"
| "conditions_ordered seen_non_equal (c # cs) =
     (if is_equality c then (if seen_non_equal then False else conditions_ordered seen_non_equal cs)
      else conditions_ordered True cs)"

definition ReorderConditions :: "'d JoinCondition list \<Rightarrow> 'd JoinCondition list" where
  "ReorderConditions conds =
     (if conditions_ordered False conds then conds
      else let (equal_conditions, other_conditions) = fold (\<lambda>c (eqs, others).
             if is_equality c then (eqs @ [c], others) else (eqs, others @ [c])) conds ([], [])
           in equal_conditions @ other_conditions)"

text \<open>\<open>Cast<BoundReferenceExpression>\<close> checks the class in debug builds only.\<close>

definition reference_index :: "'d Expression \<Rightarrow> nat res" where
  "reference_index e = (case e of BoundReference t i \<Rightarrow> Inr i
     | _ \<Rightarrow> Inl (UndefinedBehaviour ''not a reference''))"

text \<open>The build columns that conditions refer to, with the first condition that does; \<open>emplace\<close> keeps
  an entry that is there.\<close>

definition build_columns_in_conditions :: "'d JoinCondition list \<Rightarrow> (nat \<times> nat) list" where
  "build_columns_in_conditions conds = fold (\<lambda>(cond_idx, c) m. case jc_right c of
      BoundReference t i \<Rightarrow> if map_of m i = None then m @ [(i, cond_idx)] else m
    | _ \<Rightarrow> m) (enumerate 0 conds) []"

definition projection_map :: "nat list \<Rightarrow> LogicalType list \<Rightarrow> nat list" where
  "projection_map idxs input_types = (if idxs = [] then [0..<length input_types] else idxs)"

text \<open>One column of the right-hand side: a key is read from the keys of the table's result, another
  column joins the payload.\<close>

fun rhs_columns ::
  "(nat \<times> nat) list \<Rightarrow> nat \<Rightarrow> LogicalType list \<Rightarrow> nat list \<Rightarrow> JoinProjectionColumns \<times> JoinProjectionColumns \<Rightarrow>
   (JoinProjectionColumns \<times> JoinProjectionColumns) res" where
  "rhs_columns key_columns n_conditions input_types [] acc = Inr acc"
| "rhs_columns key_columns n_conditions input_types (rhs_col # cols) (payload, output) =
     res_bind (vec_at input_types rhs_col) (\<lambda>t.
       let (payload', idx) = (case map_of key_columns rhs_col of
             None \<Rightarrow> (payload\<lparr>col_idxs := col_idxs payload @ [rhs_col], col_types := col_types payload @ [t]\<rparr>,
                      n_conditions + length (col_types payload))
           | Some cond_idx \<Rightarrow> (payload, cond_idx))
       in rhs_columns key_columns n_conditions input_types cols
            (payload', output\<lparr>col_idxs := col_idxs output @ [idx], col_types := col_types output @ [t]\<rparr>))"

definition no_columns :: JoinProjectionColumns where
  "no_columns = \<lparr>col_idxs = [], col_types = []\<rparr>"

definition GPUPhysicalHashJoin_new ::
  "LogicalType list \<Rightarrow> LogicalType list \<Rightarrow> 'd JoinCondition list \<Rightarrow> JoinType \<Rightarrow> nat list \<Rightarrow> nat list \<Rightarrow>
   LogicalType list \<Rightarrow> 'd hash_join res" where
  "GPUPhysicalHashJoin_new lhs_input_types rhs_input_types cond jt left_projection_map right_projection_map dts =
     (let conds = ReorderConditions cond;
          key_columns = build_columns_in_conditions conds;
          left_idxs = projection_map left_projection_map lhs_input_types in
      res_bind (res_mapM (vec_at lhs_input_types) left_idxs) (\<lambda>left_types.
      res_bind
        (if jt = J_ANTI \<or> jt = J_SEMI \<or> jt = J_MARK then Inr (no_columns, no_columns)
         else rhs_columns key_columns (length conds) rhs_input_types
                (projection_map right_projection_map rhs_input_types) (no_columns, no_columns)) (\<lambda>(payload, output).
      Inr \<lparr>join_type = jt, conditions = conds, condition_types = map (\<lambda>c. return_type (jc_left c)) conds,
        payload_columns = payload, lhs_output_columns = \<lparr>col_idxs = left_idxs, col_types = left_types\<rparr>,
        rhs_output_columns = output, delim_types = [], unique_build_keys = False, unique_probe_keys = False,
        gpu_hash_table = None, gpu_ht_len = 0,
        hash_table_result = GPUIntermediateRelation_new (length key_columns + length (col_idxs payload)),
        materialized_build_key = GPUIntermediateRelation_new (length key_columns)\<rparr>)))"

section \<open>The condition modes\<close>

text \<open>Building and mark joins accept an inequality as the second of two conditions only.\<close>

definition condition_mode_of :: "bool \<Rightarrow> nat \<Rightarrow> nat \<Rightarrow> 'd JoinCondition \<Rightarrow> nat res" where
  "condition_mode_of second_only n key c = (case jc_comparison c of
     COMPARE_EQUAL \<Rightarrow> Inr 0
   | COMPARE_NOT_DISTINCT_FROM \<Rightarrow> Inr 0
   | COMPARE_NOTEQUAL \<Rightarrow> if second_only \<and> (key \<noteq> 1 \<or> n \<noteq> 2)
       then Inl (NotImplementedException ''Unsupported comparison type'') else Inr 1
   | COMPARE_DISTINCT_FROM \<Rightarrow> if second_only \<and> (key \<noteq> 1 \<or> n \<noteq> 2)
       then Inl (NotImplementedException ''Unsupported comparison type'') else Inr 1
   | _ \<Rightarrow> Inl (NotImplementedException ''Unsupported comparison type''))"

definition condition_modes :: "bool \<Rightarrow> 'd JoinCondition list \<Rightarrow> nat list res" where
  "condition_modes second_only conds =
     res_mapM (\<lambda>(key, c). condition_mode_of second_only (length conds) key c) (enumerate 0 conds)"

text \<open>The start of the three \<open>ResolveType...Expression\<close> functions: the key pointers and modes in host
  memory, and the number of rows.\<close>

definition join_arguments ::
  "bool \<Rightarrow> GPUColumn list \<Rightarrow> 'd JoinCondition list \<Rightarrow> ('v device, ptr list \<times> u64 \<times> nat list) act" where
  "join_arguments second_only keys conds =
     act_bind (dev_host_alloc 8 (of_nat (length conds))) (\<lambda>_.
     act_bind (act_lift (res_mapM (vec_at keys) [0..<length conds])) (\<lambda>ks.
     act_bind (act_lift (vec_at keys 0)) (\<lambda>k0.
     act_bind (dev_host_alloc 4 (of_nat (length conds))) (\<lambda>_.
     act_bind (act_lift (condition_modes second_only conds)) (\<lambda>modes.
     act_return (map (\<lambda>k. dw_data (data_wrapper k)) ks, column_length k0, modes))))))"

text \<open>The type of the first key chooses the size of all keys.\<close>

definition key_size :: "string \<Rightarrow> GPUColumn list \<Rightarrow> u64 res" where
  "key_size message keys = res_bind (vec_at keys 0) (\<lambda>k. case ct_id (dw_type (data_wrapper k)) of
     C_INT32 \<Rightarrow> Inr 4
   | C_INT64 \<Rightarrow> Inr 8
   | C_FLOAT64 \<Rightarrow> Inr 8
   | _ \<Rightarrow> Inl (NotImplementedException message))"

section \<open>Building, probing and scanning\<close>

definition ResolveTypeBuildExpression ::
  "rmm_pool \<Rightarrow> 'v join_kernels \<Rightarrow> u64 \<Rightarrow> GPUColumn list \<Rightarrow> ptr \<Rightarrow> u64 \<Rightarrow> 'd JoinCondition list \<Rightarrow> JoinType \<Rightarrow>
   ('v device, unit) act" where
  "ResolveTypeBuildExpression rmm K w build_keys ht len conds jt =
     act_bind (join_arguments True build_keys conds) (\<lambda>(build_data, N, modes).
       if jt = J_INNER \<or> jt = J_SEMI \<or> jt = J_MARK
       then dev_buildHashTable rmm K w build_data ht len N modes False
       else if jt = J_RIGHT \<or> jt = J_RIGHT_SEMI \<or> jt = J_RIGHT_ANTI
       then dev_buildHashTable rmm K w build_data ht len N modes True
       else act_throw (NotImplementedException ''Unsupported join type''))"

definition HandleBuildExpression ::
  "rmm_pool \<Rightarrow> 'v join_kernels \<Rightarrow> GPUColumn list \<Rightarrow> ptr \<Rightarrow> u64 \<Rightarrow> 'd JoinCondition list \<Rightarrow> JoinType \<Rightarrow>
   ('v device, unit) act" where
  "HandleBuildExpression rmm K build_keys ht len conds jt =
     act_bind (act_lift (key_size ''Unsupported sirius column type in `HandleBuildExpression`'' build_keys)) (\<lambda>w.
       ResolveTypeBuildExpression rmm K w build_keys ht len conds jt)"

definition ResolveTypeProbeExpression ::
  "rmm_pool \<Rightarrow> 'v join_kernels \<Rightarrow> u64 \<Rightarrow> GPUColumn list \<Rightarrow> probe_refs \<Rightarrow> ptr \<Rightarrow> u64 \<Rightarrow> 'd JoinCondition list \<Rightarrow>
   JoinType \<Rightarrow> bool \<Rightarrow> ('v device, probe_refs) act" where
  "ResolveTypeProbeExpression rmm K w probe_keys refs ht len conds jt unique_keys =
     act_bind (join_arguments False probe_keys conds) (\<lambda>(probe_data, N, modes).
       if jt = J_INNER then act_throw (NotImplementedException ''Unsupported join type: INNER'')
       else if jt = J_SEMI then dev_probeHashTableSingleMatch rmm K w probe_data ht len refs N modes 1
       else if jt = J_ANTI then dev_probeHashTableSingleMatch rmm K w probe_data ht len refs N modes 2
       else if jt = J_RIGHT then
         (if unique_keys then dev_probeHashTableSingleMatch rmm K w probe_data ht len refs N modes 3
          else dev_probeHashTable rmm K w probe_data ht len refs N modes True)
       else if jt = J_RIGHT_SEMI \<or> jt = J_RIGHT_ANTI then
         act_bind (if unique_keys then dev_probeHashTableRightSemiAntiSingleMatch rmm K w probe_data ht len N modes
                   else dev_probeHashTableRightSemiAnti rmm K w probe_data ht len N modes) (\<lambda>_. act_return refs)
       else act_throw (NotImplementedException ''Unsupported join type''))"

definition HandleProbeExpression ::
  "rmm_pool \<Rightarrow> 'v join_kernels \<Rightarrow> GPUColumn list \<Rightarrow> probe_refs \<Rightarrow> ptr \<Rightarrow> u64 \<Rightarrow> 'd JoinCondition list \<Rightarrow>
   JoinType \<Rightarrow> bool \<Rightarrow> ('v device, probe_refs) act" where
  "HandleProbeExpression rmm K probe_keys refs ht len conds jt unique_keys =
     act_bind (act_lift (key_size ''Unsupported sirius column type in `HandleProbeExpression`'' probe_keys)) (\<lambda>w.
       ResolveTypeProbeExpression rmm K w probe_keys refs ht len conds jt unique_keys)"

definition HandleMarkExpression ::
  "rmm_pool \<Rightarrow> 'v join_kernels \<Rightarrow> GPUColumn list \<Rightarrow> ptr \<Rightarrow> u64 \<Rightarrow> 'd JoinCondition list \<Rightarrow> ('v device, ptr) act" where
  "HandleMarkExpression rmm K probe_keys ht len conds =
     act_bind (act_lift (key_size ''Unsupported sirius column type in `HandleMarkExpression`'' probe_keys)) (\<lambda>w.
     act_bind (join_arguments True probe_keys conds) (\<lambda>(probe_data, N, modes).
       dev_probeHashTableMark rmm K w probe_data ht len N modes))"

definition HandleScanHTExpression ::
  "rmm_pool \<Rightarrow> 'v join_kernels \<Rightarrow> ptr \<Rightarrow> u64 \<Rightarrow> JoinType \<Rightarrow> 'd JoinCondition list \<Rightarrow> ('v device, ptr \<times> u64) act" where
  "HandleScanHTExpression rmm K ht len jt conds =
     (if jt = J_RIGHT_SEMI then dev_scanHashTableRight rmm K ht len 0 (length conds)
      else if jt = J_RIGHT \<or> jt = J_RIGHT_ANTI then dev_scanHashTableRight rmm K ht len 1 (length conds)
      else act_throw (NotImplementedException ''Unsupported join type''))"

section \<open>The build side\<close>

text \<open>The keys named by one side of the conditions, gathered, and whether one of them is unique.\<close>

fun materialize_keys ::
  "('d, 'v) exec_env \<Rightarrow> GPUIntermediateRelation \<Rightarrow> 'd Expression list \<Rightarrow> ('v device, GPUColumn list \<times> bool) act" where
  "materialize_keys E rel [] = act_return ([], False)"
| "materialize_keys E rel (e # es) =
     act_bind (act_lift (res_bind (reference_index e) (column_at rel))) (\<lambda>c.
     act_bind (HandleMaterializeExpression (ee_duckdb E) (ee_rmm E) (ee_cub E) c) (\<lambda>k.
     act_bind (materialize_keys E rel es) (\<lambda>(ks, unique).
     act_return (k # ks, is_unique c \<or> unique))))"

definition hash_table_pointer :: "ptr option \<Rightarrow> ptr res" where
  "hash_table_pointer ht = (case ht of None \<Rightarrow> Inl (UndefinedBehaviour ''gpu_hash_table is uninitialised'') | Some p \<Rightarrow> Inr p)"

text \<open>The table has two slots per row, and one word per slot more for right joins.\<close>

definition allocate_hash_table :: "rmm_pool \<Rightarrow> 'd hash_join \<Rightarrow> u64 \<Rightarrow> ('v device, ptr option) act" where
  "allocate_hash_table rmm op len =
     (let n = of_nat (length (conditions op)) in
      if join_type op \<in> {J_INNER, J_SEMI, J_MARK} then
        (if len = 0 then act_return (Some nullptr)
         else act_bind (dev_malloc rmm 8 (len * (n + 1))) (\<lambda>p. act_return (Some p)))
      else if join_type op \<in> {J_RIGHT, J_RIGHT_SEMI, J_RIGHT_ANTI} then
        (if len = 0 then act_return (Some nullptr)
         else act_bind (dev_malloc rmm 8 (len * (n + 2))) (\<lambda>p. act_return (Some p)))
      else act_return (gpu_hash_table op))"

text \<open>The key columns of the result are those of the input; the gathered keys are kept beside them.\<close>

fun keep_keys ::
  "GPUIntermediateRelation \<Rightarrow> nat \<Rightarrow> 'd JoinCondition list \<Rightarrow> GPUColumn list \<Rightarrow>
   GPUIntermediateRelation \<times> GPUIntermediateRelation \<Rightarrow> (GPUIntermediateRelation \<times> GPUIntermediateRelation) res" where
  "keep_keys rel i (c # cs) (k # ks) (result, keys) =
     (case jc_right c of
        BoundReference t j \<Rightarrow>
          res_bind (vec_at (columns rel) j) (\<lambda>col.
          res_bind (set_column_slot i col result) (\<lambda>result'.
          res_bind (set_column i k keys) (\<lambda>keys'. keep_keys rel (Suc i) cs ks (result', keys'))))
      | _ \<Rightarrow> Inl (InvalidInputException ''Unsupported join condition''))"
| "keep_keys rel i _ _ acc = Inr acc"

fun keep_payload ::
  "GPUIntermediateRelation \<Rightarrow> nat \<Rightarrow> nat list \<Rightarrow> GPUIntermediateRelation \<Rightarrow> GPUIntermediateRelation res" where
  "keep_payload rel i [] result = Inr result"
| "keep_payload rel i (j # js) result =
     res_bind (vec_at (columns rel) j) (\<lambda>col.
     res_bind (set_column_slot i col result) (\<lambda>result'. keep_payload rel (Suc i) js result'))"

definition GPUPhysicalHashJoin_Sink ::
  "('d, 'v) exec_env \<Rightarrow> 'v join_kernels \<Rightarrow> 'd hash_join \<Rightarrow> GPUIntermediateRelation \<Rightarrow> ('v device, 'd hash_join) act" where
  "GPUPhysicalHashJoin_Sink E K op input_relation =
     (if delim_types op \<noteq> [] \<and> join_type op = J_MARK
      then act_throw (NotImplementedException ''Correlated MARK join not supported yet'')
      else act_bind (materialize_keys E input_relation (map jc_right (conditions op))) (\<lambda>(build_keys, unique).
           act_bind (act_lift (vec_at build_keys 0)) (\<lambda>k0.
           let len = column_length k0 * 2 in
           act_bind (allocate_hash_table (ee_rmm E) op len) (\<lambda>ht.
           act_bind (if join_type op = J_INNER then act_return ()
                     else HandleBuildExpression (ee_rmm E) K build_keys (case ht of Some p \<Rightarrow> p | None \<Rightarrow> nullptr) len
                            (conditions op) (join_type op)) (\<lambda>_.
           act_bind (act_lift (keep_keys input_relation 0 (conditions op) build_keys
             (hash_table_result op, materialized_build_key op))) (\<lambda>(result, keys).
           act_bind (act_lift (keep_payload input_relation (length (conditions op)) (col_idxs (payload_columns op)) result))
             (\<lambda>result'.
           act_return (op\<lparr>unique_build_keys := unique_build_keys op \<or> unique, gpu_ht_len := len, gpu_hash_table := ht,
             hash_table_result := result', materialized_build_key := keys\<rparr>))))))))"

section \<open>The probe side\<close>

text \<open>The number of columns \<open>Execute\<close> expects in its output.\<close>

definition output_columns_expected :: "'d hash_join \<Rightarrow> nat res" where
  "output_columns_expected op =
     (let lhs = length (col_idxs (lhs_output_columns op)); rhs = length (col_idxs (rhs_output_columns op)) in
      if join_type op = J_RIGHT_SEMI \<or> join_type op = J_RIGHT_ANTI then Inr rhs
      else if join_type op = J_SEMI \<or> join_type op = J_ANTI then Inr lhs
      else if join_type op \<in> {J_RIGHT, J_LEFT, J_INNER, J_OUTER} then Inr (lhs + rhs)
      else if join_type op = J_MARK then Inr (lhs + 1)
      else Inl (InvalidInputException ''Unsupported join type''))"

definition check_output :: "'d hash_join \<Rightarrow> GPUIntermediateRelation \<Rightarrow> unit res" where
  "check_output op output_relation = res_bind (output_columns_expected op) (\<lambda>n.
     if length (columns output_relation) \<noteq> n then Inl (InvalidInputException ''Wrong input size'') else Inr ())"

definition no_refs :: probe_refs where
  "no_refs = \<lparr>row_ids_left = nullptr, row_ids_right = nullptr, probe_count = None\<rparr>"

text \<open>The inner join, by cuDF; the masks it created stay with the gathered build keys.\<close>

definition probe_inner ::
  "('d, 'v) exec_env \<Rightarrow> 'v cudf_joins \<Rightarrow> 'd hash_join \<Rightarrow> GPUColumn list \<Rightarrow> ('v device, 'd hash_join \<times> probe_refs) act" where
  "probe_inner E J op probe_key =
     act_bind (act_lift (res_mapM (column_at (materialized_build_key op)) [0..<length (conditions op)])) (\<lambda>build_key.
     act_bind (act_lift (vec_at build_key 0)) (\<lambda>b0.
     act_bind (act_lift (vec_at probe_key 0)) (\<lambda>p0.
       if int (unat (column_length b0)) > INT32_MAX \<or> int (unat (column_length p0)) > INT32_MAX
       then act_throw (NotImplementedException ''Column length greater than INT32_MAX is not supported'')
       else act_bind
         (if list_all is_equality (conditions op)
          then cudf_hash_inner_join E J probe_key build_key (unique_build_keys op)
          else cudf_mixed_or_conditional_inner_join E J probe_key build_key (conditions op))
         (\<lambda>(build_key', left, right, cnt).
          act_return (op\<lparr>materialized_build_key := (materialized_build_key op)\<lparr>columns :=
              map Some build_key' @ drop (length build_key') (columns (materialized_build_key op))\<rparr>\<rparr>,
            \<lparr>row_ids_left = left, row_ids_right = right, probe_count = Some cnt\<rparr>)))))"

text \<open>Probing, by join type: the row ids of the matches, the bytes of a mark join.\<close>

definition probe_hash_table ::
  "('d, 'v) exec_env \<Rightarrow> 'v join_kernels \<Rightarrow> 'v cudf_joins \<Rightarrow> 'd hash_join \<Rightarrow> GPUColumn list \<Rightarrow>
   ('v device, 'd hash_join \<times> probe_refs \<times> ptr) act" where
  "probe_hash_table E K J op probe_key =
     (if join_type op = J_INNER then act_bind (probe_inner E J op probe_key) (\<lambda>(op', refs). act_return (op', refs, nullptr))
      else if join_type op \<in> {J_SEMI, J_ANTI, J_OUTER, J_RIGHT, J_RIGHT_SEMI, J_RIGHT_ANTI} then
        act_bind (act_lift (hash_table_pointer (gpu_hash_table op))) (\<lambda>ht.
        act_bind (HandleProbeExpression (ee_rmm E) K probe_key no_refs ht (gpu_ht_len op) (conditions op) (join_type op)
          (unique_build_keys op)) (\<lambda>refs. act_return (op, refs, nullptr)))
      else if join_type op = J_MARK then
        act_bind (act_lift (hash_table_pointer (gpu_hash_table op))) (\<lambda>ht.
        act_bind (HandleMarkExpression (ee_rmm E) K probe_key ht (gpu_ht_len op) (conditions op)) (\<lambda>output.
          act_return (op, no_refs, output)))
      else act_throw (NotImplementedException ''Unsupported join type''))"

definition count_of :: "probe_refs \<Rightarrow> u64 res" where
  "count_of refs = (case probe_count refs of None \<Rightarrow> Inl (UndefinedBehaviour ''count is uninitialised'') | Some n \<Rightarrow> Inr n)"

text \<open>A mark join passes the columns of the left side on.\<close>

definition pass_column :: "duckdb_env \<Rightarrow> bool \<Rightarrow> GPUColumn \<Rightarrow> GPUColumn res" where
  "pass_column D unique_keys c = (let w = data_wrapper c in
     res_bind (GPUColumn_string D (column_length c) (dw_type w) (dw_data w) (dw_offset w) (dw_num_bytes w)
       (dw_is_string_data w) (dw_validity_mask w)) (\<lambda>out.
     Inr (out\<lparr>row_ids := row_ids c, row_id_count := row_id_count c, is_unique := unique_keys \<and> is_unique c\<rparr>)))"

fun pass_columns ::
  "duckdb_env \<Rightarrow> bool \<Rightarrow> GPUIntermediateRelation \<Rightarrow> nat \<Rightarrow> nat list \<Rightarrow> GPUIntermediateRelation \<Rightarrow>
   GPUIntermediateRelation res" where
  "pass_columns D unique_keys rin i [] rout = Inr rout"
| "pass_columns D unique_keys rin i (lhs_col # cols) rout =
     res_bind (column_at rin lhs_col) (\<lambda>c.
     res_bind (pass_column D unique_keys c) (\<lambda>out.
     res_bind (set_column i out rout) (\<lambda>rout'. pass_columns D unique_keys rin (Suc i) cols rout')))"

definition mark_column :: "duckdb_env \<Rightarrow> GPUColumn \<Rightarrow> ptr \<Rightarrow> GPUColumn res" where
  "mark_column D probe_key output =
     res_bind (GPUColumn_plain D (column_length probe_key) (ColumnType C_BOOLEAN) output nullptr) (\<lambda>c.
     Inr (c\<lparr>row_ids := row_ids probe_key, row_id_count := row_id_count probe_key\<rparr>))"

definition output_lhs ::
  "('d, 'v) exec_env \<Rightarrow> 'd hash_join \<Rightarrow> GPUColumn list \<Rightarrow> probe_refs \<Rightarrow> ptr \<Rightarrow> GPUIntermediateRelation \<Rightarrow>
   GPUIntermediateRelation \<Rightarrow> ('v device, GPUIntermediateRelation) act" where
  "output_lhs E op probe_key refs output rin rout =
     (let lhs = col_idxs (lhs_output_columns op) in
      if join_type op \<in> {J_SEMI, J_ANTI, J_INNER, J_OUTER, J_RIGHT} then
        act_bind (act_lift (count_of refs)) (\<lambda>n.
          HandleMaterializeRowIDsLHS (ee_duckdb E) (ee_rmm E) rin rout lhs n (row_ids_left refs)
            (join_type op = J_SEMI \<or> join_type op = J_ANTI \<or> unique_build_keys op))
      else if join_type op = J_MARK then
        act_lift (res_bind (pass_columns (ee_duckdb E) (unique_build_keys op) rin 0 lhs rout) (\<lambda>rout'.
          res_bind (vec_at probe_key 0) (\<lambda>p0.
          res_bind (mark_column (ee_duckdb E) p0 output) (\<lambda>c. set_column (length lhs) c rout'))))
      else if join_type op = J_RIGHT_SEMI \<or> join_type op = J_RIGHT_ANTI then act_return rout
      else act_throw (NotImplementedException ''Unsupported join type''))"

text \<open>The arrays of the build side are kept for the rest of the query.\<close>

definition dev_lock :: "ptr \<Rightarrow> ('v device, unit) act" where
  "dev_lock p d = (case lockAllocation p (mgr d) of (r, s) \<Rightarrow> (r, d\<lparr>mgr := s\<rparr>))"

fun lock_columns :: "GPUColumn option list \<Rightarrow> ('v device, unit) act" where
  "lock_columns [] = act_return ()"
| "lock_columns (col # cols) = (case col of
     None \<Rightarrow> act_throw (UndefinedBehaviour ''null column'')
   | Some c \<Rightarrow> act_bind (dev_lock (dw_data (data_wrapper c))) (\<lambda>_. act_bind (dev_lock (row_ids c)) (\<lambda>_.
       act_bind (if ct_id (dw_type (data_wrapper c)) = C_VARCHAR then dev_lock (dw_offset (data_wrapper c)) else act_return ())
         (\<lambda>_. lock_columns cols))))"

fun empty_rhs ::
  "duckdb_env \<Rightarrow> GPUIntermediateRelation \<Rightarrow> nat \<Rightarrow> nat list \<Rightarrow> GPUIntermediateRelation \<Rightarrow> GPUIntermediateRelation res" where
  "empty_rhs D result i [] rout = Inr rout"
| "empty_rhs D result i (rhs_col # cols) rout =
     res_bind (column_at result rhs_col) (\<lambda>c.
     res_bind (GPUColumn_plain D 0 (dw_type (data_wrapper c)) nullptr nullptr) (\<lambda>out.
     res_bind (set_column i out rout) (\<lambda>rout'. empty_rhs D result (Suc i) cols rout')))"

definition output_rhs ::
  "('d, 'v) exec_env \<Rightarrow> 'd hash_join \<Rightarrow> probe_refs \<Rightarrow> GPUIntermediateRelation \<Rightarrow> ('v device, GPUIntermediateRelation) act" where
  "output_rhs E op refs rout =
     (let rhs = col_idxs (rhs_output_columns op) in
      if join_type op \<in> {J_INNER, J_OUTER, J_LEFT, J_RIGHT} then
        act_bind (lock_columns (columns (hash_table_result op))) (\<lambda>_.
        act_bind (act_lift (count_of refs)) (\<lambda>n.
          HandleMaterializeRowIDsRHS (ee_duckdb E) (ee_rmm E) (hash_table_result op) rout rhs
            (length (col_idxs (lhs_output_columns op))) n (row_ids_right refs) (unique_probe_keys op)))
      else if join_type op = J_RIGHT_SEMI \<or> join_type op = J_RIGHT_ANTI
      then act_lift (empty_rhs (ee_duckdb E) (hash_table_result op) 0 rhs rout)
      else act_return rout)"

definition free_hash_table :: "'d hash_join \<Rightarrow> ('v device, unit) act" where
  "free_hash_table op =
     (if join_type op \<in> {J_INNER, J_SEMI, J_MARK} then
        act_bind (act_lift (hash_table_pointer (gpu_hash_table op))) (\<lambda>ht. if ht \<noteq> nullptr then dev_free ht else act_return ())
      else act_return ())"

definition GPUPhysicalHashJoin_Execute ::
  "('d, 'v) exec_env \<Rightarrow> 'v join_kernels \<Rightarrow> 'v cudf_joins \<Rightarrow> 'd hash_join \<Rightarrow> GPUIntermediateRelation \<Rightarrow>
   GPUIntermediateRelation \<Rightarrow> ('v device, 'd hash_join \<times> GPUIntermediateRelation) act" where
  "GPUPhysicalHashJoin_Execute E K J op input_relation output_relation =
     act_bind (act_lift (check_output op output_relation)) (\<lambda>_.
     act_bind (materialize_keys E input_relation (map jc_left (conditions op))) (\<lambda>(probe_key, unique).
     act_bind (probe_hash_table E K J (op\<lparr>unique_probe_keys := unique_probe_keys op \<or> unique\<rparr>) probe_key) (\<lambda>(op', refs, output).
     act_bind (output_lhs E op' probe_key refs output input_relation output_relation) (\<lambda>rout.
     act_bind (output_rhs E op' refs rout) (\<lambda>rout'.
     act_bind (free_hash_table op') (\<lambda>_. act_return (op', rout')))))))"

section \<open>The source of right joins\<close>

text \<open>The left columns of a right join: empty integer columns.\<close>

definition null_lhs :: "duckdb_env \<Rightarrow> nat \<Rightarrow> GPUIntermediateRelation \<Rightarrow> GPUIntermediateRelation res" where
  "null_lhs D n rout = res_bind (GPUColumn_plain D 0 (ColumnType C_INT64) nullptr nullptr) (\<lambda>c.
     Inr (rout\<lparr>columns := replicate n (Some c) @ drop n (columns rout)\<rparr>))"

definition GPUPhysicalHashJoin_GetData ::
  "('d, 'v) exec_env \<Rightarrow> 'v join_kernels \<Rightarrow> 'd hash_join \<Rightarrow> GPUIntermediateRelation \<Rightarrow> ('v device, GPUIntermediateRelation) act" where
  "GPUPhysicalHashJoin_GetData E K op output_relation =
     (let rhs = col_idxs (rhs_output_columns op) in
      act_bind (act_lift
        (if join_type op = J_RIGHT_SEMI \<or> join_type op = J_RIGHT_ANTI then Inr (0, output_relation)
         else if join_type op = J_RIGHT then
           (if length (columns output_relation) < length rhs then Inl (UndefinedBehaviour ''vector index'')
            else let n = length (columns output_relation) - length rhs in
                 res_bind (null_lhs (ee_duckdb E) n output_relation) (\<lambda>rout. Inr (n, rout)))
         else Inl (InvalidInputException ''Get data not supported for this join type''))) (\<lambda>(left_column_count, rout).
      act_bind (act_lift (hash_table_pointer (gpu_hash_table op))) (\<lambda>ht.
      act_bind (HandleScanHTExpression (ee_rmm E) K ht (gpu_ht_len op) (join_type op) (conditions op)) (\<lambda>(row_ids, cnt).
        HandleMaterializeRowIDsRHS (ee_duckdb E) (ee_rmm E) (hash_table_result op) rout rhs left_column_count cnt row_ids
          (unique_probe_keys op)))))"

end
