(* ===== verification/Join_Frames.thy ===== *)
theory Join_Frames
  imports Join_Kernels
begin

text \<open>
  Reasoning about the host functions of the joins.  \<open>arrays rmm d ts M s\<close> says that the device \<open>s\<close> still has
  every array of \<open>d\<close>, the new arrays \<open>M\<close>, and temporary arrays at \<open>ts\<close> apart from all of them.  The
  operations on device memory are rules over this assertion, for the calculus \<open>ends\<close> of
  Device_Memory.
\<close>

section \<open>Arrays kept and arrays in use\<close>

definition arrays :: "rmm_pool \<Rightarrow> 'v device \<Rightarrow> ptr list \<Rightarrow> (ptr \<rightharpoonup> 'v darray) \<Rightarrow> 'v device \<Rightarrow> bool" where
  "arrays rmm d ts M s \<longleftrightarrow> dev_wf rmm s \<and> retained (mgr s) = retained (mgr d) \<and> cells d ++ M \<subseteq>\<^sub>m cells s \<and>
     dom M \<inter> dom (cells d) = {} \<and> distinct ts \<and> set ts \<subseteq> dom (cells s) \<and>
     set ts \<inter> (dom (cells d) \<union> dom M) = {}"

lemma arrays_start: "dev_wf rmm d \<Longrightarrow> arrays rmm d [] Map.empty d"
  by (simp add: arrays_def)

lemma arrays_extends:
  assumes "arrays rmm d ts M s"
  shows "device_extends rmm d s"
proof -
  have "cells d \<subseteq>\<^sub>m cells d ++ M" using assms unfolding arrays_def map_le_def by (auto simp: map_add_def split: option.splits)
  then show ?thesis using assms by (auto simp: arrays_def device_extends_def intro: map_le_trans)
qed

lemma arrays_old: "arrays rmm d ts M s \<Longrightarrow> cells d p = Some a \<Longrightarrow> cells s p = Some a"
  by (blast intro: device_extends_cell arrays_extends)

lemma arrays_new: "arrays rmm d ts M s \<Longrightarrow> M p = Some a \<Longrightarrow> cells s p = Some a"
  unfolding arrays_def map_le_def dom_def by (metis (mono_tags, lifting) map_add_find_right mem_Collect_eq option.distinct(1))

lemma arrays_temp: "arrays rmm d (t # ts) M s \<Longrightarrow> t \<notin> dom (cells d) \<and> t \<notin> dom M \<and> t \<notin> set ts \<and> t \<in> dom (cells s)"
  by (auto simp: arrays_def)

lemma arrays_not_null: "arrays rmm d ts M s \<Longrightarrow> t \<in> set ts \<Longrightarrow> t \<noteq> nullptr"
  using dev_wf_nullptr [of rmm s] by (auto simp: arrays_def)

lemma arrays_drop: "arrays rmm d (ts @ us) M s \<Longrightarrow> arrays rmm d us M s"
  by (auto simp: arrays_def)

text \<open>Later states of the device keep what earlier states had.\<close>

lemma arrays_rebase:
  assumes "device_extends rmm d d1" and "arrays rmm d1 ts M s"
  shows "device_extends rmm d s"
  using device_extends_trans [OF assms(1) arrays_extends [OF assms(2)]] .

section \<open>The operations\<close>

lemma ends_consequence:
  assumes "ends P m Q" and "\<And>s. P' s \<Longrightarrow> P s" and "\<And>x s. Q x s \<Longrightarrow> Q' x s"
  shows "ends P' m Q'"
  using assms unfolding ends_def by (auto split: sum.splits; blast)

lemma ends_pure: "(b \<Longrightarrow> ends P m Q) \<Longrightarrow> ends (\<lambda>s. b \<and> P s) m Q"
  unfolding ends_def by blast

lemma arrays_malloc: "ends (arrays rmm d ts M) (dev_malloc rmm w n) (\<lambda>p. arrays rmm d (p # ts) M)"
  unfolding ends_def
proof (intro allI impI)
  fix s r s' assume s: "arrays rmm d ts M s" and m: "dev_malloc rmm w n s = (r, s')"
  from s have wf: "dev_wf rmm s" by (simp add: arrays_def)
  show "case r of Inl e \<Rightarrow> out_of_memory e | Inr p \<Rightarrow> arrays rmm d (p # ts) M s'"
  proof (cases r)
    case (Inl e)
    with dev_malloc_throws [OF wf] m show ?thesis by (simp add: out_of_memory_def)
  next
    case (Inr p)
    with dev_malloc_extends [OF wf] m have e: "device_extends rmm s s'" "p \<notin> dom (cells s)" "p \<in> dom (cells s')" by auto
    have le: "cells d ++ M \<subseteq>\<^sub>m cells s" using s by (simp add: arrays_def)
    have doms: "dom (cells d) \<union> dom M \<subseteq> dom (cells s)" using map_le_implies_dom_le [OF le] by auto
    have "cells s \<subseteq>\<^sub>m cells s'" using e(1) by (simp add: device_extends_def)
    from map_le_trans [OF le this] have "cells d ++ M \<subseteq>\<^sub>m cells s'" .
    moreover have "set ts \<subseteq> dom (cells s')"
    proof -
      have "dom (cells s) \<subseteq> dom (cells s')" using e(1) map_le_implies_dom_le unfolding device_extends_def by blast
      moreover have "set ts \<subseteq> dom (cells s)" using s by (simp add: arrays_def)
      ultimately show ?thesis by (rule order_trans [rotated])
    qed
    moreover have "set ts \<subseteq> dom (cells s)" using s by (simp add: arrays_def)
    then have "p \<notin> set ts" using e(2) by blast
    moreover have "dev_wf rmm s'" "retained (mgr s') = retained (mgr d)"
      using e(1) s dev_malloc_retained [OF m] by (simp_all add: device_extends_def arrays_def)
    moreover have "p \<notin> dom (cells d)" "p \<notin> dom M" using e(2) doms by blast+
    ultimately show ?thesis using s e(3) Inr by (simp add: arrays_def)
  qed
qed

lemma arrays_host_alloc: "ends (arrays rmm d ts M) (dev_host_alloc w n) (\<lambda>_. arrays rmm d ts M)"
proof -
  have "retained (mgr s') = retained (mgr s) \<and> cells s' = cells s" if "dev_host_alloc w n s = (r, s')" for s s' :: "'a device" and r
    using that by (auto simp: dev_host_alloc_def customCudaHostAlloc_def hostReserve_def Let_def retained_def fun_eq_iff
      in_cache_region_def split: prod.splits option.splits if_splits)
  moreover have "(case r of Inl e \<Rightarrow> out_of_memory e | Inr x \<Rightarrow> dev_wf rmm s')"
    if "dev_wf rmm s" "dev_host_alloc w n s = (r, s')" for s s' :: "'a device" and r
  proof -
    have "ends (holding rmm s []) (dev_host_alloc w n) (\<lambda>_. holding rmm s [])" by (rule ends_host_alloc)
    from endsD [OF this holding_start [OF that(1)] that(2)] show ?thesis by (auto simp: holding_def)
  qed
  ultimately show ?thesis unfolding ends_def arrays_def by (fastforce split: sum.splits)
qed

text \<open>A temporary array that is written becomes a new array.\<close>

lemma arrays_write:
  assumes "p \<in> set ts \<or> p \<in> dom M"
  shows "ends (arrays rmm d ts M) (dev_write p a) (\<lambda>_. arrays rmm d (remove1 p ts) (M(p \<mapsto> a)))"
  unfolding ends_def
proof (intro allI impI)
  fix s r s' assume s: "arrays rmm d ts M s" and m: "dev_write p a s = (r, s')"
  have le: "cells d ++ M \<subseteq>\<^sub>m cells s" using s by (simp add: arrays_def)
  then have "dom M \<subseteq> dom (cells s)" using map_le_implies_dom_le [OF le] by auto
  then have p: "p \<in> dom (cells s)" "p \<notin> dom (cells d)" using assms s by (auto simp: arrays_def)
  have "cells d ++ M(p \<mapsto> a) \<subseteq>\<^sub>m (cells s)(p \<mapsto> a)" using le by (auto simp: map_le_def)
  moreover have "dev_wf rmm (s\<lparr>cells := (cells s)(p \<mapsto> a)\<rparr>)" using s p by (intro dev_wf_write) (auto simp: arrays_def)
  ultimately have "arrays rmm d (remove1 p ts) (M(p \<mapsto> a)) (s\<lparr>cells := (cells s)(p \<mapsto> a)\<rparr>)"
    using s p set_remove1_subset [of p ts] by (auto simp: arrays_def)
  then show "case r of Inl e \<Rightarrow> out_of_memory e | Inr x \<Rightarrow> arrays rmm d (remove1 p ts) (M(p \<mapsto> a)) s'"
    using m by (auto simp: dev_write_def act_basic)
qed

lemma dev_free_keeps_retained: "dev_free p d = (r, d') \<Longrightarrow> retained (mgr d') = retained (mgr d)"
  by (rule kept_fields_retained)
     (auto simp: dev_free_def customCudaFree_def mr_deallocate_def act_bind_def act_basic kept_fields_def
      split: prod.splits sum.splits option.splits if_splits)

lemma arrays_free:
  assumes "p \<in> set ts"
  shows "ends (arrays rmm d ts M) (dev_free p) (\<lambda>_. arrays rmm d (remove1 p ts) M)"
  unfolding ends_def
proof (intro allI impI)
  fix s r s' assume s: "arrays rmm d ts M s" and m: "dev_free p s = (r, s')"
  have p: "p \<in> dom (cells s)" "p \<notin> dom (cells d ++ M)" using assms s by (auto simp: arrays_def)
  from s have wf: "dev_wf rmm s" by (simp add: arrays_def)
  from dev_free_array [OF wf p(1) m] have r: "r = Inr ()" "dev_wf rmm s'"
    and cs: "cells s' = cells s \<or> cells s' = (cells s)(p := None)" by auto
  have le: "cells d ++ M \<subseteq>\<^sub>m cells s" using s by (simp add: arrays_def)
  have "cells d ++ M \<subseteq>\<^sub>m cells s'"
    using cs
  proof
    assume "cells s' = (cells s)(p := None)"
    with le p(2) show ?thesis unfolding map_le_def by (metis fun_upd_other)
  qed (use le in simp)
  moreover have "set (remove1 p ts) \<subseteq> dom (cells s')" using cs
  proof
    assume "cells s' = (cells s)(p := None)"
    moreover have "set (remove1 p ts) = set ts - {p}" "set ts \<subseteq> dom (cells s)" using s by (simp_all add: arrays_def)
    ultimately show ?thesis by auto
  qed (use s set_remove1_subset [of p ts] in \<open>auto simp: arrays_def\<close>)
  ultimately show "case r of Inl e \<Rightarrow> out_of_memory e | Inr x \<Rightarrow> arrays rmm d (remove1 p ts) M s'"
    using s r dev_free_keeps_retained [OF m] set_remove1_subset [of p ts] by (auto simp: arrays_def)
qed

text \<open>Reading an array whose contents are known.\<close>

lemma arrays_rows:
  "(\<And>s. P s \<Longrightarrow> cells s p = Some (RowIds xs)) \<Longrightarrow> ends P (dev_rows p) (\<lambda>ys s. ys = xs \<and> P s)"
  by (auto simp: ends_def dev_rows_def)

lemma arrays_vals:
  "(\<And>s. P s \<Longrightarrow> cells s p = Some (Vals w xs)) \<Longrightarrow> ends P (dev_vals w p) (\<lambda>ys s. ys = xs \<and> P s)"
  by (auto simp: ends_def dev_vals_def)

lemma ends_read: "ends P m (\<lambda>y s. y = x \<and> P s) \<Longrightarrow> ends P (k x) Q \<Longrightarrow> ends P (act_bind m k) Q"
  by (erule ends_bind) (auto simp: ends_def)

lemma ends_launched: "r = Some x \<Longrightarrow> ends P (k x) Q \<Longrightarrow> ends P (act_bind (launched r) k) Q"
  by (simp add: launched_def ends_def act_bind_def act_basic)

lemma ends_returns: "ends P (k x) Q \<Longrightarrow> ends P (act_bind (act_return x) k) Q"
  by (simp add: ends_def act_bind_def act_basic)

lemma ends_lifted: "r = Inr x \<Longrightarrow> ends P (k x) Q \<Longrightarrow> ends P (act_bind (act_lift r) k) Q"
  by (simp add: ends_def act_bind_def act_basic)

end
