(* ===== verification/Join_Runs.thy ===== *)
theory Join_Runs
  imports Join_Frames
begin

text \<open>
  What the host functions of Join_Kernels do to device memory when their launches end: the hash table
  holds the build rows, the row ids of a probe are in new arrays, every temporary array is freed again.
\<close>

section \<open>The probes do not look at the build keys\<close>

lemma same_layout [simp]:
  "ht_at (T\<lparr>t_keys := ks\<rparr>) = ht_at T" "n_ht_column (T\<lparr>t_keys := ks\<rparr>) = n_ht_column T"
  by (simp_all add: ht_at_def n_ht_column_def fun_eq_iff)

lemma local_found_keys [simp]: "local_found (T\<lparr>t_keys := ks\<rparr>) = local_found T"
  by (simp add: local_found_def fun_eq_iff)

lemma first_match_keys_some:
  "first_match T cm keys ht r slot = Some y \<Longrightarrow> first_match (T\<lparr>t_keys := ks\<rparr>) cm keys ht r slot = Some y"
proof (erule first_match.raw_induct [rotated, of _ _ _ _ _ _ _ "\<lambda>T cm keys ht r slot y.
    first_match (T\<lparr>t_keys := ks\<rparr>) cm keys ht r slot = Some y"])
qed (subst first_match.simps, auto split: if_splits)

lemma first_match_keys [simp]: "first_match (T\<lparr>t_keys := ks\<rparr>) cm keys ht r slot = first_match T cm keys ht r slot"
proof (cases "first_match T cm keys ht r slot")
  case None
  moreover have "first_match T cm keys ht r slot = Some y" if "first_match (T\<lparr>t_keys := ks\<rparr>) cm keys ht r slot = Some y" for y
    using first_match_keys_some [OF that, of "t_keys T"] by simp
  ultimately show ?thesis by (cases "first_match (T\<lparr>t_keys := ks\<rparr>) cm keys ht r slot") auto
qed (simp add: first_match_keys_some)

lemma all_matches_keys_some:
  "all_matches T cm keys ht r slot = Some y \<Longrightarrow> all_matches (T\<lparr>t_keys := ks\<rparr>) cm keys ht r slot = Some y"
proof (erule all_matches.raw_induct [rotated, of _ _ _ _ _ _ _ "\<lambda>T cm keys ht r slot y.
    all_matches (T\<lparr>t_keys := ks\<rparr>) cm keys ht r slot = Some y"])
qed (subst all_matches.simps, auto split: if_splits bind_splits)

lemma all_matches_keys [simp]: "all_matches (T\<lparr>t_keys := ks\<rparr>) cm keys ht r slot = all_matches T cm keys ht r slot"
proof (cases "all_matches T cm keys ht r slot")
  case None
  moreover have "all_matches T cm keys ht r slot = Some y" if "all_matches (T\<lparr>t_keys := ks\<rparr>) cm keys ht r slot = Some y" for y
    using all_matches_keys_some [OF that, of "t_keys T"] by simp
  ultimately show ?thesis by (cases "all_matches (T\<lparr>t_keys := ks\<rparr>) cm keys ht r slot") auto
qed (simp add: all_matches_keys_some)

lemma row_matches_keys [simp]:
  "row_first_match (T\<lparr>t_keys := ks\<rparr>) = row_first_match T" "row_matches (T\<lparr>t_keys := ks\<rparr>) = row_matches T"
  by (simp_all add: row_first_match_def row_matches_def fun_eq_iff split: option.splits)

lemma single_table_keys [simp]: "single_table (T\<lparr>t_keys := ks\<rparr>) j = (single_table T j)\<lparr>t_keys := ks\<rparr>"
  by (simp add: single_table_def)

lemma marked_keys [simp]: "marked (T\<lparr>t_keys := ks\<rparr>) = marked T"
  by (simp add: marked_def mark_writes_def fun_eq_iff)

lemma probeHashTableSingleMatch_keys [simp]:
  "probeHashTableSingleMatch (T\<lparr>t_keys := ks\<rparr>) cm j keys N ht = probeHashTableSingleMatch T cm j keys N ht"
proof -
  have flag: "selection_flag (T\<lparr>t_keys := ks\<rparr>) = selection_flag T" for T
    by (simp add: selection_flag_def fun_eq_iff)
  have right: "single_right (T\<lparr>t_keys := ks\<rparr>) = single_right T" for T
    by (simp add: single_right_def fun_eq_iff split: option.split)
  have match: "probe_single_match (T\<lparr>t_keys := ks\<rparr>) = probe_single_match T" for T
    by (simp add: probe_single_match_def right fun_eq_iff)
  show ?thesis unfolding probeHashTableSingleMatch_def Let_def single_table_keys row_matches_keys marked_keys flag match
    by simp
qed

lemma probeHashTableMark_keys [simp]:
  "probeHashTableMark (T\<lparr>t_keys := ks\<rparr>) cm keys N ht output = probeHashTableMark T cm keys N ht output"
  by (simp add: probeHashTableMark_def Let_def probe_mark_def)

lemma probe_table_join_table: "probe_table len cm rj = (join_table keys len cm rj)\<lparr>t_keys := []\<rparr>"
  by (simp add: probe_table_def join_table_def)

section \<open>Reading keys\<close>

text \<open>The key arrays \<open>ps\<close> hold the elements \<open>vss\<close>, of size \<open>w\<close>, in every state with \<open>P\<close>.\<close>

definition keys_known :: "('v device \<Rightarrow> bool) \<Rightarrow> u64 \<Rightarrow> ptr list \<Rightarrow> 'v list list \<Rightarrow> bool" where
  "keys_known P w ps vss \<longleftrightarrow> length ps = length vss \<and>
     (\<forall>i < length ps. \<forall>s. P s \<longrightarrow> cells s (ps ! i) = Some (Vals w (vss ! i)))"

definition keys_read :: "'v join_kernels \<Rightarrow> u64 \<Rightarrow> 'v list list \<Rightarrow> int list list" where
  "keys_read K N vss = map (\<lambda>vs. map (key_value K) (take (unat N) vs)) vss"

lemma keys_known_weaken: "keys_known P w ps vss \<Longrightarrow> (\<And>s. P' s \<Longrightarrow> P s) \<Longrightarrow> keys_known P' w ps vss"
  by (auto simp: keys_known_def)

lemma ends_read_keys:
  "keys_known P w ps vss \<Longrightarrow> \<forall>vs \<in> set vss. unat N \<le> length vs \<Longrightarrow>
   ends P (act_mapM (read_key K w N) ps) (\<lambda>ks s. ks = keys_read K N vss \<and> P s)"
proof (induction ps arbitrary: vss)
  case Nil
  then show ?case by (auto simp: keys_known_def keys_read_def ends_def act_basic)
next
  case (Cons p ps)
  then obtain vs vss' where v: "vss = vs # vss'" by (cases vss) (auto simp: keys_known_def)
  have hd: "cells s p = Some (Vals w vs)" if "P s" for s
    using Cons.prems(1) that v by (auto simp: keys_known_def)
  have tl: "keys_known P w ps vss'"
    unfolding keys_known_def
  proof (intro conjI allI impI)
    show "length ps = length vss'" using Cons.prems(1) v by (simp add: keys_known_def)
    fix i s assume "i < length ps" "P s"
    then show "cells s (ps ! i) = Some (Vals w (vss' ! i))"
      using Cons.prems(1) v unfolding keys_known_def by (auto dest!: spec [of _ "Suc i"])
  qed
  have one: "ends P (read_key K w N p) (\<lambda>k s. k = map (key_value K) (take (unat N) vs) \<and> P s)"
    unfolding read_key_def
    by (rule ends_read [OF arrays_vals [OF hd]], assumption, rule ends_lifted [OF first_n_Inr])
       (use Cons.prems(2) v in \<open>auto simp: ends_def act_basic\<close>)
  have rest: "ends P (act_mapM (read_key K w N) ps) (\<lambda>ks s. ks = keys_read K N vss' \<and> P s)"
    using Cons.IH [OF tl] Cons.prems(2) v by simp
  show ?case unfolding act_mapM.simps
    by (rule ends_read [OF one], rule ends_read [OF rest]) (simp add: ends_def act_basic keys_read_def v)
qed

lemma ends_keys_on_device: "ends (arrays rmm d ts M) (keys_on_device rmm n) (\<lambda>p. arrays rmm d (p # ts) M)"
  unfolding keys_on_device_def by (rule ends_bind [OF arrays_host_alloc arrays_malloc])

section \<open>The host functions\<close>

lemma build_ends:
  assumes "N \<noteq> 0" "len \<noteq> 0" and ht: "ht \<in> set ts"
    and keys: "keys_known (arrays rmm d ts M) w keys vss" "\<forall>vs \<in> set vss. unat N \<le> length vs"
    and run: "k_build K (join_table (keys_read K N vss) len modes rj, unat N) = Some words"
  shows "ends (arrays rmm d ts M) (dev_buildHashTable rmm K w keys ht len N modes rj)
    (\<lambda>_. arrays rmm d (remove1 ht ts) (M(ht \<mapsto> RowIds words)))"
proof -
  have more: "arrays rmm d ts M s" if "arrays rmm d (p # ts) M s" for p s
    using that by (auto simp: arrays_def)
  have "ends (arrays rmm d ts M) (act_bind (keys_on_device rmm (length modes)) (\<lambda>keys_dev.
           act_bind (act_mapM (read_key K w N) keys) (\<lambda>ks.
           act_bind (launched (k_build K (join_table ks len modes rj, unat N))) (\<lambda>words.
           act_bind (dev_write ht (RowIds words)) (\<lambda>_. dev_free keys_dev)))))
    (\<lambda>_. arrays rmm d (remove1 ht ts) (M(ht \<mapsto> RowIds words)))"
  proof (rule ends_bind [OF ends_keys_on_device])
    fix p
    have known: "keys_known (arrays rmm d (p # ts) M) w keys vss" by (rule keys_known_weaken [OF keys(1) more])
    show "ends (arrays rmm d (p # ts) M) (act_bind (act_mapM (read_key K w N) keys) (\<lambda>ks.
           act_bind (launched (k_build K (join_table ks len modes rj, unat N))) (\<lambda>words.
           act_bind (dev_write ht (RowIds words)) (\<lambda>_. dev_free p))))
       (\<lambda>_. arrays rmm d (remove1 ht ts) (M(ht \<mapsto> RowIds words)))"
    proof (rule ends_read [OF ends_read_keys [OF known keys(2)]], rule ends_launched [OF run])
      have step: "ends (\<lambda>s. p \<noteq> ht \<and> arrays rmm d (p # ts) M s) (dev_write ht (RowIds words))
          (\<lambda>_. arrays rmm d (p # remove1 ht ts) (M(ht \<mapsto> RowIds words)))"
        by (rule ends_pure, rule ends_consequence [OF arrays_write [of ht "p # ts" M rmm d]]) (use ht in auto)
      show "ends (arrays rmm d (p # ts) M) (act_bind (dev_write ht (RowIds words)) (\<lambda>_. dev_free p))
          (\<lambda>_. arrays rmm d (remove1 ht ts) (M(ht \<mapsto> RowIds words)))"
      proof (rule ends_strengthen [OF ends_bind [OF step]])
        show "ends (arrays rmm d (p # remove1 ht ts) (M(ht \<mapsto> RowIds words))) (dev_free p)
            (\<lambda>_. arrays rmm d (remove1 ht ts) (M(ht \<mapsto> RowIds words)))"
          using arrays_free [of p "p # remove1 ht ts" rmm d "M(ht \<mapsto> RowIds words)"] by simp
        show "arrays rmm d (p # ts) M s \<Longrightarrow> p \<noteq> ht \<and> arrays rmm d (p # ts) M s" for s
          using ht arrays_temp by blast
      qed
    qed
  qed
  with assms(1,2) show ?thesis by (simp add: dev_buildHashTable_def)
qed

text \<open>Temporary arrays are used and freed in any order.\<close>

lemma arrays_distinct: "arrays rmm d (xs @ p # ys) M s \<Longrightarrow> remove1 p (xs @ p # ys) = xs @ ys"
  by (auto simp: arrays_def remove1_append)

lemma arrays_write_at:
  "ends (arrays rmm d (xs @ p # ys) M) (dev_write p a) (\<lambda>_. arrays rmm d (xs @ ys) (M(p \<mapsto> a)))"
  using arrays_write [of p "xs @ p # ys" M rmm d a] arrays_distinct [of rmm d xs p ys M]
  unfolding ends_def by (fastforce split: sum.splits)

lemma arrays_free_at:
  "ends (arrays rmm d (xs @ p # ys) M) (dev_free p) (\<lambda>_. arrays rmm d (xs @ ys) M)"
  using arrays_free [of p "xs @ p # ys" rmm d M] arrays_distinct [of rmm d xs p ys M]
  unfolding ends_def by (fastforce split: sum.splits)

lemma arrays_rewrite:
  assumes "\<And>s. P s \<Longrightarrow> cells s p = Some a"
  shows "ends P (dev_write p a) (\<lambda>_. P)"
proof -
  have "s\<lparr>cells := (cells s)(p \<mapsto> a)\<rparr> = s" if "P s" for s using assms [OF that] by (simp add: map_upd_triv)
  then show ?thesis by (auto simp: ends_def dev_write_def act_basic)
qed

text \<open>A probe for one side only: the rows of the launch are in a new array, the table is as before.\<close>

lemma single_ends:
  assumes "N \<noteq> 0" "len \<noteq> 0" and jm: "jm \<noteq> 0" "jm \<noteq> 3"
    and ht: "cells d ht = Some (RowIds words)"
    and keys: "\<And>ts M. keys_known (arrays rmm d ts M) w keys vss" "\<forall>vs \<in> set vss. unat N \<le> length vs"
    and run: "k_single K (jm, probe_table len modes False, modes, keys_read K N vss, unat N, words) = Some (l, r, cnt, words)"
  shows "ends (arrays rmm d [] Map.empty) (dev_probeHashTableSingleMatch rmm K w keys ht len refs N modes jm)
    (\<lambda>res s. probe_count res = Some cnt \<and> arrays rmm d [] [row_ids_left res \<mapsto> RowIds l] s)"
proof -
  have known: "cells s ht = Some (RowIds words)" if "arrays rmm d ts M s" for ts M s
    using arrays_old [OF that ht] .
  have run': "k_single K (jm, probe_table len modes (jm = 3), modes, keys_read K N vss, unat N, words) = Some (l, r, cnt, words)"
    using run jm by simp
  have launch: "ends (arrays rmm d [left, cond, keys_dev, count_dev] Map.empty)
     (act_bind (act_mapM (read_key K w N) keys) (\<lambda>ks.
           act_bind (dev_rows ht) (\<lambda>words.
           act_bind (launched (k_single K (jm, probe_table len modes (jm = 3), modes, ks, unat N, words)))
             (\<lambda>(l, r, h_count, words').
           act_bind (dev_write left (RowIds l)) (\<lambda>_.
           act_bind (act_return ()) (\<lambda>_.
           act_bind (dev_write ht (RowIds words')) (\<lambda>_.
           act_bind (dev_host_alloc 8 1) (\<lambda>_.
           act_bind (dev_free keys_dev) (\<lambda>_.
           act_bind (dev_free count_dev) (\<lambda>_.
           act_bind (dev_free cond) (\<lambda>_.
           act_return \<lparr>row_ids_left = left, row_ids_right = right, probe_count = Some h_count\<rparr>)))))))))))
     (\<lambda>res s. probe_count res = Some cnt \<and> arrays rmm d [] [row_ids_left res \<mapsto> RowIds l] s)"
    for left cond keys_dev count_dev right
    apply (rule ends_read [OF ends_read_keys [OF keys]])
    apply (rule ends_read [OF arrays_rows [OF known]], assumption)
    apply (rule ends_launched [OF run'])
    apply (simp only: prod.case)
    apply (rule ends_bind [OF arrays_write_at [of rmm d "[]", simplified]])
    apply (rule ends_returns)
    apply (rule ends_bind [OF arrays_rewrite [OF known]], assumption)
    apply (rule ends_bind [OF arrays_host_alloc])
    apply (rule ends_bind [OF arrays_free_at [of rmm d "[cond]", simplified]])
    apply (rule ends_bind [OF arrays_free_at [of rmm d "[cond]", simplified]])
    apply (rule ends_bind [OF arrays_free_at [of rmm d "[]", simplified]])
    apply (simp add: ends_def act_basic)
    done
  have "ends (arrays rmm d [] Map.empty) (act_bind (dev_malloc rmm 8 1) (\<lambda>count_dev.
           act_bind (keys_on_device rmm (length modes)) (\<lambda>keys_dev.
           act_bind (dev_malloc rmm 4 (of_nat (length modes))) (\<lambda>cond.
           act_bind (dev_malloc rmm 8 N) (\<lambda>left.
           act_bind (act_return (row_ids_right refs)) (\<lambda>right.
           act_bind (act_mapM (read_key K w N) keys) (\<lambda>ks.
           act_bind (dev_rows ht) (\<lambda>words.
           act_bind (launched (k_single K (jm, probe_table len modes (jm = 3), modes, ks, unat N, words)))
             (\<lambda>(l, r, h_count, words').
           act_bind (dev_write left (RowIds l)) (\<lambda>_.
           act_bind (act_return ()) (\<lambda>_.
           act_bind (dev_write ht (RowIds words')) (\<lambda>_.
           act_bind (dev_host_alloc 8 1) (\<lambda>_.
           act_bind (dev_free keys_dev) (\<lambda>_.
           act_bind (dev_free count_dev) (\<lambda>_.
           act_bind (dev_free cond) (\<lambda>_.
           act_return \<lparr>row_ids_left = left, row_ids_right = right, probe_count = Some h_count\<rparr>))))))))))))))))
     (\<lambda>res s. probe_count res = Some cnt \<and> arrays rmm d [] [row_ids_left res \<mapsto> RowIds l] s)"
    by (rule ends_bind [OF arrays_malloc], rule ends_bind [OF ends_keys_on_device], rule ends_bind [OF arrays_malloc],
        rule ends_bind [OF arrays_malloc], rule ends_returns, rule launch)
  then show ?thesis using assms(1-4) by (simp add: dev_probeHashTableSingleMatch_def)
qed

end
