(* ===== verification/Column_Frames.thy ===== *)
theory Column_Frames
  imports Executor_Refinement Expression_Select Cudf_Join
begin

text \<open>
  How columns get to cuDF and back: gathering a column, viewing it as a cuDF column, and adopting a cuDF
  column, each of which leaves the arrays that were there before.
\<close>

section \<open>Gathering\<close>

lemma empty_column_False:
  assumes "readable D d c vs bs" and "length vs = n" "0 < n" and "row_ids c = nullptr" and "dev_wf rmm d"
  shows "empty_column c = Inr False"
proof -
  have "column_length c \<noteq> 0" using assms by (auto simp: readable_def)
  moreover have "dw_data (data_wrapper c) \<noteq> nullptr"
    using assms dev_wf_nullptr [OF assms(5)]
    by (auto simp: readable_def values_of_def split: option.splits list.splits)
  ultimately show ?thesis using assms(4) by (simp add: empty_column_def)
qed

lemma ResolveType_plain:
  assumes "empty_column c = Inr False" and "row_ids c = nullptr" and "ResolveTypeMaterializeExpression D rmm w c s = (r, s')"
  shows "s' = s"
  using assms by (auto simp: ResolveTypeMaterializeExpression_def act_bind_def act_basic Let_def split: sum.splits)

lemma HandleMaterialize_plain:
  assumes "empty_column c = Inr False" and "row_ids c = nullptr" and "ct_id (dw_type (data_wrapper c)) \<noteq> C_VARCHAR"
    and "HandleMaterializeExpression D rmm cub c s = (r, s')"
  shows "s' = s"
  using assms(3,4) ResolveType_plain [OF assms(1,2)]
  by (cases "ct_id (dw_type (data_wrapper c))")
    (auto simp: HandleMaterializeExpression_def act_bind_def act_basic split: sum.splits if_splits)

lemma gather_input:
  assumes wf: "dev_wf rmm s" and inp: "input_ok E n s c (t, vs, bs)" and n: "0 < n" "int n \<le> INT32_MAX"
    and m: "HandleMaterializeExpression (ee_duckdb E) rmm cub c s = (r, s')"
  shows "r = Inl BadAlloc \<or> (\<exists>k. r = Inr k \<and> device_extends rmm s s' \<and>
     plain_column (ee_duckdb E) s' k t n vs bs \<and> dw_type (data_wrapper k) = dw_type (data_wrapper c))"
proof -
  let ?D = "ee_duckdb E" and ?t = "dw_type (data_wrapper c)"
  have rd: "readable ?D s c vs bs" "length vs = n" "ct_id ?t \<noteq> C_VARCHAR" "cudf_type_of_column ?D ?t = Inr t"
    using inp by (simp_all add: input_ok_def)
  obtain w where w: "getColumnTypeSize ?D ?t = Inr w"
    using values_of_rows_size [of ?D s c vs] rd n(1) by (auto simp: readable_def)
  have no_refusal: "ct_id ?t \<noteq> C_INT128" "ct_id ?t \<noteq> C_INVALID" "\<not> (ct_id ?t = C_DECIMAL \<and> w = 2)"
    using rd(4) w by (auto simp: cudf_type_of_column_def split: option.splits)
  have ext: "device_extends rmm s s'" if k: "r = Inr k" for k
  proof (cases "row_ids c = nullptr")
    case True
    then show ?thesis
      using HandleMaterialize_plain [OF empty_column_False [OF rd(1,2) n(1) True wf] True rd(3) m] wf by simp
  next
    case False
    then have "retained (mgr s) (dw_data (data_wrapper c))" "retained (mgr s) (dw_validity_mask (data_wrapper c))"
      using inp by (simp_all add: input_ok_def)
    from HandleMaterializeExpression_extends [OF wf this rd(3)] m k show ?thesis by blast
  qed
  from HandleMaterializeExpression_result [OF wf rd(1) refl rd(3) m] w no_refusal
  have "r = Inl BadAlloc \<or> (\<exists>k. r = Inr k \<and> materialised ?D s' ?t vs bs k)" by auto
  then show ?thesis
  proof (elim disjE exE conjE)
    fix k assume k: "r = Inr k" "materialised ?D s' ?t vs bs k"
    then have "plain_column ?D s' k t n vs bs"
      using rd n by (simp add: materialised_def plain_column_def)
    with k ext [OF k(1)] show ?thesis by (simp add: materialised_def)
  qed simp
qed

lemma plain_column_mono:
  "device_extends rmm d d' \<Longrightarrow> plain_column D d c t n vs bs \<Longrightarrow> plain_column D d' c t n vs bs"
  by (auto simp: plain_column_def intro: values_of_mono validity_of_mono)

section \<open>Adopting\<close>

lemma dev_adopt_cases:
  assumes wf: "dev_wf rmm d" and m: "dev_adopt rmm n a d = (r, d')" and n: "n \<noteq> 0"
  obtains (refused) "r = Inl BadAlloc"
    | (adopted) p where "r = Inr p" and "p \<noteq> nullptr" and "p \<notin> dom (cells d)" and "device_extends rmm d d'"
        and "cells d' p = Some a" and "retained (mgr d') p"
proof -
  let ?s = "mgr d"
  have fresh: "rmm_fresh rmm" and pw: "pool_wf ?s" using wf by (simp_all add: dev_wf_def)
  show thesis
  proof (cases "rmm (rmm_live ?s) n")
    case None
    with m n have "r = Inl BadAlloc"
      by (auto simp: dev_adopt_def adoptBuffer_def act_bind_def mr_allocate_def act_basic)
    then show thesis by (rule refused)
  next
    case (Some p)
    with fresh have p: "p \<noteq> nullptr" "p \<notin> fst ` set (rmm_live ?s)" by (auto simp: rmm_fresh_def)
    define s' where "s' = snd (adoptBuffer rmm n ?s)"
    have ad: "adoptBuffer rmm n ?s = (Inr p, s')"
      using Some n by (simp add: s'_def adoptBuffer_def act_bind_def mr_allocate_def act_basic)
    have fields: "owned s' = owned ?s @ [(p, n)]" "gpuCache s' = gpuCache ?s" "cpuCache s' = cpuCache ?s"
      "available_gpu_cache_size s' = available_gpu_cache_size ?s" "cache_size_per_gpu s' = cache_size_per_gpu ?s"
      "locked_allocation_table s' = locked_allocation_table ?s" "rmm_stored_buffers s' = rmm_stored_buffers ?s @ [(p, n)]"
      using Some n by (simp_all add: s'_def adoptBuffer_def act_bind_def mr_allocate_def act_basic owned_def)
    have d': "d' = d\<lparr>mgr := s', cells := (cells d)(p \<mapsto> a)\<rparr>" and r: "r = Inr p"
      using m ad p(1) by (simp_all add: dev_adopt_def)
    have region: "in_cache_region s' = in_cache_region ?s"
      using fields by (intro ext in_cache_region_frame) simp_all
    have out: "\<not> in_cache_region ?s p" using wf Some by (auto simp: dev_wf_def rmm_outside_def)
    have "set (owned ?s) \<subseteq> set (rmm_live ?s)" using pw by (simp add: pool_wf_def)
    then have new: "p \<notin> dom (cells d)" using wf out p(2) unfolding dev_wf_def by blast
    have "pool_wf s'" using keepsD [OF keeps_adoptBuffer [OF fresh] pw ad] .
    then have "dev_wf rmm d'" using wf by (auto simp: d' dev_wf_def rmm_outside_def region fields(1))
    moreover have "\<forall>q. retained ?s q \<longrightarrow> retained s' q" by (auto simp: retained_def region fields)
    ultimately have "device_extends rmm d d'" using new by (auto simp: d' device_extends_def map_le_def)
    moreover have "cells d' p = Some a" by (simp add: d')
    moreover have "(p, n) \<in> set (rmm_stored_buffers s')" by (simp add: fields)
    then have "fst (p, n) \<in> fst ` set (rmm_stored_buffers s')" by (rule imageI)
    then have "retained (mgr d') p" by (simp add: d' retained_def)
    ultimately show thesis using adopted r p(1) new by blast
  qed
qed

text \<open>A cuDF column of \<open>n\<close> rows, of a type that columns can have.\<close>

definition adoptable :: "('d, 'v) exec_env \<Rightarrow> nat \<Rightarrow> 'v cudf_column \<Rightarrow> bool" where
  "adoptable E n cc \<longleftrightarrow> length (cc_data cc) = n \<and> length (cc_mask cc) = n \<and> 0 < n \<and> int n \<le> INT32_MAX \<and>
     (\<exists>ct w. cudf_type_of_column (ee_duckdb E) ct = Inr (cc_type cc) \<and> ct_id ct \<noteq> C_VARCHAR \<and>
        getColumnTypeSize (ee_duckdb E) ct = Inr w \<and> w = cudf_size_of (cudf_id (cc_type cc))) \<and>
     (cudf_nullable (ee_cudf E) cc \<or> cc_mask cc = replicate n True)"

lemma cudf_type_widen:
  assumes D: "duckdb_env_ok D" and ct: "cudf_type_of_column D t = Inr ct"
  shows "cudf_type_of_column D (widen_decimal D t) = Inr ct"
proof (cases "ct_id t = C_DECIMAL")
  case False
  with ct show ?thesis
    by (cases "ct_id t") (simp_all add: cudf_type_of_column_def widen_decimal_def ColumnType_def)
next
  case True
  note size = widen_decimal_size [OF D ct]
  from ct True obtain info sz c where "ct_decimal_info t = Some info" "GetDecimalTypeSize D info = Inr sz"
    "ct = cudf_decimal c (- uint (dec_scale info))"
    "sz = 4 \<and> c = CUDF_DECIMAL32 \<or> sz = 8 \<and> c = CUDF_DECIMAL64 \<or> sz = 16 \<and> c = CUDF_DECIMAL128"
    by (rule cudf_type_of_decimal)
  with True ct size show ?thesis
    by (auto simp: cudf_type_of_column_def widen_decimal_def type_defs getColumnTypeSize_def split: option.splits)
qed

lemma mask_bytes_nonzero: "0 < unat n \<Longrightarrow> int (unat n) \<le> INT32_MAX \<Longrightarrow> getMaskBytesSize n \<noteq> 0"
proof -
  assume n: "0 < unat n" "int (unat n) \<le> INT32_MAX"
  have "unat n \<le> 2147483647" using n(2) unfolding INT32_MAX_def by linarith
  then have "unat n \<le> 2 ^ 64 - 1024" by (rule le_trans) simp
  then have "unat (getMaskBytesSize n) \<noteq> 0" using getMaskBytesSize_nat [of n] n by (simp add: div_greater_zero_iff)
  then show ?thesis by auto
qed

text \<open>The validity mask of a column that is adopted.\<close>

lemma adopt_mask:
  assumes wf: "dev_wf rmm d" and n: "0 < unat n" "int (unat n) \<le> INT32_MAX"
    and all: "\<not> nullable \<Longrightarrow> ms = replicate (unat n) True"
    and m: "(if nullable then dev_adopt rmm (getMaskBytesSize n) (Bits ms) else createNullMask rmm n) d = (r, d')"
  shows "r = Inl BadAlloc \<or>
    (\<exists>p. r = Inr p \<and> p \<noteq> nullptr \<and> device_extends rmm d d' \<and> cells d' p = Some (Bits ms))"
proof (cases nullable)
  case False
  with all m createNullMask_extends [OF wf] show ?thesis by auto
next
  case True
  have "getMaskBytesSize n \<noteq> 0" using n by (rule mask_bytes_nonzero)
  moreover have "dev_adopt rmm (getMaskBytesSize n) (Bits ms) d = (r, d')" using m True by simp
  ultimately show ?thesis using dev_adopt_cases [OF wf] by metis
qed

lemma values_of_first:
  assumes "row_ids c = nullptr" and "unat (column_length c) = length vs"
    and "cells d (dw_data (data_wrapper c)) = Some (Vals w vs)" and "getColumnTypeSize D (dw_type (data_wrapper c)) = Inr w"
  shows "values_of D d c = Some vs"
  using assms pick_all [of vs]
  by (cases "length vs") (auto simp: values_of_def column_row_list_def split: list.splits)

lemma validity_of_first:
  assumes "row_ids c = nullptr" and "unat (column_length c) = length bs" and "dw_validity_mask (data_wrapper c) \<noteq> nullptr"
    and "cells d (dw_validity_mask (data_wrapper c)) = Some (Bits bs)"
  shows "validity_of d c = Some bs"
  using assms pick_all [of bs] by (auto simp: validity_of_def column_row_list_def)

lemma setFromCudfColumn_plain:
  assumes D: "duckdb_env_ok (ee_duckdb E)" and wf: "dev_wf (ee_rmm E) d" and cc: "adoptable E n cc"
    and m: "setFromCudfColumn E cc u c d = (r, d')"
  shows "r = Inl BadAlloc \<or> (\<exists>k. r = Inr k \<and> device_extends (ee_rmm E) d d' \<and>
     plain_column (ee_duckdb E) d' k (cc_type cc) n (cc_data cc) (cc_mask cc) \<and> dw_validity_mask (data_wrapper k) \<noteq> nullptr)"
proof -
  let ?D = "ee_duckdb E" and ?rmm = "ee_rmm E"
  let ?w = "cudf_size_of (cudf_id (cc_type cc))" and ?n = "cudf_column_length cc"
  from cc obtain ct where ct: "cudf_type_of_column ?D ct = Inr (cc_type cc)" "ct_id ct \<noteq> C_VARCHAR"
    "getColumnTypeSize ?D ct = Inr ?w" by (auto simp: adoptable_def)
  have len: "length (cc_data cc) = n" "length (cc_mask cc) = n" "0 < n" "int n \<le> INT32_MAX"
    and all: "\<not> cudf_nullable (ee_cudf E) cc \<Longrightarrow> cc_mask cc = replicate n True"
    using cc by (auto simp: adoptable_def)
  have n: "unat ?n = n" using len by (simp add: cudf_column_length_def unat_of_nat INT32_MAX_def)
  have not_string: "cc_type cc \<noteq> cudf_data CUDF_STRING"
    using cudf_size_agrees [OF ct(1,3,2)] by (auto simp: cudf_data_def)
  define t' where "t' = widen_decimal ?D ct"
  have t': "column_type_of_cudf ?D (cc_type cc) = Inr t'" "getColumnTypeSize ?D t' = Inr ?w" "ct_id t' \<noteq> C_VARCHAR"
    "cudf_type_of_column ?D t' = Inr (cc_type cc)"
    using cudf_dec_enc [OF ct(1)] widen_decimal_size [OF D ct(1)] ct(2,3) cudf_type_widen [OF D ct(1)]
    by (auto simp: t'_def widen_decimal_def ColumnType_def SetDecimalTypeInfo_def split: GPUColumnTypeId.splits option.splits)
  have w: "unat ?w \<noteq> 0" "unat ?w \<le> 16" by (auto simp: cudf_size_of_def split: cudf_type_id.splits)
  have "n \<le> 2147483647" using len(4) unfolding INT32_MAX_def by linarith
  with w(2) have "unat ?w * n \<le> 16 * 2147483647" by (rule mult_le_mono)
  then have "unat (?w * ?n) = unat ?w * n" using n by (simp add: unat_mult_no_wrap)
  then have "unat (?w * ?n) \<noteq> 0" using w len by simp
  then have size: "?w * ?n \<noteq> 0" by auto
  obtain r1 d1 where a1: "dev_adopt ?rmm (?w * ?n) (Vals ?w (cc_data cc)) d = (r1, d1)"
    by (cases "dev_adopt ?rmm (?w * ?n) (Vals ?w (cc_data cc)) d")
  from wf a1 size show ?thesis
  proof (cases rule: dev_adopt_cases)
    case refused
    with m a1 not_string show ?thesis by (simp add: setFromCudfColumn_def act_bind_def Let_def)
  next
    case (adopted p)
    then have wf1: "dev_wf ?rmm d1" by (simp add: device_extends_def)
    obtain r2 d2 where a2: "(if cudf_nullable (ee_cudf E) cc then dev_adopt ?rmm (getMaskBytesSize ?n) (Bits (cc_mask cc))
        else createNullMask ?rmm ?n) d1 = (r2, d2)"
      by (cases "(if cudf_nullable (ee_cudf E) cc then dev_adopt ?rmm (getMaskBytesSize ?n) (Bits (cc_mask cc))
        else createNullMask ?rmm ?n) d1")
    have "r2 = Inl BadAlloc \<or> (\<exists>q. r2 = Inr q \<and> q \<noteq> nullptr \<and> device_extends ?rmm d1 d2 \<and> cells d2 q = Some (Bits (cc_mask cc)))"
      using n len all by (intro adopt_mask [OF wf1 _ _ _ a2]) auto
    then show ?thesis
    proof (elim disjE exE conjE)
      assume "r2 = Inl BadAlloc"
      with m a1 a2 not_string adopted(1) show ?thesis by (simp add: setFromCudfColumn_def act_bind_def Let_def)
    next
      fix q assume q: "r2 = Inr q" "q \<noteq> nullptr" "device_extends ?rmm d1 d2" "cells d2 q = Some (Bits (cc_mask cc))"
      let ?k = "\<lparr>data_wrapper = \<lparr>dw_type = t', dw_data = p, dw_size = ?n, dw_offset = nullptr, dw_num_bytes = ?n * ?w,
          dw_is_string_data = False, dw_validity_mask = q, dw_mask_bytes = getMaskBytesSize ?n\<rparr>,
          row_ids = nullptr, row_id_count = Some 0, column_length = ?n, is_unique = u\<rparr>"
      have run: "r = Inr ?k" "d' = d2"
        using m a1 a2 not_string adopted(1) q(1) t'(1,2) by (simp_all add: setFromCudfColumn_def act_bind_def act_basic Let_def)
      have "cells d2 p = Some (Vals ?w (cc_data cc))"
        using adopted(5) q(3) by (auto simp: device_extends_def map_le_def dom_def)
      then have "values_of ?D d2 ?k = Some (cc_data cc)" using n len t' by (intro values_of_first) simp_all
      moreover have "validity_of d2 ?k = Some (cc_mask cc)" using n len q by (intro validity_of_first) simp_all
      ultimately have "plain_column ?D d2 ?k (cc_type cc) n (cc_data cc) (cc_mask cc)"
        using n len t' by (simp add: plain_column_def)
      moreover have "device_extends ?rmm d d2" using adopted(4) q(3) by (rule device_extends_trans)
      ultimately show ?thesis using run q(2) by (intro disjI2 exI [of _ ?k]) simp
    qed
  qed
qed

section \<open>Operations that only add arrays\<close>

text \<open>From \<open>d\<close>, memory runs out, or every array that was there stays and \<open>Q\<close> holds of result and device.\<close>

definition grows :: "rmm_pool \<Rightarrow> 'v device \<Rightarrow> ('v device, 'a) act \<Rightarrow> ('a \<Rightarrow> 'v device \<Rightarrow> bool) \<Rightarrow> bool" where
  "grows rmm d m Q \<longleftrightarrow> dev_wf rmm d \<longrightarrow> (case m d of (Inl e, _) \<Rightarrow> out_of_memory e
     | (Inr x, d') \<Rightarrow> device_extends rmm d d' \<and> Q x d')"

lemma grows_intro:
  "(\<And>r d'. dev_wf rmm d \<Longrightarrow> m d = (r, d') \<Longrightarrow>
     (\<exists>e. r = Inl e \<and> out_of_memory e) \<or> (\<exists>x. r = Inr x \<and> device_extends rmm d d' \<and> Q x d')) \<Longrightarrow> grows rmm d m Q"
  by (fastforce simp: grows_def split: prod.splits sum.splits)

lemma grows_elim:
  assumes "grows rmm d m Q" and "dev_wf rmm d" and "m d = (r, d')"
  shows "(\<exists>e. r = Inl e \<and> out_of_memory e) \<or> (\<exists>x. r = Inr x \<and> device_extends rmm d d' \<and> Q x d')"
  using assms by (cases r) (simp_all add: grows_def)

lemma grows_bind:
  assumes m: "grows rmm d m P" and k: "\<And>x d'. device_extends rmm d d' \<Longrightarrow> P x d' \<Longrightarrow> grows rmm d' (k x) Q"
  shows "grows rmm d (act_bind m k) Q"
proof (rule grows_intro)
  fix r d' assume wf: "dev_wf rmm d" and run: "act_bind m k d = (r, d')"
  obtain r1 d1 where m1: "m d = (r1, d1)" by (cases "m d")
  show "(\<exists>e. r = Inl e \<and> out_of_memory e) \<or> (\<exists>x. r = Inr x \<and> device_extends rmm d d' \<and> Q x d')"
  proof (cases r1)
    case (Inl e)
    with grows_elim [OF m wf m1] run m1 show ?thesis by (auto simp: act_bind_def)
  next
    case (Inr x)
    then have x: "device_extends rmm d d1" "P x d1" using grows_elim [OF m wf m1] by auto
    then have "dev_wf rmm d1" by (simp add: device_extends_def)
    moreover have "k x d1 = (r, d')" using run m1 Inr by (simp add: act_bind_def)
    ultimately show ?thesis using grows_elim [OF k [OF x]] device_extends_trans [OF x(1)] by blast
  qed
qed

lemma grows_return: "Q x d \<Longrightarrow> grows rmm d (act_return x) Q"
  by (simp add: grows_def act_basic)

lemma grows_lift: "r = Inr x \<Longrightarrow> Q x d \<Longrightarrow> grows rmm d (act_lift r) Q"
  by (simp add: grows_def act_basic)

lemma grows_lifted: "r = Inr x \<Longrightarrow> grows rmm d (k x) Q \<Longrightarrow> grows rmm d (act_bind (act_lift r) k) Q"
  by (simp add: grows_def act_basic act_bind_def)

lemma grows_weaken: "grows rmm d m P \<Longrightarrow> (\<And>x d'. P x d' \<Longrightarrow> Q x d') \<Longrightarrow> grows rmm d m Q"
  by (auto simp: grows_def split: prod.splits sum.splits)

lemma grows_conseq:
  assumes "grows rmm d m P" and "\<And>x d'. device_extends rmm d d' \<Longrightarrow> P x d' \<Longrightarrow> Q x d'"
  shows "grows rmm d m Q"
  using assms by (auto simp: grows_def split: prod.splits sum.splits)

text \<open>A run over a list; what holds of each result stays true while the device grows.\<close>

lemma grows_mapM:
  assumes "length xs = length ys"
    and "\<And>i d'. i < length xs \<Longrightarrow> device_extends rmm d d' \<Longrightarrow> grows rmm d' (f (xs ! i)) (R (ys ! i))"
    and mono: "\<And>y z d d'. device_extends rmm d d' \<Longrightarrow> R y z d \<Longrightarrow> R y z d'"
  shows "grows rmm d (act_mapM f xs) (\<lambda>zs d'. list_all2 (\<lambda>y z. R y z d') ys zs)"
  using assms(1,2)
proof (induction xs ys arbitrary: d rule: list_induct2)
  case Nil
  then show ?case by (simp add: grows_return)
next
  case (Cons x xs y ys)
  show ?case
  proof (cases "dev_wf rmm d")
    case False
    then show ?thesis by (simp add: grows_def)
  next
    case True
    have head: "grows rmm d (f x) (R y)" using Cons.prems [of 0 d] True by simp
    have tail: "grows rmm d' (act_mapM f xs) (\<lambda>zs d'. list_all2 (\<lambda>y z. R y z d') ys zs)" if "device_extends rmm d d'" for d'
      using Cons.prems [of "Suc i" for i] device_extends_trans [OF that] by (intro Cons.IH) auto
    show ?thesis unfolding act_mapM.simps
      by (intro grows_bind [OF head] grows_bind [OF tail] grows_return) (auto intro: mono)
  qed
qed

lemma grows_host_alloc: "grows rmm d (dev_host_alloc w n) (\<lambda>_ _. True)"
proof (rule grows_intro)
  fix r d' assume wf: "dev_wf rmm d" and m: "dev_host_alloc w n d = (r, d')"
  from wf have "holding rmm d [] d" by (simp add: holding_def)
  from endsD [OF ends_host_alloc this m] have "(\<exists>e. r = Inl e \<and> out_of_memory e) \<or> (\<exists>x. r = Inr x \<and> holding rmm d [] d')" .
  moreover have "retained (mgr d') = retained (mgr d) \<and> cells d' = cells d"
    using m by (auto simp: dev_host_alloc_def customCudaHostAlloc_def hostReserve_def Let_def retained_def fun_eq_iff
      in_cache_region_def split: if_splits)
  ultimately show "(\<exists>e. r = Inl e \<and> out_of_memory e) \<or> (\<exists>x. r = Inr x \<and> device_extends rmm d d' \<and> True)"
    by (auto simp: device_extends_def holding_def)
qed

lemma grows_adopt: "n \<noteq> 0 \<Longrightarrow> grows rmm d (dev_adopt rmm n a) (\<lambda>p d'. cells d' p = Some a)"
proof (rule grows_intro)
  fix r d' assume n: "n \<noteq> 0" and wf: "dev_wf rmm d" and m: "dev_adopt rmm n a d = (r, d')"
  from wf m n show "(\<exists>e. r = Inl e \<and> out_of_memory e) \<or> (\<exists>p. r = Inr p \<and> device_extends rmm d d' \<and> cells d' p = Some a)"
    by (cases rule: dev_adopt_cases) (auto simp: out_of_memory_def)
qed

lemma grows_gather:
  assumes "input_ok E n d c (t, vs, bs)" and "0 < n" "int n \<le> INT32_MAX"
  shows "grows (ee_rmm E) d (HandleMaterializeExpression (ee_duckdb E) (ee_rmm E) (ee_cub E) c)
    (\<lambda>k d'. plain_column (ee_duckdb E) d' k t n vs bs \<and> dw_type (data_wrapper k) = dw_type (data_wrapper c))"
  using gather_input [OF _ assms] by (intro grows_intro) (fastforce simp: out_of_memory_def)

lemma grows_key_column:
  assumes "plain_column (ee_duckdb E) d c t n vs bs" and "length vs = n" "length bs = n"
  shows "grows (ee_rmm E) d (key_column E c) (\<lambda>(c', cc) _. cc = \<lparr>cc_type = t, cc_data = vs, cc_mask = bs\<rparr>)"
  unfolding key_column_def
proof (rule grows_bind)
  show "grows (ee_rmm E) d (convertToCudfColumn (ee_duckdb E) (ee_rmm E) c) (\<lambda>(c', view) d'.
    copy_view (ee_cudf E) view d' = (Inr \<lparr>cc_type = t, cc_data = vs, cc_mask = bs\<rparr>, d'))"
    using convert_and_copy [OF _ assms] by (intro grows_intro) (fastforce simp: out_of_memory_def)
qed (auto simp: grows_def act_bind_def act_basic)

lemma grows_setFromCudfColumn:
  assumes "duckdb_env_ok (ee_duckdb E)" and "adoptable E n cc"
  shows "grows (ee_rmm E) d (setFromCudfColumn E cc u c)
    (\<lambda>k d'. plain_column (ee_duckdb E) d' k (cc_type cc) n (cc_data cc) (cc_mask cc) \<and>
       dw_validity_mask (data_wrapper k) \<noteq> nullptr)"
proof (rule grows_intro)
  fix r d' assume "dev_wf (ee_rmm E) d" and "setFromCudfColumn E cc u c d = (r, d')"
  from setFromCudfColumn_plain [OF assms(1) this(1) assms(2) this(2)]
  show "(\<exists>e. r = Inl e \<and> out_of_memory e) \<or> (\<exists>k. r = Inr k \<and> device_extends (ee_rmm E) d d' \<and>
    plain_column (ee_duckdb E) d' k (cc_type cc) n (cc_data cc) (cc_mask cc) \<and> dw_validity_mask (data_wrapper k) \<noteq> nullptr)" by (auto simp: out_of_memory_def)
qed

end
