(* ===== verification/Join_Sides.thy ===== *)
theory Join_Sides
  imports Hash_Join Join_Runs Filter_Rows Column_Frames
begin

text \<open>
  The two sides of a hash join: gathering the keys of a relation, building the table from them, and what
  a probe finds in it.
\<close>

section \<open>Gathering keys\<close>

definition key_type :: "GPUColumnTypeId \<Rightarrow> bool" where
  "key_type i \<longleftrightarrow> i = C_INT32 \<or> i = C_INT64 \<or> i = C_FLOAT64"

definition key_width :: "GPUColumnTypeId \<Rightarrow> u64" where
  "key_width i = (if i = C_INT32 then 4 else 8)"

lemma key_type_size: "key_type (ct_id t) \<Longrightarrow> getColumnTypeSize D t = Inr (key_width (ct_id t))"
  by (auto simp: key_type_def key_width_def getColumnTypeSize_def)

text \<open>The keys of one side: \<open>keys\<close> lists type, values and validity of the column each expression refers
  to.\<close>

definition key_refers ::
  "('d, 'v) exec_env \<Rightarrow> nat \<Rightarrow> 'v device \<Rightarrow> GPUIntermediateRelation \<Rightarrow> u64 \<Rightarrow> 'd Expression \<Rightarrow>
   cudf_data_type \<times> 'v list \<times> bool list \<Rightarrow> bool" where
  "key_refers E n d rel w e inp \<longleftrightarrow> (\<exists>t i c. e = BoundReference t i \<and> column_at rel i = Inr c \<and> input_ok E n d c inp \<and>
     key_type (ct_id (dw_type (data_wrapper c))) \<and> key_width (ct_id (dw_type (data_wrapper c))) = w)"

definition join_side ::
  "('d, 'v) exec_env \<Rightarrow> nat \<Rightarrow> 'v device \<Rightarrow> GPUIntermediateRelation \<Rightarrow> u64 \<Rightarrow> 'd Expression list \<Rightarrow>
   (cudf_data_type \<times> 'v list \<times> bool list) list \<Rightarrow> bool" where
  "join_side E n d rel w es keys \<longleftrightarrow> 0 < n \<and> int n \<le> INT32_MAX \<and> list_all2 (key_refers E n d rel w) es keys"

definition gathered ::
  "('d, 'v) exec_env \<Rightarrow> nat \<Rightarrow> 'v device \<Rightarrow> u64 \<Rightarrow> GPUColumn \<Rightarrow> cudf_data_type \<times> 'v list \<times> bool list \<Rightarrow> bool" where
  "gathered E n d w k inp \<longleftrightarrow> (case inp of (t, vs, bs) \<Rightarrow> plain_column (ee_duckdb E) d k t n vs bs \<and>
     length vs = n \<and> length bs = n) \<and>
     key_type (ct_id (dw_type (data_wrapper k))) \<and> key_width (ct_id (dw_type (data_wrapper k))) = w"

lemma gathered_mono: "device_extends rmm d d' \<Longrightarrow> gathered E n d w k inp \<Longrightarrow> gathered E n d' w k inp"
  by (auto simp: gathered_def intro: plain_column_mono)

lemma key_refers_mono: "device_extends rmm d d' \<Longrightarrow> key_refers E n d rel w e inp \<Longrightarrow> key_refers E n d' rel w e inp"
  unfolding key_refers_def using input_ok_mono by blast

lemma materialize_keys_gathered:
  assumes "list_all2 (key_refers E n d rel w) es keys" and "0 < n" "int n \<le> INT32_MAX" and "dev_wf (ee_rmm E) d"
    and "materialize_keys E rel es d = (r, d')"
  shows "r = Inl BadAlloc \<or> (\<exists>ks u. r = Inr (ks, u) \<and> device_extends (ee_rmm E) d d' \<and>
    list_all2 (gathered E n d' w) ks keys)"
  using assms
proof (induction es arbitrary: keys d r d')
  case Nil
  then show ?case by (auto simp: act_basic)
next
  case (Cons e es)
  then obtain inp keys' where keys: "keys = inp # keys'" "key_refers E n d rel w e inp" "list_all2 (key_refers E n d rel w) es keys'"
    by (auto simp: list_all2_Cons1)
  obtain t vs bs where inp: "inp = (t, vs, bs)" by (cases inp)
  obtain ty i c where e: "e = BoundReference ty i" "column_at rel i = Inr c" "input_ok E n d c (t, vs, bs)"
    "key_type (ct_id (dw_type (data_wrapper c)))" "key_width (ct_id (dw_type (data_wrapper c))) = w"
    using keys(2) inp by (auto simp: key_refers_def)
  have len: "length vs = n" "length bs = n" using e(3) by (simp_all add: input_ok_def)
  obtain r1 d1 where h: "HandleMaterializeExpression (ee_duckdb E) (ee_rmm E) (ee_cub E) c d = (r1, d1)"
    by (cases "HandleMaterializeExpression (ee_duckdb E) (ee_rmm E) (ee_cub E) c d")
  have run: "(r, d') = act_bind (HandleMaterializeExpression (ee_duckdb E) (ee_rmm E) (ee_cub E) c) (\<lambda>k.
     act_bind (materialize_keys E rel es) (\<lambda>(ks, unique). act_return (k # ks, is_unique c \<or> unique))) d"
    using Cons.prems(5) e(1,2) by (simp add: reference_index_def act_bind_def act_basic)
  from gather_input [OF Cons.prems(4) e(3) Cons.prems(2,3) h] show ?case
  proof (elim disjE exE conjE)
    assume "r1 = Inl BadAlloc"
    with run h show ?thesis by (simp add: act_bind_def)
  next
    fix k assume k: "r1 = Inr k" "device_extends (ee_rmm E) d d1" "plain_column (ee_duckdb E) d1 k t n vs bs"
      "dw_type (data_wrapper k) = dw_type (data_wrapper c)"
    obtain r2 d2 where rest: "materialize_keys E rel es d1 = (r2, d2)" by (cases "materialize_keys E rel es d1")
    have wf1: "dev_wf (ee_rmm E) d1" using k(2) by (simp add: device_extends_def)
    have refs: "list_all2 (key_refers E n d1 rel w) es keys'"
      using keys(3) by (rule list_all2_mono) (rule key_refers_mono [OF k(2)])
    from Cons.IH [OF refs Cons.prems(2,3) wf1 rest] show ?thesis
    proof (elim disjE exE conjE)
      assume "r2 = Inl BadAlloc"
      with run h k(1) rest show ?thesis by (simp add: act_bind_def)
    next
      fix ks u assume ks: "r2 = Inr (ks, u)" "device_extends (ee_rmm E) d1 d2" "list_all2 (gathered E n d2 w) ks keys'"
      have "r = Inr (k # ks, is_unique c \<or> u)" "d' = d2"
        using run h k(1) rest ks(1) by (simp_all add: act_bind_def act_basic)
      moreover have "gathered E n d2 w k inp"
        using plain_column_mono [OF ks(2) k(3)] len e(4,5) k(4) inp by (simp add: gathered_def)
      ultimately show ?thesis using device_extends_trans [OF k(2) ks(2)] ks(3) keys(1) by auto
    qed
  qed
qed

text \<open>The arrays of gathered keys.\<close>

lemma gathered_array:
  assumes "gathered E n d w k (t, vs, bs)"
  shows "\<exists>xs. cells d (dw_data (data_wrapper k)) = Some (Vals w xs) \<and> n \<le> length xs \<and> take n xs = vs"
proof -
  have k: "row_ids k = nullptr" "unat (column_length k) = n" "0 < n" "values_of (ee_duckdb E) d k = Some vs"
    and ty: "key_type (ct_id (dw_type (data_wrapper k)))" "key_width (ct_id (dw_type (data_wrapper k))) = w"
    using assms by (auto simp: gathered_def plain_column_def)
  have rows: "column_row_list d k = Some [0..<n]" using k by (simp add: column_row_list_def)
  obtain m where m: "n = Suc m" using k(3) gr0_conv_Suc by blast
  then obtain y ys where ne: "[0..<n] = y # ys" by (cases "[0..<n]") auto
  have "values_of (ee_duckdb E) d k = (case cells d (dw_data (data_wrapper k)) of
         Some (Vals w xs) \<Rightarrow> if getColumnTypeSize (ee_duckdb E) (dw_type (data_wrapper k)) = Inr w then pick xs [0..<n] else None
       | _ \<Rightarrow> None)"
    unfolding values_of_def rows ne by simp
  then obtain xs where xs: "cells d (dw_data (data_wrapper k)) = Some (Vals w xs)" "pick xs [0..<n] = Some vs"
    using k(4) key_type_size [OF ty(1), of "ee_duckdb E"] ty(2) by (auto split: option.splits darray.splits if_splits)
  from xs(2) have "n \<le> length xs" "vs = map ((!) xs) [0..<n]"
    by (auto simp: pick_def m split: if_splits)
  moreover from this have "take n xs = vs" by (auto intro: nth_equalityI)
  ultimately show ?thesis using xs(1) by blast
qed

definition side_keys :: "'v join_kernels \<Rightarrow> (cudf_data_type \<times> 'v list \<times> bool list) list \<Rightarrow> int list list" where
  "side_keys K keys = map (\<lambda>(t, vs, bs). map (key_value K) vs) keys"

text \<open>What a kernel reads in the arrays of gathered keys.\<close>

lemma gathered_keys_known_all:
  assumes "list_all2 (gathered E n d w) ks keys" and "n < 2 ^ 64"
  obtains vss where "\<And>ts M. keys_known (arrays rmm d ts M) w (map (\<lambda>k. dw_data (data_wrapper k)) ks) vss"
    and "\<forall>vs \<in> set vss. unat (of_nat n :: u64) \<le> length vs" and "keys_read K (of_nat n) vss = side_keys K keys"
proof -
  have n: "unat (of_nat n :: u64) = n" using assms(2) by (simp add: unat_of_nat)
  define arr where "arr k = (SOME xs. cells d (dw_data (data_wrapper k)) = Some (Vals w xs))" for k :: GPUColumn
  have arr: "cells d (dw_data (data_wrapper k)) = Some (Vals w (arr k)) \<and> n \<le> length (arr k) \<and> take n (arr k) = vs"
    if "gathered E n d w k (t, vs, bs)" for k t vs bs
  proof -
    from gathered_array [OF that] obtain xs where xs: "cells d (dw_data (data_wrapper k)) = Some (Vals w xs)"
      "n \<le> length xs" "take n xs = vs" by blast
    then have "arr k = xs" by (simp add: arr_def)
    with xs show ?thesis by simp
  qed
  have "keys_known (arrays rmm d ts M) w (map (\<lambda>k. dw_data (data_wrapper k)) ks) (map arr ks)" for ts M
    unfolding keys_known_def
  proof (intro conjI allI impI)
    fix i s assume i: "i < length (map (\<lambda>k. dw_data (data_wrapper k)) ks)" and s: "arrays rmm d ts M s"
    obtain t vs bs where "keys ! i = (t, vs, bs)" by (cases "keys ! i")
    with assms(1) i have "gathered E n d w (ks ! i) (t, vs, bs)" by (auto simp: list_all2_conv_all_nth)
    from arr [OF this] arrays_old [OF s] i
    show "cells s (map (\<lambda>k. dw_data (data_wrapper k)) ks ! i) = Some (Vals w (map arr ks ! i))" by simp
  qed simp
  moreover have "\<forall>vs \<in> set (map arr ks). unat (of_nat n :: u64) \<le> length vs \<and> True"
    and "keys_read K (of_nat n) (map arr ks) = side_keys K keys"
    using assms(1) unfolding n by (induction rule: list_all2_induct) (auto simp: keys_read_def side_keys_def n dest!: arr)
  ultimately show thesis using that by blast
qed

lemma ends_join_arguments:
  assumes ks: "list_all2 (gathered E n d w) ks keys" and len: "length ks = length conds" "conds \<noteq> []" and n: "n < 2 ^ 64"
    and modes: "condition_modes so conds = Inr modes"
  shows "ends (arrays rmm d ts M) (join_arguments so ks conds)
    (\<lambda>x s. x = (map (\<lambda>k. dw_data (data_wrapper k)) ks, of_nat n, modes) \<and> arrays rmm d ts M s)"
proof -
  obtain k ks' where k: "ks = k # ks'" using len by (cases ks) auto
  then have "\<exists>inp. gathered E n d w k inp" using ks by (auto simp: list_all2_Cons1)
  then have "unat (column_length k) = n" by (auto simp: gathered_def plain_column_def)
  moreover have "column_length k = of_nat (unat (column_length k))" by simp
  ultimately have cl: "column_length k = of_nat n" by simp
  have all: "res_mapM (vec_at ks) [0..<length conds] = Inr ks"
    unfolding len(1) [symmetric] using res_mapM_Inr_map [of "[0..<length ks]" "vec_at ks" "(!) ks"] by (simp add: map_nth)
  have k0: "vec_at ks 0 = Inr k" using k by simp
  show ?thesis unfolding join_arguments_def
    by (rule ends_bind [OF arrays_host_alloc], rule ends_lifted [OF all], rule ends_lifted [OF k0],
        rule ends_bind [OF arrays_host_alloc], rule ends_lifted [OF modes]) (simp add: ends_def act_basic cl)
qed

lemma key_size_gathered:
  assumes "list_all2 (gathered E n d w) ks keys" and "ks \<noteq> []"
  shows "key_size msg ks = Inr w"
proof -
  obtain k ks' where k: "ks = k # ks'" using assms(2) by (cases ks) auto
  then have "\<exists>inp. gathered E n d w k inp" using assms(1) by (auto simp: list_all2_Cons1)
  then show ?thesis using k by (auto simp: key_size_def gathered_def key_type_def key_width_def)
qed

section \<open>Building the table\<close>

definition is_right_join :: "JoinType \<Rightarrow> bool" where
  "is_right_join jt \<longleftrightarrow> jt \<in> {J_RIGHT, J_RIGHT_SEMI, J_RIGHT_ANTI}"

definition builds_table :: "JoinType \<Rightarrow> bool" where
  "builds_table jt \<longleftrightarrow> jt \<in> {J_SEMI, J_MARK} \<or> is_right_join jt"

lemma HandleBuild_ends:
  assumes ks: "list_all2 (gathered E n d w) ks keys" and len: "length ks = length conds" "conds \<noteq> []"
    and n: "0 < n" "n < 2 ^ 63" and modes: "condition_modes True conds = Inr modes" and jt: "builds_table jt"
    and run: "k_build K (join_table (side_keys K keys) (of_nat n * 2) modes (is_right_join jt), n) = Some words"
    and ht: "ht \<in> set ts"
  shows "ends (arrays rmm d ts M) (HandleBuildExpression rmm K ks ht (of_nat n * 2) conds jt)
    (\<lambda>_. arrays rmm d (remove1 ht ts) (M(ht \<mapsto> RowIds words)))"
proof -
  have n64: "n < 2 ^ 64" using n(2) by simp
  have un: "unat (of_nat n :: u64) = n" "(of_nat n :: u64) \<noteq> 0" "(of_nat n * 2 :: u64) \<noteq> 0"
  proof -
    show "unat (of_nat n :: u64) = n" using n64 by (simp add: unat_of_nat)
    then show "(of_nat n :: u64) \<noteq> 0" using n(1) by auto
    have "unat (of_nat (n * 2) :: u64) = n * 2" unfolding unat_of_nat by (rule mod_less) (use n(2) in simp)
    then show "(of_nat n * 2 :: u64) \<noteq> 0" using n(1) by auto
  qed
  have ne: "ks \<noteq> []" using len by auto
  obtain vss where vss: "keys_known (arrays rmm d ts M) w (map (\<lambda>k. dw_data (data_wrapper k)) ks) vss"
    "\<forall>vs \<in> set vss. unat (of_nat n :: u64) \<le> length vs" "keys_read K (of_nat n) vss = side_keys K keys"
    by (rule gathered_keys_known_all [where rmm = rmm and K = K, OF ks n64]) (rule that)
  have run': "k_build K (join_table (keys_read K (of_nat n) vss) (of_nat n * 2) modes (is_right_join jt), unat (of_nat n :: u64)) = Some words"
    using run by (simp add: vss(3) un(1))
  have kernel: "ends (arrays rmm d ts M)
      (dev_buildHashTable rmm K w (map (\<lambda>k. dw_data (data_wrapper k)) ks) ht (of_nat n * 2) (of_nat n) modes (is_right_join jt))
      (\<lambda>_. arrays rmm d (remove1 ht ts) (M(ht \<mapsto> RowIds words)))"
    using build_ends [OF un(2,3) ht vss(1,2) run'] .
  show ?thesis
    unfolding HandleBuildExpression_def ResolveTypeBuildExpression_def
    by (rule ends_lifted [OF key_size_gathered [OF ks ne]], rule ends_read [OF ends_join_arguments [OF ks len n64 modes]])
       (use kernel jt in \<open>auto simp: builds_table_def is_right_join_def\<close>)
qed

text \<open>The key columns of the result are the input's; slot \<open>i + k\<close> gets the column of condition \<open>k\<close>.\<close>

lemma keep_keys_slots:
  assumes "\<forall>c \<in> set cs. \<exists>t j. jc_right c = BoundReference t j \<and> j < length (columns rel)" and "length ks = length cs"
    and "i + length cs \<le> length (columns result)" and "i + length cs \<le> length (columns keys)"
  shows "\<exists>result' keys'. keep_keys rel i cs ks (result, keys) = Inr (result', keys') \<and>
    length (columns result') = length (columns result) \<and> length (columns keys') = length (columns keys) \<and>
    (\<forall>k < length cs. \<exists>t j. jc_right (cs ! k) = BoundReference t j \<and> columns result' ! (i + k) = columns rel ! j \<and>
       columns keys' ! (i + k) = Some (ks ! k)) \<and>
    (\<forall>k. k < i \<or> i + length cs \<le> k \<longrightarrow> columns result' ! k = columns result ! k \<and> columns keys' ! k = columns keys ! k)"
  using assms
proof (induction cs arbitrary: ks i result keys)
  case Nil
  then show ?case by simp
next
  case (Cons c cs)
  then obtain k ks' where ks: "ks = k # ks'" by (cases ks) auto
  obtain t j where c: "jc_right c = BoundReference t j" "j < length (columns rel)" using Cons.prems(1) by auto
  define result1 where "result1 = result\<lparr>columns := (columns result)[i := columns rel ! j]\<rparr>"
  define keys1 where "keys1 = keys\<lparr>columns := (columns keys)[i := Some k]\<rparr>"
  have step: "keep_keys rel i (c # cs) ks (result, keys) = keep_keys rel (Suc i) cs ks' (result1, keys1)"
    using c Cons.prems(3,4) by (simp add: ks set_column_slot_def set_column_def result1_def keys1_def)
  have lens: "length (columns result1) = length (columns result)" "length (columns keys1) = length (columns keys)"
    by (simp_all add: result1_def keys1_def)
  from Cons.IH [of ks' "Suc i" result1 keys1] Cons.prems lens obtain result' keys' where
    IH: "keep_keys rel (Suc i) cs ks' (result1, keys1) = Inr (result', keys')"
    "length (columns result') = length (columns result)" "length (columns keys') = length (columns keys)"
    "\<forall>k < length cs. \<exists>t j. jc_right (cs ! k) = BoundReference t j \<and> columns result' ! (Suc i + k) = columns rel ! j \<and>
       columns keys' ! (Suc i + k) = Some (ks' ! k)"
    "\<forall>k. k < Suc i \<or> Suc i + length cs \<le> k \<longrightarrow> columns result' ! k = columns result1 ! k \<and> columns keys' ! k = columns keys1 ! k"
    using ks by fastforce
  have here: "columns result' ! i = columns rel ! j" "columns keys' ! i = Some k"
    using IH(5) Cons.prems(3,4) by (simp_all add: result1_def keys1_def)
  show ?case
  proof (intro exI conjI)
    show "keep_keys rel i (c # cs) ks (result, keys) = Inr (result', keys')" using step IH(1) by simp
    show "\<forall>m < length (c # cs). \<exists>t j. jc_right ((c # cs) ! m) = BoundReference t j \<and> columns result' ! (i + m) = columns rel ! j \<and>
       columns keys' ! (i + m) = Some (ks ! m)"
    proof (intro allI impI)
      fix m assume "m < length (c # cs)"
      then show "\<exists>t j. jc_right ((c # cs) ! m) = BoundReference t j \<and> columns result' ! (i + m) = columns rel ! j \<and>
          columns keys' ! (i + m) = Some (ks ! m)"
        using here c IH(4) by (cases m) (auto simp: ks)
    qed
    show "\<forall>m. m < i \<or> i + length (c # cs) \<le> m \<longrightarrow> columns result' ! m = columns result ! m \<and> columns keys' ! m = columns keys ! m"
      using IH(5) by (auto simp: result1_def keys1_def)
  qed (use IH in simp_all)
qed

text \<open>What \<open>Sink\<close> leaves behind: the words of the launch in a new array.\<close>

definition holds_table :: "'v device \<Rightarrow> 'd hash_join \<Rightarrow> u64 list \<Rightarrow> nat \<Rightarrow> bool" where
  "holds_table d op words n \<longleftrightarrow> (\<exists>ht. gpu_hash_table op = Some ht \<and> ht \<noteq> nullptr \<and> cells d ht = Some (RowIds words)) \<and>
     gpu_ht_len op = of_nat n * 2"

lemma Sink_builds:
  fixes E :: "('d, 'v) exec_env"
  assumes wf: "dev_wf (ee_rmm E) d" and side: "join_side E n d rel w (map jc_right (conditions op)) keys"
    and conds: "conditions op \<noteq> []" and jt: "builds_table (join_type op)" and nodelim: "delim_types op = []"
    and slots: "length (conditions op) \<le> length (columns (hash_table_result op))"
      "length (conditions op) \<le> length (columns (materialized_build_key op))"
    and payload: "\<And>result. length (columns result) = length (columns (hash_table_result op)) \<Longrightarrow>
      \<exists>result'. keep_payload rel (length (conditions op)) (col_idxs (payload_columns op)) result = Inr result'"
    and modes: "condition_modes True (conditions op) = Inr modes"
    and run: "k_build K (join_table (side_keys K keys) (of_nat n * 2) modes (is_right_join (join_type op)), n) = Some words"
    and m: "GPUPhysicalHashJoin_Sink E K op rel d = (r, d')"
  shows "(\<exists>e. r = Inl e \<and> out_of_memory e) \<or> (\<exists>op' u result ks. r = Inr op' \<and> device_extends (ee_rmm E) d d' \<and>
    holds_table d' op' words n \<and>
    op' = op\<lparr>unique_build_keys := u, gpu_hash_table := gpu_hash_table op', gpu_ht_len := gpu_ht_len op',
      hash_table_result := result, materialized_build_key := ks\<rparr>)"
proof -
  let ?rmm = "ee_rmm E" and ?conds = "conditions op" and ?len = "of_nat n * 2 :: u64"
  have n: "0 < n" "int n \<le> INT32_MAX" and refs: "list_all2 (key_refers E n d rel w) (map jc_right ?conds) keys"
    using side by (simp_all add: join_side_def)
  then have n63: "n < 2 ^ 63" by (simp add: INT32_MAX_def)
  obtain r1 d1 where k: "materialize_keys E rel (map jc_right ?conds) d = (r1, d1)"
    by (cases "materialize_keys E rel (map jc_right ?conds) d")
  from materialize_keys_gathered [OF refs n wf k] show ?thesis
  proof (elim disjE exE conjE)
    assume "r1 = Inl BadAlloc"
    with m k nodelim have "r = Inl BadAlloc" by (simp add: GPUPhysicalHashJoin_Sink_def act_bind_def)
    then show ?thesis by (auto simp: out_of_memory_def)
  next
    fix ks u assume ks: "r1 = Inr (ks, u)" "device_extends ?rmm d d1" "list_all2 (gathered E n d1 w) ks keys"
    have len: "length ks = length ?conds" using ks(3) refs by (auto dest!: list_all2_lengthD)
    obtain k0 ks' where k0: "ks = k0 # ks'" using len conds by (cases ks) auto
    have "\<exists>inp. gathered E n d1 w k0 inp" using ks(3) k0 by (auto simp: list_all2_Cons1)
    then have "unat (column_length k0) = n" by (auto simp: gathered_def plain_column_def)
    moreover have "column_length k0 = of_nat (unat (column_length k0))" by simp
    ultimately have cl: "column_length k0 = of_nat n" by simp
    have un: "?len \<noteq> 0"
    proof -
      have "unat (of_nat (n * 2) :: u64) = n * 2" unfolding unat_of_nat by (rule mod_less) (use n63 in simp)
      then show ?thesis using n(1) by auto
    qed
    define build where "build = act_bind (allocate_hash_table ?rmm op ?len) (\<lambda>ht.
      act_bind (HandleBuildExpression ?rmm K ks (case ht of Some p \<Rightarrow> p | None \<Rightarrow> nullptr) ?len ?conds (join_type op)) (\<lambda>_.
      act_return ht))"
    have jne: "join_type op \<noteq> J_INNER" using jt by (auto simp: builds_table_def is_right_join_def)
    have steps: "(r, d') = act_bind build (\<lambda>ht.
        act_bind (act_lift (keep_keys rel 0 ?conds ks (hash_table_result op, materialized_build_key op))) (\<lambda>(result, keys).
        act_bind (act_lift (keep_payload rel (length ?conds) (col_idxs (payload_columns op)) result)) (\<lambda>result'.
        act_return (op\<lparr>unique_build_keys := unique_build_keys op \<or> u, gpu_ht_len := ?len, gpu_hash_table := ht,
          hash_table_result := result', materialized_build_key := keys\<rparr>)))) d1"
    proof -
      have k': "materialize_keys E rel (map jc_right ?conds) d = (Inr (ks, u), d1)" using k ks(1) by simp
      have v: "vec_at ks 0 = Inr k0" using k0 by simp
      show ?thesis
        unfolding m [symmetric] build_def act_bind_assoc GPUPhysicalHashJoin_Sink_def
        by (simp add: act_bind_eq(1) [of "materialize_keys E rel (map jc_right ?conds)" d "(ks, u)" d1, OF k'] nodelim jne v cl act_bind_return_left act_bind_lift Let_def)
    qed
    obtain w2 where alloc: "(allocate_hash_table ?rmm op ?len :: ('v device, ptr option) act) = act_bind (dev_malloc ?rmm 8 w2) (\<lambda>p. act_return (Some p))"
      using jt un by (auto simp: allocate_hash_table_def builds_table_def is_right_join_def Let_def)
    have start: "arrays ?rmm d1 [] Map.empty d1" using ks(2) by (intro arrays_start) (simp add: device_extends_def)
    have "ends (arrays ?rmm d1 [] Map.empty) build
        (\<lambda>ht s. \<exists>p. ht = Some p \<and> p \<noteq> nullptr \<and> arrays ?rmm d1 [] [p \<mapsto> RowIds words] s)"
      unfolding build_def alloc
    proof (rule ends_bind [OF ends_bind [OF arrays_malloc, where R = "\<lambda>ht s. \<exists>p. ht = Some p \<and> arrays ?rmm d1 [p] Map.empty s"]])
      show "ends (arrays ?rmm d1 [p] Map.empty) (act_return (Some p)) (\<lambda>ht s. \<exists>p. ht = Some p \<and> arrays ?rmm d1 [p] Map.empty s)" for p
        by (rule ends_return) blast
      fix ht :: "ptr option"
      show "ends (\<lambda>s. \<exists>p. ht = Some p \<and> arrays ?rmm d1 [p] Map.empty s)
        (act_bind (HandleBuildExpression ?rmm K ks (case ht of Some p \<Rightarrow> p | None \<Rightarrow> nullptr) ?len ?conds (join_type op)) (\<lambda>_. act_return ht))
        (\<lambda>ht s. \<exists>p. ht = Some p \<and> p \<noteq> nullptr \<and> arrays ?rmm d1 [] [p \<mapsto> RowIds words] s)"
      proof (cases ht)
        case None
        then show ?thesis by (simp add: ends_def)
      next
        case (Some p)
        have "ends (arrays ?rmm d1 [p] Map.empty) (HandleBuildExpression ?rmm K ks p ?len ?conds (join_type op))
            (\<lambda>_. arrays ?rmm d1 [] [p \<mapsto> RowIds words])"
          using HandleBuild_ends [OF ks(3) len conds n(1) n63 modes jt run, of p "[p]" ?rmm Map.empty] by simp
        then have "ends (\<lambda>s. p \<noteq> nullptr \<and> arrays ?rmm d1 [p] Map.empty s) (act_bind (HandleBuildExpression ?rmm K ks p ?len ?conds (join_type op)) (\<lambda>_. act_return (Some p)))
            (\<lambda>ht s. \<exists>p. ht = Some p \<and> p \<noteq> nullptr \<and> arrays ?rmm d1 [] [p \<mapsto> RowIds words] s)"
          by (intro ends_pure) (erule ends_bind, rule ends_return, blast)
        then show ?thesis unfolding Some option.case
          by (rule ends_strengthen) (use arrays_not_null [of ?rmm d1 "[p]" Map.empty _ p] in auto)
      qed
    qed
    obtain r2 d2 where b: "build d1 = (r2, d2)" by (cases "build d1")
    from endsD [OF \<open>ends _ build _\<close> start b] show ?thesis
    proof (elim disjE exE conjE)
      fix e assume e: "r2 = Inl e" "out_of_memory e"
      have "r = Inl e"
        using steps b e(1) by (simp add: act_bind_def)
      with e(2) show ?thesis by blast
    next
      fix x p assume x: "r2 = Inr x" "x = Some p" "p \<noteq> nullptr" "arrays ?rmm d1 [] [p \<mapsto> RowIds words] d2"
      have valid: "\<forall>c \<in> set ?conds. \<exists>t j. jc_right c = BoundReference t j \<and> j < length (columns rel)"
        using refs by (fastforce simp: list_all2_conv_all_nth in_set_conv_nth key_refers_def column_at_Inr_iff)
      from keep_keys_slots [OF valid len, of 0 "hash_table_result op" "materialized_build_key op"] slots
      obtain result kept where kept: "keep_keys rel 0 ?conds ks (hash_table_result op, materialized_build_key op) = Inr (result, kept)"
        "length (columns result) = length (columns (hash_table_result op))" by auto
      from payload [OF kept(2)] obtain result' where
        pay: "keep_payload rel (length ?conds) (col_idxs (payload_columns op)) result = Inr result'" by blast
      let ?op = "op\<lparr>unique_build_keys := unique_build_keys op \<or> u, gpu_ht_len := ?len, gpu_hash_table := Some p,
             hash_table_result := result', materialized_build_key := kept\<rparr>"
      have fin: "r = Inr ?op" "d' = d2"
        using steps b x(1,2) kept(1) pay by (simp_all add: act_bind_def act_basic)
      have "holds_table d2 ?op words n" using x(3) arrays_new [OF x(4), of p] by (simp add: holds_table_def)
      moreover have "device_extends ?rmm d d2" using arrays_rebase [OF ks(2) x(4)] .
      moreover have "?op = op\<lparr>unique_build_keys := unique_build_keys op \<or> u, gpu_hash_table := gpu_hash_table ?op, gpu_ht_len := gpu_ht_len ?op,
          hash_table_result := result', materialized_build_key := kept\<rparr>" by simp
      ultimately show ?thesis using fin by blast
    qed
  qed
qed

end
