(* ===== verification/Join_Rows.thy ===== *)
theory Join_Rows
  imports Join_Sides
begin

text \<open>
  The hash join operator from end to end: its \<open>Sink\<close> builds the table, its \<open>Execute\<close> probes it, and the
  columns of the output stand for the rows that SQL asks for.
\<close>

section \<open>Conditions and modes\<close>

lemma conditions_ordered_True: "conditions_ordered True cs \<Longrightarrow> filter is_equality cs = []"
  by (induction cs) (auto split: if_splits)

lemma conditions_ordered_False: "conditions_ordered False cs \<Longrightarrow> cs = filter is_equality cs @ filter (\<lambda>c. \<not> is_equality c) cs"
proof (induction cs)
  case (Cons c cs)
  show ?case
  proof (cases "is_equality c")
    case True
    with Cons show ?thesis by simp
  next
    case False
    with Cons.prems have "filter is_equality cs = []" by (intro conditions_ordered_True) simp
    moreover from this have "filter (\<lambda>c. \<not> is_equality c) cs = cs"
      by (induction cs) (auto split: if_splits)
    ultimately show ?thesis using False by simp
  qed
qed simp

lemma gather_conditions:
  "fold (\<lambda>c (eqs, others). if is_equality c then (eqs @ [c], others) else (eqs, others @ [c])) cs (a, b) =
     (a @ filter is_equality cs, b @ filter (\<lambda>c. \<not> is_equality c) cs)"
  by (induction cs arbitrary: a b) auto

lemma ReorderConditions_filter:
  "ReorderConditions cs = filter is_equality cs @ filter (\<lambda>c. \<not> is_equality c) cs"
  using conditions_ordered_False [of cs] by (auto simp: ReorderConditions_def gather_conditions)

lemma res_mapM_cong: "(\<And>x. x \<in> set xs \<Longrightarrow> f x = g x) \<Longrightarrow> res_mapM f xs = res_mapM g xs"
  by (induction xs) auto

lemma condition_mode_of_Inr: "condition_mode_of so n k c = Inr m \<Longrightarrow> m = (if is_equality c then 0 else 1)"
  by (auto simp: condition_mode_of_def is_equality_def split: ExpressionType.splits if_splits)

lemma condition_modes_weaken: "condition_modes True cs = Inr modes \<Longrightarrow> condition_modes False cs = Inr modes"
  unfolding condition_modes_def
proof (rule trans [OF res_mapM_cong])
  assume m: "res_mapM (\<lambda>(key, c). condition_mode_of True (length cs) key c) (enumerate 0 cs) = Inr modes"
  fix x assume "x \<in> set (enumerate 0 cs)"
  then obtain i where i: "i < length (enumerate 0 cs)" "x = enumerate 0 cs ! i" by (auto simp: in_set_conv_nth)
  obtain k c where x: "x = (k, c)" by (cases x)
  from res_mapM_nth [OF m i(1)] have "condition_mode_of True (length cs) k c = Inr (modes ! i)"
    unfolding i(2) [symmetric] x by simp
  then have "condition_mode_of False (length cs) k c = condition_mode_of True (length cs) k c"
    by (auto simp: condition_mode_of_def split: ExpressionType.splits if_splits)
  with x show "(case x of (key, c) \<Rightarrow> condition_mode_of False (length cs) key c) =
      (case x of (key, c) \<Rightarrow> condition_mode_of True (length cs) key c)" by simp
qed

lemma condition_modes_map:
  assumes "condition_modes so cs = Inr modes"
  shows "modes = map (\<lambda>c. if is_equality c then 0 else 1) cs"
proof (rule nth_equalityI)
  note m = assms [unfolded condition_modes_def]
  show len: "length modes = length (map (\<lambda>c. if is_equality c then 0 else 1 :: nat) cs)"
    using res_mapM_length [OF m] by simp
  fix i assume "i < length modes"
  with len have i: "i < length cs" by simp
  with res_mapM_nth [OF m, of i] have "condition_mode_of so (length cs) i (cs ! i) = Inr (modes ! i)"
    by (simp add: nth_enumerate_eq)
  from condition_mode_of_Inr [OF this] i show "modes ! i = map (\<lambda>c. if is_equality c then 0 else 1) cs ! i" by simp
qed

text \<open>The order of the conditions is the one the kernels rely on.\<close>

lemma reordered_conditions_fit:
  assumes "condition_modes so (ReorderConditions cs) = Inr modes"
  shows "conditions_fit (join_table keys len modes rj) modes"
proof -
  let ?a = "length (filter is_equality cs)"
  have modes: "modes = replicate ?a 0 @ replicate (length (filter (\<lambda>c. \<not> is_equality c) cs)) 1"
    unfolding condition_modes_map [OF assms] ReorderConditions_filter map_append
    by (simp add: map_replicate_const cong: map_cong)
       (auto intro!: arg_cong2 [of _ _ _ _ "(@)"] simp: list_eq_iff_nth_eq dest: nth_mem)
  have "count_equal_keys modes = ?a" unfolding count_equal_keys_def modes by simp
  then show ?thesis by (simp add: conditions_fit_def join_table_def modes nth_append)
qed

text \<open>Row \<open>r\<close> of the probe side and row \<open>b\<close> of the build side satisfy all conditions: the values, read as
  integers of 64 bits, are equal or different as each condition asks.\<close>

definition rows_join :: "'d JoinCondition list \<Rightarrow> int list list \<Rightarrow> int list list \<Rightarrow> nat \<Rightarrow> nat \<Rightarrow> bool" where
  "rows_join conds probe build r b \<longleftrightarrow> (\<forall>n < length conds.
     (word_of_int (probe ! n ! r) = (word_of_int (build ! n ! b) :: u64)) = is_equality (conds ! n))"

lemma joins_rows_join:
  assumes "condition_modes so conds = Inr modes"
  shows "joins (join_table build len modes rj) modes probe r b \<longleftrightarrow> rows_join conds probe build r b"
proof -
  note modes = condition_modes_map [OF assms]
  have one: "(modes ! n = 0 \<longrightarrow> x = y) \<and> (modes ! n = 1 \<longrightarrow> x \<noteq> y) \<longleftrightarrow> (y = x) = is_equality (conds ! n)"
    if "n < length conds" for n and x y :: u64
    using that unfolding modes by (cases "is_equality (conds ! n)") (simp_all add: eq_commute)
  have "length modes = length conds" by (simp add: modes)
  with one show ?thesis unfolding joins_def rows_join_def join_table_def key_item_def by simp
qed

section \<open>The table of a join\<close>

text \<open>What the build kernel needs to know of its input to end: one or two equalities, no build row whose
  first key is the word that marks an empty slot, and a table length that the probe step goes through.\<close>

definition table_ready :: "'d JoinCondition list \<Rightarrow> int list list \<Rightarrow> nat \<Rightarrow> bool" where
  "table_ready conds build n \<longleftrightarrow> length (filter is_equality conds) \<in> {1, 2} \<and> coprime (2 * n) 100007 \<and>
     (\<forall>b < n. word_of_int (build ! 0 ! b) \<noteq> (- 1 :: u64))"

lemma table_ready_buildable:
  assumes "table_ready conds build n" and "0 < n" "n < 2 ^ 63" and modes: "condition_modes so conds = Inr modes"
  shows "buildable (join_table build (of_nat n * 2) modes rj) n" and "ht_len (join_table build (of_nat n * 2) modes rj) = 2 * n"
proof -
  have "unat (of_nat (n * 2) :: u64) = n * 2" unfolding unat_of_nat by (rule mod_less) (use assms(3) in simp)
  then show len: "ht_len (join_table build (of_nat n * 2) modes rj) = 2 * n" by (simp add: join_table_def)
  have "count_equal_keys modes = length (filter is_equality conds)"
    unfolding condition_modes_map [OF modes] count_equal_keys_def by (simp add: filter_map comp_def)
  moreover have "0 < length modes"
    using assms(1) unfolding condition_modes_map [OF modes] table_ready_def by (cases conds) auto
  moreover have "EMPTY = - 1" by (simp add: EMPTY_def)
  ultimately show "buildable (join_table build (of_nat n * 2) modes rj) n"
    using assms(1,2) len by (simp add: buildable_def table_ready_def join_table_def key_item_def)
qed

text \<open>The build launch ends, and its words make up a table that can be probed.\<close>

lemma build_launch:
  fixes rj :: bool
  assumes K: "gpu_runs K" and ready: "table_ready conds build n" and n: "0 < n" "n < 2 ^ 63"
    and modes: "condition_modes so conds = Inr modes"
  defines "T \<equiv> join_table build (of_nat n * 2) modes rj"
  obtains words where "k_build K (T, n) = Some words" and "probeable T n words" and "buildHashTable T n [] words"
proof -
  note b = table_ready_buildable [OF ready n modes, of rj, folded T_def]
  have cop: "coprime (ht_len T) 100007" and less: "n < ht_len T" using ready n(1) b(2) by (simp_all add: table_ready_def)
  obtain ht where "buildHashTable T n [] ht" using build_exists [OF b(1) cop less] by blast
  then have "build_outcome (T, n) ht" by (simp add: build_outcome_def)
  have "launch build_outcome (k_build K)" using K by (simp add: gpu_runs_def)
  from launch.run_ends [OF this \<open>build_outcome (T, n) ht\<close>] obtain words
    where w: "k_build K (T, n) = Some words" "build_outcome (T, n) words" by blast
  then have bt: "buildHashTable T n [] words" by (simp add: build_outcome_def)
  have "probeable T n words"
    using table_holds_probeable [OF table_held [OF b(1) n(1) bt] b(1) less cop] .
  with w(1) bt that show thesis by blast
qed

section \<open>Freeing the table\<close>

lemma holds_rows_free:
  assumes h: "holds_rows E d kept inp c" and q: "cells d q = Some (RowIds xs)" "row_ids c \<noteq> q"
    and d': "cells d' = cells d \<or> cells d' = (cells d)(q := None)"
  shows "holds_rows E d' kept inp c"
proof -
  obtain t vs bs where inp: "inp = (t, vs, bs)" by (cases inp)
  have rows: "column_row_list d' c = column_row_list d c"
    using q(2) d' by (auto simp: column_row_list_def)
  have v: "values_of (ee_duckdb E) d c = Some (map ((!) vs) kept)" "validity_of d c = Some (map ((!) bs) kept)"
    using h inp by (simp_all add: holds_rows_def)
  have "values_of (ee_duckdb E) d' c = Some (map ((!) vs) kept)"
  proof (cases "dw_data (data_wrapper c) = q")
    case True
    with v(1) q(1) show ?thesis unfolding values_of_def rows by (auto split: option.splits list.splits)
  next
    case False
    then have same: "cells d' (dw_data (data_wrapper c)) = cells d (dw_data (data_wrapper c))" using d' by auto
    from v(1) show ?thesis unfolding values_of_def rows same .
  qed
  moreover have "validity_of d' c = Some (map ((!) bs) kept)"
  proof (cases "dw_validity_mask (data_wrapper c) = q")
    case True
    with v(2) q(1) show ?thesis unfolding validity_of_def rows by (auto split: option.splits if_splits)
  next
    case False
    then have same: "cells d' (dw_validity_mask (data_wrapper c)) = cells d (dw_validity_mask (data_wrapper c))" using d' by auto
    from v(2) show ?thesis unfolding validity_of_def rows same .
  qed
  ultimately show ?thesis using inp by (simp add: holds_rows_def)
qed

lemma outputs_at_free:
  assumes "outputs_at E d kept ins cols i rel" and "cells d q = Some (RowIds xs)"
    and "\<forall>k < length cols. \<forall>out. columns rel ! (i + k) = Some out \<longrightarrow> row_ids out \<noteq> q"
    and "cells d' = cells d \<or> cells d' = (cells d)(q := None)"
  shows "outputs_at E d' kept ins cols i rel"
  using assms holds_rows_free unfolding outputs_at_def by metis

section \<open>Semi joins\<close>

text \<open>The probe of a semi join, from gathered keys: the rows with a match, in some order.\<close>

lemma HandleProbe_semi:
  assumes K: "gpu_runs K" and ks: "list_all2 (gathered E n d w) ks keys" and len: "length ks = length conds" "conds \<noteq> []"
    and n: "0 < n" "n < 2 ^ 63" and m: "0 < m" "m < 2 ^ 63" and modes: "condition_modes True conds = Inr modes"
    and T: "T = join_table build (of_nat m * 2) modes False" and fit: "conditions_fit T modes"
    and words: "probeable T m words" and ht: "cells d ht = Some (RowIds words)" and wf: "dev_wf rmm d"
    and run: "HandleProbeExpression rmm K ks no_refs ht (of_nat m * 2) conds J_SEMI uniq d = (r, d')"
  shows "(\<exists>e. r = Inl e \<and> out_of_memory e) \<or> (\<exists>refs rs zs cnt p. r = Inr refs \<and> row_ids_left refs = p \<and>
    probe_count refs = Some cnt \<and> unat cnt = length rs \<and> arrays rmm d [] [p \<mapsto> RowIds zs] d' \<and>
    unat cnt \<le> length zs \<and> take (unat cnt) zs = map of_nat rs \<and>
    mset rs = mset (filter (\<lambda>r. \<exists>b < m. rows_join conds (side_keys K keys) build r b) [0..<n]))"
proof -
  have n64: "n < 2 ^ 64" using n(2) by simp
  have un: "unat (of_nat n :: u64) = n" "(of_nat n :: u64) \<noteq> 0" "(of_nat m * 2 :: u64) \<noteq> 0"
  proof -
    show "unat (of_nat n :: u64) = n" using n64 by (simp add: unat_of_nat)
    then show "(of_nat n :: u64) \<noteq> 0" using n(1) by auto
    have "unat (of_nat (m * 2) :: u64) = m * 2" unfolding unat_of_nat by (rule mod_less) (use m(2) in simp)
    then show "(of_nat m * 2 :: u64) \<noteq> 0" using m(1) by auto
  qed
  have modes': "condition_modes False conds = Inr modes"
    using modes condition_modes_weaken by blast
  have left: "is_right T \<longleftrightarrow> (1 :: nat) = 3" using T by (simp add: join_table_def)
  obtain res where "probeHashTableSingleMatch T modes 1 (side_keys K keys) n words res"
    using probeHashTableSingleMatch_ends [OF words fit left] by blast
  then have "single_outcome (1, probe_table (of_nat m * 2) modes False, modes, side_keys K keys, n, words) res"
    by (simp add: single_outcome_def T probe_table_join_table [of _ _ _ build])
  moreover have "launch single_outcome (k_single K)" using K by (simp add: gpu_runs_def)
  ultimately obtain res' where res': "k_single K (1, probe_table (of_nat m * 2) modes False, modes, side_keys K keys, n, words) = Some res'"
    "single_outcome (1, probe_table (of_nat m * 2) modes False, modes, side_keys K keys, n, words) res'"
    using launch.run_ends [of single_outcome "k_single K"] by blast
  obtain l right cnt words' where r4: "res' = (l, right, cnt, words')" by (cases res')
  have single: "probeHashTableSingleMatch T modes 1 (side_keys K keys) n words (l, right, cnt, words')"
    using res'(2) by (simp add: single_outcome_def T probe_table_join_table [of _ _ _ build] r4)
  then have "words' = words" by (auto simp: probeHashTableSingleMatch_def Let_def split: if_splits)
  obtain rs where rs: "mset rs = mset (filter (\<lambda>r. (\<exists>b < m. joins T modes (side_keys K keys) r b) \<longleftrightarrow> (1 :: nat) \<noteq> 2) [0..<n])"
    "unat cnt = length rs" "take (unat cnt) l = map of_nat rs"
    by (rule probeHashTableSingleMatch_rows [OF words fit left n64 _ single]) simp_all
  have "length (take (unat cnt) l) = unat cnt" unfolding rs(3) by (simp add: rs(2))
  then have long: "unat cnt \<le> length l" by simp
  obtain vss where vss: "\<And>ts M. keys_known (arrays rmm d ts M) w (map (\<lambda>k. dw_data (data_wrapper k)) ks) vss"
    "\<forall>vs \<in> set vss. unat (of_nat n :: u64) \<le> length vs" "keys_read K (of_nat n) vss = side_keys K keys"
    by (rule gathered_keys_known_all [where rmm = rmm and K = K, OF ks n64]) (rule that)
  have kernel: "k_single K (1, probe_table (of_nat m * 2) modes False, modes, keys_read K (of_nat n) vss, unat (of_nat n :: u64), words) =
      Some (l, right, cnt, words)"
    using res'(1) by (simp add: vss(3) un(1) r4 \<open>words' = words\<close>)
  have ne: "ks \<noteq> []" using len by auto
  have "ends (arrays rmm d [] Map.empty) (HandleProbeExpression rmm K ks no_refs ht (of_nat m * 2) conds J_SEMI uniq)
      (\<lambda>res s. probe_count res = Some cnt \<and> arrays rmm d [] [row_ids_left res \<mapsto> RowIds l] s)"
    unfolding HandleProbeExpression_def ResolveTypeProbeExpression_def
    by (rule ends_lifted [OF key_size_gathered [OF ks ne]], rule ends_read [OF ends_join_arguments [OF ks len n64 modes']])
       (use single_ends [OF un(2,3) _ _ ht vss(1,2) kernel] in simp)
  from endsD [OF this arrays_start [OF wf] run] show ?thesis
  proof (elim disjE exE conjE)
    fix refs assume "r = Inr refs" "probe_count refs = Some cnt" "arrays rmm d [] [row_ids_left refs \<mapsto> RowIds l] d'"
    moreover have "mset rs = mset (filter (\<lambda>r. \<exists>b < m. rows_join conds (side_keys K keys) build r b) [0..<n])"
      using rs(1) unfolding T joins_rows_join [OF modes] by simp
    ultimately show ?thesis using rs(2,3) long by blast
  qed blast
qed

text \<open>A column to be put out: its contents, and its row ids are not the table.\<close>

definition emitted ::
  "('d, 'v) exec_env \<Rightarrow> nat \<Rightarrow> 'v device \<Rightarrow> GPUIntermediateRelation \<Rightarrow> ptr \<Rightarrow>
   (cudf_data_type \<times> 'v list \<times> bool list) list \<Rightarrow> nat \<Rightarrow> bool" where
  "emitted E n d rel ht ins col \<longleftrightarrow>
     (\<exists>c. column_at rel col = Inr c \<and> input_ok E n d c (ins ! col) \<and> row_ids c \<noteq> ht)"

lemma emitted_apart:
  assumes "emitted E n d rel ht ins col" and "device_extends rmm d d'" and "p \<notin> dom (cells d)" "p \<noteq> nullptr"
  shows "\<exists>c. column_at rel col = Inr c \<and> input_ok E n d' c (ins ! col) \<and> row_ids c \<noteq> p"
proof -
  obtain c where c: "column_at rel col = Inr c" "input_ok E n d c (ins ! col)" using assms(1) by (auto simp: emitted_def)
  have "row_ids c \<noteq> p"
  proof (cases "row_ids c = nullptr")
    case True
    with assms(4) show ?thesis by simp
  next
    case False
    from row_ids_known [OF c(2) this] assms(3) show ?thesis by blast
  qed
  with c input_ok_mono [OF assms(2) c(2)] show ?thesis by blast
qed

lemma Execute_semi:
  fixes E :: "('d, 'v) exec_env"
  assumes K: "gpu_runs K" and wf: "dev_wf (ee_rmm E) d" and op: "join_type op = J_SEMI" "conditions op \<noteq> []"
    and table: "gpu_hash_table op = Some ht" "cells d ht = Some (RowIds words)" "gpu_ht_len op = of_nat m * 2"
    and m: "0 < m" "m < 2 ^ 63" and modes: "condition_modes True (conditions op) = Inr modes"
    and T: "T = join_table build (of_nat m * 2) modes False" and fit: "conditions_fit T modes" and words: "probeable T m words"
    and side: "join_side E n d rel w (map jc_left (conditions op)) keys"
    and cols: "\<forall>col \<in> set (col_idxs (lhs_output_columns op)). emitted E n d rel ht ins col"
    and slots: "length (columns rout) = length (col_idxs (lhs_output_columns op))"
    and run: "GPUPhysicalHashJoin_Execute E K J op rel rout d = (r, d')"
  shows "(\<exists>e. r = Inl e \<and> (out_of_memory e \<or> (\<exists>msg. e = InternalException msg))) \<or>
    (\<exists>op' rout' rs. r = Inr (op', rout') \<and>
       mset rs = mset (filter (\<lambda>r. \<exists>b < m. rows_join (conditions op) (side_keys K keys) build r b) [0..<n]) \<and>
       outputs_at E d' rs ins (col_idxs (lhs_output_columns op)) 0 rout')"
proof -
  let ?rmm = "ee_rmm E" and ?conds = "conditions op" and ?lhs = "col_idxs (lhs_output_columns op)"
  have n: "0 < n" "int n \<le> INT32_MAX" and refs: "list_all2 (key_refers E n d rel w) (map jc_left ?conds) keys"
    using side by (simp_all add: join_side_def)
  then have n63: "n < 2 ^ 63" by (simp add: INT32_MAX_def)
  have ht0: "ht \<noteq> nullptr" using table(2) dev_wf_nullptr [OF wf] by auto
  have chk: "check_output op rout = Inr ()" using op(1) slots by (simp add: check_output_def output_columns_expected_def Let_def)
  obtain r1 d1 where k: "materialize_keys E rel (map jc_left ?conds) d = (r1, d1)"
    by (cases "materialize_keys E rel (map jc_left ?conds) d")
  have start: "(r, d') = act_bind (materialize_keys E rel (map jc_left ?conds)) (\<lambda>(probe_key, unique).
     act_bind (probe_hash_table E K J (op\<lparr>unique_probe_keys := unique_probe_keys op \<or> unique\<rparr>) probe_key) (\<lambda>(op', refs, output).
     act_bind (output_lhs E op' probe_key refs output rel rout) (\<lambda>rout.
     act_bind (output_rhs E op' refs rout) (\<lambda>rout'.
     act_bind (free_hash_table op') (\<lambda>_. act_return (op', rout')))))) d"
    unfolding run [symmetric] GPUPhysicalHashJoin_Execute_def chk act_bind_lift ..
  from materialize_keys_gathered [OF refs n wf k] show ?thesis
  proof (elim disjE exE conjE)
    assume "r1 = Inl BadAlloc"
    with start k have "r = Inl BadAlloc" by (simp add: act_bind_def)
    then show ?thesis by (auto simp: out_of_memory_def)
  next
    fix ks u assume ks: "r1 = Inr (ks, u)" "device_extends ?rmm d d1" "list_all2 (gathered E n d1 w) ks keys"
    let ?op = "op\<lparr>unique_probe_keys := unique_probe_keys op \<or> u\<rparr>"
    have len: "length ks = length ?conds" using ks(3) refs by (auto dest!: list_all2_lengthD)
    have wf1: "dev_wf ?rmm d1" using ks(2) by (simp add: device_extends_def)
    have ht1: "cells d1 ht = Some (RowIds words)" by (rule device_extends_cell [OF ks(2) table(2)])
    obtain r2 d2 where p: "HandleProbeExpression ?rmm K ks no_refs ht (of_nat m * 2) ?conds J_SEMI (unique_build_keys op) d1 = (r2, d2)"
      by (cases "HandleProbeExpression ?rmm K ks no_refs ht (of_nat m * 2) ?conds J_SEMI (unique_build_keys op) d1")
    have steps: "(r, d') = act_bind (HandleProbeExpression ?rmm K ks no_refs ht (of_nat m * 2) ?conds J_SEMI (unique_build_keys op)) (\<lambda>refs.
       act_bind (act_lift (count_of refs)) (\<lambda>cnt.
       act_bind (relocate_loop (ee_duckdb E) ?rmm rel cnt (row_ids_left refs) True [] 0 ?lhs rout) (\<lambda>rout'.
       act_bind (dev_free ht) (\<lambda>_. act_return (?op, rout'))))) d1"
    proof -
      have k': "materialize_keys E rel (map jc_left ?conds) d = (Inr (ks, u), d1)" using k ks(1) by simp
      show ?thesis
        unfolding start act_bind_eq(1) [of "materialize_keys E rel (map jc_left ?conds)" d "(ks, u)" d1, OF k']
        by (simp add: probe_hash_table_def op(1) table(1,3) hash_table_pointer_def act_bind_lift act_bind_assoc act_bind_return_left
          output_lhs_def output_rhs_def free_hash_table_def HandleMaterializeRowIDsLHS_def Let_def ht0)
    qed
    from HandleProbe_semi [OF K ks(3) len op(2) n(1) n63 m modes T fit words ht1 wf1 p] show ?thesis
    proof (elim disjE exE conjE)
      fix e assume "r2 = Inl e" "out_of_memory e"
      with steps p have "r = Inl e" by (simp add: act_bind_def)
      with \<open>out_of_memory e\<close> show ?thesis by blast
    next
      fix refs rs zs cnt q
      assume q: "r2 = Inr refs" "row_ids_left refs = q" "probe_count refs = Some cnt" "unat cnt = length rs"
        "arrays ?rmm d1 [] [q \<mapsto> RowIds zs] d2" "unat cnt \<le> length zs" "take (unat cnt) zs = map of_nat rs"
        and rs: "mset rs = mset (filter (\<lambda>r. \<exists>b < m. rows_join ?conds (side_keys K keys) build r b) [0..<n])"
      have wf2: "dev_wf ?rmm d2" using q(5) by (simp add: arrays_def)
      have qcell: "cells d2 q = Some (RowIds zs)" using arrays_new [OF q(5), of q] by simp
      then have q0: "q \<noteq> nullptr" using dev_wf_nullptr [OF wf2] by auto
      have q1: "q \<notin> dom (cells d1)" using q(5) by (simp add: arrays_def)
      have ext: "device_extends ?rmm d d2" using arrays_rebase [OF ks(2) q(5)] .
      have ht2: "cells d2 ht = Some (RowIds words)" by (rule device_extends_cell [OF ext table(2)])
      have q2: "q \<notin> dom (cells d)"
        using q1 device_extends_cell [OF ks(2), of q] by (cases "cells d q") auto
      have small: "\<forall>x \<in> set rs. x < n" using mset_eq_setD [OF rs] by auto
      then have sel: "map unat (map of_nat rs :: u64 list) = rs" "\<forall>j \<in> set (map of_nat rs :: u64 list). unat j < n"
        using n63 by (auto intro!: map_idI simp: unat_of_nat take_bit_nat_eq_self)
      have cols2: "\<forall>col \<in> set ?lhs. \<exists>c. column_at rel col = Inr c \<and> input_ok E n d2 c (ins ! col) \<and> row_ids c \<noteq> q"
        using cols emitted_apart [OF _ ext q2 q0] by blast
      obtain r3 d3 where l: "relocate_loop (ee_duckdb E) ?rmm rel cnt q True [] 0 ?lhs rout d2 = (r3, d3)"
        by (cases "relocate_loop (ee_duckdb E) ?rmm rel cnt q True [] 0 ?lhs rout d2")
      have steps2: "(r, d') = act_bind (relocate_loop (ee_duckdb E) ?rmm rel cnt q True [] 0 ?lhs rout) (\<lambda>rout'.
         act_bind (dev_free ht) (\<lambda>_. act_return (?op, rout'))) d2"
        using steps p q(1,2,3) by (simp add: act_bind_def act_basic count_of_def)
      have fit0: "0 + length ?lhs \<le> length (columns rout)" using slots by simp
      from relocate_loop_holds [OF wf2 qcell q0 q(6) q(7) [symmetric] sel(2) n(1) cols2 fit0 l] show ?thesis
      proof (elim disjE exE conjE)
        assume "r3 = Inl BadAlloc"
        with steps2 l have "r = Inl BadAlloc" by (simp add: act_bind_def)
        then show ?thesis by (auto simp: out_of_memory_def)
      next
        fix msg assume "r3 = Inl (InternalException msg)"
        with steps2 l have "r = Inl (InternalException msg)" by (simp add: act_bind_def)
        then show ?thesis by blast
      next
        fix rout' assume o: "r3 = Inr rout'" "dev_wf ?rmm d3" "outputs_at E d3 (map unat (map of_nat rs :: u64 list)) ins ?lhs 0 rout'"
          "apart_from d2 d3 (row_id_arrays rel ?lhs) q 0 (length ?lhs) rout'"
        have ht_out: "ht \<in> dom (cells d2)" "ht \<notin> row_id_arrays rel ?lhs" "ht \<noteq> q"
          using ht2 cols q1 ht1 by (auto simp: row_id_arrays_def emitted_def)
        then have ht3: "cells d3 ht = Some (RowIds words)"
          and noht: "\<forall>k < length ?lhs. \<forall>out. columns rout' ! (0 + k) = Some out \<longrightarrow> row_ids out \<noteq> ht"
          using o(4) ht2 unfolding apart_from_def by auto
        obtain r4 d4 where f: "dev_free ht d3 = (r4, d4)" by (cases "dev_free ht d3")
        from ht3 have "ht \<in> dom (cells d3)" by blast
        from dev_free_array [OF o(2) this f] have f': "r4 = Inr ()" "cells d4 = cells d3 \<or> cells d4 = (cells d3)(ht := None)" by auto
        have "r = Inr (?op, rout')" "d' = d4" using steps2 l o(1) f f'(1) by (simp_all add: act_bind_def act_basic)
        moreover have "outputs_at E d4 rs ins ?lhs 0 rout'"
          using outputs_at_free [OF o(3) ht3 noht f'(2)] unfolding sel(1) .
        ultimately show ?thesis using rs by blast
      qed
    qed
  qed
qed

section \<open>The constructed operator\<close>

definition refers :: "'d JoinCondition \<Rightarrow> nat \<Rightarrow> bool" where
  "refers c i \<longleftrightarrow> (\<exists>t. jc_right c = BoundReference t i)"

lemma build_columns_fold:
  assumes "\<forall>c \<in> set cs. \<exists>i. refers c i" and "distinct (map (reference_index \<circ> jc_right) cs)"
    and "\<forall>c \<in> set cs. \<forall>i. refers c i \<longrightarrow> map_of m i = None"
  shows "length (fold (\<lambda>(cond_idx, c) m. case jc_right c of
      BoundReference t i \<Rightarrow> if map_of m i = None then m @ [(i, cond_idx)] else m
    | _ \<Rightarrow> m) (enumerate k cs) m) = length m + length cs"
  using assms
proof (induction cs arbitrary: k m)
  case (Cons c cs)
  then obtain t i where c: "jc_right c = BoundReference t i" by (auto simp: refers_def)
  with Cons.prems(3) have new: "map_of m i = None" by (auto simp: refers_def)
  have "\<forall>c' \<in> set cs. \<forall>j. refers c' j \<longrightarrow> map_of (m @ [(i, k)]) j = None"
  proof (intro ballI allI impI)
    fix c' j assume c': "c' \<in> set cs" "refers c' j"
    then obtain t' where t': "jc_right c' = BoundReference t' j" by (auto simp: refers_def)
    then have "reference_index (jc_right c') = Inr j" by (simp add: reference_index_def)
    moreover have "reference_index (jc_right c) = Inr i" by (simp add: reference_index_def c)
    ultimately have "i \<noteq> j" using Cons.prems(2) c'(1) by force
    with Cons.prems(3) c' show "map_of (m @ [(i, k)]) j = None" by (auto simp: map_add_def)
  qed
  with Cons.IH [of "m @ [(i, k)]" "Suc k"] Cons.prems c new show ?case by simp
qed simp

lemma new_semi:
  assumes new: "GPUPhysicalHashJoin_new lhs_types rhs_types cond J_SEMI lmap rmap dts = Inr op"
    and refs: "\<forall>c \<in> set (conditions op). \<exists>i. refers c i" "distinct (map (reference_index \<circ> jc_right) (conditions op))"
  shows "join_type op = J_SEMI" and "conditions op = ReorderConditions cond" and "delim_types op = []"
    and "length (columns (hash_table_result op)) = length (conditions op)"
    and "length (columns (materialized_build_key op)) = length (conditions op)"
    and "col_idxs (payload_columns op) = []"
proof -
  obtain left_types where op: "op = \<lparr>join_type = J_SEMI, conditions = ReorderConditions cond,
     condition_types = map (\<lambda>c. return_type (jc_left c)) (ReorderConditions cond), payload_columns = no_columns,
     lhs_output_columns = \<lparr>col_idxs = projection_map lmap lhs_types, col_types = left_types\<rparr>,
     rhs_output_columns = no_columns, delim_types = [], unique_build_keys = False, unique_probe_keys = False,
     gpu_hash_table = None, gpu_ht_len = 0,
     hash_table_result = GPUIntermediateRelation_new (length (build_columns_in_conditions (ReorderConditions cond)) + length (col_idxs no_columns)),
     materialized_build_key = GPUIntermediateRelation_new (length (build_columns_in_conditions (ReorderConditions cond)))\<rparr>"
    using new by (auto simp: GPUPhysicalHashJoin_new_def Let_def res_bind_Inr_iff)
  have "length (build_columns_in_conditions (ReorderConditions cond)) = length (ReorderConditions cond)"
    using build_columns_fold [of "ReorderConditions cond" "[]" 0] refs op by (simp add: build_columns_in_conditions_def)
  then show "join_type op = J_SEMI" "conditions op = ReorderConditions cond" "delim_types op = []"
    "length (columns (hash_table_result op)) = length (conditions op)"
    "length (columns (materialized_build_key op)) = length (conditions op)"
    "col_idxs (payload_columns op) = []"
    by (simp_all add: op no_columns_def GPUIntermediateRelation_new_def)
qed

lemma join_side_refers: "join_side E n d rel w (map jc_right cs) keys \<Longrightarrow> \<forall>c \<in> set cs. \<exists>i. refers c i"
  by (fastforce simp: join_side_def list_all2_conv_all_nth in_set_conv_nth key_refers_def refers_def)

lemma semi_sink:
  fixes E :: "('d, 'v) exec_env"
  assumes K: "gpu_runs K" and new: "GPUPhysicalHashJoin_new lhs_types rhs_types cond J_SEMI lmap rmap dts = Inr op"
    and build: "dev_wf (ee_rmm E) d" "join_side E m d bin w (map jc_right (conditions op)) bkeys"
    and dist: "distinct (map (reference_index \<circ> jc_right) (conditions op))"
    and ready: "table_ready (conditions op) (side_keys K bkeys) m"
    and modes: "condition_modes True (conditions op) = Inr modes"
    and sink: "GPUPhysicalHashJoin_Sink E K op bin d = (Inr op', d1)"
  obtains words where "probeable (join_table (side_keys K bkeys) (of_nat m * 2) modes False) m words"
    and "device_extends (ee_rmm E) d d1" and "holds_table d1 op' words m"
    and "join_type op' = J_SEMI" "conditions op' = conditions op" "lhs_output_columns op' = lhs_output_columns op"
proof -
  note o = new_semi [OF new join_side_refers [OF build(2)] dist]
  have m: "0 < m" "m < 2 ^ 63" using build(2) by (simp_all add: join_side_def INT32_MAX_def)
  define T where "T = join_table (side_keys K bkeys) (of_nat m * 2) modes False"
  have ne: "conditions op \<noteq> []" using ready by (auto simp: table_ready_def)
  obtain words where w: "k_build K (T, m) = Some words" "probeable T m words"
    using build_launch [OF K ready m modes, of False, folded T_def] by blast
  have jt: "builds_table (join_type op)" "is_right_join (join_type op) = False"
    by (simp_all add: o(1) builds_table_def is_right_join_def)
  have pay: "\<exists>result'. keep_payload bin (length (conditions op)) (col_idxs (payload_columns op)) result = Inr result'" for result
    by (simp add: o(6))
  have launch: "k_build K (join_table (side_keys K bkeys) (of_nat m * 2) modes (is_right_join (join_type op)), m) = Some words"
    using w(1) by (simp add: T_def jt(2))
  from Sink_builds [OF build ne jt(1) o(3) eq_refl [OF o(4) [symmetric]] eq_refl [OF o(5) [symmetric]] pay modes launch sink]
  obtain u result ks where s: "device_extends (ee_rmm E) d d1" "holds_table d1 op' words m"
    "op' = op\<lparr>unique_build_keys := u, gpu_hash_table := gpu_hash_table op', gpu_ht_len := gpu_ht_len op',
      hash_table_result := result, materialized_build_key := ks\<rparr>" by auto
  have "join_type op' = J_SEMI" "conditions op' = conditions op" "lhs_output_columns op' = lhs_output_columns op"
    by (subst s(3), simp add: o(1))+
  with that [of words] w(2) s(1,2) show thesis by (simp add: T_def)
qed

lemma semi_join_result:
  fixes E :: "('d, 'v) exec_env"
  assumes K: "gpu_runs K" and new: "GPUPhysicalHashJoin_new lhs_types rhs_types cond J_SEMI lmap rmap dts = Inr op"
    and build: "dev_wf (ee_rmm E) d" "join_side E m d bin w (map jc_right (conditions op)) bkeys"
    and dist: "distinct (map (reference_index \<circ> jc_right) (conditions op))"
    and ready: "table_ready (conditions op) (side_keys K bkeys) m"
    and modes: "condition_modes True (conditions op) = Inr modes"
    and sink: "GPUPhysicalHashJoin_Sink E K op bin d = (Inr op', d1)"
    and probe: "device_extends (ee_rmm E) d1 d2" "join_side E n d2 pin w' (map jc_left (conditions op)) pkeys"
    and cols: "\<forall>col \<in> set (col_idxs (lhs_output_columns op)). emitted E n d2 pin (the (gpu_hash_table op')) ins col"
    and slots: "length (columns rout) = length (col_idxs (lhs_output_columns op))"
    and run: "GPUPhysicalHashJoin_Execute E K J op' pin rout d2 = (r, d')"
  shows "(\<exists>e. r = Inl e \<and> (out_of_memory e \<or> (\<exists>msg. e = InternalException msg))) \<or>
    (\<exists>op'' rout' rs. r = Inr (op'', rout') \<and>
       mset rs = mset (filter (\<lambda>r. \<exists>b < m. rows_join (conditions op) (side_keys K pkeys) (side_keys K bkeys) r b) [0..<n]) \<and>
       outputs_at E d' rs ins (col_idxs (lhs_output_columns op)) 0 rout')"
proof -
  let ?T = "join_table (side_keys K bkeys) (of_nat m * 2) modes False"
  obtain words where p: "probeable ?T m words" and h: "holds_table d1 op' words m"
    and same: "join_type op' = J_SEMI" "conditions op' = conditions op" "lhs_output_columns op' = lhs_output_columns op"
    by (rule semi_sink [OF K new build dist ready modes sink]) (rule that)
  have m: "0 < m" "m < 2 ^ 63" using build(2) by (simp_all add: join_side_def INT32_MAX_def)
  have ne: "conditions op \<noteq> []" using ready by (auto simp: table_ready_def)
  have fit: "conditions_fit ?T modes"
    using modes unfolding new_semi(2) [OF new join_side_refers [OF build(2)] dist] by (rule reordered_conditions_fit)
  obtain ht where ht: "gpu_hash_table op' = Some ht" "cells d1 ht = Some (RowIds words)" "gpu_ht_len op' = of_nat m * 2"
    using h by (auto simp: holds_table_def)
  have wf2: "dev_wf (ee_rmm E) d2" using probe(1) by (simp add: device_extends_def)
  from Execute_semi [OF K wf2 same(1) _ ht(1) device_extends_cell [OF probe(1) ht(2)] ht(3) m _ refl fit p _ _ _ run,
      unfolded same, OF ne modes probe(2) _ slots] cols ht(1)
  show ?thesis by simp
qed

end
