(* ===== verification/Join_Properties.thy ===== *)
theory Join_Properties
  imports Join_Rows Expression_Properties
begin

text \<open>
  The properties of the hash join operator, with a join of two small tables.
\<close>

section \<open>A join of two tables\<close>

text \<open>A launch whose outcome on one input is chosen.\<close>

definition pinned :: "'i \<Rightarrow> 'o \<Rightarrow> ('i \<Rightarrow> 'o option) \<Rightarrow> 'i \<Rightarrow> 'o option" where
  "pinned i x run j = (if j = i then Some x else run j)"

lemma launch_pinned: "launch outcome run \<Longrightarrow> outcome i x \<Longrightarrow> launch outcome (pinned i x run)"
  by (auto simp: launch_def pinned_def split: if_splits)

text \<open>The build side has the key 8 only, the probe side the keys 7, 8, 9.\<close>

definition join_device :: "int device" where
  "join_device = \<lparr>mgr = small_manager,
     cells = [0x20000 \<mapsto> Vals 4 [8], 0x20100 \<mapsto> Vals 4 [7, 8, 9], 0x20200 \<mapsto> Vals 4 [70, 80, 90]]\<rparr>"

definition build_relation :: GPUIntermediateRelation where
  "build_relation = \<lparr>rel_names = [], column_names = [''k''], columns = [Some (int_column 0x20000 nullptr nullptr 0 1)],
     column_count = 1\<rparr>"

definition probe_relation :: GPUIntermediateRelation where
  "probe_relation = \<lparr>rel_names = [], column_names = [''a'', ''b''],
     columns = [Some (int_column 0x20100 nullptr nullptr 0 3), Some (int_column 0x20200 nullptr nullptr 0 3)],
     column_count = 2\<rparr>"

definition key_condition :: "(LogicalType \<times> int) JoinCondition" where
  "key_condition = \<lparr>jc_left = BoundReference L_INTEGER 0, jc_right = BoundReference L_INTEGER 0, jc_comparison = COMPARE_EQUAL\<rparr>"

definition key_table :: "int list list \<Rightarrow> table" where
  "key_table ks = \<lparr>t_keys = ks, ht_len = 2, num_keys = 1, equal_keys = 1, is_right = False\<rparr>"

definition table_words :: "u64 list" where
  "table_words = [8, 0, EMPTY, EMPTY]"

definition build_input :: "table \<times> nat" where
  "build_input = (key_table [[8]], 1)"

definition probe_input :: "nat \<times> table \<times> nat list \<times> int list list \<times> nat \<times> u64 list" where
  "probe_input = (1, key_table [], [0], [[7, 8, 9]], 3, table_words)"

definition join_gpu :: "u64 \<Rightarrow> u64 \<Rightarrow> int join_kernels \<Rightarrow> int join_kernels" where
  "join_gpu x y K =
     \<lparr>k_build = pinned build_input table_words (k_build K), k_probe = k_probe K,
      k_single = pinned probe_input ([1, x, y], [], 1, table_words) (k_single K), k_right = k_right K,
      k_right_single = k_right_single K, k_mark = k_mark K, k_scan = k_scan K, key_value = \<lambda>x. x,
      byte_value = byte_value K\<rparr>"

lemma one_row_build: "buildHashTable (key_table [[8]]) 1 [] table_words"
proof -
  let ?T = "key_table [[8]]" and ?e = "replicate 4 EMPTY" and ?rest = "replicate 127 (Next [])"
  have threads: "build_threads 1 = Next [0] # ?rest" by code_simp
  have slot: "first_slot (t_keys ?T) (equal_keys ?T) (ht_len ?T) 0 = Some 0" "ht_at ?T ?e 0 0 = EMPTY"
    "ht_set ?T (ht_set ?T ?e 0 0 (key_item (t_keys ?T) 0 0)) 0 1 0 = table_words"
    by code_simp+
  have "(build_step ?T)\<^sup>*\<^sup>* (?e, Next [0] # ?rest) (?e, Seek 0 0 [] # ?rest)"
    using build_step.begin_row [of 0 "Next [0] # ?rest" 0 "[]" ?T 0 ?e] slot(1) by (intro r_into_rtranclp) simp
  also have "build_step ?T \<dots> (ht_set ?T ?e 0 0 (key_item (t_keys ?T) 0 0), Fill 0 0 1 [] # ?rest)"
    using build_step.claim [of 0 "Seek 0 0 [] # ?rest" 0 0 "[]" ?T ?e] slot(2) by simp
  also have "build_step ?T \<dots> (table_words, Next [] # ?rest)"
    using build_step.fill_row [of 0 "Fill 0 0 1 [] # ?rest" 0 0 1 "[]" ?T "ht_set ?T ?e 0 0 (key_item (t_keys ?T) 0 0)"] slot(3)
    by (simp add: key_table_def)
  finally have "(build_step ?T)\<^sup>*\<^sup>* (?e, Next [0] # ?rest) (table_words, Next [] # ?rest)" .
  moreover have "ht_len ?T * n_ht_column ?T = 4" "ht_len ?T \<noteq> 0" by (simp_all add: key_table_def n_ht_column_def)
  ultimately show ?thesis unfolding buildHashTable_def threads by fastforce
qed

lemma three_rows_probe:
  obtains x y where "single_outcome probe_input ([1, x, y], [], 1, table_words)"
proof -
  let ?T = "key_table []" and ?B = "key_table [[8]]"
  have build: "buildable ?B 1" "(0 :: nat) < 1" "1 < ht_len ?B" "coprime (ht_len ?B) 100007" "is_right ?B \<longleftrightarrow> (1 :: nat) = 3"
    "conditions_fit ?B [0]" "(3 :: nat) < 2 ^ 64" "(1 :: nat) \<le> 3" "ht_len ?T \<noteq> 0"
    by (simp_all add: buildable_def key_table_def key_item_def EMPTY_def conditions_fit_def count_equal_keys_def
        coprime_left_2_iff_odd)
  have p: "probeable ?B 1 table_words"
    by (rule table_holds_probeable [OF table_held [OF build(1,2) one_row_build] build(1,3,4)])
  obtain l r c ht where res: "probeHashTableSingleMatch ?B [0] 1 [[7, 8, 9]] 3 table_words (l, r, c, ht)"
    using probeHashTableSingleMatch_ends [OF p build(6,5), where N = 3 and keys = "[[7, 8, 9]]"] by auto
  obtain rs where rs: "mset rs = mset (filter (\<lambda>r. (\<exists>b < 1. joins ?B [0] [[7, 8, 9]] r b) \<longleftrightarrow> (1 :: nat) \<noteq> 2) [0..<3])"
    "unat c = length rs" "take (unat c) l = map of_nat rs"
    by (rule probeHashTableSingleMatch_rows [OF p build(6,5,7,8) res]) (rule that)
  have one: "filter (\<lambda>r. (\<exists>b < 1. joins ?B [0] [[7, 8, 9]] r b) \<longleftrightarrow> (1 :: nat) \<noteq> 2) [0..<3] = [1]"
    by (simp add: upt_conv_Cons numeral_3_eq_3 numeral_2_eq_2 joins_def key_table_def key_item_def)
  have "rs = [1]" using rs(1) unfolding one by simp
  with rs(2,3) have c: "unat c = 1" "take 1 l = [1]" by simp_all
  have "?T = ?B\<lparr>t_keys := []\<rparr>" by (simp add: key_table_def)
  with res have same: "probeHashTableSingleMatch ?T [0] 1 [[7, 8, 9]] 3 table_words (l, r, c, ht)" by simp
  have nil: "write_each ws [] = ([] :: u64 list)" for ws by (simp only: write_each_length list.size flip: length_0_conv)
  from same have other: "length l = 3" "r = []" "ht = table_words" using build(9)
    by (auto simp: probeHashTableSingleMatch_def Let_def nil)
  obtain x y where "l = [1, x, y]" using c(2) other(1) by (auto simp: numeral_3_eq_3 length_Suc_conv)
  moreover have "c = 1" using c(1) by (simp add: word_unat_eq_iff)
  ultimately show ?thesis using that same other by (simp add: single_outcome_def probe_input_def)
qed

lemma join_device_wf: "dev_wf bump_pool join_device"
  unfolding join_device_def
proof (rule dev_wf_sample)
  show "pool_wf small_manager" "gpuCache small_manager = 0x20000" "cpuCache small_manager = nullptr" by code_simp+
  have "in_cache_region small_manager 0x20000" "in_cache_region small_manager 0x20100" "in_cache_region small_manager 0x20200"
    by code_simp+
  then show "dom [0x20000 \<mapsto> Vals 4 [8], 0x20100 \<mapsto> Vals 4 [7, 8, 9], 0x20200 \<mapsto> Vals 4 [70, 80, 90]] \<subseteq>
      fst ` set (owned small_manager) \<union> {p. p \<noteq> nullptr \<and> in_cache_region small_manager p}"
    by auto
qed

definition int_input :: "int list \<Rightarrow> cudf_data_type \<times> int list \<times> bool list" where
  "int_input vs = (cudf_data CUDF_INT32, vs, map (\<lambda>_. True) vs)"

lemma join_inputs_ok:
  "input_ok mini_env 1 join_device (int_column 0x20000 nullptr nullptr 0 1) (int_input [8])"
  "input_ok mini_env 3 join_device (int_column 0x20100 nullptr nullptr 0 3) (int_input [7, 8, 9])"
  "input_ok mini_env 3 join_device (int_column 0x20200 nullptr nullptr 0 3) (int_input [70, 80, 90])"
  unfolding input_ok_def by code_simp+

definition semi_join :: "(LogicalType \<times> int) hash_join" where
  "semi_join = the_res (GPUPhysicalHashJoin_new [L_INTEGER, L_INTEGER] [L_INTEGER] [key_condition] J_SEMI [] [] [])"

lemma semi_join_new:
  "GPUPhysicalHashJoin_new [L_INTEGER, L_INTEGER] [L_INTEGER] [key_condition] J_SEMI [] [] [] = Inr semi_join"
  "conditions semi_join = [key_condition]" "condition_modes True (conditions semi_join) = Inr [0]"
  "col_idxs (lhs_output_columns semi_join) = [0, 1]"
  by code_simp+

lemma int_column_type: "ct_id (dw_type (data_wrapper (int_column p vm rows n len))) = C_INT32"
  by (simp add: int_column_def ColumnType_def)

lemma join_sides:
  "join_side mini_env 1 join_device build_relation 4 (map jc_right [key_condition]) [int_input [8]]"
  "device_extends bump_pool join_device d \<Longrightarrow>
     join_side mini_env 3 d probe_relation 4 (map jc_left [key_condition]) [int_input [7, 8, 9]]"
  using join_inputs_ok input_ok_mono [of bump_pool join_device d mini_env 3 _ "int_input [7, 8, 9]"]
  by (simp_all add: join_side_def key_refers_def key_condition_def INT32_MAX_def build_relation_def probe_relation_def
      column_at_def vec_at_def key_type_def key_width_def int_column_type)

lemma semi_join_runs:
  "case GPUPhysicalHashJoin_Sink mini_env (join_gpu x y K) semi_join build_relation join_device of
     (Inl e, d) \<Rightarrow> False
   | (Inr op, d) \<Rightarrow> gpu_hash_table op = Some 256 \<and>
       (case fst (GPUPhysicalHashJoin_Execute mini_env (join_gpu x y K) J op probe_relation (GPUIntermediateRelation_new 2) d) of
          Inl e \<Rightarrow> False | Inr rel \<Rightarrow> True)"
  unfolding join_gpu_def by code_simp

section \<open>Semi joins\<close>

text \<open>C13: a semi join emits the rows of its left input with a match, and only those.  For one or two
  equalities, and an inequality as the second of two conditions, \<open>Sink\<close> on the right input followed by
  \<open>Execute\<close> on the left one either runs out of memory (or meets a column type without a size), or puts out
  the rows that satisfy all conditions with some row of the right input, each once, in an order that
  depends on the scheduling: every output column stands for the values and the NULLs of these rows.
  The kernels may interleave their threads in any way; the build rows must not have the first key -1 (as
  64 bits), and their number must be coprime to the table's probing step.\<close>

theorem semi_join_keeps_matching_rows:
  fixes E :: "('d, 'v) exec_env"
  assumes "gpu_runs K" and "GPUPhysicalHashJoin_new lhs_types rhs_types cond J_SEMI lmap rmap dts = Inr op"
    and "dev_wf (ee_rmm E) d" and "join_side E m d bin w (map jc_right (conditions op)) bkeys"
    and "distinct (map (reference_index \<circ> jc_right) (conditions op))"
    and "table_ready (conditions op) (side_keys K bkeys) m" and "condition_modes True (conditions op) = Inr modes"
    and "GPUPhysicalHashJoin_Sink E K op bin d = (Inr op', d1)"
    and "device_extends (ee_rmm E) d1 d2" and "join_side E n d2 pin w' (map jc_left (conditions op)) pkeys"
    and "\<forall>col \<in> set (col_idxs (lhs_output_columns op)). emitted E n d2 pin (the (gpu_hash_table op')) ins col"
    and "length (columns rout) = length (col_idxs (lhs_output_columns op))"
    and "GPUPhysicalHashJoin_Execute E K J op' pin rout d2 = (r, d')"
  shows "(\<exists>e. r = Inl e \<and> (out_of_memory e \<or> (\<exists>msg. e = InternalException msg))) \<or>
    (\<exists>op'' rout' rs. r = Inr (op'', rout') \<and>
       mset rs = mset (filter (\<lambda>r. \<exists>b < m. rows_join (conditions op) (side_keys K pkeys) (side_keys K bkeys) r b) [0..<n]) \<and>
       outputs_at E d' rs ins (col_idxs (lhs_output_columns op)) 0 rout')"
  using assms by (rule semi_join_result)

lemma join_gpu_runs:
  assumes "single_outcome probe_input ([1, x, y], [], 1, table_words)"
  shows "gpu_runs (join_gpu x y (some_gpu f g))"
  using some_gpu_runs [of f g] assms one_row_build
  by (simp add: gpu_runs_def join_gpu_def launch_pinned build_outcome_def build_input_def)

theorem semi_join_keeps_matching_rows_witness:
  "\<forall>J :: int cudf_joins. \<exists>K op d r d' rout out. GPUPhysicalHashJoin_Sink mini_env K semi_join build_relation join_device = (Inr op, d) \<and>
     GPUPhysicalHashJoin_Execute mini_env K J op probe_relation (GPUIntermediateRelation_new 2) d = (Inr (r, rout), d') \<and>
     columns rout ! 1 = Some out \<and> values_of duckdb_documented d' out = Some [80]"
proof
  fix J :: "int cudf_joins"
  obtain x y where xy: "single_outcome probe_input ([1, x, y], [], 1, table_words)" by (rule three_rows_probe)
  define K :: "int join_kernels" where "K = join_gpu x y (some_gpu (\<lambda>x. x) (\<lambda>b. 0))"
  let ?sink = "GPUPhysicalHashJoin_Sink mini_env K semi_join build_relation join_device"
  obtain op d where sink: "?sink = (Inr op, d)" and ht: "gpu_hash_table op = Some 256"
    and ok: "case fst (GPUPhysicalHashJoin_Execute mini_env K J op probe_relation (GPUIntermediateRelation_new 2) d) of
        Inl e \<Rightarrow> False | Inr rel \<Rightarrow> True"
    using semi_join_runs [of x y "some_gpu (\<lambda>x. x) (\<lambda>b. 0)" J] unfolding K_def [symmetric]
    by (cases ?sink) (auto split: sum.splits)
  let ?run = "GPUPhysicalHashJoin_Execute mini_env K J op probe_relation (GPUIntermediateRelation_new 2) d"
  obtain r rout d' where run: "?run = (Inr (r, rout), d')"
    using ok by (cases ?run) (auto split: sum.splits)
  note b = join_sides(1) [folded semi_join_new(2)]
  have dist: "distinct (map (reference_index \<circ> jc_right) (conditions semi_join))" by (simp add: semi_join_new(2))
  have ready: "table_ready (conditions semi_join) (side_keys K [int_input [8]]) 1"
    by (simp add: semi_join_new(2) table_ready_def key_condition_def is_equality_def side_keys_def int_input_def K_def join_gpu_def
        coprime_left_2_iff_odd)
  have wf: "dev_wf (ee_rmm mini_env) join_device" using join_device_wf by (simp add: mini_env_def)
  note K = join_gpu_runs [OF xy, of "\<lambda>x. x" "\<lambda>b. 0", folded K_def]
  have ext: "device_extends bump_pool join_device d"
    by (rule semi_sink [OF K semi_join_new(1) wf b dist ready semi_join_new(3) sink]) (simp add: mini_env_def)
  have p: "join_side mini_env 3 d probe_relation 4 (map jc_left (conditions semi_join)) [int_input [7, 8, 9]]"
    unfolding semi_join_new(2) by (rule join_sides(2) [OF ext])
  let ?ins = "[int_input [7, 8, 9], int_input [70, 80, 90]]"
  have cols: "\<forall>col \<in> set (col_idxs (lhs_output_columns semi_join)). emitted mini_env 3 d probe_relation (the (gpu_hash_table op)) ?ins col"
    using input_ok_mono [OF ext join_inputs_ok(2)] input_ok_mono [OF ext join_inputs_ok(3)]
    by (simp add: semi_join_new(4) emitted_def column_at_def vec_at_def probe_relation_def ht) (simp add: int_column_def)
  have slots: "length (columns (GPUIntermediateRelation_new 2)) = length (col_idxs (lhs_output_columns semi_join))"
    by (simp add: semi_join_new(4) GPUIntermediateRelation_new_def)
  have d: "device_extends (ee_rmm mini_env) d d" using ext by (simp add: mini_env_def device_extends_def)
  have kept: "filter (\<lambda>r. \<exists>b < 1. rows_join (conditions semi_join) (side_keys K [int_input [7, 8, 9]]) (side_keys K [int_input [8]]) r b)
      [0..<3] = [1]"
    by (simp add: semi_join_new(2) rows_join_def key_condition_def is_equality_def side_keys_def int_input_def K_def join_gpu_def
        upt_conv_Cons numeral_3_eq_3 numeral_2_eq_2)
  from semi_join_keeps_matching_rows [OF K semi_join_new(1) wf b dist ready semi_join_new(3) sink d p cols slots run]
  have "outputs_at mini_env d' [1] ?ins [0, 1] 0 rout" unfolding kept by (auto simp: semi_join_new(4))
  then have "\<exists>out. columns rout ! 1 = Some out \<and> values_of duckdb_documented d' out = Some [80]"
    unfolding outputs_at_def by (auto simp: holds_rows_def mini_env_def int_input_def)
  with sink run show "\<exists>K op d r d' rout out. GPUPhysicalHashJoin_Sink mini_env K semi_join build_relation join_device = (Inr op, d) \<and>
     GPUPhysicalHashJoin_Execute mini_env K J op probe_relation (GPUIntermediateRelation_new 2) d = (Inr (r, rout), d') \<and>
     columns rout ! 1 = Some out \<and> values_of duckdb_documented d' out = Some [80]" by blast
qed

section \<open>Join types without a table\<close>

definition fails :: "('s, 'a) act \<Rightarrow> bool" where
  "fails m \<longleftrightarrow> (\<forall>s x s'. m s \<noteq> (Inr x, s'))"

lemma fails_bind1: "fails m \<Longrightarrow> fails (act_bind m k)"
  by (auto simp: fails_def act_bind_def split: prod.splits sum.splits)

lemma fails_bind2: "(\<And>x. fails (k x)) \<Longrightarrow> fails (act_bind m k)"
  by (auto simp: fails_def act_bind_def split: prod.splits sum.splits)

lemma fails_throw: "fails (act_throw e)"
  by (simp add: fails_def act_basic)

lemma HandleBuildExpression_fails:
  assumes "jt \<notin> {J_INNER, J_SEMI, J_MARK, J_RIGHT, J_RIGHT_SEMI, J_RIGHT_ANTI}"
  shows "fails (HandleBuildExpression rmm K keys ht len conds jt)"
  unfolding HandleBuildExpression_def ResolveTypeBuildExpression_def using assms
  by (auto intro!: fails_bind2 fails_throw)

text \<open>C14: an anti join, an outer join and a left join never get past their build side.  Although
  \<open>Execute\<close> lists them, \<open>Sink\<close> returns for no input when the join type is not one of inner, semi, mark,
  right, right semi and right anti: it runs out of memory or throws.\<close>

theorem unsupported_joins_never_build:
  assumes "join_type op \<notin> {J_INNER, J_SEMI, J_MARK, J_RIGHT, J_RIGHT_SEMI, J_RIGHT_ANTI}"
  shows "\<exists>e d'. GPUPhysicalHashJoin_Sink E K op rel d = (Inl e, d')"
proof -
  have no_inner: "join_type op \<noteq> J_INNER" using assms by simp
  have "fails (GPUPhysicalHashJoin_Sink E K op rel)"
    unfolding GPUPhysicalHashJoin_Sink_def Let_def if_not_P [OF no_inner]
    by (simp only: split: if_split, intro conjI impI)
       (rule fails_throw, rule fails_bind2, simp only: split: prod.split, intro allI impI, rule fails_bind2, rule fails_bind2,
        rule fails_bind1, rule HandleBuildExpression_fails [OF assms])
  then show ?thesis
    by (cases "GPUPhysicalHashJoin_Sink E K op rel d"; cases "fst (GPUPhysicalHashJoin_Sink E K op rel d)") (auto simp: fails_def)
qed

theorem unsupported_joins_never_build_witness:
  "\<exists>op. GPUPhysicalHashJoin_new [L_INTEGER, L_INTEGER] [L_INTEGER] [key_condition] J_ANTI [] [] [] = Inr op \<and>
     (\<forall>K. \<exists>e d'. GPUPhysicalHashJoin_Sink mini_env K op build_relation join_device = (Inl e, d'))"
proof -
  let ?new = "GPUPhysicalHashJoin_new [L_INTEGER, L_INTEGER] [L_INTEGER] [key_condition] J_ANTI [] [] []"
  have "case ?new of Inl e \<Rightarrow> False | Inr op \<Rightarrow> join_type op = J_ANTI" by code_simp
  then obtain op where op: "?new = Inr op" "join_type op = J_ANTI" by (auto split: sum.splits)
  from op(2) have "join_type op \<notin> {J_INNER, J_SEMI, J_MARK, J_RIGHT, J_RIGHT_SEMI, J_RIGHT_ANTI}" by simp
  from unsupported_joins_never_build [OF this, of mini_env _ build_relation join_device] op(1) show ?thesis by blast
qed

end
