(* ===== verification/Cudf_Sort.thy ===== *)
theory Cudf_Sort
  imports Cudf_Join
begin

text \<open>
  Sorting (\<open>src/src/cuda/cudf/cudf_orderby.cu\<close>): \<open>cudf_orderby\<close> sorts with cuDF and gathers the projected
  columns; for the top rows of one string column it runs sorts of its own, built from CUB's algorithms.
  \<open>cudf_sorting\<close> and \<open>cub_sorting\<close> hold the library functions.
\<close>

section \<open>The libraries\<close>

datatype OrderByType = ASCENDING | DESCENDING

datatype cudf_null_order = NULLS_AFTER | NULLS_BEFORE

text \<open>\<open>sorted_order\<close> returns row numbers; \<open>copy_bitmask\<close> the bits from a begin to an end.\<close>

record 'v cudf_sorting =
  sorted_order :: "'v cudf_column list \<Rightarrow> OrderByType list \<Rightarrow> cudf_null_order list \<Rightarrow> int list res"
  cudf_gather :: "'v cudf_column list \<Rightarrow> int list \<Rightarrow> 'v cudf_column list res"
  copy_bitmask :: "bool list \<Rightarrow> u64 \<Rightarrow> u64 \<Rightarrow> bool list res"

record top_n_record =
  row_id :: u32
  key_prefix :: u32

text \<open>A merge sort by a comparison, a reduction of runs of equal keys, and the scratch memory they ask for.\<close>

record cub_sorting =
  merge_sort :: "(top_n_record \<Rightarrow> top_n_record \<Rightarrow> bool) \<Rightarrow> top_n_record list \<Rightarrow> top_n_record list"
  reduce_by_key :: "(u32 \<Rightarrow> u32 \<Rightarrow> u32) \<Rightarrow> top_n_record list \<Rightarrow> u32 list \<Rightarrow> u32 list"
  merge_sort_bytes :: "u64 \<Rightarrow> u64"
  reduce_by_key_bytes :: "u64 \<Rightarrow> u64"

section \<open>The top strings\<close>

text \<open>At most \<open>k\<close> bytes of string \<open>r\<close>, and all of them.\<close>

definition string_prefix :: "u64 \<Rightarrow> u8 list \<Rightarrow> u64 list \<Rightarrow> u32 \<Rightarrow> u8 list res" where
  "string_prefix k chars offs r =
     res_bind (vec_at offs (unat r)) (\<lambda>lo.
     res_bind (vec_at offs (Suc (unat r))) (\<lambda>hi.
       let n = unat (min (hi - lo) k) in
       if unat lo + n \<le> length chars then Inr (take n (drop (unat lo) chars))
       else Inl (UndefinedBehaviour ''string out of bounds'')))"

definition string_bytes :: "u8 list \<Rightarrow> u64 list \<Rightarrow> u32 \<Rightarrow> u8 list res" where
  "string_bytes = string_prefix (- 1)"

text \<open>The first four bytes, the first one on top.\<close>

fun prefix_word :: "nat \<Rightarrow> u8 list \<Rightarrow> u32" where
  "prefix_word 0 bs = 0"
| "prefix_word (Suc k) [] = 0"
| "prefix_word (Suc k) (b # bs) = or (push_bit (8 * k) (ucast b)) (prefix_word k bs)"

definition create_top_n_records :: "u8 list \<Rightarrow> u64 list \<Rightarrow> u32 \<Rightarrow> top_n_record list res" where
  "create_top_n_records chars offs n = res_mapM (\<lambda>r.
     res_bind (string_prefix 4 chars offs (of_nat r)) (\<lambda>bs.
       Inr \<lparr>row_id = of_nat r, key_prefix = prefix_word 4 bs\<rparr>)) [0..<unat n]"

definition CustomTopNStringPrefixLessThan :: "top_n_record \<Rightarrow> top_n_record \<Rightarrow> bool" where
  "CustomTopNStringPrefixLessThan lhs rhs \<longleftrightarrow> key_prefix lhs < key_prefix rhs"

fun bytes_less :: "u8 list \<Rightarrow> u8 list \<Rightarrow> bool" where
  "bytes_less _ [] = False"
| "bytes_less [] (_ # _) = True"
| "bytes_less (a # as) (b # bs) = (if a \<noteq> b then a < b else bytes_less as bs)"

text \<open>The comparisons read the strings of the two records; \<open>str\<close> gives the bytes of a row.\<close>

definition CustomTopNStringLessThan :: "(u32 \<Rightarrow> u8 list) \<Rightarrow> top_n_record \<Rightarrow> top_n_record \<Rightarrow> bool" where
  "CustomTopNStringLessThan str lhs rhs =
     (if key_prefix lhs \<noteq> key_prefix rhs then key_prefix lhs < key_prefix rhs
      else bytes_less (str (row_id lhs)) (str (row_id rhs)))"

definition CustomTopNStringGreaterThan :: "(u32 \<Rightarrow> u8 list) \<Rightarrow> top_n_record \<Rightarrow> top_n_record \<Rightarrow> bool" where
  "CustomTopNStringGreaterThan str lhs rhs =
     (if key_prefix lhs \<noteq> key_prefix rhs then key_prefix lhs > key_prefix rhs
      else bytes_less (str (row_id rhs)) (str (row_id lhs)))"

definition CustomTopNMin :: "u32 \<Rightarrow> u32 \<Rightarrow> u32" where
  "CustomTopNMin a b = of_bool (a < b)"

text \<open>The first group that starts at or after the number of rows needed; past the groups the kernel reads
  what happens to be there.\<close>

definition top_groups_calculator :: "u32 list \<Rightarrow> u32 \<Rightarrow> u32 res" where
  "top_groups_calculator group_starting_offsets num_results_needed =
     (case dropWhile (\<lambda>g. g < num_results_needed) group_starting_offsets of
        [] \<Rightarrow> Inl (UndefinedBehaviour ''group past the last one'')
      | g # _ \<Rightarrow> Inr g)"

text \<open>The order of the records, and the number of those sorted completely: by prefix first, then, among
  those of the top groups, by the whole string.  Both branches of the first sort compare with the prefix
  being less.\<close>

definition sort_top_records ::
  "cub_sorting \<Rightarrow> OrderByType \<Rightarrow> (u32 \<Rightarrow> u8 list) \<Rightarrow> u32 \<Rightarrow> top_n_record list \<Rightarrow> (u32 \<times> top_n_record list) res" where
  "sort_top_records C order str num_results records =
     (let by_prefix = (if order = ASCENDING then merge_sort C CustomTopNStringPrefixLessThan records
                       else merge_sort C CustomTopNStringPrefixLessThan records);
          boundaries = reduce_by_key C CustomTopNMin by_prefix (map of_nat [0..<length records]) in
      res_bind (top_groups_calculator boundaries num_results) (\<lambda>n.
        let m = unat n; less = (if order = ASCENDING then CustomTopNStringLessThan str else CustomTopNStringGreaterThan str) in
        if length by_prefix < m then Inl (UndefinedBehaviour ''sort past the last record'')
        else Inr (n, merge_sort C less (take m by_prefix) @ drop m by_prefix)))"

text \<open>The strings of the first \<open>num_results\<close> records, copied to their new offsets.\<close>

definition top_strings :: "u8 list \<Rightarrow> u64 list \<Rightarrow> top_n_record list \<Rightarrow> u64 \<Rightarrow> (u64 list \<times> u8 list) res" where
  "top_strings chars offs records num_results =
     (if length records < unat num_results then Inl (UndefinedBehaviour ''record out of bounds'')
      else res_bind (res_mapM (\<lambda>r. string_bytes chars offs (row_id r)) (take (unat num_results) records)) (\<lambda>strs.
        Inr (exclusive_sum 0 (map (of_nat \<circ> length) strs @ [0]), concat strs)))"

text \<open>What the comparisons read for a row; the offsets are taken to be good.\<close>

definition total_string :: "u8 list \<Rightarrow> u64 list \<Rightarrow> u32 \<Rightarrow> u8 list" where
  "total_string chars offs r = (case string_bytes chars offs r of Inl _ \<Rightarrow> [] | Inr bs \<Rightarrow> bs)"

definition CustomStringTopN ::
  "('d, 'v) exec_env \<Rightarrow> cub_sorting \<Rightarrow> GPUColumn \<Rightarrow> GPUColumn \<Rightarrow> OrderByType \<Rightarrow> u64 \<Rightarrow> ('v device, GPUColumn) act" where
  "CustomStringTopN E C key projection order num_results =
     (let rmm = ee_rmm E; n = (ucast (column_length key) :: u32); n64 = (ucast n :: u64) in
      act_bind (dev_malloc rmm 4 n64) (\<lambda>d_indexes.
      act_bind (dev_malloc rmm 8 n64) (\<lambda>d_records.
      act_bind (dev_bytes (dw_data (data_wrapper key))) (\<lambda>chars.
      act_bind (dev_offsets (dw_offset (data_wrapper key))) (\<lambda>offs.
      act_bind (act_lift (create_top_n_records chars offs n)) (\<lambda>records.
      act_bind (dev_malloc rmm 1 (merge_sort_bytes C n64)) (\<lambda>_.
      act_bind (dev_malloc rmm 8 n64) (\<lambda>d_result_groups.
      act_bind (dev_malloc rmm 4 n64) (\<lambda>d_group_boundaries.
      act_bind (dev_malloc rmm 4 1) (\<lambda>d_num_groups.
      act_bind (dev_malloc rmm 1 (reduce_by_key_bytes C n64)) (\<lambda>_.
      act_bind (act_lift (sort_top_records C order (total_string chars offs) (ucast num_results) records)) (\<lambda>(m, records).
      act_bind (dev_malloc rmm 1 (merge_sort_bytes C (ucast m))) (\<lambda>_.
      act_bind (dev_malloc rmm 8 (num_results + 1)) (\<lambda>d_new_offsets.
      act_bind (dev_bytes (dw_data (data_wrapper projection))) (\<lambda>chars.
      act_bind (dev_offsets (dw_offset (data_wrapper projection))) (\<lambda>offs.
      act_bind (act_lift (top_strings chars offs records num_results)) (\<lambda>(new_offsets, result_chars).
      act_bind (dev_malloc rmm 1 (ee_cub E (num_results + 1))) (\<lambda>_.
      act_bind (dev_malloc rmm 1 (of_nat (length result_chars))) (\<lambda>d_result_chars.
      act_bind (dev_write d_new_offsets (Offsets new_offsets)) (\<lambda>_.
      act_bind (dev_write d_result_chars (Bytes result_chars)) (\<lambda>_.
        act_lift (GPUColumn_string (ee_duckdb E) num_results (dw_type (data_wrapper projection)) d_result_chars d_new_offsets
          (of_nat (length result_chars)) (ct_id (dw_type (data_wrapper projection)) = C_VARCHAR) nullptr))))))))))))))))))))))"

section \<open>Sorting through cuDF\<close>

definition is_varchar :: "GPUColumn \<Rightarrow> bool" where
  "is_varchar c \<longleftrightarrow> ct_id (dw_type (data_wrapper c)) = C_VARCHAR"

text \<open>A column of length 0 with the data it had; strings keep their offsets.\<close>

definition emptied_column :: "duckdb_env \<Rightarrow> GPUColumn \<Rightarrow> GPUColumn res" where
  "emptied_column D c = (let w = data_wrapper c in
     res_bind (if is_varchar c then GPUColumn_string D 0 (dw_type w) (dw_data w) (dw_offset w) 0 True nullptr
               else GPUColumn_plain D 0 (dw_type w) (dw_data w) nullptr) (\<lambda>out.
     Inr (out\<lparr>is_unique := is_unique c\<rparr>)))"

text \<open>The columns as cuDF sees them, with the masks they got.\<close>

definition key_columns :: "('d, 'v) exec_env \<Rightarrow> GPUColumn list \<Rightarrow> ('v device, (GPUColumn \<times> 'v cudf_column) list) act" where
  "key_columns E cs = act_mapM (key_column E) cs"

definition set_all ::
  "('d, 'v) exec_env \<Rightarrow> (GPUColumn \<times> 'v cudf_column) list \<Rightarrow> ('v device, GPUColumn list) act" where
  "set_all E cs = act_mapM (\<lambda>(c, cc). setFromCudfColumn E cc (is_unique c) c) cs"

definition cudf_order_of :: "OrderByType \<Rightarrow> cudf_null_order" where
  "cudf_order_of t = (if t = ASCENDING then NULLS_AFTER else NULLS_BEFORE)"

definition use_custom_top_n :: "GPUColumn list \<Rightarrow> GPUColumn list \<Rightarrow> u64 \<Rightarrow> bool" where
  "use_custom_top_n keys projection num_results \<longleftrightarrow> 0 < num_results \<and> length keys = length projection \<and> length keys = 1 \<and>
     list_all is_varchar keys \<and> list_all is_varchar projection"

definition cudf_orderby ::
  "('d, 'v) exec_env \<Rightarrow> 'v cudf_sorting \<Rightarrow> cub_sorting \<Rightarrow> GPUColumn list \<Rightarrow> GPUColumn list \<Rightarrow> OrderByType list \<Rightarrow> u64 \<Rightarrow>
   ('v device, GPUColumn list) act" where
  "cudf_orderby E S C keys projection order_by_type num_results =
     (if use_custom_top_n keys projection num_results then
        act_bind (CustomStringTopN E C (keys ! 0) (projection ! 0) (order_by_type ! 0) num_results) (\<lambda>c. act_return [c])
      else act_bind (act_lift (vec_at keys 0)) (\<lambda>k0.
        if column_length k0 = 0 then act_lift (res_mapM (emptied_column (ee_duckdb E)) projection)
        else act_bind (key_columns E keys) (\<lambda>ks.
             act_bind (act_lift (sorted_order S (map snd ks) order_by_type (map cudf_order_of order_by_type))) (\<lambda>sorted.
             act_bind (key_columns E projection) (\<lambda>ps.
             act_bind (act_lift (cudf_gather S (map snd ps) sorted)) (\<lambda>gathered.
               set_all E (zip (map fst ps) gathered)))))))"

end
