(* ===== verification/Sort_Limit.thy ===== *)
theory Sort_Limit
  imports Cudf_Sort
begin

text \<open>
  The operators that order and cut a relation (\<open>src/src/operator/gpu_physical_order.cpp\<close>,
  \<open>gpu_physical_top_n.cpp\<close>, \<open>gpu_physical_limit.cpp\<close>).  The mutable member \<open>sort_result\<close> and the input
  relation, whose columns \<open>Sink\<close> replaces, are returned updated.
\<close>

section \<open>Orders\<close>

datatype OrderType = ORDER_INVALID | ORDER_DEFAULT | ORDER_ASCENDING | ORDER_DESCENDING

datatype OrderByNullType = NULLS_INVALID | NULLS_DEFAULT | NULLS_FIRST | NULLS_LAST

record 'd BoundOrderByNode =
  order_type :: OrderType
  order_nulls :: OrderByNullType
  order_expr :: "'d Expression"

definition order_by_types :: "'d BoundOrderByNode list \<Rightarrow> OrderByType list" where
  "order_by_types orders = map (\<lambda>node. if order_type node = ORDER_ASCENDING then ASCENDING else DESCENDING) orders"

definition HandleOrderBy ::
  "('d, 'v) exec_env \<Rightarrow> 'v cudf_sorting \<Rightarrow> cub_sorting \<Rightarrow> GPUColumn list \<Rightarrow> GPUColumn list \<Rightarrow> 'd BoundOrderByNode list \<Rightarrow>
   ('v device, GPUColumn list) act" where
  "HandleOrderBy E S C order_by_keys projection_columns orders =
     act_bind (dev_host_alloc 4 (of_nat (length orders))) (\<lambda>_.
       cudf_orderby E S C order_by_keys projection_columns (order_by_types orders) 0)"

definition HandleTopN ::
  "('d, 'v) exec_env \<Rightarrow> 'v cudf_sorting \<Rightarrow> cub_sorting \<Rightarrow> GPUColumn list \<Rightarrow> GPUColumn list \<Rightarrow> 'd BoundOrderByNode list \<Rightarrow>
   u64 \<Rightarrow> ('v device, GPUColumn list) act" where
  "HandleTopN E S C order_by_keys projection_columns orders num_results =
     act_bind (dev_host_alloc 4 (of_nat (length orders))) (\<lambda>_.
       cudf_orderby E S C order_by_keys projection_columns (order_by_types orders) num_results)"

section \<open>Sinks\<close>

text \<open>The projected columns, gathered; they take the places of the input's columns.\<close>

fun gather_projections ::
  "('d, 'v) exec_env \<Rightarrow> nat list \<Rightarrow> GPUIntermediateRelation \<Rightarrow>
   ('v device, GPUColumn list \<times> GPUIntermediateRelation) act" where
  "gather_projections E [] rin = act_return ([], rin)"
| "gather_projections E (i # js) rin =
     act_bind (act_lift (column_at rin i)) (\<lambda>c.
     act_bind (HandleMaterializeExpression (ee_duckdb E) (ee_rmm E) (ee_cub E) c) (\<lambda>p.
     act_bind (act_lift (set_column i p rin)) (\<lambda>rin'.
     act_bind (gather_projections E js rin') (\<lambda>(ps, rin''). act_return (p # ps, rin'')))))"

definition order_key_index :: "'d BoundOrderByNode \<Rightarrow> nat res" where
  "order_key_index node = (case order_expr node of BoundReference t i \<Rightarrow> Inr i
     | _ \<Rightarrow> Inl (NotImplementedException ''Order by expression not supported''))"

definition gather_order_keys ::
  "('d, 'v) exec_env \<Rightarrow> 'd BoundOrderByNode list \<Rightarrow> GPUIntermediateRelation \<Rightarrow> ('v device, GPUColumn list) act" where
  "gather_order_keys E orders rin = act_mapM (\<lambda>node.
     act_bind (act_lift (res_bind (order_key_index node) (column_at rin)))
       (HandleMaterializeExpression (ee_duckdb E) (ee_rmm E) (ee_cub E))) orders"

text \<open>A sorted column becomes the result when there is none, or an empty one.\<close>

definition keep_sorted :: "string \<Rightarrow> GPUColumn option \<Rightarrow> GPUColumn \<Rightarrow> GPUColumn option res" where
  "keep_sorted message old c =
     (let c' = c\<lparr>row_ids := nullptr, row_id_count := Some 0\<rparr> in
      case old of
        None \<Rightarrow> Inr (Some c')
      | Some r \<Rightarrow>
          if column_length r = 0 \<or> dw_data (data_wrapper r) = nullptr then Inr (Some c')
          else if 0 < column_length c \<and> dw_data (data_wrapper c) \<noteq> nullptr then Inl (NotImplementedException message)
          else Inr old)"

definition keep_all_sorted ::
  "string \<Rightarrow> GPUIntermediateRelation \<Rightarrow> GPUColumn list \<Rightarrow> GPUIntermediateRelation res" where
  "keep_all_sorted message result cs =
     (if length (columns result) < length cs then Inl (UndefinedBehaviour ''vector index'')
      else res_bind (res_mapM (\<lambda>(old, c). keep_sorted message old c) (zip (columns result) cs)) (\<lambda>news.
        Inr (result\<lparr>columns := news @ drop (length cs) (columns result)\<rparr>)))"

text \<open>\<open>cudf_orderby\<close> overwrites the column objects of its projections, which the input relation shares, except
  where it puts new ones in their places.\<close>

definition overwrite_columns ::
  "GPUColumn list \<Rightarrow> GPUColumn list \<Rightarrow> u64 \<Rightarrow> nat list \<Rightarrow> GPUColumn list \<Rightarrow> GPUIntermediateRelation \<Rightarrow>
   GPUIntermediateRelation" where
  "overwrite_columns keys projection num_results js cs rin =
     (if use_custom_top_n keys projection num_results \<or> column_length (hd keys) = 0 then rin
      else rin\<lparr>columns := foldl (\<lambda>old (i, c). old[i := Some c]) (columns rin) (zip js cs)\<rparr>)"

definition too_long :: "GPUColumn \<Rightarrow> bool" where
  "too_long c \<longleftrightarrow> int (unat (column_length c)) > INT32_MAX"

definition long_order :: exn where
  "long_order = NotImplementedException ''Order by with column length greater than INT32_MAX is not supported''"

section \<open>Order\<close>

record 'd gpu_order =
  orders :: "'d BoundOrderByNode list"
  projections :: "nat list"
  sort_result :: GPUIntermediateRelation

definition GPUPhysicalOrder_new :: "'d BoundOrderByNode list \<Rightarrow> nat list \<Rightarrow> 'd gpu_order" where
  "GPUPhysicalOrder_new os ps = \<lparr>orders = os, projections = ps, sort_result = GPUIntermediateRelation_new (length ps)\<rparr>"

definition GPUPhysicalOrder_Sink ::
  "('d, 'v) exec_env \<Rightarrow> 'v cudf_sorting \<Rightarrow> cub_sorting \<Rightarrow> 'd gpu_order \<Rightarrow> GPUIntermediateRelation \<Rightarrow>
   ('v device, 'd gpu_order \<times> GPUIntermediateRelation) act" where
  "GPUPhysicalOrder_Sink E S C op rin =
     act_bind (gather_projections E (projections op) rin) (\<lambda>(ps, rin').
     act_bind (gather_order_keys E (orders op) rin') (\<lambda>ks.
     act_bind (act_lift (vec_at ks 0)) (\<lambda>k0.
       if too_long k0 then act_throw long_order
       else act_bind (HandleOrderBy E S C ks ps (orders op)) (\<lambda>cs.
            act_bind (act_lift (keep_all_sorted ''Order by with partially NULL values is not supported'' (sort_result op) cs))
              (\<lambda>result. act_return (op\<lparr>sort_result := result\<rparr>, overwrite_columns ks ps 0 (projections op) cs rin'))))))"

text \<open>The columns of the result are put into the first columns of the output.\<close>

definition GPUPhysicalOrder_GetData :: "'d gpu_order \<Rightarrow> GPUIntermediateRelation \<Rightarrow> GPUIntermediateRelation res" where
  "GPUPhysicalOrder_GetData op rout =
     (let cs = columns (sort_result op) in
      if length (columns rout) < length cs then Inl (UndefinedBehaviour ''vector index'')
      else Inr (rout\<lparr>columns := cs @ drop (length cs) (columns rout)\<rparr>))"

section \<open>Top n\<close>

record 'd gpu_top_n =
  top_orders :: "'d BoundOrderByNode list"
  top_limit :: u64
  top_offset :: u64
  top_result :: GPUIntermediateRelation

definition GPUPhysicalTopN_new :: "nat \<Rightarrow> 'd BoundOrderByNode list \<Rightarrow> u64 \<Rightarrow> u64 \<Rightarrow> 'd gpu_top_n" where
  "GPUPhysicalTopN_new n_types os lim off =
     \<lparr>top_orders = os, top_limit = lim, top_offset = off, top_result = GPUIntermediateRelation_new n_types\<rparr>"

definition GPUPhysicalTopN_Sink ::
  "('d, 'v) exec_env \<Rightarrow> 'v cudf_sorting \<Rightarrow> cub_sorting \<Rightarrow> 'd gpu_top_n \<Rightarrow> GPUIntermediateRelation \<Rightarrow>
   ('v device, 'd gpu_top_n \<times> GPUIntermediateRelation) act" where
  "GPUPhysicalTopN_Sink E S C op rin =
     act_bind (gather_projections E [0..<length (columns (top_result op))] rin) (\<lambda>(ps, rin').
     act_bind (gather_order_keys E (top_orders op) rin') (\<lambda>ks.
     act_bind (act_lift (vec_at ks 0)) (\<lambda>k0.
       if too_long k0 then act_throw long_order
       else act_bind (HandleTopN E S C ks ps (top_orders op) (top_limit op)) (\<lambda>cs.
            act_bind (act_lift (keep_all_sorted ''TopN with partially NULL values is not supported'' (top_result op) cs))
              (\<lambda>result. act_return (op\<lparr>top_result := result\<rparr>,
                 overwrite_columns ks ps (top_limit op) [0..<length (columns (top_result op))] cs rin'))))))"

text \<open>The offsets of the strings from the skipped ones on, brought to start at 0: the new pointer points into
  the array, whose entries are changed in place.\<close>

definition subtractToEach :: "u64 \<Rightarrow> nat \<Rightarrow> nat \<Rightarrow> u64 list \<Rightarrow> u64 list res" where
  "subtractToEach delta from count xs =
     (if length xs < from + count then Inl (UndefinedBehaviour ''array index'')
      else Inr (take from xs @ map (\<lambda>x. x - delta) (take count (drop from xs)) @ drop (from + count) xs))"

text \<open>The data, the offsets and the number of bytes of one output column.\<close>

definition top_n_data ::
  "duckdb_env \<Rightarrow> u64 \<Rightarrow> u64 \<Rightarrow> GPUColumn \<Rightarrow> ('v device, ptr \<times> ptr \<times> u64) act" where
  "top_n_data D off n c = (let w = data_wrapper c in
     if is_varchar c then
       act_bind (dev_offsets (dw_offset w)) (\<lambda>os.
       act_bind (act_lift (vec_at os (unat off))) (\<lambda>bytes_skipped.
       act_bind (act_lift (subtractToEach bytes_skipped (unat off) (unat (n + 1)) os)) (\<lambda>os'.
       act_bind (dev_write (dw_offset w) (Offsets os')) (\<lambda>_.
         act_return (dw_data w + bytes_skipped, dw_offset w + 8 * off, dw_num_bytes w - bytes_skipped)))))
     else act_bind (act_lift (getColumnTypeSize D (dw_type w))) (\<lambda>size.
       act_return (dw_data w + off * size, dw_offset w, n * size)))"

text \<open>\<open>copy_bitmask\<close> of no mask is an empty buffer, whose address is null.\<close>

definition top_n_mask ::
  "('d, 'v) exec_env \<Rightarrow> 'v cudf_sorting \<Rightarrow> u64 \<Rightarrow> u64 \<Rightarrow> ptr \<Rightarrow> ('v device, ptr) act" where
  "top_n_mask E S off n old_mask =
     (if 0 < off then
        if old_mask = nullptr then act_return nullptr else
        act_bind (dev_bits old_mask) (\<lambda>bits.
        act_bind (act_lift (copy_bitmask S bits off (off + n))) (\<lambda>new_mask.
          dev_adopt (ee_rmm E) (getMaskBytesSize n) (Bits new_mask)))
      else act_return old_mask)"

definition top_n_column ::
  "('d, 'v) exec_env \<Rightarrow> 'v cudf_sorting \<Rightarrow> u64 \<Rightarrow> u64 \<Rightarrow> GPUColumn \<Rightarrow> ('v device, GPUColumn) act" where
  "top_n_column E S lim off c = (let w = data_wrapper c in
     if off \<ge> column_length c
     then act_lift (GPUColumn_string (ee_duckdb E) 0 (dw_type w) nullptr nullptr 0 (dw_is_string_data w) nullptr)
     else let n = min lim (column_length c - off) in
       act_bind (top_n_data (ee_duckdb E) off n c) (\<lambda>(data, offsets, num_bytes).
       act_bind (top_n_mask E S off n (dw_validity_mask w)) (\<lambda>mask.
         act_lift (GPUColumn_string (ee_duckdb E) n (dw_type w) data offsets num_bytes (dw_is_string_data w) mask))))"

definition required_column :: "GPUColumn option \<Rightarrow> GPUColumn res" where
  "required_column c = (case c of None \<Rightarrow> Inl (UndefinedBehaviour ''null column'') | Some c \<Rightarrow> Inr c)"

definition GPUPhysicalTopN_GetData ::
  "('d, 'v) exec_env \<Rightarrow> 'v cudf_sorting \<Rightarrow> 'd gpu_top_n \<Rightarrow> GPUIntermediateRelation \<Rightarrow> ('v device, GPUIntermediateRelation) act" where
  "GPUPhysicalTopN_GetData E S op rout =
     (if top_limit op = 0 then act_return rout
      else act_bind (act_mapM (\<lambda>c. act_bind (act_lift (required_column c)) (top_n_column E S (top_limit op) (top_offset op)))
             (columns (top_result op))) (\<lambda>cs.
           if length (columns rout) < length cs then act_throw (UndefinedBehaviour ''vector index'')
           else act_return (rout\<lparr>columns := map Some cs @ drop (length cs) (columns rout)\<rparr>)))"

section \<open>Streaming limit\<close>

text \<open>\<open>GetConstantValue\<close> of another limit is DuckDB's internal error.\<close>

datatype BoundLimitNode = UnsetLimit | ConstantLimit u64 | ConstantPercentage | ExpressionLimit | ExpressionPercentage

definition GetConstantValue :: "BoundLimitNode \<Rightarrow> u64 res" where
  "GetConstantValue l = (case l of ConstantLimit n \<Rightarrow> Inr n
     | _ \<Rightarrow> Inl (InternalException ''BoundLimitNode::GetConstantValue called but limit is not a constant value''))"

record gpu_limit =
  limit_val :: BoundLimitNode
  offset_val :: BoundLimitNode

text \<open>One column: its first rows.  The number carries over to the next columns.\<close>

definition limit_column ::
  "('d, 'v) exec_env \<Rightarrow> u64 \<Rightarrow> GPUColumn \<Rightarrow> ('v device, u64 \<times> GPUColumn) act" where
  "limit_column E lim col =
     act_bind (HandleMaterializeExpression (ee_duckdb E) (ee_rmm E) (ee_cub E) col) (\<lambda>c.
     let w = data_wrapper c; n = min lim (column_length c) in
     act_bind (act_lift (GPUColumn_string (ee_duckdb E) n (dw_type w) (dw_data w) (dw_offset w) (dw_num_bytes w)
       (dw_is_string_data w) (dw_validity_mask w))) (\<lambda>out.
     let out = out\<lparr>is_unique := is_unique c\<rparr> in
     if 0 < n \<and> is_varchar out then
       act_bind (dev_offsets (dw_offset w)) (\<lambda>os.
       act_bind (act_lift (vec_at os (unat n))) (\<lambda>new_num_bytes.
         act_return (n, out\<lparr>data_wrapper := (data_wrapper out)\<lparr>dw_num_bytes := new_num_bytes\<rparr>\<rparr>)))
     else act_return (n, out)))"

fun limit_columns ::
  "('d, 'v) exec_env \<Rightarrow> u64 \<Rightarrow> nat \<Rightarrow> nat \<Rightarrow> GPUIntermediateRelation \<Rightarrow> GPUIntermediateRelation \<Rightarrow>
   ('v device, GPUIntermediateRelation) act" where
  "limit_columns E lim i 0 rin rout = act_return rout"
| "limit_columns E lim i (Suc k) rin rout =
     act_bind (act_lift (column_at rin i)) (\<lambda>c.
     act_bind (limit_column E lim c) (\<lambda>(lim', out).
     act_bind (act_lift (set_column i out rout)) (\<lambda>rout'. limit_columns E lim' (Suc i) k rin rout')))"

definition GPUPhysicalStreamingLimit_Execute ::
  "('d, 'v) exec_env \<Rightarrow> gpu_limit \<Rightarrow> GPUIntermediateRelation \<Rightarrow> GPUIntermediateRelation \<Rightarrow>
   ('v device, GPUIntermediateRelation) act" where
  "GPUPhysicalStreamingLimit_Execute E op rin rout =
     act_bind (act_lift (GetConstantValue (limit_val op))) (\<lambda>lim.
       limit_columns E lim 0 (length (columns rout)) rin rout)"

end
