(* ===== verification/Sort_Rows.thy ===== *)
theory Sort_Rows
  imports Sort_Limit Column_Frames Mini_Cudf "HOL-Library.Multiset"
begin

text \<open>
  What the sorting operators compute: from the documented behaviour of cuDF's sort and gather, the columns
  that \<open>ORDER BY\<close> emits are the projected columns of its input in the order asked for.
\<close>

section \<open>What cuDF documents\<close>

text \<open>The lexicographic order of rows, with a comparison for each key.\<close>

fun rows_less :: "('c \<Rightarrow> 'c \<Rightarrow> bool) list \<Rightarrow> 'c list \<Rightarrow> 'c list \<Rightarrow> bool" where
  "rows_less (lt # lts) (x # xs) (y # ys) = (lt x y \<or> \<not> lt y x \<and> rows_less lts xs ys)"
| "rows_less _ _ _ = False"

definition sort_row :: "'v cudf_column list \<Rightarrow> nat \<Rightarrow> 'v option list" where
  "sort_row cols i = map (\<lambda>c. cells_of c ! i) cols"

text \<open>\<open>lt\<close> is the order of the cells of a column for an order and a place of the nulls; on cells that are not
  null it is the order of the elements or its reverse.  \<open>sorted_order\<close> returns the row numbers in
  lexicographic order, and \<open>cudf_gather\<close> the rows with the given numbers; a column without a mask has no
  nulls.\<close>

type_synonym 'v cell_order = "OrderByType \<Rightarrow> cudf_null_order \<Rightarrow> 'v option \<Rightarrow> 'v option \<Rightarrow> bool"

definition sorts_in_order :: "'v cell_order \<Rightarrow> 'v cudf_sorting \<Rightarrow> bool" where
  "sorts_in_order lt S \<longleftrightarrow> (\<forall>cols os ns n. cols \<noteq> [] \<and> length os = length cols \<and> length ns = length cols \<and>
     (\<forall>c \<in> set cols. length (cc_data c) = n \<and> length (cc_mask c) = n) \<longrightarrow>
     (\<exists>perm. sorted_order S cols os ns = Inr (map int perm) \<and> mset perm = mset [0..<n] \<and>
        sorted_wrt (\<lambda>i j. \<not> rows_less (map2 lt os ns) (sort_row cols j) (sort_row cols i)) perm))"

definition gathers_rows :: "'v cudf_sorting \<Rightarrow> bool" where
  "gathers_rows S \<longleftrightarrow> (\<forall>cols rows n. (\<forall>c \<in> set cols. length (cc_data c) = n \<and> length (cc_mask c) = n) \<and>
     (\<forall>i \<in> set rows. i < n) \<longrightarrow>
     (\<exists>cs. cudf_gather S cols (map int rows) = Inr cs \<and>
        list_all2 (\<lambda>c c'. column_is c' (cc_type c) (length rows) (\<lambda>p. cells_of c ! (rows ! p))) cols cs))"

definition masks_nulls :: "'v cudf \<Rightarrow> bool" where
  "masks_nulls L \<longleftrightarrow> (\<forall>c. cudf_nullable L c \<or> cc_mask c = replicate (length (cc_mask c)) True)"

definition sorting_documented :: "'v cudf \<Rightarrow> ('v \<Rightarrow> 'v \<Rightarrow> bool) \<Rightarrow> 'v cell_order \<Rightarrow> 'v cudf_sorting \<Rightarrow> bool" where
  "sorting_documented L before lt S \<longleftrightarrow> sorts_in_order lt S \<and> gathers_rows S \<and> masks_nulls L \<and>
     (\<forall>ns x y. lt ASCENDING ns (Some x) (Some y) = before x y \<and> lt DESCENDING ns (Some x) (Some y) = before y x)"

section \<open>Inputs\<close>

text \<open>The columns with an index in \<open>I\<close>: \<open>ins i\<close> lists type, values and validity of column \<open>i\<close>.\<close>

type_synonym 'v column_rows = "cudf_data_type \<times> 'v list \<times> bool list"

definition columns_ok ::
  "('d, 'v) exec_env \<Rightarrow> nat \<Rightarrow> 'v device \<Rightarrow> GPUIntermediateRelation \<Rightarrow> nat set \<Rightarrow> (nat \<Rightarrow> 'v column_rows) \<Rightarrow> bool" where
  "columns_ok E n d rel I ins \<longleftrightarrow> (\<forall>i \<in> I. \<exists>c. column_at rel i = Inr c \<and> input_ok E n d c (ins i))"

definition plain_of :: "('d, 'v) exec_env \<Rightarrow> nat \<Rightarrow> 'v device \<Rightarrow> 'v column_rows \<Rightarrow> GPUColumn \<Rightarrow> bool" where
  "plain_of E n d inp c \<longleftrightarrow> (case inp of (t, vs, bs) \<Rightarrow> plain_column (ee_duckdb E) d c t n vs bs \<and>
     length vs = n \<and> length bs = n)"

definition as_cudf :: "'v column_rows \<Rightarrow> 'v cudf_column" where
  "as_cudf inp = (case inp of (t, vs, bs) \<Rightarrow> \<lparr>cc_type = t, cc_data = vs, cc_mask = bs\<rparr>)"

lemma columns_ok_mono: "device_extends rmm d d' \<Longrightarrow> columns_ok E n d rel I ins \<Longrightarrow> columns_ok E n d' rel I ins"
  unfolding columns_ok_def using input_ok_mono by blast

lemma plain_of_mono: "device_extends rmm d d' \<Longrightarrow> plain_of E n d inp c \<Longrightarrow> plain_of E n d' inp c"
  by (auto simp: plain_of_def intro: plain_column_mono)

lemma plain_of_input: "plain_of E n d inp c \<Longrightarrow> input_ok E n d c inp"
  using plain_input_ok by (fastforce simp: plain_of_def split: prod.splits)

lemma columns_ok_set:
  assumes "columns_ok E n d rel I ins" and "set_column i c rel = Inr rel'" and "plain_of E n d (ins i) c"
  shows "columns_ok E n d rel' I ins"
  using assms plain_of_input [OF assms(3)]
  by (force simp: columns_ok_def set_column_Inr_iff column_at_Inr_iff nth_list_update)

lemma grows_gather_of:
  assumes "input_ok E n d c inp" and "0 < n" "int n \<le> INT32_MAX"
  shows "grows (ee_rmm E) d (HandleMaterializeExpression (ee_duckdb E) (ee_rmm E) (ee_cub E) c) (\<lambda>k d'. plain_of E n d' inp k)"
proof (cases inp)
  case (fields t vs bs)
  from assms(1) fields have len: "length vs = n" "length bs = n" by (simp_all add: input_ok_def)
  from assms(1) fields have "input_ok E n d c (t, vs, bs)" by simp
  from grows_gather [OF this assms(2,3)] show ?thesis
    by (rule grows_weaken) (simp add: plain_of_def fields len)
qed

lemma gather_projections_plain:
  assumes "columns_ok E n d rel I ins" and "set js \<subseteq> I" and n: "0 < n" "int n \<le> INT32_MAX"
  shows "grows (ee_rmm E) d (gather_projections E js rel)
    (\<lambda>(ps, rel') d'. list_all2 (\<lambda>j p. plain_of E n d' (ins j) p) js ps \<and> columns_ok E n d' rel' I ins)"
  using assms(1,2)
proof (induction js arbitrary: d rel)
  case Nil
  then show ?case by (simp add: grows_return)
next
  case (Cons j js)
  obtain c where c: "column_at rel j = Inr c" "input_ok E n d c (ins j)"
    using Cons.prems by (auto simp: columns_ok_def)
  have "j < length (columns rel)" using c(1) by (simp add: column_at_Inr_iff)
  then have set: "set_column j p rel = Inr (rel\<lparr>columns := (columns rel)[j := Some p]\<rparr>)" for p
    by (simp add: set_column_Inr_iff)
  show ?case unfolding gather_projections.simps
  proof (rule grows_lifted [OF c(1)], rule grows_bind [OF grows_gather_of [OF c(2) n]], rule grows_lifted [OF set])
    fix p d1 assume p: "device_extends (ee_rmm E) d d1" "plain_of E n d1 (ins j) p"
    let ?rel = "rel\<lparr>columns := (columns rel)[j := Some p]\<rparr>"
    have ok: "columns_ok E n d1 ?rel I ins"
      using columns_ok_set [OF columns_ok_mono [OF p(1) Cons.prems(1)] set p(2)] .
    show "grows (ee_rmm E) d1 (act_bind (gather_projections E js ?rel) (\<lambda>(ps, rin''). act_return (p # ps, rin'')))
      (\<lambda>(ps, rel') d'. list_all2 (\<lambda>j p. plain_of E n d' (ins j) p) (j # js) ps \<and> columns_ok E n d' rel' I ins)"
      using p(2) Cons.prems(2) by (intro grows_bind [OF Cons.IH [OF ok]]) (auto intro!: grows_return intro: plain_of_mono)
  qed
qed

lemma gather_order_keys_plain:
  assumes ok: "columns_ok E n d rel I ins" and n: "0 < n" "int n \<le> INT32_MAX"
    and idx: "list_all2 (\<lambda>node i. order_key_index node = Inr i \<and> i \<in> I) nodes js"
  shows "grows (ee_rmm E) d (gather_order_keys E nodes rel) (\<lambda>ks d'. list_all2 (\<lambda>i k. plain_of E n d' (ins i) k) js ks)"
  unfolding gather_order_keys_def
proof (rule grows_mapM)
  show "length nodes = length js" using idx by (rule list_all2_lengthD)
next
  fix j d' assume j: "j < length nodes" and e: "device_extends (ee_rmm E) d d'"
  from list_all2_nthD [OF idx j] have i: "order_key_index (nodes ! j) = Inr (js ! j)" "js ! j \<in> I" by simp_all
  with columns_ok_mono [OF e ok] obtain c where c: "column_at rel (js ! j) = Inr c" "input_ok E n d' c (ins (js ! j))"
    by (auto simp: columns_ok_def)
  show "grows (ee_rmm E) d' (act_bind (act_lift (res_bind (order_key_index (nodes ! j)) (column_at rel)))
      (HandleMaterializeExpression (ee_duckdb E) (ee_rmm E) (ee_cub E))) (\<lambda>k d'. plain_of E n d' (ins (js ! j)) k)"
    using i c n by (intro grows_lifted [where x = c] grows_gather_of) simp_all
qed (rule plain_of_mono)

lemma key_columns_of:
  assumes "list_all2 (\<lambda>inp c. plain_of E n d inp c) inps cs"
  shows "grows (ee_rmm E) d (key_columns E cs) (\<lambda>ks _. map snd ks = map as_cudf inps \<and> length ks = length cs)"
proof -
  have "grows (ee_rmm E) d (key_columns E cs) (\<lambda>ks d'. list_all2 (\<lambda>inp k. snd k = as_cudf inp) inps ks)"
    unfolding key_columns_def
  proof (rule grows_mapM)
    show len: "length cs = length inps" using assms by (simp add: list_all2_lengthD)
    fix i d' assume i: "i < length cs" and e: "device_extends (ee_rmm E) d d'"
    obtain t vs bs where inp: "inps ! i = (t, vs, bs)" by (cases "inps ! i")
    have "plain_of E n d (inps ! i) (cs ! i)" using assms i len by (simp add: list_all2_nthD)
    from plain_of_mono [OF e this] have "plain_column (ee_duckdb E) d' (cs ! i) t n vs bs" "length vs = n" "length bs = n"
      by (simp_all add: plain_of_def inp)
    from grows_key_column [OF this] show "grows (ee_rmm E) d' (key_column E (cs ! i)) (\<lambda>k _. snd k = as_cudf (inps ! i))"
      by (rule grows_weaken) (auto simp: as_cudf_def inp)
  qed
  then show ?thesis
    by (rule grows_weaken)
      (use assms in \<open>auto dest!: list_all2_lengthD simp: list_all2_conv_all_nth intro!: nth_equalityI\<close>)
qed

lemma adoptable_gathered:
  assumes c: "column_is cc t n f" and inp: "input_ok E n d c (t, vs, bs)" and n: "0 < n" "int n \<le> INT32_MAX"
    and nulls: "masks_nulls (ee_cudf E)"
  shows "adoptable E n cc"
proof -
  have rd: "values_of (ee_duckdb E) d c = Some vs" "vs \<noteq> []" "ct_id (dw_type (data_wrapper c)) \<noteq> C_VARCHAR"
    "cudf_type_of_column (ee_duckdb E) (dw_type (data_wrapper c)) = Inr t"
    using inp n by (auto simp: input_ok_def readable_def)
  then obtain w where "getColumnTypeSize (ee_duckdb E) (dw_type (data_wrapper c)) = Inr w"
    using values_of_rows_size by blast
  with rd cudf_size_agrees [OF rd(4)] c n nulls show ?thesis
    unfolding adoptable_def column_is_def masks_nulls_def by metis
qed

text \<open>The result column \<open>c\<close>: its rows are those of \<open>inp\<close> in the order of \<open>perm\<close>.\<close>

definition emits_rows ::
  "('d, 'v) exec_env \<Rightarrow> 'v device \<Rightarrow> 'v column_rows \<Rightarrow> nat list \<Rightarrow> GPUColumn \<Rightarrow> bool" where
  "emits_rows E d inp perm c \<longleftrightarrow> (\<exists>vs bs. plain_column (ee_duckdb E) d c (fst inp) (length perm) vs bs \<and>
     length vs = length perm \<and> length bs = length perm \<and> dw_validity_mask (data_wrapper c) \<noteq> nullptr \<and>
     (\<forall>p < length perm. input_cell (fst inp, vs, bs) p = input_cell inp (perm ! p)))"

lemma emits_rows_mono: "device_extends rmm d d' \<Longrightarrow> emits_rows E d inp perm c \<Longrightarrow> emits_rows E d' inp perm c"
  unfolding emits_rows_def using plain_column_mono by blast

section \<open>Sorting\<close>

definition row_of :: "'v column_rows list \<Rightarrow> nat \<Rightarrow> 'v option list" where
  "row_of inps i = map (\<lambda>inp. input_cell inp i) inps"

text \<open>\<open>perm\<close> lists the rows in the order of the keys.\<close>

definition in_order ::
  "'v cell_order \<Rightarrow> OrderByType list \<Rightarrow> 'v column_rows list \<Rightarrow> nat \<Rightarrow> nat list \<Rightarrow> bool" where
  "in_order lt types keys n perm \<longleftrightarrow> mset perm = mset [0..<n] \<and>
     sorted_wrt (\<lambda>i j. \<not> rows_less (map (\<lambda>t. lt t (cudf_order_of t)) types) (row_of keys j) (row_of keys i)) perm"

lemma in_order_rows: "in_order lt types keys n perm \<Longrightarrow> length perm = n \<and> (\<forall>i \<in> set perm. i < n)"
proof -
  assume "in_order lt types keys n perm"
  then have "mset perm = mset [0..<n]" by (simp add: in_order_def)
  then have "length perm = length [0..<n]" "set perm = set [0..<n]" by (rule mset_eq_length, rule mset_eq_setD)
  then show ?thesis by simp
qed

lemma cells_as_cudf:
  "plain_of E n d inp c \<Longrightarrow> i < n \<Longrightarrow> cells_of (as_cudf inp) ! i = input_cell inp i"
  by (auto simp: plain_of_def cells_of_def as_cudf_def input_cell_def)

lemma as_cudf_type: "cc_type (as_cudf inp) = fst inp"
  by (simp add: as_cudf_def split: prod.splits)

lemma plain_of_length: "plain_of E n d inp c \<Longrightarrow> column_length c \<noteq> 0 \<and> int (unat (column_length c)) \<le> INT32_MAX"
  by (auto simp: plain_of_def plain_column_def split: prod.splits)

lemma as_cudf_lengths:
  "list_all2 (\<lambda>inp c. plain_of E n d inp c) inps cs \<Longrightarrow>
    \<forall>cc \<in> set (map as_cudf inps). length (cc_data cc) = n \<and> length (cc_mask cc) = n"
  by (auto simp: plain_of_def as_cudf_def list_all2_conv_all_nth in_set_conv_nth split: prod.splits)

lemma sorted_order_in_order:
  assumes S: "sorts_in_order lt S" and ks: "list_all2 (\<lambda>inp c. plain_of E n d inp c) keys ks"
    and types: "keys \<noteq> []" "length types = length keys"
  shows "\<exists>perm. sorted_order S (map as_cudf keys) types (map cudf_order_of types) = Inr (map int perm) \<and>
    in_order lt types keys n perm"
proof -
  have row: "sort_row (map as_cudf keys) i = row_of keys i" if "i < n" for i
  proof -
    have "\<exists>c. plain_of E n d inp c" if "inp \<in> set keys" for inp
      using ks that by (metis in_set_conv_nth list_all2_conv_all_nth)
    then show ?thesis using cells_as_cudf [OF _ that, of E d] unfolding sort_row_def row_of_def map_map comp_def
      by (intro map_cong refl) blast
  qed
  have "length types = length (map as_cudf keys)" "length (map cudf_order_of types) = length (map as_cudf keys)"
    "map as_cudf keys \<noteq> []" using types by simp_all
  with S as_cudf_lengths [OF ks] obtain perm where
    perm: "sorted_order S (map as_cudf keys) types (map cudf_order_of types) = Inr (map int perm)"
      "mset perm = mset [0..<n]"
    and order: "sorted_wrt (\<lambda>i j. \<not> rows_less (map2 lt types (map cudf_order_of types))
      (sort_row (map as_cudf keys) j) (sort_row (map as_cudf keys) i)) perm"
    unfolding sorts_in_order_def by blast
  have lts: "map2 lt types (map cudf_order_of types) = map (\<lambda>t. lt t (cudf_order_of t)) types"
    by (simp add: map2_map_map [of lt "\<lambda>t. t" types cudf_order_of, simplified])
  have "set perm = {0..<n}" using perm(2) by (metis mset_eq_setD set_upt)
  then have "sorted_wrt (\<lambda>i j. \<not> rows_less (map (\<lambda>t. lt t (cudf_order_of t)) types) (row_of keys j) (row_of keys i)) perm"
    using order unfolding lts by (rule_tac sorted_wrt_mono_rel) (auto simp: row)
  with perm show ?thesis by (auto simp: in_order_def)
qed

lemma gathered_rows:
  assumes S: "gathers_rows S" and ps: "list_all2 (\<lambda>inp c. plain_of E n d inp c) inps ps"
    and perm: "length perm = n" "\<forall>i \<in> set perm. i < n"
  shows "\<exists>cs. cudf_gather S (map as_cudf inps) (map int perm) = Inr cs \<and>
    list_all2 (\<lambda>inp cc. column_is cc (fst inp) n (\<lambda>p. cells_of (as_cudf inp) ! (perm ! p))) inps cs"
proof -
  from S as_cudf_lengths [OF ps] perm(2) obtain cs where cs: "cudf_gather S (map as_cudf inps) (map int perm) = Inr cs"
    "list_all2 (\<lambda>c c'. column_is c' (cc_type c) (length perm) (\<lambda>p. cells_of c ! (perm ! p))) (map as_cudf inps) cs"
    unfolding gathers_rows_def by blast
  with perm(1) show ?thesis by (simp add: list_all2_map1 as_cudf_type)
qed

lemma emits_gathered:
  assumes D: "duckdb_env_ok (ee_duckdb E)" and nulls: "masks_nulls (ee_cudf E)"
    and c: "plain_of E n d0 inp c" and perm: "length perm = n" "\<forall>i \<in> set perm. i < n"
    and cc: "column_is cc (fst inp) n (\<lambda>p. cells_of (as_cudf inp) ! (perm ! p))"
  shows "grows (ee_rmm E) d (setFromCudfColumn E cc u k) (\<lambda>k' d'. emits_rows E d' inp perm k')"
proof -
  obtain t vs bs where inp: "inp = (t, vs, bs)" by (cases inp)
  have n: "0 < n" "int n \<le> INT32_MAX" using c by (auto simp: plain_of_def inp plain_column_def)
  have "adoptable E n cc"
    using adoptable_gathered [OF _ _ n nulls] cc plain_of_input [OF c] by (fastforce simp: inp)
  from grows_setFromCudfColumn [OF D this] show ?thesis
  proof (rule grows_weaken)
    fix k' d' assume k': "plain_column (ee_duckdb E) d' k' (cc_type cc) n (cc_data cc) (cc_mask cc) \<and>
      dw_validity_mask (data_wrapper k') \<noteq> nullptr"
    have len: "length (cc_data cc) = n" "length (cc_mask cc) = n" "cc_type cc = fst inp"
      using cc by (simp_all add: column_is_nth)
    have "input_cell (fst inp, cc_data cc, cc_mask cc) p = input_cell inp (perm ! p)" if "p < n" for p
    proof -
      have "perm ! p < n" using perm that by simp
      from cells_as_cudf [OF c this] cc that show ?thesis by (simp add: column_is_nth input_cell_def)
    qed
    with k' len perm(1) show "emits_rows E d' inp perm k'" by (auto simp: emits_rows_def)
  qed
qed

lemma set_all_rows:
  assumes D: "duckdb_env_ok (ee_duckdb E)" and nulls: "masks_nulls (ee_cudf E)"
    and ps: "list_all2 (\<lambda>inp c. plain_of E n d inp c) inps ps" and rows: "length perm = n" "\<forall>i \<in> set perm. i < n"
    and cs: "list_all2 (\<lambda>inp cc. column_is cc (fst inp) n (\<lambda>p. cells_of (as_cudf inp) ! (perm ! p))) inps cs"
    and ks: "length ks = length ps"
  shows "grows (ee_rmm E) d' (set_all E (zip ks cs)) (\<lambda>ks d'. list_all2 (\<lambda>inp c. emits_rows E d' inp perm c) inps ks)"
  unfolding set_all_def
proof (rule grows_mapM)
  show len: "length (zip ks cs) = length inps" using ks list_all2_lengthD [OF cs] list_all2_lengthD [OF ps] by simp
  fix i d1 assume i: "i < length (zip ks cs)"
  with len have "plain_of E n d (inps ! i) (ps ! i)"
    and "column_is (cs ! i) (fst (inps ! i)) n (\<lambda>p. cells_of (as_cudf (inps ! i)) ! (perm ! p))"
    using list_all2_nthD [OF ps, of i] list_all2_nthD [OF cs, of i] by simp_all
  from emits_gathered [OF D nulls this(1) rows this(2)] i
  show "grows (ee_rmm E) d1 (case zip ks cs ! i of (c, cc) \<Rightarrow> setFromCudfColumn E cc (is_unique c) c)
    (\<lambda>c d'. emits_rows E d' (inps ! i) perm c)" by simp
qed (rule emits_rows_mono)

lemma cudf_orderby_rows:
  assumes D: "duckdb_env_ok (ee_duckdb E)" and S: "sorting_documented (ee_cudf E) before lt S"
    and ks: "list_all2 (\<lambda>inp c. plain_of E n d inp c) keys ks" and types: "keys \<noteq> []" "length types = length keys"
    and ps: "list_all2 (\<lambda>inp c. plain_of E n d inp c) inps ps" and own: "\<not> use_custom_top_n ks ps num"
  shows "grows (ee_rmm E) d (cudf_orderby E S C ks ps types num)
    (\<lambda>cs d'. \<exists>perm. in_order lt types keys n perm \<and> list_all2 (\<lambda>inp c. emits_rows E d' inp perm c) inps cs)"
proof -
  let ?Q = "\<lambda>cs d'. \<exists>perm. in_order lt types keys n perm \<and> list_all2 (\<lambda>inp c. emits_rows E d' inp perm c) inps cs"
  have S': "sorts_in_order lt S" "gathers_rows S" "masks_nulls (ee_cudf E)"
    using S by (simp_all add: sorting_documented_def)
  obtain k0 ks' where k0: "ks = k0 # ks'" "column_length k0 \<noteq> 0"
    using ks types(1) plain_of_length by (metis list_all2_Cons1 neq_Nil_conv)
  obtain perm where perm: "sorted_order S (map as_cudf keys) types (map cudf_order_of types) = Inr (map int perm)"
    "in_order lt types keys n perm"
    using sorted_order_in_order [OF S'(1) ks types] by blast
  have rows: "length perm = n" "\<forall>i \<in> set perm. i < n" using in_order_rows [OF perm(2)] by simp_all
  obtain cs where cs: "cudf_gather S (map as_cudf inps) (map int perm) = Inr cs"
    "list_all2 (\<lambda>inp cc. column_is cc (fst inp) n (\<lambda>p. cells_of (as_cudf inp) ! (perm ! p))) inps cs"
    using gathered_rows [OF S'(2) ps rows] by blast
  have out: "grows (ee_rmm E) d' (set_all E (zip (map fst pc) cs)) ?Q" if "length pc = length ps"
    for d' and pc :: "(GPUColumn \<times> 'b cudf_column) list"
    using perm(2) by (intro grows_weaken [OF set_all_rows [OF D S'(3) ps rows cs(2)]]) (auto simp: that)
  have "grows (ee_rmm E) d (act_bind (key_columns E ks) (\<lambda>kc.
      act_bind (act_lift (sorted_order S (map snd kc) types (map cudf_order_of types))) (\<lambda>sorted.
      act_bind (key_columns E ps) (\<lambda>pc. act_bind (act_lift (cudf_gather S (map snd pc) sorted)) (\<lambda>gathered.
        set_all E (zip (map fst pc) gathered)))))) ?Q"
  proof (rule grows_bind [OF key_columns_of [OF ks]], elim conjE)
    fix kc d1 assume e1: "device_extends (ee_rmm E) d d1" and "map snd kc = map as_cudf keys"
    then have sorted: "sorted_order S (map snd kc) types (map cudf_order_of types) = Inr (map int perm)" using perm(1) by simp
    have ps1: "list_all2 (\<lambda>inp c. plain_of E n d1 inp c) inps ps" using ps by (rule list_all2_mono) (rule plain_of_mono [OF e1])
    show "grows (ee_rmm E) d1 (act_bind (act_lift (sorted_order S (map snd kc) types (map cudf_order_of types))) (\<lambda>sorted.
      act_bind (key_columns E ps) (\<lambda>pc. act_bind (act_lift (cudf_gather S (map snd pc) sorted)) (\<lambda>gathered.
        set_all E (zip (map fst pc) gathered))))) ?Q"
      by (rule grows_lifted [OF sorted], rule grows_bind [OF key_columns_of [OF ps1]], elim conjE,
          rule grows_lifted [where x = cs]) (simp_all add: cs(1) out)
  qed
  then show ?thesis
    using k0 own by (simp add: cudf_orderby_def) (simp add: grows_def act_bind_def act_basic)
qed

section \<open>The operators\<close>

lemma plain_column_unmarked:
  assumes "plain_column D d c t n vs bs"
  shows "plain_column D d (c\<lparr>row_ids := nullptr, row_id_count := Some 0\<rparr>) t n vs bs"
proof -
  have "column_row_list d (c\<lparr>row_ids := nullptr, row_id_count := Some 0\<rparr>) = column_row_list d c"
    using assms by (simp add: plain_column_def column_row_list_def)
  then have "values_of D d (c\<lparr>row_ids := nullptr, row_id_count := Some 0\<rparr>) = values_of D d c"
    "validity_of d (c\<lparr>row_ids := nullptr, row_id_count := Some 0\<rparr>) = validity_of d c"
    by (simp_all add: values_of_def validity_of_def split: option.split list.split darray.split)
  with assms show ?thesis by (simp add: plain_column_def)
qed

lemma emits_rows_unmarked:
  "emits_rows E d inp perm c \<Longrightarrow> emits_rows E d inp perm (c\<lparr>row_ids := nullptr, row_id_count := Some 0\<rparr>)"
  unfolding emits_rows_def by (elim exE conjE, intro exI conjI, erule plain_column_unmarked) simp_all

lemma keep_all_new:
  assumes "list_all2 (\<lambda>inp c. emits_rows E d inp perm c) inps cs"
  shows "\<exists>cs'. keep_all_sorted msg (GPUIntermediateRelation_new (length inps)) cs =
      Inr ((GPUIntermediateRelation_new (length inps))\<lparr>columns := map Some cs'\<rparr>) \<and>
    list_all2 (\<lambda>inp c. emits_rows E d inp perm c) inps cs'"
proof -
  let ?f = "\<lambda>c. c\<lparr>row_ids := nullptr, row_id_count := Some 0\<rparr>"
  have len: "length cs = length inps" using assms by (simp add: list_all2_lengthD)
  have "res_mapM (\<lambda>(old, c). keep_sorted msg old c) (zip (replicate (length cs) None) cs) = Inr (map (\<lambda>c. Some (?f c)) cs)" for cs
    by (induction cs) (simp_all add: keep_sorted_def)
  then have "keep_all_sorted msg (GPUIntermediateRelation_new (length inps)) cs =
      Inr ((GPUIntermediateRelation_new (length inps))\<lparr>columns := map Some (map ?f cs)\<rparr>)"
    by (simp add: keep_all_sorted_def GPUIntermediateRelation_new_def comp_def flip: len)
  moreover have "list_all2 (\<lambda>inp c. emits_rows E d inp perm c) inps (map ?f cs)"
    using assms emits_rows_unmarked by (fastforce simp: list_all2_map2 elim: list_all2_mono)
  ultimately show ?thesis by blast
qed

text \<open>Keys of fixed-width types take the way through cuDF.\<close>

lemma plain_not_varchar: "plain_of E n d inp c \<Longrightarrow> \<not> is_varchar c"
  by (auto simp: plain_of_def plain_column_def is_varchar_def split: prod.splits)

lemma plain_keys:
  assumes "list_all2 (\<lambda>i k. plain_of E n d (ins i) k) js ks" and "js \<noteq> []"
  shows "vec_at ks 0 = Inr (ks ! 0)" and "\<not> too_long (ks ! 0)" and "\<not> use_custom_top_n ks ps num"
proof -
  obtain k0 ks' j where ks: "ks = k0 # ks'" "plain_of E n d (ins j) k0"
    using assms by (cases js) (auto simp: list_all2_Cons1)
  then show "vec_at ks 0 = Inr (ks ! 0)" by simp
  from plain_of_length [OF ks(2)] show "\<not> too_long (ks ! 0)" by (simp add: ks too_long_def)
  from plain_not_varchar [OF ks(2)] show "\<not> use_custom_top_n ks ps num" by (auto simp: ks use_custom_top_n_def)
qed

lemma list_all2_ins: "list_all2 (\<lambda>i k. P (ins i) k) js ks = list_all2 P (map ins js) ks"
  by (simp add: list_all2_map1)

text \<open>An order by columns of the input; \<open>js\<close> are their indices.\<close>

definition orders_columns :: "'d BoundOrderByNode list \<Rightarrow> nat list \<Rightarrow> bool" where
  "orders_columns nodes js \<longleftrightarrow> nodes \<noteq> [] \<and> list_all2 (\<lambda>node j. \<exists>t. order_expr node = BoundReference t j) nodes js"

text \<open>Both sinks: the gathered projections, sorted by the gathered keys, become the empty result's columns.\<close>

lemma sink_sorts:
  assumes D: "duckdb_env_ok (ee_duckdb E)" and S: "sorting_documented (ee_cudf E) before lt S"
    and n: "0 < n" "int n \<le> INT32_MAX" and cols: "columns_ok E n d rin (set js \<union> set ps) ins"
    and nodes: "orders_columns nodes js"
    and k: "\<And>ks qs cs cs' perm d' rin'. device_extends (ee_rmm E) d d' \<Longrightarrow> in_order lt (order_by_types nodes) (map ins js) n perm \<Longrightarrow>
      list_all2 (\<lambda>inp c. emits_rows E d' inp perm c) (map ins ps) cs' \<Longrightarrow>
      keep_all_sorted msg (GPUIntermediateRelation_new (length ps)) cs =
        Inr ((GPUIntermediateRelation_new (length ps))\<lparr>columns := map Some cs'\<rparr>) \<Longrightarrow>
      grows (ee_rmm E) d' (k rin' ks qs cs) Q"
  shows "grows (ee_rmm E) d
    (act_bind (gather_projections E ps rin) (\<lambda>(qs, rin').
     act_bind (gather_order_keys E nodes rin') (\<lambda>ks.
     act_bind (act_lift (vec_at ks 0)) (\<lambda>k0.
       if too_long k0 then act_throw long_order
       else act_bind (act_bind (dev_host_alloc 4 (of_nat (length nodes))) (\<lambda>_.
         cudf_orderby E S C ks qs (order_by_types nodes) num)) (k rin' ks qs))))) Q"
proof (rule grows_bind [OF gather_projections_plain [OF cols _ n]], simp, clarify)
  fix qs rin' d1 assume e1: "device_extends (ee_rmm E) d d1"
    and qs: "list_all2 (\<lambda>j p. plain_of E n d1 (ins j) p) ps qs" and cols1: "columns_ok E n d1 rin' (set js \<union> set ps) ins"
  have idx: "list_all2 (\<lambda>node i. order_key_index node = Inr i \<and> i \<in> set js \<union> set ps) nodes js"
    using nodes unfolding orders_columns_def by (auto simp: list_all2_conv_all_nth order_key_index_def)
  show "grows (ee_rmm E) d1 (act_bind (gather_order_keys E nodes rin') (\<lambda>ks.
     act_bind (act_lift (vec_at ks 0)) (\<lambda>k0.
       if too_long k0 then act_throw long_order
       else act_bind (act_bind (dev_host_alloc 4 (of_nat (length nodes))) (\<lambda>_.
         cudf_orderby E S C ks qs (order_by_types nodes) num)) (k rin' ks qs)))) Q"
  proof (rule grows_bind [OF gather_order_keys_plain [OF cols1 n idx]])
    fix ks d2 assume e2: "device_extends (ee_rmm E) d1 d2" and ks: "list_all2 (\<lambda>i k. plain_of E n d2 (ins i) k) js ks"
    have js: "js \<noteq> []" "length (order_by_types nodes) = length (map ins js)"
      using nodes by (auto simp: orders_columns_def order_by_types_def dest: list_all2_lengthD)
    have e02: "device_extends (ee_rmm E) d d2" using e1 e2 by (rule device_extends_trans)
    note own = plain_keys [OF ks js(1)]
    show "grows (ee_rmm E) d2 (act_bind (act_lift (vec_at ks 0)) (\<lambda>k0.
       if too_long k0 then act_throw long_order
       else act_bind (act_bind (dev_host_alloc 4 (of_nat (length nodes))) (\<lambda>_.
         cudf_orderby E S C ks qs (order_by_types nodes) num)) (k rin' ks qs))) Q"
    proof (rule grows_lifted [OF own(1)], simp only: own(2) if_False, rule grows_bind, rule grows_bind [OF grows_host_alloc])
      fix u d3 assume e3: "device_extends (ee_rmm E) d2 d3"
      have ks3: "list_all2 (\<lambda>inp k. plain_of E n d3 inp k) (map ins js) ks"
        using ks unfolding list_all2_map1 by (rule list_all2_mono) (rule plain_of_mono [OF e3])
      have qs3: "list_all2 (\<lambda>inp k. plain_of E n d3 inp k) (map ins ps) qs"
        using qs unfolding list_all2_map1 by (rule list_all2_mono) (rule plain_of_mono [OF device_extends_trans [OF e2 e3]])
      show "grows (ee_rmm E) d3 (cudf_orderby E S C ks qs (order_by_types nodes) num)
        (\<lambda>cs d'. \<exists>perm. in_order lt (order_by_types nodes) (map ins js) n perm \<and>
           list_all2 (\<lambda>inp c. emits_rows E d' inp perm c) (map ins ps) cs)"
        using js by (intro cudf_orderby_rows [OF D S ks3 _ _ qs3 own(3)]) simp_all
    next
      fix cs d4 assume e4: "device_extends (ee_rmm E) d2 d4" and "\<exists>perm. in_order lt (order_by_types nodes) (map ins js) n perm \<and>
        list_all2 (\<lambda>inp c. emits_rows E d4 inp perm c) (map ins ps) cs"
      then obtain perm where perm: "in_order lt (order_by_types nodes) (map ins js) n perm"
        "list_all2 (\<lambda>inp c. emits_rows E d4 inp perm c) (map ins ps) cs" by blast
      from keep_all_new [OF perm(2), of msg] k [OF device_extends_trans [OF e02 e4] perm(1)]
      show "grows (ee_rmm E) d4 (k rin' ks qs cs) Q" by auto
    qed
  qed
qed

text \<open>The direction that a node asks for; a node without an explicit one is sorted descending.\<close>

fun asked_order :: "OrderType \<Rightarrow> OrderByType" where
  "asked_order ORDER_ASCENDING = ASCENDING"
| "asked_order ORDER_DESCENDING = DESCENDING"
| "asked_order ORDER_DEFAULT = DESCENDING"
| "asked_order ORDER_INVALID = DESCENDING"

definition asked_orders :: "'d BoundOrderByNode list \<Rightarrow> OrderByType list" where
  "asked_orders nodes = map (\<lambda>node. asked_order (order_type node)) nodes"

lemma asked_order_cases: "asked_order t = (if t = ORDER_ASCENDING then ASCENDING else DESCENDING)"
  by (cases t) simp_all

lemma order_by_types_asked: "order_by_types nodes = asked_orders nodes"
  unfolding order_by_types_def asked_orders_def asked_order_cases ..

text \<open>C15: over columns of fixed width, \<open>ORDER BY\<close> emits the projected columns of its input, row by row, in
  the lexicographic order of its keys, each ascending or descending as its node asks: every row once, values
  and nulls unchanged.\<close>

theorem order_by_emits_sorted_rows:
  assumes D: "duckdb_env_ok (ee_duckdb E)" and S: "sorting_documented (ee_cudf E) before lt S"
    and wf: "dev_wf (ee_rmm E) d" and n: "0 < n" "int n \<le> INT32_MAX"
    and cols: "columns_ok E n d rin (set js \<union> set ps) ins" and nodes: "orders_columns nodes js"
    and rout: "length (columns rout) = length ps"
    and run: "act_bind (GPUPhysicalOrder_Sink E S C (GPUPhysicalOrder_new nodes ps) rin)
      (\<lambda>(op, _). act_lift (GPUPhysicalOrder_GetData op rout)) d = (r, d')"
  shows "(\<exists>e. r = Inl e \<and> out_of_memory e) \<or>
    (\<exists>rout' cs perm. r = Inr rout' \<and> columns rout' = map Some cs \<and>
       in_order lt (asked_orders nodes) (map ins js) n perm \<and>
       list_all2 (\<lambda>i c. emits_rows E d' (ins i) perm c) ps cs)"
proof -
  let ?Q = "\<lambda>rout' d'. \<exists>cs perm. columns rout' = map Some cs \<and>
    in_order lt (order_by_types nodes) (map ins js) n perm \<and> list_all2 (\<lambda>i c. emits_rows E d' (ins i) perm c) ps cs"
  have data: "GPUPhysicalOrder_GetData \<lparr>orders = nodes, projections = ps, sort_result = rel\<lparr>columns := map Some cs\<rparr>\<rparr> rout =
      Inr (rout\<lparr>columns := map Some cs\<rparr>)" if "list_all2 P ps cs" for rel cs P
    using list_all2_lengthD [OF that] rout by (simp add: GPUPhysicalOrder_GetData_def)
  have "grows (ee_rmm E) d (GPUPhysicalOrder_Sink E S C (GPUPhysicalOrder_new nodes ps) rin)
    (\<lambda>(op, _) d'. \<exists>rout'. GPUPhysicalOrder_GetData op rout = Inr rout' \<and> ?Q rout' d')"
    unfolding GPUPhysicalOrder_Sink_def HandleOrderBy_def GPUPhysicalOrder_new_def gpu_order.simps
    by (rule sink_sorts [OF D S n cols nodes])
      (auto intro!: grows_lifted grows_return simp: data list_all2_map1)
  then have "grows (ee_rmm E) d (act_bind (GPUPhysicalOrder_Sink E S C (GPUPhysicalOrder_new nodes ps) rin)
      (\<lambda>(op, _). act_lift (GPUPhysicalOrder_GetData op rout))) ?Q"
    by (rule grows_bind) (auto intro: grows_lift)
  from grows_elim [OF this wf run] show ?thesis unfolding order_by_types_asked by blast
qed

section \<open>The top rows\<close>

text \<open>An output column whose rows are \<open>rows\<close> of \<open>inp\<close>: its data pointer is \<open>k\<close> elements into an array,
  and its mask has a bit for each row.\<close>

definition emits_slice :: "('d, 'v) exec_env \<Rightarrow> 'v device \<Rightarrow> 'v column_rows \<Rightarrow> nat list \<Rightarrow> GPUColumn \<Rightarrow> bool" where
  "emits_slice E d inp rows c \<longleftrightarrow> row_ids c = nullptr \<and> unat (column_length c) = length rows \<and>
     (rows \<noteq> [] \<longrightarrow> (\<exists>p w xs k ms. cells d p = Some (Vals w xs) \<and>
        getColumnTypeSize (ee_duckdb E) (dw_type (data_wrapper c)) = Inr w \<and>
        dw_data (data_wrapper c) = p + of_nat k * w \<and> k + length rows \<le> length xs \<and>
        cells d (dw_validity_mask (data_wrapper c)) = Some (Bits ms) \<and> length rows \<le> length ms \<and>
        (\<forall>j < length rows. (if ms ! j then Some (xs ! (k + j)) else None) = input_cell inp (rows ! j))))"

lemma emits_slice_mono: "device_extends rmm d d' \<Longrightarrow> emits_slice E d inp rows c \<Longrightarrow> emits_slice E d' inp rows c"
  unfolding emits_slice_def device_extends_def map_le_def by (metis domI)

definition copies_bits :: "'v cudf_sorting \<Rightarrow> bool" where
  "copies_bits S \<longleftrightarrow> (\<forall>bits b e. unat b \<le> unat e \<and> unat e \<le> length bits \<longrightarrow>
     copy_bitmask S bits b e = Inr (take (unat (e - b)) (drop (unat b) bits)))"

lemma emits_rows_arrays:
  assumes "emits_rows E d inp perm c"
  obtains w xs ms where "cells d (dw_data (data_wrapper c)) = Some (Vals w xs)"
    and "getColumnTypeSize (ee_duckdb E) (dw_type (data_wrapper c)) = Inr w"
    and "cells d (dw_validity_mask (data_wrapper c)) = Some (Bits ms)"
    and "length perm \<le> length xs" "length perm \<le> length ms"
    and "\<forall>p < length perm. (if ms ! p then Some (xs ! p) else None) = input_cell inp (perm ! p)"
proof -
  obtain vs bs where vs: "plain_column (ee_duckdb E) d c (fst inp) (length perm) vs bs" "length vs = length perm"
    "dw_validity_mask (data_wrapper c) \<noteq> nullptr"
    "\<forall>p < length perm. input_cell (fst inp, vs, bs) p = input_cell inp (perm ! p)"
    using assms by (auto simp: emits_rows_def)
  have "values_of (ee_duckdb E) d c = Some vs" "vs \<noteq> []" using vs by (auto simp: plain_column_def)
  then obtain w where w: "getColumnTypeSize (ee_duckdb E) (dw_type (data_wrapper c)) = Inr w" using values_of_rows_size by blast
  have "cudf_size_of (cudf_id (fst inp)) = w"
    using cudf_size_agrees [OF _ w] vs(1) by (auto simp: plain_column_def)
  with plain_column_cells [OF vs(1,3)] w vs(4) that show thesis by (fastforce simp: input_cell_def)
qed

lemma emits_rows_column:
  "emits_rows E d inp perm c \<Longrightarrow> unat (column_length c) = length perm \<and> int (length perm) \<le> INT32_MAX \<and> \<not> is_varchar c \<and>
     dw_validity_mask (data_wrapper c) \<noteq> nullptr"
  by (auto simp: emits_rows_def plain_column_def is_varchar_def)

text \<open>The number of rows that are left after the offset.\<close>

lemma rows_left:
  fixes lim off len :: u64
  assumes "off < len" and "lim \<noteq> 0" and len: "unat len = l" "int l \<le> INT32_MAX"
  defines "n \<equiv> min lim (len - off)"
  shows "unat n = min (unat lim) (l - unat off)" and "0 < unat n" and "unat off + unat n \<le> l"
    and "unat (off + n) = unat off + unat n"
proof -
  have off: "unat off < l" using assms(1) len(1) by (simp add: word_less_nat_alt)
  have sub: "unat (len - off) = l - unat off" using off len(1) by (simp add: unat_sub_no_wrap)
  show n: "unat n = min (unat lim) (l - unat off)"
    unfolding n_def using sub by (simp add: min_def word_le_nat_alt)
  have "unat lim \<noteq> 0" using assms(2) by (simp add: unat_eq_0)
  with n off show "0 < unat n" by simp
  from n off show le: "unat off + unat n \<le> l" by simp
  have "l < 2 ^ 64" using len(2) by (simp add: INT32_MAX_def)
  with le show "unat (off + n) = unat off + unat n" by (intro unat_add_no_wrap) simp
qed

lemma top_n_mask_slice:
  assumes S: "copies_bits S" and ms: "cells d m = Some (Bits ms)" "m \<noteq> nullptr"
    and n: "0 < unat n" "int (unat n) \<le> INT32_MAX" "unat (off + n) = unat off + unat n" "unat off + unat n \<le> length ms"
  shows "grows (ee_rmm E) d (top_n_mask E S off n m)
    (\<lambda>q d'. \<exists>ms'. cells d' q = Some (Bits ms') \<and> unat n \<le> length ms' \<and> (\<forall>j < unat n. ms' ! j = ms ! (unat off + j)))"
proof (cases "off = 0")
  case True
  with ms n show ?thesis by (auto simp: top_n_mask_def intro!: grows_return)
next
  case False
  then have "0 < off" by (simp add: word_neq_0_conv)
  let ?ms = "take (unat n) (drop (unat off) ms)"
  have copy: "copy_bitmask S ms off (off + n) = Inr ?ms"
    using S n(3,4) unfolding copies_bits_def by (metis add_diff_cancel_left' le_add1)
  have bits: "dev_bits m d = (Inr ms, d)" using ms by (simp add: dev_bits_def act_basic act_bind_def)
  have "grows (ee_rmm E) d (dev_adopt (ee_rmm E) (getMaskBytesSize n) (Bits ?ms)) (\<lambda>q d'. cells d' q = Some (Bits ?ms))"
    by (rule grows_adopt) (rule mask_bytes_nonzero [OF n(1,2)])
  moreover have "top_n_mask E S off n m d = dev_adopt (ee_rmm E) (getMaskBytesSize n) (Bits ?ms) d"
    using \<open>0 < off\<close> ms(2) bits copy by (simp add: top_n_mask_def act_bind_def act_basic)
  ultimately have "grows (ee_rmm E) d (top_n_mask E S off n m) (\<lambda>q d'. cells d' q = Some (Bits ?ms))"
    by (simp add: grows_def)
  then show ?thesis by (rule grows_weaken) (use n(4) in auto)
qed

lemma top_n_column_slice:
  assumes c: "emits_rows E d inp perm c" and S: "copies_bits S" and lim: "lim \<noteq> 0"
  shows "grows (ee_rmm E) d (top_n_column E S lim off c)
    (\<lambda>k d'. emits_slice E d' inp (take (unat lim) (drop (unat off) perm)) k)"
proof -
  from c obtain w xs ms where arr: "cells d (dw_data (data_wrapper c)) = Some (Vals w xs)"
    "getColumnTypeSize (ee_duckdb E) (dw_type (data_wrapper c)) = Inr w"
    "cells d (dw_validity_mask (data_wrapper c)) = Some (Bits ms)" "length perm \<le> length xs" "length perm \<le> length ms"
    "\<forall>p < length perm. (if ms ! p then Some (xs ! p) else None) = input_cell inp (perm ! p)"
    by (rule emits_rows_arrays)
  note col = emits_rows_column [OF c]
  have make: "\<exists>k. GPUColumn_string (ee_duckdb E) n (dw_type (data_wrapper c)) p os nb str m = Inr k \<and> row_ids k = nullptr \<and>
      column_length k = n \<and> dw_type (data_wrapper k) = dw_type (data_wrapper c) \<and> dw_data (data_wrapper k) = p \<and>
      dw_validity_mask (data_wrapper k) = m" for n p os nb str m
    using arr(2) by (simp add: column_defs Let_def)
  show ?thesis
  proof (cases "off \<ge> column_length c")
    case True
    then have "drop (unat off) perm = []" using col by (simp add: word_le_nat_alt)
    with True make [of 0 nullptr nullptr 0 "dw_is_string_data (data_wrapper c)" nullptr] show ?thesis
      by (auto simp: top_n_column_def Let_def emits_slice_def intro!: grows_lift)
  next
    case False
    define n where "n = min lim (column_length c - off)"
    have rows: "unat n = min (unat lim) (length perm - unat off)" "0 < unat n" "unat off + unat n \<le> length perm"
      "unat (off + n) = unat off + unat n"
      using False lim col rows_left [of off "column_length c" lim "length perm"] by (simp_all add: n_def)
    have small: "int (unat n) \<le> INT32_MAX" using rows(3) col by linarith
    have len: "length (take (unat lim) (drop (unat off) perm)) = unat n" using rows(1) by simp
    let ?p = "dw_data (data_wrapper c) + off * w"
    have data: "top_n_data (ee_duckdb E) off n c d = (Inr (?p, dw_offset (data_wrapper c), n * w), d)" for d :: "'b device"
      using arr(2) col by (simp add: top_n_data_def Let_def act_bind_def act_basic)
    have "grows (ee_rmm E) d (act_bind (top_n_mask E S off n (dw_validity_mask (data_wrapper c))) (\<lambda>m.
        act_lift (GPUColumn_string (ee_duckdb E) n (dw_type (data_wrapper c)) ?p (dw_offset (data_wrapper c)) (n * w)
          (dw_is_string_data (data_wrapper c)) m)))
      (\<lambda>k d'. emits_slice E d' inp (take (unat lim) (drop (unat off) perm)) k)"
    proof (rule grows_bind [OF top_n_mask_slice [OF S arr(3) _ rows(2) small rows(4)]])
      fix m d' assume e: "device_extends (ee_rmm E) d d'" and "\<exists>ms'. cells d' m = Some (Bits ms') \<and> unat n \<le> length ms' \<and>
        (\<forall>j < unat n. ms' ! j = ms ! (unat off + j))"
      then obtain ms' where ms': "cells d' m = Some (Bits ms')" "unat n \<le> length ms'"
        "\<forall>j < unat n. ms' ! j = ms ! (unat off + j)" by blast
      have xs: "cells d' (dw_data (data_wrapper c)) = Some (Vals w xs)"
        using e arr(1) by (auto simp: device_extends_def map_le_def dom_def)
      have cell: "(if ms' ! j then Some (xs ! (unat off + j)) else None) = input_cell inp (take (unat lim) (drop (unat off) perm) ! j)"
        if "j < unat n" for j
      proof -
        have "unat off + j < length perm" using that rows(3) by simp
        with arr(6) have "(if ms ! (unat off + j) then Some (xs ! (unat off + j)) else None) = input_cell inp (perm ! (unat off + j))"
          by blast
        moreover have "j < unat lim" "unat off \<le> length perm" using that rows(1,3) by simp_all
        ultimately show ?thesis using ms'(3) that by simp
      qed
      obtain k where k: "GPUColumn_string (ee_duckdb E) n (dw_type (data_wrapper c)) ?p (dw_offset (data_wrapper c)) (n * w)
          (dw_is_string_data (data_wrapper c)) m = Inr k" "row_ids k = nullptr" "column_length k = n"
        "dw_type (data_wrapper k) = dw_type (data_wrapper c)" "dw_data (data_wrapper k) = ?p" "dw_validity_mask (data_wrapper k) = m"
        using make by blast
      have "emits_slice E d' inp (take (unat lim) (drop (unat off) perm)) k"
        unfolding emits_slice_def len
        using k xs ms' arr(2,4) rows cell
        by (intro conjI impI exI [of _ "dw_data (data_wrapper c)"] exI [of _ w] exI [of _ xs] exI [of _ "unat off"] exI [of _ ms'])
          (simp_all add: len)
      with k(1) show "grows (ee_rmm E) d' (act_lift (GPUColumn_string (ee_duckdb E) n (dw_type (data_wrapper c)) ?p
          (dw_offset (data_wrapper c)) (n * w) (dw_is_string_data (data_wrapper c)) m))
        (\<lambda>k d'. emits_slice E d' inp (take (unat lim) (drop (unat off) perm)) k)" by (rule grows_lift)
    qed (use col arr(5) rows(3) in simp_all)
    then show ?thesis using False data
      by (simp add: top_n_column_def Let_def n_def [symmetric] grows_def act_bind_def)
  qed
qed

text \<open>C16: over columns of fixed width a top-n emits the rows that \<open>ORDER BY\<close> would put at \<open>offset\<close>, ..., \<open>offset + limit - 1\<close>: each output
  column has \<open>limit\<close> rows, or those that are left, and its pointers are moved to the first of them.  (For a
  first key of strings the code runs the custom string sort of \<open>sort_top_records\<close> instead, which this
  property does not cover: \<open>columns_ok\<close> excludes strings.)\<close>

theorem top_n_emits_the_top_rows:
  assumes D: "duckdb_env_ok (ee_duckdb E)" and S: "sorting_documented (ee_cudf E) before lt S" "copies_bits S"
    and wf: "dev_wf (ee_rmm E) d" and n: "0 < n" "int n \<le> INT32_MAX"
    and cols: "columns_ok E n d rin (set js \<union> {..<m}) ins" and nodes: "orders_columns nodes js"
    and rout: "length (columns rout) = m" and lim: "lim \<noteq> 0"
    and run: "act_bind (GPUPhysicalTopN_Sink E S C (GPUPhysicalTopN_new m nodes lim off) rin)
      (\<lambda>(op, _). GPUPhysicalTopN_GetData E S op rout) d = (r, d')"
  shows "(\<exists>e. r = Inl e \<and> out_of_memory e) \<or>
    (\<exists>rout' cs perm. r = Inr rout' \<and> columns rout' = map Some cs \<and>
       in_order lt (asked_orders nodes) (map ins js) n perm \<and>
       list_all2 (\<lambda>i c. emits_slice E d' (ins i) (take (unat lim) (drop (unat off) perm)) c) [0..<m] cs)"
proof -
  let ?P = "\<lambda>op d'. \<exists>cs perm rel. op = \<lparr>top_orders = nodes, top_limit = lim, top_offset = off, top_result = rel\<lparr>columns := map Some cs\<rparr>\<rparr> \<and>
    in_order lt (order_by_types nodes) (map ins js) n perm \<and> list_all2 (\<lambda>inp c. emits_rows E d' inp perm c) (map ins [0..<m]) cs"
  let ?Q = "\<lambda>rout' d'. \<exists>cs perm. columns rout' = map Some cs \<and> in_order lt (order_by_types nodes) (map ins js) n perm \<and>
    list_all2 (\<lambda>inp c. emits_slice E d' inp (take (unat lim) (drop (unat off) perm)) c) (map ins [0..<m]) cs"
  have cols': "columns_ok E n d rin (set js \<union> set [0..<m]) ins" using cols by (simp add: lessThan_atLeast0)
  have m: "length (columns (GPUIntermediateRelation_new m)) = m" "length [0..<m] = m" by (simp_all add: GPUIntermediateRelation_new_def)
  have "grows (ee_rmm E) d (GPUPhysicalTopN_Sink E S C (GPUPhysicalTopN_new m nodes lim off) rin) (\<lambda>(op, _). ?P op)"
    unfolding GPUPhysicalTopN_Sink_def HandleTopN_def GPUPhysicalTopN_new_def gpu_top_n.simps m(1)
    by (rule sink_sorts [OF D S(1) n cols' nodes]) (unfold m(2), rule grows_lifted, assumption, rule grows_return, simp, blast)
  then have "grows (ee_rmm E) d (act_bind (GPUPhysicalTopN_Sink E S C (GPUPhysicalTopN_new m nodes lim off) rin)
      (\<lambda>(op, _). GPUPhysicalTopN_GetData E S op rout)) ?Q"
  proof (rule grows_bind, clarify)
    fix op rin' d1 cs perm and rel :: GPUIntermediateRelation
    assume perm: "in_order lt (order_by_types nodes) (map ins js) n perm"
      "list_all2 (\<lambda>inp c. emits_rows E d1 inp perm c) (map ins [0..<m]) cs"
    let ?slice = "\<lambda>inp c d'. emits_slice E d' inp (take (unat lim) (drop (unat off) perm)) c"
    have len: "length (map Some cs) = length (map ins [0..<m])" using list_all2_lengthD [OF perm(2)] by simp
    have "grows (ee_rmm E) d1 (act_mapM (\<lambda>c. act_bind (act_lift (required_column c)) (top_n_column E S lim off)) (map Some cs))
      (\<lambda>ks d'. list_all2 (\<lambda>inp k. ?slice inp k d') (map ins [0..<m]) ks)"
    proof (rule grows_mapM [OF len])
      fix i d2 assume i: "i < length (map Some cs)" and e: "device_extends (ee_rmm E) d1 d2"
      have "emits_rows E d1 (map ins [0..<m] ! i) perm (cs ! i)" using list_all2_nthD2 [OF perm(2), of i] i by simp
      from top_n_column_slice [OF emits_rows_mono [OF e this] S(2) lim] i
      show "grows (ee_rmm E) d2 (act_bind (act_lift (required_column (map Some cs ! i))) (top_n_column E S lim off))
        (?slice (map ins [0..<m] ! i))"
        by (intro grows_lifted [where x = "cs ! i"]) (simp_all add: required_column_def)
    qed (rule emits_slice_mono)
    moreover have "grows (ee_rmm E) d2 (if length (columns rout) < length ks then act_throw (UndefinedBehaviour ''vector index'')
        else act_return (rout\<lparr>columns := map Some ks @ drop (length ks) (columns rout)\<rparr>)) ?Q"
      if "list_all2 (\<lambda>inp k. ?slice inp k d2) (map ins [0..<m]) ks" for ks d2
      using list_all2_lengthD [OF that] that perm(1) rout by (auto intro!: grows_return)
    ultimately show "grows (ee_rmm E) d1 (GPUPhysicalTopN_GetData E S \<lparr>top_orders = nodes, top_limit = lim, top_offset = off,
        top_result = rel\<lparr>columns := map Some cs\<rparr>\<rparr> rout) ?Q"
      using lim by (simp add: GPUPhysicalTopN_GetData_def) (rule grows_bind)
  qed
  from grows_elim [OF this wf run] show ?thesis unfolding order_by_types_asked by (simp add: list_all2_map1) blast
qed

section \<open>The first rows\<close>

definition holds_prefix :: "('d, 'v) exec_env \<Rightarrow> 'v device \<Rightarrow> 'v column_rows \<Rightarrow> nat \<Rightarrow> GPUColumn \<Rightarrow> bool" where
  "holds_prefix E d inp k c \<longleftrightarrow> readable (ee_duckdb E) d c (take k (fst (snd inp))) (take k (snd (snd inp)))"

lemma holds_prefix_mono: "device_extends rmm d d' \<Longrightarrow> holds_prefix E d inp k c \<Longrightarrow> holds_prefix E d' inp k c"
  unfolding holds_prefix_def by (rule readable_mono)

lemma pick_upt_take: "pick xs [0..<n] = Some ys \<Longrightarrow> m \<le> n \<Longrightarrow> pick xs [0..<m] = Some (take m ys)"
  by (auto simp: pick_def take_map split: if_splits)

text \<open>Fewer rows of the same arrays.\<close>

lemma plain_column_cut:
  assumes c: "plain_column D d c t n vs bs" and m: "unat m \<le> n"
    and k: "row_ids k = nullptr" "column_length k = m" "dw_data (data_wrapper k) = dw_data (data_wrapper c)"
      "dw_type (data_wrapper k) = dw_type (data_wrapper c)" "dw_validity_mask (data_wrapper k) = dw_validity_mask (data_wrapper c)"
  shows "readable D d k (take (unat m) vs) (take (unat m) bs)"
proof -
  have rows: "column_row_list d c = Some [0..<n]" "column_row_list d k = Some [0..<unat m]" "0 < n"
    using c k by (auto simp: plain_column_def column_row_list_def)
  have ne: "[0..<n] = 0 # [1..<n]" using rows(3) by (simp add: upt_conv_Cons)
  obtain w xs where xs: "cells d (dw_data (data_wrapper c)) = Some (Vals w xs)"
    "getColumnTypeSize D (dw_type (data_wrapper c)) = Inr w" "pick xs [0..<n] = Some vs"
    using c rows(1) ne by (auto simp: plain_column_def values_of_def split: option.splits darray.splits if_splits)
  have "values_of D d k = Some (take (unat m) vs)"
    using xs pick_upt_take [OF xs(3) m] k rows(2) by (auto simp: values_of_def split: list.split)
  moreover have "validity_of d k = Some (take (unat m) bs)"
  proof (cases "dw_validity_mask (data_wrapper c) = nullptr")
    case True
    then have "bs = map (\<lambda>_. True) [0..<n]" using c rows(1) by (auto simp: plain_column_def validity_of_def)
    with True k rows(2) m show ?thesis by (simp add: validity_of_def take_map)
  next
    case False
    then obtain ms where ms: "cells d (dw_validity_mask (data_wrapper c)) = Some (Bits ms)" "pick ms [0..<n] = Some bs"
      using c rows by (auto simp: plain_column_def validity_of_def split: option.splits darray.splits if_splits)
    with False k rows(2) pick_upt_take [OF ms(2) m] show ?thesis by (auto simp: validity_of_def)
  qed
  ultimately show ?thesis using k(2) by (simp add: readable_def)
qed

lemma limit_column_prefix:
  assumes inp: "input_ok E n d c inp" and n: "0 < n" "int n \<le> INT32_MAX"
  shows "grows (ee_rmm E) d (limit_column E lim c) (\<lambda>(lim', out) d'. unat lim' = min (unat lim) n \<and> holds_prefix E d' inp (unat lim') out)"
proof -
  have "grows (ee_rmm E) d' (let w = data_wrapper p; n = min lim (column_length p) in
     act_bind (act_lift (GPUColumn_string (ee_duckdb E) n (dw_type w) (dw_data w) (dw_offset w) (dw_num_bytes w)
       (dw_is_string_data w) (dw_validity_mask w))) (\<lambda>out.
     let out = out\<lparr>is_unique := is_unique p\<rparr> in
     if 0 < n \<and> is_varchar out then
       act_bind (dev_offsets (dw_offset w)) (\<lambda>os.
       act_bind (act_lift (vec_at os (unat n))) (\<lambda>new_num_bytes.
         act_return (n, out\<lparr>data_wrapper := (data_wrapper out)\<lparr>dw_num_bytes := new_num_bytes\<rparr>\<rparr>)))
     else act_return (n, out))) (\<lambda>(lim', out) d'. unat lim' = min (unat lim) n \<and> holds_prefix E d' inp (unat lim') out)"
    if p: "plain_of E n d' inp p" for p d'
  proof -
    obtain t vs bs where i: "inp = (t, vs, bs)" by (cases inp)
    have pc: "plain_column (ee_duckdb E) d' p t n vs bs" using p by (simp add: plain_of_def i)
    then have "values_of (ee_duckdb E) d' p = Some vs" "vs \<noteq> []" using p by (auto simp: plain_of_def i plain_column_def)
    then obtain w where w: "getColumnTypeSize (ee_duckdb E) (dw_type (data_wrapper p)) = Inr w" using values_of_rows_size by blast
    have len: "unat (min lim (column_length p)) = min (unat lim) n"
      using pc by (simp add: plain_column_def min_def word_le_nat_alt)
    show ?thesis unfolding Let_def
      using w len plain_not_varchar [OF p] plain_column_cut [OF pc, of "min lim (column_length p)"]
      by (auto simp: column_defs Let_def is_varchar_def holds_prefix_def i intro!: grows_lifted grows_return)
  qed
  then show ?thesis unfolding limit_column_def by (intro grows_bind [OF grows_gather_of [OF inp n]])
qed

lemma limit_columns_prefix:
  assumes n: "0 < n" "int n \<le> INT32_MAX" and "columns_ok E n d rin {i..<i + m} ins" and "i + m \<le> length (columns rout)"
  shows "grows (ee_rmm E) d (limit_columns E lim i m rin rout) (\<lambda>rout' d'. length (columns rout') = length (columns rout) \<and>
    (\<forall>j < i. columns rout' ! j = columns rout ! j) \<and>
    (\<forall>j. i \<le> j \<and> j < i + m \<longrightarrow> (\<exists>c. columns rout' ! j = Some c \<and> holds_prefix E d' (ins j) (min (unat lim) n) c)))"
  using assms(3,4)
proof (induction m arbitrary: d i lim rout)
  case 0
  then show ?case by (auto intro!: grows_return)
next
  case (Suc m)
  obtain c where c: "column_at rin i = Inr c" "input_ok E n d c (ins i)" using Suc.prems(1) by (force simp: columns_ok_def)
  let ?rout = "\<lambda>out. rout\<lparr>columns := (columns rout)[i := Some out]\<rparr>"
  have set: "set_column i out rout = Inr (?rout out)" for out using Suc.prems(2) by (simp add: set_column_Inr_iff)
  show ?case unfolding limit_columns.simps
  proof (rule grows_lifted [OF c(1)], rule grows_bind [OF limit_column_prefix [OF c(2) n]], clarify, rule grows_lifted [OF set])
    fix lim' :: u64 and out d1 assume e: "device_extends (ee_rmm E) d d1" and l: "unat lim' = min (unat lim) n"
      and out: "holds_prefix E d1 (ins i) (unat lim') out"
    have ok: "columns_ok E n d1 rin {Suc i..<Suc i + m} ins"
      using columns_ok_mono [OF e Suc.prems(1)] by (auto simp: columns_ok_def)
    have l': "min (unat lim') n = min (unat lim) n" using l by simp
    show "grows (ee_rmm E) d1 (limit_columns E lim' (Suc i) m rin (?rout out))
      (\<lambda>rout' d'. length (columns rout') = length (columns rout) \<and> (\<forall>j < i. columns rout' ! j = columns rout ! j) \<and>
        (\<forall>j. i \<le> j \<and> j < i + Suc m \<longrightarrow> (\<exists>c. columns rout' ! j = Some c \<and> holds_prefix E d' (ins j) (min (unat lim) n) c)))"
    proof (rule grows_conseq [OF Suc.IH [OF ok]])
      fix rout' d' assume e': "device_extends (ee_rmm E) d1 d'" and rec: "length (columns rout') = length (columns (?rout out)) \<and>
        (\<forall>j < Suc i. columns rout' ! j = columns (?rout out) ! j) \<and>
        (\<forall>j. Suc i \<le> j \<and> j < Suc i + m \<longrightarrow> (\<exists>c. columns rout' ! j = Some c \<and> holds_prefix E d' (ins j) (min (unat lim') n) c))"
      have "columns rout' ! i = Some out" "holds_prefix E d' (ins i) (min (unat lim) n) out"
        using rec Suc.prems(2) holds_prefix_mono [OF e' out] l by simp_all
      then have "\<exists>c. columns rout' ! j = Some c \<and> holds_prefix E d' (ins j) (min (unat lim) n) c" if "i \<le> j" "j < i + Suc m" for j
        using rec that unfolding l' by (cases "j = i") auto
      with rec show "length (columns rout') = length (columns rout) \<and> (\<forall>j < i. columns rout' ! j = columns rout ! j) \<and>
        (\<forall>j. i \<le> j \<and> j < i + Suc m \<longrightarrow> (\<exists>c. columns rout' ! j = Some c \<and> holds_prefix E d' (ins j) (min (unat lim) n) c))"
        by simp
    qed (use Suc.prems(2) in simp)
  qed
qed

text \<open>C17: over columns of fixed width a streaming limit emits the first \<open>limit\<close> rows of its input, all of them when there are fewer, with
  their values and nulls.  The offset does not matter: no row is skipped.\<close>

theorem limit_emits_the_first_rows:
  assumes "dev_wf (ee_rmm E) d" and "0 < n" "int n \<le> INT32_MAX"
    and cols: "columns_ok E n d rin {..<length (columns rout)} ins" and lim: "limit_val op = ConstantLimit lim"
    and run: "GPUPhysicalStreamingLimit_Execute E op rin rout d = (r, d')"
  shows "(\<exists>e. r = Inl e \<and> out_of_memory e) \<or>
    (\<exists>rout'. r = Inr rout' \<and> length (columns rout') = length (columns rout) \<and>
       (\<forall>j < length (columns rout). \<exists>c. columns rout' ! j = Some c \<and> holds_prefix E d' (ins j) (min (unat lim) n) c))"
proof -
  have "columns_ok E n d rin {0..<0 + length (columns rout)} ins" using cols by (simp add: lessThan_atLeast0)
  from limit_columns_prefix [OF assms(2,3) this, of rout lim]
  have "grows (ee_rmm E) d (GPUPhysicalStreamingLimit_Execute E op rin rout) (\<lambda>rout' d'. length (columns rout') = length (columns rout) \<and>
      (\<forall>j < length (columns rout). \<exists>c. columns rout' ! j = Some c \<and> holds_prefix E d' (ins j) (min (unat lim) n) c))"
    unfolding GPUPhysicalStreamingLimit_Execute_def
    by (intro grows_lifted [where x = lim]) (simp_all add: lim GetConstantValue_def)
  from grows_elim [OF this assms(1) run] show ?thesis by blast
qed

end
