(* ===== verification/Sort_Properties.thy ===== *)
theory Sort_Properties
  imports Sort_Rows Expression_Properties
begin

text \<open>
  The sorting operators on a small table, with libraries that behave as documented, and what the sort of the
  top strings does with records whose prefixes differ.
\<close>

section \<open>Strict weak orders\<close>

definition strict_on :: "'a set \<Rightarrow> ('a \<Rightarrow> 'a \<Rightarrow> bool) \<Rightarrow> bool" where
  "strict_on A lt \<longleftrightarrow> (\<forall>x \<in> A. \<forall>y \<in> A. lt x y \<longrightarrow> \<not> lt y x) \<and>
     (\<forall>x \<in> A. \<forall>y \<in> A. \<forall>z \<in> A. \<not> lt x y \<longrightarrow> \<not> lt y z \<longrightarrow> \<not> lt x z)"

lemma strict_on_asym: "strict_on A lt \<Longrightarrow> x \<in> A \<Longrightarrow> y \<in> A \<Longrightarrow> lt x y \<Longrightarrow> \<not> lt y x"
  unfolding strict_on_def by blast

lemma strict_on_trans:
  "strict_on A lt \<Longrightarrow> x \<in> A \<Longrightarrow> y \<in> A \<Longrightarrow> z \<in> A \<Longrightarrow> \<not> lt x y \<Longrightarrow> \<not> lt y z \<Longrightarrow> \<not> lt x z"
  unfolding strict_on_def by blast

lemma strict_on_subset: "strict_on A lt \<Longrightarrow> B \<subseteq> A \<Longrightarrow> strict_on B lt"
  unfolding strict_on_def by blast

lemma strict_on_swap: "strict_on A lt \<Longrightarrow> strict_on A (\<lambda>x y. lt y x)"
  unfolding strict_on_def by blast

fun insert_by :: "('a \<Rightarrow> 'a \<Rightarrow> bool) \<Rightarrow> 'a \<Rightarrow> 'a list \<Rightarrow> 'a list" where
  "insert_by lt x [] = [x]"
| "insert_by lt x (y # ys) = (if lt y x then y # insert_by lt x ys else x # y # ys)"

fun sort_by :: "('a \<Rightarrow> 'a \<Rightarrow> bool) \<Rightarrow> 'a list \<Rightarrow> 'a list" where
  "sort_by lt [] = []"
| "sort_by lt (x # xs) = insert_by lt x (sort_by lt xs)"

lemma mset_insert_by [simp]: "mset (insert_by lt x xs) = add_mset x (mset xs)"
  by (induction xs) simp_all

lemma set_insert_by [simp]: "set (insert_by lt x xs) = insert x (set xs)"
  by (induction xs) auto

lemma mset_sort_by [simp]: "mset (sort_by lt xs) = mset xs"
  by (induction xs) simp_all

lemma set_sort_by [simp]: "set (sort_by lt xs) = set xs"
  by (induction xs) simp_all

lemma insert_by_sorted:
  assumes "strict_on A lt" and "sorted_wrt (\<lambda>a b. \<not> lt b a) xs" and "x \<in> A" "set xs \<subseteq> A"
  shows "sorted_wrt (\<lambda>a b. \<not> lt b a) (insert_by lt x xs)"
  using assms(2,4)
proof (induction xs)
  case (Cons y ys)
  have asym: "lt y x \<Longrightarrow> \<not> lt x y" using strict_on_asym [OF assms(1) _ assms(3)] Cons.prems(2) by simp
  have trans: "\<not> lt z x" if "\<not> lt y x" "z \<in> set ys" for z
    using strict_on_trans [OF assms(1) _ _ assms(3), of z y] Cons.prems that by auto
  from Cons asym trans show ?case by auto
qed simp

lemma sort_by_sorted: "strict_on (set xs) lt \<Longrightarrow> sorted_wrt (\<lambda>a b. \<not> lt b a) (sort_by lt xs)"
proof (induction xs)
  case (Cons x xs)
  then have "strict_on (set xs) lt" by (auto intro: strict_on_subset)
  with Cons show ?case by (auto intro!: insert_by_sorted [OF Cons.prems])
qed simp

lemma strict_on_rows:
  assumes "\<forall>lt \<in> set lts. strict_on UNIV lt"
  shows "strict_on {xs. length xs = length lts} (rows_less lts)"
  using assms
proof (induction lts)
  case Nil
  then show ?case by (auto simp: strict_on_def)
next
  case (Cons lt lts)
  then have hd: "strict_on UNIV lt" and tl: "strict_on {xs. length xs = length lts} (rows_less lts)" by simp_all
  show ?case unfolding strict_on_def
  proof (intro conjI ballI impI)
    fix xs ys assume "xs \<in> {xs. length xs = length (lt # lts)}" "ys \<in> {xs. length xs = length (lt # lts)}"
      and less: "rows_less (lt # lts) xs ys"
    then obtain x xs' y ys' where c: "xs = x # xs'" "ys = y # ys'" "length xs' = length lts" "length ys' = length lts"
      by (auto simp: length_Suc_conv)
    from strict_on_asym [OF tl, of xs' ys'] c(3,4) have "rows_less lts xs' ys' \<longrightarrow> \<not> rows_less lts ys' xs'" by simp
    with strict_on_asym [OF hd, of x y] less show "\<not> rows_less (lt # lts) ys xs" by (auto simp: c)
  next
    fix xs ys zs assume len: "xs \<in> {xs. length xs = length (lt # lts)}" "ys \<in> {xs. length xs = length (lt # lts)}"
      "zs \<in> {xs. length xs = length (lt # lts)}" and le: "\<not> rows_less (lt # lts) xs ys" "\<not> rows_less (lt # lts) ys zs"
    then obtain x xs' y ys' z zs' where c: "xs = x # xs'" "ys = y # ys'" "zs = z # zs'"
      "length xs' = length lts" "length ys' = length lts" "length zs' = length lts"
      by (auto simp: length_Suc_conv)
    from strict_on_trans [OF tl, of xs' ys' zs'] c(4-6)
    have "\<not> rows_less lts xs' ys' \<longrightarrow> \<not> rows_less lts ys' zs' \<longrightarrow> \<not> rows_less lts xs' zs'" by simp
    moreover have "\<not> lt x y" "\<not> lt y z" using le by (simp_all add: c)
    moreover from this have "\<not> lt x z" using strict_on_trans [OF hd, of x y z] by simp
    moreover have "lt y x \<or> lt z y \<longrightarrow> lt z x"
      using strict_on_trans [OF hd, of z x y] strict_on_trans [OF hd, of y z x] calculation(2,3) by blast
    ultimately show "\<not> rows_less (lt # lts) xs zs" using le by (auto simp: c)
  qed
qed

section \<open>A library that sorts\<close>

fun null_less :: "cudf_null_order \<Rightarrow> int option \<Rightarrow> int option \<Rightarrow> bool" where
  "null_less ns None None = False"
| "null_less ns None (Some b) = (ns = NULLS_BEFORE)"
| "null_less ns (Some a) None = (ns = NULLS_AFTER)"
| "null_less ns (Some a) (Some b) = (a < b)"

definition mini_cell_order :: "int cell_order" where
  "mini_cell_order t ns x y = (if t = ASCENDING then null_less ns x y else null_less ns y x)"

definition mini_rows_less :: "int cudf_column list \<Rightarrow> OrderByType list \<Rightarrow> cudf_null_order list \<Rightarrow> nat \<Rightarrow> nat \<Rightarrow> bool" where
  "mini_rows_less cols os ns i j = rows_less (map2 mini_cell_order os ns) (sort_row cols i) (sort_row cols j)"

definition mini_sorting :: "int cudf_sorting" where
  "mini_sorting = \<lparr>
     sorted_order = (\<lambda>cols os ns. Inr (map int (sort_by (mini_rows_less cols os ns) [0..<length (cc_data (hd cols))]))),
     cudf_gather = (\<lambda>cols rows. Inr (map (\<lambda>c. \<lparr>cc_type = cc_type c, cc_data = map (\<lambda>i. cc_data c ! nat i) rows,
       cc_mask = map (\<lambda>i. cc_mask c ! nat i) rows\<rparr>) cols)),
     copy_bitmask = (\<lambda>bits b e. Inr (take (unat (e - b)) (drop (unat b) bits)))\<rparr>"

lemma null_less_strict: "strict_on UNIV (null_less ns)"
  unfolding strict_on_def
proof (intro conjI ballI impI)
  fix x y assume "null_less ns x y" then show "\<not> null_less ns y x" by (cases x; cases y; cases ns) auto
next
  fix x y z assume "\<not> null_less ns x y" "\<not> null_less ns y z"
  then show "\<not> null_less ns x z" by (cases x; cases y; cases z; cases ns) auto
qed

lemma mini_cell_strict: "strict_on UNIV (mini_cell_order t ns)"
proof (cases "t = ASCENDING")
  case True
  then have "mini_cell_order t ns = null_less ns" by (intro ext) (simp add: mini_cell_order_def)
  then show ?thesis by (simp add: null_less_strict)
next
  case False
  then have "mini_cell_order t ns = (\<lambda>x y. null_less ns y x)" by (intro ext) (simp add: mini_cell_order_def)
  then show ?thesis using strict_on_swap [OF null_less_strict] by simp
qed

lemma mini_rows_strict:
  assumes "length os = length cols" "length ns = length cols"
  shows "strict_on A (mini_rows_less cols os ns)"
proof -
  have "\<forall>lt \<in> set (map2 mini_cell_order os ns). strict_on UNIV lt"
    by (auto simp: mini_cell_strict)
  from strict_on_rows [OF this] have st: "strict_on {xs. length xs = length cols} (rows_less (map2 mini_cell_order os ns))"
    using assms by simp
  have "sort_row cols i \<in> {xs. length xs = length cols}" for i by (simp add: sort_row_def)
  then show ?thesis using strict_on_asym [OF st] strict_on_trans [OF st] unfolding strict_on_def mini_rows_less_def by blast
qed

lemma mini_sorting_documented: "sorting_documented mini_cudf (<) mini_cell_order mini_sorting"
  unfolding sorting_documented_def
proof (intro conjI)
  show "sorts_in_order mini_cell_order mini_sorting"
    unfolding sorts_in_order_def
  proof (intro allI impI)
    fix cols :: "int cudf_column list" and os :: "OrderByType list" and ns :: "cudf_null_order list" and n
    assume a: "cols \<noteq> [] \<and> length os = length cols \<and> length ns = length cols \<and>
      (\<forall>c \<in> set cols. length (cc_data c) = n \<and> length (cc_mask c) = n)"
    then have n: "length (cc_data (hd cols)) = n" by (cases cols) simp_all
    let ?perm = "sort_by (mini_rows_less cols os ns) [0..<n]"
    have "sorted_wrt (\<lambda>i j. \<not> mini_rows_less cols os ns j i) ?perm"
      using a by (intro sort_by_sorted mini_rows_strict) simp_all
    then show "\<exists>perm. sorted_order mini_sorting cols os ns = Inr (map int perm) \<and> mset perm = mset [0..<n] \<and>
      sorted_wrt (\<lambda>i j. \<not> rows_less (map2 mini_cell_order os ns) (sort_row cols j) (sort_row cols i)) perm"
      by (intro exI [of _ ?perm]) (simp add: mini_sorting_def n flip: mini_rows_less_def)
  qed
  show "gathers_rows mini_sorting"
    by (auto simp: gathers_rows_def mini_sorting_def list_all2_map2 list_all2_same column_is_nth cells_of_def)
  show "masks_nulls mini_cudf" by (simp add: masks_nulls_def mini_cudf_def)
  show "\<forall>ns x y. mini_cell_order ASCENDING ns (Some x) (Some y) = (x < y) \<and> mini_cell_order DESCENDING ns (Some x) (Some y) = (y < x)"
    by (simp add: mini_cell_order_def)
qed

lemma mini_copies_bits: "copies_bits mini_sorting"
  by (simp add: copies_bits_def mini_sorting_def)

definition mini_cub :: cub_sorting where
  "mini_cub = \<lparr>merge_sort = sort_by, reduce_by_key = (\<lambda>f rs vs. vs), merge_sort_bytes = (\<lambda>n. 8 * n), reduce_by_key_bytes = (\<lambda>n. 8 * n)\<rparr>"

section \<open>The small table in order\<close>

text \<open>\<open>ORDER BY a DESC\<close> over \<open>a\<close> = 30, 10, 40 and \<open>b\<close> = 7, 8, 9.\<close>

definition by_a :: "(LogicalType \<times> int) BoundOrderByNode list" where
  "by_a = [\<lparr>order_type = ORDER_DESCENDING, order_nulls = NULLS_LAST, order_expr = col_a\<rparr>]"

lemma by_a_columns: "orders_columns by_a [0]"
  by (simp add: by_a_def orders_columns_def col_a_def)

lemma table_columns_ok:
  "I \<subseteq> {0, 1} \<Longrightarrow> columns_ok mini_env 3 (table_device [True, True, True, True]) table_relation I ((!) (table_inputs True))"
  using table_inputs_ok by (fastforce simp: columns_ok_def column_at_Inr_iff table_relation_def)

lemma only_order:
  assumes "\<not> L b a" "\<not> L c a" "\<not> L c b" and "L 2 0" "L 2 1" "L 0 1" and "distinct [a, b, c]" and abc: "{a, b, c} = {0, 1, 2 :: nat}"
  shows "[a, b, c] = [2, 0, 1]"
proof -
  have "a \<in> {0, 1, 2}" "b \<in> {0, 1, 2}" "c \<in> {0, 1, 2}" unfolding abc [symmetric] by simp_all
  then have "a = 0 \<or> a = 1 \<or> a = 2" "b = 0 \<or> b = 1 \<or> b = 2" "c = 0 \<or> c = 1 \<or> c = 2" by simp_all
  with assms(1-7) show ?thesis by (elim disjE) simp_all
qed

lemma by_a_order:
  assumes "in_order mini_cell_order (asked_orders by_a) (map ((!) (table_inputs True)) [0]) 3 perm"
  shows "perm = [2, 0, 1]"
proof -
  let ?L = "rows_less (map (\<lambda>t. mini_cell_order t (cudf_order_of t)) (asked_orders by_a))"
  let ?row = "row_of (map ((!) (table_inputs True)) [0])"
  have less: "?L (?row 2) (?row 0)" "?L (?row 2) (?row 1)" "?L (?row 0) (?row 1)" by code_simp+
  from assms have perm: "mset perm = mset [0..<3]" "sorted_wrt (\<lambda>i j. \<not> ?L (?row j) (?row i)) perm"
    by (simp_all add: in_order_def)
  have "length perm = 3" using mset_eq_length [OF perm(1)] by simp
  moreover have "set perm = {0, 1, 2}" using mset_eq_setD [OF perm(1)] by (auto simp: numeral_3_eq_3 numeral_2_eq_2)
  moreover have "distinct perm" using mset_eq_imp_distinct_iff [OF perm(1)] by simp
  ultimately obtain a b c where abc: "perm = [a, b, c]" "{a, b, c} = {0, 1, 2}" "distinct [a, b, c]"
    by (auto simp: numeral_3_eq_3 length_Suc_conv)
  have order: "\<not> ?L (?row b) (?row a)" "\<not> ?L (?row c) (?row a)" "\<not> ?L (?row c) (?row b)"
    using perm(2) by (simp_all only: abc(1) sorted_wrt.simps list.set ball_simps simp_thms)
  show ?thesis unfolding abc(1) by (rule only_order [where L = "\<lambda>i j. ?L (?row i) (?row j)", OF order less abc(3,2)])
qed

lemma table_dev_wf: "dev_wf (ee_rmm mini_env) (table_device ms)"
  using table_device_wf by (simp add: mini_env_def)

lemma env_duckdb_ok: "duckdb_env_ok (ee_duckdb mini_env)"
  using duckdb_documented_ok by (simp add: mini_env_def)

lemma env_sorting: "sorting_documented (ee_cudf mini_env) (<) mini_cell_order mini_sorting"
  using mini_sorting_documented by (simp add: mini_env_def)

theorem order_by_emits_sorted_rows_witness:
  "\<exists>rout' d' c vs bs. act_bind (GPUPhysicalOrder_Sink mini_env mini_sorting mini_cub (GPUPhysicalOrder_new by_a [1, 0]) table_relation)
       (\<lambda>(op, _). act_lift (GPUPhysicalOrder_GetData op (GPUIntermediateRelation_new 2))) (table_device [True, True, True, True]) =
     (Inr rout', d') \<and> columns rout' ! 0 = Some c \<and>
     values_of duckdb_documented d' c = Some vs \<and> validity_of d' c = Some bs \<and> vs = [9, 7, 8] \<and> bs = [True, True, True]"
proof -
  let ?run = "act_bind (GPUPhysicalOrder_Sink mini_env mini_sorting mini_cub (GPUPhysicalOrder_new by_a [1, 0]) table_relation)
    (\<lambda>(op, _). act_lift (GPUPhysicalOrder_GetData op (GPUIntermediateRelation_new 2))) (table_device [True, True, True, True])"
  obtain r d' where run: "?run = (r, d')" by (cases ?run)
  have "case fst ?run of Inl e \<Rightarrow> False | Inr c \<Rightarrow> True" by code_simp
  with run obtain rout' where r: "r = Inr rout'" by (cases r) simp_all
  have cols: "columns_ok mini_env 3 (table_device [True, True, True, True]) table_relation (set [0] \<union> set [1, 0]) ((!) (table_inputs True))"
    by (rule table_columns_ok) simp
  have n: "0 < (3 :: nat)" "int 3 \<le> INT32_MAX" "length (columns (GPUIntermediateRelation_new 2)) = length [1 :: nat, 0]"
    by (simp_all add: INT32_MAX_def GPUIntermediateRelation_new_def)
  from order_by_emits_sorted_rows [OF env_duckdb_ok env_sorting table_dev_wf n(1,2) cols by_a_columns n(3) run]
  obtain cs perm where res: "columns rout' = map Some cs" "in_order mini_cell_order (asked_orders by_a) (map ((!) (table_inputs True)) [0]) 3 perm"
    "list_all2 (\<lambda>i c. emits_rows mini_env d' (table_inputs True ! i) perm c) [1, 0] cs" unfolding r by auto
  note perm = by_a_order [OF res(2)]
  obtain c where c: "columns rout' ! 0 = Some c" "emits_rows mini_env d' (table_inputs True ! 1) [2, 0, 1] c"
    using res(1,3) by (auto simp: list_all2_Cons1 perm)
  then obtain vs bs where vs: "values_of duckdb_documented d' c = Some vs" "validity_of d' c = Some bs" "length vs = 3" "length bs = 3"
    "\<forall>p < 3. input_cell (cudf_data CUDF_INT32, vs, bs) p = input_cell (table_inputs True ! 1) ([2, 0, 1] ! p)"
    by (auto simp: emits_rows_def plain_column_def mini_env_def table_inputs_def)
  then have "vs = [9, 7, 8] \<and> bs = [True, True, True]"
    unfolding all_less_three by (auto simp: numeral_3_eq_3 length_Suc_conv input_cell_def table_inputs_def numeral_2_eq_2 split: if_splits)
  with run r c(1) vs(1,2) show ?thesis by blast
qed

theorem top_n_emits_the_top_rows_witness:
  "\<exists>rout' d' c. act_bind (GPUPhysicalTopN_Sink mini_env mini_sorting mini_cub (GPUPhysicalTopN_new 2 by_a 2 1) table_relation)
       (\<lambda>(op, _). GPUPhysicalTopN_GetData mini_env mini_sorting op (GPUIntermediateRelation_new 2))
       (table_device [True, True, True, True]) = (Inr rout', d') \<and>
     columns rout' ! 1 = Some c \<and> emits_slice mini_env d' (cudf_data CUDF_INT32, [7, 8, 9], [True, True, True]) [0, 1] c"
proof -
  let ?run = "act_bind (GPUPhysicalTopN_Sink mini_env mini_sorting mini_cub (GPUPhysicalTopN_new 2 by_a 2 1) table_relation)
    (\<lambda>(op, _). GPUPhysicalTopN_GetData mini_env mini_sorting op (GPUIntermediateRelation_new 2)) (table_device [True, True, True, True])"
  obtain r d' where run: "?run = (r, d')" by (cases ?run)
  have "case fst ?run of Inl e \<Rightarrow> False | Inr c \<Rightarrow> True" by code_simp
  with run obtain rout' where r: "r = Inr rout'" by (cases r) simp_all
  have cols: "columns_ok mini_env 3 (table_device [True, True, True, True]) table_relation (set [0] \<union> {..<2}) ((!) (table_inputs True))"
    by (rule table_columns_ok) auto
  have n: "0 < (3 :: nat)" "int 3 \<le> INT32_MAX" "length (columns (GPUIntermediateRelation_new 2)) = 2" "(2 :: u64) \<noteq> 0"
    by (simp_all add: INT32_MAX_def GPUIntermediateRelation_new_def)
  from top_n_emits_the_top_rows [OF env_duckdb_ok env_sorting mini_copies_bits table_dev_wf n(1,2) cols by_a_columns n(3,4) run]
  obtain cs perm where res: "columns rout' = map Some cs" "in_order mini_cell_order (asked_orders by_a) (map ((!) (table_inputs True)) [0]) 3 perm"
    "list_all2 (\<lambda>i c. emits_slice mini_env d' (table_inputs True ! i) (take (unat (2 :: u64)) (drop (unat (1 :: u64)) perm)) c) [0..<2] cs"
    unfolding r by auto
  note perm = by_a_order [OF res(2)]
  have "length cs = 2" using list_all2_lengthD [OF res(3)] by simp
  then have "columns rout' ! 1 = Some (cs ! 1)" using res(1) by simp
  moreover have "emits_slice mini_env d' (table_inputs True ! 1) [0, 1] (cs ! 1)"
    using list_all2_nthD [OF res(3), of 1] by (simp add: perm)
  ultimately show ?thesis using run r by (auto simp: table_inputs_def)
qed

theorem limit_emits_the_first_rows_witness:
  "\<exists>rout' d' c. GPUPhysicalStreamingLimit_Execute mini_env \<lparr>limit_val = ConstantLimit 2, offset_val = ConstantLimit 1\<rparr>
       table_relation (GPUIntermediateRelation_new 2) (table_device [True, True, True, True]) = (Inr rout', d') \<and>
     columns rout' ! 0 = Some c \<and> values_of duckdb_documented d' c = Some [30, 10]"
proof -
  let ?op = "\<lparr>limit_val = ConstantLimit 2, offset_val = ConstantLimit 1\<rparr>"
  let ?run = "GPUPhysicalStreamingLimit_Execute mini_env ?op table_relation (GPUIntermediateRelation_new 2)
    (table_device [True, True, True, True])"
  obtain r d' where run: "?run = (r, d')" by (cases ?run)
  have "case fst ?run of Inl e \<Rightarrow> False | Inr c \<Rightarrow> True" by code_simp
  with run obtain rout' where r: "r = Inr rout'" by (cases r) simp_all
  have m: "length (columns (GPUIntermediateRelation_new 2)) = 2" by (simp add: GPUIntermediateRelation_new_def)
  have cols: "columns_ok mini_env 3 (table_device [True, True, True, True]) table_relation
      {..<length (columns (GPUIntermediateRelation_new 2))} ((!) (table_inputs True))"
    unfolding m by (rule table_columns_ok) auto
  have n: "0 < (3 :: nat)" "int 3 \<le> INT32_MAX" "limit_val ?op = ConstantLimit 2" by (simp_all add: INT32_MAX_def)
  from limit_emits_the_first_rows [OF table_dev_wf n(1,2) cols n(3) run]
  have "\<forall>j < 2. \<exists>c. columns rout' ! j = Some c \<and> holds_prefix mini_env d' (table_inputs True ! j) (min (unat (2 :: u64)) 3) c"
    unfolding r m by auto
  then obtain c where "columns rout' ! 0 = Some c" "holds_prefix mini_env d' (table_inputs True ! 0) (min (unat (2 :: u64)) 3) c"
    by (meson zero_less_numeral)
  then show ?thesis using run r by (auto simp: holds_prefix_def readable_def table_inputs_def mini_env_def)
qed

section \<open>The sort of the top strings\<close>

text \<open>CUB's documented behaviour: a merge sort orders by the comparison it gets, and a run of one key is reduced
  to its value.\<close>

definition cub_documented :: "cub_sorting \<Rightarrow> bool" where
  "cub_documented C \<longleftrightarrow> (\<forall>lt rs. strict_on (set rs) lt \<longrightarrow> mset (merge_sort C lt rs) = mset rs \<and>
       sorted_wrt (\<lambda>a b. \<not> lt b a) (merge_sort C lt rs)) \<and>
     (\<forall>f rs vs. length rs = length vs \<and> distinct (map key_prefix rs) \<longrightarrow> reduce_by_key C f rs vs = vs)"

lemma bytes_less_strict: "strict_on UNIV bytes_less"
proof -
  have asym: "bytes_less xs ys \<Longrightarrow> \<not> bytes_less ys xs" for xs ys
    by (induction xs ys rule: bytes_less.induct) (auto split: if_splits)
  have trans: "bytes_less xs zs \<Longrightarrow> bytes_less xs ys \<or> bytes_less ys zs" for xs ys zs
  proof (induction xs zs arbitrary: ys rule: bytes_less.induct)
    case (2 b bs)
    then show ?case by (cases ys) auto
  next
    case (3 a as b bs)
    then show ?case by (cases ys) (auto split: if_splits)
  qed simp
  from asym trans show ?thesis unfolding strict_on_def by blast
qed

lemma prefix_strict: "strict_on A CustomTopNStringPrefixLessThan"
  unfolding strict_on_def CustomTopNStringPrefixLessThan_def by (auto simp: not_less)

lemma string_less_iff:
  "CustomTopNStringLessThan str x y \<longleftrightarrow> key_prefix x < key_prefix y \<or>
     key_prefix x = key_prefix y \<and> bytes_less (str (row_id x)) (str (row_id y))"
  by (auto simp: CustomTopNStringLessThan_def)

lemma string_strict: "strict_on A (CustomTopNStringLessThan str)"
  unfolding strict_on_def
proof (intro conjI ballI impI)
  fix x y assume "CustomTopNStringLessThan str x y"
  with strict_on_asym [OF bytes_less_strict UNIV_I UNIV_I, of "str (row_id x)" "str (row_id y)"]
  show "\<not> CustomTopNStringLessThan str y x" unfolding string_less_iff by (metis less_asym less_irrefl)
next
  fix x y z assume le: "\<not> CustomTopNStringLessThan str x y" "\<not> CustomTopNStringLessThan str y z"
  then have "key_prefix y \<le> key_prefix x" "key_prefix z \<le> key_prefix y" unfolding string_less_iff by (meson not_less)+
  moreover have "\<not> bytes_less (str (row_id x)) (str (row_id z))" if "key_prefix x = key_prefix y" "key_prefix y = key_prefix z"
    using le that strict_on_trans [OF bytes_less_strict UNIV_I UNIV_I UNIV_I, of "str (row_id x)" "str (row_id y)" "str (row_id z)"]
    unfolding string_less_iff by meson
  ultimately show "\<not> CustomTopNStringLessThan str x z" unfolding string_less_iff by (metis antisym leD order_trans)
qed

lemma greater_strict: "strict_on A (CustomTopNStringGreaterThan str)"
proof -
  have "CustomTopNStringGreaterThan str = (\<lambda>x y. CustomTopNStringLessThan str y x)"
    by (intro ext) (auto simp: CustomTopNStringGreaterThan_def CustomTopNStringLessThan_def)
  then show ?thesis using strict_on_swap [OF string_strict] by simp
qed

lemma dropWhile_below:
  "k < n \<Longrightarrow> n < 2 ^ 32 \<Longrightarrow> dropWhile (\<lambda>g. g < of_nat k) (map of_nat [0..<n]) = map (of_nat :: nat \<Rightarrow> u32) [k..<n]"
proof -
  assume k: "k < n" "n < 2 ^ 32"
  have split: "map of_nat [0..<n] = map (of_nat :: nat \<Rightarrow> u32) [0..<k] @ map of_nat [k..<n]"
    using k by (metis less_imp_le_nat map_append upt_add_eq_append le_add_diff_inverse zero_le)
  have "(of_nat i :: u32) < of_nat k" if "i < k" for i
    using that k by (simp add: word_less_nat_alt unat_of_nat)
  then have "dropWhile (\<lambda>g. g < of_nat k) (map of_nat [0..<n]) = dropWhile (\<lambda>g. g < of_nat k) (map (of_nat :: nat \<Rightarrow> u32) [k..<n])"
    unfolding split by (intro dropWhile_append2) auto
  then show ?thesis using k by (simp add: upt_conv_Cons)
qed

definition string_before :: "(u32 \<Rightarrow> u8 list) \<Rightarrow> OrderByType \<Rightarrow> top_n_record \<Rightarrow> top_n_record \<Rightarrow> bool" where
  "string_before str order = (if order = ASCENDING then CustomTopNStringLessThan str else CustomTopNStringGreaterThan str)"

text \<open>C18: the sort of the top strings, ascending or descending, takes the records with the smallest
  prefixes.  With prefixes that differ and fewer rows wanted than there are, the first ones are in the order
  asked for, but every one of them has a smaller prefix than the rest: \<open>DESC\<close> gets the smallest strings too.\<close>

theorem top_strings_are_the_smallest:
  assumes C: "cub_documented C" and prefixes: "distinct (map key_prefix records)"
    and n: "unat k < length records" "length records < 2 ^ 32"
  shows "\<exists>top rest. sort_top_records C order str k records = Inr (k, top @ rest) \<and> length top = unat k \<and>
    mset (top @ rest) = mset records \<and> sorted_wrt (\<lambda>a b. \<not> string_before str order b a) top \<and>
    (\<forall>r \<in> set top. \<forall>s \<in> set rest. key_prefix r < key_prefix s)"
proof -
  define ms where "ms = merge_sort C CustomTopNStringPrefixLessThan records"
  have ms: "mset ms = mset records" "sorted_wrt (\<lambda>a b. \<not> CustomTopNStringPrefixLessThan b a) ms"
    using C prefix_strict unfolding ms_def cub_documented_def by blast+
  have len: "length ms = length records" using mset_eq_length [OF ms(1)] .
  have dist: "distinct (map key_prefix ms)" using prefixes mset_eq_imp_distinct_iff [of "map key_prefix ms" "map key_prefix records"] ms(1)
    by (simp add: mset_map)
  have groups: "reduce_by_key C CustomTopNMin ms (map of_nat [0..<length records]) = map of_nat [0..<length records]"
    using C dist len by (simp add: cub_documented_def)
  have "dropWhile (\<lambda>g. g < k) (map of_nat [0..<length records]) = map (of_nat :: nat \<Rightarrow> u32) [unat k..<length records]"
    using dropWhile_below [OF n] by simp
  then have top: "top_groups_calculator (map of_nat [0..<length records]) k = Inr k"
    using n by (simp add: top_groups_calculator_def upt_conv_Cons)
  have strict: "strict_on (set (take (unat k) ms)) (string_before str order)"
    by (simp add: string_before_def string_strict greater_strict)
  let ?top = "merge_sort C (string_before str order) (take (unat k) ms)" and ?rest = "drop (unat k) ms"
  have sorted: "mset ?top = mset (take (unat k) ms)" "sorted_wrt (\<lambda>a b. \<not> string_before str order b a) ?top"
    using C strict unfolding cub_documented_def by blast+
  have "sort_top_records C order str k records = Inr (k, ?top @ ?rest)"
    using groups top n len by (simp add: sort_top_records_def Let_def string_before_def flip: ms_def)
  moreover have "length ?top = unat k" using mset_eq_length [OF sorted(1)] n len by simp
  moreover have "mset (?top @ ?rest) = mset records"
    using sorted(1) ms(1) by (metis append_take_drop_id mset_append)
  moreover have "key_prefix r < key_prefix s" if "r \<in> set ?top" "s \<in> set ?rest" for r s
  proof -
    have r: "r \<in> set (take (unat k) ms)" using that(1) mset_eq_setD [OF sorted(1)] by simp
    have "sorted_wrt (\<lambda>a b. \<not> CustomTopNStringPrefixLessThan b a) (take (unat k) ms @ drop (unat k) ms)" using ms(2) by simp
    with r that(2) have "key_prefix r \<le> key_prefix s"
      unfolding sorted_wrt_append by (auto simp: CustomTopNStringPrefixLessThan_def not_less)
    moreover have "distinct (map key_prefix (take (unat k) ms) @ map key_prefix (drop (unat k) ms))"
      using dist by (simp flip: map_append)
    then have "key_prefix r \<noteq> key_prefix s" using r that(2) by (auto simp: disjoint_iff)
    ultimately show ?thesis by simp
  qed
  ultimately show ?thesis using sorted(2) by blast
qed

text \<open>Three records, the strings b, a and c; the two "largest" in descending order are b and a.\<close>

definition letter :: "u32 \<Rightarrow> u8 list" where
  "letter r = (if r = 0 then [98] else if r = 1 then [97] else [99])"

definition letter_records :: "top_n_record list" where
  "letter_records = [\<lparr>row_id = 0, key_prefix = 0x62000000\<rparr>, \<lparr>row_id = 1, key_prefix = 0x61000000\<rparr>, \<lparr>row_id = 2, key_prefix = 0x63000000\<rparr>]"

lemma mini_cub_documented: "cub_documented mini_cub"
  by (simp add: cub_documented_def mini_cub_def sort_by_sorted)

theorem top_strings_are_the_smallest_witness:
  "\<exists>top rest. sort_top_records mini_cub DESCENDING letter 2 letter_records = Inr (2, top @ rest) \<and>
     map (letter \<circ> row_id) (top @ rest) = [[98], [97], [99]] \<and> (\<forall>r \<in> set top. \<forall>s \<in> set rest. key_prefix r < key_prefix s)"
proof -
  have n: "unat (2 :: u32) < length letter_records" "length letter_records < 2 ^ 32" "distinct (map key_prefix letter_records)"
    by (simp_all add: letter_records_def)
  from top_strings_are_the_smallest [OF mini_cub_documented n(3,1,2), of DESCENDING letter]
  obtain top rest where run: "sort_top_records mini_cub DESCENDING letter 2 letter_records = Inr (2, top @ rest)"
    "\<forall>r \<in> set top. \<forall>s \<in> set rest. key_prefix r < key_prefix s" by blast
  have "(case sort_top_records mini_cub DESCENDING letter 2 letter_records of Inl e \<Rightarrow> [] | Inr (m, rs) \<Rightarrow> map (letter \<circ> row_id) rs) =
      [[98], [97], [99]]" by code_simp
  with run show ?thesis by auto
qed

end
