(* ===== verification/Spec2Isabelle.thy ===== *)
theory Spec2Isabelle
  imports Prelude Column_Types Columns Buffer_Pool Cache_Race Materialize_Rows Materialize_Values Executor Hash_Single Table_Scan String_Patterns Gathered_Twice Join_Properties Sort_Properties
begin

text \<open>
  A model of Sirius, a GPU execution engine for DuckDB queries, and the properties that make its parts
  correct.  DuckDB plans a query; Sirius turns the plan into GPU operators, builds pipelines from them and
  runs every pipeline on columns that live in device memory.  Paths below are relative to the
  repository.

  Values, state and errors.  Machine integers are words where the code computes with them at their
  width, and natural numbers where they are indices far below \<open>2 ^ 63\<close>.  A call of the code is a
  function to \<open>exn + 'a\<close>, or, when it changes state, a state-passing \<open>act\<close> (theory Prelude); exceptions
  are values, and what C++ leaves undefined is the exception \<open>UndefinedBehaviour\<close>.  Library code that
  is not in the repository is a parameter: the RMM memory pool (\<open>rmm_pool\<close>), the constants and type
  queries of DuckDB (\<open>duckdb_env\<close>), the catalog, and the hash and arrival order of GPU blocks.

  Column types (Column_Types): \<open>GPUColumnType\<close>, its sizes, and the conversions between DuckDB, Sirius
  and cuDF types, up to alias and collation (\<open>src/src/include/gpu_columns.hpp\<close>, \<open>src/src/gpu_columns.cpp\<close>,
  \<open>src/src/include/cudf/cudf_utils.hpp\<close>).  Round trips (the one through cuDF widens decimals), and agreement of the executor's conversion.
  Columns (Columns): \<open>DataWrapper\<close>, \<open>GPUColumn\<close>, \<open>GPUIntermediateRelation\<close>.

  Buffer manager (Arena, Buffer_Manager, Buffer_Pool, Cache_Race; \<open>src/src/gpu_buffer_manager.cpp\<close>):
  the caching regions are bump arenas, the processing region is the pool.  The pool invariant holds in
  every reachable state, cached blocks are disjoint, a reset gives everything back.  Cache_Race models
  concurrent caching requests at the granularity of their atomic operations on the cursors: taking a refused
  advance back is a step of its own, so that one block can be granted twice.

  Device memory (Device_Memory): the arrays that the pointers of the buffer manager hold, and a calculus
  for computations that end normally or out of memory (\<open>ends\<close>).

  Late materialization (Materialize_Rows, Materialize_Values; \<open>src/src/operator/gpu_materialize.cpp\<close>,
  \<open>src/src/cuda/operator/materialize.cu\<close>): row ids compose (each shared array once, its block going back to the pool), and materializing gathers the values,
  offsets and validity bits of exactly the selected rows.

  Pipelines (Pipelines, Pipeline_Order, Executor; \<open>src/src/gpu_pipeline.cpp\<close>,
  \<open>src/src/gpu_meta_pipeline.cpp\<close>, \<open>src/src/gpu_executor.cpp\<close> and the operators' build functions): the
  pipelines of a plan, the order in which the executor schedules them and the relations that flow from
  source through operators to sink.  Scheduling ends and respects every dependency.  The scheduling
  loop has fuel; \<open>Initialize_schedules\<close> shows that the square of the number of meta pipelines is enough.

  Kernels (Kernel_Grid): the rows a thread works on, the prefix sums and atomic additions by which
  threads get places for their results, and scattered writes in any order
  (\<open>src/src/cuda/operator/cuda_helper.cuh\<close>).  The order in which blocks arrive is a parameter.

  Hash join (Hash_Table, Hash_Probe, Hash_Single; \<open>src/src/cuda/operator/hash_join_inner.cu\<close>,
  \<open>hash_join_right.cu\<close>, \<open>hash_join_single.cu\<close>): building the table is a step relation over the
  interleaved memory accesses of all threads.  Every run of it ends under a bound on the load and keeps
  the invariant of linear probing, and build and probe together are a join by nested loops, for inner, semi, anti, right,
  single and mark joins; the cases where the code hangs or loses rows are theorems too.

  Table scan (Scan_Filter, Table_Scan; \<open>src/src/cuda/operator/arbitrary_expression.cu\<close>,
  \<open>src/src/operator/gpu_physical_table_scan.cpp\<close>): the constants of pushed-down filters in their byte
  buffer, the filter kernel, and the scan of a cached table, which selects exactly the rows in which every
  filter is true; \<open>filter_meaning\<close> is the meaning of a filter, and \<open>null_tests_covered\<close> the condition under
  which skipping the tests for NULL of a conjunction, as the code does, does not show.

  Strings (Kmp_Automaton, String_Matching, String_Patterns; \<open>src/src/cuda/operator/strings_matching.cu\<close>,
  \<open>src/src/cuda/expression_executor/gpu_dispatch_string.cu\<close>): the search automaton of a term, the
  kernels that run it over chunks of the character data, patterns of several terms, and the dispatch of
  the string predicates.

  Expressions (Cudf_Library, Expressions, Expression_Executor, Expression_Functions, Expression_Select;
  \<open>src/src/expression_executor/\<close>): the state tree of an expression, the null checks, every expression
  class and function, projections and filters.  cuDF's column functions (\<open>cudf_ops\<close>) and DuckDB's values
  are parameters; \<open>cudf_documented\<close> states what cuDF documents, row by row.  Row_Semantics gives an
  expression a value in a row, independent of columns and devices, and Executor_Classes and
  Executor_Refinement show that the executor computes it; Device_Frames holds what reading a column
  leaves alone, Filter_Rows the columns a filter puts out, and Mini_Cudf a small library that meets the
  documentation.  Expression_Properties collects the properties, and where the code departs from SQL;
  Gathered_Twice shows what a second reference to a gathered column reads.

  Hash join operator (Join_Kernels, Cudf_Join, Hash_Join; \<open>src/src/operator/gpu_physical_hash_join.cpp\<close>,
  \<open>src/src/cuda/cudf/cudf_join.cu\<close>): construction, \<open>Sink\<close>, \<open>Execute\<close> and \<open>GetData\<close> on device memory.  A
  launch is a parameter that returns one of the outcomes of the kernel's relation, and throws \<open>Hangs\<close>
  when there is none (locale \<open>launch\<close>); cuDF's four join functions are parameters.  Join_Frames,
  Join_Runs and Join_Sides follow the arrays an operator allocates, writes and frees, Join_Rows shows
  that a semi join emits the matching rows, and Join_Properties states it.

  Sorting (Cudf_Sort, Sort_Limit; \<open>src/src/cuda/cudf/cudf_orderby.cu\<close>,
  \<open>src/src/operator/gpu_physical_order.cpp\<close>, \<open>gpu_physical_top_n.cpp\<close>, \<open>gpu_physical_limit.cpp\<close>): the
  order, top-n and limit operators, cuDF's and CUB's sorts being parameters.  Column_Frames follows
  columns to cuDF and back and has the calculus \<open>grows\<close> for operations that only add arrays; Sort_Rows
  shows which rows the operators emit, and Sort_Properties that libraries can be as assumed, and what the
  custom sort of the top strings does.

  Not modelled.  Branches for \<open>use_cudf = false\<close>, which the build does not select; the temporary
  columns and scalars of cuDF, which live outside the buffer manager; \<open>setFromCudfScalar\<close> and the
  row-id branch of \<open>setFromCudfColumn\<close>; logging, timing and printing; the CUDA runtime; the code under
  \<open>src/legacy\<close> and the kernels without a caller, which are not part of the build.  DuckDB, cuDF, CUB and
  RMM are not in the repository and enter as parameters only.

  Bounds.  Kernel theorems assume fewer than \<open>2 ^ 64\<close> rows, the single-match join at most \<open>2 ^ 31\<close> build
  rows, expressions and joins at most \<open>2 ^ 31 - 1\<close> rows, as the code does; memory theorems say that a computation that does not run out of memory has the stated result.
\<close>

end
